(* ===== verification/Prelude.thy ===== *)
theory Prelude
  imports Complex_Main "HOL-Library.Sublist"
begin

text \<open>
  Shared vocabulary of the development.

  \<^item> JavaScript numbers are modelled as exact rationals (\<open>jsnum\<close>): the code's
    arithmetic on timestamps, scores and token counts is written out literally, rounding of
    IEEE doubles is not modelled.  Where the code tests \<open>Number.isFinite\<close> on a value it was
    handed, the argument has the type \<open>jsval\<close>, whose \<open>NonFinite\<close> stands for \<open>NaN\<close> and the
    two infinities.
  \<^item> Optional properties and \<open>undefined\<close>/\<open>null\<close> are \<open>option\<close>; \<open>nullish\<close> is the
    operator \<open>??\<close>.
  \<^item> Strings are lists of code units below 256 (\<open>char\<close>).
  \<^item> \<open>timed_run\<close> runs a component's step function over a list of operations, each with the
    value \<open>Date.now()\<close> returned for it; the locale \<open>timed_machine\<close> is the contract by which a
    component's invariant survives every such run.
\<close>

section \<open>Numbers, options\<close>

type_synonym jsnum = rat

datatype jsval = Finite jsnum | NonFinite

definition nullish :: "'a option \<Rightarrow> 'a \<Rightarrow> 'a" where
  "nullish x d = (case x of None \<Rightarrow> d | Some v \<Rightarrow> v)"

lemma nullish_simps [simp]: "nullish None d = d" "nullish (Some v) d = v"
  by (simp_all add: nullish_def)

definition js_floor :: "jsnum \<Rightarrow> jsnum" where
  "js_floor x = of_int \<lfloor>x\<rfloor>"

named_theorems floor_simps \<open>bounds of the JavaScript floor\<close>

lemma js_floor_le [floor_simps]: "js_floor x \<le> x"
  by (simp add: js_floor_def)

lemma js_floor_gt [floor_simps]: "x < js_floor x + 1"
  by (simp add: js_floor_def) linarith

lemma js_floor_mono: "x \<le> y \<Longrightarrow> js_floor x \<le> js_floor y"
  by (simp add: js_floor_def floor_mono)

lemma js_floor_of_int [simp]: "js_floor (of_int n) = of_int n"
  by (simp add: js_floor_def)

lemma js_floor_of_nat [simp]: "js_floor (of_nat n) = of_nat n"
  by (simp add: js_floor_def)

lemma js_floor_numeral [simp]: "js_floor (numeral n) = numeral n"
  by (simp add: js_floor_def)

lemma js_floor_0 [simp]: "js_floor 0 = 0"
  by (simp add: js_floor_def)

lemma js_floor_1 [simp]: "js_floor 1 = 1"
  by (simp add: js_floor_def)

lemma js_floor_nonneg: "0 \<le> x \<Longrightarrow> 0 \<le> js_floor x"
  using js_floor_mono [of 0 x] by simp

lemma js_floor_idem [simp]: "js_floor (js_floor x) = js_floor x"
  by (simp add: js_floor_def)

section \<open>Strings\<close>

text \<open>White space of \<open>String.prototype.trim\<close> below code unit 256.\<close>

definition js_space :: "char \<Rightarrow> bool" where
  "js_space c \<longleftrightarrow> of_char c \<in> {9, 10, 11, 12, 13, 32, 160 :: nat}"

definition js_trim :: "string \<Rightarrow> string" where
  "js_trim s = rev (dropWhile js_space (rev (dropWhile js_space s)))"

text \<open>Lower case of the Latin-1 range: \<open>A-Z\<close> and the letters 192..222 but 215.\<close>

definition lower_char :: "char \<Rightarrow> char" where
  "lower_char c =
     (let n = of_char c :: nat
      in if (65 \<le> n \<and> n \<le> 90) \<or> (192 \<le> n \<and> n \<le> 222 \<and> n \<noteq> 215) then char_of (n + 32) else c)"

definition js_lower :: "string \<Rightarrow> string" where
  "js_lower s = map lower_char s"

definition js_includes :: "string \<Rightarrow> string \<Rightarrow> bool" where
  "js_includes hay needle \<longleftrightarrow> sublist needle hay"

definition js_starts_with :: "string \<Rightarrow> string \<Rightarrow> bool" where
  "js_starts_with s p \<longleftrightarrow> prefix p s"

lemma js_trim_Nil [simp]: "js_trim [] = []"
  by (simp add: js_trim_def)

lemma length_js_trim: "length (js_trim s) \<le> length s"
proof -
  have "length (js_trim s) \<le> length (dropWhile js_space s)"
    unfolding js_trim_def by (metis length_dropWhile_le length_rev)
  then show ?thesis using length_dropWhile_le order_trans by blast
qed

lemma dropWhile_rev_dropWhile:
  "dropWhile P (rev (dropWhile P (rev (dropWhile P s)))) = rev (dropWhile P (rev (dropWhile P s)))"
proof (cases "dropWhile P s")
  case Nil
  then show ?thesis by (simp only: rev.simps dropWhile.simps)
next
  case (Cons c cs)
  then have "\<not> P c" by (metis hd_dropWhile list.discI list.sel(1))
  then have "rev (dropWhile P (rev (c # cs))) = c # rev (dropWhile P (rev cs))"
    by (simp add: dropWhile_append)
  with \<open>\<not> P c\<close> Cons show ?thesis by (simp del: dropWhile_eq_Nil_conv)
qed

lemma js_trim_idem [simp]: "js_trim (js_trim s) = js_trim s"
  unfolding js_trim_def using dropWhile_rev_dropWhile [of js_space s]
  by simp

text \<open>Decimal rendering of an index (\<open>`${n}`\<close>), the test \<open>/^\d+$/\<close> and \<open>Number(...)\<close>
  on what passes it.\<close>

definition digit_char :: "nat \<Rightarrow> char" where
  "digit_char d = char_of (48 + d)"

definition is_digit :: "char \<Rightarrow> bool" where
  "is_digit c \<longleftrightarrow> 48 \<le> (of_char c :: nat) \<and> (of_char c :: nat) \<le> 57"

fun show_nat :: "nat \<Rightarrow> string" where
  "show_nat n = (if n < 10 then [digit_char n] else show_nat (n div 10) @ [digit_char (n mod 10)])"

declare show_nat.simps [simp del]

definition all_digits :: "string \<Rightarrow> bool" where
  "all_digits s \<longleftrightarrow> s \<noteq> [] \<and> list_all is_digit s"

definition read_nat :: "string \<Rightarrow> nat" where
  "read_nat s = foldl (\<lambda>a c. a * 10 + (of_char c - 48)) 0 s"

lemma of_char_digit [simp]: "d < 10 \<Longrightarrow> (of_char (digit_char d) :: nat) = 48 + d"
  by (simp add: digit_char_def)

lemma is_digit_digit_char [simp]: "d < 10 \<Longrightarrow> is_digit (digit_char d)"
  by (simp add: is_digit_def)

lemma all_digits_show_nat [simp]: "all_digits (show_nat n)"
proof (induction n rule: show_nat.induct)
  case (1 n)
  then show ?case
    by (cases "n < 10") (auto simp: show_nat.simps [of n] all_digits_def)
qed

lemma read_show_nat [simp]: "read_nat (show_nat n) = n"
proof (induction n rule: show_nat.induct)
  case (1 n)
  then show ?case
    by (cases "n < 10") (auto simp: show_nat.simps [of n] read_nat_def)
qed

lemma show_nat_inject [simp]: "show_nat m = show_nat n \<longleftrightarrow> m = n"
  by (metis read_show_nat)

section \<open>Runs of timed operations\<close>

text \<open>
  A component is driven by calls, each at the time \<open>Date.now()\<close> gives for it.
  \<open>clock_ok t ops\<close>: the clock starts at \<open>t\<close> or later and does not run backwards.
\<close>

fun timed_run :: "('op \<Rightarrow> jsnum \<Rightarrow> 's \<Rightarrow> 's) \<Rightarrow> 's \<Rightarrow> ('op \<times> jsnum) list \<Rightarrow> 's" where
  "timed_run step s [] = s"
| "timed_run step s ((x, t) # ops) = timed_run step (step x t s) ops"

fun clock_ok :: "jsnum \<Rightarrow> ('op \<times> jsnum) list \<Rightarrow> bool" where
  "clock_ok t [] = True"
| "clock_ok t ((x, t') # ops) = (t \<le> t' \<and> clock_ok t' ops)"

fun last_time :: "jsnum \<Rightarrow> ('op \<times> jsnum) list \<Rightarrow> jsnum" where
  "last_time t [] = t"
| "last_time t ((x, t') # ops) = last_time t' ops"

lemma last_time_ge: "clock_ok t ops \<Longrightarrow> t \<le> last_time t ops"
  by (induction t ops rule: clock_ok.induct) (auto intro: order_trans)

lemma timed_run_append:
  "timed_run step s (xs @ ys) = timed_run step (timed_run step s xs) ys"
  by (induction step s xs rule: timed_run.induct) auto

locale timed_machine =
  fixes step :: "'op \<Rightarrow> jsnum \<Rightarrow> 's \<Rightarrow> 's"
    and inv :: "jsnum \<Rightarrow> 's \<Rightarrow> bool"
  assumes inv_later: "inv t s \<Longrightarrow> t \<le> t' \<Longrightarrow> inv t' s"
    and inv_step: "inv t s \<Longrightarrow> inv t (step x t s)"
begin

lemma inv_run: "inv t s \<Longrightarrow> clock_ok t ops \<Longrightarrow> inv (last_time t ops) (timed_run step s ops)"
proof (induction t ops arbitrary: s rule: clock_ok.induct)
  case (1 t)
  then show ?case by simp
next
  case (2 t x t' ops)
  then have "inv t' (step x t' s)" by (auto intro: inv_step inv_later)
  with 2 show ?case by simp
qed

end

text \<open>The same contract for components whose invariant does not mention the clock.\<close>

locale stable_machine =
  fixes step :: "'op \<Rightarrow> jsnum \<Rightarrow> 's \<Rightarrow> 's"
    and inv :: "'s \<Rightarrow> bool"
  assumes keeps: "inv s \<Longrightarrow> inv (step x t s)"
begin

lemma keeps_run: "inv s \<Longrightarrow> inv (timed_run step s ops)"
  by (induction ops arbitrary: s) (auto simp: keeps)

end

sublocale stable_machine \<subseteq> timed_machine step "\<lambda>_. inv"
  by unfold_locales (auto intro: keeps)

end
