(* ===== verification/JsMap.thy ===== *)
theory JsMap
  imports Prelude
begin

text \<open>
  The insertion-ordered \<open>Map\<close> of JavaScript as an association list with distinct keys.
  \<open>jm_set\<close> keeps the position of a key that is present and appends a new one, \<open>jm_delete\<close>
  removes it, iteration is the list's order, and \<open>keys().next().value\<close> is the head's key.
  The locale \<open>ordered_dict\<close> is the interface the stateful components rely on; it is
  interpreted on the association list below.
\<close>

type_synonym ('k, 'v) jsmap = "('k \<times> 'v) list"

definition jm_ok :: "('k, 'v) jsmap \<Rightarrow> bool" where
  "jm_ok m \<longleftrightarrow> distinct (map fst m)"

definition jm_get :: "('k, 'v) jsmap \<Rightarrow> 'k \<Rightarrow> 'v option" where
  "jm_get m k = map_of m k"

definition jm_has :: "('k, 'v) jsmap \<Rightarrow> 'k \<Rightarrow> bool" where
  "jm_has m k \<longleftrightarrow> jm_get m k \<noteq> None"

fun jm_set :: "'k \<Rightarrow> 'v \<Rightarrow> ('k, 'v) jsmap \<Rightarrow> ('k, 'v) jsmap" where
  "jm_set k v [] = [(k, v)]"
| "jm_set k v ((k', v') # m) = (if k' = k then (k, v) # m else (k', v') # jm_set k v m)"

definition jm_delete :: "'k \<Rightarrow> ('k, 'v) jsmap \<Rightarrow> ('k, 'v) jsmap" where
  "jm_delete k m = filter (\<lambda>e. fst e \<noteq> k) m"

text \<open>A \<open>for ... of entries()\<close> loop that deletes the entries satisfying \<open>p\<close>.\<close>

definition jm_remove_if :: "('k \<Rightarrow> 'v \<Rightarrow> bool) \<Rightarrow> ('k, 'v) jsmap \<Rightarrow> ('k, 'v) jsmap" where
  "jm_remove_if p m = filter (\<lambda>(k, v). \<not> p k v) m"

definition jm_count :: "('k \<Rightarrow> 'v \<Rightarrow> bool) \<Rightarrow> ('k, 'v) jsmap \<Rightarrow> nat" where
  "jm_count p m = length (filter (\<lambda>(k, v). p k v) m)"

definition jm_first_key :: "('k, 'v) jsmap \<Rightarrow> 'k option" where
  "jm_first_key m = (case m of [] \<Rightarrow> None | e # _ \<Rightarrow> Some (fst e))"

named_theorems jm_simps \<open>lookup laws of the ordered map\<close>

lemma jm_get_Nil [simp]: "jm_get [] k = None"
  by (simp add: jm_get_def)

lemma jm_get_Cons [simp]: "jm_get ((k', v) # m) k = (if k' = k then Some v else jm_get m k)"
  by (simp add: jm_get_def)

lemma jm_ok_Nil [simp]: "jm_ok []"
  by (simp add: jm_ok_def)

lemma jm_ok_Cons [simp]: "jm_ok ((k, v) # m) \<longleftrightarrow> jm_get m k = None \<and> jm_ok m"
  by (auto simp: jm_ok_def jm_get_def map_of_eq_None_iff)

lemma jm_get_set [jm_simps]: "jm_get (jm_set k v m) k' = (if k' = k then Some v else jm_get m k')"
  by (induction k v m rule: jm_set.induct) auto

lemma jm_get_delete [jm_simps]: "jm_get (jm_delete k m) k' = (if k' = k then None else jm_get m k')"
  by (induction m) (auto simp: jm_delete_def)

lemma jm_ok_set [intro]: "jm_ok m \<Longrightarrow> jm_ok (jm_set k v m)"
  by (induction k v m rule: jm_set.induct) (auto simp: jm_get_set)

lemma jm_ok_filter: "jm_ok m \<Longrightarrow> jm_ok (filter p m)"
  unfolding jm_ok_def by (induction m) auto

lemma jm_ok_delete [intro]: "jm_ok m \<Longrightarrow> jm_ok (jm_delete k m)"
  by (simp add: jm_delete_def jm_ok_filter)

lemma jm_ok_remove_if [intro]: "jm_ok m \<Longrightarrow> jm_ok (jm_remove_if p m)"
  by (simp add: jm_remove_if_def jm_ok_filter)

lemma jm_get_NoneI: "k \<notin> fst ` set m \<Longrightarrow> jm_get m k = None"
  by (simp add: jm_get_def map_of_eq_None_iff)

lemma jm_get_remove_if [jm_simps]:
  "jm_ok m \<Longrightarrow> jm_get (jm_remove_if p m) k
     = (case jm_get m k of None \<Rightarrow> None | Some v \<Rightarrow> if p k v then None else Some v)"
proof (induction m)
  case Nil
  then show ?case by (simp add: jm_remove_if_def)
next
  case (Cons e m)
  obtain k' v where e: "e = (k', v)" by (cases e)
  from Cons e show ?case by (auto simp: jm_remove_if_def split: option.splits)
qed

lemma length_jm_set: "length (jm_set k v m) = (if jm_has m k then length m else Suc (length m))"
  by (induction k v m rule: jm_set.induct) (auto simp: jm_has_def)

lemma length_jm_delete_le: "length (jm_delete k m) \<le> length m"
  by (simp add: jm_delete_def)

lemma length_jm_delete: "jm_has m k \<Longrightarrow> length (jm_delete k m) < length m"
proof (induction m)
  case Nil
  then show ?case by (simp add: jm_has_def)
next
  case (Cons e m)
  then show ?case
    by (cases e) (auto simp: jm_has_def jm_delete_def le_imp_less_Suc split: if_splits)
qed

lemma length_jm_remove_if: "length (jm_remove_if p m) + jm_count p m = length m"
  by (induction m) (auto simp: jm_remove_if_def jm_count_def)

lemma length_jm_remove_if_le: "length (jm_remove_if p m) \<le> length m"
  using length_jm_remove_if [of p m] by linarith

lemma jm_first_key_has: "jm_first_key m = Some k \<Longrightarrow> jm_has m k"
  by (cases m) (auto simp: jm_first_key_def jm_has_def)

lemma jm_first_key_some: "m \<noteq> [] \<Longrightarrow> \<exists>k. jm_first_key m = Some k"
  by (cases m) (auto simp: jm_first_key_def)

lemma jm_get_mem: "jm_get m k = Some v \<Longrightarrow> (k, v) \<in> set m"
  by (simp add: jm_get_def map_of_SomeD)

lemma jm_mem_get: "jm_ok m \<Longrightarrow> (k, v) \<in> set m \<Longrightarrow> jm_get m k = Some v"
  by (simp add: jm_ok_def jm_get_def)

text \<open>The values of the map: what every stored entry satisfies.\<close>

definition jm_all :: "('k \<Rightarrow> 'v \<Rightarrow> bool) \<Rightarrow> ('k, 'v) jsmap \<Rightarrow> bool" where
  "jm_all p m \<longleftrightarrow> list_all (\<lambda>(k, v). p k v) m"

lemma jm_all_Nil [simp]: "jm_all p []"
  by (simp add: jm_all_def)

lemma jm_all_set [intro]: "jm_all p m \<Longrightarrow> p k v \<Longrightarrow> jm_all p (jm_set k v m)"
  by (induction k v m rule: jm_set.induct) (auto simp: jm_all_def)

lemma jm_all_filter: "jm_all p m \<Longrightarrow> jm_all p (filter q m)"
  by (induction m) (auto simp: jm_all_def)

lemma jm_all_delete [intro]: "jm_all p m \<Longrightarrow> jm_all p (jm_delete k m)"
  by (simp add: jm_delete_def jm_all_filter)

lemma jm_all_remove_if [intro]: "jm_all p m \<Longrightarrow> jm_all p (jm_remove_if q m)"
  by (simp add: jm_remove_if_def jm_all_filter)

lemma jm_all_get: "jm_all p m \<Longrightarrow> jm_get m k = Some v \<Longrightarrow> p k v"
  by (auto simp: jm_all_def list_all_iff dest!: jm_get_mem)

lemma jm_all_mono: "jm_all p m \<Longrightarrow> (\<And>k v. p k v \<Longrightarrow> q k v) \<Longrightarrow> jm_all q m"
  by (induction m) (auto simp: jm_all_def)

lemma jm_all_map_values: "jm_all p (map (\<lambda>(k, b). (k, f b)) m) = jm_all (\<lambda>k b. p k (f b)) m"
  by (induction m) (auto simp: jm_all_def)

lemma jm_get_map_values: "jm_get (map (\<lambda>(k, b). (k, f b)) m) k = map_option f (jm_get m k)"
  by (induction m) auto

lemma jm_ok_map_values: "jm_ok (map (\<lambda>(k, b). (k, f b)) m) = jm_ok m"
  by (induction m) (auto simp: jm_get_map_values)

text \<open>
  The interface of an ordered dictionary, as the caches and trackers use it: lookup after
  a write or a removal, and the growth of the size, from which the eviction lemma
  follows: removing a present key before writing an absent one keeps the size.
\<close>

locale ordered_dict =
  fixes get :: "'m \<Rightarrow> 'k \<Rightarrow> 'v option"
    and put :: "'k \<Rightarrow> 'v \<Rightarrow> 'm \<Rightarrow> 'm"
    and del :: "'k \<Rightarrow> 'm \<Rightarrow> 'm"
    and size_of :: "'m \<Rightarrow> nat"
  assumes get_put: "get (put k v m) k' = (if k' = k then Some v else get m k')"
    and get_del: "get (del k m) k' = (if k' = k then None else get m k')"
    and size_put: "size_of (put k v m) = (if get m k = None then Suc (size_of m) else size_of m)"
    and size_del: "get m k \<noteq> None \<Longrightarrow> size_of (del k m) < size_of m"
    and size_del_le: "size_of (del k m) \<le> size_of m"
begin

lemma put_present_size: "get m k \<noteq> None \<Longrightarrow> size_of (put k v m) = size_of m"
  by (simp add: size_put)

lemma evict_put_size:
  assumes "get m old \<noteq> None" and "size_of m \<le> cap"
  shows "size_of (put k v (del old m)) \<le> cap"
  using size_del [OF assms(1)] assms(2) by (simp add: size_put)

lemma put_room_size: "size_of m < cap \<Longrightarrow> size_of (put k v m) \<le> cap"
  by (simp add: size_put)

lemma get_put_del: "get (put k v (del old m)) k = Some v"
  by (simp add: get_put)

end

interpretation jm: ordered_dict jm_get jm_set jm_delete length
  by unfold_locales
    (auto simp: jm_get_set jm_get_delete length_jm_set jm_has_def
      intro: length_jm_delete length_jm_delete_le)

end
