(* ===== verification/RateLimits.thy ===== *)
theory RateLimits
  imports JsMap
begin

text \<open>
  \<open>lib/accounts/rate-limits.ts\<close> with the identity helpers of \<open>lib/auth/token-utils.ts\<close> it
  uses: quota keys, reset times scoped to a workspace, pruning and the rate limit test.

  A reset-time table is an ordered map from quota keys to optional times.  The account id
  claim of an access token (base64 and JSON decoding of a token issued elsewhere) is the
  parameter \<open>claim\<close>.  \<open>JSON.stringify\<close> of a string and \<open>JSON.parse\<close> of the three-element array
  a workspace key holds are written out for strings of code units below 256.
\<close>

section \<open>Quota keys\<close>

type_synonym model_family = string
type_synonym quota_key = string

datatype rate_limit_reason = QuotaReason | TokensReason | ConcurrentReason | UnknownReason

definition LUNA_RESERVE_MODEL :: string where
  "LUNA_RESERVE_MODEL = ''gpt-reserve''"

definition RATE_LIMIT_CACHE_TTL_MS :: jsnum where
  "RATE_LIMIT_CACHE_TTL_MS = 60 * 60000"

definition parseRateLimitReason :: "string option \<Rightarrow> rate_limit_reason" where
  "parseRateLimitReason code =
     (case code of
        None \<Rightarrow> UnknownReason
      | Some c \<Rightarrow>
          if c = [] then UnknownReason
          else let lc = js_lower c
               in if js_includes lc ''quota'' \<or> js_includes lc ''usage_limit'' then QuotaReason
                  else if js_includes lc ''token'' \<or> js_includes lc ''tpm'' \<or> js_includes lc ''rpm'' then TokensReason
                  else if js_includes lc ''concurrent'' \<or> js_includes lc ''parallel'' then ConcurrentReason
                  else UnknownReason)"

definition getQuotaKey :: "model_family \<Rightarrow> string option \<Rightarrow> quota_key" where
  "getQuotaKey family model =
     (case model of Some m \<Rightarrow> if m \<noteq> [] then family @ '':'' @ m else family | None \<Rightarrow> family)"

text \<open>The argument is \<open>None\<close> when it is not a number.\<close>

definition clampNonNegativeInt :: "jsval option \<Rightarrow> jsnum \<Rightarrow> jsnum" where
  "clampNonNegativeInt v fallback =
     (case v of Some (Finite x) \<Rightarrow> if x < 0 then 0 else js_floor x | _ \<Rightarrow> fallback)"

section \<open>JSON strings\<close>

definition hex_char :: "nat \<Rightarrow> char" where
  "hex_char n = (if n < 10 then char_of (48 + n) else char_of (87 + n))"

definition hex_value :: "char \<Rightarrow> nat option" where
  "hex_value c =
     (let n = of_char c :: nat
      in if 48 \<le> n \<and> n \<le> 57 then Some (n - 48)
         else if 97 \<le> n \<and> n \<le> 102 then Some (n - 87)
         else if 65 \<le> n \<and> n \<le> 70 then Some (n - 55) else None)"

definition json_escape :: "char \<Rightarrow> string" where
  "json_escape c =
     (let n = of_char c :: nat
      in if n = 34 \<or> n = 92 then [CHR 0x5C, c]
         else if n = 8 then [CHR 0x5C, CHR ''b''] else if n = 9 then [CHR 0x5C, CHR ''t'']
         else if n = 10 then [CHR 0x5C, CHR ''n''] else if n = 12 then [CHR 0x5C, CHR ''f'']
         else if n = 13 then [CHR 0x5C, CHR ''r'']
         else if n < 32 then CHR 0x5C # ''u00'' @ [hex_char (n div 16), hex_char (n mod 16)]
         else [c])"

definition json_quote :: "string \<Rightarrow> string" where
  "json_quote s = CHR 0x22 # concat (map json_escape s) @ [CHR 0x22]"

definition simple_escape :: "char \<Rightarrow> char option" where
  "simple_escape e =
     (if e \<in> {CHR 0x22, CHR 0x5C, CHR ''/''} then Some e
      else if e = CHR ''b'' then Some (char_of (8::nat)) else if e = CHR ''t'' then Some (char_of (9::nat))
      else if e = CHR ''n'' then Some (char_of (10::nat)) else if e = CHR ''f'' then Some (char_of (12::nat))
      else if e = CHR ''r'' then Some (char_of (13::nat)) else None)"

definition hex4 :: "char \<Rightarrow> char \<Rightarrow> char \<Rightarrow> char \<Rightarrow> nat option" where
  "hex4 a b c d =
     (case (hex_value a, hex_value b, hex_value c, hex_value d) of
        (Some w, Some x, Some y, Some z) \<Rightarrow> Some (((w * 16 + x) * 16 + y) * 16 + z)
      | _ \<Rightarrow> None)"

definition cons_fst :: "char \<Rightarrow> (string \<times> string) option \<Rightarrow> (string \<times> string) option" where
  "cons_fst c r = map_option (\<lambda>(s, rest). (c # s, rest)) r"

text \<open>The rest of a string literal after its opening quote: the value and what follows.
  A unicode escape above the modelled alphabet is outside this model.\<close>

fun json_body :: "string \<Rightarrow> (string \<times> string) option" where
  "json_body [] = None"
| "json_body (c # cs) =
     (if c = CHR 0x22 then Some ([], cs)
      else if c = CHR 0x5C then
        (case cs of
           [] \<Rightarrow> None
         | e # cs' \<Rightarrow>
             if e = CHR ''u'' then
               (case cs' of
                  h1 # h2 # h3 # h4 # cs'' \<Rightarrow>
                    (case hex4 h1 h2 h3 h4 of
                       Some n \<Rightarrow> if n < 256 then cons_fst (char_of n) (json_body cs'') else None
                     | None \<Rightarrow> None)
                | _ \<Rightarrow> None)
             else (case simple_escape e of Some c' \<Rightarrow> cons_fst c' (json_body cs') | None \<Rightarrow> None))
      else if (of_char c :: nat) < 32 then None
      else cons_fst c (json_body cs))"

declare json_body.simps [simp del]

definition json_skip :: "string \<Rightarrow> string" where
  "json_skip s = dropWhile (\<lambda>c. of_char c \<in> {9, 10, 13, 32 :: nat}) s"

definition json_string :: "string \<Rightarrow> (string \<times> string) option" where
  "json_string s = (case json_skip s of c # cs \<Rightarrow> if c = CHR 0x22 then json_body cs else None | [] \<Rightarrow> None)"

definition json_punct :: "char \<Rightarrow> string \<Rightarrow> string option" where
  "json_punct p s = (case json_skip s of c # cs \<Rightarrow> if c = p then Some cs else None | [] \<Rightarrow> None)"

section \<open>Workspace-scoped quota keys\<close>

definition workspace_prefix :: string where
  "workspace_prefix = CHR ''['' # json_quote ''workspace'' @ '',''"

definition workspaceQuotaKey :: "string \<Rightarrow> string \<Rightarrow> quota_key" where
  "workspaceQuotaKey key workspaceId = workspace_prefix @ json_quote workspaceId @ '','' @ json_quote key @ '']''"

text \<open>\<open>(workspaceId, quotaKey)\<close>.  After the prefix, \<open>JSON.parse\<close> yields an array of three
  elements whose last two are strings exactly when the text has this form.\<close>

definition parseWorkspaceQuotaKey :: "quota_key \<Rightarrow> (string \<times> string) option" where
  "parseWorkspaceQuotaKey key =
     (if \<not> js_starts_with key workspace_prefix then None
      else case json_string (drop (length workspace_prefix) key) of
             None \<Rightarrow> None
           | Some (workspaceId, r1) \<Rightarrow>
               (case json_punct CHR '','' r1 of
                  None \<Rightarrow> None
                | Some r2 \<Rightarrow>
                    (case json_string r2 of
                       None \<Rightarrow> None
                     | Some (quotaKey, r3) \<Rightarrow>
                         (case json_punct CHR '']'' r3 of
                            None \<Rightarrow> None
                          | Some r4 \<Rightarrow> if json_skip r4 = [] then Some (workspaceId, quotaKey) else None))))"

lemma hex_value_char: "k < 16 \<Longrightarrow> hex_value (hex_char k) = Some k"
  by (auto simp: hex_value_def hex_char_def)

lemma hex4_control: "n < 256 \<Longrightarrow> hex4 CHR ''0'' CHR ''0'' (hex_char (n div 16)) (hex_char (n mod 16)) = Some n"
  by (simp add: hex4_def hex_value_char hex_value_def [of "CHR ''0''"])

lemma char_of_eqI: "(of_char c :: nat) = n \<Longrightarrow> char_of n = c"
  by (metis char_of_char)

lemma json_body_backslash:
  "json_body (CHR 0x5C # e # r) =
     (if e = CHR ''u'' then
        (case r of h1 # h2 # h3 # h4 # r' \<Rightarrow>
           (case hex4 h1 h2 h3 h4 of
              Some n \<Rightarrow> if n < 256 then cons_fst (char_of n) (json_body r') else None | None \<Rightarrow> None)
         | _ \<Rightarrow> None)
      else (case simple_escape e of Some c' \<Rightarrow> cons_fst c' (json_body r) | None \<Rightarrow> None))"
  by (simp add: json_body.simps)

lemma json_body_plain:
  "c \<noteq> CHR 0x22 \<Longrightarrow> c \<noteq> CHR 0x5C \<Longrightarrow> 32 \<le> (of_char c :: nat) \<Longrightarrow> json_body (c # r) = cons_fst c (json_body r)"
  by (simp add: json_body.simps)

lemma json_body_quote: "json_body (CHR 0x22 # r) = Some ([], r)"
  by (simp add: json_body.simps)

lemma simple_escapes [simp]:
  "simple_escape CHR 0x22 = Some CHR 0x22" "simple_escape CHR 0x5C = Some CHR 0x5C"
  "simple_escape CHR ''b'' = Some (char_of (8::nat))" "simple_escape CHR ''t'' = Some (char_of (9::nat))"
  "simple_escape CHR ''n'' = Some (char_of (10::nat))" "simple_escape CHR ''f'' = Some (char_of (12::nat))"
  "simple_escape CHR ''r'' = Some (char_of (13::nat))"
  by (simp_all add: simple_escape_def)

lemma of_char_34: "(of_char c :: nat) = 34 \<longleftrightarrow> c = CHR 0x22"
proof -
  have "(of_char CHR 0x22 :: nat) = 34" by simp
  then show ?thesis by (metis of_char_eq_iff)
qed

lemma of_char_92: "(of_char c :: nat) = 92 \<longleftrightarrow> c = CHR 0x5C"
proof -
  have "(of_char CHR 0x5C :: nat) = 92" by simp
  then show ?thesis by (metis of_char_eq_iff)
qed

lemma json_body_escape: "json_body (json_escape c @ r) = cons_fst c (json_body r)"
proof -
  let ?n = "of_char c :: nat"
  consider "?n = 34 \<or> ?n = 92" | "?n \<in> {8, 9, 10, 12, 13}"
    | "?n < 32" "?n \<notin> {8, 9, 10, 12, 13, 34, 92}" | "32 \<le> ?n" "?n \<noteq> 34" "?n \<noteq> 92" by fastforce
  then show ?thesis
  proof cases
    case 1
    then show ?thesis by (auto simp: json_escape_def json_body_backslash of_char_34 of_char_92)
  next
    case 2
    then show ?thesis by (auto simp: json_escape_def json_body_backslash char_of_eqI)
  next
    case 3
    then have "json_escape c = CHR 0x5C # ''u00'' @ [hex_char (?n div 16), hex_char (?n mod 16)]"
      by (simp add: json_escape_def Let_def)
    with 3 show ?thesis by (simp add: json_body_backslash hex4_control)
  next
    case 4
    then show ?thesis by (simp add: json_escape_def json_body_plain of_char_34 of_char_92 Let_def)
  qed
qed

lemma json_body_escapes: "json_body (concat (map json_escape s) @ CHR 0x22 # r) = Some (s, r)"
proof (induction s)
  case (Cons c s)
  then show ?case by (simp only: concat.simps list.map append_assoc json_body_escape) (simp add: cons_fst_def)
qed (simp add: json_body_quote)

lemma json_string_quote: "json_string (json_quote s @ r) = Some (s, r)"
  using json_body_escapes [of s r] by (simp add: json_string_def json_quote_def json_skip_def)

lemma json_punct_Cons: "p \<in> {CHR '','', CHR '']''} \<Longrightarrow> json_punct p (p # r) = Some r"
  by (auto simp: json_punct_def json_skip_def)

lemma parse_workspace_key: "parseWorkspaceQuotaKey (workspaceQuotaKey key ws) = Some (ws, key)"
  using json_string_quote [of ws "'','' @ json_quote key @ '']''"] json_string_quote [of key "'']''"]
  by (simp add: parseWorkspaceQuotaKey_def workspaceQuotaKey_def js_starts_with_def json_punct_Cons json_skip_def)


section \<open>The rate-limited entity and its workspace identity\<close>

record workspace =
  ws_id :: string
  ws_name :: "string option"
  ws_enabled :: bool
  ws_disabledAt :: "jsnum option"
  ws_isDefault :: "bool option"

record codex_mirror =
  forAccountId :: string
  mirrorAccountId :: string

type_synonym rate_limit_state = "(quota_key, jsnum option) jsmap"

record limited_entity =
  rateLimitResetTimes :: rate_limit_state
  accountId :: "string option"
  access :: "string option"
  accessToken :: "string option"
  codexCliMirror :: "codex_mirror option"
  workspaces :: "workspace list option"
  currentWorkspaceIndex :: "int option"

text \<open>\<open>arr[i]?.f\<close>: \<open>undefined\<close> outside the array.\<close>

definition js_index :: "'a list \<Rightarrow> int \<Rightarrow> 'a option" where
  "js_index xs i = (if 0 \<le> i \<and> i < int (length xs) then Some (xs ! nat i) else None)"

definition truthy_string :: "string option \<Rightarrow> bool" where
  "truthy_string s \<longleftrightarrow> (case s of Some x \<Rightarrow> x \<noteq> [] | None \<Rightarrow> False)"

definition or_else :: "'a option \<Rightarrow> 'a option \<Rightarrow> 'a option" where
  "or_else x y = (case x of Some v \<Rightarrow> Some v | None \<Rightarrow> y)"

definition extractAccountId :: "(string \<Rightarrow> string option) \<Rightarrow> string option \<Rightarrow> string option" where
  "extractAccountId claim tok =
     (case tok of
        None \<Rightarrow> None
      | Some t \<Rightarrow> if t = [] then None
          else (case claim t of Some i \<Rightarrow> if js_trim i \<noteq> [] then Some i else None | None \<Rightarrow> None))"

definition isOpenAiOrgId :: "string option \<Rightarrow> bool" where
  "isOpenAiOrgId i \<longleftrightarrow> js_starts_with (js_lower (js_trim (nullish i []))) ''org-''"

definition resolveCodexAuthAccountId ::
  "(string \<Rightarrow> string option) \<Rightarrow> string option \<Rightarrow> string option \<Rightarrow> string option \<Rightarrow> string option" where
  "resolveCodexAuthAccountId claim i accessTok idTok =
     (case map_option js_trim i of
        None \<Rightarrow> None
      | Some trimmed \<Rightarrow>
          if trimmed = [] then None
          else if \<not> isOpenAiOrgId (Some trimmed) then Some trimmed
          else or_else (extractAccountId claim accessTok) (extractAccountId claim idTok))"

definition codexCliAccountIdFor ::
  "(string \<Rightarrow> string option) \<Rightarrow> string option \<Rightarrow> codex_mirror option \<Rightarrow> string option \<Rightarrow> string option
     \<Rightarrow> string option" where
  "codexCliAccountIdFor claim acc mirror accessTok idTok =
     (let trimmed = map_option js_trim acc;
          selected = (case (trimmed, mirror) of
              (Some a, Some mi) \<Rightarrow> if a \<noteq> [] \<and> forAccountId mi = a then Some (mirrorAccountId mi) else acc
            | _ \<Rightarrow> acc)
      in or_else (resolveCodexAuthAccountId claim selected accessTok idTok) selected)"

definition nativeWorkspaceIdentity ::
  "(string \<Rightarrow> string option) \<Rightarrow> string option \<Rightarrow> codex_mirror option \<Rightarrow> string option \<Rightarrow> string option" where
  "nativeWorkspaceIdentity claim accessTok mirror storedId =
     (case map_option js_trim storedId of
        None \<Rightarrow> None
      | Some i \<Rightarrow>
          if i = [] then None
          else if \<not> isOpenAiOrgId (Some i) then Some i
          else let native = codexCliAccountIdFor claim (Some i) mirror accessTok None
               in if truthy_string native \<and> \<not> isOpenAiOrgId native then native else None)"

definition selectedQuotaWorkspace ::
  "(string \<Rightarrow> string option) \<Rightarrow> 'a limited_entity_scheme \<Rightarrow> string option" where
  "selectedQuotaWorkspace claim entity =
     (let acc = or_else (access entity) (accessToken entity);
          selected = (case workspaces entity of
              Some (w # ws) \<Rightarrow> map_option ws_id (js_index (w # ws) (nullish (currentWorkspaceIndex entity) 0))
            | _ \<Rightarrow> or_else (accountId entity) (extractAccountId claim acc))
      in nativeWorkspaceIdentity claim acc (codexCliMirror entity) selected)"

section \<open>Reset times\<close>

text \<open>\<open>times[key] ?? 0\<close>\<close>

definition reset_at :: "rate_limit_state \<Rightarrow> quota_key \<Rightarrow> jsnum" where
  "reset_at limits key = (case jm_get limits key of Some (Some t) \<Rightarrow> t | _ \<Rightarrow> 0)"

definition selected_limit_step ::
  "string option \<Rightarrow> quota_key \<times> jsnum option \<Rightarrow> rate_limit_state \<Rightarrow> rate_limit_state" where
  "selected_limit_step ws e result =
     (let key = fst e;
          target = (if js_starts_with key workspace_prefix
                    then (case parseWorkspaceQuotaKey key of
                            None \<Rightarrow> None
                          | Some (w, q) \<Rightarrow> if Some w \<noteq> ws then None else Some q)
                    else Some key)
      in case (target, snd e) of
           (Some q, Some until) \<Rightarrow> jm_set q (Some (max (reset_at result q) until)) result
         | _ \<Rightarrow> result)"

definition selectedQuotaLimits ::
  "(string \<Rightarrow> string option) \<Rightarrow> 'a limited_entity_scheme \<Rightarrow> rate_limit_state" where
  "selectedQuotaLimits claim entity =
     fold (selected_limit_step (selectedQuotaWorkspace claim entity)) (rateLimitResetTimes entity) []"

text \<open>The last argument is the defaulted \<open>workspaceId\<close>.\<close>

definition quotaResetTime :: "'a limited_entity_scheme \<Rightarrow> quota_key \<Rightarrow> string option \<Rightarrow> jsnum" where
  "quotaResetTime entity key workspaceId =
     max (reset_at (rateLimitResetTimes entity) key)
         (case workspaceId of
            Some w \<Rightarrow> if w \<noteq> [] then reset_at (rateLimitResetTimes entity) (workspaceQuotaKey key w) else 0
          | None \<Rightarrow> 0)"

definition boundRateLimitCache :: "rate_limit_state \<Rightarrow> jsnum \<Rightarrow> rate_limit_state" where
  "boundRateLimitCache limits now =
     map (\<lambda>(key, until). (key, map_option (\<lambda>u. min u (now + RATE_LIMIT_CACHE_TTL_MS)) until)) limits"

definition clearExpiredRateLimits :: "jsnum \<Rightarrow> 'a limited_entity_scheme \<Rightarrow> 'a limited_entity_scheme" where
  "clearExpiredRateLimits now entity =
     entity\<lparr>rateLimitResetTimes :=
       jm_remove_if (\<lambda>key resetTime. case resetTime of Some t \<Rightarrow> now \<ge> t | None \<Rightarrow> False)
         (rateLimitResetTimes entity)\<rparr>"

definition clearAllRateLimits :: "'a limited_entity_scheme \<Rightarrow> 'a limited_entity_scheme" where
  "clearAllRateLimits entity = entity\<lparr>rateLimitResetTimes := []\<rparr>"

definition isRateLimitedForQuotaKey ::
  "(string \<Rightarrow> string option) \<Rightarrow> jsnum \<Rightarrow> 'a limited_entity_scheme \<Rightarrow> quota_key \<Rightarrow> bool" where
  "isRateLimitedForQuotaKey claim now entity key \<longleftrightarrow>
     now < quotaResetTime entity key (selectedQuotaWorkspace claim entity)"

text \<open>The answer and the entity, whose expired limits the call removes.\<close>

definition isRateLimitedForFamily ::
  "(string \<Rightarrow> string option) \<Rightarrow> jsnum \<Rightarrow> 'a limited_entity_scheme \<Rightarrow> model_family \<Rightarrow> string option
     \<Rightarrow> bool \<times> 'a limited_entity_scheme" where
  "isRateLimitedForFamily claim now entity family model =
     (let entity = clearExpiredRateLimits now entity;
          baseKey = getQuotaKey family None
      in if truthy_string model
         then if isRateLimitedForQuotaKey claim now entity (getQuotaKey family model) then (True, entity)
              else if model = Some LUNA_RESERVE_MODEL then (False, entity)
              else (isRateLimitedForQuotaKey claim now entity baseKey, entity)
         else (isRateLimitedForQuotaKey claim now entity baseKey, entity))"

datatype wait_value = WaitMs jsnum | NaN_or_Infinity | NegativeInfinity

definition formatWaitTime :: "wait_value \<Rightarrow> string" where
  "formatWaitTime ms =
     (case ms of
        NaN_or_Infinity \<Rightarrow> ''unknown''
      | _ \<Rightarrow>
          let totalSeconds = (case ms of WaitMs x \<Rightarrow> nat \<lfloor>x / 1000\<rfloor> | _ \<Rightarrow> 0);
              minutes = totalSeconds div 60;
              seconds = totalSeconds mod 60
          in if minutes > 0 then show_nat minutes @ ''m '' @ show_nat seconds @ ''s''
             else show_nat seconds @ ''s'')"


section \<open>Lemmas\<close>

lemma workspaceQuotaKey_inject [simp]:
  "workspaceQuotaKey k w = workspaceQuotaKey k' w' \<longleftrightarrow> k = k' \<and> w = w'"
  by (metis parse_workspace_key option.inject prod.inject)

lemma workspaceQuotaKey_prefix [simp]: "js_starts_with (workspaceQuotaKey k w) workspace_prefix"
  by (simp add: workspaceQuotaKey_def js_starts_with_def)

lemma nativeWorkspaceIdentity_nonempty: "nativeWorkspaceIdentity claim a m i \<noteq> Some []"
  by (auto simp: nativeWorkspaceIdentity_def truthy_string_def Let_def split: option.splits)

lemma selectedQuotaWorkspace_nonempty: "selectedQuotaWorkspace claim e \<noteq> Some []"
  unfolding selectedQuotaWorkspace_def Let_def by (rule nativeWorkspaceIdentity_nonempty)

lemma reset_at_Nil [simp]: "reset_at [] k = 0"
  by (simp add: reset_at_def)

lemma reset_at_Cons [simp]: "reset_at ((k', v) # m) k = (if k' = k then nullish v 0 else reset_at m k)"
  by (cases v) (simp_all add: reset_at_def)

lemma reset_at_set [jm_simps]: "reset_at (jm_set k' v m) k = (if k' = k then nullish v 0 else reset_at m k)"
  by (cases v) (simp_all add: reset_at_def jm_get_set)

lemma reset_at_absent: "jm_get m k = None \<Longrightarrow> reset_at m k = 0"
  by (simp add: reset_at_def)

lemma reset_at_unexpired:
  assumes "jm_ok (rateLimitResetTimes e)"
  shows "reset_at (rateLimitResetTimes (clearExpiredRateLimits now e)) k =
    (if now < reset_at (rateLimitResetTimes e) k \<or> reset_at (rateLimitResetTimes e) k = 0
     then reset_at (rateLimitResetTimes e) k else 0)"
  using assms by (auto simp: reset_at_def clearExpiredRateLimits_def jm_get_remove_if split: option.split)

lemma clearExpired_fields [simp]:
  "access (clearExpiredRateLimits now e) = access e"
  "accessToken (clearExpiredRateLimits now e) = accessToken e"
  "accountId (clearExpiredRateLimits now e) = accountId e"
  "workspaces (clearExpiredRateLimits now e) = workspaces e"
  "codexCliMirror (clearExpiredRateLimits now e) = codexCliMirror e"
  "currentWorkspaceIndex (clearExpiredRateLimits now e) = currentWorkspaceIndex e"
  "limited_entity.more (clearExpiredRateLimits now e) = limited_entity.more e"
  by (simp_all add: clearExpiredRateLimits_def)

lemma selectedQuotaWorkspace_unexpired [simp]:
  "selectedQuotaWorkspace claim (clearExpiredRateLimits now e) = selectedQuotaWorkspace claim e"
  unfolding selectedQuotaWorkspace_def clearExpired_fields ..

lemma limited_unexpired:
  assumes "jm_ok (rateLimitResetTimes e)" and "0 \<le> now"
  shows "now < quotaResetTime (clearExpiredRateLimits now e) k w \<longleftrightarrow> now < quotaResetTime e k w"
  using assms by (auto simp: quotaResetTime_def reset_at_unexpired less_max_iff_disj split: option.split)

lemma jm_ok_unexpired: "jm_ok (rateLimitResetTimes e) \<Longrightarrow> jm_ok (rateLimitResetTimes (clearExpiredRateLimits now e))"
  by (simp add: clearExpiredRateLimits_def jm_ok_remove_if)

text \<open>The bounds the entries of a table put on one key, for the selected workspace.\<close>

definition limit_in :: "string option \<Rightarrow> quota_key \<Rightarrow> rate_limit_state \<Rightarrow> jsnum" where
  "limit_in ws key m =
     max (reset_at m key) (case ws of Some w \<Rightarrow> reset_at m (workspaceQuotaKey key w) | None \<Rightarrow> 0)"

definition canonical_key :: "quota_key \<Rightarrow> bool" where
  "canonical_key k \<longleftrightarrow> (case parseWorkspaceQuotaKey k of Some (w, q) \<Rightarrow> k = workspaceQuotaKey q w | None \<Rightarrow> True)"

definition limits_ok :: "rate_limit_state \<Rightarrow> bool" where
  "limits_ok m \<longleftrightarrow> jm_ok m \<and> list_all (\<lambda>(k, v). canonical_key k \<and> 0 \<le> nullish v 0) m"

lemma limits_ok_Cons:
  "limits_ok ((k, v) # m) \<longleftrightarrow> limits_ok m \<and> jm_get m k = None \<and> canonical_key k \<and> 0 \<le> nullish v 0"
  by (auto simp: limits_ok_def)

lemma selected_step_reset:
  assumes "\<not> js_starts_with key workspace_prefix" and "canonical_key k" and "0 \<le> nullish v 0" and "0 \<le> reset_at r key"
  shows "reset_at (selected_limit_step ws (k, v) r) key =
    (if k = key \<or> (\<exists>w. ws = Some w \<and> k = workspaceQuotaKey key w) then max (reset_at r key) (nullish v 0)
     else reset_at r key)"
proof (cases "js_starts_with k workspace_prefix")
  case True
  with assms(1) have "k \<noteq> key" by auto
  show ?thesis
  proof (cases "parseWorkspaceQuotaKey k")
    case None
    then have "k \<noteq> workspaceQuotaKey key w" for w using parse_workspace_key by auto
    with \<open>k \<noteq> key\<close> None True show ?thesis by (simp add: selected_limit_step_def)
  next
    case (Some wq)
    obtain w q where wq: "wq = (w, q)" by (cases wq)
    with Some assms(2) have k: "k = workspaceQuotaKey q w" by (simp add: canonical_key_def)
    show ?thesis
      using \<open>k \<noteq> key\<close> True assms(3,4)
      by (cases v) (auto simp: k parse_workspace_key selected_limit_step_def jm_simps max_def)
  qed
next
  case False
  then have "k \<noteq> workspaceQuotaKey key w" for w by auto
  with False assms(2-) show ?thesis
    by (cases v) (auto simp: selected_limit_step_def jm_simps max_def)
qed

lemma fold_selected_reset:
  assumes "\<not> js_starts_with key workspace_prefix" and "limits_ok m" and "0 \<le> reset_at r key"
  shows "reset_at (fold (selected_limit_step ws) m r) key = max (reset_at r key) (limit_in ws key m)"
  using assms(2,3)
proof (induction m arbitrary: r)
  case Nil
  then show ?case by (simp add: limit_in_def split: option.split)
next
  case (Cons e m)
  obtain k v where e: "e = (k, v)" by (cases e)
  with Cons.prems have ok: "limits_ok m" "jm_get m k = None" "canonical_key k" "0 \<le> nullish v 0"
    by (simp_all add: limits_ok_Cons)
  note step = selected_step_reset [OF assms(1) ok(3,4) Cons.prems(2), of ws]
  have "0 \<le> reset_at (selected_limit_step ws (k, v) r) key" using step Cons.prems(2) by auto
  note IH = Cons.IH [OF ok(1) this]
  have "limit_in ws key (e # m) =
     (if k = key \<or> (\<exists>w. ws = Some w \<and> k = workspaceQuotaKey key w) then max (limit_in ws key m) (nullish v 0)
      else limit_in ws key m)"
    using assms(1) ok(2,4) reset_at_absent [OF ok(2)]
    by (auto simp: e limit_in_def split: option.split)
  with IH step e show ?case by (auto simp: max.assoc max.commute max.left_commute)
qed

section \<open>Properties\<close>

text \<open>
  Workspace keys round-trip: whatever characters the workspace id and the quota key hold
  (quotes, backslashes, control characters), parsing the key built from them gives them
  back, so two keys are equal only for equal workspaces and quota keys.
\<close>

theorem workspace_key_roundtrip:
  "parseWorkspaceQuotaKey (workspaceQuotaKey key ws) = Some (ws, key)
   \<and> (workspaceQuotaKey key ws = workspaceQuotaKey key' ws') = (key = key' \<and> ws = ws')"
  by (simp add: parse_workspace_key)

text \<open>
  Limits of one workspace do not leak into another: recording a reset time under the key of a
  workspace changes the reset time of exactly that quota key in exactly that workspace.
\<close>

theorem workspace_limit_isolation:
  assumes "\<not> js_starts_with key workspace_prefix" and "ws \<noteq> []"
  shows "quotaResetTime (entity\<lparr>rateLimitResetTimes :=
           jm_set (workspaceQuotaKey key' ws') (Some t) (rateLimitResetTimes entity)\<rparr>) key (Some ws) =
    (if key' = key \<and> ws' = ws then max (reset_at (rateLimitResetTimes entity) key) t
     else quotaResetTime entity key (Some ws))"
proof -
  have "workspaceQuotaKey key' ws' \<noteq> key" using assms(1) by auto
  with assms(2) show ?thesis by (simp add: quotaResetTime_def jm_simps)
qed

definition demo_entity :: limited_entity where
  "demo_entity = \<lparr>rateLimitResetTimes = [(''codex'', Some 500), (''gpt-5.1'', None)], accountId = Some ''acct'',
     access = None, accessToken = None, codexCliMirror = None, workspaces = None, currentWorkspaceIndex = None\<rparr>"

lemma not_workspace_prefix: "c \<noteq> CHR ''['' \<Longrightarrow> \<not> js_starts_with (c # s) workspace_prefix"
  by (simp add: js_starts_with_def workspace_prefix_def)

theorem workspace_limit_isolation_witness:
  "quotaResetTime (demo_entity\<lparr>rateLimitResetTimes :=
      jm_set (workspaceQuotaKey ''codex'' ''other'') (Some 900) (rateLimitResetTimes demo_entity)\<rparr>)
      ''codex'' (Some ''acct'') = quotaResetTime demo_entity ''codex'' (Some ''acct'')"
  using workspace_limit_isolation [where key = "''codex''" and ws = "''acct''" and entity = demo_entity
      and key' = "''codex''" and ws' = "''other''" and t = 900]
  by (simp add: not_workspace_prefix)

text \<open>
  Pruning is unobservable: although it first deletes the expired entries, the rate limit test
  of a family answers exactly whether, in the table as it was, the model's own key is
  limited for the selected workspace, or (unless the model is the separately metered
  reserve) the family's key is; and every limit still in force survives the call.
\<close>

theorem rate_limit_test_exact:
  assumes "jm_ok (rateLimitResetTimes entity)" and "0 \<le> now"
  shows "(fst (isRateLimitedForFamily claim now entity family model) \<longleftrightarrow>
      (truthy_string model \<and> isRateLimitedForQuotaKey claim now entity (getQuotaKey family model))
      \<or> (model \<noteq> Some LUNA_RESERVE_MODEL \<and> isRateLimitedForQuotaKey claim now entity (getQuotaKey family None)))
    \<and> (now < reset_at (rateLimitResetTimes entity) key \<longrightarrow>
      reset_at (rateLimitResetTimes (snd (isRateLimitedForFamily claim now entity family model))) key
        = reset_at (rateLimitResetTimes entity) key)"
  using assms
  by (auto simp: isRateLimitedForFamily_def isRateLimitedForQuotaKey_def limited_unexpired Let_def
      truthy_string_def LUNA_RESERVE_MODEL_def reset_at_unexpired)

theorem rate_limit_test_exact_witness:
  "fst (isRateLimitedForFamily (\<lambda>_. None) 400 demo_entity ''codex'' (Some ''gpt-5-codex''))
   \<and> \<not> fst (isRateLimitedForFamily (\<lambda>_. None) 400 demo_entity ''codex'' (Some LUNA_RESERVE_MODEL))"
proof -
  have "jm_ok (rateLimitResetTimes demo_entity)" by (simp add: demo_entity_def)
  note exact = conjunct1 [OF rate_limit_test_exact [OF this, of 400 "\<lambda>_. None" "''codex''"]]
  show ?thesis
    using exact [of "Some ''gpt-5-codex''"] exact [of "Some LUNA_RESERVE_MODEL"]
    by (simp add: isRateLimitedForQuotaKey_def quotaResetTime_def getQuotaKey_def demo_entity_def
        LUNA_RESERVE_MODEL_def truthy_string_def reset_at_def workspaceQuotaKey_def workspace_prefix_def
        split: option.split)
qed

text \<open>
  What is shown is what is enforced: on a table of canonical keys with non-negative times, the
  limits reported for the selected workspace give, for every plain quota key, exactly the
  reset time that routing uses.
\<close>

theorem reported_limits_are_enforced:
  assumes "limits_ok (rateLimitResetTimes entity)" and "\<not> js_starts_with key workspace_prefix"
  shows "reset_at (selectedQuotaLimits claim entity) key =
    quotaResetTime entity key (selectedQuotaWorkspace claim entity)"
proof -
  have nonneg: "0 \<le> reset_at m k" if "limits_ok m" for m k
    using that by (induction m) (auto simp: limits_ok_def)
  show ?thesis
    using fold_selected_reset [OF assms(2,1), of "[]" "selectedQuotaWorkspace claim entity"]
      selectedQuotaWorkspace_nonempty [of claim entity] nonneg [OF assms(1)]
    by (auto simp: selectedQuotaLimits_def quotaResetTime_def limit_in_def max_def split: option.splits)
qed

theorem reported_limits_are_enforced_witness:
  "reset_at (selectedQuotaLimits (\<lambda>_. None) demo_entity) ''codex'' = 500"
proof -
  have "limits_ok (rateLimitResetTimes demo_entity)"
    by (simp add: demo_entity_def limits_ok_def canonical_key_def parseWorkspaceQuotaKey_def not_workspace_prefix)
  from reported_limits_are_enforced [OF this, of "''codex''" "\<lambda>_. None"]
  show ?thesis
    by (simp add: quotaResetTime_def demo_entity_def reset_at_def workspaceQuotaKey_def workspace_prefix_def
        js_starts_with_def split: option.split)
qed

text \<open>
  Bounding persisted deadlines never extends them: after loading, no limit lies more than the
  cache time beyond the load, a nearer one is kept as it is, and bounding twice is bounding
  once at the earlier of the two times.
\<close>

theorem bounded_limits:
  assumes "0 \<le> now"
  shows "reset_at (boundRateLimitCache limits now) key = min (reset_at limits key) (now + 3600000)
    \<and> boundRateLimitCache (boundRateLimitCache limits now) now' = boundRateLimitCache limits (min now now')"
proof -
  have get: "jm_get (boundRateLimitCache limits now) key =
      map_option (map_option (\<lambda>u. min u (now + RATE_LIMIT_CACHE_TTL_MS))) (jm_get limits key)"
    by (induction limits) (auto simp: boundRateLimitCache_def)
  then have "reset_at (boundRateLimitCache limits now) key = min (reset_at limits key) (now + 3600000)"
    using assms by (auto simp: reset_at_def RATE_LIMIT_CACHE_TTL_MS_def split: option.splits)
  moreover have "boundRateLimitCache (boundRateLimitCache limits now) now' = boundRateLimitCache limits (min now now')"
    by (auto simp: boundRateLimitCache_def option.map_comp o_def min_def intro!: option.map_cong0)
  ultimately show ?thesis ..
qed

theorem bounded_limits_witness:
  "reset_at (boundRateLimitCache [(''codex'', Some 90000000)] 1000) ''codex'' = 3601000"
  using bounded_limits [of 1000 "[(''codex'', Some 90000000)]" "''codex''"] by simp

end
