(* ===== verification/QuotaScheduler.thy ===== *)
theory QuotaScheduler
  imports RateLimits
begin

text \<open>
  \<open>lib/preemptive-quota-scheduler.ts\<close>: quota snapshots read from response headers, the scheduler
  that turns them into deferrals, and the percentage helpers of \<open>lib/quota-readiness.ts\<close>.

  The numbers inside a snapshot are finite, as the header reader guarantees; the finiteness
  tests on them are therefore settled by their type, those on method arguments are not.
  \<open>Headers.get\<close> is a function from names to optional values, and \<open>Date.parse\<close>, whose accepted
  formats are implementation-defined, is the parameter \<open>date_parse\<close>.
\<close>

section \<open>Number parsing\<close>

definition span_digits :: "string \<Rightarrow> string \<times> string" where
  "span_digits s = (takeWhile is_digit s, dropWhile is_digit s)"

definition signed_tail :: "string \<Rightarrow> bool \<times> string" where
  "signed_tail s =
     (case s of c # r \<Rightarrow> if c = CHR ''-'' then (True, r) else if c = CHR ''+'' then (False, r) else (False, s)
      | [] \<Rightarrow> (False, s))"

definition decimal_literal :: "string \<Rightarrow> jsnum option" where
  "decimal_literal s =
     (let (ip, r) = span_digits s;
          (fp, r) = (case r of c # r' \<Rightarrow> if c = CHR ''.'' then span_digits r' else ([], r) | [] \<Rightarrow> ([], r));
          mantissa = of_nat (read_nat (ip @ fp)) / 10 ^ length fp
      in if ip = [] \<and> fp = [] then None
         else (case r of
                 [] \<Rightarrow> Some mantissa
               | c # r' \<Rightarrow>
                   if c = CHR ''e'' \<or> c = CHR ''E''
                   then (let (neg, ds) = signed_tail r'
                         in if all_digits ds
                            then Some (if neg then mantissa / 10 ^ read_nat ds else mantissa * 10 ^ read_nat ds)
                            else None)
                   else None))"

definition radix_literal :: "string \<Rightarrow> nat option" where
  "radix_literal s =
     (case s of
        z # x # ds \<Rightarrow>
          (let base = (if x \<in> {CHR ''x'', CHR ''X''} then 16 else if x \<in> {CHR ''o'', CHR ''O''} then 8
                       else if x \<in> {CHR ''b'', CHR ''B''} then 2 else 0 :: nat)
           in if z = CHR ''0'' \<and> base \<noteq> 0 \<and> ds \<noteq> []
                 \<and> list_all (\<lambda>c. case hex_value c of Some d \<Rightarrow> d < base | None \<Rightarrow> False) ds
              then Some (foldl (\<lambda>a c. a * base + (case hex_value c of Some d \<Rightarrow> d | None \<Rightarrow> 0)) 0 ds) else None)
      | _ \<Rightarrow> None)"

text \<open>\<open>Number(s)\<close>; \<open>NaN\<close> and the infinities are \<open>NonFinite\<close>.\<close>

definition js_Number :: "string \<Rightarrow> jsval" where
  "js_Number s =
     (let t = js_trim s
      in if t = [] then Finite 0
         else case radix_literal t of
                Some n \<Rightarrow> Finite (of_nat n)
              | None \<Rightarrow>
                  (let (neg, r) = signed_tail t
                   in case decimal_literal r of
                        Some x \<Rightarrow> Finite (if neg then - x else x)
                      | None \<Rightarrow> NonFinite))"

text \<open>\<open>Number.parseInt(s, 10)\<close>: the longest digit prefix after white space and a sign.\<close>

definition js_parseInt :: "string \<Rightarrow> jsval" where
  "js_parseInt s =
     (let (neg, r) = signed_tail (dropWhile js_space s);
          ds = takeWhile is_digit r
      in if ds = [] then NonFinite
         else Finite (if neg then - of_nat (read_nat ds) else of_nat (read_nat ds)))"

section \<open>Snapshots\<close>

definition MAX_RATE_LIMIT_DELAY_MS :: jsnum where
  "MAX_RATE_LIMIT_DELAY_MS = 7 * 24 * 60 * 60 * 1000"

definition MAX_TRUSTED_RESET_AGE_MS :: jsnum where
  "MAX_TRUSTED_RESET_AGE_MS = MAX_RATE_LIMIT_DELAY_MS"

definition DEFAULT_REMAINING_PERCENT_THRESHOLD :: jsnum where
  "DEFAULT_REMAINING_PERCENT_THRESHOLD = 5"

definition DEFAULT_MAX_DEFERRAL_MS :: jsnum where
  "DEFAULT_MAX_DEFERRAL_MS = 2 * 60 * 60000"

record qs_window =
  usedPercent :: "jsnum option"
  resetAtMs :: "jsnum option"

record qs_snapshot =
  sn_status :: int
  sn_primary :: qs_window
  sn_secondary :: qs_window
  sn_updatedAt :: jsnum

datatype deferral_reason = RateLimitDeferral | NearExhaustionDeferral

record deferral =
  df_defer :: bool
  df_waitMs :: jsnum
  df_reason :: "deferral_reason option"

record qs_options =
  qo_enabled :: "bool option"
  qo_remainingPrimary :: "jsval option"
  qo_remainingSecondary :: "jsval option"
  qo_usedPercentThreshold :: "jsval option"
  qo_maxDeferralMs :: "jsval option"

record scheduler =
  qs_snapshots :: "(string, qs_snapshot) jsmap"
  qs_enabled :: bool
  primaryRemainingPercentThreshold :: jsnum
  secondaryRemainingPercentThreshold :: jsnum
  maxDeferralMs :: jsnum
  lastPruneAt :: jsnum

definition quotaLeftPercentFromUsed :: "jsnum option \<Rightarrow> jsnum option" where
  "quotaLeftPercentFromUsed used =
     (case used of None \<Rightarrow> None | Some u \<Rightarrow> Some (max 0 (min 100 (js_floor (100 - u + 1/2)))))"

definition quotaUsedPercentIsExhausted :: "jsnum option \<Rightarrow> bool" where
  "quotaUsedPercentIsExhausted used \<longleftrightarrow> (case used of None \<Rightarrow> False | Some u \<Rightarrow> u \<ge> 100)"

definition trustedResetWaitMs :: "qs_window \<Rightarrow> qs_snapshot \<Rightarrow> jsnum \<Rightarrow> jsnum option" where
  "trustedResetWaitMs window snapshot now =
     (case resetAtMs window of
        None \<Rightarrow> None
      | Some r \<Rightarrow>
          if sn_updatedAt snapshot > now \<or> now - sn_updatedAt snapshot > MAX_TRUSTED_RESET_AGE_MS then None
          else if r \<le> now then Some 0
          else Some (min (r - now) MAX_RATE_LIMIT_DELAY_MS))"

definition clampInt :: "jsnum \<Rightarrow> jsnum \<Rightarrow> jsnum \<Rightarrow> jsnum" where
  "clampInt v lo hi = max lo (min hi (js_floor v))"

type_synonym headers = "string \<Rightarrow> string option"

definition parseFiniteNumberHeader :: "headers \<Rightarrow> string \<Rightarrow> jsnum option" where
  "parseFiniteNumberHeader headers name =
     (case headers name of
        None \<Rightarrow> None
      | Some raw \<Rightarrow> if raw = [] then None else (case js_Number raw of Finite x \<Rightarrow> Some x | NonFinite \<Rightarrow> None))"

definition parseFiniteIntHeader :: "headers \<Rightarrow> string \<Rightarrow> jsnum option" where
  "parseFiniteIntHeader headers name =
     (case headers name of
        None \<Rightarrow> None
      | Some raw \<Rightarrow> if raw = [] then None else (case js_parseInt raw of Finite x \<Rightarrow> Some x | NonFinite \<Rightarrow> None))"

definition reset_at_header :: "(string \<Rightarrow> jsval) \<Rightarrow> string option \<Rightarrow> jsnum option" where
  "reset_at_header date_parse raw =
     (case raw of
        None \<Rightarrow> None
      | Some s \<Rightarrow>
          if s = [] then None
          else let trimmed = js_trim s;
                   n = of_nat (read_nat trimmed) :: jsnum
               in if all_digits trimmed \<and> n > 0
                  then Some (if n < 10000000000 then n * 1000 else n)
                  else (case date_parse trimmed of Finite d \<Rightarrow> Some d | NonFinite \<Rightarrow> None))"

definition parseResetAtMs :: "(string \<Rightarrow> jsval) \<Rightarrow> headers \<Rightarrow> string \<Rightarrow> jsnum \<Rightarrow> jsnum option" where
  "parseResetAtMs date_parse headers pre now =
     (case parseFiniteIntHeader headers (pre @ ''-reset-after-seconds'') of
        Some secs \<Rightarrow>
          if secs > 0 then Some (now + secs * 1000) else reset_at_header date_parse (headers (pre @ ''-reset-at''))
      | None \<Rightarrow> reset_at_header date_parse (headers (pre @ ''-reset-at'')))"

definition readQuotaSchedulerSnapshot ::
  "(string \<Rightarrow> jsval) \<Rightarrow> headers \<Rightarrow> int \<Rightarrow> jsnum \<Rightarrow> qs_snapshot option" where
  "readQuotaSchedulerSnapshot date_parse headers status now =
     (let primaryPrefix = ''x-codex-primary''; secondaryPrefix = ''x-codex-secondary'';
          primaryUsed = parseFiniteNumberHeader headers (primaryPrefix @ ''-used-percent'');
          secondaryUsed = parseFiniteNumberHeader headers (secondaryPrefix @ ''-used-percent'');
          primaryResetAt = parseResetAtMs date_parse headers primaryPrefix now;
          secondaryResetAt = parseResetAtMs date_parse headers secondaryPrefix now
      in if primaryUsed = None \<and> secondaryUsed = None \<and> primaryResetAt = None \<and> secondaryResetAt = None then None
         else Some \<lparr>sn_status = status, sn_primary = \<lparr>usedPercent = primaryUsed, resetAtMs = primaryResetAt\<rparr>,
                    sn_secondary = \<lparr>usedPercent = secondaryUsed, resetAtMs = secondaryResetAt\<rparr>, sn_updatedAt = now\<rparr>)"

section \<open>The scheduler\<close>

definition qs_set :: "(jsnum \<Rightarrow> 's \<Rightarrow> 's) \<Rightarrow> jsval option \<Rightarrow> 's \<Rightarrow> 's" where
  "qs_set f v s = (case v of Some (Finite x) \<Rightarrow> f x s | _ \<Rightarrow> s)"

definition qs_configure :: "qs_options \<Rightarrow> scheduler \<Rightarrow> scheduler" where
  "qs_configure options sc =
     (let sc = (case qo_enabled options of Some b \<Rightarrow> sc\<lparr>qs_enabled := b\<rparr> | None \<Rightarrow> sc);
          sc = qs_set (\<lambda>u s.
                 let clampedUsed = clampInt u 0 100; derivedRemaining = clampInt (100 - clampedUsed) 0 100
                 in s\<lparr>primaryRemainingPercentThreshold := derivedRemaining,
                      secondaryRemainingPercentThreshold := derivedRemaining\<rparr>)
               (qo_usedPercentThreshold options) sc;
          sc = qs_set (\<lambda>x s. s\<lparr>primaryRemainingPercentThreshold := clampInt x 0 100\<rparr>) (qo_remainingPrimary options) sc;
          sc = qs_set (\<lambda>x s. s\<lparr>secondaryRemainingPercentThreshold := clampInt x 0 100\<rparr>) (qo_remainingSecondary options) sc
      in qs_set (\<lambda>x s. s\<lparr>maxDeferralMs := max 1000 (js_floor x)\<rparr>) (qo_maxDeferralMs options) sc)"

definition qs_new :: "qs_options \<Rightarrow> scheduler" where
  "qs_new options = qs_configure options
     \<lparr>qs_snapshots = [], qs_enabled = True,
      primaryRemainingPercentThreshold = DEFAULT_REMAINING_PERCENT_THRESHOLD,
      secondaryRemainingPercentThreshold = DEFAULT_REMAINING_PERCENT_THRESHOLD,
      maxDeferralMs = DEFAULT_MAX_DEFERRAL_MS, lastPruneAt = 0\<rparr>"

definition latest_reset :: "qs_snapshot \<Rightarrow> jsnum" where
  "latest_reset sn = max (nullish (resetAtMs (sn_primary sn)) 0) (nullish (resetAtMs (sn_secondary sn)) 0)"

definition qs_prune :: "scheduler \<Rightarrow> jsnum \<Rightarrow> nat \<times> scheduler" where
  "qs_prune sc now =
     (let dead = (\<lambda>key snapshot. latest_reset snapshot > 0 \<and> latest_reset snapshot \<le> now)
      in (jm_count dead (qs_snapshots sc), sc\<lparr>qs_snapshots := jm_remove_if dead (qs_snapshots sc)\<rparr>))"

definition maybePrune :: "scheduler \<Rightarrow> jsnum \<Rightarrow> scheduler" where
  "maybePrune sc now =
     (if now - lastPruneAt sc < 60000 then sc else (snd (qs_prune sc now))\<lparr>lastPruneAt := now\<rparr>)"

definition qs_update :: "scheduler \<Rightarrow> jsnum \<Rightarrow> string \<Rightarrow> qs_snapshot \<Rightarrow> scheduler" where
  "qs_update sc now key snapshot =
     (if key = [] then sc
      else let sc = maybePrune sc (if sn_updatedAt snapshot = 0 then now else sn_updatedAt snapshot)
           in sc\<lparr>qs_snapshots := jm_set key snapshot (qs_snapshots sc)\<rparr>)"

definition is_rate_limit_window :: "qs_window \<Rightarrow> bool" where
  "is_rate_limit_window window \<longleftrightarrow>
     (case usedPercent window of None \<Rightarrow> True | Some u \<Rightarrow> quotaLeftPercentFromUsed (Some u) = Some 0)"

definition qs_markRateLimited :: "scheduler \<Rightarrow> string \<Rightarrow> jsval \<Rightarrow> jsnum \<Rightarrow> scheduler" where
  "qs_markRateLimited sc key retryAfterMs now =
     (if key = [] then sc
      else
        let waitMs = (case retryAfterMs of Finite x \<Rightarrow> max 0 (js_floor x) | NonFinite \<Rightarrow> 0);
            existing = jm_get (qs_snapshots sc) key;
            existingPrimaryResetAtMs = (case existing of
                Some e \<Rightarrow> if is_rate_limit_window (sn_primary e) then nullish (resetAtMs (sn_primary e)) 0 else 0
              | None \<Rightarrow> 0);
            nextResetAtMs = max existingPrimaryResetAtMs (now + waitMs)
        in sc\<lparr>qs_snapshots := jm_set key
             \<lparr>sn_status = 429, sn_primary = \<lparr>usedPercent = Some 100, resetAtMs = Some nextResetAtMs\<rparr>,
              sn_secondary = (case existing of Some e \<Rightarrow> sn_secondary e
                              | None \<Rightarrow> \<lparr>usedPercent = None, resetAtMs = None\<rparr>),
              sn_updatedAt = max (case existing of Some e \<Rightarrow> sn_updatedAt e | None \<Rightarrow> 0) now\<rparr>
             (qs_snapshots sc)\<rparr>)"

definition no_deferral :: deferral where
  "no_deferral = \<lparr>df_defer = False, df_waitMs = 0, df_reason = None\<rparr>"

text \<open>The waits of the windows the 429 can be about; an empty list has no longest wait.\<close>

definition wait_candidates :: "qs_snapshot \<Rightarrow> jsnum \<Rightarrow> jsnum list" where
  "wait_candidates snapshot now =
     concat (map (\<lambda>w. case resetAtMs w of
                       Some v \<Rightarrow> if v > now then [v - now] else [] | None \<Rightarrow> [])
       (filter is_rate_limit_window [sn_primary snapshot, sn_secondary snapshot]))"

definition longest_wait :: "qs_snapshot \<Rightarrow> jsnum \<Rightarrow> jsnum" where
  "longest_wait snapshot now =
     (case wait_candidates snapshot now of [] \<Rightarrow> 0 | w # ws \<Rightarrow> fold max ws w)"

definition near_exhausted_wait :: "scheduler \<Rightarrow> qs_snapshot \<Rightarrow> jsnum \<Rightarrow> jsnum" where
  "near_exhausted_wait sc snapshot now =
     (let near = (\<lambda>w threshold. case usedPercent w of Some u \<Rightarrow> u \<ge> 100 - threshold | None \<Rightarrow> False);
          getNearExhaustedWait = (\<lambda>w. case trustedResetWaitMs w snapshot now of
              None \<Rightarrow> maxDeferralMs sc | Some trustedWait \<Rightarrow> trustedWait)
      in max (if near (sn_primary snapshot) (primaryRemainingPercentThreshold sc) \<and> sn_status snapshot \<noteq> 429
              then getNearExhaustedWait (sn_primary snapshot) else 0)
             (if near (sn_secondary snapshot) (secondaryRemainingPercentThreshold sc) \<and> sn_status snapshot \<noteq> 429
              then getNearExhaustedWait (sn_secondary snapshot) else 0))"

definition getDeferral :: "scheduler \<Rightarrow> string \<Rightarrow> jsnum \<Rightarrow> deferral \<times> scheduler" where
  "getDeferral sc key now =
     (let sc = maybePrune sc now
      in if \<not> qs_enabled sc then (no_deferral, sc)
         else case jm_get (qs_snapshots sc) key of
           None \<Rightarrow> (no_deferral, sc)
         | Some snapshot \<Rightarrow>
             let cacheRemainingMs = sn_updatedAt snapshot + RATE_LIMIT_CACHE_TTL_MS - now
             in if cacheRemainingMs \<le> 0
                then (no_deferral, sc\<lparr>qs_snapshots := jm_delete key (qs_snapshots sc)\<rparr>)
                else
                  let longestWait = longest_wait snapshot now;
                      bounded = min (min longestWait (maxDeferralMs sc)) cacheRemainingMs;
                      nearExhaustedWait = near_exhausted_wait sc snapshot now
                  in if sn_status snapshot = 429 \<and> longestWait > 0 \<and> bounded > 0
                     then (\<lparr>df_defer = True, df_waitMs = bounded, df_reason = Some RateLimitDeferral\<rparr>, sc)
                     else if nearExhaustedWait > 0
                     then (\<lparr>df_defer = True, df_waitMs = min nearExhaustedWait cacheRemainingMs,
                            df_reason = Some NearExhaustionDeferral\<rparr>, sc)
                     else (no_deferral, sc))"

definition qs_clearByPrefix :: "scheduler \<Rightarrow> string \<Rightarrow> scheduler" where
  "qs_clearByPrefix sc pre =
     (if pre = [] then sc
      else sc\<lparr>qs_snapshots := jm_remove_if (\<lambda>key _. js_starts_with key pre) (qs_snapshots sc)\<rparr>)"

definition qs_clear :: "scheduler \<Rightarrow> string \<Rightarrow> scheduler" where
  "qs_clear sc key = sc\<lparr>qs_snapshots := jm_delete key (qs_snapshots sc)\<rparr>"

definition qs_clearAll :: "scheduler \<Rightarrow> scheduler" where
  "qs_clearAll sc = sc\<lparr>qs_snapshots := []\<rparr>"


section \<open>The scheduler invariant\<close>

text \<open>\<open>QUpdate\<close> carries what the header reader extracted; the snapshot's time is the call's.\<close>

datatype qs_op =
    QUpdate string int qs_window qs_window
  | QMark string jsval
  | QGet string
  | QConfigure qs_options
  | QClearPrefix string
  | QClear string
  | QClearAll
  | QPrune

fun qs_step :: "qs_op \<Rightarrow> jsnum \<Rightarrow> scheduler \<Rightarrow> scheduler" where
  "qs_step (QUpdate key st p q) now sc =
     qs_update sc now key \<lparr>sn_status = st, sn_primary = p, sn_secondary = q, sn_updatedAt = now\<rparr>"
| "qs_step (QMark key r) now sc = qs_markRateLimited sc key r now"
| "qs_step (QGet key) now sc = snd (getDeferral sc key now)"
| "qs_step (QConfigure opts) now sc = qs_configure opts sc"
| "qs_step (QClearPrefix pre) now sc = qs_clearByPrefix sc pre"
| "qs_step (QClear key) now sc = qs_clear sc key"
| "qs_step QClearAll now sc = qs_clearAll sc"
| "qs_step QPrune now sc = snd (qs_prune sc now)"

definition qs_inv :: "jsnum \<Rightarrow> scheduler \<Rightarrow> bool" where
  "qs_inv t sc \<longleftrightarrow> 1000 \<le> maxDeferralMs sc \<and> jm_ok (qs_snapshots sc) \<and> 0 \<le> t
     \<and> jm_all (\<lambda>_ sn. sn_updatedAt sn \<le> t) (qs_snapshots sc)"

lemma qs_inv_later: "qs_inv t sc \<Longrightarrow> t \<le> t' \<Longrightarrow> qs_inv t' sc"
  by (auto simp: qs_inv_def elim!: jm_all_mono)

lemma qs_configure_keeps:
  "qs_snapshots (qs_configure opts sc) = qs_snapshots sc"
  "1000 \<le> maxDeferralMs sc \<Longrightarrow> 1000 \<le> maxDeferralMs (qs_configure opts sc)"
  by (auto simp: qs_configure_def qs_set_def Let_def split: option.split jsval.split)

lemma maybePrune_keeps:
  "maxDeferralMs (maybePrune sc now) = maxDeferralMs sc"
  "qs_enabled (maybePrune sc now) = qs_enabled sc"
  "primaryRemainingPercentThreshold (maybePrune sc now) = primaryRemainingPercentThreshold sc"
  "secondaryRemainingPercentThreshold (maybePrune sc now) = secondaryRemainingPercentThreshold sc"
  by (simp_all add: maybePrune_def qs_prune_def Let_def)

lemma maybePrune_get:
  "jm_ok (qs_snapshots sc) \<Longrightarrow> jm_get (qs_snapshots (maybePrune sc now)) key =
     (case jm_get (qs_snapshots sc) key of
        None \<Rightarrow> None
      | Some sn \<Rightarrow> if \<not> now - lastPruneAt sc < 60000 \<and> latest_reset sn > 0 \<and> latest_reset sn \<le> now then None else Some sn)"
  by (auto simp: maybePrune_def qs_prune_def jm_get_remove_if Let_def split: option.split)

lemma qs_inv_remove: "qs_inv t sc \<Longrightarrow> qs_inv t (sc\<lparr>qs_snapshots := jm_remove_if p (qs_snapshots sc)\<rparr>)"
  by (auto simp: qs_inv_def jm_ok_remove_if jm_all_remove_if)

lemma qs_inv_delete: "qs_inv t sc \<Longrightarrow> qs_inv t (sc\<lparr>qs_snapshots := jm_delete k (qs_snapshots sc)\<rparr>)"
  by (auto simp: qs_inv_def jm_ok_delete jm_all_delete)

lemma qs_inv_prune: "qs_inv t sc \<Longrightarrow> qs_inv t (snd (qs_prune sc now))"
  by (simp add: qs_prune_def qs_inv_remove Let_def)

lemma qs_inv_maybePrune: "qs_inv t sc \<Longrightarrow> qs_inv t (maybePrune sc now)"
  using qs_inv_prune [of t sc now] by (auto simp: maybePrune_def qs_inv_def)

lemma qs_inv_set:
  "qs_inv t sc \<Longrightarrow> sn_updatedAt sn \<le> t \<Longrightarrow> qs_inv t (sc\<lparr>qs_snapshots := jm_set key sn (qs_snapshots sc)\<rparr>)"
  by (auto simp: qs_inv_def jm_ok_set jm_all_set)

lemma qs_inv_get: "qs_inv t sc \<Longrightarrow> jm_get (qs_snapshots sc) key = Some sn \<Longrightarrow> sn_updatedAt sn \<le> t"
  by (auto simp: qs_inv_def dest: jm_all_get)

lemma qs_inv_getDeferral: "qs_inv t sc \<Longrightarrow> qs_inv t (snd (getDeferral sc key now))"
  using qs_inv_maybePrune [of t sc now]
  by (auto simp: getDeferral_def Let_def qs_inv_delete split: option.split)

lemma qs_inv_mark: "qs_inv t sc \<Longrightarrow> qs_inv t (qs_markRateLimited sc key r t)"
  by (cases "key = []"; cases "jm_get (qs_snapshots sc) key")
    (auto simp: qs_markRateLimited_def Let_def qs_inv_get intro!: qs_inv_set, simp add: qs_inv_def)

lemma qs_inv_step: "qs_inv t sc \<Longrightarrow> qs_inv t (qs_step x t sc)"
proof (cases x)
  case (QConfigure opts)
  assume "qs_inv t sc"
  with QConfigure show ?thesis by (simp add: qs_inv_def qs_configure_keeps)
next
  case QClearAll
  assume "qs_inv t sc"
  with QClearAll show ?thesis by (simp add: qs_inv_def qs_clearAll_def)
qed (auto simp: qs_update_def qs_inv_mark qs_inv_getDeferral qs_clearByPrefix_def qs_clear_def qs_inv_remove
      qs_inv_delete qs_inv_prune Let_def intro!: qs_inv_set qs_inv_maybePrune)

interpretation qs: timed_machine qs_step qs_inv
  by unfold_locales (auto intro: qs_inv_later qs_inv_step)

lemma qs_inv_new: "0 \<le> t \<Longrightarrow> qs_inv t (qs_new opts)"
  by (simp add: qs_inv_def qs_new_def qs_configure_keeps DEFAULT_MAX_DEFERRAL_MS_def)

section \<open>Decisions\<close>

lemma fold_max_ge: "w \<le> fold max ws (w :: jsnum)"
  by (induction ws arbitrary: w) (auto intro: order_trans [OF max.cobounded2])

lemma wait_candidates_pos: "w \<in> set (wait_candidates sn now) \<Longrightarrow> 0 < w"
  by (auto simp: wait_candidates_def split: option.splits if_splits)

lemma longest_wait_nonneg: "0 \<le> longest_wait sn now"
proof (cases "wait_candidates sn now")
  case (Cons w ws)
  then have "0 < w" using wait_candidates_pos [of w sn now] by simp
  with fold_max_ge [of w ws] Cons show ?thesis by (simp add: longest_wait_def)
qed (simp add: longest_wait_def)

lemma near_exhausted_wait_nonneg:
  assumes "1000 \<le> maxDeferralMs sc"
  shows "0 \<le> near_exhausted_wait sc sn now"
  using assms by (auto simp: near_exhausted_wait_def trustedResetWaitMs_def MAX_RATE_LIMIT_DELAY_MS_def Let_def
      split: option.splits)

definition deferral_ok :: "jsnum \<Rightarrow> jsnum \<Rightarrow> deferral \<Rightarrow> bool" where
  "deferral_ok cap remaining d \<longleftrightarrow> 0 \<le> df_waitMs d \<and> (df_defer d \<longleftrightarrow> 0 < df_waitMs d)
     \<and> (df_defer d \<longleftrightarrow> df_reason d \<noteq> None) \<and> df_waitMs d \<le> max 0 remaining
     \<and> (df_reason d = Some RateLimitDeferral \<longrightarrow> df_waitMs d \<le> cap)"

lemma no_deferral_ok: "deferral_ok cap remaining no_deferral"
  by (simp add: deferral_ok_def no_deferral_def)

lemma deferral_ok_rate:
  "0 < w \<Longrightarrow> w \<le> cap \<Longrightarrow> w \<le> remaining \<Longrightarrow>
     deferral_ok cap remaining \<lparr>df_defer = True, df_waitMs = w, df_reason = Some RateLimitDeferral\<rparr>"
  by (simp add: deferral_ok_def)

lemma deferral_ok_near:
  "0 < w \<Longrightarrow> w \<le> remaining \<Longrightarrow>
     deferral_ok cap remaining \<lparr>df_defer = True, df_waitMs = w, df_reason = Some NearExhaustionDeferral\<rparr>"
  by (simp add: deferral_ok_def)

lemma getDeferral_ok:
  assumes "1000 \<le> maxDeferralMs sc" and "jm_ok (qs_snapshots sc)"
  shows "case jm_get (qs_snapshots sc) key of
      None \<Rightarrow> fst (getDeferral sc key now) = no_deferral
    | Some sn \<Rightarrow> deferral_ok (maxDeferralMs sc) (sn_updatedAt sn + RATE_LIMIT_CACHE_TTL_MS - now) (fst (getDeferral sc key now))"
  using assms
  by (simp add: getDeferral_def Let_def maybePrune_get maybePrune_keeps no_deferral_ok deferral_ok_rate
      deferral_ok_near split: option.split)

text \<open>A record for a key changes only by new evidence for that key.\<close>

fun evidence_for :: "string \<Rightarrow> qs_op \<Rightarrow> bool" where
  "evidence_for key (QUpdate k st p q) = (k = key)"
| "evidence_for key (QMark k r) = (k = key)"
| "evidence_for key _ = False"

definition no_newer :: "string \<Rightarrow> jsnum \<Rightarrow> scheduler \<Rightarrow> bool" where
  "no_newer key t sc \<longleftrightarrow> jm_ok (qs_snapshots sc) \<and> 1000 \<le> maxDeferralMs sc
     \<and> (\<forall>sn. jm_get (qs_snapshots sc) key = Some sn \<longrightarrow> sn_updatedAt sn \<le> t)"

lemma qs_step_ok:
  assumes "jm_ok (qs_snapshots sc)" and "1000 \<le> maxDeferralMs sc"
  shows "jm_ok (qs_snapshots (qs_step x now sc)) \<and> 1000 \<le> maxDeferralMs (qs_step x now sc)"
proof -
  have prune: "jm_ok (qs_snapshots (maybePrune sc t))" for t
    using assms(1) by (auto simp: maybePrune_def qs_prune_def Let_def jm_ok_remove_if)
  show ?thesis
    using assms prune
    by (cases x) (auto simp: qs_update_def qs_markRateLimited_def getDeferral_def qs_configure_keeps
        qs_clearByPrefix_def qs_clear_def qs_clearAll_def qs_prune_def maybePrune_keeps Let_def
        jm_ok_set jm_ok_delete jm_ok_remove_if split: option.split)
qed

lemma qs_step_other:
  assumes "jm_ok (qs_snapshots sc)" and "\<not> evidence_for key x"
    and "jm_get (qs_snapshots (qs_step x now sc)) key = Some sn"
  shows "jm_get (qs_snapshots sc) key = Some sn"
  using assms
  by (cases x) (auto simp: qs_update_def qs_markRateLimited_def getDeferral_def qs_configure_keeps maybePrune_get
      qs_clearByPrefix_def qs_clear_def qs_clearAll_def qs_prune_def Let_def jm_simps
      split: option.splits if_splits)

lemma no_newer_run:
  assumes "no_newer key t sc" and "list_all (\<lambda>(x, _). \<not> evidence_for key x) ops"
  shows "no_newer key t (timed_run qs_step sc ops)"
  using assms
proof (induction ops arbitrary: sc)
  case (Cons e ops)
  obtain x now where e: "e = (x, now)" by (cases e)
  have "no_newer key t (qs_step x now sc)"
    using Cons.prems qs_step_ok [of sc x now] qs_step_other [of sc key x now] e
    unfolding no_newer_def by auto
  with Cons e show ?case by simp
qed simp


lemma deferral_ok_mono: "deferral_ok cap r d \<Longrightarrow> r \<le> r' \<Longrightarrow> deferral_ok cap r' d"
  by (auto simp: deferral_ok_def)

lemma evidence_free_deferral:
  assumes "no_newer key t sc"
  shows "deferral_ok (maxDeferralMs sc) (t + RATE_LIMIT_CACHE_TTL_MS - now) (fst (getDeferral sc key now))"
proof (cases "jm_get (qs_snapshots sc) key")
  case None
  with assms getDeferral_ok [of sc key now] show ?thesis by (simp add: no_newer_def no_deferral_ok)
next
  case (Some sn)
  with assms have "sn_updatedAt sn \<le> t" by (simp add: no_newer_def)
  then have "sn_updatedAt sn + RATE_LIMIT_CACHE_TTL_MS - now \<le> t + RATE_LIMIT_CACHE_TTL_MS - now" by simp
  from deferral_ok_mono [OF _ this] Some assms getDeferral_ok [of sc key now] show ?thesis
    by (simp add: no_newer_def)
qed

lemma qs_inv_no_newer: "qs_inv t sc \<Longrightarrow> no_newer key t sc"
  by (auto simp: no_newer_def qs_inv_def dest: jm_all_get)

text \<open>The wait after a 429 whose other window is healthy or unknown without a reset.\<close>

definition harmless :: "qs_window \<Rightarrow> bool" where
  "harmless w \<longleftrightarrow> \<not> is_rate_limit_window w \<or> resetAtMs w = None"

lemma is_rate_limit_window_full: "is_rate_limit_window \<lparr>usedPercent = Some 100, resetAtMs = r\<rparr>"
  using js_floor_of_int [of 0]
  by (simp add: is_rate_limit_window_def quotaLeftPercentFromUsed_def js_floor_def floor_eq_iff)

section \<open>Properties\<close>

text \<open>
  Deferrals are sound and short.  On every run of the scheduler on a forward clock a decision
  defers exactly when its wait is positive, exactly then names a reason, and never benches an
  account for more than one hour, nor, after a 429, for more than the configured maximum.
\<close>

theorem deferral_bounded:
  assumes "0 \<le> t0" and "clock_ok t0 (ops @ [(QGet key, now)])"
  shows "deferral_ok (maxDeferralMs (timed_run qs_step (qs_new opts) ops)) 3600000
    (fst (getDeferral (timed_run qs_step (qs_new opts) ops) key now))"
proof -
  let ?sc = "timed_run qs_step (qs_new opts) ops"
  have *: "clock_ok t ops \<and> last_time t ops \<le> now" if "clock_ok t (ops @ [(QGet key, now)])" for t
    using that by (induction ops arbitrary: t) auto
  have "qs_inv (last_time t0 ops) ?sc" using qs.inv_run [OF qs_inv_new] assms(1) * [OF assms(2)] by blast
  then have "qs_inv now ?sc" using * [OF assms(2)] by (auto intro: qs_inv_later)
  from evidence_free_deferral [OF qs_inv_no_newer [OF this], where key = key and now = now] show ?thesis
    by (simp add: RATE_LIMIT_CACHE_TTL_MS_def)
qed

theorem deferral_bounded_witness:
  "df_waitMs (fst (getDeferral (timed_run qs_step (qs_new \<lparr>qo_enabled = None, qo_remainingPrimary = None,
      qo_remainingSecondary = None, qo_usedPercentThreshold = None, qo_maxDeferralMs = None\<rparr>)
      [(QMark ''a'' (Finite 90000000), 100)]) ''a'' 200)) \<le> 3600000"
proof -
  let ?o = "\<lparr>qo_enabled = None, qo_remainingPrimary = None,
      qo_remainingSecondary = None, qo_usedPercentThreshold = None, qo_maxDeferralMs = None\<rparr>"
  have "clock_ok 0 ([(QMark ''a'' (Finite 90000000), 100)] @ [(QGet ''a'', 200)])" by simp
  from deferral_bounded [OF _ this, of ?o] show ?thesis by (simp add: deferral_ok_def)
qed

text \<open>
  Every bench ends.  Without new evidence for a key (no header snapshot and no 429), an hour
  after the last evidence the scheduler no longer defers it, whatever else happened.
\<close>

theorem deferral_expires:
  assumes "0 \<le> t0" and "clock_ok t0 before" and "last_time t0 before \<le> t"
    and "list_all (\<lambda>(x, _). \<not> evidence_for key x) after" and "t + 3600000 \<le> now"
  shows "\<not> df_defer (fst (getDeferral (timed_run qs_step (qs_new opts) (before @ after)) key now))"
proof -
  have "qs_inv t (timed_run qs_step (qs_new opts) before)"
    using qs.inv_run [OF qs_inv_new [OF assms(1)] assms(2)] assms(3) by (auto intro: qs_inv_later)
  from evidence_free_deferral [OF no_newer_run [OF qs_inv_no_newer [OF this] assms(4)], where now = now] assms(5)
  show ?thesis by (simp add: timed_run_append deferral_ok_def RATE_LIMIT_CACHE_TTL_MS_def max_def split: if_splits)
qed

theorem deferral_expires_witness:
  "\<not> df_defer (fst (getDeferral (timed_run qs_step (qs_new \<lparr>qo_enabled = None, qo_remainingPrimary = None,
      qo_remainingSecondary = None, qo_usedPercentThreshold = None, qo_maxDeferralMs = None\<rparr>)
      ([(QMark ''a'' (Finite 90000000), 100)] @ [(QMark ''b'' (Finite 5), 700)])) ''a'' 3600100))"
  by (rule deferral_expires [of 0 _ 100]) simp_all

text \<open>
  A 429 benches the account for the server's wait and no longer.  After \<open>markRateLimited\<close> on a
  key whose earlier windows, if any, were healthy, and until the server's wait is over, the
  decision is to defer for exactly what remains of that wait, cut to the configured maximum
  and to the lifetime of the evidence; a healthy weekly window does not extend it.
\<close>

theorem rate_limit_wait_exact:
  assumes "jm_ok (qs_snapshots sc)" and "1000 \<le> maxDeferralMs sc" and "qs_enabled sc" and "key \<noteq> []"
    and "case jm_get (qs_snapshots sc) key of
           None \<Rightarrow> True
         | Some e \<Rightarrow> \<not> is_rate_limit_window (sn_primary e) \<and> harmless (sn_secondary e) \<and> sn_updatedAt e \<le> t"
    and "0 \<le> t" and "t \<le> now" and "now < t + js_floor w" and "now < t + 3600000"
  shows "fst (getDeferral (qs_markRateLimited sc key (Finite w) t) key now) =
    \<lparr>df_defer = True, df_waitMs = min (min (t + js_floor w - now) (maxDeferralMs sc)) (t + 3600000 - now),
     df_reason = Some RateLimitDeferral\<rparr>"
proof -
  let ?sc = "qs_markRateLimited sc key (Finite w) t"
  have w: "0 < js_floor w" using assms(7,8) by linarith
  obtain q where get: "jm_get (qs_snapshots ?sc) key = Some \<lparr>sn_status = 429,
        sn_primary = \<lparr>usedPercent = Some 100, resetAtMs = Some (t + js_floor w)\<rparr>, sn_secondary = q, sn_updatedAt = t\<rparr>"
      and q: "harmless q"
    using assms(4-6) w
    by (cases "jm_get (qs_snapshots sc) key") (auto simp: qs_markRateLimited_def Let_def jm_simps harmless_def)
  let ?sn = "\<lparr>sn_status = 429, sn_primary = \<lparr>usedPercent = Some 100, resetAtMs = Some (t + js_floor w)\<rparr>,
      sn_secondary = q, sn_updatedAt = t\<rparr>"
  have ok: "jm_ok (qs_snapshots ?sc)" "maxDeferralMs ?sc = maxDeferralMs sc" "qs_enabled ?sc"
    using assms(1,3,4) by (auto simp: qs_markRateLimited_def Let_def jm_ok_set)
  have cands: "wait_candidates ?sn now = [t + js_floor w - now]"
    using q assms(8) is_rate_limit_window_full
    by (auto simp: wait_candidates_def harmless_def)
  have kept: "jm_get (qs_snapshots (maybePrune ?sc now)) key = Some ?sn"
    using get assms(8) by (auto simp: maybePrune_get [OF ok(1)] latest_reset_def max_def)
  show ?thesis
    using kept ok assms(2,7-9) w
    by (simp add: getDeferral_def maybePrune_keeps Let_def longest_wait_def cands RATE_LIMIT_CACHE_TTL_MS_def)
qed

theorem rate_limit_wait_exact_witness:
  "df_waitMs (fst (getDeferral (qs_markRateLimited (qs_new \<lparr>qo_enabled = None, qo_remainingPrimary = None,
      qo_remainingSecondary = None, qo_usedPercentThreshold = None, qo_maxDeferralMs = None\<rparr>) ''a'' (Finite 30000) 1000)
      ''a'' 11000)) = 20000"
proof -
  let ?o = "\<lparr>qo_enabled = None, qo_remainingPrimary = None,
      qo_remainingSecondary = None, qo_usedPercentThreshold = None, qo_maxDeferralMs = None\<rparr>"
  have new: "jm_ok (qs_snapshots (qs_new ?o))" "1000 \<le> maxDeferralMs (qs_new ?o)"
      "qs_snapshots (qs_new ?o) = []" "qs_enabled (qs_new ?o)" "maxDeferralMs (qs_new ?o) = 7200000"
    by (simp_all add: qs_new_def qs_configure_def qs_set_def DEFAULT_MAX_DEFERRAL_MS_def)
  show ?thesis
    using rate_limit_wait_exact [OF new(1,2,4), of "''a''" 1000 11000 30000] new by simp
qed

text \<open>
  A window that is only nearly used up counts as the one the 429 is about: at 99.6 percent the
  rounded remaining percentage is zero, so the week's reset replaces the 30 second wait the
  server asked for, up to the hour the evidence lives.
\<close>

lemma nearly_full_window_counts:
  "is_rate_limit_window \<lparr>usedPercent = Some (996/10), resetAtMs = r\<rparr> \<and> \<not> quotaUsedPercentIsExhausted (Some (996/10))"
  by (simp add: is_rate_limit_window_def quotaLeftPercentFromUsed_def quotaUsedPercentIsExhausted_def
      js_floor_def floor_eq_iff)

end
