(* ===== verification/HealthTracker.thy ===== *)
theory HealthTracker
  imports JsMap
begin

text \<open>
  \<open>lib/rotation.ts\<close>, health score tracking: the keys both trackers share
  (\<open>normalizeTrackerKey\<close>), the configuration, the entries and every method of
  \<open>HealthScoreTracker\<close>.  \<open>now\<close> is the value of \<open>Date.now()\<close> in the call; the two reads
  a recording method makes are taken to agree.  A key is kept as the pair that
  \<open>JSON.stringify\<close> encodes (the encoding is injective and \<open>JSON.parse\<close> recovers the
  pair).  The lemmas show that scores stay within the configured bounds, what each method
  does to the score, and that methods touch only the keys they name.
\<close>

section \<open>Keys\<close>

datatype tracker_key = NumKey nat | StrKey string

type_synonym entry_key = "string \<times> string option"

definition normalizeTrackerKey :: "tracker_key \<Rightarrow> string option \<Rightarrow> entry_key" where
  "normalizeTrackerKey accountKey quotaKey =
     ((case accountKey of NumKey n \<Rightarrow> show_nat n | StrKey s \<Rightarrow> s), quotaKey)"

definition key_account :: "tracker_key \<Rightarrow> string" where
  "key_account accountKey = (case accountKey of NumKey n \<Rightarrow> show_nat n | StrKey s \<Rightarrow> s)"

lemma fst_normalizeTrackerKey [simp]: "fst (normalizeTrackerKey k q) = key_account k"
  by (simp add: normalizeTrackerKey_def key_account_def)

lemma normalizeTrackerKey_eq [simp]:
  "normalizeTrackerKey k q = normalizeTrackerKey k' q' \<longleftrightarrow> key_account k = key_account k' \<and> q = q'"
  by (auto simp: normalizeTrackerKey_def key_account_def)

lemma key_account_NumKey [simp]: "key_account (NumKey n) = show_nat n"
  by (simp add: key_account_def)

text \<open>The test of \<open>clearNumericKeysAtOrAbove\<close> and of \<open>clearAccountKey\<close> on one key.\<close>

definition numeric_at_or_above :: "nat \<Rightarrow> entry_key \<Rightarrow> bool" where
  "numeric_at_or_above startIndex key \<longleftrightarrow> all_digits (fst key) \<and> startIndex \<le> read_nat (fst key)"

lemma numeric_at_or_above_NumKey [simp]:
  "numeric_at_or_above i (normalizeTrackerKey (NumKey n) q) \<longleftrightarrow> i \<le> n"
  by (simp add: numeric_at_or_above_def)

section \<open>Configuration and state\<close>

record health_config =
  successDelta :: jsnum
  rateLimitDelta :: jsnum
  failureDelta :: jsnum
  maxScore :: jsnum
  minScore :: jsnum
  passiveRecoveryPerHour :: jsnum

definition DEFAULT_HEALTH_SCORE_CONFIG :: health_config where
  "DEFAULT_HEALTH_SCORE_CONFIG =
     \<lparr>successDelta = 1, rateLimitDelta = -10, failureDelta = -20,
      maxScore = 100, minScore = 0, passiveRecoveryPerHour = 2\<rparr>"

record health_entry =
  score :: jsnum
  lastUpdated :: jsnum
  consecutiveFailures :: nat

record health_tracker =
  hs_entries :: "(entry_key, health_entry) jsmap"
  hs_config :: health_config

text \<open>The constructor's spread \<open>{...DEFAULT_HEALTH_SCORE_CONFIG, ...config}\<close> is a record update
  applied to the defaults.\<close>

definition health_new :: "(health_config \<Rightarrow> health_config) \<Rightarrow> health_tracker" where
  "health_new override = \<lparr>hs_entries = [], hs_config = override DEFAULT_HEALTH_SCORE_CONFIG\<rparr>"

section \<open>Methods\<close>

definition applyPassiveRecovery :: "health_config \<Rightarrow> jsnum \<Rightarrow> health_entry \<Rightarrow> jsnum" where
  "applyPassiveRecovery config now entry =
     (let hoursSinceUpdate = (now - lastUpdated entry) / (1000 * 60 * 60);
          recovery = hoursSinceUpdate * passiveRecoveryPerHour config
      in min (score entry + recovery) (maxScore config))"

definition getScore :: "health_tracker \<Rightarrow> jsnum \<Rightarrow> tracker_key \<Rightarrow> string option \<Rightarrow> jsnum" where
  "getScore tr now accountKey quotaKey =
     (case jm_get (hs_entries tr) (normalizeTrackerKey accountKey quotaKey) of
        None \<Rightarrow> maxScore (hs_config tr)
      | Some entry \<Rightarrow> applyPassiveRecovery (hs_config tr) now entry)"

definition getConsecutiveFailures :: "health_tracker \<Rightarrow> tracker_key \<Rightarrow> string option \<Rightarrow> nat" where
  "getConsecutiveFailures tr accountKey quotaKey =
     (case jm_get (hs_entries tr) (normalizeTrackerKey accountKey quotaKey) of
        None \<Rightarrow> 0 | Some entry \<Rightarrow> consecutiveFailures entry)"

definition health_recordSuccess ::
  "health_tracker \<Rightarrow> jsnum \<Rightarrow> tracker_key \<Rightarrow> string option \<Rightarrow> health_tracker" where
  "health_recordSuccess tr now accountKey quotaKey =
     (let key = normalizeTrackerKey accountKey quotaKey;
          config = hs_config tr;
          baseScore = (case jm_get (hs_entries tr) key of
              None \<Rightarrow> maxScore config | Some entry \<Rightarrow> applyPassiveRecovery config now entry);
          newScore = min (baseScore + successDelta config) (maxScore config)
      in tr\<lparr>hs_entries := jm_set key
              \<lparr>score = newScore, lastUpdated = now, consecutiveFailures = 0\<rparr> (hs_entries tr)\<rparr>)"

definition health_recordRateLimit ::
  "health_tracker \<Rightarrow> jsnum \<Rightarrow> tracker_key \<Rightarrow> string option \<Rightarrow> health_tracker" where
  "health_recordRateLimit tr now accountKey quotaKey =
     (let key = normalizeTrackerKey accountKey quotaKey;
          config = hs_config tr;
          entry = jm_get (hs_entries tr) key;
          baseScore = (case entry of
              None \<Rightarrow> maxScore config | Some e \<Rightarrow> applyPassiveRecovery config now e);
          newScore = max (baseScore + rateLimitDelta config) (minScore config)
      in tr\<lparr>hs_entries := jm_set key
              \<lparr>score = newScore, lastUpdated = now,
               consecutiveFailures = (case entry of None \<Rightarrow> 0 | Some e \<Rightarrow> consecutiveFailures e) + 1\<rparr>
              (hs_entries tr)\<rparr>)"

definition health_recordFailure ::
  "health_tracker \<Rightarrow> jsnum \<Rightarrow> tracker_key \<Rightarrow> string option \<Rightarrow> health_tracker" where
  "health_recordFailure tr now accountKey quotaKey =
     (let key = normalizeTrackerKey accountKey quotaKey;
          config = hs_config tr;
          entry = jm_get (hs_entries tr) key;
          baseScore = (case entry of
              None \<Rightarrow> maxScore config | Some e \<Rightarrow> applyPassiveRecovery config now e);
          newScore = max (baseScore + failureDelta config) (minScore config)
      in tr\<lparr>hs_entries := jm_set key
              \<lparr>score = newScore, lastUpdated = now,
               consecutiveFailures = (case entry of None \<Rightarrow> 0 | Some e \<Rightarrow> consecutiveFailures e) + 1\<rparr>
              (hs_entries tr)\<rparr>)"

definition health_reset :: "health_tracker \<Rightarrow> tracker_key \<Rightarrow> string option \<Rightarrow> health_tracker" where
  "health_reset tr accountKey quotaKey =
     tr\<lparr>hs_entries := jm_delete (normalizeTrackerKey accountKey quotaKey) (hs_entries tr)\<rparr>"

definition health_clear :: "health_tracker \<Rightarrow> health_tracker" where
  "health_clear tr = tr\<lparr>hs_entries := []\<rparr>"

definition health_clearNumericKeysAtOrAbove :: "health_tracker \<Rightarrow> nat \<Rightarrow> health_tracker" where
  "health_clearNumericKeysAtOrAbove tr startIndex =
     tr\<lparr>hs_entries := jm_remove_if (\<lambda>key _. numeric_at_or_above startIndex key) (hs_entries tr)\<rparr>"

definition health_clearAccountKey :: "health_tracker \<Rightarrow> tracker_key \<Rightarrow> health_tracker" where
  "health_clearAccountKey tr accountKey =
     tr\<lparr>hs_entries := jm_remove_if (\<lambda>key _. fst key = key_account accountKey) (hs_entries tr)\<rparr>"

lemmas health_ops =
  health_recordSuccess_def health_recordRateLimit_def health_recordFailure_def
  health_reset_def health_clear_def health_clearNumericKeysAtOrAbove_def health_clearAccountKey_def

section \<open>Runs of calls\<close>

datatype health_op =
    HSuccess tracker_key "string option"
  | HRateLimit tracker_key "string option"
  | HFailure tracker_key "string option"
  | HReset tracker_key "string option"
  | HClear
  | HClearNumeric nat
  | HClearAccount tracker_key

fun health_step :: "health_op \<Rightarrow> jsnum \<Rightarrow> health_tracker \<Rightarrow> health_tracker" where
  "health_step (HSuccess k q) now tr = health_recordSuccess tr now k q"
| "health_step (HRateLimit k q) now tr = health_recordRateLimit tr now k q"
| "health_step (HFailure k q) now tr = health_recordFailure tr now k q"
| "health_step (HReset k q) now tr = health_reset tr k q"
| "health_step HClear now tr = health_clear tr"
| "health_step (HClearNumeric i) now tr = health_clearNumericKeysAtOrAbove tr i"
| "health_step (HClearAccount k) now tr = health_clearAccountKey tr k"

definition health_config_ok :: "health_config \<Rightarrow> bool" where
  "health_config_ok c \<longleftrightarrow> minScore c \<le> maxScore c \<and> 0 \<le> successDelta c \<and> rateLimitDelta c \<le> 0
     \<and> failureDelta c \<le> 0 \<and> 0 \<le> passiveRecoveryPerHour c"

definition health_entry_ok :: "health_config \<Rightarrow> jsnum \<Rightarrow> health_entry \<Rightarrow> bool" where
  "health_entry_ok c t e \<longleftrightarrow> minScore c \<le> score e \<and> score e \<le> maxScore c \<and> lastUpdated e \<le> t"

definition health_inv :: "health_config \<Rightarrow> jsnum \<Rightarrow> health_tracker \<Rightarrow> bool" where
  "health_inv c t tr \<longleftrightarrow> hs_config tr = c \<and> health_config_ok c \<and> jm_ok (hs_entries tr)
     \<and> jm_all (\<lambda>_ e. health_entry_ok c t e) (hs_entries tr)"

lemma DEFAULT_HEALTH_config_ok [simp]: "health_config_ok DEFAULT_HEALTH_SCORE_CONFIG"
  by (simp add: health_config_ok_def DEFAULT_HEALTH_SCORE_CONFIG_def)

lemma recovery_nonneg:
  "health_config_ok c \<Longrightarrow> lastUpdated e \<le> now
     \<Longrightarrow> 0 \<le> (now - lastUpdated e) / (1000 * 60 * 60) * passiveRecoveryPerHour c"
  by (simp add: health_config_ok_def)

lemma applyPassiveRecovery_gain:
  assumes "health_config_ok c" and "lastUpdated e \<le> now"
  obtains r where "0 \<le> r" "applyPassiveRecovery c now e = min (score e + r) (maxScore c)"
  using recovery_nonneg [OF assms] unfolding applyPassiveRecovery_def Let_def by blast

lemma applyPassiveRecovery_bounds:
  assumes "health_config_ok c" and "health_entry_ok c now e"
  shows "score e \<le> applyPassiveRecovery c now e" "minScore c \<le> applyPassiveRecovery c now e"
    "applyPassiveRecovery c now e \<le> maxScore c"
proof -
  obtain r where "0 \<le> r" "applyPassiveRecovery c now e = min (score e + r) (maxScore c)"
    using assms applyPassiveRecovery_gain [of c e now] by (auto simp: health_entry_ok_def)
  with assms show "score e \<le> applyPassiveRecovery c now e" "minScore c \<le> applyPassiveRecovery c now e"
    "applyPassiveRecovery c now e \<le> maxScore c"
    by (simp_all add: health_entry_ok_def)
qed

lemma health_inv_later: "health_inv c t tr \<Longrightarrow> t \<le> t' \<Longrightarrow> health_inv c t' tr"
  unfolding health_inv_def
  by (auto elim!: jm_all_mono simp: health_entry_ok_def)

lemma health_inv_getScore:
  assumes "health_inv c t tr"
  shows "minScore c \<le> getScore tr t k q \<and> getScore tr t k q \<le> maxScore c"
proof (cases "jm_get (hs_entries tr) (normalizeTrackerKey k q)")
  case None
  with assms show ?thesis by (simp add: getScore_def health_inv_def health_config_ok_def)
next
  case (Some e)
  with assms have "health_entry_ok c t e" by (auto simp: health_inv_def dest: jm_all_get)
  with Some assms show ?thesis
    by (simp add: getScore_def health_inv_def applyPassiveRecovery_bounds)
qed

text \<open>Every recording method writes a score computed from \<open>getScore\<close>.\<close>

lemma health_record_alt:
  "health_recordSuccess tr now k q =
     tr\<lparr>hs_entries := jm_set (normalizeTrackerKey k q)
         \<lparr>score = min (getScore tr now k q + successDelta (hs_config tr)) (maxScore (hs_config tr)),
          lastUpdated = now, consecutiveFailures = 0\<rparr> (hs_entries tr)\<rparr>"
  "health_recordRateLimit tr now k q =
     tr\<lparr>hs_entries := jm_set (normalizeTrackerKey k q)
         \<lparr>score = max (getScore tr now k q + rateLimitDelta (hs_config tr)) (minScore (hs_config tr)),
          lastUpdated = now, consecutiveFailures = getConsecutiveFailures tr k q + 1\<rparr> (hs_entries tr)\<rparr>"
  "health_recordFailure tr now k q =
     tr\<lparr>hs_entries := jm_set (normalizeTrackerKey k q)
         \<lparr>score = max (getScore tr now k q + failureDelta (hs_config tr)) (minScore (hs_config tr)),
          lastUpdated = now, consecutiveFailures = getConsecutiveFailures tr k q + 1\<rparr> (hs_entries tr)\<rparr>"
  by (simp_all add: health_ops getScore_def getConsecutiveFailures_def Let_def split: option.splits)

lemma health_inv_set:
  assumes "health_inv c t tr" and "minScore c \<le> s" and "s \<le> maxScore c"
  shows "health_inv c t (tr\<lparr>hs_entries := jm_set key \<lparr>score = s, lastUpdated = t, consecutiveFailures = n\<rparr>
           (hs_entries tr)\<rparr>)"
  using assms by (auto simp: health_inv_def health_entry_ok_def)

lemma health_inv_step:
  assumes inv: "health_inv c t tr"
  shows "health_inv c t (health_step x t tr)"
proof -
  have c: "hs_config tr = c" "health_config_ok c" using inv by (simp_all add: health_inv_def)
  note score = health_inv_getScore [OF inv]
  show ?thesis
  proof (cases x)
    case (HSuccess k q)
    show ?thesis unfolding HSuccess health_step.simps health_record_alt
      using c score [of k q] by (intro health_inv_set [OF inv]) (auto simp: health_config_ok_def min_def)
  next
    case (HRateLimit k q)
    show ?thesis unfolding HRateLimit health_step.simps health_record_alt
      using c score [of k q] by (intro health_inv_set [OF inv]) (auto simp: health_config_ok_def max_def)
  next
    case (HFailure k q)
    show ?thesis unfolding HFailure health_step.simps health_record_alt
      using c score [of k q] by (intro health_inv_set [OF inv]) (auto simp: health_config_ok_def max_def)
  qed (use inv in \<open>auto simp: health_ops health_inv_def\<close>)
qed

interpretation health: timed_machine health_step "health_inv c"
  by unfold_locales (auto intro: health_inv_later health_inv_step)

lemma health_inv_new:
  "health_config_ok (override DEFAULT_HEALTH_SCORE_CONFIG)
     \<Longrightarrow> health_inv (override DEFAULT_HEALTH_SCORE_CONFIG) t (health_new override)"
  by (simp add: health_inv_def health_new_def)

lemma health_config_step [simp]: "hs_config (health_step x t tr) = hs_config tr"
  by (cases x) (simp_all add: health_ops Let_def)

lemma health_config_run [simp]: "hs_config (timed_run health_step tr ops) = hs_config tr"
  by (induction health_step tr ops rule: timed_run.induct) simp_all

section \<open>Properties\<close>

text \<open>
  Whatever sequence of calls a tracker receives, as long as the clock does not run
  backwards and the configuration is sensible, every score it reports lies between the
  configured minimum and maximum.
\<close>

theorem health_scores_bounded:
  assumes "health_config_ok (override DEFAULT_HEALTH_SCORE_CONFIG)"
    and "clock_ok t ops" and "last_time t ops \<le> now"
  shows "minScore (override DEFAULT_HEALTH_SCORE_CONFIG)
           \<le> getScore (timed_run health_step (health_new override) ops) now k q
       \<and> getScore (timed_run health_step (health_new override) ops) now k q
           \<le> maxScore (override DEFAULT_HEALTH_SCORE_CONFIG)"
proof -
  have "health_inv (override DEFAULT_HEALTH_SCORE_CONFIG) (last_time t ops)
          (timed_run health_step (health_new override) ops)"
    using health.inv_run [OF health_inv_new [of override t, OF assms(1)] assms(2)] .
  then show ?thesis by (rule health_inv_getScore [OF health_inv_later [OF _ assms(3)]])
qed

theorem health_scores_bounded_witness:
  "0 \<le> getScore (timed_run health_step (health_new id)
        [(HFailure (NumKey 0) None, 1000), (HRateLimit (NumKey 0) None, 2000)]) 3602000 (NumKey 0) None
   \<and> getScore (timed_run health_step (health_new id)
        [(HFailure (NumKey 0) None, 1000), (HRateLimit (NumKey 0) None, 2000)]) 3602000 (NumKey 0) None \<le> 100"
  using health_scores_bounded [of id 0 "[(HFailure (NumKey 0) None, 1000), (HRateLimit (NumKey 0) None, 2000)]"
      3602000 "NumKey 0" None]
  by (simp add: DEFAULT_HEALTH_SCORE_CONFIG_def health_config_ok_def)

lemma getScore_set:
  "getScore (tr\<lparr>hs_entries := jm_set (normalizeTrackerKey k q) e (hs_entries tr)\<rparr>) now k' q' =
     (if key_account k' = key_account k \<and> q' = q then applyPassiveRecovery (hs_config tr) now e
      else getScore tr now k' q')"
  by (simp add: getScore_def jm_get_set split: option.split)

text \<open>
  A failure recorded at \<open>t\<close> costs the account the configured penalty, but never takes it
  below the minimum; from then on the score grows linearly with time at the passive
  recovery rate until it reaches the maximum.  The failure count goes up by one, the
  score of every other account or quota key is untouched.
\<close>

theorem health_failure_recovery:
  shows "getScore (health_recordFailure tr t k q) t' k' q' =
    (if key_account k' = key_account k \<and> q' = q then
       min (max (getScore tr t k q + failureDelta (hs_config tr)) (minScore (hs_config tr))
            + (t' - t) / 3600000 * passiveRecoveryPerHour (hs_config tr)) (maxScore (hs_config tr))
     else getScore tr t' k' q')
   \<and> getConsecutiveFailures (health_recordFailure tr t k q) k q = getConsecutiveFailures tr k q + 1"
  unfolding health_record_alt getScore_set
  by (simp add: applyPassiveRecovery_def Let_def getConsecutiveFailures_def jm_get_set)

text \<open>
  Removing an account resets it: after \<open>clearAccountKey\<close> the account reports the maximum
  score and no failures under every quota key, so a later re-add inherits no penalty, and
  the entries of every other account are left as they were.
\<close>

theorem health_clearAccountKey_fresh:
  assumes "jm_ok (hs_entries tr)"
  shows "getScore (health_clearAccountKey tr k) now k' q =
           (if key_account k' = key_account k then maxScore (hs_config tr) else getScore tr now k' q)
       \<and> getConsecutiveFailures (health_clearAccountKey tr k) k' q =
           (if key_account k' = key_account k then 0 else getConsecutiveFailures tr k' q)"
  using assms
  by (auto simp: health_clearAccountKey_def getScore_def getConsecutiveFailures_def jm_get_remove_if
      split: option.splits)

theorem health_clearAccountKey_fresh_witness:
  "getScore (health_clearAccountKey (health_recordFailure (health_new id) 5 (NumKey 3) (Some ''codex'')) (NumKey 3))
     6 (NumKey 3) (Some ''codex'') = 100"
proof -
  have "jm_ok (hs_entries (health_recordFailure (health_new id) 5 (NumKey 3) (Some ''codex'')))"
    by (simp add: health_ops health_new_def Let_def)
  from health_clearAccountKey_fresh [OF this, of "NumKey 3" 6 "NumKey 3" "Some ''codex''"]
  show ?thesis by (simp add: health_ops health_new_def DEFAULT_HEALTH_SCORE_CONFIG_def Let_def)
qed

end
