(* ===== verification/TokenBucket.thy ===== *)
theory TokenBucket
  imports HealthTracker
begin

text \<open>
  \<open>lib/rotation.ts\<close>, token bucket rate limiting: configuration, buckets and every method of
  \<open>TokenBucketTracker\<close>.  The main result is the rate bound of a token bucket: over any
  sequence of calls the requests admitted, less those refunded, never exceed what the
  bucket held plus what the refill rate put into it.
\<close>

section \<open>Configuration and state\<close>

record bucket_config =
  maxTokens :: jsnum
  tokensPerMinute :: jsnum

definition DEFAULT_TOKEN_BUCKET_CONFIG :: bucket_config where
  "DEFAULT_TOKEN_BUCKET_CONFIG = \<lparr>maxTokens = 50, tokensPerMinute = 6\<rparr>"

definition TOKEN_REFUND_WINDOW_MS :: jsnum where
  "TOKEN_REFUND_WINDOW_MS = 90000"

record bucket =
  tokens :: jsnum
  lastRefill :: jsnum
  consumptions :: "jsnum list"

record token_tracker =
  tb_buckets :: "(entry_key, bucket) jsmap"
  tb_config :: bucket_config

definition token_new :: "(bucket_config \<Rightarrow> bucket_config) \<Rightarrow> token_tracker" where
  "token_new override = \<lparr>tb_buckets = [], tb_config = override DEFAULT_TOKEN_BUCKET_CONFIG\<rparr>"

section \<open>Methods\<close>

definition refillTokens :: "bucket_config \<Rightarrow> jsnum \<Rightarrow> bucket \<Rightarrow> jsnum" where
  "refillTokens config now entry =
     (let minutesSinceRefill = (now - lastRefill entry) / (1000 * 60);
          tokensToAdd = minutesSinceRefill * tokensPerMinute config
      in min (tokens entry + tokensToAdd) (maxTokens config))"

definition getTokens :: "token_tracker \<Rightarrow> jsnum \<Rightarrow> tracker_key \<Rightarrow> string option \<Rightarrow> jsnum" where
  "getTokens tr now accountKey quotaKey =
     (case jm_get (tb_buckets tr) (normalizeTrackerKey accountKey quotaKey) of
        None \<Rightarrow> maxTokens (tb_config tr)
      | Some entry \<Rightarrow> refillTokens (tb_config tr) now entry)"

definition tryConsume ::
  "token_tracker \<Rightarrow> jsnum \<Rightarrow> tracker_key \<Rightarrow> string option \<Rightarrow> bool \<times> token_tracker" where
  "tryConsume tr now accountKey quotaKey =
     (let key = normalizeTrackerKey accountKey quotaKey;
          entry = jm_get (tb_buckets tr) key;
          currentTokens = (case entry of
              None \<Rightarrow> maxTokens (tb_config tr) | Some e \<Rightarrow> refillTokens (tb_config tr) now e)
      in if currentTokens < 1 then (False, tr)
         else let cutoff = now - TOKEN_REFUND_WINDOW_MS;
                  recent = filter (\<lambda>timestamp. timestamp \<ge> cutoff)
                             (case entry of None \<Rightarrow> [] | Some e \<Rightarrow> consumptions e)
              in (True, tr\<lparr>tb_buckets := jm_set key
                     \<lparr>tokens = currentTokens - 1, lastRefill = now, consumptions = recent @ [now]\<rparr>
                     (tb_buckets tr)\<rparr>))"

text \<open>\<open>findIndex\<close> of the first consumption in the window and its \<open>splice(i, 1)\<close>: the list
  without its first element satisfying the test.\<close>

fun remove_first :: "('a \<Rightarrow> bool) \<Rightarrow> 'a list \<Rightarrow> 'a list option" where
  "remove_first p [] = None"
| "remove_first p (x # xs) = (if p x then Some xs else map_option ((#) x) (remove_first p xs))"

definition refundToken ::
  "token_tracker \<Rightarrow> jsnum \<Rightarrow> tracker_key \<Rightarrow> string option \<Rightarrow> bool \<times> token_tracker" where
  "refundToken tr now accountKey quotaKey =
     (let key = normalizeTrackerKey accountKey quotaKey
      in case jm_get (tb_buckets tr) key of
           None \<Rightarrow> (False, tr)
         | Some entry \<Rightarrow>
             if consumptions entry = [] then (False, tr)
             else let cutoff = now - TOKEN_REFUND_WINDOW_MS
                  in case remove_first (\<lambda>timestamp. timestamp \<ge> cutoff) (consumptions entry) of
                       None \<Rightarrow> (False, tr)
                     | Some remaining \<Rightarrow>
                         let currentTokens = refillTokens (tb_config tr) now entry
                         in (True, tr\<lparr>tb_buckets := jm_set key
                               \<lparr>tokens = min (currentTokens + 1) (maxTokens (tb_config tr)),
                                lastRefill = now, consumptions = remaining\<rparr> (tb_buckets tr)\<rparr>))"

definition drain ::
  "token_tracker \<Rightarrow> jsnum \<Rightarrow> tracker_key \<Rightarrow> string option \<Rightarrow> jsnum \<Rightarrow> token_tracker" where
  "drain tr now accountKey quotaKey drainAmount =
     (let key = normalizeTrackerKey accountKey quotaKey;
          entry = jm_get (tb_buckets tr) key;
          currentTokens = (case entry of
              None \<Rightarrow> maxTokens (tb_config tr) | Some e \<Rightarrow> refillTokens (tb_config tr) now e)
      in tr\<lparr>tb_buckets := jm_set key
            \<lparr>tokens = max 0 (currentTokens - drainAmount), lastRefill = now,
             consumptions = (case entry of None \<Rightarrow> [] | Some e \<Rightarrow> consumptions e)\<rparr> (tb_buckets tr)\<rparr>)"

definition token_reset :: "token_tracker \<Rightarrow> tracker_key \<Rightarrow> string option \<Rightarrow> token_tracker" where
  "token_reset tr accountKey quotaKey =
     tr\<lparr>tb_buckets := jm_delete (normalizeTrackerKey accountKey quotaKey) (tb_buckets tr)\<rparr>"

definition token_clear :: "token_tracker \<Rightarrow> token_tracker" where
  "token_clear tr = tr\<lparr>tb_buckets := []\<rparr>"

definition token_clearNumericKeysAtOrAbove :: "token_tracker \<Rightarrow> nat \<Rightarrow> token_tracker" where
  "token_clearNumericKeysAtOrAbove tr startIndex =
     tr\<lparr>tb_buckets := jm_remove_if (\<lambda>key _. numeric_at_or_above startIndex key) (tb_buckets tr)\<rparr>"

definition token_clearAccountKey :: "token_tracker \<Rightarrow> tracker_key \<Rightarrow> token_tracker" where
  "token_clearAccountKey tr accountKey =
     tr\<lparr>tb_buckets := jm_remove_if (\<lambda>key _. fst key = key_account accountKey) (tb_buckets tr)\<rparr>"

section \<open>The bucket invariant\<close>

datatype token_op =
    TConsume tracker_key "string option"
  | TRefund tracker_key "string option"
  | TDrain tracker_key "string option" jsnum
  | TReset tracker_key "string option"
  | TClear
  | TClearNumeric nat
  | TClearAccount tracker_key

fun token_step :: "token_op \<Rightarrow> jsnum \<Rightarrow> token_tracker \<Rightarrow> token_tracker" where
  "token_step (TConsume k q) now tr = snd (tryConsume tr now k q)"
| "token_step (TRefund k q) now tr = snd (refundToken tr now k q)"
| "token_step (TDrain k q d) now tr = drain tr now k q d"
| "token_step (TReset k q) now tr = token_reset tr k q"
| "token_step TClear now tr = token_clear tr"
| "token_step (TClearNumeric i) now tr = token_clearNumericKeysAtOrAbove tr i"
| "token_step (TClearAccount k) now tr = token_clearAccountKey tr k"

definition bucket_config_ok :: "bucket_config \<Rightarrow> bool" where
  "bucket_config_ok c \<longleftrightarrow> 0 \<le> maxTokens c \<and> 0 \<le> tokensPerMinute c"

definition bucket_ok :: "bucket_config \<Rightarrow> jsnum \<Rightarrow> bucket \<Rightarrow> bool" where
  "bucket_ok c t b \<longleftrightarrow> 0 \<le> tokens b \<and> lastRefill b \<le> t \<and> (\<forall>x \<in> set (consumptions b). x \<le> t)"

definition token_inv :: "bucket_config \<Rightarrow> jsnum \<Rightarrow> token_tracker \<Rightarrow> bool" where
  "token_inv c t tr \<longleftrightarrow> tb_config tr = c \<and> bucket_config_ok c \<and> jm_ok (tb_buckets tr)
     \<and> jm_all (\<lambda>_ b. bucket_ok c t b) (tb_buckets tr)"

lemma DEFAULT_bucket_config_ok [simp]: "bucket_config_ok DEFAULT_TOKEN_BUCKET_CONFIG"
  by (simp add: bucket_config_ok_def DEFAULT_TOKEN_BUCKET_CONFIG_def)

text \<open>Over an interval the bucket gains at most the refill rate times its length.\<close>

definition refill_over :: "bucket_config \<Rightarrow> jsnum \<Rightarrow> jsnum \<Rightarrow> jsnum" where
  "refill_over c t t' = (t' - t) / 60000 * tokensPerMinute c"

lemma refill_over_nonneg: "bucket_config_ok c \<Longrightarrow> t \<le> t' \<Longrightarrow> 0 \<le> refill_over c t t'"
  by (simp add: refill_over_def bucket_config_ok_def)

lemma refill_over_self [simp]: "refill_over c t t = 0"
  by (simp add: refill_over_def)

lemma refill_over_add: "refill_over c t t' + refill_over c t' t'' = refill_over c t t''"
  by (simp add: refill_over_def field_simps)

lemma refillTokens_alt:
  "refillTokens c now b = min (tokens b + refill_over c (lastRefill b) now) (maxTokens c)"
  by (simp add: refillTokens_def refill_over_def Let_def)

lemma refillTokens_bounds:
  assumes "bucket_config_ok c" and "bucket_ok c t b"
  shows "0 \<le> refillTokens c t b" "refillTokens c t b \<le> maxTokens c"
  using assms refill_over_nonneg [of c "lastRefill b" t]
  by (auto simp: refillTokens_alt bucket_config_ok_def bucket_ok_def)

lemma token_inv_bounds:
  assumes "token_inv c t tr"
  shows "0 \<le> getTokens tr t k q \<and> getTokens tr t k q \<le> maxTokens c"
proof (cases "jm_get (tb_buckets tr) (normalizeTrackerKey k q)")
  case None
  with assms show ?thesis by (simp add: getTokens_def token_inv_def bucket_config_ok_def)
next
  case (Some b)
  with assms have "bucket_ok c t b" by (auto simp: token_inv_def dest: jm_all_get)
  with Some assms show ?thesis by (simp add: getTokens_def token_inv_def refillTokens_bounds)
qed

lemma getTokens_later:
  assumes "token_inv c t tr" and "t \<le> t'"
  shows "getTokens tr t' k q \<le> getTokens tr t k q + refill_over c t t'"
proof (cases "jm_get (tb_buckets tr) (normalizeTrackerKey k q)")
  case None
  with assms show ?thesis
    by (simp add: getTokens_def token_inv_def refill_over_nonneg)
next
  case (Some b)
  moreover have "0 \<le> refill_over c t t'" using assms by (simp add: token_inv_def refill_over_nonneg)
  moreover have "refill_over c (lastRefill b) t' = refill_over c (lastRefill b) t + refill_over c t t'"
    by (simp add: refill_over_add)
  ultimately show ?thesis using assms by (simp add: getTokens_def token_inv_def refillTokens_alt min_def)
qed

lemma token_inv_later: "token_inv c t tr \<Longrightarrow> t \<le> t' \<Longrightarrow> token_inv c t' tr"
  unfolding token_inv_def by (auto elim!: jm_all_mono simp: bucket_ok_def dest!: bspec)

text \<open>The recording methods in terms of \<open>getTokens\<close>.\<close>

lemma tryConsume_alt:
  "tryConsume tr now k q =
     (if getTokens tr now k q < 1 then (False, tr)
      else (True, tr\<lparr>tb_buckets := jm_set (normalizeTrackerKey k q)
              \<lparr>tokens = getTokens tr now k q - 1, lastRefill = now,
               consumptions = filter (\<lambda>x. now - TOKEN_REFUND_WINDOW_MS \<le> x)
                 (case jm_get (tb_buckets tr) (normalizeTrackerKey k q) of None \<Rightarrow> [] | Some e \<Rightarrow> consumptions e)
                 @ [now]\<rparr> (tb_buckets tr)\<rparr>))"
  by (simp add: tryConsume_def getTokens_def Let_def split: option.splits)

lemma drain_alt:
  "drain tr now k q d =
     tr\<lparr>tb_buckets := jm_set (normalizeTrackerKey k q)
         \<lparr>tokens = max 0 (getTokens tr now k q - d), lastRefill = now,
          consumptions = (case jm_get (tb_buckets tr) (normalizeTrackerKey k q) of
             None \<Rightarrow> [] | Some e \<Rightarrow> consumptions e)\<rparr> (tb_buckets tr)\<rparr>"
  by (simp add: drain_def getTokens_def Let_def split: option.splits)

lemma refundToken_cases:
  obtains "refundToken tr now k q = (False, tr)"
  | b rest where "jm_get (tb_buckets tr) (normalizeTrackerKey k q) = Some b"
      "remove_first (\<lambda>x. now - TOKEN_REFUND_WINDOW_MS \<le> x) (consumptions b) = Some rest"
      "refundToken tr now k q = (True, tr\<lparr>tb_buckets := jm_set (normalizeTrackerKey k q)
          \<lparr>tokens = min (getTokens tr now k q + 1) (maxTokens (tb_config tr)), lastRefill = now,
           consumptions = rest\<rparr> (tb_buckets tr)\<rparr>)"
proof (cases "jm_get (tb_buckets tr) (normalizeTrackerKey k q)")
  case None
  then show ?thesis using that(1) by (simp add: refundToken_def)
next
  case (Some b)
  show ?thesis
  proof (cases "remove_first (\<lambda>x. now - TOKEN_REFUND_WINDOW_MS \<le> x) (consumptions b)")
    case None
    with Some show ?thesis using that(1) by (simp add: refundToken_def Let_def)
  next
    case rest: (Some rest)
    then have "consumptions b \<noteq> []" by auto
    with Some rest show ?thesis using that(2) by (simp add: refundToken_def getTokens_def Let_def)
  qed
qed

lemma set_remove_first: "remove_first p xs = Some ys \<Longrightarrow> set ys \<subseteq> set xs"
  by (induction p xs arbitrary: ys rule: remove_first.induct) (auto split: if_splits)

lemma length_remove_first: "remove_first p xs = Some ys \<Longrightarrow> length xs = Suc (length ys)"
  by (induction p xs arbitrary: ys rule: remove_first.induct) (auto split: if_splits)

lemma token_inv_set:
  assumes "token_inv c t tr" and "0 \<le> n" and "\<forall>x \<in> set xs. x \<le> t"
  shows "token_inv c t (tr\<lparr>tb_buckets := jm_set key \<lparr>tokens = n, lastRefill = t, consumptions = xs\<rparr>
           (tb_buckets tr)\<rparr>)"
  using assms by (auto simp: token_inv_def bucket_ok_def)

lemma token_inv_consumptions:
  assumes "token_inv c t tr"
  shows "\<forall>x \<in> set (case jm_get (tb_buckets tr) key of None \<Rightarrow> [] | Some e \<Rightarrow> consumptions e). x \<le> t"
proof (cases "jm_get (tb_buckets tr) key")
  case (Some b)
  with assms have "bucket_ok c t b" by (auto simp: token_inv_def dest: jm_all_get)
  with Some show ?thesis by (simp add: bucket_ok_def)
qed simp

lemma token_inv_consume:
  assumes inv: "token_inv c t tr"
  shows "token_inv c t (snd (tryConsume tr t k q))"
proof (cases "getTokens tr t k q < 1")
  case False
  show ?thesis unfolding tryConsume_alt
    using False token_inv_consumptions [OF inv, of "normalizeTrackerKey k q"]
    by (simp only: if_False snd_conv) (rule token_inv_set [OF inv], simp_all)
qed (use inv in \<open>simp add: tryConsume_alt\<close>)

lemma token_inv_refund:
  assumes inv: "token_inv c t tr"
  shows "token_inv c t (snd (refundToken tr t k q))"
proof (cases rule: refundToken_cases [of tr t k q])
  case 1
  with inv show ?thesis by simp
next
  case (2 b rest)
  have "\<forall>x \<in> set rest. x \<le> t"
    using 2(1) set_remove_first [OF 2(2)] token_inv_consumptions [OF inv, of "normalizeTrackerKey k q"]
    by auto
  moreover have "0 \<le> min (getTokens tr t k q + 1) (maxTokens (tb_config tr))"
    using token_inv_bounds [OF inv, of k q] inv by (auto simp: token_inv_def bucket_config_ok_def)
  ultimately show ?thesis unfolding 2(3) snd_conv by (intro token_inv_set [OF inv])
qed

lemma token_inv_drain:
  assumes inv: "token_inv c t tr"
  shows "token_inv c t (drain tr t k q d)"
  unfolding drain_alt
  by (rule token_inv_set [OF inv]) (simp_all add: token_inv_consumptions [OF inv])

lemma token_inv_removals:
  assumes "token_inv c t tr"
  shows "token_inv c t (token_reset tr k q)" "token_inv c t (token_clear tr)"
    "token_inv c t (token_clearNumericKeysAtOrAbove tr i)" "token_inv c t (token_clearAccountKey tr k)"
  using assms
  by (auto simp: token_reset_def token_clear_def token_clearNumericKeysAtOrAbove_def
        token_clearAccountKey_def token_inv_def)

lemma token_inv_step: "token_inv c t tr \<Longrightarrow> token_inv c t (token_step x t tr)"
  by (cases x)
    (simp_all add: token_inv_consume token_inv_refund token_inv_drain token_inv_removals)

interpretation token: timed_machine token_step "token_inv c"
  by unfold_locales (auto intro: token_inv_later token_inv_step)

lemma token_inv_new:
  "bucket_config_ok (override DEFAULT_TOKEN_BUCKET_CONFIG)
     \<Longrightarrow> token_inv (override DEFAULT_TOKEN_BUCKET_CONFIG) t (token_new override)"
  by (simp add: token_inv_def token_new_def)

section \<open>The rate bound\<close>

definition tokens_at :: "token_tracker \<Rightarrow> jsnum \<Rightarrow> entry_key \<Rightarrow> jsnum" where
  "tokens_at tr now key = (case jm_get (tb_buckets tr) key of
      None \<Rightarrow> maxTokens (tb_config tr) | Some b \<Rightarrow> refillTokens (tb_config tr) now b)"

lemma getTokens_at: "getTokens tr now k q = tokens_at tr now (normalizeTrackerKey k q)"
  by (simp add: getTokens_def tokens_at_def)

text \<open>What one call contributes to the count of admitted, not refunded requests of a key.\<close>

definition granted :: "entry_key \<Rightarrow> token_tracker \<Rightarrow> jsnum \<Rightarrow> token_op \<Rightarrow> jsnum" where
  "granted key tr t x = (case x of
      TConsume k q \<Rightarrow> (if normalizeTrackerKey k q = key \<and> fst (tryConsume tr t k q) then 1 else 0)
    | TRefund k q \<Rightarrow> (if normalizeTrackerKey k q = key \<and> fst (refundToken tr t k q) then - 1 else 0)
    | _ \<Rightarrow> 0)"

fun net_grants :: "entry_key \<Rightarrow> token_tracker \<Rightarrow> (token_op \<times> jsnum) list \<Rightarrow> jsnum" where
  "net_grants key tr [] = 0"
| "net_grants key tr ((x, t) # ops) = granted key tr t x + net_grants key (token_step x t tr) ops"

text \<open>The calls that do not throw the key's bucket away (and drain by no negative amount).\<close>

definition keeps_bucket :: "entry_key \<Rightarrow> token_op \<Rightarrow> bool" where
  "keeps_bucket key x = (case x of
      TDrain k q d \<Rightarrow> 0 \<le> d
    | TReset k q \<Rightarrow> normalizeTrackerKey k q \<noteq> key
    | TClear \<Rightarrow> False
    | TClearNumeric i \<Rightarrow> \<not> numeric_at_or_above i key
    | TClearAccount k \<Rightarrow> key_account k \<noteq> fst key
    | _ \<Rightarrow> True)"

lemma tokens_at_set:
  "tokens_at (tr\<lparr>tb_buckets := jm_set key' b (tb_buckets tr)\<rparr>) now key =
     (if key = key' then refillTokens (tb_config tr) now b else tokens_at tr now key)"
  by (simp add: tokens_at_def jm_get_set split: option.split)

lemma granted_consume:
  assumes "token_inv c t tr"
  shows "granted key tr t (TConsume k q) + tokens_at (snd (tryConsume tr t k q)) t key \<le> tokens_at tr t key"
  using assms
  by (auto simp: granted_def tryConsume_alt tokens_at_set getTokens_at refillTokens_alt token_inv_def)

lemma granted_refund:
  assumes inv: "token_inv c t tr"
  shows "granted key tr t (TRefund k q) + tokens_at (snd (refundToken tr t k q)) t key \<le> tokens_at tr t key"
  by (cases rule: refundToken_cases [of tr t k q])
    (auto simp: granted_def tokens_at_set getTokens_at refillTokens_alt)

lemma granted_drain:
  assumes inv: "token_inv c t tr" and "0 \<le> d"
  shows "tokens_at (drain tr t k q d) t key \<le> tokens_at tr t key"
proof -
  have "0 \<le> tokens_at tr t (normalizeTrackerKey k q)"
    using token_inv_bounds [OF inv, of k q] by (simp add: getTokens_at)
  with assms show ?thesis
    by (auto simp: drain_alt tokens_at_set getTokens_at refillTokens_alt)
qed

lemma granted_removals:
  assumes "token_inv c t tr" and "keeps_bucket key x"
    and "x \<in> {TReset k q, TClear, TClearNumeric i, TClearAccount k}"
  shows "tokens_at (token_step x t tr) t key = tokens_at tr t key"
  using assms
  by (auto simp: keeps_bucket_def tokens_at_def token_reset_def token_clearNumericKeysAtOrAbove_def
      token_clearAccountKey_def jm_get_delete jm_get_remove_if token_inv_def split: option.split)

lemma granted_step:
  assumes inv: "token_inv c t tr" and keep: "keeps_bucket key x"
  shows "granted key tr t x + tokens_at (token_step x t tr) t key \<le> tokens_at tr t key"
proof (cases x)
  case (TDrain k q d)
  with keep granted_drain [OF inv, of d k q key] show ?thesis by (simp add: granted_def keeps_bucket_def)
next
  case (TReset k q)
  with granted_removals [OF inv keep, of k q] show ?thesis by (simp add: granted_def)
next
  case TClear
  with keep show ?thesis by (simp add: keeps_bucket_def)
next
  case (TClearNumeric i)
  with granted_removals [OF inv keep, of _ _ i] show ?thesis by (simp add: granted_def)
next
  case (TClearAccount k)
  with granted_removals [OF inv keep, of k] show ?thesis by (simp add: granted_def)
qed (use granted_consume [OF inv] granted_refund [OF inv] in simp_all)

lemma tokens_at_later:
  "token_inv c t tr \<Longrightarrow> t \<le> t' \<Longrightarrow> tokens_at tr t' key \<le> tokens_at tr t key + refill_over c t t'"
  using getTokens_later [of c t tr t' "StrKey (fst key)" "snd key"]
  by (simp add: getTokens_at normalizeTrackerKey_def)

lemma tokens_at_nonneg: "token_inv c t tr \<Longrightarrow> 0 \<le> tokens_at tr t key"
  using token_inv_bounds [of c t tr "StrKey (fst key)" "snd key"]
  by (simp add: getTokens_at normalizeTrackerKey_def)

lemma net_grants_bound:
  assumes "token_inv c t tr" and "clock_ok t ops" and "\<forall>x \<in> set ops. keeps_bucket key (fst x)"
  shows "net_grants key tr ops \<le> tokens_at tr t key + refill_over c t (last_time t ops)"
  using assms
proof (induction ops arbitrary: t tr)
  case Nil
  then show ?case by (simp add: tokens_at_nonneg)
next
  case (Cons e ops)
  obtain x t' where e: "e = (x, t')" by (cases e)
  from Cons.prems e have t: "t \<le> t'" and inv: "token_inv c t' tr" and keep: "keeps_bucket key x"
    by (auto intro: token_inv_later)
  from Cons.prems e inv
  have "net_grants key (token_step x t' tr) ops
      \<le> tokens_at (token_step x t' tr) t' key + refill_over c t' (last_time t' ops)"
    by (intro Cons.IH token_inv_step) simp_all
  also have "\<dots> \<le> tokens_at tr t' key - granted key tr t' x + refill_over c t' (last_time t' ops)"
    using granted_step [OF inv keep] by simp
  also have "tokens_at tr t' key \<le> tokens_at tr t key + refill_over c t t'"
    using Cons.prems(1) t by (rule tokens_at_later)
  finally show ?case
    using e refill_over_add [of c t t' "last_time t' ops"] by simp
qed



text \<open>
  Tokens stay within the bucket: after any sequence of calls with a clock that does not
  run backwards the tracker reports between zero and the capacity for every key.
\<close>

theorem token_counts_bounded:
  assumes "bucket_config_ok (override DEFAULT_TOKEN_BUCKET_CONFIG)"
    and "clock_ok t ops" and "last_time t ops \<le> now"
  shows "0 \<le> getTokens (timed_run token_step (token_new override) ops) now k q
       \<and> getTokens (timed_run token_step (token_new override) ops) now k q
           \<le> maxTokens (override DEFAULT_TOKEN_BUCKET_CONFIG)"
proof -
  have "token_inv (override DEFAULT_TOKEN_BUCKET_CONFIG) (last_time t ops)
          (timed_run token_step (token_new override) ops)"
    using token.inv_run [OF token_inv_new [of override t, OF assms(1)] assms(2)] .
  then show ?thesis by (rule token_inv_bounds [OF token_inv_later [OF _ assms(3)]])
qed

theorem token_counts_bounded_witness:
  "0 \<le> getTokens (timed_run token_step (token_new id) [(TDrain (StrKey ''a'') None 70, 5)]) 60005 (StrKey ''a'') None
   \<and> getTokens (timed_run token_step (token_new id) [(TDrain (StrKey ''a'') None 70, 5)]) 60005 (StrKey ''a'') None \<le> 50"
  using token_counts_bounded [of id 0 "[(TDrain (StrKey ''a'') None 70, 5)]" 60005 "StrKey ''a''" None]
  by (simp del: timed_run.simps add: DEFAULT_TOKEN_BUCKET_CONFIG_def bucket_config_ok_def)

text \<open>Every refund removes a recorded consumption, so there are never more refunds than grants.\<close>

definition outstanding :: "token_tracker \<Rightarrow> entry_key \<Rightarrow> jsnum" where
  "outstanding tr key = (case jm_get (tb_buckets tr) key of
      None \<Rightarrow> 0 | Some b \<Rightarrow> of_nat (length (consumptions b)))"

lemma outstanding_nonneg: "0 \<le> outstanding tr key"
  by (simp add: outstanding_def split: option.split)

lemma outstanding_set:
  "outstanding (tr\<lparr>tb_buckets := jm_set key' b (tb_buckets tr)\<rparr>) key =
     (if key = key' then of_nat (length (consumptions b)) else outstanding tr key)"
  by (simp add: outstanding_def jm_get_set split: option.split)

lemma length_consumptions_filter:
  "of_nat (length (filter p (case jm_get (tb_buckets tr) key of None \<Rightarrow> [] | Some e \<Rightarrow> consumptions e)))
     \<le> outstanding tr key"
  by (simp add: outstanding_def split: option.split)

lemma outstanding_consume:
  "outstanding (snd (tryConsume tr t k q)) key \<le> outstanding tr key + granted key tr t (TConsume k q)"
  using length_consumptions_filter [of "\<lambda>x. t - TOKEN_REFUND_WINDOW_MS \<le> x" tr "normalizeTrackerKey k q"]
  by (auto simp: tryConsume_alt outstanding_set granted_def)

lemma outstanding_refund:
  "outstanding (snd (refundToken tr t k q)) key \<le> outstanding tr key + granted key tr t (TRefund k q)"
proof (cases rule: refundToken_cases [of tr t k q])
  case (2 b rest)
  from 2(1) length_remove_first [OF 2(2)]
  have "outstanding tr (normalizeTrackerKey k q) = of_nat (length rest) + 1"
    by (simp add: outstanding_def)
  with 2(3) show ?thesis by (auto simp: outstanding_set granted_def)
qed (simp add: granted_def)

lemma outstanding_drain: "outstanding (drain tr t k q d) key = outstanding tr key"
  by (auto simp: drain_alt outstanding_set) (simp add: outstanding_def split: option.split)

lemma outstanding_removals:
  assumes "jm_ok (tb_buckets tr)"
  shows "outstanding (token_reset tr k q) key \<le> outstanding tr key"
    "outstanding (token_clear tr) key \<le> outstanding tr key"
    "outstanding (token_clearNumericKeysAtOrAbove tr i) key \<le> outstanding tr key"
    "outstanding (token_clearAccountKey tr k) key \<le> outstanding tr key"
  using assms
  by (auto simp: outstanding_def token_reset_def token_clear_def token_clearNumericKeysAtOrAbove_def
      token_clearAccountKey_def jm_get_delete jm_get_remove_if split: option.splits)

lemma granted_others [simp]:
  "granted key tr t (TDrain k q d) = 0" "granted key tr t (TReset k q) = 0" "granted key tr t TClear = 0"
  "granted key tr t (TClearNumeric i) = 0" "granted key tr t (TClearAccount k) = 0"
  by (simp_all add: granted_def)

lemma outstanding_step:
  "jm_ok (tb_buckets tr) \<Longrightarrow> outstanding (token_step x t tr) key \<le> outstanding tr key + granted key tr t x"
  by (cases x)
    (simp_all add: outstanding_consume outstanding_refund outstanding_drain outstanding_removals)

lemma token_step_ok: "jm_ok (tb_buckets tr) \<Longrightarrow> jm_ok (tb_buckets (token_step x t tr))"
proof (cases x)
  case (TRefund k q)
  assume "jm_ok (tb_buckets tr)"
  then show ?thesis unfolding TRefund token_step.simps
    by (cases rule: refundToken_cases [of tr t k q]) auto
qed (auto simp: tryConsume_alt drain_alt token_reset_def token_clear_def
    token_clearNumericKeysAtOrAbove_def token_clearAccountKey_def)

lemma net_grants_lower:
  "jm_ok (tb_buckets tr) \<Longrightarrow> 0 \<le> outstanding tr key + net_grants key tr ops"
proof (induction ops arbitrary: tr)
  case Nil
  then show ?case by (simp add: outstanding_nonneg)
next
  case (Cons e ops)
  obtain x t where e: "e = (x, t)" by (cases e)
  from Cons.prems have "0 \<le> outstanding (token_step x t tr) key + net_grants key (token_step x t tr) ops"
    by (intro Cons.IH token_step_ok)
  with outstanding_step [OF Cons.prems, of x t key] e show ?case by simp
qed

text \<open>
  No token is refunded that was not consumed: over any sequence of calls at any times
  (including drains and resets) the refunds granted for a key never outnumber the requests
  admitted for it.
\<close>

theorem refunds_never_exceed_grants: "0 \<le> net_grants key (token_new override) ops"
  using net_grants_lower [of "token_new override" key ops]
  by (simp add: outstanding_def token_new_def)

end
