(* ===== verification/HybridSelection.thy ===== *)
theory HybridSelection
  imports TokenBucket
begin

text \<open>
  \<open>lib/rotation.ts\<close>, hybrid account selection: \<open>selectHybridAccount\<close> and its diagnostic
  twin \<open>selectHybridAccountTraced\<close>.  Arguments are the named-parameter form; the
  \<open>TypeError\<close>s for a missing array or tracker are ruled out by the types.  \<open>pid\<close> is
  \<open>process.pid\<close>, \<open>now\<close> is \<open>Date.now()\<close>.  The lemmas characterise the loop as the first
  account of maximal score and prove the two functions equivalent.
\<close>

section \<open>Inputs\<close>

record account_metrics =
  am_index :: nat
  am_trackerKey :: "tracker_key option"
  am_isAvailable :: bool
  am_unavailableReason :: "string option"
  am_lastUsed :: jsnum

record hybrid_config =
  healthWeight :: jsnum
  tokenWeight :: jsnum
  freshnessWeight :: jsnum

definition DEFAULT_HYBRID_SELECTION_CONFIG :: hybrid_config where
  "DEFAULT_HYBRID_SELECTION_CONFIG = \<lparr>healthWeight = 2, tokenWeight = 5, freshnessWeight = 2\<rparr>"

text \<open>An absent \<open>blockedAccountIndexes\<close> is the empty set; a boost may be any number, finite or not.\<close>

record hybrid_options =
  pidOffsetEnabled :: bool
  scoreBoostByAccount :: "nat \<rightharpoonup> jsval"
  blockedAccountIndexes :: "nat set"
  blockedReasonByAccount :: "nat \<rightharpoonup> string"

definition no_options :: hybrid_options where
  "no_options = \<lparr>pidOffsetEnabled = False, scoreBoostByAccount = Map.empty,
     blockedAccountIndexes = {}, blockedReasonByAccount = Map.empty\<rparr>"

section \<open>The score\<close>

definition account_tracker_key :: "account_metrics \<Rightarrow> tracker_key" where
  "account_tracker_key account = nullish (am_trackerKey account) (NumKey (am_index account))"

definition pid_bonus :: "hybrid_options \<Rightarrow> nat \<Rightarrow> jsnum" where
  "pid_bonus options pid = (if pidOffsetEnabled options then of_nat (pid mod 100) * (1 / 100) else 0)"

definition capability_boost :: "hybrid_options \<Rightarrow> nat \<Rightarrow> jsnum" where
  "capability_boost options index = (case scoreBoostByAccount options index of
      Some (Finite b) \<Rightarrow> b | _ \<Rightarrow> 0)"

text \<open>The remainder \<open>x % 1\<close> of a non-negative number.\<close>

definition js_mod1 :: "jsnum \<Rightarrow> jsnum" where
  "js_mod1 x = x - js_floor x"

definition hybrid_score ::
  "hybrid_config \<Rightarrow> hybrid_options \<Rightarrow> nat \<Rightarrow> jsnum \<Rightarrow> health_tracker \<Rightarrow> token_tracker
    \<Rightarrow> string option \<Rightarrow> account_metrics \<Rightarrow> jsnum" where
  "hybrid_score cfg options pid now healthTracker tokenTracker quotaKey account =
     (let trackerKey = account_tracker_key account;
          health = getScore healthTracker now trackerKey quotaKey;
          tokens = getTokens tokenTracker now trackerKey quotaKey;
          hoursSinceUsed = (now - am_lastUsed account) / (1000 * 60 * 60);
          score = health * healthWeight cfg + tokens * tokenWeight cfg
                  + hoursSinceUsed * freshnessWeight cfg + capability_boost options (am_index account)
      in if pidOffsetEnabled options
         then score + js_mod1 (of_nat (am_index account) * (131 / 1000) + pid_bonus options pid)
                * freshnessWeight cfg * (1 / 10)
         else score)"

section \<open>\<open>selectHybridAccount\<close>\<close>

text \<open>The loop: \<open>bestAccount\<close> and \<open>bestScore\<close>, \<open>None\<close> standing for \<open>null\<close> and \<open>-Infinity\<close>.\<close>

fun best_loop :: "('a \<Rightarrow> jsnum) \<Rightarrow> ('a \<times> jsnum) option \<Rightarrow> 'a list \<Rightarrow> ('a \<times> jsnum) option" where
  "best_loop f best [] = best"
| "best_loop f best (a # as) =
     best_loop f
       (case best of None \<Rightarrow> Some (a, f a)
        | Some (b, bestScore) \<Rightarrow> if f a > bestScore then Some (a, f a) else Some (b, bestScore)) as"

definition available_accounts :: "hybrid_options \<Rightarrow> account_metrics list \<Rightarrow> account_metrics list" where
  "available_accounts options accounts =
     filter (\<lambda>a. am_isAvailable a \<and> am_index a \<notin> blockedAccountIndexes options) accounts"

definition selectHybridAccount ::
  "(hybrid_config \<Rightarrow> hybrid_config) \<Rightarrow> hybrid_options \<Rightarrow> nat \<Rightarrow> jsnum \<Rightarrow> health_tracker \<Rightarrow> token_tracker
    \<Rightarrow> string option \<Rightarrow> account_metrics list \<Rightarrow> account_metrics option" where
  "selectHybridAccount config options pid now healthTracker tokenTracker quotaKey accounts =
     (let cfg = config DEFAULT_HYBRID_SELECTION_CONFIG;
          available = available_accounts options accounts
      in case available of
           [] \<Rightarrow> None
         | [a] \<Rightarrow> Some a
         | _ \<Rightarrow> map_option fst
                 (best_loop (hybrid_score cfg options pid now healthTracker tokenTracker quotaKey) None available))"

section \<open>\<open>selectHybridAccountTraced\<close>\<close>

record candidate_trace =
  ct_index :: nat
  ct_trackerKey :: tracker_key
  ct_isAvailable :: bool
  ct_lastUsed :: jsnum
  ct_health :: jsnum
  ct_tokens :: jsnum
  ct_hoursSinceUsed :: jsnum
  ct_capabilityBoost :: jsnum
  ct_pidBonus :: jsnum
  ct_score :: jsnum
  ct_reason :: "string option"

text \<open>The selection reason; the code renders it as text.\<close>

datatype selection_reason =
    NoAccountsConfigured | AllAccountsUnavailable | SingleAvailableAccount
  | HighestHybridScore jsnum nat | NoAccountsProvided

record trace_result =
  tr_selected :: "account_metrics option"
  tr_selectedIndex :: "nat option"
  tr_selectionReason :: selection_reason
  tr_candidates :: "candidate_trace list"
  tr_config :: hybrid_config
  tr_quotaKey :: "string option"
  tr_availableCount :: nat

definition trace_candidate ::
  "hybrid_config \<Rightarrow> hybrid_options \<Rightarrow> nat \<Rightarrow> jsnum \<Rightarrow> health_tracker \<Rightarrow> token_tracker
    \<Rightarrow> string option \<Rightarrow> account_metrics \<Rightarrow> candidate_trace" where
  "trace_candidate cfg options pid now healthTracker tokenTracker quotaKey account =
     (let trackerKey = account_tracker_key account;
          health = getScore healthTracker now trackerKey quotaKey;
          tokens = getTokens tokenTracker now trackerKey quotaKey;
          hoursSinceUsed = (now - am_lastUsed account) / (1000 * 60 * 60);
          capabilityBoost = capability_boost options (am_index account);
          score0 = health * healthWeight cfg + tokens * tokenWeight cfg
                   + hoursSinceUsed * freshnessWeight cfg + capabilityBoost;
          score = (if pidOffsetEnabled options
                   then score0 + js_mod1 (of_nat (am_index account) * (131 / 1000) + pid_bonus options pid)
                          * freshnessWeight cfg * (1 / 10)
                   else score0);
          blocked = am_index account \<in> blockedAccountIndexes options
      in \<lparr>ct_index = am_index account, ct_trackerKey = trackerKey,
          ct_isAvailable = (am_isAvailable account \<and> \<not> blocked),
          ct_lastUsed = am_lastUsed account, ct_health = health, ct_tokens = tokens,
          ct_hoursSinceUsed = hoursSinceUsed, ct_capabilityBoost = capabilityBoost,
          ct_pidBonus = pid_bonus options pid, ct_score = score,
          ct_reason =
            (if blocked then Some (nullish (blockedReasonByAccount options (am_index account)) ''policy-blocked'')
             else if am_isAvailable account then None
             else Some (nullish (am_unavailableReason account)
                   ''unavailable (rate-limited, cooling down, or circuit open)''))\<rparr>)"

text \<open>\<open>candidates.sort((a, b) => b.score - a.score)\<close> is a stable sort by descending score.\<close>

definition selectHybridAccountTraced ::
  "(hybrid_config \<Rightarrow> hybrid_config) \<Rightarrow> hybrid_options \<Rightarrow> nat \<Rightarrow> jsnum \<Rightarrow> health_tracker \<Rightarrow> token_tracker
    \<Rightarrow> string option \<Rightarrow> account_metrics list \<Rightarrow> trace_result" where
  "selectHybridAccountTraced config options pid now healthTracker tokenTracker quotaKey accounts =
     (let cfg = config DEFAULT_HYBRID_SELECTION_CONFIG;
          availableAccounts = available_accounts options accounts;
          candidates = sort_key (\<lambda>c. - ct_score c)
             (map (trace_candidate cfg options pid now healthTracker tokenTracker quotaKey) accounts);
          (selected, reason) =
            (if accounts = [] then (None, NoAccountsConfigured)
             else if availableAccounts = [] then (None, AllAccountsUnavailable)
             else if length availableAccounts = 1 then (Some (hd availableAccounts), SingleAvailableAccount)
             else case List.find ct_isAvailable candidates of
                    None \<Rightarrow> (None, NoAccountsProvided)
                  | Some best \<Rightarrow>
                      (List.find (\<lambda>a. am_index a = ct_index best) accounts,
                       HighestHybridScore (ct_score best) (length availableAccounts)))
      in \<lparr>tr_selected = selected, tr_selectedIndex = map_option am_index selected,
          tr_selectionReason = reason, tr_candidates = candidates, tr_config = cfg,
          tr_quotaKey = quotaKey, tr_availableCount = length availableAccounts\<rparr>)"

section \<open>The loop finds the first account of maximal score\<close>

fun first_max :: "('a \<Rightarrow> jsnum) \<Rightarrow> 'a list \<Rightarrow> 'a option" where
  "first_max f [] = None"
| "first_max f (a # as) = (case first_max f as of None \<Rightarrow> Some a | Some b \<Rightarrow> if f a \<ge> f b then Some a else Some b)"

lemma first_max_None [simp]: "first_max f as = None \<longleftrightarrow> as = []"
  by (cases as) (auto split: option.splits)

lemma best_loop_some:
  "best_loop f (Some (b, f b)) as =
     (case first_max f as of None \<Rightarrow> Some (b, f b) | Some a \<Rightarrow> if f a > f b then Some (a, f a) else Some (b, f b))"
proof (induction as arbitrary: b)
  case (Cons a as)
  then show ?case by (cases "first_max f as") (auto simp: Cons.IH)
qed simp

lemma best_loop_first_max: "map_option fst (best_loop f None as) = first_max f as"
proof (cases as)
  case (Cons a as')
  then show ?thesis by (cases "first_max f as'") (auto simp: best_loop_some)
qed simp

lemma first_max_SomeD:
  "first_max f as = Some a \<Longrightarrow>
     \<exists>xs ys. as = xs @ a # ys \<and> (\<forall>x \<in> set xs. f x < f a) \<and> (\<forall>y \<in> set ys. f y \<le> f a)"
proof (induction as arbitrary: a)
  case (Cons b as)
  show ?case
  proof (cases "first_max f as")
    case None
    with Cons.prems show ?thesis by (intro exI [of _ "[]"]) auto
  next
    case (Some c)
    then obtain xs ys where as: "as = xs @ c # ys"
      and xs: "\<forall>x \<in> set xs. f x < f c" and ys: "\<forall>y \<in> set ys. f y \<le> f c"
      using Cons.IH by blast
    show ?thesis
    proof (cases "f c \<le> f b")
      case True
      with Some Cons.prems have "a = b" by simp
      moreover have "\<forall>y \<in> set as. f y \<le> f b" using as xs ys True by fastforce
      ultimately show ?thesis by (intro exI [of _ "[]"] exI [of _ as]) auto
    next
      case False
      with Some Cons.prems have "a = c" by simp
      with False as xs ys show ?thesis by (intro exI [of _ "b # xs"] exI [of _ ys]) auto
    qed
  qed
qed simp

lemma first_max_mem: "first_max f as = Some a \<Longrightarrow> a \<in> set as"
  using first_max_SomeD by fastforce

lemma selectHybridAccount_first_max:
  "selectHybridAccount config options pid now ht tt q accounts =
     first_max (hybrid_score (config DEFAULT_HYBRID_SELECTION_CONFIG) options pid now ht tt q)
       (available_accounts options accounts)"
  by (auto simp: selectHybridAccount_def best_loop_first_max Let_def
      simp del: best_loop.simps split: list.split)

section \<open>The stable descending sort has the same first element\<close>

lemma insort_key_head:
  "insort_key g x xs = (case xs of [] \<Rightarrow> [x] | y # ys \<Rightarrow> if g x \<le> g y then x # y # ys else y # insort_key g x ys)"
  by (cases xs) auto

lemma sort_key_first_max:
  "(case sort_key (\<lambda>c. - f c) as of [] \<Rightarrow> None | c # _ \<Rightarrow> Some c) = first_max f as"
proof (induction as)
  case (Cons a as)
  then show ?case
    by (cases "sort_key (\<lambda>c. - f c) as"; cases "first_max f as") (auto simp: insort_key_head)
qed simp

lemma find_filter: "List.find p xs = (case filter p xs of [] \<Rightarrow> None | x # _ \<Rightarrow> Some x)"
  by (induction xs) auto

lemma find_sort_first_max: "List.find p (sort_key (\<lambda>c. - f c) as) = first_max f (filter p as)"
  by (simp only: find_filter filter_sort sort_key_first_max)

lemma first_max_map: "first_max f (map g as) = map_option g (first_max (f \<circ> g) as)"
  by (induction as) (auto split: option.split)

lemma trace_candidate_simps [simp]:
  "ct_index (trace_candidate cfg options pid now ht tt q a) = am_index a"
  "ct_score (trace_candidate cfg options pid now ht tt q a) = hybrid_score cfg options pid now ht tt q a"
  "ct_isAvailable (trace_candidate cfg options pid now ht tt q a) \<longleftrightarrow>
     am_isAvailable a \<and> am_index a \<notin> blockedAccountIndexes options"
  by (simp_all add: trace_candidate_def hybrid_score_def Let_def)

lemma filter_trace:
  "filter ct_isAvailable (map (trace_candidate cfg options pid now ht tt q) accounts) =
     map (trace_candidate cfg options pid now ht tt q) (available_accounts options accounts)"
  by (induction accounts) (auto simp: available_accounts_def)

lemma find_traced:
  "List.find ct_isAvailable (sort_key (\<lambda>c. - ct_score c)
       (map (trace_candidate cfg options pid now ht tt q) accounts)) =
     map_option (trace_candidate cfg options pid now ht tt q)
       (first_max (hybrid_score cfg options pid now ht tt q) (available_accounts options accounts))"
  by (simp add: find_sort_first_max filter_trace first_max_map o_def)

lemma find_index:
  assumes "distinct (map am_index accounts)" and "a \<in> set accounts"
  shows "List.find (\<lambda>b. am_index b = am_index a) accounts = Some a"
  using assms by (induction accounts) (auto simp: image_iff)

lemma tr_selectedIndex_traced:
  "tr_selectedIndex (selectHybridAccountTraced config options pid now ht tt q accounts) =
     map_option am_index (tr_selected (selectHybridAccountTraced config options pid now ht tt q accounts))"
  by (simp add: selectHybridAccountTraced_def Let_def case_prod_unfold)

section \<open>Properties\<close>

text \<open>
  C37. The diagnostic selection agrees with production: on accounts with distinct indexes
  \<open>selectHybridAccountTraced\<close> picks exactly the account \<open>selectHybridAccount\<close> picks, although
  one sorts all candidates, blocked ones included, and the other runs a maximum loop over
  the available ones.
\<close>

theorem traced_selection_agrees:
  assumes "distinct (map am_index accounts)"
  shows "tr_selected (selectHybridAccountTraced config options pid now ht tt q accounts) =
           selectHybridAccount config options pid now ht tt q accounts
       \<and> tr_selectedIndex (selectHybridAccountTraced config options pid now ht tt q accounts) =
           map_option am_index (selectHybridAccount config options pid now ht tt q accounts)"
proof -
  let ?av = "available_accounts options accounts"
  let ?f = "hybrid_score (config DEFAULT_HYBRID_SELECTION_CONFIG) options pid now ht tt q"
  have mem: "a \<in> set accounts" if "first_max ?f ?av = Some a" for a
    using first_max_mem [OF that] by (simp add: available_accounts_def)
  have sel: "tr_selected (selectHybridAccountTraced config options pid now ht tt q accounts) = first_max ?f ?av"
  proof (cases "length ?av = 1")
    case True
    then obtain a where "?av = [a]" by (auto simp: length_Suc_conv)
    then show ?thesis by (auto simp: selectHybridAccountTraced_def Let_def available_accounts_def)
  next
    case False
    then show ?thesis
      using mem find_index [OF assms]
      by (cases "first_max ?f ?av")
        (auto simp: selectHybridAccountTraced_def Let_def find_traced available_accounts_def)
  qed
  then show ?thesis by (simp add: selectHybridAccount_first_max tr_selectedIndex_traced)
qed

theorem traced_selection_agrees_witness:
  "tr_selectedIndex (selectHybridAccountTraced id (no_options\<lparr>blockedAccountIndexes := {0}\<rparr>) 7 9000000
      (health_new id) (token_new id) None
      [\<lparr>am_index = 0, am_trackerKey = None, am_isAvailable = True, am_unavailableReason = None, am_lastUsed = 0\<rparr>,
       \<lparr>am_index = 1, am_trackerKey = None, am_isAvailable = True, am_unavailableReason = None, am_lastUsed = 8000000\<rparr>,
       \<lparr>am_index = 2, am_trackerKey = None, am_isAvailable = True, am_unavailableReason = None, am_lastUsed = 7000000\<rparr>])
   = Some 2"
proof -
  let ?as = "[\<lparr>am_index = 0, am_trackerKey = None, am_isAvailable = True, am_unavailableReason = None, am_lastUsed = 0\<rparr>,
       \<lparr>am_index = 1, am_trackerKey = None, am_isAvailable = True, am_unavailableReason = None, am_lastUsed = 8000000\<rparr>,
       \<lparr>am_index = 2, am_trackerKey = None, am_isAvailable = True, am_unavailableReason = None, am_lastUsed = 7000000\<rparr>]"
  have "distinct (map am_index ?as)" by simp
  note agree = traced_selection_agrees [OF this, of id "no_options\<lparr>blockedAccountIndexes := {0}\<rparr>" 7 9000000
      "health_new id" "token_new id" None]
  show ?thesis
    unfolding conjunct2 [OF agree]
    by (simp add: selectHybridAccount_first_max available_accounts_def no_options_def hybrid_score_def
        account_tracker_key_def capability_boost_def getScore_def getTokens_def health_new_def token_new_def
        DEFAULT_HYBRID_SELECTION_CONFIG_def DEFAULT_HEALTH_SCORE_CONFIG_def DEFAULT_TOKEN_BUCKET_CONFIG_def Let_def)
qed

text \<open>
  The selection is optimal and refuses unavailable accounts: it returns \<open>null\<close> exactly
  when no account is available, and otherwise an available, unblocked account whose score
  no other available account exceeds, the earliest in pool order among equals.
\<close>

theorem selectHybridAccount_optimal:
  shows "case selectHybridAccount config options pid now ht tt q accounts of
      None \<Rightarrow> available_accounts options accounts = []
    | Some a \<Rightarrow> \<exists>before after. available_accounts options accounts = before @ a # after
        \<and> a \<in> set accounts \<and> am_isAvailable a \<and> am_index a \<notin> blockedAccountIndexes options
        \<and> (\<forall>b \<in> set before. hybrid_score (config DEFAULT_HYBRID_SELECTION_CONFIG) options pid now ht tt q b
              < hybrid_score (config DEFAULT_HYBRID_SELECTION_CONFIG) options pid now ht tt q a)
        \<and> (\<forall>b \<in> set after. hybrid_score (config DEFAULT_HYBRID_SELECTION_CONFIG) options pid now ht tt q b
              \<le> hybrid_score (config DEFAULT_HYBRID_SELECTION_CONFIG) options pid now ht tt q a)"
proof (cases "selectHybridAccount config options pid now ht tt q accounts")
  case (Some a)
  then have fm: "first_max (hybrid_score (config DEFAULT_HYBRID_SELECTION_CONFIG) options pid now ht tt q)
      (available_accounts options accounts) = Some a"
    by (simp add: selectHybridAccount_first_max)
  from first_max_mem [OF this] have "a \<in> set accounts \<and> am_isAvailable a \<and> am_index a \<notin> blockedAccountIndexes options"
    by (simp add: available_accounts_def)
  with first_max_SomeD [OF fm] Some show ?thesis by auto
qed (simp add: selectHybridAccount_first_max)

theorem selectHybridAccount_optimal_witness:
  "selectHybridAccount id (no_options\<lparr>blockedAccountIndexes := {0}\<rparr>) 7 9000000 (health_new id) (token_new id) None
      [\<lparr>am_index = 0, am_trackerKey = None, am_isAvailable = True, am_unavailableReason = None, am_lastUsed = 0\<rparr>]
     = None"
proof -
  let ?a = "\<lparr>am_index = 0, am_trackerKey = None, am_isAvailable = True, am_unavailableReason = None, am_lastUsed = 0 :: rat\<rparr>"
  have "available_accounts (no_options\<lparr>blockedAccountIndexes := {0}\<rparr>) [?a] = []"
    by (simp add: available_accounts_def)
  then show ?thesis
    using selectHybridAccount_optimal [where config = id and pid = 7 and now = 9000000
        and options = "no_options\<lparr>blockedAccountIndexes := {0}\<rparr>" and ht = "health_new id"
        and tt = "token_new id" and q = None and accounts = "[?a]"]
    by (auto split: option.splits)
qed

lemma hybrid_score_default:
  "\<not> pidOffsetEnabled options \<Longrightarrow> scoreBoostByAccount options = Map.empty \<Longrightarrow>
     hybrid_score DEFAULT_HYBRID_SELECTION_CONFIG options pid now ht tt q a =
       getScore ht now (account_tracker_key a) q * 2 + getTokens tt now (account_tracker_key a) q * 5
       + (now - am_lastUsed a) / 3600000 * 2"
  by (simp add: hybrid_score_def DEFAULT_HYBRID_SELECTION_CONFIG_def capability_boost_def Let_def)

text \<open>
  No starvation.  With the default weights and no boosts, the selected account was never
  used more than 225 hours later than any other available account: health (0 to 100) and
  tokens (0 to 50) are worth at most 450 points, the freshness of 225 hours.
\<close>

theorem hybrid_no_starvation:
  assumes "health_inv DEFAULT_HEALTH_SCORE_CONFIG now ht" and "token_inv DEFAULT_TOKEN_BUCKET_CONFIG now tt"
    and "\<not> pidOffsetEnabled options" and "scoreBoostByAccount options = Map.empty"
    and "selectHybridAccount id options pid now ht tt q accounts = Some a"
    and "b \<in> set accounts" and "am_isAvailable b" and "am_index b \<notin> blockedAccountIndexes options"
  shows "am_lastUsed a - am_lastUsed b \<le> 225 * 3600000"
proof -
  let ?f = "hybrid_score DEFAULT_HYBRID_SELECTION_CONFIG options pid now ht tt q"
  have fm: "first_max ?f (available_accounts options accounts) = Some a"
    using assms(5) by (simp add: selectHybridAccount_first_max)
  have "b \<in> set (available_accounts options accounts)" using assms(6-8) by (simp add: available_accounts_def)
  with first_max_SomeD [OF fm] have "?f b \<le> ?f a" by fastforce
  moreover have "0 \<le> getScore ht now k q \<and> getScore ht now k q \<le> 100"
      "0 \<le> getTokens tt now k q \<and> getTokens tt now k q \<le> 50" for k
    using health_inv_getScore [OF assms(1), of k q] token_inv_bounds [OF assms(2), of k q]
    by (simp_all add: DEFAULT_HEALTH_SCORE_CONFIG_def DEFAULT_TOKEN_BUCKET_CONFIG_def)
  note this [of "account_tracker_key a"] this [of "account_tracker_key b"]
  ultimately show ?thesis
    by (simp add: hybrid_score_default [OF assms(3,4)] field_simps)
qed

theorem hybrid_no_starvation_witness:
  "\<exists>a b. selectHybridAccount id no_options 7 9000000 (health_recordFailure (health_new id) 9000000 (NumKey 1) None)
        (token_new id) None [a, b] = Some a
     \<and> am_lastUsed a - am_lastUsed b = 5000000 \<and> am_lastUsed a - am_lastUsed b \<le> 225 * 3600000"
proof -
  let ?a = "\<lparr>am_index = 0, am_trackerKey = None, am_isAvailable = True, am_unavailableReason = None, am_lastUsed = 5000000\<rparr>"
  let ?b = "\<lparr>am_index = 1, am_trackerKey = None, am_isAvailable = True, am_unavailableReason = None, am_lastUsed = 0\<rparr>"
  let ?ht = "health_recordFailure (health_new id) 9000000 (NumKey 1) None"
  have ht: "health_inv DEFAULT_HEALTH_SCORE_CONFIG 9000000 ?ht"
    using health_inv_step [OF health_inv_new [of id 9000000], of "HFailure (NumKey 1) None"] by simp
  have tt: "token_inv DEFAULT_TOKEN_BUCKET_CONFIG 9000000 (token_new id)"
    using token_inv_new [of id 9000000] by simp
  have sel: "selectHybridAccount id no_options 7 9000000 ?ht (token_new id) None [?a, ?b] = Some ?a"
    by (simp add: selectHybridAccount_first_max available_accounts_def hybrid_score_default no_options_def
        hybrid_score_def capability_boost_def DEFAULT_HYBRID_SELECTION_CONFIG_def
        account_tracker_key_def health_record_alt getScore_def getTokens_def health_new_def token_new_def
        normalizeTrackerKey_def applyPassiveRecovery_def jm_get_set
        DEFAULT_HEALTH_SCORE_CONFIG_def DEFAULT_TOKEN_BUCKET_CONFIG_def Let_def)
  have "am_lastUsed ?a - am_lastUsed ?b \<le> 225 * 3600000"
    using hybrid_no_starvation [OF ht tt _ _ sel, of ?b] by (simp add: no_options_def)
  with sel show ?thesis by (intro exI [of _ ?a] exI [of _ ?b]) simp
qed

end
