(* ===== verification/CircuitBreaker.thy ===== *)
theory CircuitBreaker
  imports JsMap
begin

text \<open>
  \<open>lib/circuit-breaker.ts\<close>: the three-state breaker with its half-open probe windows, and the
  registry of breakers with eviction of the oldest.

  \<open>probeWindow\<close> holds a fresh object per window, compared by identity; it is the number of
  windows opened so far.  The closure \<open>tryCanExecute\<close> hands to \<open>onProbeAcquired\<close> is a \<open>probe\<close>:
  the window it captured and its \<open>released\<close> flag.  Attempt and failure counts are integers,
  times are rationals.
\<close>

section \<open>Configuration and state\<close>

record breaker_config =
  failureThreshold :: int
  failureWindowMs :: jsnum
  resetTimeoutMs :: jsnum
  halfOpenMaxAttempts :: int

definition DEFAULT_CIRCUIT_BREAKER_CONFIG :: breaker_config where
  "DEFAULT_CIRCUIT_BREAKER_CONFIG =
     \<lparr>failureThreshold = 3, failureWindowMs = 60000, resetTimeoutMs = 30000, halfOpenMaxAttempts = 1\<rparr>"

datatype circuit_state = Closed | Open | HalfOpen

datatype admission = Admitted | Rejected circuit_state jsnum

record breaker =
  cb_state :: circuit_state
  cb_failures :: "jsnum list"
  lastStateChange :: jsnum
  halfOpenAttempts :: int
  probeWindow :: nat
  cb_config :: breaker_config

record probe =
  pr_window :: nat
  pr_released :: bool

definition breaker_new :: "(breaker_config \<Rightarrow> breaker_config) \<Rightarrow> jsnum \<Rightarrow> breaker" where
  "breaker_new override now =
     \<lparr>cb_state = Closed, cb_failures = [], lastStateChange = now, halfOpenAttempts = 0,
      probeWindow = 0, cb_config = override DEFAULT_CIRCUIT_BREAKER_CONFIG\<rparr>"

section \<open>Private transitions\<close>

definition pruneFailures :: "breaker \<Rightarrow> jsnum \<Rightarrow> breaker" where
  "pruneFailures cb now =
     (let cutoff = now - failureWindowMs (cb_config cb)
      in cb\<lparr>cb_failures := filter (\<lambda>timestamp. timestamp \<ge> cutoff) (cb_failures cb)\<rparr>)"

definition transitionToOpen :: "breaker \<Rightarrow> jsnum \<Rightarrow> breaker" where
  "transitionToOpen cb now =
     cb\<lparr>cb_state := Open, lastStateChange := now, halfOpenAttempts := 0, probeWindow := Suc (probeWindow cb)\<rparr>"

definition transitionToHalfOpen :: "breaker \<Rightarrow> jsnum \<Rightarrow> breaker" where
  "transitionToHalfOpen cb now =
     cb\<lparr>cb_state := HalfOpen, lastStateChange := now, halfOpenAttempts := 0, probeWindow := Suc (probeWindow cb)\<rparr>"

definition hasHalfOpenProbeWaitElapsed :: "breaker \<Rightarrow> jsnum \<Rightarrow> bool" where
  "hasHalfOpenProbeWaitElapsed cb now \<longleftrightarrow> now - lastStateChange cb \<ge> resetTimeoutMs (cb_config cb)"

definition resetHalfOpenProbeWindow :: "breaker \<Rightarrow> jsnum \<Rightarrow> breaker" where
  "resetHalfOpenProbeWindow cb now =
     cb\<lparr>lastStateChange := now, halfOpenAttempts := 0, probeWindow := Suc (probeWindow cb)\<rparr>"

definition resetToClosed :: "breaker \<Rightarrow> jsnum \<Rightarrow> breaker" where
  "resetToClosed cb now =
     cb\<lparr>cb_state := Closed, lastStateChange := now, halfOpenAttempts := 0,
        probeWindow := Suc (probeWindow cb), cb_failures := []\<rparr>"

section \<open>Admission\<close>

text \<open>The half-open part of \<open>tryCanExecute\<close>: the guard, then the slot and its release closure.\<close>

definition acquire_probe :: "breaker \<Rightarrow> admission \<times> probe option \<times> breaker" where
  "acquire_probe cb =
     (let cb' = cb\<lparr>halfOpenAttempts := halfOpenAttempts cb + 1\<rparr>
      in (Admitted, Some \<lparr>pr_window = probeWindow cb', pr_released = False\<rparr>, cb'))"

definition half_open_admission :: "breaker \<Rightarrow> jsnum \<Rightarrow> admission \<times> probe option \<times> breaker" where
  "half_open_admission cb now =
     (let cb = (if halfOpenAttempts cb = 0 then resetHalfOpenProbeWindow cb now else cb)
      in if halfOpenAttempts cb \<ge> halfOpenMaxAttempts (cb_config cb)
         then if hasHalfOpenProbeWaitElapsed cb now
              then acquire_probe (resetHalfOpenProbeWindow cb now)
              else (Rejected HalfOpen (max 0 (resetTimeoutMs (cb_config cb) - (now - lastStateChange cb))), None, cb)
         else acquire_probe cb)"

definition tryCanExecute :: "breaker \<Rightarrow> jsnum \<Rightarrow> admission \<times> probe option \<times> breaker" where
  "tryCanExecute cb now =
     (case cb_state cb of
        Open \<Rightarrow>
          if now - lastStateChange cb \<ge> resetTimeoutMs (cb_config cb)
          then half_open_admission (transitionToHalfOpen cb now) now
          else (Rejected Open (max 0 (resetTimeoutMs (cb_config cb) - (now - lastStateChange cb))), None, cb)
      | HalfOpen \<Rightarrow> half_open_admission cb now
      | Closed \<Rightarrow> (Admitted, None, cb))"

definition release_probe :: "probe \<Rightarrow> breaker \<Rightarrow> probe \<times> breaker" where
  "release_probe p cb =
     (if pr_released p then (p, cb)
      else (p\<lparr>pr_released := True\<rparr>,
            if cb_state cb = HalfOpen \<and> probeWindow cb = pr_window p
            then cb\<lparr>halfOpenAttempts := halfOpenAttempts cb - 1\<rparr> else cb))"

datatype circuit_error = CircuitOpenError string

definition canExecute :: "breaker \<Rightarrow> jsnum \<Rightarrow> (circuit_error + bool) \<times> breaker" where
  "canExecute cb now =
     (case tryCanExecute cb now of
        (Admitted, _, cb') \<Rightarrow> (Inr True, cb')
      | (Rejected reason _, _, cb') \<Rightarrow>
          (Inl (CircuitOpenError (if reason = HalfOpen then ''Circuit is half-open'' else ''Circuit is open'')), cb'))"

definition breaker_isAvailable :: "breaker \<Rightarrow> jsnum \<Rightarrow> bool" where
  "breaker_isAvailable cb now \<longleftrightarrow>
     (case cb_state cb of
        Open \<Rightarrow> now - lastStateChange cb \<ge> resetTimeoutMs (cb_config cb)
      | HalfOpen \<Rightarrow> halfOpenAttempts cb < halfOpenMaxAttempts (cb_config cb) \<or> hasHalfOpenProbeWaitElapsed cb now
      | Closed \<Rightarrow> True)"

section \<open>Outcomes\<close>

definition breaker_recordSuccess :: "breaker \<Rightarrow> jsnum \<Rightarrow> breaker" where
  "breaker_recordSuccess cb now =
     (if cb_state cb = HalfOpen then resetToClosed cb now
      else if cb_state cb = Closed then pruneFailures cb now else cb)"

definition breaker_recordFailure :: "breaker \<Rightarrow> jsnum \<Rightarrow> breaker" where
  "breaker_recordFailure cb now =
     (let cb = pruneFailures cb now;
          cb = cb\<lparr>cb_failures := cb_failures cb @ [now]\<rparr>
      in if cb_state cb = HalfOpen then transitionToOpen cb now
         else if cb_state cb = Closed \<and> int (length (cb_failures cb)) \<ge> failureThreshold (cb_config cb)
              then transitionToOpen cb now
              else cb)"

definition breaker_reset :: "breaker \<Rightarrow> jsnum \<Rightarrow> breaker" where
  "breaker_reset cb now = resetToClosed cb now"

definition getFailureCount :: "breaker \<Rightarrow> jsnum \<Rightarrow> nat \<times> breaker" where
  "getFailureCount cb now = (let cb' = pruneFailures cb now in (length (cb_failures cb'), cb'))"

definition getTimeUntilReset :: "breaker \<Rightarrow> jsnum \<Rightarrow> jsnum" where
  "getTimeUntilReset cb now =
     (if cb_state cb \<noteq> Open then 0
      else let elapsed = now - lastStateChange cb in max 0 (resetTimeoutMs (cb_config cb) - elapsed))"

definition getTimeUntilAvailable :: "breaker \<Rightarrow> jsnum \<Rightarrow> jsnum" where
  "getTimeUntilAvailable cb now =
     (if cb_state cb = Open then max 0 (resetTimeoutMs (cb_config cb) - (now - lastStateChange cb))
      else if cb_state cb = HalfOpen \<and> halfOpenAttempts cb \<ge> halfOpenMaxAttempts (cb_config cb)
      then max 0 (resetTimeoutMs (cb_config cb) - (now - lastStateChange cb))
      else 0)"

lemmas breaker_transitions =
  transitionToOpen_def transitionToHalfOpen_def resetHalfOpenProbeWindow_def resetToClosed_def
  pruneFailures_def hasHalfOpenProbeWaitElapsed_def

lemmas admission_defs =
  tryCanExecute_def half_open_admission_def acquire_probe_def

section \<open>The breaker with the closures it has handed out\<close>

text \<open>
  The state of a client's interaction: the breaker and every release closure handed out so
  far, oldest first.  A call of closure \<open>i\<close> is \<open>BRelease i\<close>; it may happen at any time and any
  number of times.
\<close>

datatype breaker_op = BTry | BRelease nat | BSuccess | BFailure | BReset | BCount

type_synonym breaker_sys = "breaker \<times> probe list"

fun breaker_step :: "breaker_op \<Rightarrow> jsnum \<Rightarrow> breaker_sys \<Rightarrow> breaker_sys" where
  "breaker_step BTry now (cb, ps) =
     (case tryCanExecute cb now of (_, None, cb') \<Rightarrow> (cb', ps) | (_, Some p, cb') \<Rightarrow> (cb', ps @ [p]))"
| "breaker_step (BRelease i) now (cb, ps) =
     (if i < length ps then (case release_probe (ps ! i) cb of (p, cb') \<Rightarrow> (cb', ps[i := p])) else (cb, ps))"
| "breaker_step BSuccess now (cb, ps) = (breaker_recordSuccess cb now, ps)"
| "breaker_step BFailure now (cb, ps) = (breaker_recordFailure cb now, ps)"
| "breaker_step BReset now (cb, ps) = (breaker_reset cb now, ps)"
| "breaker_step BCount now (cb, ps) = (snd (getFailureCount cb now), ps)"

definition live :: "nat \<Rightarrow> probe \<Rightarrow> bool" where
  "live w p \<longleftrightarrow> pr_window p = w \<and> \<not> pr_released p"

definition in_flight :: "breaker_sys \<Rightarrow> int" where
  "in_flight s = int (length (filter (live (probeWindow (fst s))) (snd s)))"

definition breaker_inv :: "breaker_config \<Rightarrow> breaker_sys \<Rightarrow> bool" where
  "breaker_inv c s \<longleftrightarrow>
     cb_config (fst s) = c
     \<and> halfOpenAttempts (fst s) = in_flight s
     \<and> halfOpenAttempts (fst s) \<le> max 1 (halfOpenMaxAttempts c)
     \<and> (cb_state (fst s) \<noteq> HalfOpen \<longrightarrow> in_flight s = 0)
     \<and> (\<forall>p \<in> set (snd s). pr_window p \<le> probeWindow (fst s))
     \<and> (cb_state (fst s) = Closed \<longrightarrow> int (length (cb_failures (fst s))) < max 1 (failureThreshold c))"

lemma no_live_fresh: "\<forall>p \<in> set ps. pr_window p \<le> w \<Longrightarrow> filter (live (Suc w)) ps = []"
  by (induction ps) (auto simp: live_def)

lemma filter_live_release:
  assumes "i < length ps" and "live w (ps ! i)"
  shows "Suc (length (filter (live w) (ps[i := (ps ! i)\<lparr>pr_released := True\<rparr>]))) = length (filter (live w) ps)"
  using assms
proof (induction ps arbitrary: i)
  case (Cons p ps)
  then show ?case by (cases i) (auto simp: live_def)
qed simp

lemma filter_live_other:
  assumes "i < length ps" and "\<not> live w (ps ! i)"
  shows "filter (live w) (ps[i := (ps ! i)\<lparr>pr_released := True\<rparr>]) = filter (live w) ps"
  using assms
proof (induction ps arbitrary: i)
  case (Cons p ps)
  then show ?case by (cases i) (auto simp: live_def)
qed simp

lemma in_flight_fresh:
  "\<forall>p \<in> set ps. pr_window p \<le> w \<Longrightarrow> probeWindow cb = Suc w \<Longrightarrow> in_flight (cb, ps) = 0"
  by (simp add: in_flight_def no_live_fresh)

lemma in_flight_append:
  "in_flight (cb, ps @ [p]) = in_flight (cb, ps) + (if live (probeWindow cb) p then 1 else 0)"
  by (simp add: in_flight_def)

lemma in_flight_nonneg: "0 \<le> in_flight s"
  by (simp add: in_flight_def)

lemma in_flight_window: "probeWindow cb' = probeWindow cb \<Longrightarrow> in_flight (cb', ps) = in_flight (cb, ps)"
  by (simp add: in_flight_def)

lemma breaker_inv_new: "breaker_inv (override DEFAULT_CIRCUIT_BREAKER_CONFIG) (breaker_new override t, [])"
  by (simp add: breaker_inv_def breaker_new_def in_flight_def le_max_iff_disj less_max_iff_disj)

lemma windows_le_Suc: "\<forall>p \<in> set ps. pr_window p \<le> w \<Longrightarrow> \<forall>p \<in> set ps. pr_window p \<le> Suc w"
  by auto

text \<open>Opening a fresh window re-establishes everything but the closed-state bound.\<close>

lemma breaker_inv_fresh_window:
  assumes "breaker_inv c (cb, ps)" and "probeWindow cb' = Suc (probeWindow cb)" and "halfOpenAttempts cb' = 0"
    and "cb_config cb' = cb_config cb"
    and "cb_state cb' = Closed \<Longrightarrow> int (length (cb_failures cb')) < max 1 (failureThreshold c)"
  shows "breaker_inv c (cb', ps)"
  using assms in_flight_fresh [of ps "probeWindow cb" cb'] windows_le_Suc [of ps "probeWindow cb"]
  by (auto simp: breaker_inv_def)

lemma breaker_inv_acquire:
  assumes "breaker_inv c (cb, ps)" and "cb_state cb = HalfOpen"
    and "halfOpenAttempts cb < max 1 (halfOpenMaxAttempts c)"
  shows "breaker_inv c (cb\<lparr>halfOpenAttempts := halfOpenAttempts cb + 1\<rparr>,
           ps @ [\<lparr>pr_window = probeWindow cb, pr_released = False\<rparr>])"
  using assms by (auto simp: breaker_inv_def in_flight_def live_def)

lemma breaker_inv_half_open:
  assumes inv: "breaker_inv c (cb, ps)" and ho: "cb_state cb = HalfOpen"
  shows "\<exists>cb'. (\<exists>p. snd (half_open_admission cb now) = (Some p, cb') \<and> breaker_inv c (cb', ps @ [p]))
      \<or> (snd (half_open_admission cb now) = (None, cb') \<and> breaker_inv c (cb', ps))"
proof -
  define cb1 where "cb1 = (if halfOpenAttempts cb = 0 then resetHalfOpenProbeWindow cb now else cb)"
  have reset: "breaker_inv c (resetHalfOpenProbeWindow b now, ps)" if "breaker_inv c (b, ps)" "cb_state b = HalfOpen" for b
    by (rule breaker_inv_fresh_window [OF that(1)]) (simp_all add: resetHalfOpenProbeWindow_def that)
  have cb1: "breaker_inv c (cb1, ps)" "cb_state cb1 = HalfOpen"
    using inv ho reset [OF inv ho] by (simp_all add: cb1_def resetHalfOpenProbeWindow_def)
  have cfg: "cb_config cb1 = c" using cb1 by (simp add: breaker_inv_def)
  let ?cb2 = "resetHalfOpenProbeWindow cb1 now"
  show ?thesis
  proof (cases "halfOpenAttempts cb1 \<ge> halfOpenMaxAttempts c")
    case True
    show ?thesis
    proof (cases "hasHalfOpenProbeWaitElapsed cb1 now")
      case elapsed: True
      have "breaker_inv c (?cb2\<lparr>halfOpenAttempts := halfOpenAttempts ?cb2 + 1\<rparr>,
           ps @ [\<lparr>pr_window = probeWindow ?cb2, pr_released = False\<rparr>])"
        by (rule breaker_inv_acquire [OF reset [OF cb1]]) (simp_all add: resetHalfOpenProbeWindow_def cb1)
      with True elapsed show ?thesis
        unfolding half_open_admission_def cb1_def [symmetric] Let_def
        by (simp add: acquire_probe_def cfg Let_def)
    next
      case False
      with True cb1 show ?thesis
        unfolding half_open_admission_def cb1_def [symmetric] Let_def by (simp add: cfg)
    qed
  next
    case False
    then show ?thesis
      using breaker_inv_acquire [OF cb1]
      unfolding half_open_admission_def cb1_def [symmetric] Let_def
      by (simp add: acquire_probe_def cfg Let_def)
  qed
qed

lemma breaker_inv_try:
  assumes inv: "breaker_inv c (cb, ps)"
  shows "breaker_inv c (breaker_step BTry now (cb, ps))"
proof -
  have ho: "breaker_inv c (transitionToHalfOpen cb now, ps)" "cb_state (transitionToHalfOpen cb now) = HalfOpen"
    by (rule breaker_inv_fresh_window [OF inv]) (simp_all add: transitionToHalfOpen_def)
  show ?thesis
    using inv breaker_inv_half_open [OF inv, of now] breaker_inv_half_open [OF ho, of now]
    by (cases "cb_state cb")
      (auto simp: tryCanExecute_def case_prod_unfold split: option.split)
qed

lemma breaker_inv_release:
  assumes inv: "breaker_inv c (cb, ps)"
  shows "breaker_inv c (breaker_step (BRelease i) now (cb, ps))"
proof (cases "i < length ps \<and> \<not> pr_released (ps ! i)")
  case True
  let ?p = "ps ! i" and ?ps = "ps[i := (ps ! i)\<lparr>pr_released := True\<rparr>]"
  have win: "\<forall>p \<in> set ?ps. pr_window p \<le> probeWindow cb"
    using inv True by (auto simp: breaker_inv_def set_conv_nth nth_list_update)
  show ?thesis
  proof (cases "live (probeWindow cb) ?p")
    case live: True
    have fl: "in_flight (cb, ps) = in_flight (cb, ?ps) + 1"
      using filter_live_release [OF conjunct1 [OF True] live] by (simp add: in_flight_def)
    have "cb_state cb = HalfOpen"
    proof (rule ccontr)
      assume "cb_state cb \<noteq> HalfOpen"
      with inv have "in_flight (cb, ps) = 0" by (simp add: breaker_inv_def)
      with fl in_flight_nonneg [of "(cb, ?ps)"] show False by simp
    qed
    with True live inv fl win show ?thesis
      by (simp add: release_probe_def live_def breaker_inv_def in_flight_def)
  next
    case dead: False
    then have "in_flight (cb, ?ps) = in_flight (cb, ps)"
      using filter_live_other [OF conjunct1 [OF True] dead] by (simp add: in_flight_def)
    with True dead inv win show ?thesis
      by (simp add: release_probe_def live_def breaker_inv_def)
  qed
qed (use inv in \<open>auto simp: release_probe_def\<close>)

lemma breaker_inv_prune:
  assumes "breaker_inv c (cb, ps)"
  shows "breaker_inv c (pruneFailures cb now, ps)"
proof -
  have "int (length (cb_failures (pruneFailures cb now))) \<le> int (length (cb_failures cb))"
    by (simp add: pruneFailures_def Let_def)
  then have "cb_state cb = Closed \<Longrightarrow> int (length (cb_failures (pruneFailures cb now))) < max 1 (failureThreshold c)"
    using assms by (auto simp: breaker_inv_def)
  with assms show ?thesis
    by (auto simp: breaker_inv_def in_flight_def pruneFailures_def Let_def)
qed

lemma breaker_inv_failure:
  assumes inv: "breaker_inv c (cb, ps)"
  shows "breaker_inv c (breaker_recordFailure cb now, ps)"
proof -
  let ?cb = "(pruneFailures cb now)\<lparr>cb_failures := cb_failures (pruneFailures cb now) @ [now]\<rparr>"
  have p: "breaker_inv c (pruneFailures cb now, ps)" by (rule breaker_inv_prune [OF inv])
  have op: "breaker_inv c (transitionToOpen ?cb now, ps)"
    by (rule breaker_inv_fresh_window [OF p]) (simp_all add: transitionToOpen_def)
  have stay: "breaker_inv c (?cb, ps)"
    if "cb_state cb = Closed \<Longrightarrow> int (length (cb_failures ?cb)) < failureThreshold c"
    using p that by (auto simp: breaker_inv_def in_flight_def pruneFailures_def Let_def)
  have cfg: "cb_config cb = c" using inv by (simp add: breaker_inv_def)
  have st: "cb_state ?cb = cb_state cb" "cb_config ?cb = c"
    by (simp_all add: pruneFailures_def cfg)
  show ?thesis unfolding breaker_recordFailure_def Let_def st
    using op stay by (cases "cb_state cb") simp_all
qed

lemma breaker_inv_success:
  assumes inv: "breaker_inv c (cb, ps)"
  shows "breaker_inv c (breaker_recordSuccess cb now, ps)"
  unfolding breaker_recordSuccess_def
  using inv breaker_inv_prune [OF inv]
  by (auto intro!: breaker_inv_fresh_window [OF inv] simp: resetToClosed_def)

lemma breaker_inv_step:
  assumes "breaker_inv c s"
  shows "breaker_inv c (breaker_step x now s)"
proof -
  obtain cb ps where s: "s = (cb, ps)" by (cases s)
  note inv = assms [unfolded s]
  show ?thesis
  proof (cases x)
    case BTry
    with breaker_inv_try [OF inv] s show ?thesis by simp
  next
    case (BRelease i)
    with breaker_inv_release [OF inv] s show ?thesis by simp
  next
    case BSuccess
    with breaker_inv_success [OF inv] s show ?thesis by simp
  next
    case BFailure
    with breaker_inv_failure [OF inv] s show ?thesis by simp
  next
    case BReset
    have "breaker_inv c (resetToClosed cb now, ps)"
      by (rule breaker_inv_fresh_window [OF inv]) (simp_all add: resetToClosed_def)
    with BReset s show ?thesis by (simp add: breaker_reset_def)
  next
    case BCount
    with breaker_inv_prune [OF inv] s show ?thesis by (simp add: getFailureCount_def Let_def)
  qed
qed

interpretation cb: stable_machine breaker_step "breaker_inv c" for c
  by unfold_locales (rule breaker_inv_step)


section \<open>The registry\<close>

definition MAX_CIRCUIT_BREAKERS :: nat where
  "MAX_CIRCUIT_BREAKERS = 100"

type_synonym breaker_registry = "(string, breaker) jsmap"

text \<open>The code skips the eviction when the oldest key is falsy, i.e. the empty string.\<close>

definition getCircuitBreaker ::
  "breaker_registry \<Rightarrow> jsnum \<Rightarrow> string \<Rightarrow> (breaker_config \<Rightarrow> breaker_config) \<Rightarrow> breaker \<times> breaker_registry" where
  "getCircuitBreaker reg now key override =
     (case jm_get reg key of
        Some b \<Rightarrow> (b, reg)
      | None \<Rightarrow>
          let reg = (if length reg \<ge> MAX_CIRCUIT_BREAKERS
                     then (case jm_first_key reg of
                             Some firstKey \<Rightarrow> if firstKey \<noteq> [] then jm_delete firstKey reg else reg
                           | None \<Rightarrow> reg)
                     else reg);
              b = breaker_new override now
          in (b, jm_set key b reg))"

definition resetAllCircuitBreakers :: "breaker_registry \<Rightarrow> jsnum \<Rightarrow> breaker_registry" where
  "resetAllCircuitBreakers reg now = map (\<lambda>(k, b). (k, breaker_reset b now)) reg"

definition clearCircuitBreakers :: "breaker_registry \<Rightarrow> breaker_registry" where
  "clearCircuitBreakers reg = []"

definition removeCircuitBreaker :: "breaker_registry \<Rightarrow> string \<Rightarrow> breaker_registry" where
  "removeCircuitBreaker reg key = jm_delete key reg"

definition registry_inv :: "breaker_registry \<Rightarrow> bool" where
  "registry_inv reg \<longleftrightarrow> jm_ok reg \<and> length reg \<le> MAX_CIRCUIT_BREAKERS \<and> \<not> jm_has reg []"

lemma registry_evict:
  assumes "registry_inv reg" and "jm_get reg key = None"
  shows "\<exists>reg'. snd (getCircuitBreaker reg now key override) = jm_set key (breaker_new override now) reg'
     \<and> (reg' = reg \<and> length reg < MAX_CIRCUIT_BREAKERS \<or>
        (\<exists>old. jm_first_key reg = Some old \<and> jm_has reg old \<and> reg' = jm_delete old reg
            \<and> length reg = MAX_CIRCUIT_BREAKERS))"
proof (cases "length reg < MAX_CIRCUIT_BREAKERS")
  case True
  with assms show ?thesis by (simp add: getCircuitBreaker_def Let_def)
next
  case False
  with assms have full: "length reg = MAX_CIRCUIT_BREAKERS" by (simp add: registry_inv_def)
  then have "reg \<noteq> []" by (auto simp: MAX_CIRCUIT_BREAKERS_def)
  then obtain old where old: "jm_first_key reg = Some old" using jm_first_key_some by blast
  from jm_first_key_has [OF this] have has: "jm_has reg old" .
  with assms have "old \<noteq> []" by (auto simp: registry_inv_def)
  with old full has assms(2) show ?thesis by (simp add: getCircuitBreaker_def Let_def)
qed

lemma registry_inv_get:
  assumes "registry_inv reg" and "key \<noteq> []"
  shows "registry_inv (snd (getCircuitBreaker reg now key override))"
proof (cases "jm_get reg key")
  case None
  from registry_evict [OF assms(1) None, of now override] assms(2) show ?thesis
    using assms(1) jm.put_room_size [of reg MAX_CIRCUIT_BREAKERS key "breaker_new override now"]
      jm.evict_put_size [of reg _ MAX_CIRCUIT_BREAKERS key "breaker_new override now"]
    by (auto simp: registry_inv_def jm_has_def jm_simps jm_ok_set jm_ok_delete split: if_splits)
qed (use assms in \<open>simp add: getCircuitBreaker_def\<close>)


datatype registry_op =
    RGet string "breaker_config \<Rightarrow> breaker_config"
  | RResetAll
  | RClear
  | RRemove string

fun registry_step :: "registry_op \<Rightarrow> jsnum \<Rightarrow> breaker_registry \<Rightarrow> breaker_registry" where
  "registry_step (RGet key override) now reg = snd (getCircuitBreaker reg now key override)"
| "registry_step RResetAll now reg = resetAllCircuitBreakers reg now"
| "registry_step RClear now reg = clearCircuitBreakers reg"
| "registry_step (RRemove key) now reg = removeCircuitBreaker reg key"

fun registry_op_ok :: "registry_op \<Rightarrow> bool" where
  "registry_op_ok (RGet key override) = (key \<noteq> [])"
| "registry_op_ok _ = True"

lemma registry_inv_step:
  assumes "registry_inv reg" and "registry_op_ok x"
  shows "registry_inv (registry_step x t reg)"
proof (cases x)
  case (RGet key override)
  with assms show ?thesis by (simp add: registry_inv_get)
next
  case (RRemove key)
  with assms show ?thesis using length_jm_delete_le [of key reg]
    by (auto simp: registry_inv_def removeCircuitBreaker_def jm_has_def jm_simps jm_ok_delete)
qed (use assms in \<open>auto simp: resetAllCircuitBreakers_def clearCircuitBreakers_def registry_inv_def
      jm_ok_map_values jm_has_def jm_get_map_values\<close>)

lemma registry_inv_run:
  "registry_inv reg \<Longrightarrow> list_all (\<lambda>(x, t). registry_op_ok x) ops \<Longrightarrow> registry_inv (timed_run registry_step reg ops)"
  by (induction ops arbitrary: reg) (auto simp: registry_inv_step)

section \<open>Admission lemmas\<close>

lemma acquire_probe_admits: "fst (acquire_probe b) = Admitted"
  by (simp add: acquire_probe_def Let_def)

lemma half_open_admits:
  assumes "1 \<le> halfOpenMaxAttempts (cb_config cb)"
  shows "fst (half_open_admission cb now) = Admitted \<longleftrightarrow>
    halfOpenAttempts cb < halfOpenMaxAttempts (cb_config cb) \<or> hasHalfOpenProbeWaitElapsed cb now"
  using assms
  by (simp add: half_open_admission_def Let_def acquire_probe_admits resetHalfOpenProbeWindow_def)

lemma half_open_rejects:
  assumes "1 \<le> halfOpenMaxAttempts (cb_config cb)" and "fst (half_open_admission cb now) = Rejected reason ms"
  shows "reason = HalfOpen \<and> ms = max 0 (resetTimeoutMs (cb_config cb) - (now - lastStateChange cb))
    \<and> halfOpenMaxAttempts (cb_config cb) \<le> halfOpenAttempts cb \<and> \<not> hasHalfOpenProbeWaitElapsed cb now"
  using assms
  by (auto simp: half_open_admission_def Let_def acquire_probe_admits resetHalfOpenProbeWindow_def
      split: if_splits)

text \<open>An open breaker inside its timeout: what every operation but a reset leaves unchanged.\<close>

definition open_since :: "jsnum \<Rightarrow> breaker_config \<Rightarrow> breaker_sys \<Rightarrow> bool" where
  "open_since t0 c s \<longleftrightarrow> cb_state (fst s) = Open \<and> lastStateChange (fst s) = t0 \<and> cb_config (fst s) = c"

lemma open_since_step:
  assumes "open_since t0 c s" and "x \<noteq> BReset" and "t - t0 < resetTimeoutMs c"
  shows "open_since t0 c (breaker_step x t s)"
proof -
  obtain cb ps where s: "s = (cb, ps)" by (cases s)
  show ?thesis
    using assms unfolding s
    by (cases x)
      (auto simp: open_since_def tryCanExecute_def release_probe_def breaker_recordSuccess_def
        breaker_recordFailure_def getFailureCount_def pruneFailures_def Let_def split: prod.split)
qed

lemma open_since_run:
  "open_since t0 c s \<Longrightarrow> list_all (\<lambda>(x, t). x \<noteq> BReset \<and> t - t0 < resetTimeoutMs c) ops
     \<Longrightarrow> open_since t0 c (timed_run breaker_step s ops)"
proof (induction ops arbitrary: s)
  case (Cons e ops)
  obtain x t where e: "e = (x, t)" by (cases e)
  with Cons.prems have "open_since t0 c (breaker_step x t s)" by (auto intro: open_since_step)
  with Cons e show ?case by simp
qed simp

section \<open>The trip rule\<close>

text \<open>
  The specification of the trip: \<open>seen\<close> are the failures since the last reset, and a failure
  trips the breaker when the failures not older than the window reach the threshold.
\<close>

definition recent_failures :: "breaker_config \<Rightarrow> jsnum \<Rightarrow> jsnum list \<Rightarrow> jsnum list" where
  "recent_failures c t seen = filter (\<lambda>x. t - failureWindowMs c \<le> x) seen"

fun has_burst :: "breaker_config \<Rightarrow> jsnum list \<Rightarrow> (breaker_op \<times> jsnum) list \<Rightarrow> bool" where
  "has_burst c seen [] = False"
| "has_burst c seen ((x, t) # ops) =
     (if x = BFailure
      then failureThreshold c \<le> 1 + int (length (recent_failures c t seen)) \<or> has_burst c (seen @ [t]) ops
      else has_burst c (if x = BReset then [] else seen) ops)"

text \<open>The closed breaker holds the specification's failures, as far as a later cutoff can see.\<close>

definition closed_like :: "breaker_config \<Rightarrow> jsnum \<Rightarrow> jsnum list \<Rightarrow> breaker_sys \<Rightarrow> bool" where
  "closed_like c t seen s \<longleftrightarrow> cb_state (fst s) = Closed \<and> cb_config (fst s) = c
     \<and> (\<forall>t' \<ge> t. recent_failures c t' (cb_failures (fst s)) = recent_failures c t' seen)"

lemma recent_failures_prune:
  "t \<le> t' \<Longrightarrow> recent_failures c t' (filter (\<lambda>x. t - failureWindowMs c \<le> x) xs) = recent_failures c t' xs"
  by (auto simp: recent_failures_def intro!: filter_cong)

lemma closed_like_step:
  assumes cl: "closed_like c t0 seen (cb, ps)" and "t0 \<le> t" and "x \<noteq> BFailure"
  shows "closed_like c t (if x = BReset then [] else seen) (breaker_step x t (cb, ps))"
  using assms recent_failures_prune [of t _ c "cb_failures cb"]
  by (cases x)
    (auto simp: closed_like_def tryCanExecute_def release_probe_def breaker_recordSuccess_def breaker_reset_def
      getFailureCount_def pruneFailures_def resetToClosed_def recent_failures_def Let_def split: prod.split)

lemma closed_like_failure:
  assumes cl: "closed_like c t0 seen (cb, ps)" and le: "t0 \<le> t"
  shows "if failureThreshold c \<le> 1 + int (length (recent_failures c t seen))
         then cb_state (breaker_recordFailure cb t) = Open
         else closed_like c t (seen @ [t]) (breaker_recordFailure cb t, ps)"
proof -
  have cfg: "cb_config cb = c" "cb_state cb = Closed" using cl by (simp_all add: closed_like_def)
  have app: "recent_failures c t' (xs @ [t]) = recent_failures c t' xs @ recent_failures c t' [t]" for t' xs
    by (simp add: recent_failures_def)
  have now: "recent_failures c t (cb_failures cb) = recent_failures c t seen"
    using cl le by (simp add: closed_like_def)
  have later: "recent_failures c t' (recent_failures c t (cb_failures cb)) = recent_failures c t' seen"
    if "t \<le> t'" for t'
    using cl le that recent_failures_prune [OF that, of c "cb_failures cb"]
    by (simp add: closed_like_def recent_failures_def)
  show ?thesis using now later
    by (auto simp: breaker_recordFailure_def pruneFailures_def cfg Let_def transitionToOpen_def
        closed_like_def app recent_failures_def [of c t, symmetric])
qed


lemma closed_like_run:
  assumes "closed_like c t0 seen s" and "clock_ok t0 ops" and "\<not> has_burst c seen ops"
  shows "cb_state (fst (timed_run breaker_step s ops)) = Closed"
  using assms
proof (induction ops arbitrary: t0 seen s)
  case (Cons e ops)
  obtain x t where e: "e = (x, t)" by (cases e)
  obtain cb ps where s: "s = (cb, ps)" by (cases s)
  show ?case
  proof (cases "x = BFailure")
    case True
    with Cons.prems e s closed_like_failure [of c t0 seen cb ps t]
    have "closed_like c t (seen @ [t]) (breaker_recordFailure cb t, ps)" by simp
    from Cons.IH [OF this] Cons.prems e s True show ?thesis by simp
  next
    case False
    with Cons.prems e s have "closed_like c t (if x = BReset then [] else seen) (breaker_step x t (cb, ps))"
      by (intro closed_like_step) auto
    from Cons.IH [OF this] Cons.prems e s False show ?thesis by simp
  qed
qed (simp add: closed_like_def)

lemma closed_like_trip:
  assumes "closed_like c t0 seen s" and "clock_ok t0 (ops @ [(BFailure, t)])"
    and "\<not> has_burst c seen ops" and "has_burst c seen (ops @ [(BFailure, t)])"
  shows "cb_state (fst (timed_run breaker_step s (ops @ [(BFailure, t)]))) = Open"
  using assms
proof (induction ops arbitrary: t0 seen s)
  case Nil
  then show ?case using closed_like_failure [of c t0 seen "fst s" "snd s" t]
    by (cases s) simp
next
  case (Cons e ops)
  obtain x t' where e: "e = (x, t')" by (cases e)
  obtain cb ps where s: "s = (cb, ps)" by (cases s)
  show ?case
  proof (cases "x = BFailure")
    case True
    with Cons.prems e s closed_like_failure [of c t0 seen cb ps t']
    have "closed_like c t' (seen @ [t']) (breaker_recordFailure cb t', ps)" by simp
    from Cons.IH [OF this] Cons.prems e s True show ?thesis by simp
  next
    case False
    with Cons.prems e s have "closed_like c t' (if x = BReset then [] else seen) (breaker_step x t' (cb, ps))"
      by (intro closed_like_step) auto
    from Cons.IH [OF this] Cons.prems e s False show ?thesis by simp
  qed
qed

lemma closed_like_new: "closed_like (override DEFAULT_CIRCUIT_BREAKER_CONFIG) t [] (breaker_new override t, [])"
  by (simp add: closed_like_def breaker_new_def)

section \<open>Properties\<close>

text \<open>
  C20. The breaker trips exactly on a burst.  Driven from its construction by any interleaving
  of admissions, release closures, successes, failures, resets and counts on a clock that
  does not run backwards, it stays closed as long as no failure brought the failures of the
  trailing window (since the last reset) to the threshold, and the first failure that does
  opens it.
\<close>

theorem breaker_trips_on_burst:
  assumes "clock_ok t0 (ops @ [(BFailure, t)])"
    and "\<not> has_burst (override DEFAULT_CIRCUIT_BREAKER_CONFIG) [] ops"
  shows "cb_state (fst (timed_run breaker_step (breaker_new override t0, []) ops)) = Closed
    \<and> cb_state (fst (timed_run breaker_step (breaker_new override t0, []) (ops @ [(BFailure, t)]))) =
        (if has_burst (override DEFAULT_CIRCUIT_BREAKER_CONFIG) [] (ops @ [(BFailure, t)]) then Open else Closed)"
proof -
  have "clock_ok t0 ops" using assms(1) by (induction ops arbitrary: t0) auto
  note new = closed_like_new [of override t0]
  from closed_like_run [OF new \<open>clock_ok t0 ops\<close> assms(2)] closed_like_run [OF new assms(1)]
    closed_like_trip [OF new assms]
  show ?thesis by simp
qed

theorem breaker_trips_on_burst_witness:
  "cb_state (fst (timed_run breaker_step (breaker_new id 0, [])
      ([(BFailure, 0), (BFailure, 50000), (BSuccess, 61000), (BFailure, 62000)] @ [(BFailure, 70000)]))) = Open"
  using breaker_trips_on_burst
    [of 0 "[(BFailure, 0), (BFailure, 50000), (BSuccess, 61000), (BFailure, 62000)]" 70000 id]
  by (simp add: recent_failures_def DEFAULT_CIRCUIT_BREAKER_CONFIG_def)

text \<open>
  Probe accounting.  On every run the half-open attempt count is the number of release
  closures of the current window that have not been called, never more than
  \<open>halfOpenMaxAttempts\<close> (one, when that is less): a closure called twice, late, or after its
  window was replaced frees no slot of another probe.  A breaker that is not half-open has
  no live closure, and a closed one holds fewer failures than the threshold.
\<close>

theorem breaker_probe_accounting:
  "let s = timed_run breaker_step (breaker_new override t0, []) ops
    in halfOpenAttempts (fst s) = in_flight s
    \<and> in_flight s \<le> max 1 (halfOpenMaxAttempts (override DEFAULT_CIRCUIT_BREAKER_CONFIG))
    \<and> (cb_state (fst s) \<noteq> HalfOpen \<longrightarrow> in_flight s = 0)
    \<and> (cb_state (fst s) = Closed \<longrightarrow>
         int (length (cb_failures (fst s))) < max 1 (failureThreshold (override DEFAULT_CIRCUIT_BREAKER_CONFIG)))"
  using cb.keeps_run [OF breaker_inv_new, of override t0 ops] unfolding Let_def breaker_inv_def by simp

theorem breaker_probe_accounting_witness:
  "in_flight (timed_run breaker_step (breaker_new id 0, [])
     [(BFailure, 1), (BFailure, 2), (BFailure, 3), (BTry, 40000), (BRelease 0, 40001), (BRelease 0, 40002),
      (BTry, 40003), (BTry, 40004)]) = 1"
proof -
  let ?s = "timed_run breaker_step (breaker_new id 0, [])
     [(BFailure, 1), (BFailure, 2), (BFailure, 3), (BTry, 40000), (BRelease 0, 40001), (BRelease 0, 40002),
      (BTry, 40003), (BTry, 40004)]"
  have "halfOpenAttempts (fst ?s) = 1"
    by (simp add: breaker_new_def DEFAULT_CIRCUIT_BREAKER_CONFIG_def breaker_recordFailure_def
        admission_defs breaker_transitions release_probe_def Let_def)
  moreover have "halfOpenAttempts (fst ?s) = in_flight ?s"
    using breaker_probe_accounting [of id 0 "[(BFailure, 1), (BFailure, 2), (BFailure, 3), (BTry, 40000),
      (BRelease 0, 40001), (BRelease 0, 40002), (BTry, 40003), (BTry, 40004)]"]
    unfolding Let_def by (rule conjunct1)
  ultimately show ?thesis by (simp only:)
qed

text \<open>
  The availability check the account selection uses predicts the admission: it holds exactly
  when \<open>tryCanExecute\<close> at the same time admits the call, and a rejection names the wait that
  \<open>getTimeUntilAvailable\<close> reports, is positive, and after which the breaker is available.
\<close>

theorem availability_predicts_admission:
  assumes "1 \<le> halfOpenMaxAttempts (cb_config cb)"
  shows "case fst (tryCanExecute cb now) of
      Admitted \<Rightarrow> breaker_isAvailable cb now
    | Rejected reason ms \<Rightarrow> \<not> breaker_isAvailable cb now \<and> reason = cb_state cb
        \<and> ms = getTimeUntilAvailable cb now \<and> 0 < ms \<and> breaker_isAvailable cb (now + ms)"
proof (cases "cb_state cb")
  case HalfOpen
  with half_open_admits [OF assms, of now] half_open_rejects [OF assms, of now] show ?thesis
    by (auto simp: tryCanExecute_def breaker_isAvailable_def getTimeUntilAvailable_def hasHalfOpenProbeWaitElapsed_def
        split: admission.split)
next
  case Open
  have "1 \<le> halfOpenMaxAttempts (cb_config (transitionToHalfOpen cb now))"
    using assms by (simp add: transitionToHalfOpen_def)
  from half_open_admits [OF this, of now] this Open show ?thesis
    by (auto simp: tryCanExecute_def breaker_isAvailable_def getTimeUntilAvailable_def transitionToHalfOpen_def
        split: admission.split)
qed (simp add: tryCanExecute_def breaker_isAvailable_def)

theorem availability_predicts_admission_witness:
  "\<exists>ms. fst (tryCanExecute (transitionToOpen (breaker_new id 0) 1000) 11000) = Rejected Open ms
     \<and> breaker_isAvailable (transitionToOpen (breaker_new id 0) 1000) (11000 + ms)"
proof -
  let ?cb = "transitionToOpen (breaker_new id 0) 1000"
  have "1 \<le> halfOpenMaxAttempts (cb_config ?cb)"
    by (simp add: breaker_new_def transitionToOpen_def DEFAULT_CIRCUIT_BREAKER_CONFIG_def)
  from availability_predicts_admission [OF this, of 11000]
  show ?thesis
    by (simp add: tryCanExecute_def breaker_new_def transitionToOpen_def DEFAULT_CIRCUIT_BREAKER_CONFIG_def)
qed

text \<open>
  An open breaker protects its account.  Once open, whatever is called on it except a reset,
  in any order and however often (late failures and successes, stale release closures,
  admission attempts), it stays open and rejects every request with the same deadline until
  \<open>resetTimeoutMs\<close> after it opened.
\<close>

theorem open_breaker_rejects:
  assumes "cb_state cb = Open"
    and "list_all (\<lambda>(x, t). x \<noteq> BReset \<and> t - lastStateChange cb < resetTimeoutMs (cb_config cb)) ops"
    and "now - lastStateChange cb < resetTimeoutMs (cb_config cb)"
  shows "tryCanExecute (fst (timed_run breaker_step (cb, ps) ops)) now =
     (Rejected Open (lastStateChange cb + resetTimeoutMs (cb_config cb) - now), None,
      fst (timed_run breaker_step (cb, ps) ops))"
proof -
  have "open_since (lastStateChange cb) (cb_config cb) (cb, ps)" using assms(1) by (simp add: open_since_def)
  from open_since_run [OF this assms(2)] show ?thesis
    using assms(3) by (simp add: open_since_def tryCanExecute_def algebra_simps)
qed

theorem open_breaker_rejects_witness:
  "fst (tryCanExecute (fst (timed_run breaker_step (transitionToOpen (breaker_new id 0) 1000, [])
     [(BFailure, 2000), (BSuccess, 3000), (BTry, 4000)])) 11000) = Rejected Open 20000"
  using open_breaker_rejects [of "transitionToOpen (breaker_new id 0) 1000"
      "[(BFailure, 2000), (BSuccess, 3000), (BTry, 4000)]" 11000 "[]"]
  by (simp add: breaker_new_def transitionToOpen_def DEFAULT_CIRCUIT_BREAKER_CONFIG_def)

text \<open>
  The registry is bounded and evicts only the oldest.  Starting empty, over any calls with
  non-empty keys it holds at most 100 breakers under distinct keys; looking up a present key
  returns its breaker and changes nothing, and looking up an absent one adds a fresh closed
  breaker and removes at most the breaker that was registered first.
\<close>

theorem registry_bounded:
  assumes "list_all (\<lambda>(x, t). registry_op_ok x) ops" and "key \<noteq> []"
  shows "length (timed_run registry_step [] (ops @ [(RGet key override, now)])) \<le> 100
    \<and> (case jm_get (timed_run registry_step [] ops) key of
         Some b \<Rightarrow> getCircuitBreaker (timed_run registry_step [] ops) now key override = (b, timed_run registry_step [] ops)
       | None \<Rightarrow> fst (getCircuitBreaker (timed_run registry_step [] ops) now key override) = breaker_new override now
           \<and> (\<forall>k. k \<noteq> key \<longrightarrow> Some k \<noteq> jm_first_key (timed_run registry_step [] ops) \<longrightarrow>
                jm_get (snd (getCircuitBreaker (timed_run registry_step [] ops) now key override)) k
                  = jm_get (timed_run registry_step [] ops) k))"
proof -
  let ?reg = "timed_run registry_step [] ops"
  have inv: "registry_inv ?reg"
    using assms(1) by (intro registry_inv_run) (simp_all add: registry_inv_def jm_has_def)
  have get: "length (snd (getCircuitBreaker ?reg now key override)) \<le> 100"
    using registry_inv_get [OF inv assms(2), of now override]
    by (simp add: registry_inv_def MAX_CIRCUIT_BREAKERS_def)
  show ?thesis
  proof (cases "jm_get ?reg key")
    case None
    have "\<forall>k. k \<noteq> key \<longrightarrow> Some k \<noteq> jm_first_key ?reg \<longrightarrow>
        jm_get (snd (getCircuitBreaker ?reg now key override)) k = jm_get ?reg k"
      using registry_evict [OF inv None, of now override] by (auto simp: jm_simps)
    moreover have "fst (getCircuitBreaker ?reg now key override) = breaker_new override now"
      using None by (simp add: getCircuitBreaker_def Let_def)
    ultimately show ?thesis using get None by (simp add: timed_run_append)
  next
    case (Some b)
    with get show ?thesis by (simp add: timed_run_append getCircuitBreaker_def)
  qed
qed

theorem registry_bounded_witness:
  "length (timed_run registry_step [] ([(RGet ''a'' id, 1), (RRemove ''a'', 2)] @ [(RGet ''b'' id, 3)])) \<le> 100"
  using registry_bounded [of "[(RGet ''a'' id, 1), (RRemove ''a'', 2)]" "''b''" id 3] by simp

text \<open>
  The guard on the evicted key is observable: with the empty key registered first, the
  registry grows past its limit.
\<close>

lemma registry_empty_key_never_evicted:
  assumes "jm_first_key reg = Some []" and "jm_get reg key = None"
  shows "length (snd (getCircuitBreaker reg now key override)) = Suc (length reg)"
  using assms by (simp add: getCircuitBreaker_def Let_def length_jm_set jm_has_def)

end
