(* ===== verification/FailurePolicy.thy ===== *)
theory FailurePolicy
  imports Prelude
begin

text \<open>
  \<open>lib/request/failure-policy.ts\<close>: what a failed request does to the account it used and
  whether it is retried there or elsewhere.  \<open>OtherFailure\<close> is the \<open>default\<close> branch, a kind
  outside the declared union.
\<close>

datatype cooldown_reason = AuthFailure | NetworkError | ServerError | RateLimitCooldown

datatype failure_kind = AuthRefresh | Network | Server | RateLimit | EmptyResponse | OtherFailure

datatype failover_mode = Aggressive | Balanced | Conservative

datatype handoff = SoftHandoff | HardHandoff

record failure_input =
  fi_kind :: failure_kind
  fi_consecutiveAuthFailures :: "jsnum option"
  fi_maxAuthFailuresBeforeRemoval :: "jsnum option"
  fi_serverRetryAfterMs :: "jsnum option"
  fi_failoverMode :: "failover_mode option"

record failure_overrides =
  fo_networkCooldownMs :: "jsnum option"
  fo_serverCooldownMs :: "jsnum option"

record failure_decision =
  fd_rotateAccount :: bool
  fd_refundToken :: bool
  fd_recordFailure :: bool
  fd_markRateLimited :: bool
  fd_removeAccount :: bool
  fd_cooldownMs :: "jsnum option"
  fd_cooldownReason :: "cooldown_reason option"
  fd_retrySameAccount :: bool
  fd_retryDelayMs :: "jsnum option"
  fd_handoffStrategy :: handoff

definition DEFAULT_NETWORK_COOLDOWN_MS :: jsnum where
  "DEFAULT_NETWORK_COOLDOWN_MS = 6000"

definition DEFAULT_SERVER_COOLDOWN_MS :: jsnum where
  "DEFAULT_SERVER_COOLDOWN_MS = 4000"

definition MAX_AUTH_FAILURES_BEFORE_REMOVAL :: jsnum where
  "MAX_AUTH_FAILURES_BEFORE_REMOVAL = 3"

definition AUTH_FAILURE_COOLDOWN_MS :: jsnum where
  "AUTH_FAILURE_COOLDOWN_MS = 30000"

fun NETWORK_RETRY_DELAY_MS :: "failover_mode \<Rightarrow> jsnum" where
  "NETWORK_RETRY_DELAY_MS Aggressive = 0"
| "NETWORK_RETRY_DELAY_MS Balanced = 250"
| "NETWORK_RETRY_DELAY_MS Conservative = 900"

fun EMPTY_RESPONSE_RETRY_DELAY_MS :: "failover_mode \<Rightarrow> jsnum" where
  "EMPTY_RESPONSE_RETRY_DELAY_MS Aggressive = 0"
| "EMPTY_RESPONSE_RETRY_DELAY_MS Balanced = 200"
| "EMPTY_RESPONSE_RETRY_DELAY_MS Conservative = 600"

definition getFailoverMode :: "failure_input \<Rightarrow> failover_mode" where
  "getFailoverMode input = nullish (fi_failoverMode input) Aggressive"

definition evaluateFailurePolicy :: "failure_input \<Rightarrow> failure_overrides option \<Rightarrow> failure_decision" where
  "evaluateFailurePolicy input overrides =
     (case fi_kind input of
        AuthRefresh \<Rightarrow>
          (let failures = max 0 (js_floor (nullish (fi_consecutiveAuthFailures input) 0));
               maxFailures = max 1 (js_floor (nullish (fi_maxAuthFailuresBeforeRemoval input)
                                                MAX_AUTH_FAILURES_BEFORE_REMOVAL))
           in \<lparr>fd_rotateAccount = True, fd_refundToken = False, fd_recordFailure = False,
               fd_markRateLimited = False, fd_removeAccount = failures \<ge> maxFailures,
               fd_cooldownMs = Some AUTH_FAILURE_COOLDOWN_MS, fd_cooldownReason = Some AuthFailure,
               fd_retrySameAccount = False, fd_retryDelayMs = None, fd_handoffStrategy = HardHandoff\<rparr>)
      | Network \<Rightarrow>
          (let mode = getFailoverMode input;
               cooldownMs = max 0 (js_floor (nullish (Option.bind overrides fo_networkCooldownMs) DEFAULT_NETWORK_COOLDOWN_MS));
               retryDelayMs = NETWORK_RETRY_DELAY_MS mode;
               retrySameAccount = retryDelayMs > 0
           in \<lparr>fd_rotateAccount = (\<not> retrySameAccount), fd_refundToken = True, fd_recordFailure = True,
               fd_markRateLimited = False, fd_removeAccount = False, fd_cooldownMs = Some cooldownMs,
               fd_cooldownReason = (if cooldownMs > 0 then Some NetworkError else None),
               fd_retrySameAccount = retrySameAccount,
               fd_retryDelayMs = (if retrySameAccount then Some retryDelayMs else None),
               fd_handoffStrategy = SoftHandoff\<rparr>)
      | Server \<Rightarrow>
          (let mode = getFailoverMode input;
               retryAfterMs = max 0 (js_floor (nullish (fi_serverRetryAfterMs input) 0));
               fallbackCooldown = max 0 (js_floor (nullish (Option.bind overrides fo_serverCooldownMs) DEFAULT_SERVER_COOLDOWN_MS));
               cooldownMs = (if retryAfterMs > 0 then retryAfterMs else fallbackCooldown);
               retrySameAccount = (mode = Conservative \<and> retryAfterMs \<le> 0)
           in \<lparr>fd_rotateAccount = (\<not> retrySameAccount), fd_refundToken = True, fd_recordFailure = True,
               fd_markRateLimited = False, fd_removeAccount = False, fd_cooldownMs = Some cooldownMs,
               fd_cooldownReason = (if cooldownMs > 0 then Some ServerError else None),
               fd_retrySameAccount = retrySameAccount,
               fd_retryDelayMs = (if retrySameAccount then Some 500 else None),
               fd_handoffStrategy = HardHandoff\<rparr>)
      | RateLimit \<Rightarrow>
          \<lparr>fd_rotateAccount = True, fd_refundToken = False, fd_recordFailure = False, fd_markRateLimited = True,
           fd_removeAccount = False, fd_cooldownMs = None, fd_cooldownReason = None,
           fd_retrySameAccount = False, fd_retryDelayMs = None, fd_handoffStrategy = HardHandoff\<rparr>
      | EmptyResponse \<Rightarrow>
          (let mode = getFailoverMode input;
               retryDelayMs = EMPTY_RESPONSE_RETRY_DELAY_MS mode;
               retrySameAccount = retryDelayMs > 0
           in \<lparr>fd_rotateAccount = (\<not> retrySameAccount), fd_refundToken = True, fd_recordFailure = True,
               fd_markRateLimited = False, fd_removeAccount = False, fd_cooldownMs = None,
               fd_cooldownReason = None, fd_retrySameAccount = retrySameAccount,
               fd_retryDelayMs = (if retrySameAccount then Some retryDelayMs else None),
               fd_handoffStrategy = SoftHandoff\<rparr>)
      | OtherFailure \<Rightarrow>
          \<lparr>fd_rotateAccount = True, fd_refundToken = True, fd_recordFailure = True, fd_markRateLimited = False,
           fd_removeAccount = False, fd_cooldownMs = None, fd_cooldownReason = None,
           fd_retrySameAccount = False, fd_retryDelayMs = None, fd_handoffStrategy = HardHandoff\<rparr>)"

text \<open>
  C38. Every decision is coherent.  A failure either rotates or retries on the same account, never
  both and never neither, and a retry always has a positive delay.  The account is removed
  only for repeated authentication failures, marked rate limited only for a rate limit; the
  token is kept spent exactly for those two kinds, and exactly the refunded failures count
  against the account's health.  A cooldown is never negative, and has a reason exactly when
  it is positive; a server's retry-after is honoured in full.
\<close>

theorem failure_policy_coherent:
  shows "let d = evaluateFailurePolicy input overrides in
     fd_rotateAccount d \<noteq> fd_retrySameAccount d
     \<and> (case fd_retryDelayMs d of Some ms \<Rightarrow> fd_retrySameAccount d \<and> 0 < ms | None \<Rightarrow> \<not> fd_retrySameAccount d)
     \<and> (fd_removeAccount d \<longrightarrow> fi_kind input = AuthRefresh \<and> 1 \<le> nullish (fi_consecutiveAuthFailures input) 0)
     \<and> (fd_markRateLimited d \<longleftrightarrow> fi_kind input = RateLimit)
     \<and> (fd_refundToken d \<longleftrightarrow> fi_kind input \<noteq> AuthRefresh \<and> fi_kind input \<noteq> RateLimit)
     \<and> (fd_recordFailure d \<longleftrightarrow> fd_refundToken d)
     \<and> (case fd_cooldownMs d of Some ms \<Rightarrow> 0 \<le> ms \<and> (fd_cooldownReason d \<noteq> None \<longleftrightarrow> 0 < ms)
        | None \<Rightarrow> fd_cooldownReason d = None)
     \<and> (fi_kind input = Server \<longrightarrow> (case fi_serverRetryAfterMs input of
          Some ms \<Rightarrow> (1 \<le> ms \<longrightarrow> fd_cooldownMs d = Some (js_floor ms) \<and> fd_rotateAccount d) | None \<Rightarrow> True))"
proof -
  have fl: "1 \<le> x" if "1 \<le> js_floor x" for x using that js_floor_le [of x] by linarith
  have le: "1 \<le> js_floor x" if "1 \<le> x" for x using js_floor_mono [OF that] by simp
  show ?thesis
  proof (cases "fi_kind input")
    case AuthRefresh
    define n where "n = nullish (fi_consecutiveAuthFailures input) 0"
    have n: "1 \<le> n" if "1 \<le> max 0 (js_floor n)"
    proof -
      have "1 \<le> js_floor n" using that by (simp add: max_def split: if_splits)
      then show ?thesis by (rule fl)
    qed
    show ?thesis
      using AuthRefresh unfolding evaluateFailurePolicy_def n_def [symmetric] Let_def
      by (simp add: AUTH_FAILURE_COOLDOWN_MS_def) (use n in blast)
  next
    case Network
    then show ?thesis by (cases "getFailoverMode input") (simp_all add: evaluateFailurePolicy_def Let_def less_max_iff_disj)
  next
    case Server
    have "0 < js_floor x" if "1 \<le> x" for x using le [OF that] by linarith
    then have honoured: "case fi_serverRetryAfterMs input of
        Some ms \<Rightarrow> 1 \<le> ms \<longrightarrow> js_floor (nullish (fi_serverRetryAfterMs input) 0) = js_floor ms
          \<and> 0 < js_floor (nullish (fi_serverRetryAfterMs input) 0) | None \<Rightarrow> True"
      by (simp split: option.split)
    define r where "r = js_floor (nullish (fi_serverRetryAfterMs input) 0)"
    define f where "f = js_floor (nullish (Option.bind overrides fo_serverCooldownMs) DEFAULT_SERVER_COOLDOWN_MS)"
    show ?thesis
      using Server honoured unfolding evaluateFailurePolicy_def r_def [symmetric] f_def [symmetric] Let_def
      by (cases "0 < r"; cases "0 < f") (simp_all add: max_def split: option.splits)
  next
    case EmptyResponse
    then show ?thesis by (cases "getFailoverMode input") (simp_all add: evaluateFailurePolicy_def Let_def less_max_iff_disj)
  qed (simp_all add: evaluateFailurePolicy_def)
qed

theorem failure_policy_coherent_witness:
  "fd_cooldownMs (evaluateFailurePolicy \<lparr>fi_kind = Server, fi_consecutiveAuthFailures = None,
      fi_maxAuthFailuresBeforeRemoval = None, fi_serverRetryAfterMs = Some 7000, fi_failoverMode = Some Conservative\<rparr> None)
     = Some 7000"
  using failure_policy_coherent [of "\<lparr>fi_kind = Server, fi_consecutiveAuthFailures = None,
      fi_maxAuthFailuresBeforeRemoval = None, fi_serverRetryAfterMs = Some 7000, fi_failoverMode = Some Conservative\<rparr>" None]
  by (simp add: Let_def)

end
