(* ===== verification/AccountIdentity.thy ===== *)
theory AccountIdentity
  imports HealthTracker
begin

text \<open>
  \<open>lib/storage/identity.ts\<close>: the keys under which an account's trackers and circuit breaker are
  kept.  The SHA-256 hex digest of a refresh token is the parameter \<open>sha256\<close>.  Missing
  fields and empty strings are both falsy.
\<close>

record identity_ref =
  ir_accountId :: "string option"
  ir_emailKey :: "string option"
  ir_refreshToken :: "string option"

definition trimmed_key :: "string option \<Rightarrow> string option" where
  "trimmed_key v =
     (case v of None \<Rightarrow> None | Some s \<Rightarrow> if s = [] then None else if js_trim s = [] then None else Some (js_trim s))"

definition normalizeAccountIdKey :: "string option \<Rightarrow> string option" where
  "normalizeAccountIdKey accountId = trimmed_key accountId"

definition normalizeEmailKey :: "string option \<Rightarrow> string option" where
  "normalizeEmailKey email =
     (case email of
        None \<Rightarrow> None
      | Some e \<Rightarrow>
          if e = [] then None
          else let trimmed = js_trim e in if trimmed = [] then None else Some (js_lower trimmed))"

definition normalizeRefreshTokenKey :: "string option \<Rightarrow> string option" where
  "normalizeRefreshTokenKey tok = trimmed_key tok"

definition toAccountIdentityRef :: "string option \<Rightarrow> string option \<Rightarrow> string option \<Rightarrow> identity_ref" where
  "toAccountIdentityRef accId email refresh =
     \<lparr>ir_accountId = normalizeAccountIdKey accId, ir_emailKey = normalizeEmailKey email,
      ir_refreshToken = normalizeRefreshTokenKey refresh\<rparr>"

definition getIdentityKeyFromRef :: "(string \<Rightarrow> string) \<Rightarrow> identity_ref \<Rightarrow> bool \<Rightarrow> string option" where
  "getIdentityKeyFromRef sha256 ref allowRefreshFallback =
     (case (ir_accountId ref, ir_emailKey ref) of
        (Some a, Some e) \<Rightarrow> Some (''account:'' @ a @ ''::email:'' @ e)
      | (Some a, None) \<Rightarrow> Some (''account:'' @ a)
      | (None, Some e) \<Rightarrow> Some (''email:'' @ e)
      | (None, None) \<Rightarrow>
          (case ir_refreshToken ref of
             Some r \<Rightarrow> if allowRefreshFallback then Some (''refresh:'' @ sha256 r) else None
           | None \<Rightarrow> None))"

definition getAccountIdentityKey ::
  "(string \<Rightarrow> string) \<Rightarrow> string option \<Rightarrow> string option \<Rightarrow> string option \<Rightarrow> string option" where
  "getAccountIdentityKey sha256 accId email refresh =
     getIdentityKeyFromRef sha256 (toAccountIdentityRef accId email refresh) True"

definition getRuntimeAccountIdentityKey ::
  "(string \<Rightarrow> string) \<Rightarrow> string option \<Rightarrow> string option \<Rightarrow> nat option \<Rightarrow> tracker_key option" where
  "getRuntimeAccountIdentityKey sha256 accId email index =
     (case getIdentityKeyFromRef sha256 (toAccountIdentityRef accId email None) False of
        Some k \<Rightarrow> Some (StrKey k)
      | None \<Rightarrow> map_option NumKey index)"

lemma trimmed_key_nonempty: "trimmed_key v \<noteq> Some []"
  by (auto simp: trimmed_key_def split: option.split)

lemma identity_key_nonempty: "getAccountIdentityKey sha256 a e r \<noteq> Some []"
  by (auto simp: getAccountIdentityKey_def getIdentityKeyFromRef_def split: option.split)

lemma identity_key_some:
  "js_trim r \<noteq> [] \<Longrightarrow> \<exists>k. getAccountIdentityKey sha256 a e (Some r) = Some k"
  by (cases "r = []")
    (auto simp: getAccountIdentityKey_def getIdentityKeyFromRef_def toAccountIdentityRef_def
      normalizeRefreshTokenKey_def trimmed_key_def split: option.split)

lemma runtime_key_some: "\<exists>k. getRuntimeAccountIdentityKey sha256 a e (Some i) = Some k"
  by (auto simp: getRuntimeAccountIdentityKey_def split: option.split)

text \<open>
  Trackers and breakers survive a token rotation: for an account with an id or an e-mail address
  neither key depends on the refresh token or on the account's position in the pool, nor on
  the white space around the fields or the case of the address, and neither contains the
  token; a refresh-only account is tracked by position and keyed by the digest of its token.
\<close>

theorem identity_stable:
  assumes "trimmed_key accId = trimmed_key accId'" and "normalizeEmailKey email = normalizeEmailKey email'"
  shows "(trimmed_key accId \<noteq> None \<or> normalizeEmailKey email \<noteq> None \<longrightarrow>
      getAccountIdentityKey sha256 accId email refresh = getAccountIdentityKey sha256' accId' email' refresh'
      \<and> getRuntimeAccountIdentityKey sha256 accId email index
          = map_option StrKey (getAccountIdentityKey sha256' accId' email' refresh'))
    \<and> (trimmed_key accId = None \<and> normalizeEmailKey email = None \<longrightarrow>
      getRuntimeAccountIdentityKey sha256 accId email index = map_option NumKey index
      \<and> getAccountIdentityKey sha256 accId email refresh
          = map_option (\<lambda>r. ''refresh:'' @ sha256 r) (trimmed_key refresh))"
  using assms
  by (auto simp: getAccountIdentityKey_def getRuntimeAccountIdentityKey_def getIdentityKeyFromRef_def
      toAccountIdentityRef_def normalizeAccountIdKey_def normalizeRefreshTokenKey_def split: option.split)

theorem identity_stable_witness:
  "getAccountIdentityKey id (Some '' a1 '') (Some ''Me@X.io'') (Some ''old'')
     = getAccountIdentityKey id (Some ''a1'') (Some '' me@x.io'') (Some ''new'')"
proof -
  have "normalizeEmailKey (Some ''Me@X.io'') = normalizeEmailKey (Some '' me@x.io'')" by code_simp
  moreover have "trimmed_key (Some '' a1 '') = trimmed_key (Some ''a1'')" "trimmed_key (Some '' a1 '') \<noteq> None"
    by (simp_all add: trimmed_key_def js_trim_def js_space_def)
  ultimately show ?thesis
    using identity_stable [of "Some '' a1 ''" "Some ''a1''" "Some ''Me@X.io''" "Some '' me@x.io''"] by blast
qed

end
