(* ===== verification/AccountState.thy ===== *)
theory AccountState
  imports HybridSelection CircuitBreaker RateLimits FailurePolicy AccountIdentity
begin

text \<open>
  \<open>lib/accounts.ts\<close>, part one: the managed account, the pool, the operations on one account
  (cooldown, authentication, workspaces) and the gates an account must pass to be routable.

  A reference to a managed account is its position in the pool.  The pool record holds, with
  the fields of \<open>AccountManager\<close>, the module state its methods reach: the health and token
  trackers, the circuit breaker registry and the two counters.  The per-account \<open>WeakMap\<close> of
  unsequenced limits is a field of the account.  A request for a debounced save sets
  \<open>saveScheduled\<close>; the write itself is not modelled.  \<open>pool_env\<close> carries the decoded account
  claim of a token and the SHA-256 digest.
\<close>

section \<open>Accounts and the pool\<close>

datatype switch_reason = SwitchRateLimit | SwitchInitial | SwitchRotation | SwitchBest | SwitchRestore | SwitchManual

record rl_observation =
  ob_revision :: nat
  ob_observedAt :: jsnum
  ob_sequence :: nat
  ob_reason :: rate_limit_reason
  ob_receiptGenerations :: "(string, jsnum) jsmap"
  ob_receiptIdentities :: "(string, string list) jsmap"
  ob_receiptReadFailed :: bool
  ob_liftedByReset :: bool

record unsequenced =
  us_limits :: rate_limit_state
  us_reason :: rate_limit_reason
  us_recordedAtMs :: jsnum

record managed_account = limited_entity +
  ma_index :: nat
  ma_recordId :: "string option"
  ma_accountIdSource :: "string option"
  ma_accountLabel :: "string option"
  ma_expires :: "jsnum option"
  ma_addedAt :: jsnum
  runtimeTrackerKey :: "tracker_key option"
  circuitKeyId :: "string option"
  ma_email :: "string option"
  refreshToken :: string
  ma_enabled :: "bool option"
  lastUsed :: jsnum
  lastSwitchReason :: "switch_reason option"
  lastRateLimitReason :: "rate_limit_reason option"
  rateLimitObservations :: "(string, rl_observation) jsmap"
  resetReceiptGenerations :: "(string, jsnum) jsmap"
  resetReceiptIdentities :: "(string, string) jsmap"
  coolingDownUntil :: "jsnum option"
  cooldownReason :: "cooldown_reason option"
  authInvalidatedAt :: "jsval option"
  authInvalidationErrorCode :: "string option"
  consecutiveAuthFailures :: "nat option"
  unsequencedRateLimits :: "unsequenced option"

definition MODEL_FAMILIES :: "model_family list" where
  "MODEL_FAMILIES = [''gpt-5-codex'', ''codex-max'', ''codex'', ''gpt-5.2'', ''gpt-5.1'']"

record pool =
  accounts :: "managed_account list"
  cursorByFamily :: "model_family \<Rightarrow> nat"
  currentAccountIndexByFamily :: "model_family \<Rightarrow> int"
  pinnedAccountIndex :: "int option"
  affinityGeneration :: int
  lastToastAccountIndex :: int
  lastToastTime :: jsnum
  healthTracker :: health_tracker
  tokenTracker :: token_tracker
  circuitBreakers :: breaker_registry
  nextRuntimeCircuitKeyId :: nat
  rejectionSequence :: nat
  saveScheduled :: bool

record pool_env =
  env_claim :: "string \<Rightarrow> string option"
  env_sha256 :: "string \<Rightarrow> string"

definition acc :: "pool \<Rightarrow> nat \<Rightarrow> managed_account" where
  "acc p i = accounts p ! i"

definition set_acc :: "nat \<Rightarrow> managed_account \<Rightarrow> pool \<Rightarrow> pool" where
  "set_acc i a p = p\<lparr>accounts := (accounts p)[i := a]\<rparr>"

section \<open>Operations on one account\<close>

definition markCoolingDown :: "managed_account \<Rightarrow> jsnum \<Rightarrow> jsnum \<Rightarrow> cooldown_reason \<Rightarrow> managed_account" where
  "markCoolingDown a now cooldownMs reason =
     a\<lparr>coolingDownUntil := Some (now + max 0 (js_floor cooldownMs)), cooldownReason := Some reason\<rparr>"

definition clearAccountCooldown :: "managed_account \<Rightarrow> managed_account" where
  "clearAccountCooldown a = a\<lparr>coolingDownUntil := None, cooldownReason := None\<rparr>"

definition isAccountCoolingDown :: "jsnum \<Rightarrow> managed_account \<Rightarrow> bool \<times> managed_account" where
  "isAccountCoolingDown now a =
     (case coolingDownUntil a of
        None \<Rightarrow> (False, a)
      | Some until \<Rightarrow> if now \<ge> until then (False, clearAccountCooldown a) else (True, a))"

definition incrementAuthFailures :: "managed_account \<Rightarrow> nat \<times> managed_account" where
  "incrementAuthFailures a =
     (let n = nullish (consecutiveAuthFailures a) 0 + 1 in (n, a\<lparr>consecutiveAuthFailures := Some n\<rparr>))"

definition clearAuthFailures :: "managed_account \<Rightarrow> managed_account" where
  "clearAuthFailures a = a\<lparr>consecutiveAuthFailures := Some 0\<rparr>"

definition markAuthInvalidated :: "managed_account \<Rightarrow> string \<Rightarrow> jsval \<Rightarrow> managed_account" where
  "markAuthInvalidated a errorCode invalidatedAt =
     a\<lparr>authInvalidatedAt := Some invalidatedAt, authInvalidationErrorCode := Some errorCode\<rparr>"

definition clearAuthInvalidation :: "managed_account \<Rightarrow> managed_account" where
  "clearAuthInvalidation a = a\<lparr>authInvalidatedAt := None, authInvalidationErrorCode := None\<rparr>"

definition isAccountAuthInvalidated :: "managed_account \<Rightarrow> bool" where
  "isAccountAuthInvalidated a \<longleftrightarrow> (case authInvalidatedAt a of Some (Finite t) \<Rightarrow> t > 0 | _ \<Rightarrow> False)"

section \<open>Workspaces\<close>

definition tracked_workspaces :: "'a limited_entity_scheme \<Rightarrow> workspace list" where
  "tracked_workspaces a = nullish (workspaces a) []"

definition hasEnabledWorkspaces :: "'a limited_entity_scheme \<Rightarrow> bool" where
  "hasEnabledWorkspaces a \<longleftrightarrow> tracked_workspaces a = [] \<or> list_ex ws_enabled (tracked_workspaces a)"

definition getWorkspaceCount :: "'a limited_entity_scheme \<Rightarrow> nat" where
  "getWorkspaceCount a = length (tracked_workspaces a)"

definition getEnabledWorkspaceCount :: "'a limited_entity_scheme \<Rightarrow> nat" where
  "getEnabledWorkspaceCount a = length (filter ws_enabled (tracked_workspaces a))"

definition find_index :: "('a \<Rightarrow> bool) \<Rightarrow> 'a list \<Rightarrow> nat option" where
  "find_index q xs = List.find (\<lambda>i. q (xs ! i)) [0..<length xs]"

definition heal_workspace :: "workspace \<Rightarrow> workspace" where
  "heal_workspace w = (if ws_disabledAt w \<noteq> None then w\<lparr>ws_enabled := True, ws_disabledAt := None\<rparr> else w)"

definition resetWorkspaces :: "'a limited_entity_scheme \<Rightarrow> 'a limited_entity_scheme" where
  "resetWorkspaces a =
     (if tracked_workspaces a = [] then a
      else let resetIndex = find_index (\<lambda>w. ws_isDefault w = Some True) (tracked_workspaces a);
               ws = map heal_workspace (tracked_workspaces a);
               a = a\<lparr>workspaces := Some ws\<rparr>
           in if js_index ws (nullish (currentWorkspaceIndex a) (-1)) = None
              then a\<lparr>currentWorkspaceIndex := Some (case resetIndex of Some i \<Rightarrow> int i | None \<Rightarrow> 0)\<rparr>
              else a)"

definition getCurrentWorkspace :: "'a limited_entity_scheme \<Rightarrow> workspace option" where
  "getCurrentWorkspace a =
     (if tracked_workspaces a = [] then None
      else js_index (tracked_workspaces a) (nullish (currentWorkspaceIndex a) 0))"

definition disable_at :: "nat \<Rightarrow> jsnum \<Rightarrow> 'a limited_entity_scheme \<Rightarrow> 'a limited_entity_scheme" where
  "disable_at i now a = a\<lparr>workspaces := Some ((tracked_workspaces a)
     [i := (tracked_workspaces a ! i)\<lparr>ws_enabled := False, ws_disabledAt := Some now\<rparr>])\<rparr>"

definition disableWorkspace ::
  "'a limited_entity_scheme \<Rightarrow> jsnum \<Rightarrow> string \<Rightarrow> bool \<times> 'a limited_entity_scheme" where
  "disableWorkspace a now workspaceId =
     (case find_index (\<lambda>w. ws_id w = workspaceId) (tracked_workspaces a) of
        None \<Rightarrow> (False, a)
      | Some i \<Rightarrow> if \<not> ws_enabled (tracked_workspaces a ! i) then (False, a) else (True, disable_at i now a))"

definition disableCurrentWorkspace ::
  "'a limited_entity_scheme \<Rightarrow> jsnum \<Rightarrow> string option \<Rightarrow> bool \<times> 'a limited_entity_scheme" where
  "disableCurrentWorkspace a now expectedWorkspaceId =
     (if tracked_workspaces a = [] then (False, a)
      else case js_index (tracked_workspaces a) (nullish (currentWorkspaceIndex a) 0) of
             None \<Rightarrow> (False, a)
           | Some w \<Rightarrow>
               if truthy_string expectedWorkspaceId \<and> Some (ws_id w) \<noteq> expectedWorkspaceId then (False, a)
               else if \<not> ws_enabled w then (False, a)
               else (True, disable_at (nat (nullish (currentWorkspaceIndex a) 0)) now a))"

text \<open>The remainder \<open>%\<close> of JavaScript takes the sign of the dividend.\<close>

definition js_rem :: "int \<Rightarrow> int \<Rightarrow> int" where
  "js_rem a n = (if a < 0 then - ((- a) mod n) else a mod n)"

definition rotateToNextWorkspace ::
  "'a limited_entity_scheme \<Rightarrow> workspace option \<times> 'a limited_entity_scheme" where
  "rotateToNextWorkspace a =
     (let ws = tracked_workspaces a;
          currentIdx = nullish (currentWorkspaceIndex a) 0;
          total = length ws;
          nextIdx = (\<lambda>i. js_rem (currentIdx + int i) (int total));
          enabled_at = (\<lambda>i. case js_index ws (nextIdx i) of Some w \<Rightarrow> ws_enabled w | None \<Rightarrow> False)
      in if ws = [] then (None, a)
         else case List.find enabled_at [1..<total] of
                None \<Rightarrow> (None, a)
              | Some i \<Rightarrow> (js_index ws (nextIdx i), a\<lparr>currentWorkspaceIndex := Some (nextIdx i)\<rparr>))"

section \<open>Tracker and circuit keys\<close>

text \<open>Both keys are computed once and kept in the account.\<close>

definition getRuntimeTrackerKey :: "pool_env \<Rightarrow> managed_account \<Rightarrow> tracker_key \<times> managed_account" where
  "getRuntimeTrackerKey env a =
     (case runtimeTrackerKey a of
        Some k \<Rightarrow> (k, a)
      | None \<Rightarrow>
          (let k = nullish (getRuntimeAccountIdentityKey (env_sha256 env) (accountId a) (ma_email a) (Some (ma_index a)))
                     (NumKey (ma_index a))
           in (k, a\<lparr>runtimeTrackerKey := Some k\<rparr>)))"

definition tracker_key_at :: "pool_env \<Rightarrow> nat \<Rightarrow> pool \<Rightarrow> tracker_key \<times> pool" where
  "tracker_key_at env i p = (case getRuntimeTrackerKey env (acc p i) of (k, a) \<Rightarrow> (k, set_acc i a p))"

definition getAccountCircuitKey :: "pool_env \<Rightarrow> nat \<Rightarrow> pool \<Rightarrow> string \<times> pool" where
  "getAccountCircuitKey env i p =
     (let a = acc p i
      in if truthy_string (circuitKeyId a) then (the (circuitKeyId a), p)
         else case getAccountIdentityKey (env_sha256 env) (accountId a) (ma_email a) (Some (refreshToken a)) of
                Some k \<Rightarrow> (k, set_acc i (a\<lparr>circuitKeyId := Some k\<rparr>) p)
              | None \<Rightarrow>
                  (let k = ''circuit:'' @ show_nat (nextRuntimeCircuitKeyId p)
                   in (k, (set_acc i (a\<lparr>circuitKeyId := Some k\<rparr>) p)
                            \<lparr>nextRuntimeCircuitKeyId := nextRuntimeCircuitKeyId p + 1\<rparr>)))"

text \<open>\<open>getCircuitBreaker(getAccountCircuitKey(account))\<close>: the breaker, its key, the pool.\<close>

definition account_breaker :: "pool_env \<Rightarrow> jsnum \<Rightarrow> nat \<Rightarrow> pool \<Rightarrow> breaker \<times> string \<times> pool" where
  "account_breaker env now i p =
     (let (key, p) = getAccountCircuitKey env i p;
          (b, reg) = getCircuitBreaker (circuitBreakers p) now key id
      in (b, key, p\<lparr>circuitBreakers := reg\<rparr>))"

definition put_breaker :: "string \<Rightarrow> breaker \<Rightarrow> pool \<Rightarrow> pool" where
  "put_breaker key b p = p\<lparr>circuitBreakers := jm_set key b (circuitBreakers p)\<rparr>"

definition isCircuitAvailable :: "pool_env \<Rightarrow> jsnum \<Rightarrow> nat \<Rightarrow> pool \<Rightarrow> bool \<times> pool" where
  "isCircuitAvailable env now i p =
     (case account_breaker env now i p of (b, _, p) \<Rightarrow> (breaker_isAvailable b now, p))"

definition getCircuitRecoveryTime :: "pool_env \<Rightarrow> jsnum \<Rightarrow> nat \<Rightarrow> pool \<Rightarrow> jsnum option \<times> pool" where
  "getCircuitRecoveryTime env now i p =
     (case account_breaker env now i p of (b, _, p) \<Rightarrow>
        (let waitMs = getTimeUntilAvailable b now in (if waitMs > 0 then Some (now + waitMs) else None, p)))"

section \<open>The gates\<close>

text \<open>
  The test all selectors share, with its short-circuit order: expired limits are pruned, then
  rate limits, authentication, cooldown and the circuit breaker are asked.
\<close>

definition passes_gates ::
  "pool_env \<Rightarrow> jsnum \<Rightarrow> model_family \<Rightarrow> string option \<Rightarrow> nat \<Rightarrow> pool \<Rightarrow> bool \<times> pool" where
  "passes_gates env now family model i p =
     (let (limited, a) = isRateLimitedForFamily (env_claim env) now (clearExpiredRateLimits now (acc p i)) family model
      in if limited \<or> isAccountAuthInvalidated a then (False, set_acc i a p)
         else let (cooling, a) = isAccountCoolingDown now a
              in if cooling then (False, set_acc i a p)
                 else isCircuitAvailable env now i (set_acc i a p))"

definition is_usable ::
  "pool_env \<Rightarrow> jsnum \<Rightarrow> model_family \<Rightarrow> string option \<Rightarrow> nat set \<Rightarrow> nat \<Rightarrow> pool \<Rightarrow> bool \<times> pool" where
  "is_usable env now family model blockedIndexes i p =
     (if ma_enabled (acc p i) = Some False \<or> ma_index (acc p i) \<in> blockedIndexes
         \<or> \<not> hasEnabledWorkspaces (acc p i)
      then (False, p) else passes_gates env now family model i p)"

definition getAccountByIndex :: "pool \<Rightarrow> jsval \<Rightarrow> nat option" where
  "getAccountByIndex p index =
     (case index of
        NonFinite \<Rightarrow> None
      | Finite x \<Rightarrow>
          if x < 0 \<or> x \<ge> of_nat (length (accounts p)) then None
          else if js_floor x = x then Some (nat \<lfloor>x\<rfloor>) else None)"

definition isAccountAvailableForFamily ::
  "pool_env \<Rightarrow> jsnum \<Rightarrow> jsval \<Rightarrow> model_family \<Rightarrow> string option \<Rightarrow> pool \<Rightarrow> bool \<times> pool" where
  "isAccountAvailableForFamily env now index family model p =
     (case getAccountByIndex p index of
        None \<Rightarrow> (False, p)
      | Some i \<Rightarrow> is_usable env now family model {} i p)"

datatype skip_reason =
    SkipMissing | SkipDisabled | SkipWorkspaceDisabled | SkipTokenInvalid | SkipRateLimited
  | SkipCoolingDown "cooldown_reason option" | SkipCircuitOpen

definition getManagedAccountRuntimeSkipReason ::
  "pool_env \<Rightarrow> jsnum \<Rightarrow> nat \<Rightarrow> model_family \<Rightarrow> string option \<Rightarrow> pool \<Rightarrow> skip_reason option \<times> pool" where
  "getManagedAccountRuntimeSkipReason env now i family model p =
     (if ma_enabled (acc p i) = Some False then (Some SkipDisabled, p)
      else if \<not> hasEnabledWorkspaces (acc p i) then (Some SkipWorkspaceDisabled, p)
      else if isAccountAuthInvalidated (acc p i) then (Some SkipTokenInvalid, p)
      else let (limited, a) = isRateLimitedForFamily (env_claim env) now (clearExpiredRateLimits now (acc p i)) family model
           in if limited then (Some SkipRateLimited, set_acc i a p)
              else let (cooling, a) = isAccountCoolingDown now a
                   in if cooling then (Some (SkipCoolingDown (cooldownReason a)), set_acc i a p)
                      else let (ok, p) = isCircuitAvailable env now i (set_acc i a p)
                           in (if ok then None else Some SkipCircuitOpen, p))"

definition getAccountRuntimeSkipReason ::
  "pool_env \<Rightarrow> jsnum \<Rightarrow> jsval \<Rightarrow> model_family \<Rightarrow> string option \<Rightarrow> pool \<Rightarrow> skip_reason option \<times> pool" where
  "getAccountRuntimeSkipReason env now index family model p =
     (case getAccountByIndex p index of
        None \<Rightarrow> (Some SkipMissing, p)
      | Some i \<Rightarrow> getManagedAccountRuntimeSkipReason env now i family model p)"

end
