(* ===== verification/AccountGates.thy ===== *)
theory AccountGates
  imports AccountState
begin

text \<open>
  What the gates of \<open>lib/accounts.ts\<close> decide, without their side effects: \<open>routable\<close> is a pure
  predicate on the account and the registry, and evaluating the gates (which prunes limits,
  clears cooldowns that are over, fills in keys and registers breakers) answers exactly it and
  changes it for no account, now or later.  The locale \<open>checked_scan\<close> is the contract of a scan
  over such a check; the selectors of \<open>AccountRotation\<close> rest on its interpretation.
\<close>

section \<open>The pure predicate\<close>

definition circuit_key :: "pool_env \<Rightarrow> managed_account \<Rightarrow> string" where
  "circuit_key env a =
     (if truthy_string (circuitKeyId a) then the (circuitKeyId a)
      else nullish (getAccountIdentityKey (env_sha256 env) (accountId a) (ma_email a) (Some (refreshToken a))) [])"

definition circuit_ok :: "jsnum \<Rightarrow> pool \<Rightarrow> string \<Rightarrow> bool" where
  "circuit_ok now p key \<longleftrightarrow>
     (case jm_get (circuitBreakers p) key of None \<Rightarrow> True | Some b \<Rightarrow> breaker_isAvailable b now)"

definition gate_limited ::
  "pool_env \<Rightarrow> jsnum \<Rightarrow> model_family \<Rightarrow> string option \<Rightarrow> 'a limited_entity_scheme \<Rightarrow> bool" where
  "gate_limited env now family model a \<longleftrightarrow>
     (truthy_string model \<and> isRateLimitedForQuotaKey (env_claim env) now a (getQuotaKey family model))
     \<or> (model \<noteq> Some LUNA_RESERVE_MODEL \<and> isRateLimitedForQuotaKey (env_claim env) now a (getQuotaKey family None))"

definition cooling :: "jsnum \<Rightarrow> managed_account \<Rightarrow> bool" where
  "cooling now a \<longleftrightarrow> (case coolingDownUntil a of None \<Rightarrow> False | Some until \<Rightarrow> now < until)"

definition gates_open ::
  "pool_env \<Rightarrow> jsnum \<Rightarrow> model_family \<Rightarrow> string option \<Rightarrow> pool \<Rightarrow> managed_account \<Rightarrow> bool" where
  "gates_open env now family model p a \<longleftrightarrow>
     \<not> gate_limited env now family model a \<and> \<not> isAccountAuthInvalidated a \<and> \<not> cooling now a
     \<and> circuit_ok now p (circuit_key env a)"

definition routable ::
  "pool_env \<Rightarrow> jsnum \<Rightarrow> model_family \<Rightarrow> string option \<Rightarrow> nat set \<Rightarrow> pool \<Rightarrow> nat \<Rightarrow> bool" where
  "routable env now family model blocked p i \<longleftrightarrow>
     ma_enabled (acc p i) \<noteq> Some False \<and> ma_index (acc p i) \<notin> blocked \<and> hasEnabledWorkspaces (acc p i)
     \<and> gates_open env now family model p (acc p i)"

definition account_ok :: "managed_account \<Rightarrow> bool" where
  "account_ok a \<longleftrightarrow> jm_ok (rateLimitResetTimes a) \<and> js_trim (refreshToken a) \<noteq> []"

text \<open>\<open>room\<close>: the breakers this pool still has to register fit without an eviction.\<close>

definition pool_ok :: "pool \<Rightarrow> bool" where
  "pool_ok p \<longleftrightarrow> list_all account_ok (accounts p) \<and> registry_inv (circuitBreakers p)"

definition unregistered :: "pool_env \<Rightarrow> pool \<Rightarrow> string set" where
  "unregistered env p = {k \<in> circuit_key env ` set (accounts p). \<not> jm_has (circuitBreakers p) k}"

definition room :: "pool_env \<Rightarrow> pool \<Rightarrow> bool" where
  "room env p \<longleftrightarrow> length (circuitBreakers p) + card (unregistered env p) \<le> MAX_CIRCUIT_BREAKERS"

definition tracker_key :: "pool_env \<Rightarrow> managed_account \<Rightarrow> tracker_key" where
  "tracker_key env a =
     (case runtimeTrackerKey a of
        Some k \<Rightarrow> k
      | None \<Rightarrow> nullish (getRuntimeAccountIdentityKey (env_sha256 env) (accountId a) (ma_email a) (Some (ma_index a)))
                  (NumKey (ma_index a)))"

lemma tracker_key_cong:
  assumes "runtimeTrackerKey b = runtimeTrackerKey a" and "accountId b = accountId a" and "ma_email b = ma_email a"
    and "ma_index b = ma_index a"
  shows "tracker_key env b = tracker_key env a"
  unfolding tracker_key_def assms ..

section \<open>Accounts that look the same from now on\<close>

definition same_view :: "pool_env \<Rightarrow> jsnum \<Rightarrow> managed_account \<Rightarrow> managed_account \<Rightarrow> bool" where
  "same_view env now a a' \<longleftrightarrow>
     (\<forall>t f m. now \<le> t \<longrightarrow> gate_limited env t f m a' = gate_limited env t f m a \<and> cooling t a' = cooling t a)
     \<and> isAccountAuthInvalidated a' = isAccountAuthInvalidated a \<and> ma_enabled a' = ma_enabled a
     \<and> workspaces a' = workspaces a \<and> circuit_key env a' = circuit_key env a \<and> ma_index a' = ma_index a
     \<and> lastUsed a' = lastUsed a \<and> tracker_key env a' = tracker_key env a
     \<and> (account_ok a \<longrightarrow> account_ok a')"

definition kept :: "pool_env \<Rightarrow> jsnum \<Rightarrow> pool \<Rightarrow> pool \<Rightarrow> bool" where
  "kept env now p p' \<longleftrightarrow>
     length (accounts p') = length (accounts p)
     \<and> (\<forall>j < length (accounts p). same_view env now (acc p j) (acc p' j))
     \<and> (\<forall>t key. circuit_ok t p' key = circuit_ok t p key)
     \<and> cursorByFamily p' = cursorByFamily p \<and> currentAccountIndexByFamily p' = currentAccountIndexByFamily p
     \<and> healthTracker p' = healthTracker p \<and> tokenTracker p' = tokenTracker p
     \<and> pinnedAccountIndex p' = pinnedAccountIndex p \<and> affinityGeneration p' = affinityGeneration p"

lemma same_view_refl [simp]: "same_view env now a a"
  by (simp add: same_view_def)

lemma same_view_trans: "same_view env now a b \<Longrightarrow> same_view env now b c \<Longrightarrow> same_view env now a c"
  by (auto simp: same_view_def)

lemma kept_refl [simp]: "kept env now p p"
  by (simp add: kept_def)

lemma kept_trans: "kept env now p q \<Longrightarrow> kept env now q r \<Longrightarrow> kept env now p r"
  unfolding kept_def by (auto intro: same_view_trans)

lemma acc_set_acc: "i < length (accounts p) \<Longrightarrow> acc (set_acc i a p) j = (if j = i then a else acc p j)"
  by (simp add: acc_def set_acc_def)

lemma set_acc_fields [simp]:
  "length (accounts (set_acc i a p)) = length (accounts p)"
  "circuitBreakers (set_acc i a p) = circuitBreakers p"
  "cursorByFamily (set_acc i a p) = cursorByFamily p"
  "currentAccountIndexByFamily (set_acc i a p) = currentAccountIndexByFamily p"
  "healthTracker (set_acc i a p) = healthTracker p"
  "tokenTracker (set_acc i a p) = tokenTracker p"
  "pinnedAccountIndex (set_acc i a p) = pinnedAccountIndex p"
  "affinityGeneration (set_acc i a p) = affinityGeneration p"
  "nextRuntimeCircuitKeyId (set_acc i a p) = nextRuntimeCircuitKeyId p"
  by (simp_all add: set_acc_def)

lemma circuit_ok_set_acc [simp]: "circuit_ok t (set_acc i a p) key = circuit_ok t p key"
  by (simp add: circuit_ok_def)

lemma kept_set_acc:
  "i < length (accounts p) \<Longrightarrow> same_view env now (acc p i) a \<Longrightarrow> kept env now p (set_acc i a p)"
  by (simp add: kept_def acc_set_acc)

lemma kept_routable:
  assumes "kept env now p p'" and "j < length (accounts p)" and "now \<le> t"
  shows "routable env t f m blocked p' j = routable env t f m blocked p j"
  using assms by (auto simp: routable_def kept_def same_view_def gates_open_def hasEnabledWorkspaces_def
      tracked_workspaces_def)

lemma account_ok_acc: "pool_ok p \<Longrightarrow> i < length (accounts p) \<Longrightarrow> account_ok (acc p i)"
  by (simp add: pool_ok_def acc_def list_all_length)

lemma pool_ok_set_acc: "pool_ok p \<Longrightarrow> account_ok a \<Longrightarrow> pool_ok (set_acc i a p)"
  using set_update_subset_insert [of "accounts p" i a]
  by (auto simp: pool_ok_def set_acc_def list_all_iff)

section \<open>Pruning is invisible from now on\<close>

lemma limited_unexpired_later:
  assumes "jm_ok (rateLimitResetTimes e)" and "0 \<le> now" and "now \<le> t"
  shows "t < quotaResetTime (clearExpiredRateLimits now e) k w \<longleftrightarrow> t < quotaResetTime e k w"
  using assms by (auto simp: quotaResetTime_def reset_at_unexpired less_max_iff_disj split: option.split)

lemma gate_limited_unexpired:
  assumes "jm_ok (rateLimitResetTimes a)" and "0 \<le> now" and "now \<le> t"
  shows "gate_limited env t f m (clearExpiredRateLimits now a) = gate_limited env t f m a"
  by (simp add: gate_limited_def isRateLimitedForQuotaKey_def limited_unexpired_later [OF assms])

lemma clearExpired_account [simp]:
  "ma_index (clearExpiredRateLimits now a) = ma_index a"
  "ma_enabled (clearExpiredRateLimits now a) = ma_enabled a"
  "lastUsed (clearExpiredRateLimits now a) = lastUsed a"
  "refreshToken (clearExpiredRateLimits now a) = refreshToken a"
  "ma_email (clearExpiredRateLimits now a) = ma_email a"
  "circuitKeyId (clearExpiredRateLimits now a) = circuitKeyId a"
  "coolingDownUntil (clearExpiredRateLimits now a) = coolingDownUntil a"
  "authInvalidatedAt (clearExpiredRateLimits now a) = authInvalidatedAt a"
  "runtimeTrackerKey (clearExpiredRateLimits now a) = runtimeTrackerKey a"
  by (simp_all add: clearExpiredRateLimits_def)

lemma same_view_clearExpired:
  assumes "account_ok a" and "0 \<le> now"
  shows "same_view env now a (clearExpiredRateLimits now a)"
  using assms tracker_key_cong [of "clearExpiredRateLimits now a" a env]
  by (auto simp: same_view_def account_ok_def gate_limited_unexpired cooling_def circuit_key_def
      isAccountAuthInvalidated_def jm_ok_unexpired)

text \<open>The limits gate reads only the part of the account the rate limit module knows.\<close>

lemma gate_limited_cong:
  fixes a :: "'a limited_entity_scheme" and b :: "'b limited_entity_scheme"
  assumes "rateLimitResetTimes b = rateLimitResetTimes a" and "accountId b = accountId a" and "access b = access a"
    and "accessToken b = accessToken a" and "codexCliMirror b = codexCliMirror a" and "workspaces b = workspaces a"
    and "currentWorkspaceIndex b = currentWorkspaceIndex a"
  shows "gate_limited env t f m b = gate_limited env t f m a"
proof -
  have "selectedQuotaWorkspace claim b = selectedQuotaWorkspace claim a" for claim
    unfolding selectedQuotaWorkspace_def assms ..
  then show ?thesis
    unfolding gate_limited_def isRateLimitedForQuotaKey_def quotaResetTime_def assms(1) by simp
qed

lemma same_view_clearCooldown:
  assumes "\<not> cooling now a"
  shows "same_view env now a (clearAccountCooldown a)"
proof -
  have "gate_limited env t f m (clearAccountCooldown a) = gate_limited env t f m a" for t f m
    by (rule gate_limited_cong) (simp_all add: clearAccountCooldown_def)
  moreover have "\<not> cooling t a" if "now \<le> t" for t
    using assms that by (auto simp: cooling_def split: option.splits)
  moreover have "tracker_key env (clearAccountCooldown a) = tracker_key env a"
    by (rule tracker_key_cong) (simp_all add: clearAccountCooldown_def)
  ultimately show ?thesis
    by (simp add: same_view_def) (simp add: cooling_def clearAccountCooldown_def circuit_key_def
        isAccountAuthInvalidated_def account_ok_def)
qed

lemma isRateLimitedForFamily_gate:
  assumes "account_ok a" and "0 \<le> now"
  shows "isRateLimitedForFamily (env_claim env) now a f m = (gate_limited env now f m a, clearExpiredRateLimits now a)"
proof -
  have ok: "jm_ok (rateLimitResetTimes a)" using assms(1) by (simp add: account_ok_def)
  have "isRateLimitedForQuotaKey (env_claim env) now (clearExpiredRateLimits now a) k
      = isRateLimitedForQuotaKey (env_claim env) now a k" for k
    by (simp add: isRateLimitedForQuotaKey_def limited_unexpired_later [OF ok assms(2) order_refl])
  then show ?thesis
    by (auto simp: isRateLimitedForFamily_def gate_limited_def Let_def truthy_string_def LUNA_RESERVE_MODEL_def)
qed

section \<open>The registry lookup is invisible\<close>

lemma circuit_key_nonempty:
  assumes "account_ok a"
  shows "circuit_key env a \<noteq> []"
proof -
  from identity_key_some [of "refreshToken a" "env_sha256 env" "accountId a" "ma_email a"] assms
  obtain k where "getAccountIdentityKey (env_sha256 env) (accountId a) (ma_email a) (Some (refreshToken a)) = Some k"
    by (auto simp: account_ok_def)
  with identity_key_nonempty [of "env_sha256 env" "accountId a" "ma_email a" "Some (refreshToken a)"]
  show ?thesis by (auto simp: circuit_key_def truthy_string_def split: option.splits)
qed

lemma getAccountCircuitKey_ok:
  assumes "pool_ok p" and "i < length (accounts p)"
  shows "\<exists>a'. getAccountCircuitKey env i p = (circuit_key env (acc p i), set_acc i a' p)
     \<and> same_view env now (acc p i) a'"
proof (cases "truthy_string (circuitKeyId (acc p i))")
  case True
  have "set_acc i (acc p i) p = p" using assms(2) by (simp add: set_acc_def acc_def)
  with True show ?thesis by (intro exI [of _ "acc p i"]) (simp add: getAccountCircuitKey_def circuit_key_def)
next
  case False
  let ?a = "acc p i"
  have "js_trim (refreshToken ?a) \<noteq> []" using account_ok_acc [OF assms] by (simp add: account_ok_def)
  from identity_key_some [OF this]
  obtain k where k: "getAccountIdentityKey (env_sha256 env) (accountId ?a) (ma_email ?a) (Some (refreshToken ?a)) = Some k"
    by blast
  have "k \<noteq> []" using k identity_key_nonempty by metis
  let ?a' = "?a\<lparr>circuitKeyId := Some k\<rparr>"
  have "gate_limited env t f m ?a' = gate_limited env t f m ?a" for t f m
    by (rule gate_limited_cong) simp_all
  moreover have "tracker_key env ?a' = tracker_key env ?a" by (rule tracker_key_cong) simp_all
  ultimately have "same_view env now ?a ?a'" using False k \<open>k \<noteq> []\<close>
    by (simp add: same_view_def) (simp add: cooling_def isAccountAuthInvalidated_def account_ok_def circuit_key_def
        truthy_string_def)
  with False k show ?thesis
    by (intro exI [of _ ?a']) (simp add: getAccountCircuitKey_def circuit_key_def Let_def)
qed

lemma kept_keys: "kept env now p p' \<Longrightarrow> circuit_key env ` set (accounts p') = circuit_key env ` set (accounts p)"
proof -
  assume k: "kept env now p p'"
  then have "map (circuit_key env) (accounts p') = map (circuit_key env) (accounts p)"
    by (intro nth_equalityI) (auto simp: kept_def same_view_def acc_def)
  then show ?thesis by (metis list.set_map)
qed

lemma room_kept:
  "kept env now p p' \<Longrightarrow> circuitBreakers p' = circuitBreakers p \<Longrightarrow> room env p \<Longrightarrow> room env p'"
  by (simp add: room_def unregistered_def kept_keys)

lemma room_register:
  assumes "kept env now p p'" and "circuitBreakers p' = jm_set key b (circuitBreakers p)" and "room env p"
    and "key \<in> circuit_key env ` set (accounts p)" and "jm_get (circuitBreakers p) key = None"
  shows "room env p' \<and> length (circuitBreakers p) < MAX_CIRCUIT_BREAKERS"
proof -
  have mem: "key \<in> unregistered env p" using assms(4,5) by (simp add: unregistered_def jm_has_def)
  have fin: "finite (unregistered env p)" by (simp add: unregistered_def)
  have "unregistered env p' = unregistered env p - {key}"
    by (auto simp: unregistered_def kept_keys [OF assms(1)] assms(2) jm_has_def jm_simps)
  then have "Suc (card (unregistered env p')) = card (unregistered env p)"
    using card_Suc_Diff1 [OF fin mem] by simp
  then show ?thesis using assms(2,3,5) by (simp add: room_def length_jm_set jm_has_def)
qed

lemma account_breaker_ok:
  assumes ok: "pool_ok p" and i: "i < length (accounts p)" and "room env p"
  shows "\<exists>b p'. account_breaker env now i p = (b, circuit_key env (acc p i), p')
     \<and> jm_get (circuitBreakers p') (circuit_key env (acc p i)) = Some b
     \<and> b = (case jm_get (circuitBreakers p) (circuit_key env (acc p i)) of Some b \<Rightarrow> b | None \<Rightarrow> breaker_new id now)
     \<and> kept env t p p' \<and> pool_ok p' \<and> room env p'"
proof -
  let ?key = "circuit_key env (acc p i)"
  obtain a' where a': "getAccountCircuitKey env i p = (?key, set_acc i a' p)" "same_view env t (acc p i) a'"
    using getAccountCircuitKey_ok [OF ok i] by blast
  have aok: "account_ok a'" using a'(2) account_ok_acc [OF ok i] by (simp add: same_view_def)
  have key: "?key \<noteq> []" by (rule circuit_key_nonempty [OF account_ok_acc [OF ok i]])
  have reg: "registry_inv (circuitBreakers p)" using ok by (simp add: pool_ok_def)
  have keep: "kept env t p (set_acc i a' p)" by (rule kept_set_acc [OF i a'(2)])
  have pok: "pool_ok (set_acc i a' p)" by (rule pool_ok_set_acc [OF ok aok])
  have mem: "?key \<in> circuit_key env ` set (accounts p)" using i by (auto simp: acc_def)
  show ?thesis
  proof (cases "jm_get (circuitBreakers p) ?key")
    case (Some b)
    have same: "set_acc i a' p\<lparr>circuitBreakers := circuitBreakers p\<rparr> = set_acc i a' p" by (simp add: set_acc_def)
    have "room env (set_acc i a' p)" by (rule room_kept [OF keep _ assms(3)]) simp
    with Some a' keep pok show ?thesis
      by (simp add: account_breaker_def getCircuitBreaker_def same del: pool.simps)
  next
    case None
    let ?p' = "set_acc i a' p\<lparr>circuitBreakers := jm_set ?key (breaker_new id now) (circuitBreakers p)\<rparr>"
    have "circuit_ok s ?p' k' = circuit_ok s (set_acc i a' p) k'" for s k'
      using None by (simp add: circuit_ok_def jm_simps breaker_isAvailable_def breaker_new_def)
    then have "kept env t (set_acc i a' p) ?p'" by (simp add: kept_def acc_def)
    with keep have keep': "kept env t p ?p'" by (rule kept_trans)
    have room': "room env ?p' \<and> length (circuitBreakers p) < MAX_CIRCUIT_BREAKERS"
      by (rule room_register [OF keep' _ assms(3) mem None]) simp
    then have get: "getCircuitBreaker (circuitBreakers p) now ?key id =
        (breaker_new id now, jm_set ?key (breaker_new id now) (circuitBreakers p))"
      using None by (simp add: getCircuitBreaker_def Let_def)
    have "registry_inv (jm_set ?key (breaker_new id now) (circuitBreakers p))"
      using registry_inv_get [OF reg key, of now id] get by simp
    then have "pool_ok ?p'" using pok by (simp add: pool_ok_def)
    with keep' room' get None a' show ?thesis
      by (simp add: account_breaker_def jm_simps)
  qed
qed

lemma isCircuitAvailable_ok:
  assumes "pool_ok p" and "i < length (accounts p)" and "room env p"
  shows "\<exists>p'. isCircuitAvailable env now i p = (circuit_ok now p (circuit_key env (acc p i)), p')
     \<and> kept env t p p' \<and> pool_ok p' \<and> room env p'"
  using account_breaker_ok [OF assms, of now t]
  by (auto simp: isCircuitAvailable_def circuit_ok_def breaker_isAvailable_def breaker_new_def split: option.splits)

text \<open>A step that leaves the pool good, with room, and routing as it was.\<close>

definition quiet :: "pool_env \<Rightarrow> jsnum \<Rightarrow> pool \<Rightarrow> pool \<Rightarrow> bool" where
  "quiet env now p p' \<longleftrightarrow> kept env now p p' \<and> pool_ok p' \<and> room env p'"

lemma quiet_set_acc:
  assumes "pool_ok p" and "i < length (accounts p)" and "room env p" and "same_view env now (acc p i) a"
  shows "quiet env now p (set_acc i a p)"
proof -
  have "kept env now p (set_acc i a p)" by (rule kept_set_acc [OF assms(2,4)])
  moreover have "account_ok a" using assms(4) account_ok_acc [OF assms(1,2)] by (simp add: same_view_def)
  ultimately show ?thesis
    using room_kept [of env now p "set_acc i a p"] assms(1,3) by (simp add: quiet_def pool_ok_set_acc)
qed

lemma quiet_trans: "quiet env now p q \<Longrightarrow> quiet env now q r \<Longrightarrow> quiet env now p r"
  unfolding quiet_def by (auto intro: kept_trans)

lemma isAccountCoolingDown_ok:
  "\<exists>a'. isAccountCoolingDown now a = (cooling now a, a') \<and> same_view env now a a'
     \<and> (cooling now a \<longrightarrow> a' = a)"
proof (cases "cooling now a")
  case True
  then show ?thesis by (auto simp: isAccountCoolingDown_def cooling_def split: option.splits)
next
  case False
  from same_view_clearCooldown [OF this, of env] False show ?thesis
    by (auto simp: isAccountCoolingDown_def cooling_def split: option.splits)
qed

lemma same_view_circuit_key: "same_view env now a a' \<Longrightarrow> circuit_key env a' = circuit_key env a"
  by (simp add: same_view_def)

lemma passes_gates_ok:
  assumes ok: "pool_ok p" and i: "i < length (accounts p)" and room: "room env p" and now: "0 \<le> now"
  shows "\<exists>p'. passes_gates env now f m i p = (gates_open env now f m p (acc p i), p') \<and> quiet env now p p'"
proof -
  let ?a = "acc p i"
  let ?a2 = "clearExpiredRateLimits now (clearExpiredRateLimits now ?a)"
  have aok: "account_ok ?a" by (rule account_ok_acc [OF ok i])
  have v1: "same_view env now ?a (clearExpiredRateLimits now ?a)" by (rule same_view_clearExpired [OF aok now])
  then have aok1: "account_ok (clearExpiredRateLimits now ?a)" using aok by (simp add: same_view_def)
  have v2: "same_view env now ?a ?a2" by (rule same_view_trans [OF v1 same_view_clearExpired [OF aok1 now]])
  have lim: "isRateLimitedForFamily (env_claim env) now (clearExpiredRateLimits now ?a) f m = (gate_limited env now f m ?a, ?a2)"
    using isRateLimitedForFamily_gate [OF aok1 now, of env f m] v1 by (simp add: same_view_def)
  have auth: "isAccountAuthInvalidated ?a2 = isAccountAuthInvalidated ?a" using v2 by (simp add: same_view_def)
  obtain a3 where a3: "isAccountCoolingDown now ?a2 = (cooling now ?a2, a3)" "same_view env now ?a2 a3"
    using isAccountCoolingDown_ok by blast
  have cool: "cooling now ?a2 = cooling now ?a" using v2 by (simp add: same_view_def)
  have v3: "same_view env now ?a a3" by (rule same_view_trans [OF v2 a3(2)])
  have q2: "quiet env now p (set_acc i ?a2 p)" by (rule quiet_set_acc [OF ok i room v2])
  have q3: "quiet env now p (set_acc i a3 p)" by (rule quiet_set_acc [OF ok i room v3])
  have key: "circuit_key env (acc (set_acc i a3 p) i) = circuit_key env ?a"
    using same_view_circuit_key [OF v3] i by (simp add: acc_set_acc)
  obtain p' where p': "isCircuitAvailable env now i (set_acc i a3 p) = (circuit_ok now p (circuit_key env ?a), p')"
      "quiet env now (set_acc i a3 p) p'"
    using isCircuitAvailable_ok [of "set_acc i a3 p" i env now now] q3 i unfolding quiet_def key
    by auto
  show ?thesis
  proof (cases "gate_limited env now f m ?a \<or> isAccountAuthInvalidated ?a")
    case True
    with q2 lim auth show ?thesis by (auto simp: passes_gates_def gates_open_def)
  next
    case False
    show ?thesis
    proof (cases "cooling now ?a")
      case True
      with False q3 lim auth a3 cool show ?thesis by (auto simp: passes_gates_def gates_open_def)
    next
      case no: False
      with False quiet_trans [OF q3 p'(2)] p'(1) lim auth a3 cool show ?thesis
        by (auto simp: passes_gates_def gates_open_def)
    qed
  qed
qed

lemma is_usable_ok:
  assumes "pool_ok p" and "i < length (accounts p)" and "room env p" and "0 \<le> now"
  shows "\<exists>p'. is_usable env now f m blocked i p = (routable env now f m blocked p i, p') \<and> quiet env now p p'"
  using passes_gates_ok [OF assms, of f m] assms(1,3)
  by (auto simp: is_usable_def routable_def quiet_def)

section \<open>Scanning\<close>

fun scan :: "(nat \<Rightarrow> 's \<Rightarrow> bool \<times> 's) \<Rightarrow> nat list \<Rightarrow> 's \<Rightarrow> nat option \<times> 's" where
  "scan check [] s = (None, s)"
| "scan check (idx # rest) s =
     (case check idx s of (usable, s') \<Rightarrow> if usable then (Some idx, s') else scan check rest s')"

text \<open>The visiting order \<open>(start + i) % count\<close>.\<close>

definition cyclic :: "nat \<Rightarrow> nat \<Rightarrow> nat list" where
  "cyclic start n = map (\<lambda>i. (start + i) mod n) [0..<n]"

text \<open>
  The contract of a check with side effects: in a good state it answers the specification,
  and it changes the specification of no candidate.
\<close>

locale checked_scan =
  fixes check :: "nat \<Rightarrow> 's \<Rightarrow> bool \<times> 's"
    and spec :: "'s \<Rightarrow> nat \<Rightarrow> bool"
    and good :: "'s \<Rightarrow> bool"
    and valid :: "'s \<Rightarrow> nat \<Rightarrow> bool"
    and keeps :: "'s \<Rightarrow> 's \<Rightarrow> bool"
  assumes check_exact: "good s \<Longrightarrow> valid s i \<Longrightarrow> \<exists>s'. check i s = (spec s i, s') \<and> good s' \<and> keeps s s'"
    and keeps_spec: "keeps s s' \<Longrightarrow> valid s i \<Longrightarrow> spec s' i = spec s i \<and> valid s' i"
    and keeps_refl: "keeps s s"
    and keeps_trans: "keeps s s' \<Longrightarrow> keeps s' s'' \<Longrightarrow> keeps s s''"
begin

lemma scan_first:
  assumes "good s" and "list_all (valid s) xs"
  shows "\<exists>s'. scan check xs s = (List.find (spec s) xs, s') \<and> keeps s s'"
  using assms
proof (induction xs arbitrary: s)
  case Nil
  then show ?case by (simp add: keeps_refl)
next
  case (Cons i xs)
  have good: "good s" and valid: "valid s i" using Cons.prems by simp_all
  from check_exact [OF good valid] obtain s' where s': "check i s = (spec s i, s')" "good s'" "keeps s s'"
    by blast
  show ?case
  proof (cases "spec s i")
    case True
    with s' show ?thesis by simp
  next
    case False
    have all: "list_all (valid s') xs" "List.find (spec s') xs = List.find (spec s) xs"
      using Cons.prems(2) keeps_spec [OF s'(3)] by (auto simp: list_all_iff intro: find_cong)
    from Cons.IH [OF s'(2) all(1)] obtain s'' where "scan check xs s' = (List.find (spec s') xs, s'')" "keeps s' s''" by blast
    with False s' all(2) show ?thesis using keeps_trans [OF s'(3)] by simp
  qed
qed

end

definition scan_good :: "pool_env \<Rightarrow> jsnum \<Rightarrow> pool \<Rightarrow> bool" where
  "scan_good env now p \<longleftrightarrow> pool_ok p \<and> room env p \<and> 0 \<le> now"

definition scan_keeps :: "pool_env \<Rightarrow> jsnum \<Rightarrow> pool \<Rightarrow> pool \<Rightarrow> bool" where
  "scan_keeps env now p p' \<longleftrightarrow> kept env now p p' \<and> (pool_ok p \<and> room env p \<longrightarrow> pool_ok p' \<and> room env p')"

interpretation gates: checked_scan "is_usable env now f m blocked" "routable env now f m blocked" "scan_good env now"
  "\<lambda>p i. i < length (accounts p)" "scan_keeps env now" for env now f m blocked
proof unfold_locales
  fix s i assume "scan_good env now s" "i < length (accounts s)"
  then show "\<exists>s'. is_usable env now f m blocked i s = (routable env now f m blocked s i, s') \<and> scan_good env now s'
      \<and> scan_keeps env now s s'"
    using is_usable_ok [of s i env now f m blocked] by (auto simp: scan_good_def quiet_def scan_keeps_def)
next
  fix s s' i assume "scan_keeps env now s s'" "i < length (accounts s)"
  then show "routable env now f m blocked s' i = routable env now f m blocked s i \<and> i < length (accounts s')"
    using kept_routable [of env now s s' i now f m blocked] by (auto simp: scan_keeps_def kept_def)
next
  fix s show "scan_keeps env now s s" by (simp add: scan_keeps_def)
next
  fix s s' s'' assume "scan_keeps env now s s'" "scan_keeps env now s' s''"
  then show "scan_keeps env now s s''" by (auto simp: scan_keeps_def intro: kept_trans)
qed

end
