(* ===== verification/AccountRotation.thy ===== *)
theory AccountRotation
  imports AccountGates
begin

text \<open>
  \<open>lib/accounts.ts\<close>, part two: the selectors (round robin, sequential, hybrid), the active and
  cursor pointers with every operation that moves them, removal and enabling of accounts, and
  the recording of outcomes in the trackers and breakers.
\<close>

section \<open>Selectors\<close>

definition touch :: "nat \<Rightarrow> jsnum \<Rightarrow> pool \<Rightarrow> pool" where
  "touch i now p = set_acc i ((acc p i)\<lparr>lastUsed := now\<rparr>) p"

definition set_cursor :: "model_family \<Rightarrow> nat \<Rightarrow> pool \<Rightarrow> pool" where
  "set_cursor family c p = p\<lparr>cursorByFamily := (cursorByFamily p)(family := c)\<rparr>"

definition set_current :: "model_family \<Rightarrow> int \<Rightarrow> pool \<Rightarrow> pool" where
  "set_current family c p = p\<lparr>currentAccountIndexByFamily := (currentAccountIndexByFamily p)(family := c)\<rparr>"

definition getCurrentOrNextForFamily ::
  "pool_env \<Rightarrow> jsnum \<Rightarrow> model_family \<Rightarrow> string option \<Rightarrow> pool \<Rightarrow> nat option \<times> pool" where
  "getCurrentOrNextForFamily env now family model p =
     (let count = length (accounts p); cursor = cursorByFamily p family
      in case scan (is_usable env now family model {}) (cyclic cursor count) p of
           (None, p) \<Rightarrow> (None, p)
         | (Some idx, p) \<Rightarrow>
             (Some idx, touch idx now (set_current family (int idx) (set_cursor family ((idx + 1) mod count) p))))"

definition getNextForFamily ::
  "pool_env \<Rightarrow> jsnum \<Rightarrow> model_family \<Rightarrow> string option \<Rightarrow> pool \<Rightarrow> nat option \<times> pool" where
  "getNextForFamily env now family model p =
     (let count = length (accounts p); cursor = cursorByFamily p family
      in case scan (is_usable env now family model {}) (cyclic cursor count) p of
           (None, p) \<Rightarrow> (None, p)
         | (Some idx, p) \<Rightarrow> (Some idx, touch idx now (set_cursor family ((idx + 1) mod count) p)))"

definition sequential_scan ::
  "pool_env \<Rightarrow> jsnum \<Rightarrow> model_family \<Rightarrow> string option \<Rightarrow> nat set \<Rightarrow> nat \<Rightarrow> pool \<Rightarrow> nat option \<times> pool" where
  "sequential_scan env now family model blocked start p =
     (let count = length (accounts p)
      in case scan (is_usable env now family model blocked) (cyclic start count) p of
           (None, p) \<Rightarrow> (None, p)
         | (Some idx, p) \<Rightarrow>
             (Some idx, touch idx now (set_cursor family ((idx + 1) mod count) (set_current family (int idx) p))))"

definition getCurrentOrNextForFamilySequential ::
  "pool_env \<Rightarrow> jsnum \<Rightarrow> model_family \<Rightarrow> string option \<Rightarrow> nat set \<Rightarrow> pool \<Rightarrow> nat option \<times> pool" where
  "getCurrentOrNextForFamilySequential env now family model blockedIndexes p =
     (let count = length (accounts p); activeIndex = currentAccountIndexByFamily p family
      in if count = 0 then (None, p)
         else if 0 \<le> activeIndex \<and> activeIndex < int count
         then (case is_usable env now family model blockedIndexes (nat activeIndex) p of (usable, p) \<Rightarrow>
                 if usable then (Some (nat activeIndex), touch (nat activeIndex) now p)
                 else sequential_scan env now family model blockedIndexes (nat activeIndex) p)
         else sequential_scan env now family model blockedIndexes 0 p)"

text \<open>The metrics of one account for the hybrid score; disabled accounts have none.\<close>

definition metrics_step ::
  "pool_env \<Rightarrow> jsnum \<Rightarrow> model_family \<Rightarrow> string option \<Rightarrow> nat \<Rightarrow> account_metrics list \<times> pool
     \<Rightarrow> account_metrics list \<times> pool" where
  "metrics_step env now family model i st =
     (case st of (ms, p) \<Rightarrow>
        if ma_enabled (acc p i) = Some False \<or> \<not> hasEnabledWorkspaces (acc p i) then (ms, p)
        else (let (isAvailable, p) = passes_gates env now family model i p;
                  (key, p) = tracker_key_at env i p
              in (ms @ [\<lparr>am_index = ma_index (acc p i), am_trackerKey = Some key, am_isAvailable = isAvailable,
                         am_unavailableReason = None, am_lastUsed = lastUsed (acc p i)\<rparr>], p)))"

definition getCurrentOrNextForFamilyHybrid ::
  "pool_env \<Rightarrow> jsnum \<Rightarrow> nat \<Rightarrow> model_family \<Rightarrow> string option \<Rightarrow> hybrid_options \<Rightarrow> pool \<Rightarrow> nat option \<times> pool" where
  "getCurrentOrNextForFamilyHybrid env now pid family model options p =
     (let count = length (accounts p);
          (metrics, p) = fold (metrics_step env now family model) [0..<count] ([], p)
      in case selectHybridAccount id options pid now (healthTracker p) (tokenTracker p)
                (Some (getQuotaKey family model)) metrics of
           None \<Rightarrow> (None, p)
         | Some selected \<Rightarrow>
             if am_index selected < count
             then let i = am_index selected; idx = ma_index (acc p i)
                  in (Some i, touch i now (set_cursor family ((idx + 1) mod count) (set_current family (int idx) p)))
             else (None, p))"

section \<open>Pointers\<close>

definition getActiveIndexForFamily :: "pool \<Rightarrow> model_family \<Rightarrow> int" where
  "getActiveIndexForFamily p family =
     (let n = length (accounts p);
          index = currentAccountIndexByFamily p family;
          clamped = (if index < 0 \<or> index \<ge> int n then 0 else nat index);
          enabled = (\<lambda>i. ma_enabled (acc p i) \<noteq> Some False)
      in if n = 0 then -1
         else if enabled clamped then int clamped
         else case List.find enabled (map (\<lambda>step. (clamped + step) mod n) [1..<n]) of
                Some i \<Rightarrow> int i | None \<Rightarrow> -1)"

definition getCurrentAccountForFamily :: "pool \<Rightarrow> model_family \<Rightarrow> nat option" where
  "getCurrentAccountForFamily p family =
     (let index = currentAccountIndexByFamily p family
      in if index < 0 \<or> index \<ge> int (length (accounts p)) then None
         else if ma_enabled (acc p (nat index)) = Some False then None else Some (nat index))"

definition on_families :: "(model_family \<Rightarrow> 'a \<Rightarrow> 'a) \<Rightarrow> (model_family \<Rightarrow> 'a) \<Rightarrow> model_family \<Rightarrow> 'a" where
  "on_families g ptr f = (if f \<in> set MODEL_FAMILIES then g f (ptr f) else ptr f)"

definition setActiveIndex :: "jsnum \<Rightarrow> jsval \<Rightarrow> pool \<Rightarrow> nat option \<times> pool" where
  "setActiveIndex now index p =
     (case getAccountByIndex p index of
        None \<Rightarrow> (None, p)
      | Some i \<Rightarrow>
          if ma_enabled (acc p i) = Some False then (None, p)
          else (Some i, set_acc i ((acc p i)\<lparr>lastUsed := now, lastSwitchReason := Some SwitchRotation\<rparr>)
                 (p\<lparr>currentAccountIndexByFamily := on_families (\<lambda>_ _. int i) (currentAccountIndexByFamily p),
                    cursorByFamily := on_families (\<lambda>_ _. i) (cursorByFamily p)\<rparr>)))"

definition markSwitched :: "nat \<Rightarrow> switch_reason \<Rightarrow> model_family \<Rightarrow> pool \<Rightarrow> pool" where
  "markSwitched i reason family p =
     (let idx = ma_index (acc p i); count = length (accounts p);
          p = set_acc i ((acc p i)\<lparr>lastSwitchReason := Some reason\<rparr>) p;
          p = set_current family (int idx) p
      in if count > 0 then set_cursor family ((idx + 1) mod count) p else p)"

definition findNextEnabled :: "pool \<Rightarrow> nat \<Rightarrow> int" where
  "findNextEnabled p start =
     (let count = length (accounts p)
      in if count = 0 then -1
         else case List.find (\<lambda>i. ma_enabled (acc p i) \<noteq> Some False) (cyclic (start mod count) count) of
                Some i \<Rightarrow> int i | None \<Rightarrow> -1)"

definition setAccountEnabled :: "jsval \<Rightarrow> bool \<Rightarrow> pool \<Rightarrow> nat option \<times> pool" where
  "setAccountEnabled index enabled p =
     (case getAccountByIndex p index of
        None \<Rightarrow> (None, p)
      | Some i \<Rightarrow>
          (let wasEnabled = (ma_enabled (acc p i) \<noteq> Some False);
               a = (acc p i)\<lparr>ma_enabled := Some enabled\<rparr>;
               a = (if enabled \<and> \<not> wasEnabled then resetWorkspaces a else a);
               p = set_acc i a p;
               n = length (accounts p);
               next_after = (case List.find (\<lambda>j. ma_enabled (acc p j) \<noteq> Some False)
                               (map (\<lambda>step. (i + step) mod n) [1..<n]) of Some j \<Rightarrow> int j | None \<Rightarrow> -1)
           in (Some i,
               if enabled then p
               else p\<lparr>currentAccountIndexByFamily := on_families
                        (\<lambda>_ c. if c = int i \<and> next_after \<noteq> -1 then next_after else c) (currentAccountIndexByFamily p),
                      cursorByFamily := on_families
                        (\<lambda>_ c. if c = i \<and> next_after \<noteq> -1 then nat next_after else c) (cursorByFamily p)\<rparr>)))"

section \<open>Removal\<close>

definition reindex :: "managed_account list \<Rightarrow> managed_account list" where
  "reindex as = map (\<lambda>(i, a). a\<lparr>ma_index := i, runtimeTrackerKey :=
       (case runtimeTrackerKey a of Some (NumKey _) \<Rightarrow> None | k \<Rightarrow> k)\<rparr>) (enumerate 0 as)"

definition forget_trackers :: "tracker_key \<Rightarrow> pool \<Rightarrow> pool" where
  "forget_trackers key p = p\<lparr>healthTracker := health_clearAccountKey (healthTracker p) key,
     tokenTracker := token_clearAccountKey (tokenTracker p) key\<rparr>"

definition removed_cursor :: "nat \<Rightarrow> nat \<Rightarrow> nat \<Rightarrow> nat" where
  "removed_cursor idx n cursor =
     (let cursor = (if cursor > idx then cursor - 1 else cursor) in if cursor \<ge> n then 0 else cursor)"

definition removed_active :: "pool \<Rightarrow> nat \<Rightarrow> int \<Rightarrow> int" where
  "removed_active p idx active =
     (let n = length (accounts p);
          active = (if active > int idx then active - 1
                    else if active = int idx then findNextEnabled p (min idx (n - 1)) else active)
      in if active \<ge> int n then findNextEnabled p 0 else active)"

definition removeAccount :: "pool_env \<Rightarrow> nat \<Rightarrow> pool \<Rightarrow> bool \<times> pool" where
  "removeAccount env idx p =
     (if idx \<ge> length (accounts p) then (False, p)
      else
        let account = acc p idx;
            priorCursor = cursorByFamily p; priorActive = currentAccountIndexByFamily p;
            p = p\<lparr>accounts := take idx (accounts p) @ drop (Suc idx) (accounts p)\<rparr>;
            removedTrackerKey = fst (getRuntimeTrackerKey env account);
            p = forget_trackers removedTrackerKey p;
            removedIdentityKey = getRuntimeAccountIdentityKey (env_sha256 env) (accountId account) (ma_email account)
              (Some (ma_index account));
            p = (case removedIdentityKey of
                   Some k \<Rightarrow> if k \<noteq> removedTrackerKey then forget_trackers k p else p | None \<Rightarrow> p);
            p = (if truthy_string (circuitKeyId account)
                 then p\<lparr>circuitBreakers := removeCircuitBreaker (circuitBreakers p) (the (circuitKeyId account))\<rparr> else p);
            p = p\<lparr>healthTracker := health_clearNumericKeysAtOrAbove (healthTracker p) idx,
                  tokenTracker := token_clearNumericKeysAtOrAbove (tokenTracker p) idx,
                  accounts := reindex (accounts p)\<rparr>
        in if accounts p = []
           then (True, p\<lparr>cursorByFamily := on_families (\<lambda>_ _. 0) (cursorByFamily p),
                         currentAccountIndexByFamily := on_families (\<lambda>_ _. -1) (currentAccountIndexByFamily p)\<rparr>)
           else
             let n = length (accounts p);
                 retargeted = map (\<lambda>f. nat (removed_active p idx (priorActive f)))
                   (filter (\<lambda>f. priorActive f = int idx \<and> 0 \<le> removed_active p idx (priorActive f)
                      \<and> removed_active p idx (priorActive f) < int n) MODEL_FAMILIES)
             in (True, p\<lparr>cursorByFamily := on_families (\<lambda>_ c. removed_cursor idx n c) (cursorByFamily p),
                   currentAccountIndexByFamily := on_families (\<lambda>_ a. removed_active p idx a) (currentAccountIndexByFamily p),
                   accounts := map (\<lambda>(i, a). if i \<in> set retargeted then a\<lparr>lastSwitchReason := Some SwitchRotation\<rparr> else a)
                     (enumerate 0 (accounts p))\<rparr>))"

definition removeAccountByIndex :: "pool_env \<Rightarrow> jsval \<Rightarrow> pool \<Rightarrow> bool \<times> pool" where
  "removeAccountByIndex env index p =
     (case getAccountByIndex p index of None \<Rightarrow> (False, p) | Some i \<Rightarrow> removeAccount env i p)"

section \<open>Outcomes\<close>

definition recordSuccess ::
  "pool_env \<Rightarrow> jsnum \<Rightarrow> nat \<Rightarrow> model_family \<Rightarrow> string option \<Rightarrow> pool \<Rightarrow> pool" where
  "recordSuccess env now i family model p =
     (let (key, p) = tracker_key_at env i p;
          p = p\<lparr>healthTracker := health_recordSuccess (healthTracker p) now key (Some (getQuotaKey family model))\<rparr>;
          hadCooldownMetadata = (coolingDownUntil (acc p i) \<noteq> None \<or> cooldownReason (acc p i) \<noteq> None);
          hadAuthFailures = (nullish (consecutiveAuthFailures (acc p i)) 0 > 0);
          (isCoolingDown, a) = isAccountCoolingDown now (acc p i);
          a = (if \<not> isCoolingDown \<and> hadCooldownMetadata then clearAccountCooldown a else a);
          a = (if \<not> isCoolingDown \<and> hadAuthFailures then clearAuthFailures a else a);
          p = set_acc i a p;
          p = (if \<not> isCoolingDown \<and> (hadCooldownMetadata \<or> hadAuthFailures) then p\<lparr>saveScheduled := True\<rparr> else p);
          (b, ck, p) = account_breaker env now i p
      in put_breaker ck (breaker_recordSuccess b now) p)"

definition recordRateLimit ::
  "pool_env \<Rightarrow> jsnum \<Rightarrow> nat \<Rightarrow> model_family \<Rightarrow> string option \<Rightarrow> pool \<Rightarrow> pool" where
  "recordRateLimit env now i family model p =
     (let quotaKey = Some (getQuotaKey family model);
          (key, p) = tracker_key_at env i p
      in p\<lparr>healthTracker := health_recordRateLimit (healthTracker p) now key quotaKey,
           tokenTracker := drain (tokenTracker p) now key quotaKey 10\<rparr>)"

definition recordFailure ::
  "pool_env \<Rightarrow> jsnum \<Rightarrow> nat \<Rightarrow> model_family \<Rightarrow> string option \<Rightarrow> pool \<Rightarrow> pool" where
  "recordFailure env now i family model p =
     (let (key, p) = tracker_key_at env i p;
          p = p\<lparr>healthTracker := health_recordFailure (healthTracker p) now key (Some (getQuotaKey family model))\<rparr>;
          (b, ck, p) = account_breaker env now i p
      in put_breaker ck (breaker_recordFailure b now) p)"

datatype consume_result = ConsumeOk "probe option" | TokenExhausted | CircuitIsOpen

definition consumeTokenWithReason ::
  "pool_env \<Rightarrow> jsnum \<Rightarrow> nat \<Rightarrow> model_family \<Rightarrow> string option \<Rightarrow> bool \<Rightarrow> pool \<Rightarrow> consume_result \<times> pool" where
  "consumeTokenWithReason env now i family model bypassTokenBucket p =
     (let quotaKey = Some (getQuotaKey family model);
          (key, p) = tracker_key_at env i p;
          (granted, tt) = (if bypassTokenBucket then (True, tokenTracker p) else tryConsume (tokenTracker p) now key quotaKey);
          p = p\<lparr>tokenTracker := tt\<rparr>
      in if \<not> granted then (TokenExhausted, p)
         else let (b, ck, p) = account_breaker env now i p;
                  (admission, probe, b) = tryCanExecute b now;
                  p = put_breaker ck b p
              in case admission of
                   Rejected _ _ \<Rightarrow>
                     (CircuitIsOpen,
                      if bypassTokenBucket then p
                      else p\<lparr>tokenTracker := snd (refundToken (tokenTracker p) now key quotaKey)\<rparr>)
                 | Admitted \<Rightarrow> (ConsumeOk probe, p))"

definition account_refundToken ::
  "pool_env \<Rightarrow> jsnum \<Rightarrow> nat \<Rightarrow> model_family \<Rightarrow> string option \<Rightarrow> pool \<Rightarrow> bool \<times> pool" where
  "account_refundToken env now i family model p =
     (let (key, p) = tracker_key_at env i p;
          (ok, tt) = refundToken (tokenTracker p) now key (Some (getQuotaKey family model))
      in (ok, p\<lparr>tokenTracker := tt\<rparr>))"

definition markAccountCoolingDown :: "nat \<Rightarrow> jsnum \<Rightarrow> jsnum \<Rightarrow> cooldown_reason \<Rightarrow> pool \<Rightarrow> pool" where
  "markAccountCoolingDown i now cooldownMs reason p = set_acc i (markCoolingDown (acc p i) now cooldownMs reason) p"

definition clearAccountTransientState :: "pool \<Rightarrow> pool" where
  "clearAccountTransientState p =
     (if accounts p = [] then p
      else p\<lparr>accounts := map (\<lambda>a. (clearAllRateLimits (clearAccountCooldown a))\<lparr>lastRateLimitReason := None\<rparr>) (accounts p),
             saveScheduled := True\<rparr>)"

definition resetVolatileRuntimeState :: "jsnum \<Rightarrow> pool \<Rightarrow> pool" where
  "resetVolatileRuntimeState now p = p\<lparr>healthTracker := health_clear (healthTracker p),
     tokenTracker := token_clear (tokenTracker p), circuitBreakers := resetAllCircuitBreakers (circuitBreakers p) now\<rparr>"

definition shouldShowAccountToast :: "int \<Rightarrow> jsnum \<Rightarrow> jsnum \<Rightarrow> pool \<Rightarrow> bool" where
  "shouldShowAccountToast accountIndex debounceMs now p \<longleftrightarrow>
     \<not> (accountIndex = lastToastAccountIndex p \<and> now - lastToastTime p < debounceMs)"

definition markToastShown :: "int \<Rightarrow> jsnum \<Rightarrow> pool \<Rightarrow> pool" where
  "markToastShown accountIndex now p = p\<lparr>lastToastAccountIndex := accountIndex, lastToastTime := now\<rparr>"

end
