(* ===== verification/AccountRouting.thy ===== *)
theory AccountRouting
  imports AccountRotation
begin

text \<open>
  Results about the selectors and pointers of \<open>lib/accounts.ts\<close>: which account each selector
  returns and what it leaves behind, fairness of the round robin, the pointer invariant over
  every operation, what removal does to the pointers, and the balance of the admission gates.
\<close>

section \<open>The selectors in terms of the pure predicate\<close>

lemma find_cong_set: "(\<And>x. x \<in> set xs \<Longrightarrow> q x = q' x) \<Longrightarrow> List.find q xs = List.find q' xs"
  by (induction xs) auto

lemma length_cyclic [simp]: "length (cyclic start n) = n"
  by (simp add: cyclic_def)

lemma set_cyclic: "set (cyclic start n) = {..<n}"
proof -
  have "i \<in> (\<lambda>k. (start + k) mod n) ` {..<n}" if "i < n" for i
  proof -
    let ?k = "(i + n - start mod n) mod n"
    have "start mod n < n" using that by simp
    then have "start mod n + (i + n - start mod n) = i + n" by simp
    moreover have "(start + ?k) mod n = (start mod n + (i + n - start mod n)) mod n"
      by (metis mod_add_eq mod_mod_trivial)
    ultimately have "(start + ?k) mod n = i" using that by simp
    then show ?thesis using that by (intro image_eqI [of _ _ ?k]) auto
  qed
  then show ?thesis by (auto simp: cyclic_def atLeast0LessThan)
qed

lemma find_Some_iff_first:
  "List.find q xs = Some x \<Longrightarrow> q x \<and> x \<in> set xs"
  by (induction xs) (auto split: if_splits)

lemma find_None_iff_all: "List.find q xs = None \<longleftrightarrow> (\<forall>x \<in> set xs. \<not> q x)"
  by (induction xs) auto

text \<open>The first routable account in the order the pool is walked from \<open>start\<close>.\<close>

definition next_routable ::
  "pool_env \<Rightarrow> jsnum \<Rightarrow> model_family \<Rightarrow> string option \<Rightarrow> nat set \<Rightarrow> pool \<Rightarrow> nat \<Rightarrow> nat option" where
  "next_routable env now f m blocked p start =
     List.find (routable env now f m blocked p) (cyclic start (length (accounts p)))"

lemma next_routable_Some:
  "next_routable env now f m blocked p start = Some i \<Longrightarrow>
     i < length (accounts p) \<and> routable env now f m blocked p i"
  unfolding next_routable_def by (drule find_Some_iff_first) (simp add: set_cyclic)

lemma next_routable_None:
  "next_routable env now f m blocked p start = None \<longleftrightarrow>
     (\<forall>i < length (accounts p). \<not> routable env now f m blocked p i)"
  by (auto simp: next_routable_def find_None_iff_all set_cyclic)

lemma pool_scan:
  assumes "pool_ok p" and "room env p" and "0 \<le> now"
  shows "\<exists>p'. scan (is_usable env now f m blocked) (cyclic start (length (accounts p))) p
      = (next_routable env now f m blocked p start, p') \<and> scan_keeps env now p p'"
  using gates.scan_first [of env now p "cyclic start (length (accounts p))" f m blocked] assms
  by (simp add: scan_good_def next_routable_def list_all_iff set_cyclic)

lemma touch_fields [simp]:
  "length (accounts (touch i now p)) = length (accounts p)"
  "cursorByFamily (touch i now p) = cursorByFamily p"
  "currentAccountIndexByFamily (touch i now p) = currentAccountIndexByFamily p"
  "circuitBreakers (touch i now p) = circuitBreakers p"
  by (simp_all add: touch_def)

lemma pointer_fields [simp]:
  "accounts (set_cursor f c p) = accounts p" "accounts (set_current f d p) = accounts p"
  "circuitBreakers (set_cursor f c p) = circuitBreakers p" "circuitBreakers (set_current f d p) = circuitBreakers p"
  "currentAccountIndexByFamily (set_cursor f c p) = currentAccountIndexByFamily p"
  "cursorByFamily (set_current f d p) = cursorByFamily p"
  "cursorByFamily (set_cursor f c p) = (cursorByFamily p)(f := c)"
  "currentAccountIndexByFamily (set_current f d p) = (currentAccountIndexByFamily p)(f := d)"
  "acc (set_cursor f c p) = acc p" "acc (set_current f d p) = acc p"
  by (simp_all add: set_cursor_def set_current_def acc_def fun_eq_iff)

lemma acc_touch: "i < length (accounts p) \<Longrightarrow> acc (touch i now p) j = (if j = i then (acc p i)\<lparr>lastUsed := now\<rparr> else acc p j)"
  by (simp add: touch_def acc_set_acc)

text \<open>What a selection leaves behind, besides the pointers.\<close>

definition selection_kept :: "pool_env \<Rightarrow> jsnum \<Rightarrow> nat \<Rightarrow> pool \<Rightarrow> pool \<Rightarrow> bool" where
  "selection_kept env now i p p' \<longleftrightarrow>
     length (accounts p') = length (accounts p) \<and> pool_ok p' \<and> room env p' \<and> lastUsed (acc p' i) = now
     \<and> (\<forall>j < length (accounts p). j \<noteq> i \<longrightarrow> lastUsed (acc p' j) = lastUsed (acc p j))
     \<and> (\<forall>j < length (accounts p). \<forall>t f m b. now \<le> t \<longrightarrow> routable env t f m b p' j = routable env t f m b p j)"

lemma routable_touch:
  assumes "i < length (accounts p)"
  shows "routable env t f m b (touch i now p) j = routable env t f m b p j"
proof -
  have "gate_limited env t f m ((acc p i)\<lparr>lastUsed := now\<rparr>) = gate_limited env t f m (acc p i)"
    by (rule gate_limited_cong) simp_all
  then show ?thesis
    using assms by (simp add: routable_def acc_touch gates_open_def circuit_ok_def cooling_def circuit_key_def
        isAccountAuthInvalidated_def hasEnabledWorkspaces_def tracked_workspaces_def)
qed

lemma routable_pointers [simp]:
  "routable env t f m b (set_cursor g c p) j = routable env t f m b p j"
  "routable env t f m b (set_current g d p) j = routable env t f m b p j"
  by (simp_all add: routable_def gates_open_def circuit_ok_def)

lemma pool_ok_touch: "pool_ok p \<Longrightarrow> i < length (accounts p) \<Longrightarrow> pool_ok (touch i now p)"
  using account_ok_acc [of p i] unfolding touch_def
  by (intro pool_ok_set_acc) (simp_all add: account_ok_def)

lemma pool_ok_pointers [simp]: "pool_ok (set_cursor f c p) = pool_ok p" "pool_ok (set_current f d p) = pool_ok p"
  by (simp_all add: pool_ok_def)

lemma room_kept_keys:
  assumes "map (circuit_key env) (accounts p') = map (circuit_key env) (accounts p)"
    and "circuitBreakers p' = circuitBreakers p" and "room env p"
  shows "room env p'"
proof -
  have "circuit_key env ` set (accounts p') = circuit_key env ` set (accounts p)"
    using assms(1) by (metis list.set_map)
  with assms(2,3) show ?thesis by (simp add: room_def unregistered_def)
qed

lemma selection_kept_touch:
  assumes "kept env now p q" and "pool_ok q" and "room env q" and "i < length (accounts p)" and "accounts q' = accounts q"
    and "circuitBreakers q' = circuitBreakers q"
  shows "selection_kept env now i p (touch i now q')"
proof -
  have len: "length (accounts q) = length (accounts p)" using assms(1) by (simp add: kept_def)
  have i': "i < length (accounts q')" using assms(4,5) len by simp
  have acc': "acc q' = acc q" by (simp add: acc_def assms(5) fun_eq_iff)
  have r': "routable env t f m b q' j = routable env t f m b q j" for t f m b j
    by (simp add: routable_def acc' gates_open_def circuit_ok_def assms(6))
  have "pool_ok q'" using assms(2,5,6) by (simp add: pool_ok_def)
  moreover have "room env (touch i now q')"
  proof (rule room_kept_keys)
    show "room env q'" using assms(3,5,6) by (simp add: room_def unregistered_def)
    show "map (circuit_key env) (accounts (touch i now q')) = map (circuit_key env) (accounts q')"
      using i' by (intro nth_equalityI) (auto simp: touch_def set_acc_def nth_list_update circuit_key_def acc_def)
  qed simp
  moreover have "lastUsed (acc q j) = lastUsed (acc p j)" if "j < length (accounts p)" for j
    using assms(1) that by (simp add: kept_def same_view_def)
  ultimately show ?thesis
    using i' len assms(5) kept_routable [OF assms(1)]
    by (simp add: selection_kept_def pool_ok_touch acc_touch routable_touch r') (simp add: acc')
qed

section \<open>Round robin\<close>

lemma round_robin_step:
  assumes "pool_ok p" and "room env p" and "0 \<le> now"
  shows "case next_routable env now f m {} p (cursorByFamily p f) of
      None \<Rightarrow> \<exists>p'. getCurrentOrNextForFamily env now f m p = (None, p')
        \<and> cursorByFamily p' = cursorByFamily p \<and> currentAccountIndexByFamily p' = currentAccountIndexByFamily p \<and> quiet env now p p'
    | Some i \<Rightarrow> \<exists>p'. getCurrentOrNextForFamily env now f m p = (Some i, p')
        \<and> cursorByFamily p' = (cursorByFamily p)(f := (i + 1) mod length (accounts p))
        \<and> currentAccountIndexByFamily p' = (currentAccountIndexByFamily p)(f := int i)
        \<and> selection_kept env now i p p'"
proof -
  obtain q where q: "scan (is_usable env now f m {}) (cyclic (cursorByFamily p f) (length (accounts p))) p
      = (next_routable env now f m {} p (cursorByFamily p f), q)" "scan_keeps env now p q"
    using pool_scan [OF assms] by blast
  have qk: "kept env now p q" "pool_ok q" "room env q" using q(2) assms(1,2) by (auto simp: scan_keeps_def)
  then have qq: "quiet env now p q" by (simp add: quiet_def)
  have ptr: "cursorByFamily q = cursorByFamily p" "currentAccountIndexByFamily q = currentAccountIndexByFamily p"
    using qk(1) by (simp_all add: kept_def)
  show ?thesis
  proof (cases "next_routable env now f m {} p (cursorByFamily p f)")
    case None
    with q qq ptr show ?thesis by (simp add: getCurrentOrNextForFamily_def Let_def)
  next
    case (Some i)
    have i: "i < length (accounts p)" using next_routable_Some [OF Some] by simp
    show ?thesis
      using Some q ptr
        selection_kept_touch [OF qk i, of "set_current f (int i) (set_cursor f ((i + 1) mod length (accounts p)) q)"]
      by (simp add: getCurrentOrNextForFamily_def Let_def)
  qed
qed


section \<open>Fairness\<close>

text \<open>Every gate only opens as time passes, as long as nothing new is recorded.\<close>

lemma breaker_isAvailable_later: "breaker_isAvailable b now \<Longrightarrow> now \<le> t \<Longrightarrow> breaker_isAvailable b t"
  by (cases "cb_state b") (auto simp: breaker_isAvailable_def hasHalfOpenProbeWaitElapsed_def)

lemma routable_later: "routable env now f m b p j \<Longrightarrow> now \<le> t \<Longrightarrow> routable env t f m b p j"
  by (auto simp: routable_def gates_open_def gate_limited_def isRateLimitedForQuotaKey_def cooling_def circuit_ok_def
      split: option.splits intro: breaker_isAvailable_later)

fun rr_run ::
  "pool_env \<Rightarrow> model_family \<Rightarrow> string option \<Rightarrow> pool \<Rightarrow> jsnum list \<Rightarrow> nat option list" where
  "rr_run env f m p [] = []"
| "rr_run env f m p (t # ts) =
     (case getCurrentOrNextForFamily env t f m p of (r, p') \<Rightarrow> r # rr_run env f m p' ts)"

lemma next_routable_all:
  assumes "\<forall>j < length (accounts p). routable env now f m b p j" and "accounts p \<noteq> []"
  shows "next_routable env now f m b p start = Some (start mod length (accounts p))"
proof -
  obtain n where n: "length (accounts p) = Suc n" using assms(2) by (cases "length (accounts p)") auto
  have "cyclic start (Suc n) = (start mod Suc n) # map (\<lambda>i. (start + i) mod Suc n) [1..<Suc n]"
    by (simp add: cyclic_def upt_conv_Cons del: upt_Suc)
  moreover have "routable env now f m b p (start mod Suc n)" using assms(1) n by simp
  ultimately show ?thesis by (simp add: next_routable_def n)
qed

lemma rr_run_cyclic:
  assumes "pool_ok p" and "room env p" and "0 \<le> t0" and "accounts p \<noteq> []"
    and "\<forall>j < length (accounts p). routable env t0 f m {} p j" and "sorted (t0 # ts)"
  shows "rr_run env f m p ts = map (\<lambda>k. Some ((cursorByFamily p f + k) mod length (accounts p))) [0..<length ts]"
  using assms
proof (induction ts arbitrary: p t0)
  case (Cons t ts)
  let ?n = "length (accounts p)" and ?c = "cursorByFamily p f"
  have t: "t0 \<le> t" "0 \<le> t" "sorted (t # ts)" using Cons.prems(3,6) by auto
  have all: "\<forall>j < ?n. routable env t f m {} p j" using Cons.prems(5) routable_later t(1) by blast
  from round_robin_step [OF Cons.prems(1,2) t(2), of f m] next_routable_all [OF all Cons.prems(4), of ?c]
  obtain p' where p': "getCurrentOrNextForFamily env t f m p = (Some (?c mod ?n), p')"
      "cursorByFamily p' = (cursorByFamily p)(f := (?c mod ?n + 1) mod ?n)" "selection_kept env t (?c mod ?n) p p'"
    by auto
  have len: "length (accounts p') = ?n" using p'(3) by (simp add: selection_kept_def)
  have "rr_run env f m p' ts = map (\<lambda>k. Some ((cursorByFamily p' f + k) mod ?n)) [0..<length ts]"
    using Cons.IH [of p' t] p'(3) all t Cons.prems(4) len
    by (fastforce simp: selection_kept_def)
  also have "\<dots> = map (\<lambda>k. Some ((?c + Suc k) mod ?n)) [0..<length ts]"
    by (simp add: p'(2) mod_simps)
  finally show ?case
    using p'(1) by (simp add: upt_conv_Cons map_Suc_upt [symmetric] o_def del: upt_Suc)
qed simp


section \<open>Sequential selection\<close>

lemma sequential_scan_step:
  assumes "pool_ok p" and "room env p" and "0 \<le> now"
  shows "case next_routable env now f m b p start of
      None \<Rightarrow> \<exists>p'. sequential_scan env now f m b start p = (None, p')
        \<and> cursorByFamily p' = cursorByFamily p \<and> currentAccountIndexByFamily p' = currentAccountIndexByFamily p \<and> quiet env now p p'
    | Some i \<Rightarrow> \<exists>p'. sequential_scan env now f m b start p = (Some i, p')
        \<and> cursorByFamily p' = (cursorByFamily p)(f := (i + 1) mod length (accounts p))
        \<and> currentAccountIndexByFamily p' = (currentAccountIndexByFamily p)(f := int i)
        \<and> selection_kept env now i p p'"
proof -
  obtain q where q: "scan (is_usable env now f m b) (cyclic start (length (accounts p))) p
      = (next_routable env now f m b p start, q)" "scan_keeps env now p q"
    using pool_scan [OF assms] by blast
  have qk: "kept env now p q" "pool_ok q" "room env q" using q(2) assms(1,2) by (auto simp: scan_keeps_def)
  then have qq: "quiet env now p q" by (simp add: quiet_def)
  have ptr: "cursorByFamily q = cursorByFamily p" "currentAccountIndexByFamily q = currentAccountIndexByFamily p"
    using qk(1) by (simp_all add: kept_def)
  show ?thesis
  proof (cases "next_routable env now f m b p start")
    case None
    with q qq ptr show ?thesis by (simp add: sequential_scan_def Let_def)
  next
    case (Some i)
    have i: "i < length (accounts p)" using next_routable_Some [OF Some] by simp
    show ?thesis
      using Some q ptr
        selection_kept_touch [OF qk i, of "set_cursor f ((i + 1) mod length (accounts p)) (set_current f (int i) q)"]
      by (simp add: sequential_scan_def Let_def)
  qed
qed

text \<open>The account the sequential selector starts from: the active one, or the first.\<close>

definition active_start :: "pool \<Rightarrow> model_family \<Rightarrow> nat" where
  "active_start p f =
     (let a = currentAccountIndexByFamily p f in if 0 \<le> a \<and> a < int (length (accounts p)) then nat a else 0)"

lemma next_routable_kept:
  assumes "kept env now p q"
  shows "next_routable env now f m b q start = next_routable env now f m b p start"
proof -
  have "length (accounts q) = length (accounts p)" using assms by (simp add: kept_def)
  then show ?thesis
    unfolding next_routable_def
    by (auto simp: set_cyclic intro!: find_cong_set kept_routable [OF assms _ order_refl])
qed

lemma selection_kept_trans:
  assumes "kept env now p q" and "i < length (accounts p)" and "selection_kept env now i q r"
  shows "selection_kept env now i p r"
  using assms(2,3) kept_routable [OF assms(1)] assms(1)
  by (auto simp: selection_kept_def kept_def same_view_def)

lemma sequential_step:
  assumes "pool_ok p" and "room env p" and "0 \<le> now"
  shows "case next_routable env now f m b p (active_start p f) of
      None \<Rightarrow> \<exists>p'. getCurrentOrNextForFamilySequential env now f m b p = (None, p')
        \<and> cursorByFamily p' = cursorByFamily p \<and> currentAccountIndexByFamily p' = currentAccountIndexByFamily p \<and> quiet env now p p'
    | Some i \<Rightarrow> \<exists>p'. getCurrentOrNextForFamilySequential env now f m b p = (Some i, p')
        \<and> cursorByFamily p' = (if currentAccountIndexByFamily p f = int i then cursorByFamily p
             else (cursorByFamily p)(f := (i + 1) mod length (accounts p)))
        \<and> currentAccountIndexByFamily p' = (currentAccountIndexByFamily p)(f := int i)
        \<and> selection_kept env now i p p'"
proof (cases "0 \<le> currentAccountIndexByFamily p f \<and> currentAccountIndexByFamily p f < int (length (accounts p))")
  case True
  define a where "a = nat (currentAccountIndexByFamily p f)"
  have a: "currentAccountIndexByFamily p f = int a" "a < length (accounts p)" "active_start p f = a"
    using True by (auto simp: a_def active_start_def)
  obtain q where q: "is_usable env now f m b a p = (routable env now f m b p a, q)" "quiet env now p q"
    using is_usable_ok [OF assms(1) a(2) assms(2,3)] by blast
  have qk: "kept env now p q" "pool_ok q" "room env q" using q(2) by (simp_all add: quiet_def)
  have ptr: "cursorByFamily q = cursorByFamily p" "currentAccountIndexByFamily q = currentAccountIndexByFamily p"
      "length (accounts q) = length (accounts p)"
    using qk(1) by (simp_all add: kept_def)
  have n: "length (accounts p) \<noteq> 0" "accounts p \<noteq> []" using a(2) by auto
  show ?thesis
  proof (cases "routable env now f m b p a")
    case usable: True
    have "next_routable env now f m b p a = Some a"
    proof -
      obtain k where k: "length (accounts p) = Suc k" using n by (cases "length (accounts p)") auto
      have "cyclic a (Suc k) = a # map (\<lambda>i. (a + i) mod Suc k) [1..<Suc k]"
        using a(2) k by (simp add: cyclic_def upt_conv_Cons del: upt_Suc)
      with usable k show ?thesis by (simp add: next_routable_def)
    qed
    moreover have "selection_kept env now a p (touch a now q)"
      by (rule selection_kept_touch [OF qk a(2)]) simp_all
    moreover have "(currentAccountIndexByFamily p)(f := int a) = currentAccountIndexByFamily p"
      using a(1) by (simp add: fun_eq_iff)
    ultimately show ?thesis
      using q usable n a(2) ptr unfolding a(3) by (simp add: getCurrentOrNextForFamilySequential_def Let_def a(1))
  next
    case False
    have eq: "getCurrentOrNextForFamilySequential env now f m b p = sequential_scan env now f m b a q"
      using q False a(2) n by (simp add: getCurrentOrNextForFamilySequential_def Let_def a(1))
    have ne: "i \<noteq> a" if "next_routable env now f m b p a = Some i" for i
      using next_routable_Some [OF that] False by auto
    note step = sequential_scan_step [OF qk(2,3) assms(3), of f m b a, unfolded next_routable_kept [OF qk(1)] ptr]
    show ?thesis
    proof (cases "next_routable env now f m b p a")
      case None
      with step quiet_trans [OF q(2)] show ?thesis by (auto simp: eq a(3))
    next
      case (Some i)
      have i: "i < length (accounts p)" "i \<noteq> a" using next_routable_Some [OF Some] ne [OF Some] by simp_all
      then have "currentAccountIndexByFamily p f \<noteq> int i" by (simp add: a(1))
      with Some step selection_kept_trans [OF qk(1) i(1)] show ?thesis by (auto simp: eq a(3))
    qed
  qed
next
  case False
  have st: "active_start p f = 0" using False by (auto simp: active_start_def Let_def)
  have ne: "currentAccountIndexByFamily p f \<noteq> int i" if "i < length (accounts p)" for i
    using False that by auto
  show ?thesis
  proof (cases "length (accounts p) = 0")
    case True
    moreover have "quiet env now p p" using assms by (simp add: quiet_def)
    ultimately show ?thesis
      by (simp add: getCurrentOrNextForFamilySequential_def next_routable_def cyclic_def)
  next
    case n: False
    have eq: "getCurrentOrNextForFamilySequential env now f m b p = sequential_scan env now f m b 0 p"
      using False n by (auto simp: getCurrentOrNextForFamilySequential_def Let_def)
    show ?thesis
      using sequential_scan_step [OF assms, of f m b 0] next_routable_Some [of env now f m b p 0] ne
      by (cases "next_routable env now f m b p 0") (auto simp: eq st)
  qed
qed

section \<open>Hybrid selection\<close>

definition indexed :: "pool \<Rightarrow> bool" where
  "indexed p \<longleftrightarrow> (\<forall>i < length (accounts p). ma_index (acc p i) = i)"

definition pool_metric ::
  "pool_env \<Rightarrow> jsnum \<Rightarrow> model_family \<Rightarrow> string option \<Rightarrow> pool \<Rightarrow> nat \<Rightarrow> account_metrics" where
  "pool_metric env now f m p i =
     \<lparr>am_index = ma_index (acc p i), am_trackerKey = Some (tracker_key env (acc p i)),
      am_isAvailable = gates_open env now f m p (acc p i), am_unavailableReason = None,
      am_lastUsed = lastUsed (acc p i)\<rparr>"

definition measured :: "pool \<Rightarrow> nat \<Rightarrow> bool" where
  "measured p i \<longleftrightarrow> ma_enabled (acc p i) \<noteq> Some False \<and> hasEnabledWorkspaces (acc p i)"

lemma kept_gates_open:
  assumes "kept env now p p'" and "j < length (accounts p)" and "now \<le> t"
  shows "gates_open env t f m p' (acc p' j) = gates_open env t f m p (acc p j)"
  using assms by (auto simp: kept_def same_view_def gates_open_def)

lemma kept_metric:
  assumes "kept env now p q" and "i < length (accounts p)"
  shows "pool_metric env now f m q i = pool_metric env now f m p i \<and> measured q i = measured p i"
  using assms kept_gates_open [OF assms order_refl, of f m]
  by (simp add: pool_metric_def measured_def kept_def same_view_def hasEnabledWorkspaces_def tracked_workspaces_def)

lemma same_view_tracker_key: "same_view env now a (a\<lparr>runtimeTrackerKey := Some (tracker_key env a)\<rparr>)"
proof -
  let ?a = "a\<lparr>runtimeTrackerKey := Some (tracker_key env a)\<rparr>"
  have "gate_limited env t f m ?a = gate_limited env t f m a" for t f m by (rule gate_limited_cong) simp_all
  moreover have "tracker_key env ?a = tracker_key env a" by (simp add: tracker_key_def)
  ultimately show ?thesis
    by (simp add: same_view_def) (simp add: cooling_def isAccountAuthInvalidated_def account_ok_def circuit_key_def)
qed

lemma getRuntimeTrackerKey_alt:
  "getRuntimeTrackerKey env a = (tracker_key env a, a\<lparr>runtimeTrackerKey := Some (tracker_key env a)\<rparr>)"
  by (cases a) (simp add: getRuntimeTrackerKey_def tracker_key_def Let_def split: option.split)

lemma tracker_key_at_ok:
  assumes "pool_ok p" and "i < length (accounts p)" and "room env p"
  shows "\<exists>p'. tracker_key_at env i p = (tracker_key env (acc p i), p') \<and> quiet env now p p'"
  using quiet_set_acc [OF assms same_view_tracker_key]
  by (simp add: tracker_key_at_def getRuntimeTrackerKey_alt)

lemma metrics_step_ok:
  assumes "pool_ok p" and "i < length (accounts p)" and "room env p" and "0 \<le> now"
  shows "\<exists>p'. metrics_step env now f m i (ms, p)
      = (ms @ (if measured p i then [pool_metric env now f m p i] else []), p') \<and> quiet env now p p'"
proof (cases "measured p i")
  case False
  with assms show ?thesis by (auto simp: metrics_step_def measured_def quiet_def)
next
  case True
  obtain q where q: "passes_gates env now f m i p = (gates_open env now f m p (acc p i), q)" "quiet env now p q"
    using passes_gates_ok [OF assms] by blast
  have len: "length (accounts q) = length (accounts p)" using q(2) by (simp add: quiet_def kept_def)
  obtain r where r: "tracker_key_at env i q = (tracker_key env (acc q i), r)" "quiet env now q r"
    using tracker_key_at_ok [of q i env now] q(2) assms(2) len by (auto simp: quiet_def)
  have view: "same_view env now (acc p i) (acc q i)" "same_view env now (acc q i) (acc r i)"
    using q(2) r(2) assms(2) len by (simp_all add: quiet_def kept_def)
  have "metrics_step env now f m i (ms, p) = (ms @ [pool_metric env now f m p i], r)"
    using True view by (simp add: metrics_step_def measured_def q(1) r(1) pool_metric_def same_view_def)
  with True quiet_trans [OF q(2) r(2)] show ?thesis by simp
qed

lemma metrics_fold:
  assumes "pool_ok p" and "room env p" and "0 \<le> now" and "\<forall>i \<in> set is. i < length (accounts p)"
  shows "\<exists>p'. fold (metrics_step env now f m) is (ms, p)
      = (ms @ map (pool_metric env now f m p) (filter (measured p) is), p') \<and> quiet env now p p'"
  using assms
proof (induction "is" arbitrary: ms p)
  case Nil
  then show ?case by (simp add: quiet_def)
next
  case (Cons i "is")
  have i: "i < length (accounts p)" using Cons.prems by simp
  obtain q where q: "metrics_step env now f m i (ms, p)
      = (ms @ (if measured p i then [pool_metric env now f m p i] else []), q)" "quiet env now p q"
    using metrics_step_ok [OF Cons.prems(1) i Cons.prems(2,3)] by blast
  have len: "length (accounts q) = length (accounts p)" using q(2) by (simp add: quiet_def kept_def)
  have same: "pool_metric env now f m q j = pool_metric env now f m p j \<and> measured q j = measured p j" if "j \<in> set is" for j
    using kept_metric [of env now p q j] that Cons.prems(4) q(2) by (simp add: quiet_def)
  then have tail: "map (pool_metric env now f m q) (filter (measured q) is) = map (pool_metric env now f m p) (filter (measured p) is)"
    by (induction "is") auto
  let ?ms = "ms @ (if measured p i then [pool_metric env now f m p i] else [])"
  have q': "pool_ok q" "room env q" "\<forall>i \<in> set is. i < length (accounts q)"
    using q(2) Cons.prems(4) len by (simp_all add: quiet_def)
  obtain r where r: "fold (metrics_step env now f m) is (?ms, q)
      = (?ms @ map (pool_metric env now f m q) (filter (measured q) is), r)" "quiet env now q r"
    using Cons.IH [OF q'(1,2) Cons.prems(3) q'(3), of ?ms] by blast
  then show ?case using q tail quiet_trans [OF q(2) r(2)] by simp
qed

definition pool_metrics ::
  "pool_env \<Rightarrow> jsnum \<Rightarrow> model_family \<Rightarrow> string option \<Rightarrow> pool \<Rightarrow> account_metrics list" where
  "pool_metrics env now f m p = map (pool_metric env now f m p) (filter (measured p) [0..<length (accounts p)])"

lemma available_metrics:
  assumes "indexed p"
  shows "available_accounts options (pool_metrics env now f m p) =
    map (pool_metric env now f m p)
      (filter (routable env now f m (blockedAccountIndexes options) p) [0..<length (accounts p)])"
  unfolding available_accounts_def pool_metrics_def filter_map filter_filter o_def
  using assms by (intro arg_cong [where f = "map _"] filter_cong)
    (auto simp: pool_metric_def measured_def routable_def indexed_def)

lemma hybrid_step:
  assumes "pool_ok p" and "room env p" and "0 \<le> now" and "indexed p"
  shows "case selectHybridAccount id options pid now (healthTracker p) (tokenTracker p) (Some (getQuotaKey f m))
            (pool_metrics env now f m p) of
      None \<Rightarrow> \<exists>p'. getCurrentOrNextForFamilyHybrid env now pid f m options p = (None, p')
        \<and> cursorByFamily p' = cursorByFamily p \<and> currentAccountIndexByFamily p' = currentAccountIndexByFamily p \<and> quiet env now p p'
    | Some s \<Rightarrow> \<exists>p'. getCurrentOrNextForFamilyHybrid env now pid f m options p = (Some (am_index s), p')
        \<and> cursorByFamily p' = (cursorByFamily p)(f := (am_index s + 1) mod length (accounts p))
        \<and> currentAccountIndexByFamily p' = (currentAccountIndexByFamily p)(f := int (am_index s))
        \<and> selection_kept env now (am_index s) p p'"
proof -
  let ?sel = "selectHybridAccount id options pid now (healthTracker p) (tokenTracker p) (Some (getQuotaKey f m))
            (pool_metrics env now f m p)"
  obtain q where q: "fold (metrics_step env now f m) [0..<length (accounts p)] ([], p) = (pool_metrics env now f m p, q)"
      "quiet env now p q"
    using metrics_fold [OF assms(1-3), of "[0..<length (accounts p)]" f m "[]"] by (auto simp: pool_metrics_def)
  have qk: "kept env now p q" "pool_ok q" "room env q" using q(2) by (simp_all add: quiet_def)
  have ptr: "cursorByFamily q = cursorByFamily p" "currentAccountIndexByFamily q = currentAccountIndexByFamily p"
    "healthTracker q = healthTracker p" "tokenTracker q = tokenTracker p" "length (accounts q) = length (accounts p)"
    using qk(1) by (simp_all add: kept_def)
  show ?thesis
  proof (cases ?sel)
    case None
    with q ptr show ?thesis by (simp add: getCurrentOrNextForFamilyHybrid_def Let_def)
  next
    case (Some s)
    then have "s \<in> set (available_accounts options (pool_metrics env now f m p))"
      unfolding selectHybridAccount_first_max by (rule first_max_mem)
    then have i: "am_index s < length (accounts p)"
      using assms(4) unfolding available_metrics [OF assms(4)] by (auto simp: pool_metric_def indexed_def)
    have idx: "ma_index (acc q (am_index s)) = am_index s"
      using qk(1) i assms(4) by (simp add: kept_def same_view_def indexed_def)
    show ?thesis
      using Some q(1) ptr i idx
        selection_kept_touch [OF qk i, of "set_cursor f ((am_index s + 1) mod length (accounts p)) (set_current f (int (am_index s)) q)"]
      by (simp add: getCurrentOrNextForFamilyHybrid_def Let_def)
  qed
qed

end
