(* ===== verification/AccountPointers.thy ===== *)
theory AccountPointers
  imports AccountRouting
begin

text \<open>
  The rotation pointers of \<open>lib/accounts.ts\<close> over every operation of \<open>AccountRotation\<close>: account
  \<open>i\<close> of the pool carries index \<open>i\<close>, every cursor is a position of the pool (0 when it is empty)
  and every active index is a position or -1.  \<open>same_routing\<close> is the frame of the operations that
  touch accounts and trackers only.
\<close>

section \<open>Operations\<close>

datatype pool_op =
    OpRoundRobin model_family "string option"
  | OpNext model_family "string option"
  | OpSequential model_family "string option" "nat set"
  | OpHybrid nat model_family "string option" hybrid_options
  | OpSetActive jsval
  | OpMarkSwitched nat switch_reason model_family
  | OpSetEnabled jsval bool
  | OpRemove jsval
  | OpSuccess nat model_family "string option"
  | OpRateLimit nat model_family "string option"
  | OpFailure nat model_family "string option"
  | OpConsume nat model_family "string option" bool
  | OpRefund nat model_family "string option"
  | OpCoolDown nat jsnum cooldown_reason
  | OpSkipReason jsval model_family "string option"
  | OpAvailable jsval model_family "string option"
  | OpClearTransient
  | OpResetVolatile

text \<open>An operation on an account the caller holds is applied only while it is in the pool.\<close>

fun pool_step :: "pool_env \<Rightarrow> pool_op \<Rightarrow> jsnum \<Rightarrow> pool \<Rightarrow> pool" where
  "pool_step env (OpRoundRobin f m) now p = snd (getCurrentOrNextForFamily env now f m p)"
| "pool_step env (OpNext f m) now p = snd (getNextForFamily env now f m p)"
| "pool_step env (OpSequential f m b) now p = snd (getCurrentOrNextForFamilySequential env now f m b p)"
| "pool_step env (OpHybrid pid f m opts) now p = snd (getCurrentOrNextForFamilyHybrid env now pid f m opts p)"
| "pool_step env (OpSetActive index) now p = snd (setActiveIndex now index p)"
| "pool_step env (OpMarkSwitched i r f) now p = (if i < length (accounts p) then markSwitched i r f p else p)"
| "pool_step env (OpSetEnabled index b) now p = snd (setAccountEnabled index b p)"
| "pool_step env (OpRemove index) now p = snd (removeAccountByIndex env index p)"
| "pool_step env (OpSuccess i f m) now p = (if i < length (accounts p) then recordSuccess env now i f m p else p)"
| "pool_step env (OpRateLimit i f m) now p = (if i < length (accounts p) then recordRateLimit env now i f m p else p)"
| "pool_step env (OpFailure i f m) now p = (if i < length (accounts p) then recordFailure env now i f m p else p)"
| "pool_step env (OpConsume i f m b) now p =
     (if i < length (accounts p) then snd (consumeTokenWithReason env now i f m b p) else p)"
| "pool_step env (OpRefund i f m) now p = (if i < length (accounts p) then snd (account_refundToken env now i f m p) else p)"
| "pool_step env (OpCoolDown i ms r) now p = (if i < length (accounts p) then markAccountCoolingDown i now ms r p else p)"
| "pool_step env (OpSkipReason index f m) now p = snd (getAccountRuntimeSkipReason env now index f m p)"
| "pool_step env (OpAvailable index f m) now p = snd (isAccountAvailableForFamily env now index f m p)"
| "pool_step env OpClearTransient now p = clearAccountTransientState p"
| "pool_step env OpResetVolatile now p = resetVolatileRuntimeState now p"

definition pointer_inv :: "pool \<Rightarrow> bool" where
  "pointer_inv p \<longleftrightarrow>
     indexed p
     \<and> (\<forall>f \<in> set MODEL_FAMILIES. cursorByFamily p f < max 1 (length (accounts p))
          \<and> -1 \<le> currentAccountIndexByFamily p f
          \<and> currentAccountIndexByFamily p f < int (length (accounts p)))"

section \<open>The frame\<close>

definition same_routing :: "pool \<Rightarrow> pool \<Rightarrow> bool" where
  "same_routing p p' \<longleftrightarrow>
     map ma_index (accounts p') = map ma_index (accounts p)
     \<and> cursorByFamily p' = cursorByFamily p \<and> currentAccountIndexByFamily p' = currentAccountIndexByFamily p"

lemma same_routing_refl [simp, intro]: "same_routing p p"
  by (simp add: same_routing_def)

lemma same_routing_trans [trans]: "same_routing p q \<Longrightarrow> same_routing q r \<Longrightarrow> same_routing p r"
  by (simp add: same_routing_def)

lemma same_routing_length: "same_routing p p' \<Longrightarrow> length (accounts p') = length (accounts p)"
  by (auto simp: same_routing_def dest: map_eq_imp_length_eq)

lemma same_routing_index:
  "same_routing p p' \<Longrightarrow> i < length (accounts p) \<Longrightarrow> ma_index (acc p' i) = ma_index (acc p i)"
  by (frule same_routing_length) (metis same_routing_def acc_def nth_map)

lemma indexed_same: "same_routing p p' \<Longrightarrow> indexed p \<Longrightarrow> indexed p'"
  by (simp add: indexed_def same_routing_length same_routing_index)

lemma pointer_inv_same:
  assumes "same_routing p p'" and "pointer_inv p"
  shows "pointer_inv p'"
proof -
  have "length (accounts p') = length (accounts p)" "indexed p \<Longrightarrow> indexed p'"
    using assms(1) by (simp_all add: same_routing_length indexed_same)
  with assms show ?thesis by (simp add: pointer_inv_def same_routing_def)
qed

lemma same_routing_set_acc:
  "i < length (accounts p) \<Longrightarrow> ma_index a = ma_index (acc p i) \<Longrightarrow> same_routing p (set_acc i a p)"
  by (simp add: same_routing_def set_acc_def acc_def map_update list_update_same_conv)

lemma same_routing_set_acc_trans [simp]:
  "i < length (accounts p) \<Longrightarrow> ma_index a = ma_index (acc p i) \<Longrightarrow> same_routing p q \<Longrightarrow> same_routing p (set_acc i a q)"
  using same_routing_trans [of p q "set_acc i a q"] same_routing_set_acc [of i q a]
  by (simp add: same_routing_length same_routing_index)

lemma frame_fields [simp]:
  "same_routing p (q\<lparr>circuitBreakers := r\<rparr>) = same_routing p q"
  "same_routing p (q\<lparr>healthTracker := h\<rparr>) = same_routing p q"
  "same_routing p (q\<lparr>tokenTracker := t\<rparr>) = same_routing p q"
  "same_routing p (q\<lparr>saveScheduled := s\<rparr>) = same_routing p q"
  "same_routing p (q\<lparr>nextRuntimeCircuitKeyId := n\<rparr>) = same_routing p q"
  "same_routing p (put_breaker k b q) = same_routing p q"
  by (simp_all add: same_routing_def put_breaker_def)

lemma tracker_key_at_frame:
  assumes "tracker_key_at env i p = (k, p')" and "i < length (accounts p)"
  shows "same_routing p p'"
  using assms by (auto simp: tracker_key_at_def getRuntimeTrackerKey_alt)

lemma getAccountCircuitKey_frame:
  assumes "getAccountCircuitKey env i p = (k, p')" and "i < length (accounts p)"
  shows "same_routing p p'"
  using assms by (auto simp: getAccountCircuitKey_def Let_def split: if_splits option.splits)

lemma account_breaker_frame:
  assumes "account_breaker env now i p = (b, k, p')" and "i < length (accounts p)"
  shows "same_routing p p'"
  using assms getAccountCircuitKey_frame [of env i p]
  by (auto simp: account_breaker_def split: prod.splits)

lemma isCircuitAvailable_frame:
  assumes "isCircuitAvailable env now i p = (b, p')" and "i < length (accounts p)"
  shows "same_routing p p'"
  using assms account_breaker_frame [of env now i p] by (auto simp: isCircuitAvailable_def split: prod.splits)

lemma limited_index [simp]: "isRateLimitedForFamily claim now a f m = (b, a') \<Longrightarrow> ma_index a' = ma_index a"
  by (auto simp: isRateLimitedForFamily_def Let_def split: if_splits)

lemma cooling_index [simp]: "isAccountCoolingDown now a = (b, a') \<Longrightarrow> ma_index a' = ma_index a"
  by (auto simp: isAccountCoolingDown_def clearAccountCooldown_def split: option.splits if_splits)

lemma passes_gates_frame:
  assumes "passes_gates env now f m i p = (b, p')" and "i < length (accounts p)"
  shows "same_routing p p'"
proof -
  obtain l a1 where a1: "isRateLimitedForFamily (env_claim env) now (clearExpiredRateLimits now (acc p i)) f m = (l, a1)"
    by fastforce
  obtain c a2 where a2: "isAccountCoolingDown now a1 = (c, a2)" by fastforce
  have idx: "ma_index a1 = ma_index (acc p i)" "ma_index a2 = ma_index (acc p i)"
    using limited_index [OF a1] cooling_index [OF a2] by simp_all
  obtain d q where q: "isCircuitAvailable env now i (set_acc i a2 p) = (d, q)" by fastforce
  have "same_routing p q"
    using same_routing_trans [OF same_routing_set_acc [OF assms(2) idx(2)] isCircuitAvailable_frame [OF q]] assms(2)
    by simp
  then show ?thesis
    using assms same_routing_set_acc [OF assms(2) idx(1)] same_routing_set_acc [OF assms(2) idx(2)]
    by (auto simp: passes_gates_def a1 a2 q split: if_splits)
qed

lemma is_usable_frame:
  assumes "is_usable env now f m blocked i p = (b, p')" and "i < length (accounts p)"
  shows "same_routing p p'"
  using assms passes_gates_frame [of env now f m i p] by (auto simp: is_usable_def split: if_splits)

lemma is_usable_frame_snd:
  "i < length (accounts p) \<Longrightarrow> same_routing p (snd (is_usable env now f m blocked i p))"
  using is_usable_frame [of env now f m blocked i p] by (cases "is_usable env now f m blocked i p") simp

lemma scan_frame:
  assumes "scan (is_usable env now f m blocked) xs p = (r, p')" and "\<forall>i \<in> set xs. i < length (accounts p)"
  shows "same_routing p p' \<and> (\<forall>i. r = Some i \<longrightarrow> i \<in> set xs)"
  using assms
proof (induction xs arbitrary: p)
  case (Cons i xs)
  obtain b q where q: "is_usable env now f m blocked i p = (b, q)" by fastforce
  have s: "same_routing p q" using is_usable_frame [OF q] Cons.prems(2) by simp
  show ?case
    using Cons.prems Cons.IH [of q] q s same_routing_length [OF s]
    by (auto split: if_splits intro: same_routing_trans)
qed auto

section \<open>Every operation keeps the invariant\<close>

text \<open>Moving the pointers of one family to positions of the pool.\<close>

lemma pointer_inv_moved:
  assumes "pointer_inv p" and "map ma_index (accounts q) = map ma_index (accounts p)"
    and "\<And>g. cursorByFamily q g = cursorByFamily p g \<or> cursorByFamily q g < length (accounts p)"
    and "\<And>g. currentAccountIndexByFamily q g = currentAccountIndexByFamily p g
      \<or> (0 \<le> currentAccountIndexByFamily q g \<and> currentAccountIndexByFamily q g < int (length (accounts p)))"
  shows "pointer_inv q"
proof -
  have len: "length (accounts q) = length (accounts p)" using assms(2) by (rule map_eq_imp_length_eq)
  have "ma_index (acc q i) = i" if "i < length (accounts p)" for i
  proof -
    have "ma_index (acc q i) = map ma_index (accounts q) ! i" using that len by (simp add: acc_def)
    also have "\<dots> = ma_index (acc p i)" unfolding assms(2) using that by (simp add: acc_def)
    finally show ?thesis using assms(1) that by (simp add: pointer_inv_def indexed_def)
  qed
  then have "indexed q" using len by (simp add: indexed_def)
  moreover have "cursorByFamily q g < max 1 (length (accounts q)) \<and> -1 \<le> currentAccountIndexByFamily q g
      \<and> currentAccountIndexByFamily q g < int (length (accounts q))" if "g \<in> set MODEL_FAMILIES" for g
  proof -
    have "cursorByFamily p g < max 1 (length (accounts p)) \<and> -1 \<le> currentAccountIndexByFamily p g
      \<and> currentAccountIndexByFamily p g < int (length (accounts p))" using assms(1) that by (simp add: pointer_inv_def)
    then show ?thesis using assms(3) [of g] assms(4) [of g] len by (auto simp: less_max_iff_disj)
  qed
  ultimately show ?thesis by (simp add: pointer_inv_def)
qed

lemma index_touch [simp]: "map ma_index (accounts (touch i now p)) = map ma_index (accounts p)"
proof (cases "i < length (accounts p)")
  case True
  then show ?thesis by (simp add: touch_def set_acc_def acc_def map_update list_update_same_conv)
next
  case False
  then show ?thesis by (simp add: touch_def set_acc_def list_update_beyond)
qed

lemma pointer_inv_select:
  assumes "pointer_inv p" and "same_routing p q" and "i < length (accounts p)"
  shows "pointer_inv (touch i now (set_current f (int i) (set_cursor f ((i + 1) mod length (accounts p)) q)))"
    and "pointer_inv (touch i now (set_cursor f ((i + 1) mod length (accounts p)) (set_current f (int i) q)))"
    and "pointer_inv (touch i now (set_cursor f ((i + 1) mod length (accounts p)) q))"
    and "pointer_inv (touch i now q)"
proof -
  have n: "accounts p \<noteq> []" using assms(3) by auto
  note q = assms(2) [unfolded same_routing_def]
  show "pointer_inv (touch i now (set_current f (int i) (set_cursor f ((i + 1) mod length (accounts p)) q)))"
    by (rule pointer_inv_moved [OF assms(1)]) (use q n assms(3) in \<open>auto simp: fun_upd_def\<close>)
  show "pointer_inv (touch i now (set_cursor f ((i + 1) mod length (accounts p)) (set_current f (int i) q)))"
    by (rule pointer_inv_moved [OF assms(1)]) (use q n assms(3) in \<open>auto simp: fun_upd_def\<close>)
  show "pointer_inv (touch i now (set_cursor f ((i + 1) mod length (accounts p)) q))"
    by (rule pointer_inv_moved [OF assms(1)]) (use q n assms(3) in \<open>auto simp: fun_upd_def\<close>)
  show "pointer_inv (touch i now q)"
    by (rule pointer_inv_moved [OF assms(1)]) (use q n assms(3) in auto)
qed

lemma pool_scan_frame:
  assumes "scan (is_usable env now f m blocked) (cyclic start (length (accounts p))) p = (r, p')"
  shows "same_routing p p' \<and> (\<forall>i. r = Some i \<longrightarrow> i < length (accounts p))"
  using scan_frame [OF assms] by (auto simp: set_cyclic)

lemma pointer_inv_round_robin:
  assumes "pointer_inv p"
  shows "pointer_inv (snd (getCurrentOrNextForFamily env now f m p))"
    and "pointer_inv (snd (getNextForFamily env now f m p))"
proof -
  obtain r q where q: "scan (is_usable env now f m {}) (cyclic (cursorByFamily p f) (length (accounts p))) p = (r, q)"
    by fastforce
  note sq = pool_scan_frame [OF q]
  have sel: "pointer_inv (touch i now (set_current f (int i) (set_cursor f ((i + 1) mod length (accounts p)) q)))
      \<and> pointer_inv (touch i now (set_cursor f ((i + 1) mod length (accounts p)) q))" if "r = Some i" for i
    using pointer_inv_select [OF assms, of q i] sq that by simp
  show "pointer_inv (snd (getCurrentOrNextForFamily env now f m p))"
    using sel sq pointer_inv_same [OF _ assms] by (auto simp: getCurrentOrNextForFamily_def q split: option.split)
  show "pointer_inv (snd (getNextForFamily env now f m p))"
    using sel sq pointer_inv_same [OF _ assms] by (auto simp: getNextForFamily_def q split: option.split)
qed

lemma pointer_inv_sequential_scan:
  assumes "pointer_inv p"
  shows "pointer_inv (snd (sequential_scan env now f m b start p))"
proof -
  obtain r q where q: "scan (is_usable env now f m b) (cyclic start (length (accounts p))) p = (r, q)"
    by fastforce
  note sq = pool_scan_frame [OF q]
  have sel: "pointer_inv (touch i now (set_cursor f ((i + 1) mod length (accounts p)) (set_current f (int i) q)))"
    if "r = Some i" for i
    using pointer_inv_select [OF assms, of q i] sq that by simp
  show ?thesis
    using sel sq pointer_inv_same [OF _ assms] by (auto simp: sequential_scan_def q split: option.split)
qed

lemma pointer_inv_sequential:
  assumes "pointer_inv p"
  shows "pointer_inv (snd (getCurrentOrNextForFamilySequential env now f m b p))"
proof (cases "0 \<le> currentAccountIndexByFamily p f \<and> currentAccountIndexByFamily p f < int (length (accounts p))")
  case True
  obtain a where a: "currentAccountIndexByFamily p f = int a" using True nonneg_int_cases by blast
  then have len: "a < length (accounts p)" using True by simp
  then have ne: "accounts p \<noteq> []" by auto
  obtain u q where q: "is_usable env now f m b a p = (u, q)" by fastforce
  have s: "same_routing p q" by (rule is_usable_frame [OF q len])
  from pointer_inv_same [OF s assms] have "pointer_inv (snd (sequential_scan env now f m b a q))"
    by (rule pointer_inv_sequential_scan)
  then show ?thesis
    using len ne pointer_inv_select(4) [OF assms s len] by (simp add: getCurrentOrNextForFamilySequential_def Let_def a q)
next
  case False
  then show ?thesis
    using assms pointer_inv_sequential_scan by (auto simp: getCurrentOrNextForFamilySequential_def Let_def)
qed

lemma metrics_fold_frame:
  assumes "fold (metrics_step env now f m) is (ms, p) = (ms', p')" and "\<forall>i \<in> set is. i < length (accounts p)"
  shows "same_routing p p'"
  using assms
proof (induction "is" arbitrary: ms p)
  case (Cons i "is")
  obtain ok q1 where q1: "passes_gates env now f m i p = (ok, q1)" by fastforce
  have i: "i < length (accounts p)" using Cons.prems(2) by simp
  have s1: "same_routing p q1" by (rule passes_gates_frame [OF q1 i])
  obtain k q2 where q2: "tracker_key_at env i q1 = (k, q2)" by fastforce
  have s2: "same_routing q1 q2" by (rule tracker_key_at_frame [OF q2]) (simp add: same_routing_length [OF s1] i)
  obtain ms1 q where q: "metrics_step env now f m i (ms, p) = (ms1, q)" by fastforce
  have s: "same_routing p q"
    using q same_routing_trans [OF s1 s2] by (auto simp: metrics_step_def q1 q2 split: if_splits)
  from Cons.IH [of ms1 q] Cons.prems q same_routing_length [OF s] have "same_routing q p'" by simp
  with s show ?case by (rule same_routing_trans)
qed auto

lemma pointer_inv_hybrid:
  assumes "pointer_inv p"
  shows "pointer_inv (snd (getCurrentOrNextForFamilyHybrid env now pid f m options p))"
proof -
  obtain ms q where q: "fold (metrics_step env now f m) [0..<length (accounts p)] ([], p) = (ms, q)" by fastforce
  have s: "same_routing p q" using metrics_fold_frame [OF q] by simp
  have idx: "ma_index (acc q i) = i" if "i < length (accounts p)" for i
    using same_routing_index [OF s that] assms that by (simp add: pointer_inv_def indexed_def)
  show ?thesis
    using pointer_inv_same [OF s assms] pointer_inv_select(2) [OF assms s] idx
    by (auto simp: getCurrentOrNextForFamilyHybrid_def q Let_def split: option.split)
qed

lemma getAccountByIndex_bound: "getAccountByIndex p index = Some i \<Longrightarrow> i < length (accounts p)"
proof (cases index)
  case (Finite x)
  assume "getAccountByIndex p index = Some i"
  with Finite have x: "0 \<le> x" "x < of_nat (length (accounts p))" "js_floor x = x" "i = nat \<lfloor>x\<rfloor>"
    by (auto simp: getAccountByIndex_def split: if_splits)
  then have "of_nat i = x" by (simp add: js_floor_def)
  with x(2) show ?thesis by (metis of_nat_less_iff)
qed (simp add: getAccountByIndex_def)

lemma enabled_after_bound:
  "List.find en (map (\<lambda>step. (i + step) mod n) [1..<n]) = Some j \<Longrightarrow> j < n \<and> en j"
  by (drule find_Some_iff_first) auto

lemma enabled_after_range:
  fixes i n :: nat
  assumes "nx = (case List.find en (map (\<lambda>step. (i + step) mod n) [1..<n]) of Some j \<Rightarrow> int j | None \<Rightarrow> -1)"
  shows "nx = -1 \<or> (0 \<le> nx \<and> nx < int n)"
proof (cases "List.find en (map (\<lambda>step. (i + step) mod n) [1..<n])")
  case (Some j)
  with enabled_after_bound [OF Some] assms show ?thesis by simp
qed (use assms in simp)

lemma pointer_inv_setActive:
  assumes "pointer_inv p"
  shows "pointer_inv (snd (setActiveIndex now index p))"
proof (cases "getAccountByIndex p index")
  case (Some i)
  have i: "i < length (accounts p)" by (rule getAccountByIndex_bound [OF Some])
  let ?q = "set_acc i ((acc p i)\<lparr>lastUsed := now, lastSwitchReason := Some SwitchRotation\<rparr>)
                 (p\<lparr>currentAccountIndexByFamily := on_families (\<lambda>_ _. int i) (currentAccountIndexByFamily p),
                    cursorByFamily := on_families (\<lambda>_ _. i) (cursorByFamily p)\<rparr>)"
  have "pointer_inv ?q"
    by (rule pointer_inv_moved [OF assms])
      (use i in \<open>auto simp: on_families_def set_acc_def acc_def map_update list_update_same_conv\<close>)
  with Some assms show ?thesis by (simp add: setActiveIndex_def)
qed (simp add: setActiveIndex_def assms)

lemma pointer_inv_markSwitched:
  assumes "pointer_inv p" and "i < length (accounts p)"
  shows "pointer_inv (markSwitched i r f p)"
proof -
  have idx: "ma_index (acc p i) = i" using assms by (simp add: pointer_inv_def indexed_def)
  let ?q = "set_acc i ((acc p i)\<lparr>lastSwitchReason := Some r\<rparr>) p"
  have s: "same_routing p ?q" using assms(2) by (intro same_routing_set_acc) simp_all
  note s' = s [unfolded same_routing_def]
  have n: "accounts p \<noteq> []" using assms(2) by auto
  have "pointer_inv (set_cursor f ((i + 1) mod length (accounts p)) (set_current f (int i) ?q))"
    by (rule pointer_inv_moved [OF assms(1)]) (use s' n assms(2) in \<open>auto simp: fun_upd_def\<close>)
  then show ?thesis using n by (simp add: markSwitched_def Let_def idx)
qed

lemma pointer_inv_setEnabled:
  assumes "pointer_inv p"
  shows "pointer_inv (snd (setAccountEnabled index b p))"
proof (cases "getAccountByIndex p index")
  case (Some i)
  have i: "i < length (accounts p)" by (rule getAccountByIndex_bound [OF Some])
  define a where "a = (if b \<and> \<not> ma_enabled (acc p i) \<noteq> Some False
    then resetWorkspaces ((acc p i)\<lparr>ma_enabled := Some b\<rparr>) else (acc p i)\<lparr>ma_enabled := Some b\<rparr>)"
  have "ma_index a = ma_index (acc p i)" by (simp add: a_def resetWorkspaces_def Let_def)
  then have s: "same_routing p (set_acc i a p)" using i by (simp add: same_routing_set_acc)
  define nx where "nx = (case List.find (\<lambda>j. ma_enabled (acc (set_acc i a p) j) \<noteq> Some False)
      (map (\<lambda>step. (i + step) mod length (accounts p)) [1..<length (accounts p)]) of Some j \<Rightarrow> int j | None \<Rightarrow> -1)"
  have nx: "nx = -1 \<or> (0 \<le> nx \<and> nx < int (length (accounts p)))"
    by (rule enabled_after_range [OF nx_def])
  let ?q = "(set_acc i a p)\<lparr>currentAccountIndexByFamily := on_families
                        (\<lambda>_ c. if c = int i \<and> nx \<noteq> -1 then nx else c) (currentAccountIndexByFamily p),
                      cursorByFamily := on_families
                        (\<lambda>_ c. if c = i \<and> nx \<noteq> -1 then nat nx else c) (cursorByFamily p)\<rparr>"
  have "pointer_inv ?q"
    by (rule pointer_inv_moved [OF assms])
      (use nx s [unfolded same_routing_def] in \<open>auto simp: on_families_def\<close>)
  moreover have "snd (setAccountEnabled index b p) = (if b then set_acc i a p else ?q)"
    unfolding setAccountEnabled_def Some option.case Let_def a_def [symmetric] set_acc_fields nx_def [symmetric] snd_conv ..
  ultimately show ?thesis using pointer_inv_same [OF s assms] by simp
qed (simp add: setAccountEnabled_def assms)

section \<open>Removal\<close>

lemma findNextEnabled_bound:
  "-1 \<le> findNextEnabled p s \<and> findNextEnabled p s < int (max 1 (length (accounts p)))
    \<and> (findNextEnabled p s \<noteq> -1 \<longrightarrow> findNextEnabled p s < int (length (accounts p)))"
proof (cases "List.find (\<lambda>i. ma_enabled (acc p i) \<noteq> Some False) (cyclic (s mod length (accounts p)) (length (accounts p)))")
  case (Some i)
  from find_Some_iff_first [OF Some] have "i < length (accounts p)" by (simp add: set_cyclic)
  with Some show ?thesis by (auto simp: findNextEnabled_def Let_def)
qed (simp add: findNextEnabled_def Let_def)

lemma removed_active_bound:
  assumes "length (accounts q) = n" and "n \<noteq> 0" and "idx \<le> n" and "-1 \<le> a" and "a \<le> int n"
  shows "-1 \<le> removed_active q idx a \<and> removed_active q idx a < int n"
  using assms findNextEnabled_bound [of q "min idx (n - 1)"] findNextEnabled_bound [of q 0]
  by (auto simp: removed_active_def Let_def)

lemma removed_cursor_bound: "n \<noteq> 0 \<Longrightarrow> removed_cursor idx n c < n"
  by (simp add: removed_cursor_def Let_def)

lemma acc_reindex: "i < length as \<Longrightarrow> ma_index (reindex as ! i) = i"
  by (simp add: reindex_def nth_enumerate_eq)

lemma length_reindex [simp]: "length (reindex as) = length as"
  by (simp add: reindex_def)

definition without :: "nat \<Rightarrow> 'a list \<Rightarrow> 'a list" where
  "without idx xs = take idx xs @ drop (Suc idx) xs"

lemma length_without: "idx < length xs \<Longrightarrow> length (without idx xs) = length xs - 1"
  by (simp add: without_def)

lemma nth_without: "idx < length xs \<Longrightarrow> i < length xs - 1 \<Longrightarrow> without idx xs ! i = xs ! (if i < idx then i else Suc i)"
  by (auto simp: without_def nth_append min_def)

lemma trackers_cleared:
  "accounts (forget_trackers k p) = accounts p" "cursorByFamily (forget_trackers k p) = cursorByFamily p"
  "currentAccountIndexByFamily (forget_trackers k p) = currentAccountIndexByFamily p"
  "circuitBreakers (forget_trackers k p) = circuitBreakers p"
  by (simp_all add: forget_trackers_def)

lemma removeAccount_result:
  assumes "idx < length (accounts p)"
  shows "\<exists>q. accounts q = reindex (without idx (accounts p))
    \<and> cursorByFamily q = cursorByFamily p \<and> currentAccountIndexByFamily q = currentAccountIndexByFamily p
    \<and> (let retargeted = map (\<lambda>f. nat (removed_active q idx (currentAccountIndexByFamily p f)))
                   (filter (\<lambda>f. currentAccountIndexByFamily p f = int idx
                      \<and> 0 \<le> removed_active q idx (currentAccountIndexByFamily p f)
                      \<and> removed_active q idx (currentAccountIndexByFamily p f) < int (length (accounts q))) MODEL_FAMILIES)
       in removeAccount env idx p = (True,
          if accounts q = []
          then q\<lparr>cursorByFamily := on_families (\<lambda>_ _. 0) (cursorByFamily q),
                 currentAccountIndexByFamily := on_families (\<lambda>_ _. -1) (currentAccountIndexByFamily q)\<rparr>
          else q\<lparr>cursorByFamily := on_families (\<lambda>_ c. removed_cursor idx (length (accounts q)) c) (cursorByFamily q),
                 currentAccountIndexByFamily := on_families (\<lambda>_ a. removed_active q idx a) (currentAccountIndexByFamily q),
                 accounts := map (\<lambda>(i, a). if i \<in> set retargeted then a\<lparr>lastSwitchReason := Some SwitchRotation\<rparr> else a)
                     (enumerate 0 (accounts q))\<rparr>))"
proof -
  define account where "account = acc p idx"
  define p1 where "p1 = forget_trackers (fst (getRuntimeTrackerKey env account))
    (p\<lparr>accounts := take idx (accounts p) @ drop (Suc idx) (accounts p)\<rparr>)"
  define p2 where "p2 = (case getRuntimeAccountIdentityKey (env_sha256 env) (accountId account) (ma_email account)
              (Some (ma_index account)) of
        Some k \<Rightarrow> if k \<noteq> fst (getRuntimeTrackerKey env account) then forget_trackers k p1 else p1 | None \<Rightarrow> p1)"
  define p3 where "p3 = (if truthy_string (circuitKeyId account)
        then p2\<lparr>circuitBreakers := removeCircuitBreaker (circuitBreakers p2) (the (circuitKeyId account))\<rparr> else p2)"
  define q where "q = p3\<lparr>healthTracker := health_clearNumericKeysAtOrAbove (healthTracker p3) idx,
                  tokenTracker := token_clearNumericKeysAtOrAbove (tokenTracker p3) idx,
                  accounts := reindex (accounts p3)\<rparr>"
  have p2: "accounts p2 = without idx (accounts p)" "cursorByFamily p2 = cursorByFamily p"
      "currentAccountIndexByFamily p2 = currentAccountIndexByFamily p"
    by (auto simp: p2_def p1_def trackers_cleared without_def split: option.splits)
  have q: "accounts q = reindex (without idx (accounts p))" "cursorByFamily q = cursorByFamily p"
      "currentAccountIndexByFamily q = currentAccountIndexByFamily p"
    using p2 by (auto simp: q_def p3_def)
  have not: "\<not> length (accounts p) \<le> idx" using assms by simp
  have "removeAccount env idx p = (True,
          if accounts q = []
          then q\<lparr>cursorByFamily := on_families (\<lambda>_ _. 0) (cursorByFamily q),
                 currentAccountIndexByFamily := on_families (\<lambda>_ _. -1) (currentAccountIndexByFamily q)\<rparr>
          else q\<lparr>cursorByFamily := on_families (\<lambda>_ c. removed_cursor idx (length (accounts q)) c) (cursorByFamily q),
                 currentAccountIndexByFamily := on_families (\<lambda>_ a. removed_active q idx a) (currentAccountIndexByFamily q),
                 accounts := map (\<lambda>(i, a). if i \<in> set (map (\<lambda>f. nat (removed_active q idx (currentAccountIndexByFamily p f)))
                   (filter (\<lambda>f. currentAccountIndexByFamily p f = int idx
                      \<and> 0 \<le> removed_active q idx (currentAccountIndexByFamily p f)
                      \<and> removed_active q idx (currentAccountIndexByFamily p f) < int (length (accounts q))) MODEL_FAMILIES))
                   then a\<lparr>lastSwitchReason := Some SwitchRotation\<rparr> else a)
                     (enumerate 0 (accounts q))\<rparr>)"
    unfolding removeAccount_def if_not_P [OF not] Let_def account_def [symmetric] p1_def [symmetric]
      p2_def [symmetric] p3_def [symmetric] q_def [symmetric] by (rule if_distrib [symmetric])
  with q show ?thesis unfolding Let_def by blast
qed

lemma retarget_index:
  "map ma_index (map (\<lambda>(i, a). if i \<in> R then a\<lparr>lastSwitchReason := r\<rparr> else a) (enumerate 0 as)) = map ma_index as"
  by (rule nth_equalityI) (simp_all add: nth_enumerate_eq)

lemma retarget_fields:
  "map refreshToken (map (\<lambda>(i, a). if i \<in> R then a\<lparr>lastSwitchReason := r\<rparr> else a) (enumerate 0 as)) = map refreshToken as"
  "map ma_enabled (map (\<lambda>(i, a). if i \<in> R then a\<lparr>lastSwitchReason := r\<rparr> else a) (enumerate 0 as)) = map ma_enabled as"
  by (rule nth_equalityI; simp add: nth_enumerate_eq)+

lemma pointer_inv_remove:
  assumes "pointer_inv p"
  shows "pointer_inv (snd (removeAccount env idx p))"
proof (cases "idx < length (accounts p)")
  case False
  with assms show ?thesis by (simp add: removeAccount_def)
next
  case True
  obtain q R where q: "accounts q = reindex (without idx (accounts p))" "cursorByFamily q = cursorByFamily p"
      "currentAccountIndexByFamily q = currentAccountIndexByFamily p"
    and r: "snd (removeAccount env idx p) =
         (if accounts q = []
          then q\<lparr>cursorByFamily := on_families (\<lambda>_ _. 0) (cursorByFamily q),
                 currentAccountIndexByFamily := on_families (\<lambda>_ _. -1) (currentAccountIndexByFamily q)\<rparr>
          else q\<lparr>cursorByFamily := on_families (\<lambda>_ c. removed_cursor idx (length (accounts q)) c) (cursorByFamily q),
                 currentAccountIndexByFamily := on_families (\<lambda>_ a. removed_active q idx a) (currentAccountIndexByFamily q),
                 accounts := map (\<lambda>(i, a). if i \<in> set R then a\<lparr>lastSwitchReason := Some SwitchRotation\<rparr> else a)
                     (enumerate 0 (accounts q))\<rparr>)"
    using removeAccount_result [OF True, of env] unfolding Let_def by fastforce
  have len: "length (accounts q) = length (accounts p) - 1" using q(1) True by (simp add: length_without)
  show ?thesis
  proof (cases "accounts q = []")
    case True
    then show ?thesis
      unfolding r by (simp add: pointer_inv_def indexed_def on_families_def)
  next
    case ne: False
    let ?as = "map (\<lambda>(i, a). if i \<in> set R then a\<lparr>lastSwitchReason := Some SwitchRotation\<rparr> else a) (enumerate 0 (accounts q))"
    have "ma_index (?as ! i) = i" if "i < length (accounts q)" for i
    proof -
      have "ma_index (?as ! i) = map ma_index ?as ! i" using that by simp
      also have "\<dots> = ma_index (accounts q ! i)" unfolding retarget_index using that by simp
      also have "\<dots> = i" using that unfolding q(1) by (simp add: acc_reindex)
      finally show ?thesis .
    qed
    moreover have "-1 \<le> removed_active q idx (currentAccountIndexByFamily p f)
        \<and> removed_active q idx (currentAccountIndexByFamily p f) < int (length (accounts q))" if "f \<in> set MODEL_FAMILIES" for f
      using assms that True ne len by (intro removed_active_bound) (auto simp: pointer_inv_def)
    moreover have "removed_cursor idx (length (accounts q)) c < length (accounts q)" for c
      using ne by (intro removed_cursor_bound) simp
    ultimately show ?thesis
      unfolding r if_not_P [OF ne] by (simp add: pointer_inv_def indexed_def acc_def on_families_def q(2,3) less_max_iff_disj)
  qed
qed

section \<open>Outcomes\<close>

lemma recordSuccess_frame:
  assumes "i < length (accounts p)"
  shows "same_routing p (recordSuccess env now i f m p)"
proof -
  obtain k q where q: "tracker_key_at env i p = (k, q)" by fastforce
  have s: "same_routing p q" by (rule tracker_key_at_frame [OF q assms])
  let ?p1 = "q\<lparr>healthTracker := health_recordSuccess (healthTracker q) now k (Some (getQuotaKey f m))\<rparr>"
  obtain c a where a: "isAccountCoolingDown now (acc ?p1 i) = (c, a)" by fastforce
  have idx: "ma_index a = ma_index (acc p i)"
    using cooling_index [OF a] same_routing_index [OF s assms] by (simp add: acc_def)
  define b where "b = (let h = (coolingDownUntil (acc ?p1 i) \<noteq> None \<or> cooldownReason (acc ?p1 i) \<noteq> None);
          u = (nullish (consecutiveAuthFailures (acc ?p1 i)) 0 > 0);
          a = (if \<not> c \<and> h then clearAccountCooldown a else a)
      in if \<not> c \<and> u then clearAuthFailures a else a)"
  define p2 where "p2 = (if \<not> c \<and> ((coolingDownUntil (acc ?p1 i) \<noteq> None \<or> cooldownReason (acc ?p1 i) \<noteq> None)
      \<or> nullish (consecutiveAuthFailures (acc ?p1 i)) 0 > 0)
      then (set_acc i b ?p1)\<lparr>saveScheduled := True\<rparr> else set_acc i b ?p1)"
  have "ma_index b = ma_index (acc p i)"
    using idx by (simp add: b_def Let_def clearAccountCooldown_def clearAuthFailures_def)
  then have s2: "same_routing p p2" using assms s by (simp add: p2_def)
  obtain br ck p3 where p3: "account_breaker env now i p2 = (br, ck, p3)" by (metis prod_cases3)
  have "same_routing p p3"
    by (rule same_routing_trans [OF s2 account_breaker_frame [OF p3]]) (simp add: same_routing_length [OF s2] assms)
  moreover have "recordSuccess env now i f m p = put_breaker ck (breaker_recordSuccess br now) p3"
    using p3 by (simp only: recordSuccess_def q Let_def a prod.case p2_def b_def)
  ultimately show ?thesis by simp
qed

lemma recordFailure_frame:
  assumes "i < length (accounts p)"
  shows "same_routing p (recordFailure env now i f m p)"
proof -
  obtain k q where q: "tracker_key_at env i p = (k, q)" by fastforce
  have s: "same_routing p q" by (rule tracker_key_at_frame [OF q assms])
  let ?p1 = "q\<lparr>healthTracker := health_recordFailure (healthTracker q) now k (Some (getQuotaKey f m))\<rparr>"
  obtain br ck p3 where p3: "account_breaker env now i ?p1 = (br, ck, p3)" by (metis prod_cases3)
  have s1: "same_routing p ?p1" using s by simp
  have "same_routing p p3"
    by (rule same_routing_trans [OF s1 account_breaker_frame [OF p3]]) (use same_routing_length [OF s] assms in simp)
  with p3 q show ?thesis by (simp add: recordFailure_def Let_def)
qed

lemma recordRateLimit_frame:
  "i < length (accounts p) \<Longrightarrow> same_routing p (recordRateLimit env now i f m p)"
  using tracker_key_at_frame [of env i p]
  by (cases "tracker_key_at env i p") (simp add: recordRateLimit_def Let_def)

lemma refund_frame:
  "i < length (accounts p) \<Longrightarrow> same_routing p (snd (account_refundToken env now i f m p))"
  using tracker_key_at_frame [of env i p]
  by (cases "tracker_key_at env i p") (simp add: account_refundToken_def Let_def split: prod.split)

lemma consume_frame:
  assumes "i < length (accounts p)"
  shows "same_routing p (snd (consumeTokenWithReason env now i f m b p))"
proof -
  obtain k q where q: "tracker_key_at env i p = (k, q)" by fastforce
  have s: "same_routing p q" by (rule tracker_key_at_frame [OF q assms])
  have step: "same_routing p p3" if "account_breaker env now i (q\<lparr>tokenTracker := tt\<rparr>) = (br, ck, p3)" for tt br ck p3
  proof -
    have s1: "same_routing p (q\<lparr>tokenTracker := tt\<rparr>)" using s by simp
    show ?thesis
      by (rule same_routing_trans [OF s1 account_breaker_frame [OF that]]) (use same_routing_length [OF s] assms in simp)
  qed
  have "same_routing p p3" if "account_breaker env now i q = (br, ck, p3)" for br ck p3
    by (rule same_routing_trans [OF s account_breaker_frame [OF that]]) (use same_routing_length [OF s] assms in simp)
  with s step show ?thesis
    by (auto simp: consumeTokenWithReason_def q Let_def split: prod.split admission.split)
qed

lemma skip_reason_frame:
  assumes "i < length (accounts p)"
  shows "same_routing p (snd (getManagedAccountRuntimeSkipReason env now i f m p))"
proof -
  obtain l a1 where a1: "isRateLimitedForFamily (env_claim env) now (clearExpiredRateLimits now (acc p i)) f m = (l, a1)"
    by fastforce
  obtain c a2 where a2: "isAccountCoolingDown now a1 = (c, a2)" by fastforce
  have idx: "ma_index a1 = ma_index (acc p i)" "ma_index a2 = ma_index (acc p i)"
    using limited_index [OF a1] cooling_index [OF a2] by simp_all
  obtain d q where q: "isCircuitAvailable env now i (set_acc i a2 p) = (d, q)" by fastforce
  have "same_routing p q"
    using same_routing_trans [OF same_routing_set_acc [OF assms idx(2)] isCircuitAvailable_frame [OF q]] assms
    by simp
  then show ?thesis
    using assms idx by (auto simp: getManagedAccountRuntimeSkipReason_def a1 a2 q)
qed

lemma volatile_frames:
  "same_routing p (clearAccountTransientState p)" "same_routing p (resetVolatileRuntimeState now p)"
  by (auto simp: same_routing_def clearAccountTransientState_def resetVolatileRuntimeState_def clearAllRateLimits_def
      clearAccountCooldown_def o_def)

interpretation pointers: stable_machine "pool_step env" pointer_inv for env
proof unfold_locales
  fix s x t assume inv: "pointer_inv s"
  note same = pointer_inv_same [OF _ inv]
  show "pointer_inv (pool_step env x t s)"
  proof (cases x)
    case (OpSkipReason index f m)
    then show ?thesis
      using inv same skip_reason_frame [OF getAccountByIndex_bound, of s index]
      by (auto simp: getAccountRuntimeSkipReason_def split: option.split)
  next
    case (OpAvailable index f m)
    then show ?thesis
      using inv same is_usable_frame_snd [OF getAccountByIndex_bound, of s index]
      by (auto simp: isAccountAvailableForFamily_def split: option.split)
  next
    case (OpRemove index)
    then show ?thesis
      using inv pointer_inv_remove [OF inv] by (auto simp: removeAccountByIndex_def split: option.split)
  qed (use inv same recordSuccess_frame recordFailure_frame recordRateLimit_frame refund_frame consume_frame
      volatile_frames pointer_inv_round_robin [OF inv] pointer_inv_sequential [OF inv] pointer_inv_hybrid [OF inv]
      pointer_inv_setActive [OF inv] pointer_inv_markSwitched [OF inv] pointer_inv_setEnabled [OF inv]
      in \<open>auto simp: markAccountCoolingDown_def markCoolingDown_def\<close>)
qed

section \<open>What removal does\<close>

lemma refresh_reindex: "map refreshToken (reindex as) = map refreshToken as"
  by (rule nth_equalityI) (simp_all add: reindex_def nth_enumerate_eq)

lemma enabled_reindex: "i < length as \<Longrightarrow> ma_enabled (reindex as ! i) = ma_enabled (as ! i)"
  by (simp add: reindex_def nth_enumerate_eq)

lemma findNextEnabled_exact:
  "findNextEnabled p s = -1 \<longleftrightarrow> (\<forall>i < length (accounts p). ma_enabled (acc p i) = Some False)"
  "findNextEnabled p s \<noteq> -1 \<Longrightarrow> ma_enabled (acc p (nat (findNextEnabled p s))) \<noteq> Some False"
proof -
  let ?f = "List.find (\<lambda>i. ma_enabled (acc p i) \<noteq> Some False) (cyclic (s mod length (accounts p)) (length (accounts p)))"
  show "findNextEnabled p s = -1 \<longleftrightarrow> (\<forall>i < length (accounts p). ma_enabled (acc p i) = Some False)"
  proof (cases ?f)
    case None
    then show ?thesis using find_None_iff_all [THEN iffD1, OF None] by (simp add: findNextEnabled_def Let_def set_cyclic)
  next
    case (Some i)
    from find_Some_iff_first [OF Some] have "i < length (accounts p)" "ma_enabled (acc p i) \<noteq> Some False" by (simp_all add: set_cyclic)
    moreover from this have "accounts p \<noteq> []" by auto
    ultimately show ?thesis using Some by (auto simp: findNextEnabled_def Let_def)
  qed
  assume "findNextEnabled p s \<noteq> -1"
  then obtain i where "?f = Some i" "findNextEnabled p s = int i"
    by (auto simp: findNextEnabled_def Let_def split: option.splits if_splits)
  then show "ma_enabled (acc p (nat (findNextEnabled p s))) \<noteq> Some False"
    using find_Some_iff_first by fastforce
qed

end
