(* ===== verification/AccountResults.thy ===== *)
theory AccountResults
  imports AccountPointers
begin

text \<open>
  The properties of the account pool of \<open>lib/accounts.ts\<close>: what each selector returns and leaves
  behind, the pointer invariant over every operation, what removal does to the pointers, the
  balance of the admission gates and the effect of a cooldown.  \<open>demo_pool\<close> is the pool the
  witnesses use.
\<close>

section \<open>A pool for the witnesses\<close>

definition demo_account :: "nat \<Rightarrow> string \<Rightarrow> managed_account" where
  "demo_account i token =
     \<lparr>rateLimitResetTimes = [], accountId = None, access = None, accessToken = None, codexCliMirror = None,
      workspaces = None, currentWorkspaceIndex = None, ma_index = i, ma_recordId = Some token, ma_accountIdSource = None,
      ma_accountLabel = None, ma_expires = None, ma_addedAt = 0, runtimeTrackerKey = None, circuitKeyId = None,
      ma_email = None, refreshToken = token, ma_enabled = None, lastUsed = 0, lastSwitchReason = None,
      lastRateLimitReason = None, rateLimitObservations = [], resetReceiptGenerations = [],
      resetReceiptIdentities = [], coolingDownUntil = None, cooldownReason = None, authInvalidatedAt = None,
      authInvalidationErrorCode = None, consecutiveAuthFailures = None, unsequencedRateLimits = None\<rparr>"

definition demo_pool :: pool where
  "demo_pool =
     \<lparr>accounts = [demo_account 0 ''r0'', demo_account 1 ''r1'', demo_account 2 ''r2''],
      cursorByFamily = (\<lambda>_. 1), currentAccountIndexByFamily = (\<lambda>_. 2), pinnedAccountIndex = None,
      affinityGeneration = 0, lastToastAccountIndex = -1, lastToastTime = 0, healthTracker = health_new id,
      tokenTracker = token_new id, circuitBreakers = [], nextRuntimeCircuitKeyId = 0, rejectionSequence = 0,
      saveScheduled = False\<rparr>"

definition demo_env :: pool_env where
  "demo_env = \<lparr>env_claim = (\<lambda>_. None), env_sha256 = id\<rparr>"

lemma unlimited:
  "rateLimitResetTimes a = [] \<Longrightarrow> 0 \<le> now \<Longrightarrow> \<not> gate_limited env now f m a"
  by (auto simp: gate_limited_def isRateLimitedForQuotaKey_def quotaResetTime_def jm_get_def Let_def split: option.splits)

lemma demo_pool_ok: "pool_ok demo_pool" and demo_pool_room: "room demo_env demo_pool"
proof -
  show "pool_ok demo_pool"
    by (simp add: pool_ok_def demo_pool_def account_ok_def demo_account_def registry_inv_def jm_ok_def jm_has_def
        js_trim_def js_space_def)
  have "card (unregistered demo_env demo_pool) \<le> card (set (map (circuit_key demo_env) (accounts demo_pool)))"
    by (rule card_mono) (auto simp: unregistered_def)
  also have "\<dots> \<le> 3" using card_length [of "map (circuit_key demo_env) (accounts demo_pool)"] by (simp add: demo_pool_def)
  finally show "room demo_env demo_pool" by (simp add: room_def MAX_CIRCUIT_BREAKERS_def) (simp add: demo_pool_def)
qed

lemma demo_routable: "0 \<le> now \<Longrightarrow> i < 3 \<Longrightarrow> routable demo_env now f m {} demo_pool i"
  by (auto simp: less_Suc_eq numeral_3_eq_3 routable_def gates_open_def unlimited cooling_def circuit_ok_def
      isAccountAuthInvalidated_def hasEnabledWorkspaces_def tracked_workspaces_def acc_def demo_pool_def
      demo_account_def)

section \<open>Selectors\<close>

text \<open>
  The round robin returns the first account after the family's cursor, in pool order, that is
  routable now, and no account exactly when none is; it then makes that account active, moves
  the cursor just past it and stamps \<open>lastUsed\<close> on it alone.  Pruning limits, ending cooldowns,
  filling in keys and registering breakers along the way change the routability of no account,
  now or later.
\<close>

theorem round_robin_exact:
  assumes "pool_ok p" and "room env p" and "0 \<le> now"
  shows "case next_routable env now f m {} p (cursorByFamily p f) of
      None \<Rightarrow> \<exists>p'. getCurrentOrNextForFamily env now f m p = (None, p')
        \<and> cursorByFamily p' = cursorByFamily p \<and> currentAccountIndexByFamily p' = currentAccountIndexByFamily p \<and> quiet env now p p'
    | Some i \<Rightarrow> \<exists>p'. getCurrentOrNextForFamily env now f m p = (Some i, p')
        \<and> cursorByFamily p' = (cursorByFamily p)(f := (i + 1) mod length (accounts p))
        \<and> currentAccountIndexByFamily p' = (currentAccountIndexByFamily p)(f := int i)
        \<and> selection_kept env now i p p'"
  by (rule round_robin_step [OF assms])

lemma demo_next [simp]:
  "0 \<le> now \<Longrightarrow> next_routable demo_env now f m {} demo_pool start = Some (start mod 3)"
  using next_routable_all [of demo_pool demo_env now f m "{}" start] demo_routable
  by (simp add: demo_pool_def)

theorem round_robin_exact_witness:
  "\<exists>p'. getCurrentOrNextForFamily demo_env 1000 ''codex'' None demo_pool = (Some 1, p')
     \<and> cursorByFamily p' ''codex'' = 2 \<and> currentAccountIndexByFamily p' ''codex'' = 1"
proof -
  have "cursorByFamily demo_pool ''codex'' = 1" "length (accounts demo_pool) = 3" by (simp_all add: demo_pool_def)
  then show ?thesis
    using round_robin_exact [OF demo_pool_ok demo_pool_room, of 1000 "''codex''" None] by auto
qed

text \<open>
  The rotation is fair: as long as the accounts are routable, a run of round-robin requests
  (at any later times) visits the pool cyclically from the cursor, so any \<open>n\<close> consecutive
  requests use each of the \<open>n\<close> accounts exactly once.
\<close>

theorem round_robin_fair:
  assumes "pool_ok p" and "room env p" and "0 \<le> t0" and "accounts p \<noteq> []"
    and "\<forall>j < length (accounts p). routable env t0 f m {} p j" and "sorted (t0 # ts)"
  shows "rr_run env f m p ts = map (\<lambda>k. Some ((cursorByFamily p f + k) mod length (accounts p))) [0..<length ts]
    \<and> (length ts = length (accounts p) \<longrightarrow>
        distinct (rr_run env f m p ts) \<and> set (rr_run env f m p ts) = Some ` {..<length (accounts p)})"
proof -
  let ?n = "length (accounts p)"
  note run = rr_run_cyclic [OF assms]
  have "rr_run env f m p ts = map Some (cyclic (cursorByFamily p f) ?n)" if "length ts = ?n"
    using run that by (simp add: cyclic_def)
  moreover have "distinct (cyclic (cursorByFamily p f) ?n)"
    using set_cyclic [of "cursorByFamily p f" ?n] by (intro card_distinct) simp
  ultimately show ?thesis using run by (auto simp: distinct_map set_cyclic)
qed

theorem round_robin_fair_witness:
  "rr_run demo_env ''codex'' None demo_pool [1000, 1000, 2500, 9000] = [Some 1, Some 2, Some 0, Some 1]"
proof -
  have "accounts demo_pool \<noteq> []" "length (accounts demo_pool) = 3" "cursorByFamily demo_pool ''codex'' = 1"
    by (simp_all add: demo_pool_def)
  then show ?thesis
    using round_robin_fair [OF demo_pool_ok demo_pool_room, of 0 "''codex''" None "[1000, 1000, 2500, 9000]"] demo_routable
    by (simp add: upt_rec)
qed

text \<open>
  Sequential scheduling is sticky: it stays on the active account while that is routable and
  not blocked (leaving the pointers alone), otherwise it moves to the first routable account
  after it in pool order; it gives up exactly when no account is routable.
\<close>

theorem sequential_sticky:
  assumes "pool_ok p" and "room env p" and "0 \<le> now"
  shows "case next_routable env now f m b p (active_start p f) of
      None \<Rightarrow> \<exists>p'. getCurrentOrNextForFamilySequential env now f m b p = (None, p')
        \<and> cursorByFamily p' = cursorByFamily p \<and> currentAccountIndexByFamily p' = currentAccountIndexByFamily p \<and> quiet env now p p'
    | Some i \<Rightarrow> \<exists>p'. getCurrentOrNextForFamilySequential env now f m b p = (Some i, p')
        \<and> cursorByFamily p' = (if currentAccountIndexByFamily p f = int i then cursorByFamily p
             else (cursorByFamily p)(f := (i + 1) mod length (accounts p)))
        \<and> currentAccountIndexByFamily p' = (currentAccountIndexByFamily p)(f := int i)
        \<and> selection_kept env now i p p'"
  by (rule sequential_step [OF assms])

theorem sequential_sticky_witness:
  "\<exists>p'. getCurrentOrNextForFamilySequential demo_env 1000 ''codex'' None {} demo_pool = (Some 2, p')
     \<and> cursorByFamily p' ''codex'' = 1"
proof -
  have "currentAccountIndexByFamily demo_pool ''codex'' = 2" "length (accounts demo_pool) = 3"
      "cursorByFamily demo_pool ''codex'' = 1" by (simp_all add: demo_pool_def)
  then show ?thesis
    using sequential_sticky [OF demo_pool_ok demo_pool_room, of 1000 "''codex''" None "{}"] by (auto simp: active_start_def)
qed



section \<open>Pointers\<close>

lemma demo_pointer_inv: "pointer_inv demo_pool"
  by (auto simp: pointer_inv_def indexed_def demo_pool_def acc_def demo_account_def less_Suc_eq numeral_3_eq_3)



text \<open>
  The active account a family reports is never disabled: it is the stored one when that is
  enabled, otherwise an enabled one, and -1 exactly when every account is disabled or there is
  none (an index out of range is read as 0).
\<close>

theorem active_index_enabled:
  "(getActiveIndexForFamily p f = -1 \<longleftrightarrow> (\<forall>i < length (accounts p). ma_enabled (acc p i) = Some False))
   \<and> (getActiveIndexForFamily p f \<noteq> -1 \<longrightarrow>
       0 \<le> getActiveIndexForFamily p f \<and> getActiveIndexForFamily p f < int (length (accounts p))
       \<and> ma_enabled (acc p (nat (getActiveIndexForFamily p f))) \<noteq> Some False)
   \<and> (getCurrentAccountForFamily p f \<noteq> None \<longrightarrow>
       Some (nat (getActiveIndexForFamily p f)) = getCurrentAccountForFamily p f)"
proof -
  let ?n = "length (accounts p)" and ?c = "active_start p f"
  let ?en = "\<lambda>i. ma_enabled (acc p i) \<noteq> Some False"
  have start: "?n \<noteq> 0 \<Longrightarrow> ?c < ?n" by (auto simp: active_start_def Let_def)
  have eq: "getActiveIndexForFamily p f =
      (case List.find ?en (cyclic ?c ?n) of Some i \<Rightarrow> int i | None \<Rightarrow> -1)"
  proof (cases ?n)
    case 0
    then show ?thesis by (simp add: getActiveIndexForFamily_def cyclic_def)
  next
    case (Suc k)
    then have ne: "accounts p \<noteq> []" and c: "?c < Suc k" using start by auto
    have cyc: "cyclic ?c ?n = ?c # map (\<lambda>step. (?c + step) mod ?n) [1..<?n]"
      using c by (simp add: cyclic_def Suc upt_conv_Cons del: upt_Suc)
    have cl: "(if currentAccountIndexByFamily p f < 0 \<or> int ?n \<le> currentAccountIndexByFamily p f then 0
        else nat (currentAccountIndexByFamily p f)) = ?c" by (simp add: active_start_def Let_def)
    show ?thesis
      unfolding getActiveIndexForFamily_def Let_def cl cyc using ne by simp
  qed
  have first: "List.find ?en (cyclic ?c ?n) = Some ?c" if c: "?n \<noteq> 0" "?en ?c"
  proof -
    obtain k where k: "?n = Suc k" using c(1) by (cases "accounts p") auto
    have "cyclic ?c ?n = ?c # map (\<lambda>step. (?c + step) mod ?n) [1..<?n]"
      using start [OF c(1)] k by (simp add: cyclic_def upt_conv_Cons del: upt_Suc)
    with c(2) show ?thesis by simp
  qed
  have cur: "?n \<noteq> 0 \<and> ?en ?c \<and> i = ?c" if "getCurrentAccountForFamily p f = Some i" for i
    using that by (auto simp: getCurrentAccountForFamily_def active_start_def Let_def split: if_splits)
  show ?thesis
  proof (cases "List.find ?en (cyclic ?c ?n)")
    case None
    with cur first eq show ?thesis by (auto simp: find_None_iff_all set_cyclic)
  next
    case (Some i)
    from find_Some_iff_first [OF Some] have i: "i < ?n" "?en i" by (simp_all add: set_cyclic)
    with Some cur first eq show ?thesis by auto
  qed
qed

theorem active_index_enabled_witness:
  "getActiveIndexForFamily demo_pool ''codex'' = 2"
proof -
  have "getCurrentAccountForFamily demo_pool ''codex'' = Some 2"
    by (simp add: getCurrentAccountForFamily_def demo_pool_def acc_def demo_account_def)
  then show ?thesis
    using active_index_enabled [of demo_pool "''codex''"]
    by (auto simp: demo_pool_def acc_def demo_account_def)
qed

text \<open>
  C28. Removing an account keeps the other accounts in order and every family on the account it was
  using: an active index that named another account still names that same account, and one
  that named the removed account moves to an enabled account, or to -1 exactly when all
  remaining accounts are disabled.
\<close>

theorem removal_keeps_pointers:
  assumes "pointer_inv p" and "idx < length (accounts p)" and "f \<in> set MODEL_FAMILIES"
  shows "let p' = snd (removeAccount env idx p); old = currentAccountIndexByFamily p f;
             new = currentAccountIndexByFamily p' f
         in map refreshToken (accounts p') = without idx (map refreshToken (accounts p))
          \<and> pointer_inv p'
          \<and> (old \<noteq> int idx \<and> 0 \<le> old \<longrightarrow>
              0 \<le> new \<and> refreshToken (acc p' (nat new)) = refreshToken (acc p (nat old)))
          \<and> (old = int idx \<longrightarrow>
              (new = -1 \<longleftrightarrow> (\<forall>i < length (accounts p'). ma_enabled (acc p' i) = Some False))
              \<and> (new \<noteq> -1 \<longrightarrow> ma_enabled (acc p' (nat new)) \<noteq> Some False))"
proof -
  obtain q R where q: "accounts q = reindex (without idx (accounts p))" "cursorByFamily q = cursorByFamily p"
      "currentAccountIndexByFamily q = currentAccountIndexByFamily p"
    and r: "snd (removeAccount env idx p) =
         (if accounts q = []
          then q\<lparr>cursorByFamily := on_families (\<lambda>_ _. 0) (cursorByFamily q),
                 currentAccountIndexByFamily := on_families (\<lambda>_ _. -1) (currentAccountIndexByFamily q)\<rparr>
          else q\<lparr>cursorByFamily := on_families (\<lambda>_ c. removed_cursor idx (length (accounts q)) c) (cursorByFamily q),
                 currentAccountIndexByFamily := on_families (\<lambda>_ a. removed_active q idx a) (currentAccountIndexByFamily q),
                 accounts := map (\<lambda>(i, a). if i \<in> set R then a\<lparr>lastSwitchReason := Some SwitchRotation\<rparr> else a)
                     (enumerate 0 (accounts q))\<rparr>)"
    using removeAccount_result [OF assms(2), of env] unfolding Let_def by fastforce
  define p' where "p' = snd (removeAccount env idx p)"
  define old where "old = currentAccountIndexByFamily p f"
  have len: "length (accounts q) = length (accounts p) - 1" using q(1) assms(2) by (simp add: length_without)
  have tok_q: "map refreshToken (accounts q) = without idx (map refreshToken (accounts p))"
    unfolding q(1) refresh_reindex by (simp add: without_def take_map drop_map)
  have acc': "accounts p' = (if accounts q = [] then accounts q
      else map (\<lambda>(i, a). if i \<in> set R then a\<lparr>lastSwitchReason := Some SwitchRotation\<rparr> else a) (enumerate 0 (accounts q)))"
    unfolding p'_def r by simp
  have fields: "map refreshToken (accounts p') = map refreshToken (accounts q) \<and> map ma_enabled (accounts p') = map ma_enabled (accounts q)"
    by (cases "accounts q = []") (simp_all only: acc' if_True if_False simp_thms retarget_fields)
  have len': "length (accounts p') = length (accounts q)" using fields map_eq_imp_length_eq by blast
  have en: "ma_enabled (acc p' i) = ma_enabled (acc q i)" if "i < length (accounts q)" for i
    using fields that len' by (metis acc_def nth_map)
  have tok: "refreshToken (acc p' i) = refreshToken (acc p (if i < idx then i else Suc i))" if "i < length (accounts q)" for i
  proof -
    have "refreshToken (acc p' i) = without idx (map refreshToken (accounts p)) ! i"
      using fields tok_q that len' by (metis acc_def nth_map)
    then show ?thesis using that len assms(2) by (simp add: nth_without acc_def)
  qed
  have range: "-1 \<le> old" "old < int (length (accounts p))"
    using assms(1,3) by (simp_all add: pointer_inv_def old_def)
  have inv: "pointer_inv p'" unfolding p'_def by (rule pointer_inv_remove [OF assms(1)])
  have new: "currentAccountIndexByFamily p' f = (if accounts q = [] then -1 else removed_active q idx old)"
    using assms(3) by (simp add: p'_def r on_families_def q(3) old_def)
  have other: "0 \<le> currentAccountIndexByFamily p' f
      \<and> refreshToken (acc p' (nat (currentAccountIndexByFamily p' f))) = refreshToken (acc p (nat old))"
    if o: "old \<noteq> int idx" "0 \<le> old"
  proof -
    obtain a where a: "old = int a" using o(2) nonneg_int_cases by blast
    have "accounts q \<noteq> []" using range o a assms(2) len by auto
    with new have "currentAccountIndexByFamily p' f = (if a > idx then int (a - 1) else int a)"
      using range o a len assms(2) by (auto simp: removed_active_def Let_def)
    then have nw: "nat (currentAccountIndexByFamily p' f) = (if a > idx then a - 1 else a)"
        "0 \<le> currentAccountIndexByFamily p' f"
      by auto
    show ?thesis
    proof (cases "a > idx")
      case True
      then have "a - 1 < length (accounts q)" "Suc (a - 1) = a" using a range len by auto
      with tok [of "a - 1"] True a nw show ?thesis by auto
    next
      case False
      then have "a < idx" using o a by simp
      with tok [of a] a nw len assms(2) show ?thesis by auto
    qed
  qed
  have self: "(currentAccountIndexByFamily p' f = -1 \<longleftrightarrow> (\<forall>i < length (accounts p'). ma_enabled (acc p' i) = Some False))
      \<and> (currentAccountIndexByFamily p' f \<noteq> -1 \<longrightarrow> ma_enabled (acc p' (nat (currentAccountIndexByFamily p' f))) \<noteq> Some False)"
    if o: "old = int idx"
  proof (cases "accounts q = []")
    case True
    with new len' show ?thesis by simp
  next
    case False
    define s where "s = min idx (length (accounts q) - 1)"
    have fb: "findNextEnabled q s < int (length (accounts q))" "-1 \<le> findNextEnabled q s"
      using findNextEnabled_bound [of q s] by auto
    then have nw: "currentAccountIndexByFamily p' f = findNextEnabled q s"
      using False new o by (auto simp: removed_active_def Let_def s_def)
    have "findNextEnabled q s = -1 \<longleftrightarrow> (\<forall>i < length (accounts p'). ma_enabled (acc p' i) = Some False)"
      unfolding findNextEnabled_exact(1) len' using en by auto
    moreover have "ma_enabled (acc p' (nat (findNextEnabled q s))) \<noteq> Some False" if "findNextEnabled q s \<noteq> -1"
    proof -
      have "nat (findNextEnabled q s) < length (accounts q)" using fb that by auto
      from en [OF this] findNextEnabled_exact(2) [OF that] show ?thesis by simp
    qed
    ultimately show ?thesis unfolding nw by blast
  qed
  show ?thesis
    unfolding Let_def p'_def [symmetric] old_def [symmetric] using fields tok_q inv other self by auto
qed

theorem removal_keeps_pointers_witness:
  "let p' = snd (removeAccount demo_env 0 demo_pool)
   in refreshToken (acc p' (nat (currentAccountIndexByFamily p' ''codex''))) = ''r2''"
proof -
  have "''codex'' \<in> set MODEL_FAMILIES" by (simp add: MODEL_FAMILIES_def)
  moreover have "0 < length (accounts demo_pool)" "currentAccountIndexByFamily demo_pool ''codex'' = 2"
    "refreshToken (acc demo_pool 2) = ''r2''"
    by (simp_all add: demo_pool_def acc_def demo_account_def)
  ultimately show ?thesis
    using removal_keeps_pointers [OF demo_pointer_inv, of 0 "''codex''" demo_env] by (simp add: Let_def)
qed

section \<open>Gates and admission\<close>

lemma skip_reason_ok:
  assumes ok: "pool_ok p" and i: "i < length (accounts p)" and room: "room env p" and now: "0 \<le> now"
  shows "\<exists>p'. getManagedAccountRuntimeSkipReason env now i f m p =
      (if ma_enabled (acc p i) = Some False then Some SkipDisabled
       else if \<not> hasEnabledWorkspaces (acc p i) then Some SkipWorkspaceDisabled
       else if isAccountAuthInvalidated (acc p i) then Some SkipTokenInvalid
       else if gate_limited env now f m (acc p i) then Some SkipRateLimited
       else if cooling now (acc p i) then Some (SkipCoolingDown (cooldownReason (acc p i)))
       else if \<not> circuit_ok now p (circuit_key env (acc p i)) then Some SkipCircuitOpen else None, p')
    \<and> quiet env now p p'"
proof -
  let ?a = "acc p i"
  let ?a2 = "clearExpiredRateLimits now (clearExpiredRateLimits now ?a)"
  have aok: "account_ok ?a" by (rule account_ok_acc [OF ok i])
  have v1: "same_view env now ?a (clearExpiredRateLimits now ?a)" by (rule same_view_clearExpired [OF aok now])
  then have aok1: "account_ok (clearExpiredRateLimits now ?a)" using aok by (simp add: same_view_def)
  have v2: "same_view env now ?a ?a2" by (rule same_view_trans [OF v1 same_view_clearExpired [OF aok1 now]])
  have lim: "isRateLimitedForFamily (env_claim env) now (clearExpiredRateLimits now ?a) f m = (gate_limited env now f m ?a, ?a2)"
    using isRateLimitedForFamily_gate [OF aok1 now, of env f m] v1 by (simp add: same_view_def)
  obtain a3 where a3: "isAccountCoolingDown now ?a2 = (cooling now ?a2, a3)" "same_view env now ?a2 a3"
      "cooling now ?a2 \<Longrightarrow> a3 = ?a2"
    using isAccountCoolingDown_ok by blast
  have cool: "cooling now ?a2 = cooling now ?a" using v2 by (simp add: same_view_def)
  have reason: "cooldownReason ?a2 = cooldownReason ?a" by (simp add: clearExpiredRateLimits_def)
  have v3: "same_view env now ?a a3" by (rule same_view_trans [OF v2 a3(2)])
  have q2: "quiet env now p (set_acc i ?a2 p)" by (rule quiet_set_acc [OF ok i room v2])
  have q3: "quiet env now p (set_acc i a3 p)" by (rule quiet_set_acc [OF ok i room v3])
  have key: "circuit_key env (acc (set_acc i a3 p) i) = circuit_key env ?a"
    using same_view_circuit_key [OF v3] i by (simp add: acc_set_acc)
  obtain p' where p': "isCircuitAvailable env now i (set_acc i a3 p) = (circuit_ok now p (circuit_key env ?a), p')"
      "quiet env now (set_acc i a3 p) p'"
    using isCircuitAvailable_ok [of "set_acc i a3 p" i env now now] q3 i unfolding quiet_def key by auto
  note eqs = getManagedAccountRuntimeSkipReason_def lim a3(1) cool p'(1) prod.case Let_def
  have refl: "quiet env now p p" using ok room by (simp add: quiet_def)
  consider "ma_enabled ?a = Some False \<or> \<not> hasEnabledWorkspaces ?a \<or> isAccountAuthInvalidated ?a"
    | "gate_limited env now f m ?a" "ma_enabled ?a \<noteq> Some False" "hasEnabledWorkspaces ?a" "\<not> isAccountAuthInvalidated ?a"
    | "cooling now ?a" "\<not> gate_limited env now f m ?a" "ma_enabled ?a \<noteq> Some False" "hasEnabledWorkspaces ?a"
      "\<not> isAccountAuthInvalidated ?a"
    | "\<not> cooling now ?a" "\<not> gate_limited env now f m ?a" "ma_enabled ?a \<noteq> Some False" "hasEnabledWorkspaces ?a"
      "\<not> isAccountAuthInvalidated ?a"
    by blast
  then show ?thesis
  proof cases
    case 1
    then show ?thesis using refl by (auto simp: eqs)
  next
    case 2
    then show ?thesis using q2 by (auto simp: eqs)
  next
    case 3
    then show ?thesis using q3 a3(3) cool reason by (auto simp: eqs)
  next
    case 4
    then show ?thesis using quiet_trans [OF q3 p'(2)] by (auto simp: eqs)
  qed
qed

text \<open>
  The three availability answers agree: the reported skip reason is absent exactly when
  \<open>isAccountAvailableForFamily\<close> says yes, exactly when the account is routable (so that a selector
  may return it), and asking changes the routability of no account, now or later.
\<close>

theorem skip_reason_agrees:
  assumes "pool_ok p" and "getAccountByIndex p index = Some i" and "room env p" and "0 \<le> now"
  shows "let (reason, p1) = getAccountRuntimeSkipReason env now index f m p;
             (available, p2) = isAccountAvailableForFamily env now index f m p
         in (reason = None \<longleftrightarrow> routable env now f m {} p i) \<and> (available \<longleftrightarrow> routable env now f m {} p i)
          \<and> quiet env now p p1 \<and> quiet env now p p2
          \<and> (\<forall>j < length (accounts p). \<forall>t f m b. now \<le> t \<longrightarrow> routable env t f m b p1 j = routable env t f m b p j)"
proof -
  have i: "i < length (accounts p)" by (rule getAccountByIndex_bound [OF assms(2)])
  obtain p1 where p1: "getManagedAccountRuntimeSkipReason env now i f m p =
      (if ma_enabled (acc p i) = Some False then Some SkipDisabled
       else if \<not> hasEnabledWorkspaces (acc p i) then Some SkipWorkspaceDisabled
       else if isAccountAuthInvalidated (acc p i) then Some SkipTokenInvalid
       else if gate_limited env now f m (acc p i) then Some SkipRateLimited
       else if cooling now (acc p i) then Some (SkipCoolingDown (cooldownReason (acc p i)))
       else if \<not> circuit_ok now p (circuit_key env (acc p i)) then Some SkipCircuitOpen else None, p1)"
      "quiet env now p p1"
    using skip_reason_ok [OF assms(1) i assms(3,4), of f m] by blast
  obtain p2 where p2: "is_usable env now f m {} i p = (routable env now f m {} p i, p2)" "quiet env now p p2"
    using is_usable_ok [OF assms(1) i assms(3,4)] by blast
  have "(fst (getManagedAccountRuntimeSkipReason env now i f m p) = None) = routable env now f m {} p i"
    unfolding p1(1) by (auto simp: routable_def gates_open_def)
  moreover have "routable env t f m b p1 j = routable env t f m b p j" if "j < length (accounts p)" "now \<le> t" for t f m b j
    using p1(2) that by (intro kept_routable) (auto simp: quiet_def)
  ultimately show ?thesis
    using p1 p2 assms(2) by (simp add: getAccountRuntimeSkipReason_def isAccountAvailableForFamily_def)
qed

theorem skip_reason_agrees_witness:
  "fst (getAccountRuntimeSkipReason demo_env 1000 (Finite 1) ''codex'' None demo_pool) = None"
proof -
  have "getAccountByIndex demo_pool (Finite 1) = Some 1" by (simp add: getAccountByIndex_def demo_pool_def)
  from skip_reason_agrees [OF demo_pool_ok this demo_pool_room, of 1000 "''codex''" None] demo_routable [of 1000 1]
  show ?thesis by (auto simp: Let_def split: prod.splits)
qed

lemma refill_refill:
  assumes "bucket_config_ok c" and "now \<le> t"
  shows "min (min (x + refill_over c l now) (maxTokens c) + refill_over c now t) (maxTokens c)
    = min (x + refill_over c l t) (maxTokens c)"
  using refill_over_nonneg [OF assms] refill_over_add [of c l now t] by (simp add: min_def)

lemma remove_first_all: "\<forall>x \<in> set xs. q x \<Longrightarrow> xs \<noteq> [] \<Longrightarrow> \<exists>ys. remove_first q xs = Some ys"
  by (cases xs) simp_all

lemma tokens_at_update:
  "tokens_at (tr\<lparr>tb_buckets := jm_set k b m\<rparr>) t key =
     (if key = k then refillTokens (tb_config tr) t b else tokens_at (tr\<lparr>tb_buckets := m\<rparr>) t key)"
  by (simp add: tokens_at_def jm_get_set split: option.split)

lemma refund_after_consume:
  assumes "fst (tryConsume tr now k q)" and "bucket_config_ok (tb_config tr)" and "now \<le> t"
  shows "tokens_at (snd (refundToken (snd (tryConsume tr now k q)) now k q)) t key = tokens_at tr t key"
proof -
  let ?key = "normalizeTrackerKey k q"
  let ?g = "tokens_at tr now ?key"
  let ?cons = "filter (\<lambda>x. now - TOKEN_REFUND_WINDOW_MS \<le> x)
                 (case jm_get (tb_buckets tr) ?key of None \<Rightarrow> [] | Some e \<Rightarrow> consumptions e) @ [now]"
  let ?tr1 = "tr\<lparr>tb_buckets := jm_set ?key \<lparr>tokens = ?g - 1, lastRefill = now, consumptions = ?cons\<rparr> (tb_buckets tr)\<rparr>"
  have t1: "snd (tryConsume tr now k q) = ?tr1" using assms(1) by (auto simp: tryConsume_alt getTokens_at split: if_splits)
  have "\<forall>x \<in> set ?cons. now - TOKEN_REFUND_WINDOW_MS \<le> x" by (simp add: TOKEN_REFUND_WINDOW_MS_def)
  from remove_first_all [OF this] obtain rest
    where rest: "remove_first (\<lambda>x. now - TOKEN_REFUND_WINDOW_MS \<le> x) ?cons = Some rest" by blast
  have le: "?g \<le> maxTokens (tb_config tr)"
    by (auto simp: tokens_at_def refillTokens_alt split: option.split)
  have self: "refillTokens (tb_config tr) now \<lparr>tokens = ?g - 1, lastRefill = now, consumptions = ?cons\<rparr> = ?g - 1"
    using le by (simp add: refillTokens_alt)
  have "refundToken ?tr1 now k q = (True, ?tr1\<lparr>tb_buckets := jm_set ?key
      \<lparr>tokens = min (?g - 1 + 1) (maxTokens (tb_config tr)), lastRefill = now, consumptions = rest\<rparr> (tb_buckets ?tr1)\<rparr>)"
    using rest self by (simp add: refundToken_def Let_def jm_simps)
  then have "tokens_at (snd (refundToken ?tr1 now k q)) t key =
      (if key = ?key then min (?g + refill_over (tb_config tr) now t) (maxTokens (tb_config tr)) else tokens_at tr t key)"
    using le by (simp add: tokens_at_update refillTokens_alt)
  also have "\<dots> = tokens_at tr t key"
  proof (cases "jm_get (tb_buckets tr) ?key")
    case None
    then show ?thesis using refill_over_nonneg [OF assms(2,3)] by (simp add: tokens_at_def)
  next
    case (Some b)
    then show ?thesis
      using refill_refill [OF assms(2,3), of "tokens b" "lastRefill b"] by (simp add: tokens_at_def refillTokens_alt)
  qed
  finally show ?thesis by (simp only: t1)
qed

lemma tokens_after_consume:
  assumes "fst (tryConsume tr now k q)"
  shows "tokens_at (snd (tryConsume tr now k q)) now key =
      tokens_at tr now key - (if key = normalizeTrackerKey k q then 1 else 0)"
proof -
  have "tokens_at tr now (normalizeTrackerKey k q) \<le> maxTokens (tb_config tr)"
    by (auto simp: tokens_at_def refillTokens_alt split: option.split)
  then show ?thesis
    using assms by (auto simp: tryConsume_alt getTokens_at tokens_at_set refillTokens_alt split: if_splits)
qed

lemma breaker_only_registers:
  assumes "account_breaker env now i p = (b, k, p')"
  shows "tokenTracker p' = tokenTracker p \<and> healthTracker p' = healthTracker p"
  using assms by (auto simp: account_breaker_def getAccountCircuitKey_def Let_def set_acc_def
      split: prod.splits if_splits option.splits)

text \<open>
  C17. Admission to an account is all or nothing.  A request the circuit breaker turns away gets its
  token back: the bucket answers the same from then on as if nothing had been asked.  A request
  refused for lack of a token found less than one and touched neither buckets nor breakers, and
  an admitted one costs exactly one token of its account and quota (none when the bucket is
  bypassed), and no other bucket anything.
\<close>

theorem admission_balanced:
  assumes "bucket_config_ok (tb_config (tokenTracker p))" and "now \<le> t"
  shows "let (result, p') = consumeTokenWithReason env now i f m bypass p;
             key = normalizeTrackerKey (tracker_key env (acc p i)) (Some (getQuotaKey f m))
         in case result of
              CircuitIsOpen \<Rightarrow> (\<forall>k. tokens_at (tokenTracker p') t k = tokens_at (tokenTracker p) t k)
            | TokenExhausted \<Rightarrow> \<not> bypass \<and> tokens_at (tokenTracker p) now key < 1
                \<and> tokenTracker p' = tokenTracker p \<and> circuitBreakers p' = circuitBreakers p
            | ConsumeOk probe \<Rightarrow> (\<forall>k. tokens_at (tokenTracker p') now k =
                tokens_at (tokenTracker p) now k - (if k = key \<and> \<not> bypass then 1 else 0))"
proof -
  let ?q = "Some (getQuotaKey f m)" and ?k = "tracker_key env (acc p i)"
  let ?key = "normalizeTrackerKey ?k ?q"
  let ?p = "set_acc i ((acc p i)\<lparr>runtimeTrackerKey := Some ?k\<rparr>) p"
  have at: "tracker_key_at env i p = (?k, ?p)" by (simp add: tracker_key_at_def getRuntimeTrackerKey_alt)
  obtain g tt where g: "(if bypass then (True, tokenTracker p) else tryConsume (tokenTracker p) now ?k ?q) = (g, tt)"
    by fastforce
  obtain b ck p1 where p1: "account_breaker env now i (?p\<lparr>tokenTracker := tt\<rparr>) = (b, ck, p1)" by (metis prod_cases3)
  have tt: "tokenTracker p1 = tt" using breaker_only_registers [OF p1] by simp
  show ?thesis
  proof (cases g)
    case False
    with g have "\<not> bypass" "tokens_at (tokenTracker p) now ?key < 1" "tt = tokenTracker p"
      by (auto simp: tryConsume_alt getTokens_at split: if_splits)
    with False g show ?thesis by (simp add: consumeTokenWithReason_def at Let_def)
  next
    case True
    obtain ad pr b' where ad: "tryCanExecute b now = (ad, pr, b')" by (metis prod_cases3)
    have res: "consumeTokenWithReason env now i f m bypass p =
      (case ad of Rejected r ms \<Rightarrow> (CircuitIsOpen, if bypass then put_breaker ck b' p1
           else (put_breaker ck b' p1)\<lparr>tokenTracker := snd (refundToken tt now ?k ?q)\<rparr>)
       | Admitted \<Rightarrow> (ConsumeOk pr, put_breaker ck b' p1))"
      unfolding consumeTokenWithReason_def at Let_def prod.case set_acc_fields g p1 ad
      using True tt by (cases ad) (simp_all add: put_breaker_def)
    show ?thesis
    proof (cases bypass)
      case True
      with g have "tt = tokenTracker p" by simp
      with True res tt show ?thesis by (cases ad) (simp_all add: Let_def put_breaker_def)
    next
      case no: False
      with g True have c: "fst (tryConsume (tokenTracker p) now ?k ?q)" "tt = snd (tryConsume (tokenTracker p) now ?k ?q)"
        by simp_all
      show ?thesis
        using no res tt refund_after_consume [OF c(1) assms] tokens_after_consume [OF c(1)] c(2)
        by (cases ad) (simp_all add: Let_def put_breaker_def)
    qed
  qed
qed

theorem admission_balanced_witness:
  "\<exists>probe p'. consumeTokenWithReason demo_env 1000 0 ''codex'' None False demo_pool = (ConsumeOk probe, p')
     \<and> tokens_at (tokenTracker p') 1000 (normalizeTrackerKey (NumKey 0) (Some ''codex'')) = 49"
proof -
  have id: "tracker_key demo_env (acc demo_pool 0) = NumKey 0"
    by (simp add: tracker_key_def acc_def demo_pool_def demo_account_def getRuntimeAccountIdentityKey_def
        toAccountIdentityRef_def getIdentityKeyFromRef_def normalizeAccountIdKey_def normalizeEmailKey_def
        normalizeRefreshTokenKey_def trimmed_key_def)
  have qk: "getQuotaKey ''codex'' None = ''codex''" by (simp add: getQuotaKey_def truthy_string_def)
  have start: "tokens_at (tokenTracker demo_pool) 1000 k = 50" for k
    by (simp add: tokens_at_def demo_pool_def token_new_def DEFAULT_TOKEN_BUCKET_CONFIG_def)
  have cfg: "bucket_config_ok (tb_config (tokenTracker demo_pool))" by (simp add: demo_pool_def token_new_def)
  let ?p = "set_acc 0 ((acc demo_pool 0)\<lparr>runtimeTrackerKey := Some (NumKey 0)\<rparr>) demo_pool"
  obtain tt where c: "tryConsume (tokenTracker demo_pool) 1000 (NumKey 0) (Some ''codex'') = (True, tt)"
    by (simp add: tryConsume_alt getTokens_at start)
  have "quiet demo_env 1000 demo_pool ?p"
    using quiet_set_acc [OF demo_pool_ok _ demo_pool_room same_view_tracker_key, of 0 1000] unfolding id
    by (simp add: demo_pool_def)
  then have "pool_ok (?p\<lparr>tokenTracker := tt\<rparr>)" "room demo_env (?p\<lparr>tokenTracker := tt\<rparr>)"
      "0 < length (accounts (?p\<lparr>tokenTracker := tt\<rparr>))"
    by (simp_all add: quiet_def pool_ok_def room_def unregistered_def) (simp add: demo_pool_def)
  moreover have "circuitBreakers (?p\<lparr>tokenTracker := tt\<rparr>) = []" by (simp add: demo_pool_def)
  ultimately obtain ck p1 where b: "account_breaker demo_env 1000 0 (?p\<lparr>tokenTracker := tt\<rparr>) = (breaker_new id 1000, ck, p1)"
    using account_breaker_ok [where p = "?p\<lparr>tokenTracker := tt\<rparr>" and i = 0 and env = demo_env and now = 1000 and t = 0]
    by (auto simp: jm_get_def)
  have "tryCanExecute (breaker_new id 1000) 1000 = (Admitted, None, breaker_new id 1000)"
    by (simp add: tryCanExecute_def breaker_new_def)
  with b c have "consumeTokenWithReason demo_env 1000 0 ''codex'' None False demo_pool
      = (ConsumeOk None, put_breaker ck (breaker_new id 1000) p1)"
    by (simp add: consumeTokenWithReason_def tracker_key_at_def getRuntimeTrackerKey_alt id qk)
  note run = this
  have "\<forall>k. tokens_at (tokenTracker (put_breaker ck (breaker_new id 1000) p1)) 1000 k = tokens_at (tokenTracker demo_pool) 1000 k
      - (if k = normalizeTrackerKey (NumKey 0) (Some ''codex'') \<and> \<not> False then 1 else 0)"
    using admission_balanced [OF cfg order_refl, where now = 1000 and env = demo_env and i = 0 and f = "''codex''"
        and m = None and bypass = False]
    unfolding run Let_def prod.case consume_result.case id qk .
  from this [THEN spec, of "normalizeTrackerKey (NumKey 0) (Some ''codex'')"] run start show ?thesis by simp
qed

text \<open>
  A cooldown takes the account out of routing for every family and model exactly until its
  deadline, \<open>now\<close> plus the whole milliseconds asked for (never in the past), after which it is
  routable as if it had no cooldown; no other account is affected.
\<close>

theorem cooldown_until_deadline:
  assumes "i < length (accounts p)"
  shows "(routable env t f m b (markAccountCoolingDown i now ms reason p) i \<longleftrightarrow>
       now + max 0 (js_floor ms) \<le> t \<and> routable env t f m b (set_acc i (clearAccountCooldown (acc p i)) p) i)
    \<and> (\<forall>j. j \<noteq> i \<longrightarrow> routable env t f m b (markAccountCoolingDown i now ms reason p) j = routable env t f m b p j)"
proof -
  have "gate_limited env t f m (markCoolingDown (acc p i) now ms reason) = gate_limited env t f m (clearAccountCooldown (acc p i))"
    by (rule gate_limited_cong) (simp_all add: markCoolingDown_def clearAccountCooldown_def)
  moreover have "cooling t (markCoolingDown (acc p i) now ms reason) \<longleftrightarrow> \<not> now + max 0 (js_floor ms) \<le> t"
    by (simp add: cooling_def markCoolingDown_def not_le)
  moreover have "\<not> cooling t (clearAccountCooldown (acc p i))"
    by (simp add: cooling_def clearAccountCooldown_def)
  moreover have "circuit_key env (markCoolingDown a now ms reason) = circuit_key env a
      \<and> isAccountAuthInvalidated (markCoolingDown a now ms reason) = isAccountAuthInvalidated a
      \<and> hasEnabledWorkspaces (markCoolingDown a now ms reason) = hasEnabledWorkspaces a
      \<and> ma_enabled (markCoolingDown a now ms reason) = ma_enabled a \<and> ma_index (markCoolingDown a now ms reason) = ma_index a" for a
    by (simp add: markCoolingDown_def circuit_key_def isAccountAuthInvalidated_def hasEnabledWorkspaces_def tracked_workspaces_def)
  moreover have "circuit_key env (clearAccountCooldown a) = circuit_key env a
      \<and> isAccountAuthInvalidated (clearAccountCooldown a) = isAccountAuthInvalidated a
      \<and> hasEnabledWorkspaces (clearAccountCooldown a) = hasEnabledWorkspaces a
      \<and> ma_enabled (clearAccountCooldown a) = ma_enabled a \<and> ma_index (clearAccountCooldown a) = ma_index a" for a
    by (simp add: clearAccountCooldown_def circuit_key_def isAccountAuthInvalidated_def hasEnabledWorkspaces_def
        tracked_workspaces_def)
  ultimately show ?thesis
    using assms by (auto simp: routable_def markAccountCoolingDown_def acc_set_acc gates_open_def)
qed

theorem cooldown_until_deadline_witness:
  "\<not> routable demo_env 5999 ''codex'' None {} (markAccountCoolingDown 0 1000 (10001 / 2) ServerError demo_pool) 0
   \<and> routable demo_env 5999 ''codex'' None {} (markAccountCoolingDown 0 1000 (10001 / 2) ServerError demo_pool) 1"
proof -
  have "0 < length (accounts demo_pool)" by (simp add: demo_pool_def)
  moreover have "js_floor (10001 / 2) = 5000" by code_simp
  ultimately show ?thesis
    using cooldown_until_deadline [of 0 demo_pool demo_env 5999 "''codex''" None "{}" 1000 "10001 / 2" ServerError]
      demo_routable [of 5999 1] by auto
qed

end
