(* ===== verification/Backoff.thy ===== *)
theory Backoff
  imports RateLimits
begin

text \<open>
  Delays: the jittered exponential backoff of \<open>lib/rotation.ts\<close> (\<open>addJitter\<close>, \<open>randomDelay\<close>,
  \<open>exponentialBackoff\<close>) and the rate limit backoff of \<open>lib/request/rate-limit-backoff.ts\<close>
  with its per-account state and its module-level configuration.

  A call of \<open>Math.random()\<close> is an argument \<open>r\<close> with \<open>0 \<le> r < 1\<close>.  Powers are exact, so
  the overflow of \<open>2 ** (attempt - 1)\<close> to \<open>Infinity\<close> above attempt 1024 is not modelled.
  \<open>getRateLimitBackoff\<close> reads the clock twice in one synchronous call; it is one argument.
\<close>

section \<open>Delays of the rotation module\<close>

definition addJitter :: "jsnum \<Rightarrow> jsnum \<Rightarrow> jsnum \<Rightarrow> jsnum" where
  "addJitter baseMs jitterFactor r =
     (let jitter = baseMs * jitterFactor * (r * 2 - 1)
      in max 0 (js_floor (baseMs + jitter)))"

definition randomDelay :: "jsnum \<Rightarrow> jsnum \<Rightarrow> jsnum \<Rightarrow> jsnum" where
  "randomDelay minMs maxMs r = js_floor (minMs + r * (maxMs - minMs))"

record backoff_options =
  bo_attempt :: jsval
  bo_baseMs :: "jsval option"
  bo_maxMs :: "jsval option"
  bo_jitterFactor :: "jsval option"

datatype type_error = TypeError string

fun finite_in :: "(jsnum \<Rightarrow> bool) \<Rightarrow> jsval \<Rightarrow> jsnum option" where
  "finite_in ok (Finite x) = (if ok x then Some x else None)"
| "finite_in ok NonFinite = None"

definition is_integer :: "jsnum \<Rightarrow> bool" where
  "is_integer x \<longleftrightarrow> js_floor x = x"

text \<open>Both call forms resolve to the options record: positional defaults equal the named ones.\<close>

definition exponentialBackoff :: "backoff_options \<Rightarrow> jsnum \<Rightarrow> type_error + jsnum" where
  "exponentialBackoff opts r =
     (case finite_in (\<lambda>x. is_integer x \<and> \<not> x < 1) (bo_attempt opts) of
        None \<Rightarrow> Inl (TypeError ''exponentialBackoff requires attempt to be a positive integer'')
      | Some attempt \<Rightarrow>
        (case finite_in (\<lambda>x. \<not> x < 0) (nullish (bo_baseMs opts) (Finite 1000)) of
           None \<Rightarrow> Inl (TypeError ''exponentialBackoff requires baseMs to be a finite non-negative number'')
         | Some baseMs \<Rightarrow>
           (case finite_in (\<lambda>x. \<not> x < 0) (nullish (bo_maxMs opts) (Finite 60000)) of
              None \<Rightarrow> Inl (TypeError ''exponentialBackoff requires maxMs to be a finite non-negative number'')
            | Some maxMs \<Rightarrow>
              (case finite_in (\<lambda>x. \<not> x < 0 \<and> \<not> x > 1) (nullish (bo_jitterFactor opts) (Finite (1/10))) of
                 None \<Rightarrow> Inl (TypeError ''exponentialBackoff requires jitterFactor to be between 0 and 1'')
               | Some jitter \<Rightarrow>
                   let delay = min (baseMs * 2 ^ nat (\<lfloor>attempt\<rfloor> - 1)) maxMs
                   in Inr (addJitter delay jitter r)))))"

section \<open>Configuration of the rate limit backoff\<close>

record rl_config =
  dedupWindowMs :: jsnum
  stateResetMs :: jsnum
  maxBackoffMs :: jsnum
  shortRetryThresholdMs :: jsnum

definition default_rl_config :: rl_config where
  "default_rl_config = \<lparr>dedupWindowMs = 2000, stateResetMs = 120000, maxBackoffMs = 60000,
     shortRetryThresholdMs = 5000\<rparr>"

record rl_overrides =
  ov_dedupWindowMs :: "jsval option"
  ov_stateResetMs :: "jsval option"
  ov_maxBackoffMs :: "jsval option"
  ov_shortRetryThresholdMs :: "jsval option"

definition MAX_SHORT_RETRY_ATTEMPTS :: nat where
  "MAX_SHORT_RETRY_ATTEMPTS = 3"

definition RATE_LIMIT_BACKOFF_JITTER_FACTOR :: jsnum where
  "RATE_LIMIT_BACKOFF_JITTER_FACTOR = 2/10"

record rl_state =
  consecutive429 :: nat
  lastAt :: jsnum
  rl_quotaKey :: string
  lastDelayMs :: jsnum

record rl_backoff =
  rlc :: rl_config
  rateLimitStateByAccountQuota :: "(string, rl_state) jsmap"

definition rl_new :: rl_backoff where
  "rl_new = \<lparr>rlc = default_rl_config, rateLimitStateByAccountQuota = []\<rparr>"

definition configured :: "jsnum \<Rightarrow> jsval option \<Rightarrow> jsnum \<Rightarrow> jsnum" where
  "configured least override old = (case override of Some (Finite x) \<Rightarrow> max least (js_floor x) | _ \<Rightarrow> old)"

definition configureRateLimitBackoff :: "rl_overrides \<Rightarrow> rl_backoff \<Rightarrow> rl_backoff" where
  "configureRateLimitBackoff overrides b = b\<lparr>rlc :=
     \<lparr>dedupWindowMs = configured 0 (ov_dedupWindowMs overrides) (dedupWindowMs (rlc b)),
      stateResetMs = configured 1000 (ov_stateResetMs overrides) (stateResetMs (rlc b)),
      maxBackoffMs = configured 1000 (ov_maxBackoffMs overrides) (maxBackoffMs (rlc b)),
      shortRetryThresholdMs = configured 0 (ov_shortRetryThresholdMs overrides) (shortRetryThresholdMs (rlc b))\<rparr>\<rparr>"

definition resetRateLimitBackoffConfig :: "rl_backoff \<Rightarrow> rl_backoff" where
  "resetRateLimitBackoffConfig b = b\<lparr>rlc := default_rl_config\<rparr>"

definition getRateLimitShortRetryThresholdMs :: "rl_backoff \<Rightarrow> jsnum" where
  "getRateLimitShortRetryThresholdMs b = shortRetryThresholdMs (rlc b)"

section \<open>The backoff\<close>

definition resolveRateLimitStateKey :: "nat \<Rightarrow> string \<Rightarrow> string option \<Rightarrow> string" where
  "resolveRateLimitStateKey accountIndex quotaKey stableAccountKey =
     (let normalized = map_option js_trim stableAccountKey;
          accountStateKey = (case normalized of
              Some k \<Rightarrow> if k \<noteq> [] then k else ''slot:'' @ show_nat accountIndex
            | None \<Rightarrow> ''slot:'' @ show_nat accountIndex)
      in accountStateKey @ '':'' @ quotaKey)"

definition normalizeDelayMs :: "jsval option \<Rightarrow> jsnum \<Rightarrow> jsnum" where
  "normalizeDelayMs v fallback =
     (let candidate = (case v of Some (Finite x) \<Rightarrow> x | _ \<Rightarrow> fallback) in max 0 (js_floor candidate))"

definition addBackoffJitter :: "jsnum \<Rightarrow> jsnum \<Rightarrow> jsnum" where
  "addBackoffJitter baseMs r =
     (let jitter = baseMs * RATE_LIMIT_BACKOFF_JITTER_FACTOR * (r * 2 - 1)
      in max 0 (js_floor (baseMs + jitter)))"

definition pruneStaleRateLimitState :: "jsnum \<Rightarrow> rl_backoff \<Rightarrow> rl_backoff" where
  "pruneStaleRateLimitState now b = b\<lparr>rateLimitStateByAccountQuota :=
     jm_remove_if (\<lambda>key state. now - lastAt state > stateResetMs (rlc b)) (rateLimitStateByAccountQuota b)\<rparr>"

record backoff_result =
  br_attempt :: nat
  br_delayMs :: jsnum
  br_isDuplicate :: bool

definition getRateLimitBackoff ::
  "rl_backoff \<Rightarrow> jsnum \<Rightarrow> jsnum \<Rightarrow> nat \<Rightarrow> string \<Rightarrow> jsval option \<Rightarrow> string option
     \<Rightarrow> backoff_result \<times> rl_backoff" where
  "getRateLimitBackoff b now r accountIndex quotaKey serverRetryAfterMs stableAccountKey =
     (let b = pruneStaleRateLimitState now b;
          stateKey = resolveRateLimitStateKey accountIndex quotaKey stableAccountKey;
          previous = jm_get (rateLimitStateByAccountQuota b) stateKey;
          baseDelay = normalizeDelayMs serverRetryAfterMs 1000;
          fresh = (\<lambda>attempt.
            let backoffDelay = min (baseDelay * 2 ^ (attempt - 1)) (maxBackoffMs (rlc b));
                jitteredDelay = min (addBackoffJitter backoffDelay r) (maxBackoffMs (rlc b));
                delayMs = max baseDelay jitteredDelay
            in (\<lparr>br_attempt = attempt, br_delayMs = delayMs, br_isDuplicate = False\<rparr>,
                b\<lparr>rateLimitStateByAccountQuota := jm_set stateKey
                    \<lparr>consecutive429 = attempt, lastAt = now, rl_quotaKey = quotaKey, lastDelayMs = delayMs\<rparr>
                    (rateLimitStateByAccountQuota b)\<rparr>))
      in case previous of
           Some p \<Rightarrow>
             if now - lastAt p < dedupWindowMs (rlc b)
             then (\<lparr>br_attempt = consecutive429 p, br_delayMs = lastDelayMs p, br_isDuplicate = True\<rparr>, b)
             else fresh (if now - lastAt p < stateResetMs (rlc b) then consecutive429 p + 1 else 1)
         | None \<Rightarrow> fresh 1)"

definition resetRateLimitBackoff :: "rl_backoff \<Rightarrow> nat \<Rightarrow> string \<Rightarrow> string option \<Rightarrow> rl_backoff" where
  "resetRateLimitBackoff b accountIndex quotaKey stableAccountKey = b\<lparr>rateLimitStateByAccountQuota :=
     jm_delete (resolveRateLimitStateKey accountIndex quotaKey stableAccountKey)
       (rateLimitStateByAccountQuota b)\<rparr>"

definition clearRateLimitBackoffState :: "rl_backoff \<Rightarrow> rl_backoff" where
  "clearRateLimitBackoffState b = b\<lparr>rateLimitStateByAccountQuota := []\<rparr>"

fun BACKOFF_MULTIPLIERS :: "rate_limit_reason \<Rightarrow> jsnum" where
  "BACKOFF_MULTIPLIERS QuotaReason = 3"
| "BACKOFF_MULTIPLIERS TokensReason = 15/10"
| "BACKOFF_MULTIPLIERS ConcurrentReason = 5/10"
| "BACKOFF_MULTIPLIERS UnknownReason = 1"

definition calculateBackoffMs :: "rl_backoff \<Rightarrow> jsnum \<Rightarrow> rate_limit_reason \<Rightarrow> jsnum" where
  "calculateBackoffMs b baseDelayMs reason =
     min (max 0 (js_floor (baseDelayMs * BACKOFF_MULTIPLIERS reason))) (maxBackoffMs (rlc b))"

record backoff_params =
  bp_accountIndex :: jsval
  bp_quotaKey :: "string option"
  bp_serverRetryAfterMs :: "jsval option"
  bp_reason :: "rate_limit_reason option"
  bp_stableAccountKey :: "string option"

text \<open>The quota key is \<open>None\<close> when it is not a string; both call forms resolve to the record.\<close>

definition getRateLimitBackoffWithReason ::
  "rl_backoff \<Rightarrow> jsnum \<Rightarrow> jsnum \<Rightarrow> backoff_params
     \<Rightarrow> (type_error + (backoff_result \<times> rate_limit_reason)) \<times> rl_backoff" where
  "getRateLimitBackoffWithReason b now r params =
     (case finite_in (\<lambda>x. is_integer x \<and> \<not> x < 0) (bp_accountIndex params) of
        None \<Rightarrow> (Inl (TypeError ''getRateLimitBackoffWithReason requires a non-negative integer accountIndex''), b)
      | Some idx \<Rightarrow>
          if (case bp_quotaKey params of None \<Rightarrow> True | Some q \<Rightarrow> js_trim q = [])
          then (Inl (TypeError ''getRateLimitBackoffWithReason requires a non-empty quotaKey''), b)
          else
            let resolvedReason = nullish (bp_reason params) UnknownReason;
                normalizedQuotaKey = js_trim (nullish (bp_quotaKey params) []);
                (result, b') = getRateLimitBackoff b now r (nat \<lfloor>idx\<rfloor>) normalizedQuotaKey
                   (bp_serverRetryAfterMs params) (bp_stableAccountKey params);
                normalizedBaseDelay = normalizeDelayMs (bp_serverRetryAfterMs params) 1000;
                adjustedDelay = calculateBackoffMs b'
                   (if br_attempt result = 1 \<and> \<not> br_isDuplicate result then normalizedBaseDelay else br_delayMs result)
                   resolvedReason
            in (Inr (result\<lparr>br_delayMs := adjustedDelay\<rparr>, resolvedReason), b'))"


section \<open>Bounds of the jitter\<close>

lemma jitter_between:
  fixes b j r :: jsnum
  assumes "0 \<le> b" and "0 \<le> j" and "0 \<le> r" and "r < 1"
  shows "b * (1 - j) \<le> b + b * j * (r * 2 - 1)" and "b + b * j * (r * 2 - 1) \<le> b * (1 + j)"
proof -
  have "0 \<le> b * j" using assms by simp
  have "-1 \<le> r * 2 - 1" "r * 2 - 1 \<le> 1" using assms by simp_all
  from this [THEN mult_left_mono, OF \<open>0 \<le> b * j\<close>] show "b * (1 - j) \<le> b + b * j * (r * 2 - 1)" "b + b * j * (r * 2 - 1) \<le> b * (1 + j)"
    by (simp_all add: algebra_simps)
qed

lemma addJitter_bounds:
  assumes "0 \<le> b" and "0 \<le> j" and "j \<le> 1" and "0 \<le> r" and "r < 1"
  shows "b * (1 - j) - 1 < addJitter b j r \<and> addJitter b j r \<le> b * (1 + j) \<and> 0 \<le> addJitter b j r
    \<and> is_integer (addJitter b j r)"
proof -
  let ?x = "b + b * j * (r * 2 - 1)"
  have "0 \<le> b * (1 - j)" using assms by simp
  then have "0 \<le> ?x" using jitter_between [OF assms(1,2,4,5)] by linarith
  then have "addJitter b j r = js_floor ?x"
    using js_floor_nonneg [of ?x] by (simp add: addJitter_def)
  then show ?thesis
    using jitter_between [OF assms(1,2,4,5)] js_floor_le [of ?x] js_floor_gt [of ?x] js_floor_nonneg [OF \<open>0 \<le> ?x\<close>]
    by (simp add: is_integer_def)
qed

lemma addBackoffJitter_addJitter: "addBackoffJitter b r = addJitter b (2/10) r"
  by (simp add: addBackoffJitter_def addJitter_def RATE_LIMIT_BACKOFF_JITTER_FACTOR_def)

text \<open>The arguments \<open>exponentialBackoff\<close> accepts, with their defaults applied.\<close>

definition backoff_args :: "backoff_options \<Rightarrow> nat \<Rightarrow> jsnum \<Rightarrow> jsnum \<Rightarrow> jsnum \<Rightarrow> bool" where
  "backoff_args opts n b m j \<longleftrightarrow>
     bo_attempt opts = Finite (of_nat n) \<and> 1 \<le> n
     \<and> nullish (bo_baseMs opts) (Finite 1000) = Finite b \<and> 0 \<le> b
     \<and> nullish (bo_maxMs opts) (Finite 60000) = Finite m \<and> 0 \<le> m
     \<and> nullish (bo_jitterFactor opts) (Finite (1/10)) = Finite j \<and> 0 \<le> j \<and> j \<le> 1"

lemma finite_in_Some: "finite_in ok v = Some x \<longleftrightarrow> v = Finite x \<and> ok x"
  by (cases v) auto

lemma finite_in_None: "finite_in ok v = None \<longleftrightarrow> (\<forall>x. v = Finite x \<longrightarrow> \<not> ok x)"
  by (cases v) auto

lemma integer_nat: "is_integer x \<Longrightarrow> 1 \<le> x \<Longrightarrow> \<exists>n. x = of_nat n \<and> 1 \<le> n"
proof -
  assume "is_integer x" "1 \<le> x"
  have "1 \<le> \<lfloor>x\<rfloor>" using \<open>1 \<le> x\<close> by simp
  moreover have "x = of_int \<lfloor>x\<rfloor>" using \<open>is_integer x\<close> unfolding is_integer_def js_floor_def by (rule sym)
  ultimately show ?thesis by (metis int_nat_eq nat_le_iff nat_one_as_int of_int_of_nat_eq of_nat_nat
    order_trans zero_le_one nat_mono)
qed

lemma exponentialBackoff_valid:
  assumes "backoff_args opts n b m j"
  shows "exponentialBackoff opts r = Inr (addJitter (min (b * 2 ^ (n - 1)) m) j r)"
  using assms by (simp add: exponentialBackoff_def backoff_args_def is_integer_def nat_diff_distrib')

lemma exponentialBackoff_valid_args:
  assumes "exponentialBackoff opts r = Inr d"
  shows "\<exists>n b m j. backoff_args opts n b m j"
proof -
  from assms obtain a b m j where
    "finite_in (\<lambda>x. is_integer x \<and> \<not> x < 1) (bo_attempt opts) = Some a"
    "finite_in (\<lambda>x. \<not> x < 0) (nullish (bo_baseMs opts) (Finite 1000)) = Some b"
    "finite_in (\<lambda>x. \<not> x < 0) (nullish (bo_maxMs opts) (Finite 60000)) = Some m"
    "finite_in (\<lambda>x. \<not> x < 0 \<and> \<not> x > 1) (nullish (bo_jitterFactor opts) (Finite (1/10))) = Some j"
    by (auto simp: exponentialBackoff_def split: option.splits)
  then show ?thesis using integer_nat [of a] by (auto simp: finite_in_Some backoff_args_def not_less)
qed

section \<open>The state invariant\<close>

datatype rl_op =
    RlGet jsnum nat string "jsval option" "string option"
  | RlGetWithReason jsnum backoff_params
  | RlReset nat string "string option"
  | RlClear
  | RlConfigure rl_overrides
  | RlDefaults

fun rl_step :: "rl_op \<Rightarrow> jsnum \<Rightarrow> rl_backoff \<Rightarrow> rl_backoff" where
  "rl_step (RlGet r i q v s) now b = snd (getRateLimitBackoff b now r i q v s)"
| "rl_step (RlGetWithReason r p) now b = snd (getRateLimitBackoffWithReason b now r p)"
| "rl_step (RlReset i q s) now b = resetRateLimitBackoff b i q s"
| "rl_step RlClear now b = clearRateLimitBackoffState b"
| "rl_step (RlConfigure ov) now b = configureRateLimitBackoff ov b"
| "rl_step RlDefaults now b = resetRateLimitBackoffConfig b"

definition rl_state_ok :: "jsnum \<Rightarrow> rl_state \<Rightarrow> bool" where
  "rl_state_ok t st \<longleftrightarrow> 1 \<le> consecutive429 st \<and> lastAt st \<le> t \<and> 0 \<le> lastDelayMs st"

definition rl_config_ok :: "rl_config \<Rightarrow> bool" where
  "rl_config_ok c \<longleftrightarrow> 0 \<le> dedupWindowMs c \<and> 1000 \<le> stateResetMs c \<and> 1000 \<le> maxBackoffMs c
     \<and> 0 \<le> shortRetryThresholdMs c"

definition rl_inv :: "jsnum \<Rightarrow> rl_backoff \<Rightarrow> bool" where
  "rl_inv t b \<longleftrightarrow> rl_config_ok (rlc b) \<and> jm_ok (rateLimitStateByAccountQuota b)
     \<and> jm_all (\<lambda>_ st. rl_state_ok t st) (rateLimitStateByAccountQuota b)"

lemma configured_ge: "least \<le> old \<Longrightarrow> least \<le> configured least ov old"
  by (auto simp: configured_def split: option.split jsval.split)

lemma rl_inv_new: "rl_inv t rl_new"
  by (simp add: rl_inv_def rl_new_def rl_config_ok_def default_rl_config_def)

lemma rl_inv_later: "rl_inv t b \<Longrightarrow> t \<le> t' \<Longrightarrow> rl_inv t' b"
  unfolding rl_inv_def by (auto elim!: jm_all_mono simp: rl_state_ok_def)

lemma normalizeDelayMs_nonneg: "0 \<le> normalizeDelayMs v d"
  by (simp add: normalizeDelayMs_def Let_def)

definition fresh_delay :: "rl_config \<Rightarrow> jsval option \<Rightarrow> jsnum \<Rightarrow> nat \<Rightarrow> jsnum" where
  "fresh_delay c v r attempt =
     max (normalizeDelayMs v 1000)
       (min (addBackoffJitter (min (normalizeDelayMs v 1000 * 2 ^ (attempt - 1)) (maxBackoffMs c)) r) (maxBackoffMs c))"

definition live_state :: "rl_backoff \<Rightarrow> jsnum \<Rightarrow> string \<Rightarrow> rl_state option" where
  "live_state b now key =
     (case jm_get (rateLimitStateByAccountQuota b) key of
        Some st \<Rightarrow> if now - lastAt st > stateResetMs (rlc b) then None else Some st | None \<Rightarrow> None)"

definition next_attempt :: "rl_config \<Rightarrow> jsnum \<Rightarrow> rl_state option \<Rightarrow> nat" where
  "next_attempt c now prev =
     (case prev of Some p \<Rightarrow> if now - lastAt p < stateResetMs c then consecutive429 p + 1 else 1 | None \<Rightarrow> 1)"

definition is_duplicate :: "rl_config \<Rightarrow> jsnum \<Rightarrow> rl_state option \<Rightarrow> bool" where
  "is_duplicate c now prev \<longleftrightarrow> (case prev of Some p \<Rightarrow> now - lastAt p < dedupWindowMs c | None \<Rightarrow> False)"

text \<open>The call in terms of the state that survives the pruning.\<close>

lemma getRateLimitBackoff_alt:
  assumes "jm_ok (rateLimitStateByAccountQuota b)"
  shows "getRateLimitBackoff b now r i q v s =
    (let key = resolveRateLimitStateKey i q s; prev = live_state b now key; b' = pruneStaleRateLimitState now b;
         n = next_attempt (rlc b) now prev
     in if is_duplicate (rlc b) now prev
        then (\<lparr>br_attempt = consecutive429 (the prev), br_delayMs = lastDelayMs (the prev), br_isDuplicate = True\<rparr>, b')
        else (\<lparr>br_attempt = n, br_delayMs = fresh_delay (rlc b) v r n, br_isDuplicate = False\<rparr>,
              b'\<lparr>rateLimitStateByAccountQuota := jm_set key \<lparr>consecutive429 = n, lastAt = now, rl_quotaKey = q,
                   lastDelayMs = fresh_delay (rlc b) v r n\<rparr> (rateLimitStateByAccountQuota b')\<rparr>))"
  using assms
  by (auto simp: getRateLimitBackoff_def pruneStaleRateLimitState_def live_state_def next_attempt_def
      is_duplicate_def fresh_delay_def jm_get_remove_if Let_def split: option.splits)

lemma rl_inv_prune: "rl_inv t b \<Longrightarrow> rl_inv t (pruneStaleRateLimitState now b)"
  by (auto simp: rl_inv_def pruneStaleRateLimitState_def jm_ok_remove_if jm_all_remove_if)

lemma fresh_delay_ge: "normalizeDelayMs v 1000 \<le> fresh_delay c v r n"
  by (simp add: fresh_delay_def)

lemma fresh_delay_le: "fresh_delay c v r n \<le> max (normalizeDelayMs v 1000) (maxBackoffMs c)"
  by (auto simp: fresh_delay_def)

lemma next_attempt_ge [simp]: "Suc 0 \<le> next_attempt c now prev"
  by (simp add: next_attempt_def split: option.split)

lemma rl_inv_get:
  assumes "rl_inv t b"
  shows "rl_inv t (snd (getRateLimitBackoff b t r i q v s))"
proof -
  have ok: "jm_ok (rateLimitStateByAccountQuota b)" using assms by (simp add: rl_inv_def)
  have "0 \<le> fresh_delay (rlc b) v r n" for n
    using fresh_delay_ge [of v "rlc b" r n] normalizeDelayMs_nonneg [of v 1000] by linarith
  with rl_inv_prune [OF assms, of t] show ?thesis
    unfolding getRateLimitBackoff_alt [OF ok] Let_def
    by (auto simp: rl_inv_def rl_state_ok_def next_attempt_ge intro!: jm_ok_set jm_all_set)
qed

lemma rl_inv_get_reason:
  assumes "rl_inv t b"
  shows "rl_inv t (snd (getRateLimitBackoffWithReason b t r p))"
proof (cases "finite_in (\<lambda>x. is_integer x \<and> \<not> x < 0) (bp_accountIndex p)")
  case (Some i)
  note get = rl_inv_get [OF assms, of r "nat \<lfloor>i\<rfloor>" "js_trim (nullish (bp_quotaKey p) [])" "bp_serverRetryAfterMs p"
      "bp_stableAccountKey p"]
  from Some assms get show ?thesis
    by (auto simp: getRateLimitBackoffWithReason_def Let_def split: prod.split)
qed (use assms in \<open>simp add: getRateLimitBackoffWithReason_def\<close>)

lemma rl_inv_step: "rl_inv t b \<Longrightarrow> rl_inv t (rl_step x t b)"
proof (cases x)
  case (RlConfigure ov)
  assume "rl_inv t b"
  with RlConfigure show ?thesis
    by (simp add: rl_inv_def configureRateLimitBackoff_def rl_config_ok_def configured_ge)
next
  case (RlReset i q s)
  assume "rl_inv t b"
  with RlReset show ?thesis
    by (auto simp: rl_inv_def resetRateLimitBackoff_def jm_ok_delete jm_all_delete)
next
  case RlDefaults
  assume "rl_inv t b"
  with RlDefaults show ?thesis
    by (simp add: rl_inv_def resetRateLimitBackoffConfig_def rl_config_ok_def default_rl_config_def)
qed (simp_all add: rl_inv_get rl_inv_get_reason, simp add: rl_inv_def clearRateLimitBackoffState_def)

interpretation rlb: timed_machine rl_step rl_inv
  by unfold_locales (auto intro: rl_inv_later rl_inv_step)


section \<open>Sequences of rate limit responses for one account\<close>

fun rl_calls ::
  "rl_backoff \<Rightarrow> nat \<Rightarrow> string \<Rightarrow> string option \<Rightarrow> (jsnum \<times> jsnum \<times> jsval option) list
     \<Rightarrow> backoff_result list" where
  "rl_calls b i q s [] = []"
| "rl_calls b i q s ((t, r, v) # cs) =
     (case getRateLimitBackoff b t r i q v s of (res, b') \<Rightarrow> res # rl_calls b' i q s cs)"

text \<open>Consecutive responses outside the deduplication window, inside the reset window.\<close>

fun spaced :: "rl_config \<Rightarrow> jsnum \<Rightarrow> (jsnum \<times> 'r \<times> 'v) list \<Rightarrow> bool" where
  "spaced c t [] = True"
| "spaced c t ((t', r, v) # cs) = (dedupWindowMs c \<le> t' - t \<and> t' - t < stateResetMs c \<and> spaced c t' cs)"

definition key_state :: "rl_backoff \<Rightarrow> string \<Rightarrow> nat \<Rightarrow> jsnum \<Rightarrow> jsnum \<Rightarrow> bool" where
  "key_state b key n t d \<longleftrightarrow> (case jm_get (rateLimitStateByAccountQuota b) key of
     Some st \<Rightarrow> consecutive429 st = n \<and> lastAt st = t \<and> lastDelayMs st = d | None \<Rightarrow> False)"

lemma rl_call_fresh:
  assumes "jm_ok (rateLimitStateByAccountQuota b)" and "key = resolveRateLimitStateKey i q s"
    and "\<not> is_duplicate (rlc b) t (live_state b t key)" and "n = next_attempt (rlc b) t (live_state b t key)"
    and "d = fresh_delay (rlc b) v r n"
  shows "\<exists>b'. getRateLimitBackoff b t r i q v s = (\<lparr>br_attempt = n, br_delayMs = d, br_isDuplicate = False\<rparr>, b')
     \<and> jm_ok (rateLimitStateByAccountQuota b') \<and> rlc b' = rlc b \<and> key_state b' key n t d"
  using assms unfolding getRateLimitBackoff_alt [OF assms(1)] Let_def
  by (auto simp: pruneStaleRateLimitState_def jm_ok_remove_if key_state_def jm_simps intro!: jm_ok_set)

lemma rl_call_duplicate:
  assumes "jm_ok (rateLimitStateByAccountQuota b)" and "key = resolveRateLimitStateKey i q s"
    and "key_state b key n t0 d" and "t - t0 < dedupWindowMs (rlc b)" and "t - t0 \<le> stateResetMs (rlc b)"
  shows "\<exists>b'. getRateLimitBackoff b t r i q v s = (\<lparr>br_attempt = n, br_delayMs = d, br_isDuplicate = True\<rparr>, b')
     \<and> jm_ok (rateLimitStateByAccountQuota b') \<and> rlc b' = rlc b \<and> key_state b' key n t0 d"
proof -
  obtain st where st: "jm_get (rateLimitStateByAccountQuota b) key = Some st"
      "consecutive429 st = n" "lastAt st = t0" "lastDelayMs st = d"
    using assms(3) by (auto simp: key_state_def split: option.splits)
  have live: "live_state b t key = Some st" using st assms(5) by (simp add: live_state_def)
  show ?thesis
    using st live assms(1,2,4,5) unfolding getRateLimitBackoff_alt [OF assms(1)] Let_def
    by (auto simp: is_duplicate_def pruneStaleRateLimitState_def jm_ok_remove_if key_state_def jm_get_remove_if)
qed

lemma next_attempt_spaced:
  assumes "key_state b key n t0 d" and "t - t0 < stateResetMs (rlc b)" and "dedupWindowMs (rlc b) \<le> t - t0"
  shows "\<not> is_duplicate (rlc b) t (live_state b t key) \<and> next_attempt (rlc b) t (live_state b t key) = Suc n"
  using assms by (auto simp: key_state_def live_state_def is_duplicate_def next_attempt_def split: option.splits)

definition delay_between :: "rl_config \<Rightarrow> jsnum \<times> jsnum \<times> jsval option \<Rightarrow> backoff_result \<Rightarrow> bool" where
  "delay_between c call res \<longleftrightarrow> (case call of (t, r, v) \<Rightarrow>
     normalizeDelayMs v 1000 \<le> br_delayMs res \<and> br_delayMs res \<le> max (normalizeDelayMs v 1000) (maxBackoffMs c)
     \<and> \<not> br_isDuplicate res)"

lemma delay_between_fresh:
  "delay_between c (t, r, v) \<lparr>br_attempt = n, br_delayMs = fresh_delay c v r' m, br_isDuplicate = False\<rparr>"
  by (simp add: delay_between_def fresh_delay_ge fresh_delay_le)

lemma rl_calls_spaced:
  assumes "jm_ok (rateLimitStateByAccountQuota b)" and "key_state b (resolveRateLimitStateKey i q s) n t0 d"
    and "spaced (rlc b) t0 cs"
  shows "map br_attempt (rl_calls b i q s cs) = [Suc n..<Suc n + length cs]
     \<and> list_all2 (delay_between (rlc b)) cs (rl_calls b i q s cs)"
  using assms
proof (induction cs arbitrary: b n t0 d)
  case (Cons c cs)
  obtain t r v where c: "c = (t, r, v)" by (cases c)
  have sp: "t - t0 < stateResetMs (rlc b)" "dedupWindowMs (rlc b) \<le> t - t0" using Cons.prems(3) c by simp_all
  note nx = next_attempt_spaced [OF Cons.prems(2) sp]
  obtain b' where b': "getRateLimitBackoff b t r i q v s =
        (\<lparr>br_attempt = Suc n, br_delayMs = fresh_delay (rlc b) v r (Suc n), br_isDuplicate = False\<rparr>, b')"
      "jm_ok (rateLimitStateByAccountQuota b')" "rlc b' = rlc b"
      "key_state b' (resolveRateLimitStateKey i q s) (Suc n) t (fresh_delay (rlc b) v r (Suc n))"
    using rl_call_fresh [OF Cons.prems(1) refl conjunct1 [OF nx] conjunct2 [OF nx, symmetric] refl] by blast
  from Cons.IH [OF b'(2,4)] Cons.prems(3) c b'(3)
  have IH: "map br_attempt (rl_calls b' i q s cs) = [Suc (Suc n)..<Suc (Suc n) + length cs]"
      "list_all2 (delay_between (rlc b)) cs (rl_calls b' i q s cs)" by simp_all
  have "[Suc n..<Suc n + length (c # cs)] = Suc n # [Suc (Suc n)..<Suc (Suc n) + length cs]"
    by (simp add: upt_conv_Cons del: upt_Suc)
  with IH b'(1) c show ?case
    by (simp add: delay_between_fresh del: upt_Suc)
qed simp

text \<open>Every response of the burst lies inside both windows of the first one.\<close>

definition in_burst :: "rl_config \<Rightarrow> jsnum \<Rightarrow> (jsnum \<times> 'r \<times> 'v) list \<Rightarrow> bool" where
  "in_burst c t0 cs \<longleftrightarrow> list_all (\<lambda>(t, _). t - t0 < dedupWindowMs c \<and> t - t0 \<le> stateResetMs c) cs"

lemma rl_calls_burst:
  assumes "jm_ok (rateLimitStateByAccountQuota b)" and "key_state b (resolveRateLimitStateKey i q s) n t0 d"
    and "in_burst (rlc b) t0 cs"
  shows "rl_calls b i q s cs =
     replicate (length cs) \<lparr>br_attempt = n, br_delayMs = d, br_isDuplicate = True\<rparr>"
  using assms
proof (induction cs arbitrary: b)
  case (Cons c cs)
  obtain t r v where c: "c = (t, r, v)" by (cases c)
  have le: "t - t0 < dedupWindowMs (rlc b)" "t - t0 \<le> stateResetMs (rlc b)"
    using Cons.prems(3) c by (simp_all add: in_burst_def)
  from rl_call_duplicate [OF Cons.prems(1) refl Cons.prems(2) le, where r = r and v = v] obtain b' where b':
      "getRateLimitBackoff b t r i q v s = (\<lparr>br_attempt = n, br_delayMs = d, br_isDuplicate = True\<rparr>, b')"
      "jm_ok (rateLimitStateByAccountQuota b')" "rlc b' = rlc b" "key_state b' (resolveRateLimitStateKey i q s) n t0 d"
    by blast
  from Cons.IH [OF b'(2,4)] Cons.prems(3) b' c show ?case by (simp add: in_burst_def)
qed simp

section \<open>Properties\<close>

text \<open>
  Backoff progression.  For an account and quota without live state, rate limit responses
  that arrive after the deduplication window but within the reset window get the attempts
  1, 2, 3, ... in order; none is a duplicate, and each delay is at least the server's wait
  (the exponential factor and the jitter never undercut it) and at most the larger of that
  wait and the configured maximum.
\<close>

theorem backoff_progression:
  assumes "rl_inv t b" and "live_state b t (resolveRateLimitStateKey i q s) = None"
    and "spaced (rlc b) t cs"
  shows "map br_attempt (rl_calls b i q s ((t, r, v) # cs)) = [1..<2 + length cs]
     \<and> list_all2 (delay_between (rlc b)) ((t, r, v) # cs) (rl_calls b i q s ((t, r, v) # cs))"
proof -
  have ok: "jm_ok (rateLimitStateByAccountQuota b)" using assms(1) by (simp add: rl_inv_def)
  have fresh: "\<not> is_duplicate (rlc b) t (live_state b t (resolveRateLimitStateKey i q s))"
      "1 = next_attempt (rlc b) t (live_state b t (resolveRateLimitStateKey i q s))"
    using assms(2) by (simp_all add: is_duplicate_def next_attempt_def)
  obtain b' where b': "getRateLimitBackoff b t r i q v s =
        (\<lparr>br_attempt = 1, br_delayMs = fresh_delay (rlc b) v r 1, br_isDuplicate = False\<rparr>, b')"
      "jm_ok (rateLimitStateByAccountQuota b')" "rlc b' = rlc b"
      "key_state b' (resolveRateLimitStateKey i q s) 1 t (fresh_delay (rlc b) v r 1)"
    using rl_call_fresh [OF ok refl fresh refl] by blast
  have "[1..<2 + length cs] = 1 # [Suc 1..<Suc 1 + length cs]" by (simp add: upt_conv_Cons del: upt_Suc)
  with rl_calls_spaced [OF b'(2,4)] b' assms(3) show ?thesis
    by (simp add: delay_between_fresh del: upt_Suc)
qed

theorem backoff_progression_witness:
  "map br_attempt (rl_calls rl_new 0 ''codex'' None
      [(0, 0, Some (Finite 500)), (3000, 1/2, Some NonFinite), (9000, 0, None)]) = [1, 2, 3]"
  using backoff_progression [OF rl_inv_new [of 0], where i = 0 and q = "''codex''" and s = None and r = 0
      and v = "Some (Finite 500)" and cs = "[(3000, 1/2, Some NonFinite), (9000, 0, None)]"]
  by (simp add: rl_new_def default_rl_config_def live_state_def upt_rec)

text \<open>
  Concurrent responses count once: after a response at \<open>t\<close> with attempt \<open>n\<close> and delay \<open>d\<close>,
  every further one inside the deduplication window, whatever wait the server names in it,
  is flagged a duplicate and gets the same attempt and delay, so a burst of parallel
  requests raises the backoff by one.
\<close>

theorem backoff_deduplicates:
  assumes "rl_inv t b" and "\<not> is_duplicate (rlc b) t (live_state b t (resolveRateLimitStateKey i q s))"
    and "in_burst (rlc b) t cs"
  shows "\<exists>n d. rl_calls b i q s ((t, r, v) # cs) =
     \<lparr>br_attempt = n, br_delayMs = d, br_isDuplicate = False\<rparr>
       # replicate (length cs) \<lparr>br_attempt = n, br_delayMs = d, br_isDuplicate = True\<rparr>"
proof -
  have ok: "jm_ok (rateLimitStateByAccountQuota b)" using assms(1) by (simp add: rl_inv_def)
  from rl_call_fresh [OF ok refl assms(2) refl refl, where v = v and r = r] obtain b' n d where b':
      "getRateLimitBackoff b t r i q v s = (\<lparr>br_attempt = n, br_delayMs = d, br_isDuplicate = False\<rparr>, b')"
      "jm_ok (rateLimitStateByAccountQuota b')" "rlc b' = rlc b"
      "key_state b' (resolveRateLimitStateKey i q s) n t d" by blast
  from rl_calls_burst [OF b'(2,4)] b' assms(3) show ?thesis by auto
qed

theorem backoff_deduplicates_witness:
  "\<exists>n d. rl_calls rl_new 0 ''codex'' None [(0, 0, Some (Finite 500)), (10, 0, Some (Finite 9000)), (1999, 0, None)] =
     \<lparr>br_attempt = n, br_delayMs = d, br_isDuplicate = False\<rparr>
       # replicate 2 \<lparr>br_attempt = n, br_delayMs = d, br_isDuplicate = True\<rparr>"
  using backoff_deduplicates [OF rl_inv_new [of 0], where i = 0 and q = "''codex''" and s = None and r = 0
      and v = "Some (Finite 500)" and cs = "[(10, 0, Some (Finite 9000)), (1999, 0, None)]"]
  by (simp add: rl_new_def default_rl_config_def live_state_def is_duplicate_def in_burst_def numeral_2_eq_2)

text \<open>
  The reason-aware entry point is total and capped.  It throws exactly when the account index
  is not a non-negative integer or the trimmed quota key is empty or not a string, then
  leaving the state alone; otherwise its attempt and duplicate flag are those of the plain
  backoff on the trimmed key, and its delay is never negative nor above the configured
  maximum, on every reachable state.
\<close>

theorem backoff_with_reason_spec:
  assumes "rl_inv t b"
  shows "case getRateLimitBackoffWithReason b t r p of
      (Inl e, b') \<Rightarrow> b' = b \<and> ((\<nexists>i. bp_accountIndex p = Finite (of_nat i))
          \<or> (case bp_quotaKey p of None \<Rightarrow> True | Some q \<Rightarrow> js_trim q = []))
    | (Inr (res, reason), b') \<Rightarrow>
        (\<exists>i q plain. bp_accountIndex p = Finite (of_nat i) \<and> bp_quotaKey p = Some q \<and> js_trim q \<noteq> []
          \<and> getRateLimitBackoff b t r i (js_trim q) (bp_serverRetryAfterMs p) (bp_stableAccountKey p) = (plain, b')
          \<and> br_attempt res = br_attempt plain \<and> br_isDuplicate res = br_isDuplicate plain
          \<and> 0 \<le> br_delayMs res \<and> br_delayMs res \<le> maxBackoffMs (rlc b'))"
proof -
  let ?idx = "finite_in (\<lambda>x. is_integer x \<and> \<not> x < 0) (bp_accountIndex p)"
  have valid: "is_integer (of_nat i :: jsnum)" for i by (simp add: is_integer_def)
  show ?thesis
  proof (cases ?idx)
    case None
    then have "\<nexists>i. bp_accountIndex p = Finite (of_nat i)" using valid by (auto simp: finite_in_None)
    with None show ?thesis by (simp add: getRateLimitBackoffWithReason_def)
  next
    case (Some x)
    show ?thesis
    proof (cases "case bp_quotaKey p of None \<Rightarrow> True | Some q \<Rightarrow> js_trim q = []")
      case True
      with Some show ?thesis by (simp add: getRateLimitBackoffWithReason_def)
    next
      case False
      then obtain q where q: "bp_quotaKey p = Some q" "js_trim q \<noteq> []" by (auto split: option.splits)
      have int: "is_integer x" "0 \<le> x" "bp_accountIndex p = Finite x"
        using Some by (auto simp: finite_in_Some not_less)
      then have idx: "bp_accountIndex p = Finite (of_nat (nat \<lfloor>x\<rfloor>))"
        by (metis is_integer_def js_floor_def of_nat_nat zero_le_floor of_int_of_nat_eq)
      obtain plain b' where g: "getRateLimitBackoff b t r (nat \<lfloor>x\<rfloor>) (js_trim q) (bp_serverRetryAfterMs p)
          (bp_stableAccountKey p) = (plain, b')" by (cases "getRateLimitBackoff b t r (nat \<lfloor>x\<rfloor>) (js_trim q)
          (bp_serverRetryAfterMs p) (bp_stableAccountKey p)")
      have "rl_inv t b'" using rl_inv_get [OF assms, of r "nat \<lfloor>x\<rfloor>" "js_trim q" "bp_serverRetryAfterMs p"
          "bp_stableAccountKey p"] g by simp
      then have "0 \<le> maxBackoffMs (rlc b')" by (simp add: rl_inv_def rl_config_ok_def)
      then have "0 \<le> calculateBackoffMs b' d reason \<and> calculateBackoffMs b' d reason \<le> maxBackoffMs (rlc b')"
        for d reason by (simp add: calculateBackoffMs_def)
      with Some q g idx show ?thesis by (auto simp: getRateLimitBackoffWithReason_def Let_def)
    qed
  qed
qed

text \<open>
  \<open>exponentialBackoff\<close> accepts exactly the documented arguments.  It throws unless the attempt
  is a positive integer, the two delays are finite and not negative and the jitter factor
  lies in [0, 1]; otherwise the delay is a whole number within the jitter of
  \<open>min (base * 2^(attempt-1)) max\<close>, never negative.
\<close>

theorem exponentialBackoff_spec:
  assumes "0 \<le> r" and "r < 1"
  shows "case exponentialBackoff opts r of
      Inl e \<Rightarrow> (\<nexists>n b m j. backoff_args opts n b m j)
    | Inr d \<Rightarrow> (\<exists>n b m j. backoff_args opts n b m j \<and> is_integer d \<and> 0 \<le> d
        \<and> min (b * 2 ^ (n - 1)) m * (1 - j) - 1 < d \<and> d \<le> min (b * 2 ^ (n - 1)) m * (1 + j))"
proof (cases "exponentialBackoff opts r")
  case (Inl e)
  then show ?thesis using exponentialBackoff_valid [of opts _ _ _ _ r] by fastforce
next
  case (Inr d)
  from exponentialBackoff_valid_args [OF this] obtain n b m j where args: "backoff_args opts n b m j" by blast
  then have "0 \<le> min (b * 2 ^ (n - 1)) m" "0 \<le> j" "j \<le> 1" by (simp_all add: backoff_args_def)
  from addJitter_bounds [OF this assms] exponentialBackoff_valid [OF args, of r] Inr args
  show ?thesis by auto
qed

theorem exponentialBackoff_spec_witness:
  "\<exists>d. exponentialBackoff \<lparr>bo_attempt = Finite 3, bo_baseMs = None, bo_maxMs = None, bo_jitterFactor = None\<rparr> (1/2)
     = Inr d \<and> d = 4000"
proof -
  let ?o = "\<lparr>bo_attempt = Finite 3, bo_baseMs = None, bo_maxMs = None, bo_jitterFactor = None\<rparr>"
  have "exponentialBackoff ?o (1/2) = Inr 4000"
    by (simp add: exponentialBackoff_def is_integer_def addJitter_def)
  moreover have "\<not> (\<nexists>n b m j. backoff_args ?o n b m j)" if "isl (exponentialBackoff ?o (1/2))"
    using that calculation by simp
  moreover note exponentialBackoff_spec [of "1/2" ?o]
  ultimately show ?thesis by simp
qed

theorem backoff_with_reason_spec_witness:
  "case getRateLimitBackoffWithReason rl_new 0 0 \<lparr>bp_accountIndex = Finite 1, bp_quotaKey = Some '' '',
      bp_serverRetryAfterMs = None, bp_reason = None, bp_stableAccountKey = None\<rparr> of
     (Inl e, b') \<Rightarrow> b' = rl_new | (Inr x, b') \<Rightarrow> False"
proof -
  let ?p = "\<lparr>bp_accountIndex = Finite 1, bp_quotaKey = Some '' '',
      bp_serverRetryAfterMs = None, bp_reason = None, bp_stableAccountKey = None\<rparr>"
  have "js_trim '' '' = []" by (simp add: js_trim_def js_space_def)
  then show ?thesis
    using backoff_with_reason_spec [OF rl_inv_new [of 0], where r = 0 and p = ?p] by (auto split: prod.splits sum.splits)
qed

end
