(* ===== verification/SessionAffinity.thy ===== *)
theory SessionAffinity
  imports JsMap
begin

text \<open>
  \<open>lib/session-affinity.ts\<close>: which account a session's follow-up turns stay on, with expiry,
  eviction of the least recently updated session, and write versions that order concurrent
  writers.  A method that returns a value and changes the store returns the pair.
\<close>

section \<open>State\<close>

record affinity_entry =
  ae_accountIndex :: jsnum
  ae_expiresAt :: jsnum
  ae_lastResponseId :: "string option"
  ae_updatedAt :: jsnum
  ae_writeVersion :: jsnum

record affinity_store =
  as_ttlMs :: jsnum
  as_maxEntries :: jsnum
  as_entries :: "(string, affinity_entry) jsmap"
  as_writeVersionCounter :: jsnum

definition DEFAULT_TTL_MS :: jsnum where
  "DEFAULT_TTL_MS = 20 * 60 * 1000"

definition DEFAULT_MAX_ENTRIES :: jsnum where
  "DEFAULT_MAX_ENTRIES = 512"

definition MAX_SESSION_KEY_LENGTH :: nat where
  "MAX_SESSION_KEY_LENGTH = 256"

definition affinity_new :: "jsnum option \<Rightarrow> jsnum option \<Rightarrow> affinity_store" where
  "affinity_new ttl maxEntries =
     \<lparr>as_ttlMs = max 1000 (js_floor (nullish ttl DEFAULT_TTL_MS)),
      as_maxEntries = max 1 (js_floor (nullish maxEntries DEFAULT_MAX_ENTRIES)),
      as_entries = [], as_writeVersionCounter = 0\<rparr>"

definition normalizeSessionKey :: "string option \<Rightarrow> string option" where
  "normalizeSessionKey v =
     (case v of
        None \<Rightarrow> None
      | Some s \<Rightarrow>
          if s = [] then None
          else let trimmed = js_trim s
               in if trimmed = [] then None
                  else if length trimmed \<le> MAX_SESSION_KEY_LENGTH then Some trimmed
                  else Some (take MAX_SESSION_KEY_LENGTH trimmed))"

section \<open>Private methods\<close>

text \<open>The loop keeps the first key with the least \<open>updatedAt\<close>; the start value is \<open>Infinity\<close>.\<close>

fun oldest_loop :: "(string \<times> jsnum) option \<Rightarrow> (string, affinity_entry) jsmap \<Rightarrow> (string \<times> jsnum) option" where
  "oldest_loop oldest [] = oldest"
| "oldest_loop oldest ((key, entry) # m) =
     oldest_loop
       (case oldest of
          None \<Rightarrow> Some (key, ae_updatedAt entry)
        | Some (k, oldestTimestamp) \<Rightarrow>
            if ae_updatedAt entry < oldestTimestamp then Some (key, ae_updatedAt entry) else oldest) m"

definition findOldestKey :: "affinity_store \<Rightarrow> string option" where
  "findOldestKey st = map_option fst (oldest_loop None (as_entries st))"

definition setEntry :: "affinity_store \<Rightarrow> string \<Rightarrow> affinity_entry \<Rightarrow> affinity_store" where
  "setEntry st key entry =
     (let st = (if of_nat (length (as_entries st)) \<ge> as_maxEntries st \<and> \<not> jm_has (as_entries st) key
                then (case findOldestKey st of
                        Some oldest \<Rightarrow>
                          if oldest \<noteq> [] then st\<lparr>as_entries := jm_delete oldest (as_entries st)\<rparr> else st
                      | None \<Rightarrow> st)
                else st)
      in st\<lparr>as_entries := jm_set key entry (as_entries st)\<rparr>)"

definition normalizeWriteVersion :: "affinity_store \<Rightarrow> jsval option \<Rightarrow> jsnum \<times> affinity_store" where
  "normalizeWriteVersion st writeVersion =
     (case writeVersion of
        Some (Finite v) \<Rightarrow>
          (let normalized = max 0 (js_floor v)
           in (normalized, st\<lparr>as_writeVersionCounter := max (as_writeVersionCounter st) normalized\<rparr>))
      | _ \<Rightarrow> (as_writeVersionCounter st + 1,
              st\<lparr>as_writeVersionCounter := as_writeVersionCounter st + 1\<rparr>))"

section \<open>Methods\<close>

definition getPreferredAccountIndex ::
  "affinity_store \<Rightarrow> string option \<Rightarrow> jsnum \<Rightarrow> jsnum option \<times> affinity_store" where
  "getPreferredAccountIndex st sessionKey now =
     (case normalizeSessionKey sessionKey of
        None \<Rightarrow> (None, st)
      | Some key \<Rightarrow>
          (case jm_get (as_entries st) key of
             None \<Rightarrow> (None, st)
           | Some entry \<Rightarrow>
               if ae_expiresAt entry \<le> now then (None, st\<lparr>as_entries := jm_delete key (as_entries st)\<rparr>)
               else (Some (ae_accountIndex entry), st)))"

definition rememberWithVersion ::
  "affinity_store \<Rightarrow> string option \<Rightarrow> jsval \<Rightarrow> jsnum \<Rightarrow> jsval option \<Rightarrow> affinity_store" where
  "rememberWithVersion st sessionKey accountIndex now writeVersion =
     (case normalizeSessionKey sessionKey of
        None \<Rightarrow> st
      | Some key \<Rightarrow>
          (case accountIndex of
             NonFinite \<Rightarrow> st
           | Finite idx \<Rightarrow>
               if idx < 0 then st
               else
                 let (version, st) = normalizeWriteVersion st writeVersion;
                     existingEntry = jm_get (as_entries st) key
                 in if (case existingEntry of
                          Some e \<Rightarrow> ae_expiresAt e > now \<and> ae_writeVersion e > version
                        | None \<Rightarrow> False)
                    then st
                    else setEntry st key
                      \<lparr>ae_accountIndex = idx, ae_expiresAt = now + as_ttlMs st,
                       ae_lastResponseId = (case existingEntry of Some e \<Rightarrow> ae_lastResponseId e | None \<Rightarrow> None),
                       ae_updatedAt = now, ae_writeVersion = version\<rparr>))"

definition affinity_remember :: "affinity_store \<Rightarrow> string option \<Rightarrow> jsval \<Rightarrow> jsnum \<Rightarrow> affinity_store" where
  "affinity_remember st sessionKey accountIndex now = rememberWithVersion st sessionKey accountIndex now None"

definition getLastResponseId ::
  "affinity_store \<Rightarrow> string option \<Rightarrow> jsnum \<Rightarrow> string option \<times> affinity_store" where
  "getLastResponseId st sessionKey now =
     (case normalizeSessionKey sessionKey of
        None \<Rightarrow> (None, st)
      | Some key \<Rightarrow>
          (case jm_get (as_entries st) key of
             None \<Rightarrow> (None, st)
           | Some entry \<Rightarrow>
               if ae_expiresAt entry \<le> now then (None, st\<lparr>as_entries := jm_delete key (as_entries st)\<rparr>)
               else let lastResponseId = (case ae_lastResponseId entry of Some r \<Rightarrow> js_trim r | None \<Rightarrow> [])
                    in (if lastResponseId = [] then None else Some lastResponseId, st)))"

definition updateLastResponseId ::
  "affinity_store \<Rightarrow> string option \<Rightarrow> string option \<Rightarrow> jsnum \<Rightarrow> jsval option \<Rightarrow> affinity_store" where
  "updateLastResponseId st sessionKey responseId now writeVersion =
     (let normalizedResponseId = (case responseId of Some r \<Rightarrow> js_trim r | None \<Rightarrow> [])
      in case normalizeSessionKey sessionKey of
           None \<Rightarrow> st
         | Some key \<Rightarrow>
             if normalizedResponseId = [] then st
             else
               let (version, st) = normalizeWriteVersion st writeVersion
               in case jm_get (as_entries st) key of
                    None \<Rightarrow> st
                  | Some entry \<Rightarrow>
                      if ae_expiresAt entry \<le> now then st\<lparr>as_entries := jm_delete key (as_entries st)\<rparr>
                      else if ae_writeVersion entry > version then st
                      else setEntry st key (entry\<lparr>ae_expiresAt := now + as_ttlMs st,
                             ae_lastResponseId := Some normalizedResponseId,
                             ae_updatedAt := now, ae_writeVersion := version\<rparr>))"

definition rememberLastResponseId ::
  "affinity_store \<Rightarrow> string option \<Rightarrow> string option \<Rightarrow> jsnum \<Rightarrow> affinity_store" where
  "rememberLastResponseId st sessionKey responseId now = updateLastResponseId st sessionKey responseId now None"

definition forgetSession :: "affinity_store \<Rightarrow> string option \<Rightarrow> affinity_store" where
  "forgetSession st sessionKey =
     (case normalizeSessionKey sessionKey of
        None \<Rightarrow> st | Some key \<Rightarrow> st\<lparr>as_entries := jm_delete key (as_entries st)\<rparr>)"

definition forgetAccount :: "affinity_store \<Rightarrow> jsval \<Rightarrow> nat \<times> affinity_store" where
  "forgetAccount st accountIndex =
     (case accountIndex of
        NonFinite \<Rightarrow> (0, st)
      | Finite idx \<Rightarrow>
          if idx < 0 then (0, st)
          else (jm_count (\<lambda>_ e. ae_accountIndex e = idx) (as_entries st),
                st\<lparr>as_entries := jm_remove_if (\<lambda>_ e. ae_accountIndex e = idx) (as_entries st)\<rparr>))"

definition reindexAfterRemoval :: "affinity_store \<Rightarrow> jsval \<Rightarrow> nat \<times> affinity_store" where
  "reindexAfterRemoval st removedIndex =
     (case removedIndex of
        NonFinite \<Rightarrow> (0, st)
      | Finite idx \<Rightarrow>
          if idx < 0 then (0, st)
          else (jm_count (\<lambda>_ e. ae_accountIndex e > idx) (as_entries st),
                st\<lparr>as_entries := map (\<lambda>(k, e).
                     (k, if ae_accountIndex e > idx then e\<lparr>ae_accountIndex := ae_accountIndex e - 1\<rparr> else e))
                     (as_entries st)\<rparr>))"

definition affinity_prune :: "affinity_store \<Rightarrow> jsnum \<Rightarrow> nat \<times> affinity_store" where
  "affinity_prune st now =
     (jm_count (\<lambda>_ e. ae_expiresAt e \<le> now) (as_entries st),
      st\<lparr>as_entries := jm_remove_if (\<lambda>_ e. ae_expiresAt e \<le> now) (as_entries st)\<rparr>)"

definition affinity_clearAll :: "affinity_store \<Rightarrow> affinity_store" where
  "affinity_clearAll st = (if as_entries st = [] then st else st\<lparr>as_entries := []\<rparr>)"

definition affinity_size :: "affinity_store \<Rightarrow> nat" where
  "affinity_size st = length (as_entries st)"

section \<open>The store invariant\<close>

datatype affinity_op =
    AGet "string option"
  | ARemember "string option" jsval "jsval option"
  | AGetResponse "string option"
  | AUpdateResponse "string option" "string option" "jsval option"
  | AForgetSession "string option"
  | AForgetAccount jsval
  | AReindex jsval
  | APrune
  | AClear

fun affinity_step :: "affinity_op \<Rightarrow> jsnum \<Rightarrow> affinity_store \<Rightarrow> affinity_store" where
  "affinity_step (AGet k) now st = snd (getPreferredAccountIndex st k now)"
| "affinity_step (ARemember k a v) now st = rememberWithVersion st k a now v"
| "affinity_step (AGetResponse k) now st = snd (getLastResponseId st k now)"
| "affinity_step (AUpdateResponse k r v) now st = updateLastResponseId st k r now v"
| "affinity_step (AForgetSession k) now st = forgetSession st k"
| "affinity_step (AForgetAccount a) now st = snd (forgetAccount st a)"
| "affinity_step (AReindex a) now st = snd (reindexAfterRemoval st a)"
| "affinity_step APrune now st = snd (affinity_prune st now)"
| "affinity_step AClear now st = affinity_clearAll st"

definition entry_ok :: "jsnum \<Rightarrow> jsnum \<Rightarrow> string \<Rightarrow> affinity_entry \<Rightarrow> bool" where
  "entry_ok counter ttl key e \<longleftrightarrow> key \<noteq> [] \<and> ae_writeVersion e \<le> counter
     \<and> ae_expiresAt e = ae_updatedAt e + ttl"

definition affinity_inv :: "affinity_store \<Rightarrow> bool" where
  "affinity_inv st \<longleftrightarrow> js_floor (as_maxEntries st) = as_maxEntries st \<and> 1 \<le> as_maxEntries st \<and> 1000 \<le> as_ttlMs st \<and> jm_ok (as_entries st)
     \<and> of_nat (length (as_entries st)) \<le> as_maxEntries st
     \<and> jm_all (entry_ok (as_writeVersionCounter st) (as_ttlMs st)) (as_entries st)"


lemma oldest_loop_Some:
  "\<exists>k' t'. oldest_loop (Some (k, t)) m = Some (k', t') \<and> t' \<le> t
     \<and> ((k', t') = (k, t) \<or> (\<exists>e. (k', e) \<in> set m \<and> ae_updatedAt e = t'))
     \<and> (\<forall>(k'', e) \<in> set m. t' \<le> ae_updatedAt e)"
proof (induction m arbitrary: k t)
  case (Cons p m)
  obtain k0 e0 where p: "p = (k0, e0)" by (cases p)
  let ?o = "if ae_updatedAt e0 < t then (k0, ae_updatedAt e0) else (k, t)"
  from Cons.IH [of "fst ?o" "snd ?o"] obtain k' t' where
    *: "oldest_loop (Some ?o) m = Some (k', t')" "t' \<le> snd ?o"
      "(k', t') = ?o \<or> (\<exists>e. (k', e) \<in> set m \<and> ae_updatedAt e = t')"
      "\<forall>(k'', e) \<in> set m. t' \<le> ae_updatedAt e" by auto
  have step: "oldest_loop (Some (k, t)) (p # m) = oldest_loop (Some ?o) m" by (simp add: p)
  show ?case unfolding step using * by (intro exI [of _ k'] exI [of _ t']) (auto simp: p split: if_splits)
qed simp

lemma findOldestKey_Some:
  assumes "as_entries st \<noteq> []"
  shows "\<exists>k e. findOldestKey st = Some k \<and> (k, e) \<in> set (as_entries st)
    \<and> (\<forall>(k', e') \<in> set (as_entries st). ae_updatedAt e \<le> ae_updatedAt e')"
proof -
  obtain k0 e0 m where m: "as_entries st = (k0, e0) # m" using assms by (cases "as_entries st") auto
  from oldest_loop_Some [of k0 "ae_updatedAt e0" m] show ?thesis
    by (auto simp: findOldestKey_def m)
qed

lemma affinity_inv_key: "affinity_inv st \<Longrightarrow> (k, e) \<in> set (as_entries st) \<Longrightarrow> k \<noteq> []"
  by (auto simp: affinity_inv_def jm_all_def list_all_iff entry_ok_def)

text \<open>Writing an entry: in place, into a free slot, or for the least recently updated key.\<close>

lemma setEntry_cases:
  assumes inv: "affinity_inv st"
  obtains "jm_has (as_entries st) key \<or> of_nat (length (as_entries st)) < as_maxEntries st"
      "setEntry st key e = st\<lparr>as_entries := jm_set key e (as_entries st)\<rparr>"
  | old oe where "jm_get (as_entries st) key = None" "of_nat (length (as_entries st)) = as_maxEntries st"
      "jm_get (as_entries st) old = Some oe" "\<forall>(k', e') \<in> set (as_entries st). ae_updatedAt oe \<le> ae_updatedAt e'"
      "setEntry st key e = st\<lparr>as_entries := jm_set key e (jm_delete old (as_entries st))\<rparr>"
proof (cases "of_nat (length (as_entries st)) \<ge> as_maxEntries st \<and> \<not> jm_has (as_entries st) key")
  case False
  then show ?thesis using that(1) by (auto simp: setEntry_def Let_def)
next
  case True
  then have "as_entries st \<noteq> []" using inv by (auto simp: affinity_inv_def)
  then obtain k oe where k: "findOldestKey st = Some k" "(k, oe) \<in> set (as_entries st)"
    "\<forall>(k', e') \<in> set (as_entries st). ae_updatedAt oe \<le> ae_updatedAt e'"
    using findOldestKey_Some by blast
  moreover have "k \<noteq> []" by (rule affinity_inv_key [OF inv k(2)])
  moreover have "jm_get (as_entries st) k = Some oe" using k(2) inv by (simp add: affinity_inv_def jm_mem_get)
  ultimately show ?thesis using that(2) True inv by (auto simp: setEntry_def affinity_inv_def jm_has_def)
qed

lemma setEntry_fields [simp]:
  "as_ttlMs (setEntry st key e) = as_ttlMs st"
  "as_maxEntries (setEntry st key e) = as_maxEntries st"
  "as_writeVersionCounter (setEntry st key e) = as_writeVersionCounter st"
  by (auto simp: setEntry_def Let_def split: option.split)

lemma setEntry_get:
  assumes "affinity_inv st"
  shows "jm_get (as_entries (setEntry st key e)) key = Some e"
  by (cases rule: setEntry_cases [OF assms, of key e]) (simp_all add: jm_simps)

lemma affinity_inv_setEntry:
  assumes inv: "affinity_inv st" and ok: "entry_ok (as_writeVersionCounter st) (as_ttlMs st) key e"
  shows "affinity_inv (setEntry st key e)"
proof (cases rule: setEntry_cases [OF inv, of key e])
  case 1
  define n where "n = \<lfloor>as_maxEntries st\<rfloor>"
  have int: "of_int n = as_maxEntries st" unfolding n_def
    using inv by (simp only: affinity_inv_def js_floor_def)
  have "of_nat (length (jm_set key e (as_entries st))) \<le> as_maxEntries st"
  proof (cases "jm_has (as_entries st) key")
    case True
    with inv show ?thesis by (simp add: length_jm_set affinity_inv_def)
  next
    case False
    with 1 have "rat_of_int (int (length (as_entries st))) < of_int n" using int by simp
    then have "int (length (as_entries st)) < n" by (simp only: of_int_less_iff)
    then have "int (Suc (length (as_entries st))) \<le> n" by simp
    then have "rat_of_int (int (Suc (length (as_entries st)))) \<le> of_int n" by (simp only: of_int_le_iff)
    with False int show ?thesis by (simp add: length_jm_set)
  qed
  with 1 inv ok show ?thesis by (auto simp: affinity_inv_def jm_ok_set)
next
  case (2 old oe)
  have "length (jm_set key e (jm_delete old (as_entries st))) \<le> length (as_entries st)"
    by (rule jm.evict_put_size) (simp_all add: 2)
  then have "of_nat (length (jm_set key e (jm_delete old (as_entries st)))) \<le> as_maxEntries st"
    using 2(2) by (metis of_nat_le_iff)
  with 2 inv ok show ?thesis by (auto simp: affinity_inv_def jm_ok_set jm_ok_delete)
qed


lemma affinity_inv_counter:
  "affinity_inv st \<Longrightarrow> as_writeVersionCounter st \<le> c \<Longrightarrow> affinity_inv (st\<lparr>as_writeVersionCounter := c\<rparr>)"
  by (auto simp: affinity_inv_def entry_ok_def elim!: jm_all_mono)

lemma normalizeWriteVersion_ok:
  assumes "normalizeWriteVersion st v = (version, st')"
  shows "version \<le> as_writeVersionCounter st' \<and> as_writeVersionCounter st \<le> as_writeVersionCounter st'
    \<and> st' = st\<lparr>as_writeVersionCounter := as_writeVersionCounter st'\<rparr>"
  using assms by (auto simp: normalizeWriteVersion_def Let_def split: option.splits jsval.splits)

lemma affinity_inv_delete: "affinity_inv st \<Longrightarrow> affinity_inv (st\<lparr>as_entries := jm_delete k (as_entries st)\<rparr>)"
  using length_jm_delete_le [of k "as_entries st"]
  by (auto simp: affinity_inv_def jm_ok_delete intro: order_trans [rotated])

lemma affinity_inv_remove_if: "affinity_inv st \<Longrightarrow> affinity_inv (st\<lparr>as_entries := jm_remove_if p (as_entries st)\<rparr>)"
  using length_jm_remove_if_le [of p "as_entries st"]
  by (auto simp: affinity_inv_def jm_ok_remove_if intro: order_trans [rotated])

lemma affinity_inv_remember:
  assumes inv: "affinity_inv st"
  shows "affinity_inv (rememberWithVersion st k a now v)"
proof -
  obtain version st' where n: "normalizeWriteVersion st v = (version, st')" by (cases "normalizeWriteVersion st v")
  note ok = normalizeWriteVersion_ok [OF n]
  have inv': "affinity_inv st'" using affinity_inv_counter [OF inv] ok by metis
  have "affinity_inv (setEntry st' key \<lparr>ae_accountIndex = i, ae_expiresAt = now + as_ttlMs st',
      ae_lastResponseId = r, ae_updatedAt = now, ae_writeVersion = version\<rparr>)" if "key \<noteq> []" for key i r
    using that ok by (intro affinity_inv_setEntry [OF inv']) (simp add: entry_ok_def)
  moreover have "normalizeSessionKey k \<noteq> Some []"
    by (auto simp: normalizeSessionKey_def MAX_SESSION_KEY_LENGTH_def Let_def split: option.splits)
  ultimately show ?thesis using inv inv' n
    by (auto simp: rememberWithVersion_def Let_def split: option.splits jsval.splits)
qed

lemma normalizeSessionKey_nonempty: "normalizeSessionKey k \<noteq> Some []"
  by (auto simp: normalizeSessionKey_def MAX_SESSION_KEY_LENGTH_def Let_def split: option.splits)

lemma affinity_inv_update:
  assumes inv: "affinity_inv st"
  shows "affinity_inv (updateLastResponseId st k r now v)"
proof -
  obtain version st' where n: "normalizeWriteVersion st v = (version, st')" by (cases "normalizeWriteVersion st v")
  note ok = normalizeWriteVersion_ok [OF n]
  have inv': "affinity_inv st'" using affinity_inv_counter [OF inv] ok by metis
  have "affinity_inv (setEntry st' key (e\<lparr>ae_expiresAt := now + as_ttlMs st', ae_lastResponseId := x,
      ae_updatedAt := now, ae_writeVersion := version\<rparr>))" if "key \<noteq> []" for key e x
    using that ok by (intro affinity_inv_setEntry [OF inv']) (simp add: entry_ok_def)
  with inv inv' n affinity_inv_delete [OF inv'] normalizeSessionKey_nonempty [of k] show ?thesis
    by (auto simp: updateLastResponseId_def Let_def split: option.splits)
qed

lemma affinity_inv_reindex:
  "affinity_inv st \<Longrightarrow> affinity_inv (snd (reindexAfterRemoval st a))"
  by (auto simp: affinity_inv_def reindexAfterRemoval_def jm_ok_map_values jm_all_map_values entry_ok_def
      split: jsval.split elim!: jm_all_mono)

lemma affinity_inv_step: "affinity_inv st \<Longrightarrow> affinity_inv (affinity_step x t st)"
  by (cases x)
    (auto simp: affinity_inv_remember affinity_inv_update affinity_inv_reindex affinity_inv_delete
      affinity_inv_remove_if getPreferredAccountIndex_def getLastResponseId_def forgetSession_def
      forgetAccount_def affinity_prune_def affinity_clearAll_def Let_def split: option.split jsval.split,
      auto simp: affinity_inv_def)

interpretation aff: stable_machine affinity_step affinity_inv
  by unfold_locales (rule affinity_inv_step)

lemma affinity_inv_new: "affinity_inv (affinity_new ttl cap)"
  by (simp add: affinity_inv_def affinity_new_def max_def)

section \<open>Lookups after a write\<close>

lemma rememberWithVersion_eq:
  assumes "normalizeSessionKey k = Some key" and "0 \<le> i" and "normalizeWriteVersion st v = (version, st')"
  shows "rememberWithVersion st k (Finite i) now v =
    (if (\<exists>e. jm_get (as_entries st) key = Some e \<and> ae_expiresAt e > now \<and> ae_writeVersion e > version) then st'
     else setEntry st' key \<lparr>ae_accountIndex = i, ae_expiresAt = now + as_ttlMs st,
       ae_lastResponseId = (case jm_get (as_entries st) key of Some e \<Rightarrow> ae_lastResponseId e | None \<Rightarrow> None),
       ae_updatedAt = now, ae_writeVersion = version\<rparr>)"
proof -
  have "as_entries st' = as_entries st" "as_ttlMs st' = as_ttlMs st"
    using normalizeWriteVersion_ok [OF assms(3)] by (metis affinity_store.select_convs(1,3) affinity_store.surjective
      affinity_store.update_convs(4))+
  with assms show ?thesis
    by (auto simp: rememberWithVersion_def Let_def split: option.splits)
qed


lemma normalizeWriteVersion_entries:
  "normalizeWriteVersion st v = (version, st') \<Longrightarrow> as_entries st' = as_entries st \<and> as_ttlMs st' = as_ttlMs st
     \<and> as_maxEntries st' = as_maxEntries st"
  by (auto simp: normalizeWriteVersion_def Let_def split: option.splits jsval.splits)

text \<open>Writers with explicit versions for one session, in any order.\<close>

fun versioned_writes ::
  "affinity_store \<Rightarrow> string option \<Rightarrow> (jsnum \<times> nat \<times> jsnum) list \<Rightarrow> affinity_store" where
  "versioned_writes st k [] = st"
| "versioned_writes st k ((i, v, now) # ws) =
     versioned_writes (rememberWithVersion st k (Finite i) now (Some (Finite (of_nat v)))) k ws"

text \<open>The write that wins: the one with the largest version, the last among equals.\<close>

fun winner :: "jsnum \<times> nat \<Rightarrow> (jsnum \<times> nat \<times> jsnum) list \<Rightarrow> jsnum \<times> nat" where
  "winner (a, n) [] = (a, n)"
| "winner (a, n) ((i, v, now) # ws) = winner (if n \<le> v then (i, v) else (a, n)) ws"

lemma remember_versioned:
  assumes inv: "affinity_inv st" and key: "normalizeSessionKey k = Some key" and "0 \<le> i"
    and e: "jm_get (as_entries st) key = Some e" and "ae_expiresAt e > now" and "ae_writeVersion e = of_nat n"
  shows "\<exists>e'. jm_get (as_entries (rememberWithVersion st k (Finite i) now (Some (Finite (of_nat v))))) key = Some e'
     \<and> (ae_accountIndex e', ae_writeVersion e') = (if n \<le> v then (i, of_nat v) else (ae_accountIndex e, of_nat n))
     \<and> ae_expiresAt e' = (if n \<le> v then now + as_ttlMs st else ae_expiresAt e)
     \<and> as_ttlMs (rememberWithVersion st k (Finite i) now (Some (Finite (of_nat v)))) = as_ttlMs st"
proof -
  obtain version st' where n: "normalizeWriteVersion st (Some (Finite (of_nat v))) = (version, st')" by fastforce
  then have ver: "version = of_nat v" by (auto simp: normalizeWriteVersion_def Let_def)
  note ok = normalizeWriteVersion_ok [OF n] normalizeWriteVersion_entries [OF n]
  have inv': "affinity_inv st'" using affinity_inv_counter [OF inv] ok by metis
  show ?thesis
    using rememberWithVersion_eq [OF key assms(3) n, of now] ok ver assms(4-6) setEntry_get [OF inv']
    by auto
qed

lemma versioned_writes_winner:
  assumes "affinity_inv st" and "normalizeSessionKey k = Some key"
    and "jm_get (as_entries st) key = Some e" and "ae_writeVersion e = of_nat n"
    and "list_all (\<lambda>(i, v, now). 0 \<le> i \<and> now < ae_expiresAt e \<and> ae_expiresAt e \<le> now + as_ttlMs st) ws"
  shows "\<exists>e'. jm_get (as_entries (versioned_writes st k ws)) key = Some e'
     \<and> ae_accountIndex e' = fst (winner (ae_accountIndex e, n) ws) \<and> ae_expiresAt e \<le> ae_expiresAt e'"
proof -
  define lim where "lim = ae_expiresAt e"
  have le: "lim \<le> ae_expiresAt e" by (simp add: lim_def)
  have all: "list_all (\<lambda>(i, v, now). 0 \<le> i \<and> now < lim \<and> lim \<le> now + as_ttlMs st) ws"
    using assms(5) by (simp add: lim_def)
  have "\<exists>e'. jm_get (as_entries (versioned_writes st k ws)) key = Some e'
     \<and> ae_accountIndex e' = fst (winner (ae_accountIndex e, n) ws) \<and> lim \<le> ae_expiresAt e'"
    using assms(1,3,4) le all
  proof (induction ws arbitrary: st e n)
    case (Cons w ws)
    obtain i v now where w: "w = (i, v, now)" by (cases w)
    let ?st = "rememberWithVersion st k (Finite i) now (Some (Finite (of_nat v)))"
    have pre: "0 \<le> i" "ae_expiresAt e > now" using Cons.prems w by auto
    from remember_versioned [OF Cons.prems(1) assms(2) pre(1) Cons.prems(2) pre(2) Cons.prems(3), of v]
    obtain e' where e': "jm_get (as_entries ?st) key = Some e'"
      "(ae_accountIndex e', ae_writeVersion e') = (if n \<le> v then (i, of_nat v) else (ae_accountIndex e, of_nat n))"
      "ae_expiresAt e' = (if n \<le> v then now + as_ttlMs st else ae_expiresAt e)" "as_ttlMs ?st = as_ttlMs st" by blast
    have "lim \<le> ae_expiresAt e'" using e'(3) Cons.prems w by auto
    moreover have "list_all (\<lambda>(i, v, now). 0 \<le> i \<and> now < lim \<and> lim \<le> now + as_ttlMs ?st) ws"
      using Cons.prems(5) e'(4) w by simp
    moreover have "affinity_inv ?st" by (rule affinity_inv_remember [OF Cons.prems(1)])
    moreover have "ae_writeVersion e' = of_nat (max n v)" using e'(2) by (auto split: if_splits)
    ultimately have "\<exists>e''. jm_get (as_entries (versioned_writes ?st k ws)) key = Some e''
        \<and> ae_accountIndex e'' = fst (winner (ae_accountIndex e', max n v) ws) \<and> lim \<le> ae_expiresAt e''"
      using Cons.IH [of ?st e' "max n v"] e'(1) by blast
    with e'(2) w show ?case by (auto simp: max_def split: if_splits)
  qed auto
  then show ?thesis by (simp add: lim_def)
qed

lemma remember_fresh:
  assumes inv: "affinity_inv st" and key: "normalizeSessionKey k = Some key" and "0 \<le> i"
    and "\<not> (\<exists>e. jm_get (as_entries st) key = Some e \<and> ae_expiresAt e > now)"
  shows "\<exists>e version. jm_get (as_entries (rememberWithVersion st k (Finite i) now v)) key = Some e
     \<and> ae_accountIndex e = i \<and> ae_expiresAt e = now + as_ttlMs st
     \<and> (\<forall>n. v = Some (Finite (of_nat n)) \<longrightarrow> ae_writeVersion e = of_nat n)"
proof -
  obtain version st' where n: "normalizeWriteVersion st v = (version, st')" by fastforce
  then have ver: "v = Some (Finite (of_nat m)) \<Longrightarrow> version = of_nat m" for m
    by (auto simp: normalizeWriteVersion_def Let_def)
  note ok = normalizeWriteVersion_ok [OF n]
  have "affinity_inv st'" using affinity_inv_counter [OF inv] ok by metis
  from setEntry_get [OF this] rememberWithVersion_eq [OF key assms(3) n, of now] assms(4) ver
  show ?thesis by auto
qed

lemma getPreferred_live:
  assumes "normalizeSessionKey k = Some key" and "jm_get (as_entries st) key = Some e" and "now < ae_expiresAt e"
  shows "fst (getPreferredAccountIndex st k now) = Some (ae_accountIndex e)"
  using assms by (simp add: getPreferredAccountIndex_def)

section \<open>Properties\<close>



text \<open>
  The store is bounded: on every run from a fresh store it holds at most \<open>maxEntries\<close> sessions,
  under distinct non-empty keys, and no entry carries a version above the counter.
\<close>

theorem affinity_bounded:
  "let st = timed_run affinity_step (affinity_new ttl cap) ops
   in of_nat (affinity_size st) \<le> as_maxEntries (affinity_new ttl cap) \<and> jm_ok (as_entries st)
      \<and> jm_all (\<lambda>key e. key \<noteq> [] \<and> ae_writeVersion e \<le> as_writeVersionCounter st) (as_entries st)"
proof -
  let ?st = "timed_run affinity_step (affinity_new ttl cap) ops"
  have max: "as_maxEntries (affinity_step x t st) = as_maxEntries st" for x t st
    by (cases x) (auto simp: getPreferredAccountIndex_def getLastResponseId_def forgetSession_def
      forgetAccount_def affinity_prune_def affinity_clearAll_def reindexAfterRemoval_def rememberWithVersion_def
      updateLastResponseId_def normalizeWriteVersion_def Let_def split: option.split jsval.split)
  have "as_maxEntries (timed_run affinity_step st ops) = as_maxEntries st" for st
    by (induction ops arbitrary: st) (auto simp: max)
  moreover have "affinity_inv ?st" by (rule aff.keeps_run [OF affinity_inv_new])
  ultimately show ?thesis
    by (auto simp: affinity_inv_def affinity_size_def Let_def entry_ok_def elim!: jm_all_mono)
qed

text \<open>
  Removing an account keeps every other session on its account.  After \<open>forgetAccount i\<close> and
  \<open>reindexAfterRemoval i\<close> a session bound to account \<open>i\<close> is free, one bound to a later account
  is bound to the index that account moved to, and every other binding is unchanged.
\<close>

theorem affinity_follows_removal:
  assumes "jm_ok (as_entries st)" and "0 \<le> i"
  shows "fst (getPreferredAccountIndex
      (snd (reindexAfterRemoval (snd (forgetAccount st (Finite i))) (Finite i))) k now) =
    (case fst (getPreferredAccountIndex st k now) of
       None \<Rightarrow> None
     | Some j \<Rightarrow> if j = i then None else Some (if i < j then j - 1 else j))"
proof (cases "normalizeSessionKey k")
  case (Some key)
  with assms show ?thesis
    by (cases "jm_get (as_entries st) key")
      (auto simp: getPreferredAccountIndex_def reindexAfterRemoval_def forgetAccount_def
        jm_get_remove_if jm_get_map_values)
qed (simp add: getPreferredAccountIndex_def)

theorem affinity_follows_removal_witness:
  "fst (getPreferredAccountIndex (snd (reindexAfterRemoval (snd (forgetAccount
      (affinity_remember (affinity_new None None) (Some ''s'') (Finite 3) 0) (Finite 1))) (Finite 1))) (Some ''s'') 50)
   = Some 2"
proof -
  have key: "normalizeSessionKey (Some ''s'') = Some ''s''"
    by (simp add: normalizeSessionKey_def js_trim_def js_space_def MAX_SESSION_KEY_LENGTH_def)
  have "jm_ok (as_entries (affinity_remember (affinity_new None None) (Some ''s'') (Finite 3) 0))"
    using affinity_inv_remember [OF affinity_inv_new] by (simp add: affinity_remember_def affinity_inv_def)
  from affinity_follows_removal [OF this, of 1 "Some ''s''" 50] key show ?thesis
    by (simp add: affinity_remember_def rememberWithVersion_def affinity_new_def normalizeWriteVersion_def
        getPreferredAccountIndex_def setEntry_def DEFAULT_MAX_ENTRIES_def DEFAULT_TTL_MS_def jm_has_def Let_def)
qed

text \<open>
  A binding lasts exactly its lifetime.  Binding a free session to account \<open>i\<close> at \<open>t\<close> makes it
  answer \<open>i\<close> at every time before \<open>t + ttl\<close> and nothing from then on; every other session keeps
  its entry, except that a full store gives up the one that was updated least recently.
\<close>

theorem affinity_binding_lifetime:
  assumes "affinity_inv st" and "normalizeSessionKey k = Some key" and "0 \<le> i"
    and "jm_get (as_entries st) key = None"
  shows "fst (getPreferredAccountIndex (affinity_remember st k (Finite i) t) k now) =
       (if now < t + as_ttlMs st then Some i else None)
    \<and> (\<exists>evicted. (\<forall>key'. key' \<noteq> key \<longrightarrow> Some key' \<noteq> evicted \<longrightarrow>
          jm_get (as_entries (affinity_remember st k (Finite i) t)) key' = jm_get (as_entries st) key')
        \<and> (case evicted of
             None \<Rightarrow> True
           | Some old \<Rightarrow> of_nat (affinity_size st) = as_maxEntries st
               \<and> (\<exists>e. jm_get (as_entries st) old = Some e
                     \<and> (\<forall>(k', e') \<in> set (as_entries st). ae_updatedAt e \<le> ae_updatedAt e'))))"
proof -
  let ?st' = "st\<lparr>as_writeVersionCounter := as_writeVersionCounter st + 1\<rparr>"
  let ?e = "\<lparr>ae_accountIndex = i, ae_expiresAt = t + as_ttlMs st, ae_lastResponseId = None, ae_updatedAt = t,
       ae_writeVersion = as_writeVersionCounter st + 1\<rparr>"
  have n: "normalizeWriteVersion st None = (as_writeVersionCounter st + 1, ?st')"
    by (simp add: normalizeWriteVersion_def)
  have rem: "affinity_remember st k (Finite i) t = setEntry ?st' key ?e"
    using rememberWithVersion_eq [OF assms(2,3) n, of t] assms(4) by (simp add: affinity_remember_def)
  have inv: "affinity_inv ?st'" by (rule affinity_inv_counter [OF assms(1)]) simp
  have get: "fst (getPreferredAccountIndex (setEntry ?st' key ?e) k now) = (if now < t + as_ttlMs st then Some i else None)"
    using setEntry_get [OF inv, of key ?e] assms(2) by (simp add: getPreferredAccountIndex_def)
  show ?thesis
  proof (cases rule: setEntry_cases [OF inv, of key ?e])
    case 1
    then show ?thesis unfolding rem using get
      by (intro conjI exI [of _ None]) (auto simp: jm_simps)
  next
    case (2 old oe)
    have len: "of_nat (affinity_size st) = as_maxEntries st" using 2(2) by (simp add: affinity_size_def)
    have ol: "jm_get (as_entries st) old = Some oe"
      "\<forall>(k', e') \<in> set (as_entries st). ae_updatedAt oe \<le> ae_updatedAt e'" using 2(3,4) by simp_all
    show ?thesis unfolding rem
    proof (rule conjI [OF get], rule exI [of _ "Some old"], rule conjI)
      show "\<forall>key'. key' \<noteq> key \<longrightarrow> Some key' \<noteq> Some old \<longrightarrow>
          jm_get (as_entries (setEntry ?st' key ?e)) key' = jm_get (as_entries st) key'"
        unfolding 2(5) by (simp add: jm_simps)
    qed (use len ol in auto)
  qed
qed

theorem affinity_binding_lifetime_witness:
  "fst (getPreferredAccountIndex (affinity_remember (affinity_new None None) (Some ''s'') (Finite 3) 10) (Some ''s'')
     1200009) = Some 3"
proof -
  have key: "normalizeSessionKey (Some ''s'') = Some ''s''"
    by (simp add: normalizeSessionKey_def js_trim_def js_space_def MAX_SESSION_KEY_LENGTH_def)
  have "jm_get (as_entries (affinity_new None None)) ''s'' = None" by (simp add: affinity_new_def)
  from affinity_binding_lifetime [OF affinity_inv_new key _ this, of 3 10 1200009]
  show ?thesis by (simp add: affinity_new_def DEFAULT_TTL_MS_def)
qed

end
