(* ===== verification/AccountLimits.thy ===== *)
theory AccountLimits
  imports AccountPointers
begin

text \<open>
  \<open>lib/accounts.ts\<close>, part three: recording a 429, applying a manual selection, and the wait until
  some account can be used.  The selection metadata on disk is a parameter: \<open>None\<close> when the strict
  read failed, otherwise the pin and the generation it returned.
\<close>

section \<open>Manual selection\<close>

definition UNSEQUENCED_RATE_LIMIT_TTL_MS :: jsnum where
  "UNSEQUENCED_RATE_LIMIT_TTL_MS = 30000"

record selection_meta =
  sm_pinnedAccountIndex :: "int option"
  sm_affinityGeneration :: int

text \<open>The pending limits a selection may still replay.\<close>

definition replayable :: "jsnum \<Rightarrow> managed_account \<Rightarrow> unsequenced option" where
  "replayable now a =
     (case unsequencedRateLimits a of
        Some u \<Rightarrow> if now - us_recordedAtMs u \<le> UNSEQUENCED_RATE_LIMIT_TTL_MS then Some u else None
      | None \<Rightarrow> None)"

text \<open>\<open>Object.assign(target, source)\<close>\<close>

definition jm_assign :: "('k, 'v) jsmap \<Rightarrow> ('k, 'v) jsmap \<Rightarrow> ('k, 'v) jsmap" where
  "jm_assign target source = fold (\<lambda>(k, v). jm_set k v) source target"

definition select_account :: "jsnum \<Rightarrow> managed_account \<Rightarrow> managed_account" where
  "select_account now a =
     (let pending = replayable now a;
          a = clearAllRateLimits a
      in a\<lparr>rateLimitResetTimes := jm_assign (rateLimitResetTimes a) (case pending of Some u \<Rightarrow> us_limits u | None \<Rightarrow> []),
           lastRateLimitReason := map_option us_reason pending,
           unsequencedRateLimits := None\<rparr>)"

definition applyManualSelection :: "jsnum \<Rightarrow> selection_meta \<Rightarrow> pool \<Rightarrow> pool" where
  "applyManualSelection now meta p =
     (if sm_affinityGeneration meta \<le> affinityGeneration p then p
      else let index = sm_pinnedAccountIndex meta;
               account = (case index of Some i \<Rightarrow> getAccountByIndex p (Finite (of_int i)) | None \<Rightarrow> None);
               p = (case account of Some i \<Rightarrow> set_acc i (select_account now (acc p i)) p | None \<Rightarrow> p)
           in p\<lparr>pinnedAccountIndex := (if account \<noteq> None then index else None),
                affinityGeneration := sm_affinityGeneration meta\<rparr>)"

section \<open>Recording a rejection\<close>

definition getRateLimitObservationKey :: "string \<Rightarrow> string option \<Rightarrow> string" where
  "getRateLimitObservationKey quotaKey scopeId =
     (case scopeId of None \<Rightarrow> quotaKey
      | Some s \<Rightarrow> CHR ''['' # json_quote s @ '','' @ json_quote quotaKey @ '']'')"

definition cloneRateLimitObservation :: "rl_observation \<Rightarrow> rl_observation" where
  "cloneRateLimitObservation observation = observation"

record receipts =
  rc_generations :: "(string, jsnum) jsmap"
  rc_identities :: "(string, string) jsmap"

record rl_context =
  ctx_workspaceId :: string
  ctx_receiptReadFailed :: bool
  ctx_receipts :: "receipts option"

definition merge_generations :: "(string, jsnum) jsmap \<Rightarrow> (string, jsnum) jsmap \<Rightarrow> (string, jsnum) jsmap" where
  "merge_generations previous known =
     fold (\<lambda>(scope, generation) m. jm_set scope (max (nullish (jm_get m scope) 0) generation) m) known previous"

definition merge_identities :: "(string, string list) jsmap \<Rightarrow> (string, string) jsmap \<Rightarrow> (string, string list) jsmap" where
  "merge_identities previous known =
     fold (\<lambda>(scope, identity) m.
        if (case jm_get m scope of Some ids \<Rightarrow> identity \<in> set ids | None \<Rightarrow> False) then m
        else jm_set scope (nullish (jm_get m scope) [] @ [identity]) m) known previous"

definition recordRejection ::
  "jsnum \<Rightarrow> rate_limit_reason \<Rightarrow> string option \<Rightarrow> rl_context option \<Rightarrow> string \<Rightarrow> managed_account \<times> nat
     \<Rightarrow> managed_account \<times> nat" where
  "recordRejection now reason scopeId observation key st =
     (case st of (a, sequence) \<Rightarrow>
        let observationKey = getRateLimitObservationKey key scopeId;
            previous = jm_get (rateLimitObservations a) observationKey;
            known = nullish (Option.bind observation ctx_receipts)
                      \<lparr>rc_generations = resetReceiptGenerations a, rc_identities = resetReceiptIdentities a\<rparr>;
            relevant = (case scopeId of None \<Rightarrow> rc_generations known
                        | Some s \<Rightarrow> [(s, nullish (jm_get (rc_generations known) s) 0)])
        in (a\<lparr>rateLimitObservations := jm_set observationKey
               \<lparr>ob_revision = (case previous of Some r \<Rightarrow> ob_revision r | None \<Rightarrow> 0) + 1, ob_observedAt = now,
                ob_sequence = sequence + 1, ob_reason = reason,
                ob_receiptGenerations = merge_generations (case previous of Some r \<Rightarrow> ob_receiptGenerations r | None \<Rightarrow> []) relevant,
                ob_receiptIdentities = merge_identities (case previous of Some r \<Rightarrow> ob_receiptIdentities r | None \<Rightarrow> [])
                  (rc_identities known),
                ob_receiptReadFailed = ((case previous of Some r \<Rightarrow> ob_receiptReadFailed r | None \<Rightarrow> False)
                  \<or> (case observation of Some c \<Rightarrow> ctx_receiptReadFailed c | None \<Rightarrow> False)),
                ob_liftedByReset = False\<rparr> (rateLimitObservations a)\<rparr>, sequence + 1))"

text \<open>
  One deadline: it is extended to \<open>resetAt\<close>, in the account's table and in the table of new limits,
  and the rejection is recorded under its unscoped key.
\<close>

definition record_limit ::
  "jsnum \<Rightarrow> jsnum \<Rightarrow> rate_limit_reason \<Rightarrow> string option \<Rightarrow> rl_context option \<Rightarrow> quota_key
     \<Rightarrow> managed_account \<times> rate_limit_state \<times> nat \<Rightarrow> managed_account \<times> rate_limit_state \<times> nat" where
  "record_limit now resetAt reason scopeId observation key st =
     (case st of (a, newLimits, sequence) \<Rightarrow>
        let k = (case observation of Some c \<Rightarrow> workspaceQuotaKey key (ctx_workspaceId c) | None \<Rightarrow> key);
            a = a\<lparr>rateLimitResetTimes :=
                  jm_set k (Some (max (reset_at (rateLimitResetTimes a) k) resetAt)) (rateLimitResetTimes a)\<rparr>;
            newLimits = jm_set k (Some (max (reset_at newLimits k) resetAt)) newLimits;
            (a, sequence) = recordRejection now reason scopeId observation key (a, sequence)
        in (a, newLimits, sequence))"

definition limits_base :: "string option \<Rightarrow> rate_limit_reason \<Rightarrow> bool" where
  "limits_base model reason \<longleftrightarrow> model \<noteq> Some LUNA_RESERVE_MODEL
     \<and> (\<not> truthy_string model \<or> reason = QuotaReason \<or> reason = UnknownReason)"

definition limits_model :: "string option \<Rightarrow> rate_limit_reason \<Rightarrow> bool" where
  "limits_model model reason \<longleftrightarrow> truthy_string model
     \<and> (model = Some LUNA_RESERVE_MODEL \<or> reason = TokensReason \<or> reason = ConcurrentReason \<or> reason = UnknownReason)"

definition markRateLimitedWithReason ::
  "jsnum \<Rightarrow> selection_meta option \<Rightarrow> nat \<Rightarrow> jsnum \<Rightarrow> model_family \<Rightarrow> rate_limit_reason \<Rightarrow> string option
     \<Rightarrow> string option \<Rightarrow> rl_context option \<Rightarrow> pool \<Rightarrow> pool" where
  "markRateLimitedWithReason now meta i retryAfterMs family reason model scopeId observation p =
     (let p = (case meta of Some sel \<Rightarrow> applyManualSelection now sel p | None \<Rightarrow> p);
          retryMs = min (max 0 (js_floor retryAfterMs)) RATE_LIMIT_CACHE_TTL_MS;
          resetAt = now + retryMs;
          carried = replayable now (acc p i);
          st = (acc p i, (case carried of Some u \<Rightarrow> us_limits u | None \<Rightarrow> []), rejectionSequence p);
          st = (if limits_base model reason
                then record_limit now resetAt reason scopeId observation (getQuotaKey family None) st else st);
          (a, newLimits, sequence) =
               (if limits_model model reason
                then record_limit now resetAt reason scopeId observation (getQuotaKey family model) st else st)
      in (set_acc i (a\<lparr>lastRateLimitReason := Some reason,
            unsequencedRateLimits := (if meta = None
              then Some \<lparr>us_limits = newLimits, us_reason = reason, us_recordedAtMs = now\<rparr> else None)\<rparr>) p)
         \<lparr>rejectionSequence := sequence\<rparr>)"

definition markRateLimited ::
  "jsnum \<Rightarrow> selection_meta option \<Rightarrow> nat \<Rightarrow> jsnum \<Rightarrow> model_family \<Rightarrow> string option \<Rightarrow> pool \<Rightarrow> pool" where
  "markRateLimited now meta i retryAfterMs family model p =
     markRateLimitedWithReason now meta i retryAfterMs family UnknownReason model None None p"

section \<open>The wait for an account\<close>

definition wait_gates ::
  "pool_env \<Rightarrow> jsnum \<Rightarrow> model_family \<Rightarrow> string option \<Rightarrow> nat \<Rightarrow> pool \<Rightarrow> bool \<times> pool" where
  "wait_gates env now family model i p =
     (let (limited, a) = isRateLimitedForFamily (env_claim env) now (clearExpiredRateLimits now (acc p i)) family model
      in if limited then (False, set_acc i a p)
         else let (cooling, a) = isAccountCoolingDown now a
              in if cooling then (False, set_acc i a p) else isCircuitAvailable env now i (set_acc i a p))"

text \<open>\<open>filter\<close> with a predicate that has side effects, every element asked.\<close>

fun filter_st :: "(nat \<Rightarrow> 's \<Rightarrow> bool \<times> 's) \<Rightarrow> nat list \<Rightarrow> 's \<Rightarrow> nat list \<times> 's" where
  "filter_st check [] s = ([], s)"
| "filter_st check (i # rest) s =
     (case check i s of (b, s) \<Rightarrow> case filter_st check rest s of (r, s) \<Rightarrow> (if b then i # r else r, s))"

definition wait_candidates_of :: "nat set \<Rightarrow> pool \<Rightarrow> nat list" where
  "wait_candidates_of excludedIndexes p =
     filter (\<lambda>i. ma_enabled (acc p i) \<noteq> Some False \<and> \<not> isAccountAuthInvalidated (acc p i)
       \<and> ma_index (acc p i) \<notin> excludedIndexes) [0..<length (accounts p)]"

definition account_wait ::
  "pool_env \<Rightarrow> jsnum \<Rightarrow> model_family \<Rightarrow> string option \<Rightarrow> nat \<Rightarrow> pool \<Rightarrow> jsnum option \<times> pool" where
  "account_wait env now family model i p =
     (let a = acc p i;
          workspace = selectedQuotaWorkspace (env_claim env) a;
          baseResetAt = quotaResetTime a (getQuotaKey family None) workspace;
          modelResetAt = quotaResetTime a (getQuotaKey family model) workspace;
          w1 = (if model \<noteq> Some LUNA_RESERVE_MODEL \<and> baseResetAt > now then [max 0 (baseResetAt - now)] else []);
          w2 = (if truthy_string model \<and> modelResetAt > now then [max 0 (modelResetAt - now)] else []);
          w3 = (case coolingDownUntil a of Some until \<Rightarrow> [max 0 (until - now)] | None \<Rightarrow> []);
          (b, ck, p) = account_breaker env now i p;
          breakerWait = getTimeUntilAvailable b now;
          w4 = (if breakerWait > 0 then [breakerWait] else []);
          perAccountWaitTimes = w1 @ w2 @ w3 @ w4
      in (if perAccountWaitTimes = [] then None else Some (Max (set perAccountWaitTimes)), p))"

fun account_waits ::
  "pool_env \<Rightarrow> jsnum \<Rightarrow> model_family \<Rightarrow> string option \<Rightarrow> nat list \<Rightarrow> pool \<Rightarrow> jsnum list \<times> pool" where
  "account_waits env now family model [] p = ([], p)"
| "account_waits env now family model (i # rest) p =
     (case account_wait env now family model i p of (w, p) \<Rightarrow>
        case account_waits env now family model rest p of (ws, p) \<Rightarrow>
          (case w of Some x \<Rightarrow> x # ws | None \<Rightarrow> ws, p))"

definition getMinWaitTimeForFamily ::
  "pool_env \<Rightarrow> jsnum \<Rightarrow> model_family \<Rightarrow> string option \<Rightarrow> nat set \<Rightarrow> pool \<Rightarrow> jsnum \<times> pool" where
  "getMinWaitTimeForFamily env now family model excludedIndexes p =
     (let enabledAccounts = wait_candidates_of excludedIndexes p;
          (available, p) = filter_st (wait_gates env now family model) enabledAccounts p
      in if available \<noteq> [] then (0, p)
         else if enabledAccounts = [] then (0, p)
         else let (waitTimes, p) = account_waits env now family model enabledAccounts p
              in (if waitTimes \<noteq> [] then Min (set waitTimes) else 0, p))"

section \<open>Labels\<close>

definition cooldown_reason_text :: "cooldown_reason \<Rightarrow> string" where
  "cooldown_reason_text r = (case r of AuthFailure \<Rightarrow> ''auth-failure'' | NetworkError \<Rightarrow> ''network-error''
     | ServerError \<Rightarrow> ''server-error'' | RateLimitCooldown \<Rightarrow> ''rate-limit'')"

definition formatCooldown :: "managed_account \<Rightarrow> jsnum \<Rightarrow> string option" where
  "formatCooldown a now =
     (case coolingDownUntil a of
        None \<Rightarrow> None
      | Some until \<Rightarrow>
          let remaining = until - now
          in if remaining \<le> 0 then None
             else Some (formatWaitTime (WaitMs remaining) @
               (case cooldownReason a of Some r \<Rightarrow> '' ('' @ cooldown_reason_text r @ '')'' | None \<Rightarrow> [])))"

end
