(* ===== verification/LimitResults.thy ===== *)
theory LimitResults
  imports AccountLimits AccountResults
begin

text \<open>
  Results about the rate limits of the pool: what recording a 429 does to the deadlines, how it
  meets a manual selection read from disk, and that the reported wait is exact.
\<close>

section \<open>Recording\<close>

definition limit_key :: "rl_context option \<Rightarrow> quota_key \<Rightarrow> quota_key" where
  "limit_key observation key = (case observation of Some c \<Rightarrow> workspaceQuotaKey key (ctx_workspaceId c) | None \<Rightarrow> key)"

definition rejected_keys ::
  "model_family \<Rightarrow> rate_limit_reason \<Rightarrow> string option \<Rightarrow> rl_context option \<Rightarrow> quota_key list" where
  "rejected_keys family reason model observation =
     (if limits_base model reason then [limit_key observation (getQuotaKey family None)] else [])
     @ (if limits_model model reason then [limit_key observation (getQuotaKey family model)] else [])"

definition deadline_of :: "jsnum \<Rightarrow> jsnum \<Rightarrow> jsnum" where
  "deadline_of now retryAfterMs = now + min (max 0 (js_floor retryAfterMs)) RATE_LIMIT_CACHE_TTL_MS"

lemma rejected_keys_nonempty: "rejected_keys family reason model observation \<noteq> []"
  by (cases reason) (auto simp: rejected_keys_def limits_base_def limits_model_def truthy_string_def LUNA_RESERVE_MODEL_def)

lemma recordRejection_fields:
  assumes "recordRejection now reason scopeId observation key (a, n) = (a', n')"
  shows "rateLimitResetTimes a' = rateLimitResetTimes a" "n' = n + 1" "unsequencedRateLimits a' = unsequencedRateLimits a"
  using assms by (auto simp: recordRejection_def Let_def)

lemma record_limit_effect:
  assumes "record_limit now r reason scopeId observation key (a, l, n) = (a', l', n')"
  shows "reset_at (rateLimitResetTimes a') k =
      (if k = limit_key observation key then max (reset_at (rateLimitResetTimes a) k) r else reset_at (rateLimitResetTimes a) k)"
    and "reset_at l' k = (if k = limit_key observation key then max (reset_at l k) r else reset_at l k)"
    and "n' = n + 1" and "jm_ok l \<Longrightarrow> jm_ok l'" and "unsequencedRateLimits a' = unsequencedRateLimits a"
  using assms recordRejection_fields
  by (auto simp: record_limit_def limit_key_def [symmetric] Let_def reset_at_set split: prod.splits)

text \<open>Both steps of \<open>markRateLimitedWithReason\<close> together.\<close>

definition record_limits ::
  "jsnum \<Rightarrow> jsnum \<Rightarrow> model_family \<Rightarrow> rate_limit_reason \<Rightarrow> string option \<Rightarrow> string option \<Rightarrow> rl_context option
     \<Rightarrow> managed_account \<times> rate_limit_state \<times> nat \<Rightarrow> managed_account \<times> rate_limit_state \<times> nat" where
  "record_limits now r family reason model scopeId observation st =
     (let st = (if limits_base model reason
                then record_limit now r reason scopeId observation (getQuotaKey family None) st else st)
      in if limits_model model reason
         then record_limit now r reason scopeId observation (getQuotaKey family model) st else st)"

lemma record_limits_effect:
  assumes "record_limits now r family reason model scopeId observation (a, l, n) = (a', l', n')"
  shows "(\<forall>k. reset_at (rateLimitResetTimes a') k =
      (if k \<in> set (rejected_keys family reason model observation) then max (reset_at (rateLimitResetTimes a) k) r
       else reset_at (rateLimitResetTimes a) k))
    \<and> (\<forall>k. reset_at l' k = (if k \<in> set (rejected_keys family reason model observation) then max (reset_at l k) r else reset_at l k))
    \<and> n' = n + length (rejected_keys family reason model observation) \<and> (jm_ok l \<longrightarrow> jm_ok l')"
proof -
  obtain a1 l1 n1 where s1: "(if limits_base model reason
      then record_limit now r reason scopeId observation (getQuotaKey family None) (a, l, n) else (a, l, n)) = (a1, l1, n1)"
    by (metis prod_cases3)
  have s2: "(if limits_model model reason
      then record_limit now r reason scopeId observation (getQuotaKey family model) (a1, l1, n1) else (a1, l1, n1)) = (a', l', n')"
    using assms unfolding record_limits_def Let_def s1 .
  have e1: "(\<forall>k. reset_at (rateLimitResetTimes a1) k = (if limits_base model reason \<and> k = limit_key observation (getQuotaKey family None)
        then max (reset_at (rateLimitResetTimes a) k) r else reset_at (rateLimitResetTimes a) k)) \<and>
      (\<forall>k. reset_at l1 k = (if limits_base model reason \<and> k = limit_key observation (getQuotaKey family None)
        then max (reset_at l k) r else reset_at l k)) \<and> n1 = n + (if limits_base model reason then 1 else 0) \<and> (jm_ok l \<longrightarrow> jm_ok l1)"
    using s1 record_limit_effect [of now r reason scopeId observation "getQuotaKey family None" a l n a1 l1 n1]
    by (cases "limits_base model reason") simp_all
  have e2: "(\<forall>k. reset_at (rateLimitResetTimes a') k = (if limits_model model reason \<and> k = limit_key observation (getQuotaKey family model)
        then max (reset_at (rateLimitResetTimes a1) k) r else reset_at (rateLimitResetTimes a1) k)) \<and>
      (\<forall>k. reset_at l' k = (if limits_model model reason \<and> k = limit_key observation (getQuotaKey family model)
        then max (reset_at l1 k) r else reset_at l1 k)) \<and> n' = n1 + (if limits_model model reason then 1 else 0) \<and> (jm_ok l1 \<longrightarrow> jm_ok l')"
    using s2 record_limit_effect [of now r reason scopeId observation "getQuotaKey family model" a1 l1 n1 a' l' n']
    by (cases "limits_model model reason") simp_all
  show ?thesis
    using e1 e2 by (simp add: rejected_keys_def max.commute max.left_commute)
qed

lemma getAccountByIndex_int: "getAccountByIndex p (Finite (of_int i)) = (if 0 \<le> i \<and> i < int (length (accounts p)) then Some (nat i) else None)"
proof -
  have "(of_int i :: rat) < of_nat n \<longleftrightarrow> i < int n" for n
    by (metis of_int_less_iff of_int_of_nat_eq)
  then show ?thesis by (auto simp: getAccountByIndex_def not_le not_less)
qed

lemma applyManualSelection_fields [simp]:
  "length (accounts (applyManualSelection now m p)) = length (accounts p)"
  "rejectionSequence (applyManualSelection now m p) = rejectionSequence p"
  by (simp_all add: applyManualSelection_def Let_def set_acc_def split: option.split)

lemma markRateLimited_alt:
  "markRateLimitedWithReason now meta i ms family reason model scopeId observation p =
     (let p1 = (case meta of Some sel \<Rightarrow> applyManualSelection now sel p | None \<Rightarrow> p);
          (a, newLimits, sequence) = record_limits now (deadline_of now ms) family reason model scopeId observation
             (acc p1 i, (case replayable now (acc p1 i) of Some u \<Rightarrow> us_limits u | None \<Rightarrow> []), rejectionSequence p1)
      in (set_acc i (a\<lparr>lastRateLimitReason := Some reason,
            unsequencedRateLimits := (if meta = None
              then Some \<lparr>us_limits = newLimits, us_reason = reason, us_recordedAtMs = now\<rparr> else None)\<rparr>) p1)
         \<lparr>rejectionSequence := sequence\<rparr>)"
  by (simp only: markRateLimitedWithReason_def record_limits_def deadline_of_def Let_def)

lemma acc_sequence [simp]: "acc (p\<lparr>rejectionSequence := n\<rparr>) = acc p"
  by (simp add: acc_def fun_eq_iff)



text \<open>What is limited afterwards, for an unscoped observation.\<close>

lemma limited_by_reset:
  assumes "\<forall>k \<in> set (rejected_keys family reason model None). r \<le> reset_at (rateLimitResetTimes a) k" and "t < r"
  shows "gate_limited env t family model a"
proof -
  have q: "t < quotaResetTime a k w" if "k \<in> set (rejected_keys family reason model None)" for k w
  proof -
    have "r \<le> reset_at (rateLimitResetTimes a) k" using assms(1) that by blast
    also have "\<dots> \<le> quotaResetTime a k w" by (simp add: quotaResetTime_def)
    finally show ?thesis using assms(2) by simp
  qed
  consider "limits_base model reason" | "limits_model model reason"
    using rejected_keys_nonempty [of family reason model None] by (auto simp: rejected_keys_def split: if_splits)
  then show ?thesis
  proof cases
    case 1
    then have "model \<noteq> Some LUNA_RESERVE_MODEL" by (simp add: limits_base_def)
    with 1 q [of "getQuotaKey family None"] show ?thesis
      by (simp add: gate_limited_def isRateLimitedForQuotaKey_def rejected_keys_def limit_key_def)
  next
    case 2
    then have "truthy_string model" by (simp add: limits_model_def)
    with 2 q [of "getQuotaKey family model"] show ?thesis
      by (simp add: gate_limited_def isRateLimitedForQuotaKey_def rejected_keys_def limit_key_def)
  qed
qed

section \<open>Manual selection\<close>

lemma reset_at_assign: "jm_ok m \<Longrightarrow> reset_at (jm_assign [] m) k = reset_at m k"
proof -
  have "jm_get (fold (\<lambda>(k, v). jm_set k v) xs m0) k = (case jm_get xs k of Some v \<Rightarrow> Some v | None \<Rightarrow> jm_get m0 k)"
    if "jm_ok xs" for xs m0
    using that by (induction xs arbitrary: m0) (auto simp: jm_get_set split: option.split)
  from this [of m "[]"] show "jm_ok m \<Longrightarrow> reset_at (jm_assign [] m) k = reset_at m k"
    by (cases "jm_get m k") (simp_all add: jm_assign_def reset_at_def)
qed

text \<open>
  The race between a 429 and a \<open>switch\<close> is resolved as documented.  If the selection could not
  be read when the 429 was recorded and a newer selection of that account is applied within 30
  seconds, the account stays limited until the recorded deadline; applied later, the account
  starts clean.  Either way the selection is applied once: reading the same or an older
  generation again changes nothing, so a limit recorded after the switch survives it.
\<close>

theorem switch_race:
  assumes "0 \<le> idx" and "idx < int (length (accounts p))" and "affinityGeneration p < gen"
    and "\<forall>u. unsequencedRateLimits (acc p (nat idx)) = Some u \<longrightarrow> jm_ok (us_limits u)"
  shows "let i = nat idx; sel = \<lparr>sm_pinnedAccountIndex = Some idx, sm_affinityGeneration = gen\<rparr>;
             p1 = markRateLimitedWithReason seen None i ms family reason model scopeId None p;
             p2 = applyManualSelection applied sel p1
         in (applied - seen \<le> 30000 \<longrightarrow> (\<forall>t < deadline_of seen ms. gate_limited env t family model (acc p2 i)))
          \<and> (30000 < applied - seen \<longrightarrow> rateLimitResetTimes (acc p2 i) = [])
          \<and> pinnedAccountIndex p2 = Some idx
          \<and> (\<forall>t m. sm_affinityGeneration m \<le> gen \<longrightarrow> applyManualSelection t m p2 = p2)"
proof -
  let ?i = "nat idx" and ?sel = "\<lparr>sm_pinnedAccountIndex = Some idx, sm_affinityGeneration = gen\<rparr>"
  obtain a l n where st: "record_limits seen (deadline_of seen ms) family reason model scopeId None
      (acc p ?i, (case replayable seen (acc p ?i) of Some u \<Rightarrow> us_limits u | None \<Rightarrow> []), rejectionSequence p) = (a, l, n)"
    by (metis prod_cases3)
  have "jm_ok (case replayable seen (acc p ?i) of Some u \<Rightarrow> us_limits u | None \<Rightarrow> [])"
    using assms(4) by (auto simp: replayable_def split: option.split)
  with record_limits_effect [OF st] have l: "jm_ok l"
      "\<forall>k. reset_at l k = (if k \<in> set (rejected_keys family reason model None)
         then max (reset_at (case replayable seen (acc p ?i) of Some u \<Rightarrow> us_limits u | None \<Rightarrow> []) k) (deadline_of seen ms)
         else reset_at (case replayable seen (acc p ?i) of Some u \<Rightarrow> us_limits u | None \<Rightarrow> []) k)"
    by blast+
  define p1 where "p1 = markRateLimitedWithReason seen None ?i ms family reason model scopeId None p"
  define b where "b = a\<lparr>lastRateLimitReason := Some reason,
      unsequencedRateLimits := Some \<lparr>us_limits = l, us_reason = reason, us_recordedAtMs = seen\<rparr>\<rparr>"
  have p1: "p1 = (set_acc ?i b p)\<lparr>rejectionSequence := n\<rparr>"
    unfolding p1_def markRateLimited_alt Let_def option.case st prod.case b_def by simp
  have i: "?i < length (accounts p)" using assms(1,2) by simp
  have idx: "getAccountByIndex p1 (Finite (of_int idx)) = Some ?i"
    using assms(1,2) by (simp add: getAccountByIndex_int p1)
  define p2 where "p2 = applyManualSelection applied ?sel p1"
  have gen: "\<not> gen \<le> affinityGeneration p1" using assms(3) by (simp add: p1)
  have p2: "p2 = (set_acc ?i (select_account applied (acc p1 ?i)) p1)\<lparr>pinnedAccountIndex := Some idx, affinityGeneration := gen\<rparr>"
    unfolding p2_def applyManualSelection_def selection_meta.simps if_not_P [OF gen] Let_def option.case idx by simp
  have acc2: "acc p2 ?i = select_account applied b" using i by (simp add: p2 p1 acc_def set_acc_def)
  have early: "gate_limited env t family model (acc p2 ?i)" if "applied - seen \<le> 30000" "t < deadline_of seen ms" for t
  proof (rule limited_by_reset [OF _ that(2)])
    have "reset_at (rateLimitResetTimes (acc p2 ?i)) k = reset_at l k" for k
      using that(1) by (simp add: acc2 select_account_def replayable_def b_def UNSEQUENCED_RATE_LIMIT_TTL_MS_def
          Let_def clearAllRateLimits_def reset_at_assign [OF l(1)])
    with l(2) show "\<forall>k \<in> set (rejected_keys family reason model None). deadline_of seen ms \<le> reset_at (rateLimitResetTimes (acc p2 ?i)) k"
      by simp
  qed
  have late: "rateLimitResetTimes (acc p2 ?i) = []" if "30000 < applied - seen"
    using that by (simp add: acc2 select_account_def replayable_def b_def UNSEQUENCED_RATE_LIMIT_TTL_MS_def
        Let_def clearAllRateLimits_def jm_assign_def)
  have "applyManualSelection t m p2 = p2" if "sm_affinityGeneration m \<le> gen" for t m
    using that by (simp add: applyManualSelection_def p2)
  with early late show ?thesis
    unfolding Let_def p1_def [symmetric] p2_def [symmetric] by (simp add: p2)
qed

theorem switch_race_witness:
  "gate_limited demo_env 60000 ''codex'' None (acc (applyManualSelection 31000
     \<lparr>sm_pinnedAccountIndex = Some 1, sm_affinityGeneration = 1\<rparr>
     (markRateLimitedWithReason 1000 None 1 120000 ''codex'' TokensReason None None None demo_pool)) 1)"
proof -
  have pre: "(0::int) \<le> 1" "1 < int (length (accounts demo_pool))" "affinityGeneration demo_pool < 1"
    "\<forall>u. unsequencedRateLimits (acc demo_pool (nat 1)) = Some u \<longrightarrow> jm_ok (us_limits u)"
    by (simp_all add: demo_pool_def acc_def demo_account_def)
  have "(60000 :: jsnum) < deadline_of 1000 120000" by (simp add: deadline_of_def RATE_LIMIT_CACHE_TTL_MS_def)
  with switch_race [OF pre, where seen = 1000 and applied = 31000 and ms = 120000 and family = "''codex''" and reason = TokensReason
      and model = None and scopeId = None and env = demo_env]
  show ?thesis unfolding Let_def by simp
qed

section \<open>The wait\<close>

lemma limited_auth: "isRateLimitedForFamily c now a f m = (l, a') \<Longrightarrow> isAccountAuthInvalidated a' = isAccountAuthInvalidated a"
  by (auto simp: isRateLimitedForFamily_def Let_def isAccountAuthInvalidated_def split: if_splits)

lemma wait_gates_passes:
  assumes "\<not> isAccountAuthInvalidated (acc p i)"
  shows "wait_gates env now f m i p = passes_gates env now f m i p"
proof -
  obtain l a where a: "isRateLimitedForFamily (env_claim env) now (clearExpiredRateLimits now (acc p i)) f m = (l, a)" by fastforce
  have "\<not> isAccountAuthInvalidated a"
    using limited_auth [OF a] assms by (simp add: isAccountAuthInvalidated_def)
  then show ?thesis by (simp add: wait_gates_def passes_gates_def a)
qed

lemma kept_auth: "kept env now p q \<Longrightarrow> i < length (accounts p) \<Longrightarrow> isAccountAuthInvalidated (acc q i) = isAccountAuthInvalidated (acc p i)"
  by (simp add: kept_def same_view_def)

lemma filter_wait_gates:
  assumes "pool_ok p" and "room env p" and "0 \<le> now"
    and "\<forall>i \<in> set is. i < length (accounts p) \<and> \<not> isAccountAuthInvalidated (acc p i)"
  shows "\<exists>p'. filter_st (wait_gates env now f m) is p = (filter (\<lambda>i. gates_open env now f m p (acc p i)) is, p')
      \<and> quiet env now p p'"
  using assms
proof (induction "is" arbitrary: p)
  case Nil
  then show ?case by (simp add: quiet_def)
next
  case (Cons i "is")
  have i: "i < length (accounts p)" "\<not> isAccountAuthInvalidated (acc p i)" using Cons.prems by simp_all
  obtain q where q: "wait_gates env now f m i p = (gates_open env now f m p (acc p i), q)" "quiet env now p q"
    using passes_gates_ok [OF Cons.prems(1) i(1) Cons.prems(2,3)] unfolding wait_gates_passes [OF i(2)] by blast
  have k: "kept env now p q" "pool_ok q" "room env q" "length (accounts q) = length (accounts p)"
    using q(2) by (simp_all add: quiet_def kept_def)
  have same: "gates_open env now f m q (acc q j) = gates_open env now f m p (acc p j)" if "j \<in> set is" for j
    using kept_gates_open [OF k(1) _ order_refl] that Cons.prems(4) by simp
  have "\<forall>j \<in> set is. j < length (accounts q) \<and> \<not> isAccountAuthInvalidated (acc q j)"
    using Cons.prems(4) k(4) kept_auth [OF k(1)] by simp
  from Cons.IH [OF k(2,3) Cons.prems(3) this] obtain r
    where r: "filter_st (wait_gates env now f m) is q = (filter (\<lambda>i. gates_open env now f m q (acc q i)) is, r)" "quiet env now q r"
    by blast
  have "filter (\<lambda>i. gates_open env now f m q (acc q i)) is = filter (\<lambda>i. gates_open env now f m p (acc p i)) is"
    by (rule filter_cong) (simp_all add: same)
  with q(1) r quiet_trans [OF q(2) r(2)] show ?case by simp
qed

lemma breaker_wait_exact: "now \<le> t \<Longrightarrow> breaker_isAvailable b t \<longleftrightarrow> now + getTimeUntilAvailable b now \<le> t"
  by (cases "cb_state b") (auto simp: breaker_isAvailable_def getTimeUntilAvailable_def hasHalfOpenProbeWaitElapsed_def)

lemma ball_set_if: "(\<forall>x \<in> set (if c then [y] else []). P x) \<longleftrightarrow> (c \<longrightarrow> P y)"
  by simp

lemma account_wait_ok:
  assumes "pool_ok p" and "i < length (accounts p)" and "room env p" and "\<not> isAccountAuthInvalidated (acc p i)"
  shows "\<exists>w p'. account_wait env now f m i p = (w, p') \<and> quiet env now p p' \<and> (\<forall>x. w = Some x \<longrightarrow> 0 \<le> x)
     \<and> (\<forall>t \<ge> now. gates_open env t f m p (acc p i) \<longleftrightarrow> (case w of Some x \<Rightarrow> now + x \<le> t | None \<Rightarrow> True))"
proof -
  let ?a = "acc p i"
  obtain b p' where b: "account_breaker env now i p = (b, circuit_key env ?a, p')"
      "b = (case jm_get (circuitBreakers p) (circuit_key env ?a) of Some b \<Rightarrow> b | None \<Rightarrow> breaker_new id now)"
      "quiet env now p p'"
    using account_breaker_ok [where p = p and i = i and env = env and now = now and t = now] assms by (auto simp: quiet_def)
  define ws where "ws = selectedQuotaWorkspace (env_claim env) ?a"
  define base where "base = quotaResetTime ?a (getQuotaKey f None) ws"
  define mr where "mr = quotaResetTime ?a (getQuotaKey f m) ws"
  define L where "L = (if m \<noteq> Some LUNA_RESERVE_MODEL \<and> base > now then [max 0 (base - now)] else [])
      @ (if truthy_string m \<and> mr > now then [max 0 (mr - now)] else [])
      @ (case coolingDownUntil ?a of Some until \<Rightarrow> [max 0 (until - now)] | None \<Rightarrow> [])
      @ (if getTimeUntilAvailable b now > 0 then [getTimeUntilAvailable b now] else [])"
  have aw: "account_wait env now f m i p = (if L = [] then None else Some (Max (set L)), p')"
    unfolding account_wait_def Let_def b(1) prod.case L_def base_def mr_def ws_def ..
  have circ: "circuit_ok t p (circuit_key env ?a) \<longleftrightarrow> now + getTimeUntilAvailable b now \<le> t" if "now \<le> t" for t
    using breaker_wait_exact [OF that, of b] b(2) that
    by (auto simp: circuit_ok_def breaker_new_def getTimeUntilAvailable_def split: option.splits)
  have lim: "gate_limited env t f m ?a \<longleftrightarrow> (truthy_string m \<and> t < mr) \<or> (m \<noteq> Some LUNA_RESERVE_MODEL \<and> t < base)" for t
    by (simp add: gate_limited_def isRateLimitedForQuotaKey_def mr_def base_def ws_def)
  have open_iff: "gates_open env t f m p ?a \<longleftrightarrow> (\<forall>x \<in> set L. now + x \<le> t)" if "now \<le> t" for t
  proof -
    have "(\<forall>x \<in> set L. now + x \<le> t) \<longleftrightarrow> \<not> (m \<noteq> Some LUNA_RESERVE_MODEL \<and> t < base) \<and> \<not> (truthy_string m \<and> t < mr)
        \<and> \<not> cooling t ?a \<and> now + getTimeUntilAvailable b now \<le> t"
      unfolding L_def set_append ball_Un ball_set_if using that
      by (cases "coolingDownUntil ?a") (auto simp: cooling_def max_def)
    then show ?thesis using circ [OF that] assms(4) by (auto simp: gates_open_def lim)
  qed
  have nn: "0 \<le> x" if "x \<in> set L" for x
    using that by (auto simp: L_def split: if_splits option.splits)
  have "(\<forall>x \<in> set L. now + x \<le> t) \<longleftrightarrow> now + Max (set L) \<le> t" if "L \<noteq> []" for t
  proof -
    have "Max (set L) \<le> t - now \<longleftrightarrow> (\<forall>x \<in> set L. x \<le> t - now)" using that by simp
    then show ?thesis by (auto simp: le_diff_eq add.commute)
  qed
  moreover have "0 \<le> Max (set L)" if "L \<noteq> []"
    using nn that Max_in [of "set L"] by simp
  ultimately show ?thesis using aw b(3) open_iff by (cases "L = []") auto
qed

lemma account_waits_ok:
  assumes "pool_ok p" and "room env p"
    and "\<forall>i \<in> set is. i < length (accounts p) \<and> \<not> isAccountAuthInvalidated (acc p i) \<and> \<not> gates_open env now f m p (acc p i)"
  shows "\<exists>ws p'. account_waits env now f m is p = (ws, p') \<and> quiet env now p p' \<and> (is \<noteq> [] \<longrightarrow> ws \<noteq> [])
     \<and> (\<forall>w \<in> set ws. 0 \<le> w)
     \<and> (\<forall>t \<ge> now. (\<exists>i \<in> set is. gates_open env t f m p (acc p i)) \<longleftrightarrow> (\<exists>w \<in> set ws. now + w \<le> t))"
  using assms
proof (induction "is" arbitrary: p)
  case Nil
  then show ?case by (simp add: quiet_def)
next
  case (Cons i "is")
  have i: "i < length (accounts p)" "\<not> isAccountAuthInvalidated (acc p i)" "\<not> gates_open env now f m p (acc p i)"
    using Cons.prems by simp_all
  obtain w q where w: "account_wait env now f m i p = (w, q)" "quiet env now p q" "\<forall>x. w = Some x \<longrightarrow> 0 \<le> x"
      "\<forall>t \<ge> now. gates_open env t f m p (acc p i) \<longleftrightarrow> (case w of Some x \<Rightarrow> now + x \<le> t | None \<Rightarrow> True)"
    using account_wait_ok [OF Cons.prems(1) i(1) Cons.prems(2) i(2), of now f m] by blast
  obtain x where x: "w = Some x" using w(4) i(3) by (cases w) auto
  have k: "kept env now p q" "pool_ok q" "room env q" "length (accounts q) = length (accounts p)"
    using w(2) by (simp_all add: quiet_def kept_def)
  have same: "gates_open env t f m q (acc q j) = gates_open env t f m p (acc p j)" if "j \<in> set is" "now \<le> t" for t j
    using kept_gates_open [OF k(1) _ that(2)] that(1) Cons.prems(3) by simp
  have "\<forall>j \<in> set is. j < length (accounts q) \<and> \<not> isAccountAuthInvalidated (acc q j) \<and> \<not> gates_open env now f m q (acc q j)"
    using Cons.prems(3) k(4) kept_auth [OF k(1)] same by simp
  from Cons.IH [OF k(2,3) this] obtain ws r where r: "account_waits env now f m is q = (ws, r)" "quiet env now q r"
      "\<forall>w \<in> set ws. 0 \<le> w"
      "\<forall>t \<ge> now. (\<exists>i \<in> set is. gates_open env t f m q (acc q i)) \<longleftrightarrow> (\<exists>w \<in> set ws. now + w \<le> t)"
    by blast
  have tail: "(\<exists>i \<in> set is. gates_open env t f m p (acc p i)) \<longleftrightarrow> (\<exists>w \<in> set ws. now + w \<le> t)" if "now \<le> t" for t
    using r(4) same that by blast
  have "account_waits env now f m (i # is) p = (x # ws, r)" using w(1) r(1) x by simp
  then show ?case
    using w(3,4) r(3) x tail quiet_trans [OF w(2) r(2)] by (intro exI [of _ "x # ws"] exI [of _ r]) auto
qed

text \<open>
  The reported wait is exact: when some account is enabled, authenticated and not excluded, the
  returned wait \<open>w\<close> is the time until one of them passes its limits, cooldown and breaker, no
  earlier and no later (if nothing new is recorded meanwhile); it is 0 when there is none.
  Asking changes the routability of no account.
\<close>

theorem min_wait_exact:
  assumes "pool_ok p" and "room env p" and "0 \<le> now"
  shows "let (w, p') = getMinWaitTimeForFamily env now f m excluded p; candidates = wait_candidates_of excluded p
     in 0 \<le> w \<and> (candidates = [] \<longrightarrow> w = 0)
      \<and> (candidates \<noteq> [] \<longrightarrow>
          (\<forall>t \<ge> now. (\<exists>i \<in> set candidates. gates_open env t f m p (acc p i)) \<longleftrightarrow> now + w \<le> t))
      \<and> quiet env now p p'"
proof -
  let ?c = "wait_candidates_of excluded p"
  let ?open = "\<lambda>t i. gates_open env t f m p (acc p i)"
  have c: "\<forall>i \<in> set ?c. i < length (accounts p) \<and> \<not> isAccountAuthInvalidated (acc p i)"
    by (simp add: wait_candidates_of_def)
  obtain q where q: "filter_st (wait_gates env now f m) ?c p = (filter (?open now) ?c, q)" "quiet env now p q"
    using filter_wait_gates [OF assms c] by blast
  have later: "?open t i" if "?open now i" "now \<le> t" for t i
    using that by (auto simp: gates_open_def gate_limited_def isRateLimitedForQuotaKey_def cooling_def circuit_ok_def
        split: option.splits intro: breaker_isAvailable_later)
  show ?thesis
  proof (cases "filter (?open now) ?c = []")
    case False
    then obtain i where "i \<in> set ?c" "?open now i" by (auto simp: filter_empty_conv)
    with False q later show ?thesis by (auto simp: getMinWaitTimeForFamily_def Let_def)
  next
    case none: True
    show ?thesis
    proof (cases "?c = []")
      case True
      with none q show ?thesis by (simp add: getMinWaitTimeForFamily_def Let_def)
    next
      case ne: False
      have k: "kept env now p q" "pool_ok q" "room env q" "length (accounts q) = length (accounts p)"
        using q(2) by (simp_all add: quiet_def kept_def)
      have same: "gates_open env t f m q (acc q i) = ?open t i" if "i \<in> set ?c" "now \<le> t" for t i
        using kept_gates_open [OF k(1) _ that(2)] that(1) c by blast
      have pre: "\<forall>i \<in> set ?c. i < length (accounts q) \<and> \<not> isAccountAuthInvalidated (acc q i) \<and> \<not> gates_open env now f m q (acc q i)"
        using c k(4) kept_auth [OF k(1)] same none by (auto simp: filter_empty_conv)
      from account_waits_ok [OF k(2,3) pre] ne obtain ws r where r: "account_waits env now f m ?c q = (ws, r)"
          "quiet env now q r" "ws \<noteq> []" "\<forall>w \<in> set ws. 0 \<le> w"
          "\<forall>t \<ge> now. (\<exists>i \<in> set ?c. gates_open env t f m q (acc q i)) \<longleftrightarrow> (\<exists>w \<in> set ws. now + w \<le> t)"
        by blast
      have res: "getMinWaitTimeForFamily env now f m excluded p = (Min (set ws), r)"
        using q(1) none ne r(1,3) by (simp add: getMinWaitTimeForFamily_def Let_def)
      have "(\<exists>w \<in> set ws. now + w \<le> t) \<longleftrightarrow> now + Min (set ws) \<le> t" for t
      proof -
        have "Min (set ws) \<le> t - now \<longleftrightarrow> (\<exists>w \<in> set ws. w \<le> t - now)" using r(3) by (simp add: Min_le_iff)
        then show ?thesis by (auto simp: le_diff_eq add.commute)
      qed
      moreover have "0 \<le> Min (set ws)" using r(3,4) by simp
      moreover have "(\<exists>i \<in> set ?c. ?open t i) \<longleftrightarrow> (\<exists>w \<in> set ws. now + w \<le> t)" if "now \<le> t" for t
        using r(5) same that by blast
      ultimately show ?thesis using res ne quiet_trans [OF q(2) r(2)] by simp
    qed
  qed
qed

theorem min_wait_exact_witness:
  "fst (getMinWaitTimeForFamily demo_env 1000 ''codex'' None {1} demo_pool) = 0"
proof -
  have c: "set (wait_candidates_of {1} demo_pool) = {0, 2}"
    by (auto simp: wait_candidates_of_def demo_pool_def acc_def demo_account_def isAccountAuthInvalidated_def upt_rec
        split: if_splits)
  have g: "gates_open demo_env 1000 ''codex'' None demo_pool (acc demo_pool 0)"
    using demo_routable [of 1000 0] by (simp add: routable_def)
  obtain w p' where r: "getMinWaitTimeForFamily demo_env 1000 ''codex'' None {1} demo_pool = (w, p')" by fastforce
  have "0 \<le> w \<and> 1000 + w \<le> 1000"
    using min_wait_exact [OF demo_pool_ok demo_pool_room, where now = 1000 and f = "''codex''" and m = None and excluded = "{1}"]
      c g unfolding r Let_def prod.case by (auto simp: set_empty [symmetric] simp del: set_empty)
  then show ?thesis unfolding r by simp
qed

end
