(* ===== verification/SubscriptionQuota.thy ===== *)
theory SubscriptionQuota
  imports QuotaScheduler RateLimits
begin

text \<open>
  \<open>lib/quota-readiness.ts\<close> (exhaustion of cached quota snapshots and which cached entry belongs to an
  account) and \<open>lib/runtime/subscription-quota-order.ts\<close> (the order in which subscriptions are
  drained).  Numbers in the cache have passed its normalisation, so they are finite.
\<close>

section \<open>Cached snapshots\<close>

record quota_window =
  qw_usedPercent :: "jsnum option"
  qw_windowMinutes :: "jsnum option"
  qw_resetAtMs :: "jsnum option"

record quota_entry =
  qe_ordinaryUsageAllowed :: "bool option"
  qe_ordinaryUsageCheckedAt :: "jsnum option"
  qe_updatedAt :: jsnum
  qe_status :: nat
  qe_model :: string
  qe_planType :: "string option"
  qe_primary :: quota_window
  qe_secondary :: quota_window

record quota_cache =
  qc_byAccountId :: "(string, quota_entry) jsmap"
  qc_byEmail :: "(string, quota_entry) jsmap"
  qc_byWorkspace :: "(string, quota_entry) jsmap"

definition quotaWindowIsExhausted :: "quota_window \<Rightarrow> jsnum \<Rightarrow> jsnum \<Rightarrow> bool" where
  "quotaWindowIsExhausted window now updatedAt \<longleftrightarrow>
     (case qw_resetAtMs window of
        Some r \<Rightarrow> if now \<ge> r then False else quotaUsedPercentIsExhausted (qw_usedPercent window)
      | None \<Rightarrow>
          (case qw_windowMinutes window of
             Some m \<Rightarrow> if m > 0 \<and> now \<ge> updatedAt + m * 60000 then False
                       else quotaUsedPercentIsExhausted (qw_usedPercent window)
           | None \<Rightarrow> quotaUsedPercentIsExhausted (qw_usedPercent window)))"

definition isQuotaCacheEntryExhausted :: "quota_entry option \<Rightarrow> jsnum \<Rightarrow> bool" where
  "isQuotaCacheEntryExhausted entry now \<longleftrightarrow>
     (case entry of
        None \<Rightarrow> False
      | Some e \<Rightarrow>
          if now \<ge> qe_updatedAt e + RATE_LIMIT_CACHE_TTL_MS then False
          else quotaWindowIsExhausted (qe_primary e) now (qe_updatedAt e)
               \<or> quotaWindowIsExhausted (qe_secondary e) now (qe_updatedAt e))"

section \<open>Which entry belongs to an account\<close>

record quota_account_ref =
  qa_accountId :: "string option"
  qa_email :: "string option"

definition normalizeQuotaAccountId :: "string option \<Rightarrow> string option" where
  "normalizeQuotaAccountId v =
     (case v of None \<Rightarrow> None | Some x \<Rightarrow> (let t = js_trim x in if t \<noteq> [] then Some t else None))"

definition normalizeQuotaEmail :: "string option \<Rightarrow> string option" where
  "normalizeQuotaEmail v =
     (case v of None \<Rightarrow> None | Some x \<Rightarrow> (let t = js_lower (js_trim x) in if t \<noteq> [] then Some t else None))"

definition hasUniqueQuotaAccountId :: "quota_account_ref list \<Rightarrow> quota_account_ref \<Rightarrow> bool" where
  "hasUniqueQuotaAccountId accs a \<longleftrightarrow>
     (case normalizeQuotaAccountId (qa_accountId a) of
        None \<Rightarrow> False
      | Some i \<Rightarrow> length (filter (\<lambda>c. normalizeQuotaAccountId (qa_accountId c) = Some i) accs) = 1)"

record email_state =
  es_matchingCount :: nat
  es_distinctAccountIds :: "string set"

definition email_step :: "quota_account_ref \<Rightarrow> (string, email_state) jsmap \<Rightarrow> (string, email_state) jsmap" where
  "email_step a m =
     (case normalizeQuotaEmail (qa_email a) of
        None \<Rightarrow> m
      | Some email \<Rightarrow>
          let ids = (case normalizeQuotaAccountId (qa_accountId a) of Some i \<Rightarrow> {i} | None \<Rightarrow> {})
          in (case jm_get m email of
                Some s \<Rightarrow> jm_set email \<lparr>es_matchingCount = es_matchingCount s + 1,
                            es_distinctAccountIds = es_distinctAccountIds s \<union> ids\<rparr> m
              | None \<Rightarrow> jm_set email \<lparr>es_matchingCount = 1, es_distinctAccountIds = ids\<rparr> m))"

definition buildQuotaEmailFallbackState :: "quota_account_ref list \<Rightarrow> (string, email_state) jsmap" where
  "buildQuotaEmailFallbackState accs = fold email_step accs []"

definition hasSafeQuotaEmailFallback :: "(string, email_state) jsmap \<Rightarrow> quota_account_ref \<Rightarrow> bool" where
  "hasSafeQuotaEmailFallback st a \<longleftrightarrow>
     (case normalizeQuotaEmail (qa_email a) of
        None \<Rightarrow> False
      | Some email \<Rightarrow>
          (case jm_get st email of None \<Rightarrow> False
           | Some s \<Rightarrow> es_matchingCount s = 1 \<and> card (es_distinctAccountIds s) \<le> 1))"

text \<open>
  The workspace key of the account (a digest of its record id) and the workspace asked for are
  arguments; \<open>hasWorkspaces\<close> is \<open>account.workspaces?.length\<close>.
\<close>

definition findQuotaCacheEntryForAccount ::
  "quota_cache \<Rightarrow> quota_account_ref \<Rightarrow> quota_account_ref list \<Rightarrow> bool \<Rightarrow> string option \<Rightarrow> string option
     \<Rightarrow> quota_entry option" where
  "findQuotaCacheEntryForAccount cache a accs hasWorkspaces workspaceId workspaceKey =
     (let scoped = (case (workspaceId, workspaceKey) of
            (Some w, Some k) \<Rightarrow> if w \<noteq> [] \<and> k \<noteq> [] then jm_get (qc_byWorkspace cache) k else None | _ \<Rightarrow> None);
          newer = (\<lambda>legacy. case scoped of
            Some s \<Rightarrow> if qe_updatedAt s \<ge> qe_updatedAt legacy then Some s else Some legacy | None \<Rightarrow> Some legacy);
          byId = (case normalizeQuotaAccountId (qa_accountId a) of
            Some i \<Rightarrow> if hasUniqueQuotaAccountId accs a then jm_get (qc_byAccountId cache) i else None | None \<Rightarrow> None);
          byMail = (case normalizeQuotaEmail (qa_email a) of
            Some e \<Rightarrow> if hasSafeQuotaEmailFallback (buildQuotaEmailFallbackState accs) a
                      then jm_get (qc_byEmail cache) e else None | None \<Rightarrow> None)
      in if normalizeQuotaAccountId workspaceId \<noteq> normalizeQuotaAccountId (qa_accountId a)
            \<or> (hasWorkspaces \<and> normalizeQuotaAccountId workspaceId = None)
         then scoped
         else case byId of
                Some e \<Rightarrow> newer e
              | None \<Rightarrow> (case byMail of Some e \<Rightarrow> newer e | None \<Rightarrow> scoped))"

section \<open>The drain order\<close>

datatype plan_kind = SubscriptionPlan | FreePlan | UnknownPlan

record subscription_preference =
  sp_plan :: plan_kind
  sp_remainingPercent :: "jsnum option"
  sp_resetAtMs :: "jsnum option"
  sp_urgency :: "jsnum option"
  sp_exhausted :: bool
  sp_observedAt :: "jsnum option"

definition SUBSCRIPTION_RESERVE_PERCENT :: jsnum where
  "SUBSCRIPTION_RESERVE_PERCENT = 5"

definition SUBSCRIPTION_QUOTA_MAX_AGE_MS :: jsnum where
  "SUBSCRIPTION_QUOTA_MAX_AGE_MS = 15 * 60000"

definition hasFreshOrdinaryUsagePermission :: "quota_entry option \<Rightarrow> jsnum \<Rightarrow> bool" where
  "hasFreshOrdinaryUsagePermission entry now \<longleftrightarrow>
     (case entry of
        None \<Rightarrow> False
      | Some e \<Rightarrow>
          let checkedAt = nullish (qe_ordinaryUsageCheckedAt e) (qe_updatedAt e)
          in qe_status e = 200 \<and> qe_ordinaryUsageAllowed e = Some True \<and> checkedAt \<le> now \<and> now - checkedAt \<le> 60000)"

definition subscription_plans :: "string list" where
  "subscription_plans = [''plus'', ''pro'', ''promax'', ''prolite'', ''team'', ''business'', ''self_serve_business_prolite'',
     ''enterprise'', ''edu'', ''edu_plus'', ''edu_pro'']"

definition plan_of :: "string option \<Rightarrow> plan_kind" where
  "plan_of planType =
     (let t = map_option (\<lambda>s. js_lower (js_trim s)) planType
      in if t = Some ''free'' then FreePlan
         else if nullish t [] \<in> set subscription_plans then SubscriptionPlan else UnknownPlan)"

definition window_current :: "quota_entry \<Rightarrow> jsnum \<Rightarrow> quota_window \<Rightarrow> bool" where
  "window_current e now w \<longleftrightarrow>
     (case qw_usedPercent w of Some u \<Rightarrow> 0 \<le> u \<and> u \<le> 100 | None \<Rightarrow> False)
     \<and> \<not> (case qw_resetAtMs w of Some r \<Rightarrow> r \<le> now | None \<Rightarrow> False)
     \<and> \<not> (qw_resetAtMs w = None
           \<and> (case qw_windowMinutes w of Some m \<Rightarrow> m > 0 \<and> now \<ge> qe_updatedAt e + m * 60000 | None \<Rightarrow> False))"

text \<open>Reset times with an unknown one standing for \<open>Infinity\<close>: strictly earlier.\<close>

definition earlier :: "jsnum option \<Rightarrow> jsnum option \<Rightarrow> bool" where
  "earlier a b \<longleftrightarrow> (case a of None \<Rightarrow> False | Some x \<Rightarrow> (case b of None \<Rightarrow> True | Some y \<Rightarrow> x < y))"

text \<open>The comparator of \<open>windows.sort\<close>: the tighter window first, on a tie the earlier reset.\<close>

definition tighter :: "quota_window \<Rightarrow> quota_window \<Rightarrow> bool" where
  "tighter a b \<longleftrightarrow>
     (let ua = nullish (qw_usedPercent a) 0; ub = nullish (qw_usedPercent b) 0
      in ub < ua \<or> (ub = ua \<and> earlier (qw_resetAtMs a) (qw_resetAtMs b)))"

fun tightest :: "quota_window list \<Rightarrow> quota_window option" where
  "tightest [] = None"
| "tightest [a] = Some a"
| "tightest (a # b # _) = (if tighter b a then Some b else Some a)"

definition subscriptionQuotaPreference :: "quota_entry option \<Rightarrow> jsnum \<Rightarrow> subscription_preference" where
  "subscriptionQuotaPreference entry now =
     (let result = \<lparr>sp_plan = plan_of (Option.bind entry qe_planType), sp_remainingPercent = None, sp_resetAtMs = None,
            sp_urgency = None,
            sp_exhausted = (\<not> hasFreshOrdinaryUsagePermission entry now \<and> isQuotaCacheEntryExhausted entry now),
            sp_observedAt = map_option qe_updatedAt entry\<rparr>
      in case entry of
           None \<Rightarrow> result
         | Some e \<Rightarrow>
             if qe_updatedAt e > now \<or> now - qe_updatedAt e > SUBSCRIPTION_QUOTA_MAX_AGE_MS \<or> qe_status e \<noteq> 200 then result
             else (case tightest (filter (window_current e now) [qe_primary e, qe_secondary e]) of
                     None \<Rightarrow> result
                   | Some w \<Rightarrow>
                       let remaining = 100 - nullish (qw_usedPercent w) 0;
                           result = result\<lparr>sp_remainingPercent := Some remaining,
                             sp_exhausted := (remaining = 0 \<and> \<not> hasFreshOrdinaryUsagePermission entry now)\<rparr>
                       in (case qw_resetAtMs w of
                             Some r \<Rightarrow> if r > now
                               then result\<lparr>sp_resetAtMs := Some r,
                                      sp_urgency := Some (remaining / (max 60000 (r - now) / 3600000))\<rparr>
                               else result
                           | None \<Rightarrow> result)))"

definition usesSubscriptionReserve :: "subscription_preference option \<Rightarrow> bool" where
  "usesSubscriptionReserve preference \<longleftrightarrow>
     (case preference of
        None \<Rightarrow> False
      | Some p \<Rightarrow> (case sp_remainingPercent p of Some r \<Rightarrow> r \<le> SUBSCRIPTION_RESERVE_PERCENT | None \<Rightarrow> False))"

text \<open>The sign of the comparator's result; \<open>Infinity - Infinity\<close> is \<open>NaN\<close>, which is falsy.\<close>

definition sign_of :: "bool \<Rightarrow> bool \<Rightarrow> int" where
  "sign_of before after = (if before then -1 else if after then 1 else 0)"

definition js_or :: "int \<Rightarrow> int \<Rightarrow> int" where
  "js_or a b = (if a \<noteq> 0 then a else b)"

definition compareSubscriptionQuota :: "subscription_preference \<Rightarrow> subscription_preference \<Rightarrow> int" where
  "compareSubscriptionQuota a b =
     (let ra = usesSubscriptionReserve (Some a); rb = usesSubscriptionReserve (Some b);
          pa = nullish (sp_remainingPercent a) (-1); pb = nullish (sp_remainingPercent b) (-1)
      in js_or (sign_of (\<not> sp_exhausted a \<and> sp_exhausted b) (sp_exhausted a \<and> \<not> sp_exhausted b))
           (js_or (sign_of (\<not> ra \<and> rb) (ra \<and> \<not> rb))
             (js_or (sign_of (earlier (sp_resetAtMs a) (sp_resetAtMs b)) (earlier (sp_resetAtMs b) (sp_resetAtMs a)))
                    (sign_of (pb < pa) (pa < pb)))))"

section \<open>Properties\<close>

lemma earlier_simps [simp]: "\<not> earlier a a" "earlier a b \<Longrightarrow> \<not> earlier b a"
  by (auto simp: earlier_def split: option.splits)

lemma earlier_trans: "earlier a b \<Longrightarrow> earlier b c \<Longrightarrow> earlier a c"
  by (auto simp: earlier_def split: option.splits)

lemma earlier_total: "\<not> earlier a b \<Longrightarrow> \<not> earlier b a \<Longrightarrow> a = b"
  by (auto simp: earlier_def split: option.splits)

text \<open>Comparators whose sign is antisymmetric and transitive combine lexicographically.\<close>

definition comparator :: "('a \<Rightarrow> 'a \<Rightarrow> int) \<Rightarrow> bool" where
  "comparator c \<longleftrightarrow> (\<forall>a b. c b a = - c a b) \<and> (\<forall>a b d. c a b \<le> 0 \<longrightarrow> c b d \<le> 0 \<longrightarrow> c a d \<le> 0)"

lemma comparatorD:
  assumes "comparator c"
  shows "c b a = - c a b" "c a b \<le> 0 \<Longrightarrow> c b d \<le> 0 \<Longrightarrow> c a d \<le> 0"
  using assms unfolding comparator_def by blast+

lemma comparator_strict:
  assumes "comparator c" and "c a b < 0 \<and> c b d \<le> 0 \<or> c a b \<le> 0 \<and> c b d < 0"
  shows "c a d < 0"
proof -
  have "c a d \<le> 0" using comparatorD(2) [OF assms(1), of a b d] assms(2) by linarith
  moreover have "c a d \<noteq> 0"
  proof
    assume "c a d = 0"
    then have da: "c d a \<le> 0" using comparatorD(1) [OF assms(1), of d a] by simp
    have "c b d \<le> 0" "c a b \<le> 0" using assms(2) by auto
    with da have "c b a \<le> 0" "c d b \<le> 0" using comparatorD(2) [OF assms(1)] by blast+
    then show False using assms(2) comparatorD(1) [OF assms(1), of b a] comparatorD(1) [OF assms(1), of d b] by linarith
  qed
  ultimately show ?thesis by simp
qed

lemma comparator_or:
  assumes "comparator c" and "comparator d"
  shows "comparator (\<lambda>a b. js_or (c a b) (d a b))"
proof -
  have flip: "js_or (c b a) (d b a) = - js_or (c a b) (d a b)" for a b
    using comparatorD(1) [OF assms(1), of b a] comparatorD(1) [OF assms(2), of b a] by (simp add: js_or_def)
  have trans: "js_or (c a e) (d a e) \<le> 0" if h: "js_or (c a b) (d a b) \<le> 0" "js_or (c b e) (d b e) \<le> 0" for a b e
  proof (cases "c a b = 0 \<and> c b e = 0")
    case True
    then have "c a e \<le> 0" "c e a \<le> 0"
      using comparatorD [OF assms(1)] by (metis order_refl, metis neg_equal_0_iff_equal order_refl)
    then have "c a e = 0" using comparatorD(1) [OF assms(1), of e a] by linarith
    then show ?thesis using True h comparatorD(2) [OF assms(2), of a b e] by (simp add: js_or_def)
  next
    case False
    have "c a b \<le> 0" "c b e \<le> 0" using h by (auto simp: js_or_def split: if_splits)
    with False have "c a e < 0" using comparator_strict [OF assms(1), of a b e] by linarith
    then show ?thesis by (simp add: js_or_def)
  qed
  show ?thesis unfolding comparator_def using flip trans by blast
qed

lemma comparator_bool: "comparator (\<lambda>a b. sign_of (\<not> f a \<and> f b) (f a \<and> \<not> f b))"
  by (auto simp: comparator_def sign_of_def split: if_splits)

lemma comparator_earlier: "comparator (\<lambda>a b. sign_of (earlier (f a) (f b)) (earlier (f b) (f a)))"
proof -
  have le: "sign_of (earlier x y) (earlier y x) \<le> 0 \<longleftrightarrow> \<not> earlier y x" for x y
    by (auto simp: sign_of_def)
  have "\<not> earlier z x" if "\<not> earlier y x" "\<not> earlier z y" for x y z
    using that by (auto simp: earlier_def split: option.splits)
  then have trans: "sign_of (earlier x z) (earlier z x) \<le> 0"
    if "sign_of (earlier x y) (earlier y x) \<le> 0" "sign_of (earlier y z) (earlier z y) \<le> 0" for x y z
    using that unfolding le by blast
  have flip: "sign_of (earlier y x) (earlier x y) = - sign_of (earlier x y) (earlier y x)" for x y
    by (auto simp: sign_of_def)
  show ?thesis unfolding comparator_def using flip trans by blast
qed

lemma comparator_descending: "comparator (\<lambda>a b. sign_of ((f b :: jsnum) < f a) (f a < f b))"
  by (auto simp: comparator_def sign_of_def split: if_splits)

lemma compare_is_comparator: "comparator compareSubscriptionQuota"
proof -
  have expand: "compareSubscriptionQuota = (\<lambda>a b. js_or (sign_of (\<not> sp_exhausted a \<and> sp_exhausted b) (sp_exhausted a \<and> \<not> sp_exhausted b))
      (js_or (sign_of (\<not> usesSubscriptionReserve (Some a) \<and> usesSubscriptionReserve (Some b))
           (usesSubscriptionReserve (Some a) \<and> \<not> usesSubscriptionReserve (Some b)))
        (js_or (sign_of (earlier (sp_resetAtMs a) (sp_resetAtMs b)) (earlier (sp_resetAtMs b) (sp_resetAtMs a)))
           (sign_of (nullish (sp_remainingPercent b) (-1) < nullish (sp_remainingPercent a) (-1))
              (nullish (sp_remainingPercent a) (-1) < nullish (sp_remainingPercent b) (-1))))))"
    by (simp add: compareSubscriptionQuota_def Let_def fun_eq_iff)
  show ?thesis
    unfolding expand by (intro comparator_or comparator_bool comparator_earlier comparator_descending)
qed

end
