(* ===== verification/AccountSelection.thy ===== *)
theory AccountSelection
  imports AccountResults SessionAffinity SubscriptionQuota
begin

text \<open>
  \<open>lib/runtime/rotation-account-selection.ts\<close>: the proxy's choice of the account for one attempt,
  over the account pool, the session affinity store and the diagnostic skip reasons.

  The recursive calls of \<open>chooseAccount\<close> are two at most: the one for the fallback pin runs with a
  pin, which skips the priority branch, and the one for a priority tier runs without priorities
  and without a fallback pin.  They are modelled as the layers \<open>choose_core\<close>, \<open>choose_tiered\<close> and
  \<open>chooseAccount\<close>.  The state threaded through is the pool, the affinity store and the skip reasons.
\<close>

section \<open>Parameters and state\<close>

record runtime_policy =
  rp_blockedAccountIndexes :: "nat set"
  rp_blockedAccountReasons :: "nat \<rightharpoonup> string"
  rp_scoreBoostByAccount :: "nat \<rightharpoonup> jsval"
  rp_priorityByAccount :: "(nat, jsnum) jsmap option"

datatype skip_note = NoteRuntime skip_reason | NotePolicyBlocked | NoteAlreadyAttempted

type_synonym skip_map = "(int, skip_note) jsmap"

record choose_params =
  cp_sessionKey :: "string option"
  cp_family :: model_family
  cp_model :: "string option"
  cp_attemptedIndexes :: "nat set"
  cp_policy :: "runtime_policy option"
  cp_pinnedIndex :: "int option"
  cp_preferredIndex :: "int option"
  cp_fallbackPinnedIndex :: "int option"
  cp_quotaByAccount :: "(nat \<rightharpoonup> subscription_preference) option"
  cp_stickyBoostByAccount :: "nat \<rightharpoonup> jsval"
  cp_pidOffsetEnabled :: bool
  cp_sequential :: bool
  cp_allowPinnedCooldown :: bool

record chooser =
  ch_pool :: pool
  ch_affinity :: "affinity_store option"
  ch_skip :: skip_map

definition blocked_by :: "choose_params \<Rightarrow> nat set" where
  "blocked_by prm = (case cp_policy prm of Some pl \<Rightarrow> rp_blockedAccountIndexes pl | None \<Rightarrow> {})"

definition note_skip :: "int \<Rightarrow> skip_note \<Rightarrow> chooser \<Rightarrow> chooser" where
  "note_skip i note st = st\<lparr>ch_skip := jm_set i note (ch_skip st)\<rparr>"

text \<open>\<open>getAccountsSnapshot\<close> fills in the tracker and circuit keys of every account.\<close>

definition snapshot_step :: "pool_env \<Rightarrow> nat \<Rightarrow> pool \<Rightarrow> pool" where
  "snapshot_step env i p = snd (getAccountCircuitKey env i (snd (tracker_key_at env i p)))"

definition getAccountsSnapshot :: "pool_env \<Rightarrow> chooser \<Rightarrow> managed_account list \<times> chooser" where
  "getAccountsSnapshot env st =
     (let p = fold (snapshot_step env) [0..<length (accounts (ch_pool st))] (ch_pool st)
      in (accounts p, st\<lparr>ch_pool := p\<rparr>))"

definition skip_reason_at :: "pool_env \<Rightarrow> jsnum \<Rightarrow> choose_params \<Rightarrow> int \<Rightarrow> chooser \<Rightarrow> skip_reason option \<times> chooser" where
  "skip_reason_at env now prm index st =
     (case getAccountRuntimeSkipReason env now (Finite (of_int index)) (cp_family prm) (cp_model prm) (ch_pool st) of
        (r, p) \<Rightarrow> (r, st\<lparr>ch_pool := p\<rparr>))"

definition isCooldownReason :: "skip_reason \<Rightarrow> bool" where
  "isCooldownReason r \<longleftrightarrow> (case r of SkipCoolingDown _ \<Rightarrow> True | _ \<Rightarrow> False)"

text \<open>\<open>some\<close> and \<open>filter\<close> over a snapshot, the predicate changing the state.\<close>

fun some_st :: "('a \<Rightarrow> 's \<Rightarrow> bool \<times> 's) \<Rightarrow> 'a list \<Rightarrow> 's \<Rightarrow> bool \<times> 's" where
  "some_st f [] s = (False, s)"
| "some_st f (x # xs) s = (case f x s of (b, s) \<Rightarrow> if b then (True, s) else some_st f xs s)"

fun filter_snap :: "('a \<Rightarrow> 's \<Rightarrow> bool \<times> 's) \<Rightarrow> 'a list \<Rightarrow> 's \<Rightarrow> 'a list \<times> 's" where
  "filter_snap f [] s = ([], s)"
| "filter_snap f (x # xs) s =
     (case f x s of (b, s) \<Rightarrow> case filter_snap f xs s of (ys, s) \<Rightarrow> (if b then x # ys else ys, s))"

definition quota_exhausted :: "(nat \<rightharpoonup> subscription_preference) \<Rightarrow> nat \<Rightarrow> bool" where
  "quota_exhausted q i \<longleftrightarrow> (case q i of Some s \<Rightarrow> sp_exhausted s | None \<Rightarrow> False)"

text \<open>A record looked up at a number that may be no index.\<close>

definition at_int :: "(nat \<rightharpoonup> 'a) \<Rightarrow> int \<Rightarrow> 'a option" where
  "at_int q i = (if i < 0 then None else q (nat i))"

definition non_reserve_test ::
  "pool_env \<Rightarrow> jsnum \<Rightarrow> choose_params \<Rightarrow> (nat \<rightharpoonup> subscription_preference) \<Rightarrow> managed_account \<Rightarrow> chooser \<Rightarrow> bool \<times> chooser" where
  "non_reserve_test env now prm q a st =
     (if ma_enabled a \<noteq> Some False \<and> ma_index a \<notin> cp_attemptedIndexes prm \<and> ma_index a \<notin> blocked_by prm
      then (case skip_reason_at env now prm (int (ma_index a)) st of (r, st) \<Rightarrow>
              (r = None \<and> \<not> quota_exhausted q (ma_index a) \<and> \<not> usesSubscriptionReserve (q (ma_index a)), st))
      else (False, st))"

definition has_non_reserve :: "pool_env \<Rightarrow> jsnum \<Rightarrow> choose_params \<Rightarrow> chooser \<Rightarrow> bool \<times> chooser" where
  "has_non_reserve env now prm st =
     (case cp_quotaByAccount prm of
        None \<Rightarrow> (False, st)
      | Some q \<Rightarrow> (case getAccountsSnapshot env st of (as, st) \<Rightarrow> some_st (non_reserve_test env now prm q) as st))"

section \<open>The linear scan\<close>

fun linear_scan ::
  "pool_env \<Rightarrow> jsnum \<Rightarrow> choose_params \<Rightarrow> bool \<Rightarrow> managed_account list \<Rightarrow> chooser \<Rightarrow> nat option \<times> chooser" where
  "linear_scan env now prm advance [] st = (None, st)"
| "linear_scan env now prm advance (a # as) st =
     (if ma_index a \<in> cp_attemptedIndexes prm
      then linear_scan env now prm advance as (note_skip (int (ma_index a)) NoteAlreadyAttempted st)
      else if ma_index a \<in> blocked_by prm
      then linear_scan env now prm advance as (note_skip (int (ma_index a)) NotePolicyBlocked st)
      else case skip_reason_at env now prm (int (ma_index a)) st of
             (None, st) \<Rightarrow>
               (case getAccountByIndex (ch_pool st) (Finite (of_nat (ma_index a))) of
                  None \<Rightarrow> linear_scan env now prm advance as st
                | Some i \<Rightarrow>
                    (Some i, if advance then st\<lparr>ch_pool := markSwitched i SwitchRotation (cp_family prm) (ch_pool st)\<rparr> else st))
           | (Some r, st) \<Rightarrow>
               linear_scan env now prm advance as (note_skip (int (ma_index a)) (NoteRuntime r) st))"

definition chooseLinearScanFallback ::
  "pool_env \<Rightarrow> jsnum \<Rightarrow> choose_params \<Rightarrow> bool \<Rightarrow> chooser \<Rightarrow> nat option \<times> chooser" where
  "chooseLinearScanFallback env now prm advance st =
     (case getAccountsSnapshot env st of (as, st) \<Rightarrow> linear_scan env now prm advance as st)"

section \<open>Without priorities\<close>

definition choose_pinned :: "pool_env \<Rightarrow> jsnum \<Rightarrow> choose_params \<Rightarrow> int \<Rightarrow> chooser \<Rightarrow> nat option \<times> chooser" where
  "choose_pinned env now prm pin st =
     (if pin < 0 \<or> pin \<ge> int (length (accounts (ch_pool st))) then (None, note_skip pin (NoteRuntime SkipMissing) st)
      else if nat pin \<in> blocked_by prm then (None, note_skip pin NotePolicyBlocked st)
      else case getAccountByIndex (ch_pool st) (Finite (of_int pin)) of
             None \<Rightarrow> (None, note_skip pin (NoteRuntime SkipDisabled) st)
           | Some i \<Rightarrow>
               if ma_enabled (acc (ch_pool st) i) = Some False then (None, note_skip pin (NoteRuntime SkipDisabled) st)
               else (case skip_reason_at env now prm pin st of
                       (None, st) \<Rightarrow> (Some i, st)
                     | (Some r, st) \<Rightarrow>
                         if \<not> (cp_allowPinnedCooldown prm \<and> isCooldownReason r)
                         then (None, note_skip pin (NoteRuntime r) st) else (Some i, st)))"

text \<open>A selector's pick is kept unless it was attempted, is blocked or is skipped by now.\<close>

definition recheck :: "pool_env \<Rightarrow> jsnum \<Rightarrow> choose_params \<Rightarrow> nat option \<Rightarrow> chooser \<Rightarrow> nat option \<times> chooser" where
  "recheck env now prm selected st =
     (case selected of
        None \<Rightarrow> (None, st)
      | Some i \<Rightarrow>
          let idx = ma_index (acc (ch_pool st) i)
          in if idx \<in> cp_attemptedIndexes prm \<or> idx \<in> blocked_by prm then (None, st)
             else (case skip_reason_at env now prm (int idx) st of
                     (None, st) \<Rightarrow> (Some i, st)
                   | (Some r, st) \<Rightarrow> (None, note_skip (int idx) (NoteRuntime r) st)))"

definition choose_sequential :: "pool_env \<Rightarrow> jsnum \<Rightarrow> choose_params \<Rightarrow> chooser \<Rightarrow> nat option \<times> chooser" where
  "choose_sequential env now prm st =
     (case getCurrentOrNextForFamilySequential env now (cp_family prm) (cp_model prm) (blocked_by prm) (ch_pool st) of
        (selected, p) \<Rightarrow>
          (case recheck env now prm selected (st\<lparr>ch_pool := p\<rparr>) of
             (Some i, st) \<Rightarrow> (Some i, st)
           | (None, st) \<Rightarrow> chooseLinearScanFallback env now prm False st))"

definition choose_affine :: "pool_env \<Rightarrow> jsnum \<Rightarrow> choose_params \<Rightarrow> chooser \<Rightarrow> nat option \<times> chooser" where
  "choose_affine env now prm st =
     (case ch_affinity st of
        None \<Rightarrow> (None, st)
      | Some store \<Rightarrow>
          (case getPreferredAccountIndex store (cp_sessionKey prm) now of
             (preferredIndex, store) \<Rightarrow>
               let st = st\<lparr>ch_affinity := Some store\<rparr>
               in (case preferredIndex of
                     None \<Rightarrow> (None, st)
                   | Some x \<Rightarrow>
                       if x \<in> of_nat ` cp_attemptedIndexes prm \<or> x \<in> of_nat ` blocked_by prm then (None, st)
                       else (case getAccountByIndex (ch_pool st) (Finite x) of
                               None \<Rightarrow> (None, st)
                             | Some i \<Rightarrow>
                                 let idx = ma_index (acc (ch_pool st) i)
                                 in (case skip_reason_at env now prm (int idx) st of
                                       (Some r, st) \<Rightarrow> (None, note_skip (int idx) (NoteRuntime r) st)
                                     | (None, st) \<Rightarrow>
                                         (Some i, st\<lparr>ch_pool := markSwitched i SwitchRotation (cp_family prm) (ch_pool st)\<rparr>))))))"

definition hybrid_options_of :: "choose_params \<Rightarrow> hybrid_options" where
  "hybrid_options_of prm =
     \<lparr>pidOffsetEnabled = cp_pidOffsetEnabled prm,
      scoreBoostByAccount = (case cp_policy prm of Some pl \<Rightarrow> rp_scoreBoostByAccount pl | None \<Rightarrow> Map.empty)
        ++ cp_stickyBoostByAccount prm,
      blockedAccountIndexes = blocked_by prm,
      blockedReasonByAccount = (case cp_policy prm of Some pl \<Rightarrow> rp_blockedAccountReasons pl | None \<Rightarrow> Map.empty)\<rparr>"

definition choose_hybrid :: "pool_env \<Rightarrow> jsnum \<Rightarrow> nat \<Rightarrow> choose_params \<Rightarrow> chooser \<Rightarrow> nat option \<times> chooser" where
  "choose_hybrid env now pid prm st =
     (case choose_affine env now prm st of
        (Some i, st) \<Rightarrow> (Some i, st)
      | (None, st) \<Rightarrow>
          (case getCurrentOrNextForFamilyHybrid env now pid (cp_family prm) (cp_model prm) (hybrid_options_of prm) (ch_pool st) of
             (selected, p) \<Rightarrow>
               (case recheck env now prm selected (st\<lparr>ch_pool := p\<rparr>) of
                  (Some i, st) \<Rightarrow> (Some i, st)
                | (None, st) \<Rightarrow> chooseLinearScanFallback env now prm True st)))"

definition choose_core :: "pool_env \<Rightarrow> jsnum \<Rightarrow> nat \<Rightarrow> choose_params \<Rightarrow> chooser \<Rightarrow> nat option \<times> chooser" where
  "choose_core env now pid prm st =
     (case cp_pinnedIndex prm of
        Some pin \<Rightarrow> choose_pinned env now prm pin st
      | None \<Rightarrow> if cp_sequential prm then choose_sequential env now prm st else choose_hybrid env now pid prm st)"

text \<open>A nested call, whose first step recomputes \<open>hasNonReserve\<close>.\<close>

definition choose_nested :: "pool_env \<Rightarrow> jsnum \<Rightarrow> nat \<Rightarrow> choose_params \<Rightarrow> chooser \<Rightarrow> nat option \<times> chooser" where
  "choose_nested env now pid prm st =
     (case has_non_reserve env now prm st of (_, st) \<Rightarrow> choose_core env now pid prm st)"

section \<open>Priority tiers\<close>

definition candidate_test :: "pool_env \<Rightarrow> jsnum \<Rightarrow> choose_params \<Rightarrow> managed_account \<Rightarrow> chooser \<Rightarrow> bool \<times> chooser" where
  "candidate_test env now prm a st =
     (if ma_enabled a = Some False \<or> ma_index a \<in> cp_attemptedIndexes prm \<or> ma_index a \<in> blocked_by prm then (False, st)
      else (case skip_reason_at env now prm (int (ma_index a)) st of
              (None, st) \<Rightarrow> (True, st)
            | (Some r, st) \<Rightarrow> (False, note_skip (int (ma_index a)) (NoteRuntime r) st)))"

definition priority_of :: "(nat, jsnum) jsmap \<Rightarrow> nat \<Rightarrow> jsnum" where
  "priority_of priorities i = nullish (jm_get priorities i) 1"

text \<open>\<open>sort\<close> with a comparator is stable; only its first element is used.\<close>

fun first_by :: "('a \<Rightarrow> 'a \<Rightarrow> int) \<Rightarrow> 'a list \<Rightarrow> 'a option" where
  "first_by c [] = None"
| "first_by c (x # xs) = (case first_by c xs of None \<Rightarrow> Some x | Some y \<Rightarrow> if c x y \<le> 0 then Some x else Some y)"

definition best_quota_index ::
  "(nat \<rightharpoonup> subscription_preference) \<Rightarrow> nat list \<Rightarrow> (nat \<times> subscription_preference) option" where
  "best_quota_index q indexes =
     first_by (\<lambda>a b. compareSubscriptionQuota (snd a) (snd b))
       (concat (map (\<lambda>i. case q i of Some s \<Rightarrow> [(i, s)] | None \<Rightarrow> []) indexes))"

definition preferred_in_tier ::
  "choose_params \<Rightarrow> (nat, jsnum) jsmap \<Rightarrow> nat list \<Rightarrow> nat set \<Rightarrow> int option" where
  "preferred_in_tier prm priorities candidates tierIndexes =
     (let useSavedOrder = cp_sequential prm \<and> list_ex (\<lambda>(_, pr). pr \<noteq> 1) priorities;
          preferred = (if useSavedOrder then map_option int (List.find (\<lambda>i. i \<in> tierIndexes) candidates)
                       else cp_preferredIndex prm)
      in case cp_quotaByAccount prm of
           None \<Rightarrow> preferred
         | Some q \<Rightarrow>
             if cp_sequential prm then preferred
             else (case best_quota_index q (filter (\<lambda>i. i \<in> tierIndexes) candidates) of
                     None \<Rightarrow> preferred
                   | Some (best, bestQuota) \<Rightarrow>
                       if sp_resetAtMs bestQuota = None \<and> sp_remainingPercent bestQuota = None then preferred
                       else (case Option.bind preferred (at_int q) of
                               None \<Rightarrow> Some (int best)
                             | Some preferredQuota \<Rightarrow>
                                 if nullish preferred (-1) \<notin> int ` tierIndexes
                                    \<or> compareSubscriptionQuota bestQuota preferredQuota < 0
                                 then Some (int best) else preferred)))"

definition quota_candidates :: "choose_params \<Rightarrow> nat list \<Rightarrow> nat list" where
  "quota_candidates prm candidates =
     (case cp_quotaByAccount prm of
        None \<Rightarrow> candidates
      | Some q \<Rightarrow>
          let usable = filter (\<lambda>i. \<not> quota_exhausted q i) candidates;
              nonReserve = filter (\<lambda>i. \<not> usesSubscriptionReserve (q i)) usable
          in if usable = [] then [] else if nonReserve \<noteq> [] then nonReserve else usable)"

definition tier_blocked ::
  "choose_params \<Rightarrow> bool \<Rightarrow> nat set \<Rightarrow> nat \<Rightarrow> bool" where
  "tier_blocked prm hasNonReserve tierIndexes i \<longleftrightarrow>
     i \<notin> tierIndexes
     \<and> (\<not> cp_sequential prm \<or> i \<notin> cp_attemptedIndexes prm
        \<or> (case cp_quotaByAccount prm of Some q \<Rightarrow> quota_exhausted q i | None \<Rightarrow> False)
        \<or> (hasNonReserve \<and> (case cp_quotaByAccount prm of Some q \<Rightarrow> usesSubscriptionReserve (q i) | None \<Rightarrow> False)))"

definition choose_tiered ::
  "pool_env \<Rightarrow> jsnum \<Rightarrow> nat \<Rightarrow> bool \<Rightarrow> choose_params \<Rightarrow> runtime_policy \<Rightarrow> (nat, jsnum) jsmap \<Rightarrow> chooser
     \<Rightarrow> nat option \<times> chooser" where
  "choose_tiered env now pid hasNonReserve prm policy priorities st =
     (case getAccountsSnapshot env st of (as, st) \<Rightarrow>
       (case filter_snap (candidate_test env now prm) as st of (cs, st) \<Rightarrow>
         let candidates = quota_candidates prm (map ma_index cs)
         in if candidates = [] then (None, st)
            else
              let tier = Min (priority_of priorities ` set candidates);
                  tierIndexes = set (filter (\<lambda>i. priority_of priorities i = tier) candidates);
                  preferred = preferred_in_tier prm priorities candidates tierIndexes
              in (case getAccountsSnapshot env st of (as, st) \<Rightarrow>
                   let blocked = rp_blockedAccountIndexes policy
                         \<union> set (map ma_index (filter (\<lambda>a. tier_blocked prm hasNonReserve tierIndexes (ma_index a)) as));
                       nested = prm\<lparr>cp_policy := Some (policy\<lparr>rp_priorityByAccount := None,
                                      rp_blockedAccountIndexes := blocked\<rparr>),
                                    cp_fallbackPinnedIndex := None,
                                    cp_pinnedIndex := (if nullish preferred (-1) \<in> int ` tierIndexes then preferred else None)\<rparr>
                   in (case choose_nested env now pid nested st of
                         (Some i, st) \<Rightarrow>
                           (Some i, if cp_sequential prm then st\<lparr>ch_pool := touch i now (ch_pool st)\<rparr> else st)
                       | (None, st) \<Rightarrow> (None, st)))))"

definition choose_main :: "pool_env \<Rightarrow> jsnum \<Rightarrow> nat \<Rightarrow> bool \<Rightarrow> choose_params \<Rightarrow> chooser \<Rightarrow> nat option \<times> chooser" where
  "choose_main env now pid hasNonReserve prm st =
     (case (cp_pinnedIndex prm, cp_policy prm) of
        (None, Some policy) \<Rightarrow>
          (case rp_priorityByAccount policy of
             Some priorities \<Rightarrow> choose_tiered env now pid hasNonReserve prm policy priorities st
           | None \<Rightarrow> choose_core env now pid prm st)
      | _ \<Rightarrow> choose_core env now pid prm st)"

definition fallback_applies :: "choose_params \<Rightarrow> bool \<Rightarrow> int \<Rightarrow> bool" where
  "fallback_applies prm hasNonReserve pin \<longleftrightarrow>
     cp_pinnedIndex prm = None \<and> pin \<notin> int ` cp_attemptedIndexes prm
     \<and> (case cp_quotaByAccount prm of
          None \<Rightarrow> True
        | Some q \<Rightarrow> \<not> (case at_int q pin of Some s \<Rightarrow> sp_exhausted s | None \<Rightarrow> False)
                    \<and> \<not> (hasNonReserve \<and> usesSubscriptionReserve (at_int q pin)))"

definition chooseAccount :: "pool_env \<Rightarrow> jsnum \<Rightarrow> nat \<Rightarrow> choose_params \<Rightarrow> chooser \<Rightarrow> nat option \<times> chooser" where
  "chooseAccount env now pid prm st =
     (case has_non_reserve env now prm st of (hasNonReserve, st) \<Rightarrow>
        (case cp_fallbackPinnedIndex prm of
           None \<Rightarrow> choose_main env now pid hasNonReserve prm st
         | Some pin \<Rightarrow>
             if fallback_applies prm hasNonReserve pin
             then (case choose_nested env now pid (prm\<lparr>cp_pinnedIndex := Some pin, cp_allowPinnedCooldown := False\<rparr>) st of
                     (Some i, st) \<Rightarrow> (Some i, st)
                   | (None, st) \<Rightarrow> choose_main env now pid hasNonReserve prm st)
             else choose_main env now pid hasNonReserve prm st))"

section \<open>Transcription\<close>

text \<open>
  Transcription looks at credentials and policy only.  The pool changes only through the keys the
  snapshots fill in.
\<close>

datatype transcription_note =
    TrMissing | TrDisabled | TrWorkspaceDisabled | TrTokenInvalid | TrCoolingAuth | TrRateLimited
  | TrPolicyBlocked | TrAlreadyAttempted

record transcription_params =
  tp_attemptedIndexes :: "nat set"
  tp_policy :: "runtime_policy option"
  tp_pinnedIndex :: "int option"
  tp_rateLimitUntil :: "(string, jsnum) jsmap"
  tp_startIndex :: "int option"
  tp_preferredIndex :: "int option"
  tp_fallbackPinnedIndex :: "int option"

definition credentialReason :: "jsnum \<Rightarrow> transcription_params \<Rightarrow> pool \<Rightarrow> int \<Rightarrow> transcription_note option" where
  "credentialReason now prm p index =
     (case getAccountByIndex p (Finite (of_int index)) of
        None \<Rightarrow> Some TrMissing
      | Some i \<Rightarrow>
          let a = acc p i
          in if ma_enabled a = Some False then Some TrDisabled
             else if \<not> hasEnabledWorkspaces a then Some TrWorkspaceDisabled
             else if isAccountAuthInvalidated a then Some TrTokenInvalid
             else if cooldownReason a = Some AuthFailure
                  \<and> (case coolingDownUntil a of Some u \<Rightarrow> u > now | None \<Rightarrow> False) then Some TrCoolingAuth
             else if truthy_string (ma_recordId a)
                  \<and> (case jm_get (tp_rateLimitUntil prm) (the (ma_recordId a)) of Some u \<Rightarrow> u > now | None \<Rightarrow> False)
             then Some TrRateLimited
             else if (case tp_policy prm of Some pl \<Rightarrow> index \<in> int ` rp_blockedAccountIndexes pl | None \<Rightarrow> False)
             then Some TrPolicyBlocked
             else if index \<in> int ` tp_attemptedIndexes prm then Some TrAlreadyAttempted else None)"

definition transcription_eligible ::
  "jsnum \<Rightarrow> transcription_params \<Rightarrow> pool \<Rightarrow> int \<Rightarrow> (int, transcription_note) jsmap
     \<Rightarrow> nat option \<times> (int, transcription_note) jsmap" where
  "transcription_eligible now prm p index skips =
     (case credentialReason now prm p index of
        Some r \<Rightarrow> (None, jm_set index r skips)
      | None \<Rightarrow> (getAccountByIndex p (Finite (of_int index)), skips))"

text \<open>The order in which the remaining candidates are tried.\<close>

definition transcription_pick :: "transcription_params \<Rightarrow> nat list \<Rightarrow> nat option" where
  "transcription_pick prm candidates =
     (let priorities = Option.bind (tp_policy prm) rp_priorityByAccount;
          candidates = (case priorities of
            None \<Rightarrow> candidates
          | Some pr \<Rightarrow> filter (\<lambda>i. priority_of pr i = Min (priority_of pr ` set candidates)) candidates)
      in if tp_preferredIndex prm \<in> Some ` int ` set candidates then map_option nat (tp_preferredIndex prm)
         else let candidates = (case tp_startIndex prm of
                    Some s \<Rightarrow> if length candidates > 1
                      then filter (\<lambda>i. int i \<ge> s) candidates @ filter (\<lambda>i. int i < s) candidates else candidates
                  | None \<Rightarrow> candidates)
              in (case candidates of [] \<Rightarrow> None | i # _ \<Rightarrow> Some i))"

definition chooseTranscriptionAccount ::
  "pool_env \<Rightarrow> jsnum \<Rightarrow> transcription_params \<Rightarrow> chooser \<Rightarrow> (int, transcription_note) jsmap
     \<Rightarrow> nat option \<times> chooser \<times> (int, transcription_note) jsmap" where
  "chooseTranscriptionAccount env now prm st skips =
     (case tp_pinnedIndex prm of
        Some pin \<Rightarrow> (case transcription_eligible now prm (ch_pool st) pin skips of (r, skips) \<Rightarrow> (r, st, skips))
      | None \<Rightarrow>
          (case (case tp_fallbackPinnedIndex prm of
                   Some pin \<Rightarrow> transcription_eligible now prm (ch_pool st) pin skips | None \<Rightarrow> (None, skips)) of
             (Some i, skips) \<Rightarrow> (Some i, st, skips)
           | (None, skips) \<Rightarrow>
               (case getAccountsSnapshot env st of (as, st) \<Rightarrow>
                  let free = (\<lambda>i. credentialReason now prm (ch_pool st) (int i) = None);
                      candidates = filter free (map ma_index as)
                  in if candidates = []
                     then (case getAccountsSnapshot env st of (as, st) \<Rightarrow>
                             (None, st, fold (\<lambda>i skips. case credentialReason now prm (ch_pool st) (int i) of
                                Some r \<Rightarrow> jm_set (int i) r skips | None \<Rightarrow> skips) (map ma_index as) skips))
                     else ((case transcription_pick prm candidates of
                              Some i \<Rightarrow> getAccountByIndex (ch_pool st) (Finite (of_nat i)) | None \<Rightarrow> None), st, skips))))"

end
