(* ===== verification/SelectionResults.thy ===== *)
theory SelectionResults
  imports AccountSelection
begin

text \<open>
  The properties of \<open>lib/runtime/rotation-account-selection.ts\<close>: which account \<open>chooseAccount\<close> and
  \<open>chooseTranscriptionAccount\<close> return, and what a choice leaves of the pool.  A choice evaluates
  the runtime gates of many accounts on the way; \<open>quiet\<close> (of \<open>AccountGates\<close>) is the contract of
  such an evaluation and \<open>steady\<close> that of a choice, which may move pointers and stamp accounts.
\<close>

section \<open>Steady pools\<close>

definition good :: "pool_env \<Rightarrow> pool \<Rightarrow> bool" where
  "good env p \<longleftrightarrow> pool_ok p \<and> room env p \<and> pointer_inv p"

definition steady :: "pool_env \<Rightarrow> jsnum \<Rightarrow> pool \<Rightarrow> pool \<Rightarrow> bool" where
  "steady env now p q \<longleftrightarrow> good env q \<and> length (accounts q) = length (accounts p)
     \<and> (\<forall>j < length (accounts p). \<forall>t f m b. now \<le> t \<longrightarrow> routable env t f m b q j = routable env t f m b p j)"

lemma steady_trans: "steady env now p q \<Longrightarrow> steady env now q r \<Longrightarrow> steady env now p r"
  by (simp add: steady_def)

lemma good_refl: "good env p \<Longrightarrow> steady env now p p" "good env p \<Longrightarrow> quiet env now p p"
  by (simp_all add: steady_def quiet_def good_def)

lemma kept_same_routing: "kept env now p q \<Longrightarrow> same_routing p q"
  unfolding same_routing_def by (auto simp: kept_def same_view_def acc_def intro: nth_equalityI)

lemma steady_quiet: "good env p \<Longrightarrow> quiet env now p q \<Longrightarrow> steady env now p q"
  using pointer_inv_same [OF kept_same_routing] kept_routable [of env now p q]
  by (auto simp: steady_def quiet_def good_def) (simp_all add: kept_def)

lemma quiet_good: "good env p \<Longrightarrow> quiet env now p q \<Longrightarrow> good env q"
  using steady_quiet by (simp add: steady_def)

lemma quiet_length: "quiet env now p q \<Longrightarrow> length (accounts q) = length (accounts p)"
  by (simp add: quiet_def kept_def)

lemma quiet_routable:
  "quiet env now p q \<Longrightarrow> j < length (accounts p) \<Longrightarrow> routable env now f m b q j = routable env now f m b p j"
  by (rule kept_routable [where now = now]) (simp_all add: quiet_def)

lemma good_index: "good env p \<Longrightarrow> i < length (accounts p) \<Longrightarrow> ma_index (acc p i) = i"
  by (simp add: good_def pointer_inv_def indexed_def)

lemma good_indexes: "good env p \<Longrightarrow> map ma_index (accounts p) = [0..<length (accounts p)]"
  using good_index [of env p] by (intro nth_equalityI) (simp_all add: acc_def)

lemma index_of_nat [simp]: "i < length (accounts p) \<Longrightarrow> getAccountByIndex p (Finite (of_nat i)) = Some i"
  by (simp add: getAccountByIndex_def js_floor_def)

lemma index_of_int [simp]:
  "getAccountByIndex p (Finite (of_int k)) = (if 0 \<le> k \<and> k < int (length (accounts p)) then Some (nat k) else None)"
proof (cases "0 \<le> k")
  case True
  then obtain m where "k = int m" using nonneg_int_cases by blast
  then show ?thesis by (simp add: getAccountByIndex_def js_floor_def)
qed (simp add: getAccountByIndex_def)

lemma routable_blocked:
  "good env p \<Longrightarrow> i < length (accounts p) \<Longrightarrow> routable env t f m b p i \<longleftrightarrow> i \<notin> b \<and> routable env t f m {} p i"
  by (auto simp: routable_def good_index)

lemma steady_markSwitched:
  assumes "good env p" and "i < length (accounts p)"
  shows "steady env now p (markSwitched i r f p)"
proof -
  let ?q = "set_acc i ((acc p i)\<lparr>lastSwitchReason := Some r\<rparr>) p"
  have "same_view env now (acc p i) ((acc p i)\<lparr>lastSwitchReason := Some r\<rparr>)"
  proof -
    have "gate_limited env t g m ((acc p i)\<lparr>lastSwitchReason := Some r\<rparr>) = gate_limited env t g m (acc p i)" for t g m
      by (rule gate_limited_cong) simp_all
    moreover have "tracker_key env ((acc p i)\<lparr>lastSwitchReason := Some r\<rparr>) = tracker_key env (acc p i)"
      by (rule tracker_key_cong) simp_all
    ultimately show ?thesis
      by (simp add: same_view_def) (simp add: cooling_def isAccountAuthInvalidated_def account_ok_def circuit_key_def)
  qed
  then have q: "quiet env now p ?q" using assms by (intro quiet_set_acc) (simp_all add: good_def)
  have idx: "ma_index (acc p i) = i" by (rule good_index [OF assms])
  have n: "0 < length (accounts p)" using assms(2) by linarith
  have eq: "markSwitched i r f p = set_cursor f ((i + 1) mod length (accounts p)) (set_current f (int i) ?q)"
    using n unfolding markSwitched_def Let_def idx by simp
  have "pool_ok (markSwitched i r f p)" "room env (markSwitched i r f p)"
    using q unfolding eq by (simp_all add: quiet_def room_def unregistered_def)
  moreover have "pointer_inv (markSwitched i r f p)"
    by (rule pointer_inv_markSwitched) (use assms in \<open>simp_all add: good_def\<close>)
  moreover have "routable env t g m b (markSwitched i r f p) j = routable env t g m b p j"
    if "j < length (accounts p)" "now \<le> t" for t g m b j
    unfolding eq using kept_routable [of env now p ?q] q that by (simp add: quiet_def)
  ultimately show ?thesis by (simp add: steady_def good_def) (simp add: eq)
qed

lemma steady_selection_kept:
  "selection_kept env now i p q \<Longrightarrow> pointer_inv q \<Longrightarrow> steady env now p q"
  by (simp add: selection_kept_def steady_def good_def)

lemma steady_touch:
  assumes "good env p" and "i < length (accounts p)"
  shows "steady env now p (touch i now p)"
  using selection_kept_touch [of env now p p i p] pointer_inv_select(4) [of p p i now] assms
  by (intro steady_selection_kept [of _ _ i]) (auto simp: good_def)

section \<open>Evaluating gates\<close>

lemma snapshot_step_ok:
  assumes "good env p" and "i < length (accounts p)"
  shows "quiet env now p (snapshot_step env i p)"
proof -
  obtain q where q: "tracker_key_at env i p = (tracker_key env (acc p i), q)" "quiet env now p q"
    using tracker_key_at_ok [of p i env now] assms by (auto simp: good_def)
  have g: "good env q" by (rule quiet_good [OF assms(1) q(2)])
  have i: "i < length (accounts q)" using assms(2) quiet_length [OF q(2)] by simp
  obtain a' where a': "getAccountCircuitKey env i q = (circuit_key env (acc q i), set_acc i a' q)"
      "same_view env now (acc q i) a'"
    using getAccountCircuitKey_ok [of q i env now] g i by (auto simp: good_def)
  have "quiet env now q (set_acc i a' q)"
    using quiet_set_acc [OF _ i _ a'(2)] g by (simp add: good_def)
  with quiet_trans [OF q(2)] show ?thesis by (simp add: snapshot_step_def q(1) a'(1))
qed

lemma snapshot_ok:
  assumes "good env (ch_pool st)"
  shows "\<exists>st'. getAccountsSnapshot env st = (accounts (ch_pool st'), st') \<and> quiet env now (ch_pool st) (ch_pool st')
    \<and> ch_affinity st' = ch_affinity st \<and> ch_skip st' = ch_skip st"
proof -
  have "quiet env now p (fold (snapshot_step env) is p)" if "good env p" "\<forall>i \<in> set is. i < length (accounts p)" for "is" p
    using that
  proof (induction "is" arbitrary: p)
    case Nil
    then show ?case by (simp add: good_refl)
  next
    case (Cons i "is")
    have q: "quiet env now p (snapshot_step env i p)" using Cons.prems by (intro snapshot_step_ok) simp_all
    show ?case
      using quiet_trans [OF q Cons.IH [OF quiet_good [OF Cons.prems(1) q]]] Cons.prems(2) quiet_length [OF q] by simp
  qed
  from this [OF assms, of "[0..<length (accounts (ch_pool st))]"] show ?thesis
    by (simp add: getAccountsSnapshot_def Let_def)
qed

lemma skip_reason_at_ok:
  assumes "good env (ch_pool st)" and "i < length (accounts (ch_pool st))" and "0 \<le> now"
  shows "\<exists>r st'. skip_reason_at env now prm (int i) st = (r, st') \<and> quiet env now (ch_pool st) (ch_pool st')
    \<and> ch_affinity st' = ch_affinity st \<and> ch_skip st' = ch_skip st
    \<and> (r = None \<longleftrightarrow> routable env now (cp_family prm) (cp_model prm) {} (ch_pool st) i)"
proof -
  obtain p1 where p1: "getManagedAccountRuntimeSkipReason env now i (cp_family prm) (cp_model prm) (ch_pool st) =
      (if ma_enabled (acc (ch_pool st) i) = Some False then Some SkipDisabled
       else if \<not> hasEnabledWorkspaces (acc (ch_pool st) i) then Some SkipWorkspaceDisabled
       else if isAccountAuthInvalidated (acc (ch_pool st) i) then Some SkipTokenInvalid
       else if gate_limited env now (cp_family prm) (cp_model prm) (acc (ch_pool st) i) then Some SkipRateLimited
       else if cooling now (acc (ch_pool st) i) then Some (SkipCoolingDown (cooldownReason (acc (ch_pool st) i)))
       else if \<not> circuit_ok now (ch_pool st) (circuit_key env (acc (ch_pool st) i)) then Some SkipCircuitOpen else None, p1)"
      "quiet env now (ch_pool st) p1"
    using skip_reason_ok [of "ch_pool st" i env now] assms by (auto simp: good_def)
  show ?thesis
    using assms(2) p1(2)
    by (simp add: skip_reason_at_def getAccountRuntimeSkipReason_def p1(1)) (simp add: routable_def gates_open_def)
qed

text \<open>The accounts a request may use: in the pool, not tried yet, unblocked and routable.\<close>

definition eligible :: "pool_env \<Rightarrow> jsnum \<Rightarrow> choose_params \<Rightarrow> pool \<Rightarrow> nat \<Rightarrow> bool" where
  "eligible env now prm p i \<longleftrightarrow> i < length (accounts p) \<and> i \<notin> cp_attemptedIndexes prm
     \<and> routable env now (cp_family prm) (cp_model prm) (blocked_by prm) p i"

lemma eligible_steady: "steady env now p q \<Longrightarrow> eligible env now prm q i = eligible env now prm p i"
  by (auto simp: eligible_def steady_def)

lemma eligible_quiet: "quiet env now p q \<Longrightarrow> eligible env now prm q i = eligible env now prm p i"
  by (auto simp: eligible_def quiet_length quiet_routable)

lemma note_skip_fields [simp]:
  "ch_pool (note_skip i n st) = ch_pool st" "ch_affinity (note_skip i n st) = ch_affinity st"
  by (simp_all add: note_skip_def)

lemma eligible_iff:
  "good env p \<Longrightarrow> eligible env now prm p i \<longleftrightarrow> i < length (accounts p) \<and> i \<notin> cp_attemptedIndexes prm
     \<and> i \<notin> blocked_by prm \<and> routable env now (cp_family prm) (cp_model prm) {} p i"
  using routable_blocked [of env p i] by (auto simp: eligible_def)

section \<open>The linear scan\<close>

lemma linear_scan_ok:
  assumes "good env (ch_pool st)" and "0 \<le> now" and "\<forall>a \<in> set as. ma_index a < length (accounts (ch_pool st))"
  shows "\<exists>st'. quiet env now (ch_pool st) (ch_pool st') \<and> ch_affinity st' = ch_affinity st
     \<and> linear_scan env now prm advance as st =
        (case List.find (eligible env now prm (ch_pool st)) (map ma_index as) of
           None \<Rightarrow> (None, st')
         | Some i \<Rightarrow> (Some i, if advance then st'\<lparr>ch_pool := markSwitched i SwitchRotation (cp_family prm) (ch_pool st')\<rparr> else st'))"
  using assms
proof (induction as arbitrary: st)
  case Nil
  then show ?case by (auto simp: good_refl)
next
  case (Cons a as)
  let ?i = "ma_index a"
  have i: "?i < length (accounts (ch_pool st))" using Cons.prems by simp
  note el = eligible_iff [OF Cons.prems(1), of now prm ?i]
  have skipped: ?case if "\<not> eligible env now prm (ch_pool st) ?i" "quiet env now (ch_pool st) (ch_pool st1)"
      "ch_affinity st1 = ch_affinity st"
      "linear_scan env now prm advance (a # as) st = linear_scan env now prm advance as st1" for st1
  proof -
    have "\<forall>a \<in> set as. ma_index a < length (accounts (ch_pool st1))" using Cons.prems(3) quiet_length [OF that(2)] by simp
    from Cons.IH [OF quiet_good [OF Cons.prems(1) that(2)] Cons.prems(2) this]
    obtain st2 where st2: "quiet env now (ch_pool st1) (ch_pool st2)" "ch_affinity st2 = ch_affinity st1"
        "linear_scan env now prm advance as st1 =
        (case List.find (eligible env now prm (ch_pool st1)) (map ma_index as) of
           None \<Rightarrow> (None, st2)
         | Some i \<Rightarrow> (Some i, if advance then st2\<lparr>ch_pool := markSwitched i SwitchRotation (cp_family prm) (ch_pool st2)\<rparr> else st2))"
      by blast
    have "eligible env now prm (ch_pool st1) = eligible env now prm (ch_pool st)"
      using eligible_quiet [OF that(2)] by (simp add: fun_eq_iff)
    with st2 that quiet_trans [OF that(2) st2(1)] show ?thesis by (intro exI [of _ st2]) simp
  qed
  obtain r st1 where st1: "skip_reason_at env now prm (int ?i) st = (r, st1)" "quiet env now (ch_pool st) (ch_pool st1)"
      "ch_affinity st1 = ch_affinity st" "r = None \<longleftrightarrow> routable env now (cp_family prm) (cp_model prm) {} (ch_pool st) ?i"
    using skip_reason_at_ok [OF Cons.prems(1) i Cons.prems(2), of prm] by blast
  consider "?i \<in> cp_attemptedIndexes prm" | "?i \<notin> cp_attemptedIndexes prm" "?i \<in> blocked_by prm"
    | k where "?i \<notin> cp_attemptedIndexes prm" "?i \<notin> blocked_by prm" "r = Some k"
    | "?i \<notin> cp_attemptedIndexes prm" "?i \<notin> blocked_by prm" "r = None" by blast
  then show ?case
  proof cases
    case 1
    with el good_refl(2) [OF Cons.prems(1)] show ?thesis
      by (intro skipped [of "note_skip (int ?i) NoteAlreadyAttempted st"]) simp_all
  next
    case 2
    with el good_refl(2) [OF Cons.prems(1)] show ?thesis
      by (intro skipped [of "note_skip (int ?i) NotePolicyBlocked st"]) simp_all
  next
    case (3 k)
    with el st1 show ?thesis
      by (intro skipped [of "note_skip (int ?i) (NoteRuntime k) st1"]) simp_all
  next
    case 4
    with el i st1 have "eligible env now prm (ch_pool st) ?i" by simp
    with 4 st1 i quiet_length [OF st1(2)] show ?thesis by (intro exI [of _ st1]) simp
  qed
qed

lemma find_upt_None: "List.find P [0..<n] = None \<longleftrightarrow> (\<forall>i < n. \<not> P i)"
  by (auto simp: find_None_iff)

lemma fallback_scan_ok:
  assumes "good env (ch_pool st)" and "0 \<le> now"
  shows "\<exists>r st'. chooseLinearScanFallback env now prm advance st = (r, st')
     \<and> r = List.find (eligible env now prm (ch_pool st)) [0..<length (accounts (ch_pool st))]
     \<and> steady env now (ch_pool st) (ch_pool st') \<and> (\<not> advance \<longrightarrow> quiet env now (ch_pool st) (ch_pool st'))"
proof -
  obtain st1 where st1: "getAccountsSnapshot env st = (accounts (ch_pool st1), st1)" "quiet env now (ch_pool st) (ch_pool st1)"
    using snapshot_ok [OF assms(1), of now] by blast
  have g: "good env (ch_pool st1)" by (rule quiet_good [OF assms(1) st1(2)])
  have el: "eligible env now prm (ch_pool st1) = eligible env now prm (ch_pool st)"
    using eligible_quiet [OF st1(2)] by (simp add: fun_eq_iff)
  let ?find = "List.find (eligible env now prm (ch_pool st)) [0..<length (accounts (ch_pool st))]"
  have "\<forall>a \<in> set (accounts (ch_pool st1)). ma_index a < length (accounts (ch_pool st1))"
    using good_index [OF g] by (auto simp: in_set_conv_nth acc_def)
  from linear_scan_ok [OF g assms(2) this, of prm advance]
  obtain st2 where st2: "quiet env now (ch_pool st1) (ch_pool st2)" "linear_scan env now prm advance (accounts (ch_pool st1)) st1 =
        (case ?find of None \<Rightarrow> (None, st2)
         | Some i \<Rightarrow> (Some i, if advance then st2\<lparr>ch_pool := markSwitched i SwitchRotation (cp_family prm) (ch_pool st2)\<rparr> else st2))"
    by (auto simp: el good_indexes [OF g] quiet_length [OF st1(2)])
  have q: "quiet env now (ch_pool st) (ch_pool st2)" by (rule quiet_trans [OF st1(2) st2(1)])
  note s = steady_quiet [OF assms(1) q]
  have bound: "i < length (accounts (ch_pool st2))" if "?find = Some i" for i
    using find_Some_iff_first [OF that] quiet_length [OF q] by simp
  have sw: "steady env now (ch_pool st) (markSwitched i SwitchRotation (cp_family prm) (ch_pool st2))" if "?find = Some i" for i
    by (rule steady_trans [OF s steady_markSwitched [OF quiet_good [OF assms(1) q] bound [OF that]]])
  show ?thesis
    using q s sw st2(2) by (cases ?find) (simp_all add: chooseLinearScanFallback_def st1(1))
qed

section \<open>Without priorities\<close>

text \<open>What a choice owes: an eligible account, or none when there is none, the pool left steady.\<close>

definition sound :: "pool_env \<Rightarrow> jsnum \<Rightarrow> choose_params \<Rightarrow> pool \<Rightarrow> nat option \<Rightarrow> bool" where
  "sound env now prm p r \<longleftrightarrow> (case r of None \<Rightarrow> \<forall>i. \<not> eligible env now prm p i | Some i \<Rightarrow> eligible env now prm p i)"

lemma sound_find: "sound env now prm p (List.find (eligible env now prm p) [0..<length (accounts p)])"
proof (cases "List.find (eligible env now prm p) [0..<length (accounts p)]")
  case None
  then have "\<forall>i < length (accounts p). \<not> eligible env now prm p i" by (simp add: find_upt_None)
  then show ?thesis unfolding None by (auto simp: sound_def eligible_def)
next
  case (Some i)
  from find_Some_iff_first [OF this] Some show ?thesis by (simp add: sound_def)
qed

lemma sound_steady: "steady env now p q \<Longrightarrow> sound env now prm q r = sound env now prm p r"
  using eligible_steady [of env now p q prm] by (simp add: sound_def split: option.split)

lemma recheck_ok:
  assumes "good env (ch_pool st)" and "0 \<le> now" and "\<forall>i. selected = Some i \<longrightarrow> i < length (accounts (ch_pool st))"
  shows "\<exists>r st'. recheck env now prm selected st = (r, st') \<and> quiet env now (ch_pool st) (ch_pool st')
     \<and> ch_affinity st' = ch_affinity st
     \<and> r = (case selected of Some i \<Rightarrow> if eligible env now prm (ch_pool st) i then Some i else None | None \<Rightarrow> None)"
proof (cases selected)
  case None
  with good_refl(2) [OF assms(1)] show ?thesis by (simp add: recheck_def)
next
  case (Some i)
  then have i: "i < length (accounts (ch_pool st))" using assms(3) by simp
  obtain r st1 where st1: "skip_reason_at env now prm (int i) st = (r, st1)" "quiet env now (ch_pool st) (ch_pool st1)"
      "ch_affinity st1 = ch_affinity st" "r = None \<longleftrightarrow> routable env now (cp_family prm) (cp_model prm) {} (ch_pool st) i"
    using skip_reason_at_ok [OF assms(1) i assms(2), of prm] by blast
  then show ?thesis
    using Some i good_index [OF assms(1) i] eligible_iff [OF assms(1), of now prm i] good_refl(2) [OF assms(1)]
    by (cases r) (auto simp: recheck_def)
qed

lemma sequential_selector:
  assumes "good env p" and "0 \<le> now"
  shows "\<exists>r q. getCurrentOrNextForFamilySequential env now f m b p = (r, q) \<and> steady env now p q
     \<and> r = next_routable env now f m b p (active_start p f)
     \<and> currentAccountIndexByFamily q = (case r of Some i \<Rightarrow> (currentAccountIndexByFamily p)(f := int i)
          | None \<Rightarrow> currentAccountIndexByFamily p)"
proof -
  have ok: "pool_ok p" "room env p" "pointer_inv p" using assms(1) by (simp_all add: good_def)
  note step = sequential_step [OF ok(1,2) assms(2), of f m b]
  show ?thesis
  proof (cases "next_routable env now f m b p (active_start p f)")
    case (Some i)
    with step obtain q where q: "getCurrentOrNextForFamilySequential env now f m b p = (Some i, q)"
        "currentAccountIndexByFamily q = (currentAccountIndexByFamily p)(f := int i)" "selection_kept env now i p q" by auto
    have "pointer_inv q" using pointer_inv_sequential [OF ok(3), of env now f m b] q(1) by simp
    with q steady_selection_kept Some show ?thesis by auto
  next
    case None
    with step steady_quiet [OF assms(1)] show ?thesis by auto
  qed
qed

text \<open>The sequential choice: the first usable account from the active one on, or, when this request
  has tried that one already, the first account it may still use.\<close>

definition drain_first :: "pool_env \<Rightarrow> jsnum \<Rightarrow> choose_params \<Rightarrow> pool \<Rightarrow> nat option" where
  "drain_first env now prm p =
     (case next_routable env now (cp_family prm) (cp_model prm) (blocked_by prm) p (active_start p (cp_family prm)) of
        Some i \<Rightarrow> if i \<notin> cp_attemptedIndexes prm then Some i
                  else List.find (eligible env now prm p) [0..<length (accounts p)]
      | None \<Rightarrow> List.find (eligible env now prm p) [0..<length (accounts p)])"

lemma choose_sequential_ok:
  assumes "good env (ch_pool st)" and "0 \<le> now"
  shows "\<exists>r st'. choose_sequential env now prm st = (r, st') \<and> sound env now prm (ch_pool st) r
     \<and> r = drain_first env now prm (ch_pool st)
     \<and> steady env now (ch_pool st) (ch_pool st')
     \<and> currentAccountIndexByFamily (ch_pool st') =
         (case next_routable env now (cp_family prm) (cp_model prm) (blocked_by prm) (ch_pool st)
                 (active_start (ch_pool st) (cp_family prm)) of
            Some i \<Rightarrow> (currentAccountIndexByFamily (ch_pool st))(cp_family prm := int i)
          | None \<Rightarrow> currentAccountIndexByFamily (ch_pool st))"
proof -
  obtain r q where q: "getCurrentOrNextForFamilySequential env now (cp_family prm) (cp_model prm) (blocked_by prm) (ch_pool st) = (r, q)"
      "steady env now (ch_pool st) q"
      "r = next_routable env now (cp_family prm) (cp_model prm) (blocked_by prm) (ch_pool st) (active_start (ch_pool st) (cp_family prm))"
      "currentAccountIndexByFamily q = (case r of Some i \<Rightarrow> (currentAccountIndexByFamily (ch_pool st))(cp_family prm := int i)
          | None \<Rightarrow> currentAccountIndexByFamily (ch_pool st))"
    using sequential_selector [OF assms, of "cp_family prm" "cp_model prm" "blocked_by prm"] by blast
  let ?st = "st\<lparr>ch_pool := q\<rparr>"
  have pq: "ch_pool ?st = q" by simp
  have g: "good env (ch_pool ?st)" using q(2) by (simp add: steady_def)
  have bound: "\<forall>i. r = Some i \<longrightarrow> i < length (accounts (ch_pool ?st))"
    using q(2,3) next_routable_Some by (fastforce simp: steady_def)
  obtain r1 st1 where st1: "recheck env now prm r ?st = (r1, st1)" "quiet env now q (ch_pool st1)"
      "r1 = (case r of Some i \<Rightarrow> if eligible env now prm q i then Some i else None | None \<Rightarrow> None)"
    using recheck_ok [OF g assms(2) bound, of prm] unfolding pq by blast
  have g1: "good env (ch_pool st1)" by (rule quiet_good [OF _ st1(2)]) (use g in simp)
  obtain r2 st2 where st2: "chooseLinearScanFallback env now prm False st1 = (r2, st2)"
      "r2 = List.find (eligible env now prm (ch_pool st1)) [0..<length (accounts (ch_pool st1))]"
      "quiet env now (ch_pool st1) (ch_pool st2)"
    using fallback_scan_ok [OF g1 assms(2), of prm False] by blast
  have s1: "steady env now (ch_pool st) (ch_pool st1)"
    using steady_trans [OF q(2) steady_quiet [OF _ st1(2)]] g by simp
  have s2: "steady env now (ch_pool st) (ch_pool st2)" by (rule steady_trans [OF s1 steady_quiet [OF g1 st2(3)]])
  have "sound env now prm (ch_pool st) r2"
    unfolding sound_steady [OF s1, symmetric] st2(2) by (rule sound_find)
  moreover have "eligible env now prm (ch_pool st) i" if "r1 = Some i" for i
    using that st1(3) eligible_steady [OF q(2), of prm i] by (auto split: option.splits if_splits)
  moreover have "currentAccountIndexByFamily (ch_pool st1) = currentAccountIndexByFamily q"
      "currentAccountIndexByFamily (ch_pool st2) = currentAccountIndexByFamily q"
    using st1(2) st2(3) by (simp_all add: quiet_def kept_def)
  moreover have dr: "drain_first env now prm (ch_pool st) = (case r1 of Some i \<Rightarrow> Some i | None \<Rightarrow> r2)"
  proof -
    have el: "eligible env now prm (ch_pool st1) = eligible env now prm (ch_pool st)"
        "length (accounts (ch_pool st1)) = length (accounts (ch_pool st))"
      using eligible_steady [OF s1] s1 by (auto simp: fun_eq_iff steady_def)
    have "eligible env now prm q i \<longleftrightarrow> i \<notin> cp_attemptedIndexes prm" if "r = Some i" for i
      using next_routable_Some [OF q(3) [symmetric, unfolded that]] eligible_steady [OF q(2), of prm i]
      by (auto simp: eligible_def)
    then show ?thesis unfolding st1(3) st2(2) el drain_first_def q(3) [symmetric] by (auto split: option.split)
  qed
  moreover have "choose_sequential env now prm st = (case r1 of Some i \<Rightarrow> (Some i, st1) | None \<Rightarrow> (r2, st2))"
    unfolding choose_sequential_def q(1) prod.case st1(1) st2(1) ..
  ultimately show ?thesis
    unfolding q(3) [symmetric] dr using q(4) s1 s2 by (cases r1) (simp_all add: sound_def)
qed

lemma choose_affine_ok:
  assumes "good env (ch_pool st)" and "0 \<le> now"
  shows "\<exists>r st'. choose_affine env now prm st = (r, st') \<and> steady env now (ch_pool st) (ch_pool st')
     \<and> (\<forall>i. r = Some i \<longrightarrow> eligible env now prm (ch_pool st) i)"
proof (cases "ch_affinity st")
  case None
  with good_refl(1) [OF assms(1)] show ?thesis by (simp add: choose_affine_def)
next
  case (Some store)
  obtain pref store' where get: "getPreferredAccountIndex store (cp_sessionKey prm) now = (pref, store')" by fastforce
  let ?st = "st\<lparr>ch_affinity := Some store'\<rparr>"
  show ?thesis
  proof (cases "\<exists>x i. pref = Some x \<and> x \<notin> of_nat ` cp_attemptedIndexes prm \<and> x \<notin> of_nat ` blocked_by prm
      \<and> getAccountByIndex (ch_pool st) (Finite x) = Some i")
    case False
    with Some get good_refl(1) [OF assms(1)] show ?thesis
      by (cases pref) (auto simp: choose_affine_def Let_def split: option.split)
  next
    case True
    then obtain x i where x: "pref = Some x" "x \<notin> of_nat ` cp_attemptedIndexes prm" "x \<notin> of_nat ` blocked_by prm"
      "getAccountByIndex (ch_pool st) (Finite x) = Some i" by blast
    have i: "i < length (accounts (ch_pool st))" by (rule getAccountByIndex_bound [OF x(4)])
    have xi: "x = of_nat i" using x(4)
      by (auto simp: getAccountByIndex_def js_floor_def split: if_splits)
    obtain r st1 where st1: "skip_reason_at env now prm (int i) ?st = (r, st1)" "quiet env now (ch_pool st) (ch_pool st1)"
        "r = None \<longleftrightarrow> routable env now (cp_family prm) (cp_model prm) {} (ch_pool st) i"
      using skip_reason_at_ok [of env ?st i now prm] assms i by auto
    have idx: "ma_index (acc (ch_pool st) i) = i" by (rule good_index [OF assms(1) i])
    have s1: "steady env now (ch_pool st) (ch_pool st1)" by (rule steady_quiet [OF assms(1) st1(2)])
    have "steady env now (ch_pool st) (markSwitched i SwitchRotation (cp_family prm) (ch_pool st1))"
      using steady_trans [OF s1 steady_markSwitched] s1 i by (simp add: steady_def)
    then show ?thesis
      using Some get x st1 s1 i xi eligible_iff [OF assms(1), of now prm i]
      by (cases r) (auto simp: choose_affine_def Let_def idx image_iff)
  qed
qed

lemma hybrid_selector:
  assumes "good env p" and "0 \<le> now"
  shows "\<exists>r q. getCurrentOrNextForFamilyHybrid env now pid f m options p = (r, q) \<and> steady env now p q
     \<and> (\<forall>i. r = Some i \<longrightarrow> i < length (accounts p))"
proof -
  have ok: "pool_ok p" "room env p" "pointer_inv p" "indexed p" using assms(1) by (simp_all add: good_def pointer_inv_def)
  let ?sel = "selectHybridAccount id options pid now (healthTracker p) (tokenTracker p) (Some (getQuotaKey f m))
            (pool_metrics env now f m p)"
  note step = hybrid_step [OF ok(1,2) assms(2) ok(4), where options = options and pid = pid and f = f and m = m]
  show ?thesis
  proof (cases ?sel)
    case None
    with step steady_quiet [OF assms(1)] show ?thesis by auto
  next
    case (Some s)
    then have "s \<in> set (available_accounts options (pool_metrics env now f m p))"
      unfolding selectHybridAccount_first_max by (rule first_max_mem)
    then have i: "am_index s < length (accounts p)"
      using ok(4) unfolding available_metrics [OF ok(4)] by (auto simp: pool_metric_def indexed_def)
    obtain q where q: "getCurrentOrNextForFamilyHybrid env now pid f m options p = (Some (am_index s), q)"
        "selection_kept env now (am_index s) p q"
      using step unfolding Some by auto
    have "pointer_inv q" using pointer_inv_hybrid [OF ok(3), of env now pid f m options] q(1) by simp
    with q i steady_selection_kept show ?thesis by auto
  qed
qed

lemma choose_hybrid_ok:
  assumes "good env (ch_pool st)" and "0 \<le> now"
  shows "\<exists>r st'. choose_hybrid env now pid prm st = (r, st') \<and> sound env now prm (ch_pool st) r
     \<and> steady env now (ch_pool st) (ch_pool st')"
proof -
  obtain ra sa where sa: "choose_affine env now prm st = (ra, sa)" "steady env now (ch_pool st) (ch_pool sa)"
      "\<forall>i. ra = Some i \<longrightarrow> eligible env now prm (ch_pool st) i"
    using choose_affine_ok [OF assms, of prm] by blast
  have ga: "good env (ch_pool sa)" using sa(2) by (simp add: steady_def)
  obtain r q where q: "getCurrentOrNextForFamilyHybrid env now pid (cp_family prm) (cp_model prm) (hybrid_options_of prm) (ch_pool sa) = (r, q)"
      "steady env now (ch_pool sa) q" "\<forall>i. r = Some i \<longrightarrow> i < length (accounts (ch_pool sa))"
    using hybrid_selector [OF ga assms(2)] by blast
  let ?st = "sa\<lparr>ch_pool := q\<rparr>"
  have pq: "ch_pool ?st = q" by simp
  have sq: "steady env now (ch_pool st) q" by (rule steady_trans [OF sa(2) q(2)])
  have g: "good env (ch_pool ?st)" and bound: "\<forall>i. r = Some i \<longrightarrow> i < length (accounts (ch_pool ?st))"
    using q(2,3) by (simp_all add: steady_def)
  obtain r1 st1 where st1: "recheck env now prm r ?st = (r1, st1)" "quiet env now q (ch_pool st1)"
      "r1 = (case r of Some i \<Rightarrow> if eligible env now prm q i then Some i else None | None \<Rightarrow> None)"
    using recheck_ok [OF g assms(2) bound, of prm] unfolding pq by blast
  have g1: "good env (ch_pool st1)" by (rule quiet_good [OF _ st1(2)]) (use g in simp)
  obtain r2 st2 where st2: "chooseLinearScanFallback env now prm True st1 = (r2, st2)"
      "r2 = List.find (eligible env now prm (ch_pool st1)) [0..<length (accounts (ch_pool st1))]"
      "steady env now (ch_pool st1) (ch_pool st2)"
    using fallback_scan_ok [OF g1 assms(2), of prm True] by blast
  have s1: "steady env now (ch_pool st) (ch_pool st1)"
    using steady_trans [OF sq steady_quiet [OF _ st1(2)]] g by simp
  have s2: "steady env now (ch_pool st) (ch_pool st2)" by (rule steady_trans [OF s1 st2(3)])
  have "sound env now prm (ch_pool st) r2"
    unfolding sound_steady [OF s1, symmetric] st2(2) by (rule sound_find)
  moreover have "eligible env now prm (ch_pool st) i" if "r1 = Some i" for i
    using that st1(3) eligible_steady [OF sq, of prm i] by (auto split: option.splits if_splits)
  moreover have "choose_hybrid env now pid prm st =
      (case ra of Some i \<Rightarrow> (Some i, sa) | None \<Rightarrow> (case r1 of Some i \<Rightarrow> (Some i, st1) | None \<Rightarrow> (r2, st2)))"
    unfolding choose_hybrid_def sa(1) q(1) prod.case st1(1) st2(1) ..
  ultimately show ?thesis
    using sa s1 s2 by (cases ra; cases r1) (simp_all add: sound_def)
qed

text \<open>
  A pin is used when it names an unblocked account that is routable (whatever was attempted), or is
  kept out by its own cooldown alone and the call waives that.
\<close>

definition only_cooling :: "pool_env \<Rightarrow> jsnum \<Rightarrow> model_family \<Rightarrow> string option \<Rightarrow> pool \<Rightarrow> nat \<Rightarrow> bool" where
  "only_cooling env now f m p i \<longleftrightarrow>
     ma_enabled (acc p i) \<noteq> Some False \<and> hasEnabledWorkspaces (acc p i) \<and> \<not> isAccountAuthInvalidated (acc p i)
     \<and> \<not> gate_limited env now f m (acc p i) \<and> cooling now (acc p i)"

definition pin_usable :: "pool_env \<Rightarrow> jsnum \<Rightarrow> choose_params \<Rightarrow> pool \<Rightarrow> int \<Rightarrow> bool" where
  "pin_usable env now prm p pin \<longleftrightarrow> 0 \<le> pin \<and> pin < int (length (accounts p)) \<and> nat pin \<notin> blocked_by prm
     \<and> (routable env now (cp_family prm) (cp_model prm) {} p (nat pin)
        \<or> cp_allowPinnedCooldown prm \<and> only_cooling env now (cp_family prm) (cp_model prm) p (nat pin))"

lemma skip_reason_cooldown:
  assumes "good env (ch_pool st)" and "i < length (accounts (ch_pool st))" and "0 \<le> now"
    and "skip_reason_at env now prm (int i) st = (Some r, st')"
  shows "isCooldownReason r \<longleftrightarrow> only_cooling env now (cp_family prm) (cp_model prm) (ch_pool st) i"
  using skip_reason_ok [of "ch_pool st" i env now "cp_family prm" "cp_model prm"] assms
  by (auto simp: good_def skip_reason_at_def getAccountRuntimeSkipReason_def only_cooling_def isCooldownReason_def
      split: if_splits)

lemma choose_pinned_ok:
  assumes "good env (ch_pool st)" and "0 \<le> now"
  shows "\<exists>st'. choose_pinned env now prm pin st =
       (if pin_usable env now prm (ch_pool st) pin then Some (nat pin) else None, st')
     \<and> quiet env now (ch_pool st) (ch_pool st') \<and> ch_affinity st' = ch_affinity st"
proof (cases "0 \<le> pin \<and> pin < int (length (accounts (ch_pool st))) \<and> nat pin \<notin> blocked_by prm
    \<and> ma_enabled (acc (ch_pool st) (nat pin)) \<noteq> Some False")
  case False
  with good_refl(2) [OF assms(1)] show ?thesis
    by (auto simp: choose_pinned_def pin_usable_def routable_def only_cooling_def)
next
  case True
  then obtain i where i: "pin = int i" "i < length (accounts (ch_pool st))" using nonneg_int_cases by (metis of_nat_less_iff)
  obtain r st1 where st1: "skip_reason_at env now prm (int i) st = (r, st1)" "quiet env now (ch_pool st) (ch_pool st1)"
      "ch_affinity st1 = ch_affinity st" "r = None \<longleftrightarrow> routable env now (cp_family prm) (cp_model prm) {} (ch_pool st) i"
    using skip_reason_at_ok [OF assms(1) i(2) assms(2), of prm] by blast
  show ?thesis
    using True i st1 skip_reason_cooldown [OF assms(1) i(2) assms(2), of prm]
    by (cases r) (auto simp: choose_pinned_def pin_usable_def)
qed

lemma choose_core_unpinned:
  assumes "good env (ch_pool st)" and "0 \<le> now" and "cp_pinnedIndex prm = None"
  shows "\<exists>r st'. choose_core env now pid prm st = (r, st') \<and> sound env now prm (ch_pool st) r
     \<and> steady env now (ch_pool st) (ch_pool st')"
  using choose_sequential_ok [OF assms(1,2), of prm] choose_hybrid_ok [OF assms(1,2), of pid prm] assms(3)
  by (auto simp: choose_core_def)

section \<open>Priority tiers\<close>

lemma filter_snap_inv:
  assumes "\<And>x s. x \<in> set xs \<Longrightarrow> I s \<Longrightarrow> \<exists>s'. f x s = (P x, s') \<and> I s'" and "I s"
  shows "\<exists>s'. filter_snap f xs s = (filter P xs, s') \<and> I s'"
  using assms
proof (induction xs arbitrary: s)
  case (Cons x xs)
  obtain s1 where s1: "f x s = (P x, s1)" "I s1" using Cons.prems by fastforce
  obtain s2 where "filter_snap f xs s1 = (filter P xs, s2)" "I s2" using Cons.IH [OF _ s1(2)] Cons.prems(1) by fastforce
  with s1 show ?case by simp
qed simp

lemma some_st_inv:
  assumes "\<And>x s. x \<in> set xs \<Longrightarrow> I s \<Longrightarrow> \<exists>s'. f x s = (P x, s') \<and> I s'" and "I s"
  shows "\<exists>s'. some_st f xs s = (\<exists>x \<in> set xs. P x, s') \<and> I s'"
  using assms
proof (induction xs arbitrary: s)
  case (Cons x xs)
  obtain s1 where s1: "f x s = (P x, s1)" "I s1" using Cons.prems by fastforce
  obtain s2 where "some_st f xs s1 = (\<exists>x \<in> set xs. P x, s2)" "I s2" using Cons.IH [OF _ s1(2)] Cons.prems(1) by fastforce
  with s1 show ?case by simp
qed simp

text \<open>What holds of the state while gates are being evaluated from \<open>st0\<close> on.\<close>

definition since :: "pool_env \<Rightarrow> jsnum \<Rightarrow> chooser \<Rightarrow> chooser \<Rightarrow> bool" where
  "since env now st0 st \<longleftrightarrow> quiet env now (ch_pool st0) (ch_pool st) \<and> ch_affinity st = ch_affinity st0"

lemma since_skip_reason:
  assumes "good env (ch_pool st0)" and "0 \<le> now" and "since env now st0 st" and "i < length (accounts (ch_pool st0))"
  shows "\<exists>r st'. skip_reason_at env now prm (int i) st = (r, st') \<and> since env now st0 st'
    \<and> (r = None \<longleftrightarrow> routable env now (cp_family prm) (cp_model prm) {} (ch_pool st0) i)"
proof -
  have q: "quiet env now (ch_pool st0) (ch_pool st)" "ch_affinity st = ch_affinity st0" using assms(3) by (simp_all add: since_def)
  have "i < length (accounts (ch_pool st))" using assms(4) quiet_length [OF q(1)] by simp
  from skip_reason_at_ok [OF quiet_good [OF assms(1) q(1)] this assms(2), of prm]
  show ?thesis using q quiet_trans [OF q(1)] quiet_routable [OF q(1) assms(4)] by (auto simp: since_def)
qed

lemma since_refl: "good env (ch_pool st) \<Longrightarrow> since env now st st"
  by (simp add: since_def good_refl)

lemma since_good: "good env (ch_pool st0) \<Longrightarrow> since env now st0 st \<Longrightarrow> good env (ch_pool st)"
  by (auto simp: since_def intro: quiet_good)

lemma since_steady: "good env (ch_pool st0) \<Longrightarrow> since env now st0 st \<Longrightarrow> steady env now (ch_pool st0) (ch_pool st)"
  by (simp add: since_def steady_quiet)

lemma since_snapshot:
  assumes "good env (ch_pool st0)" and "since env now st0 st"
  shows "\<exists>st'. getAccountsSnapshot env st = (accounts (ch_pool st'), st') \<and> since env now st0 st'"
  using snapshot_ok [OF since_good [OF assms], of now] assms(2) quiet_trans [of env now "ch_pool st0" "ch_pool st"]
  by (auto simp: since_def)

lemma snapshot_member:
  assumes "good env (ch_pool st0)" and "since env now st0 st" and "a \<in> set (accounts (ch_pool st))"
  shows "ma_index a < length (accounts (ch_pool st0)) \<and> ma_enabled a = ma_enabled (acc (ch_pool st0) (ma_index a))"
proof -
  have q: "quiet env now (ch_pool st0) (ch_pool st)" using assms(2) by (simp add: since_def)
  obtain i where i: "i < length (accounts (ch_pool st))" "a = acc (ch_pool st) i"
    using assms(3) by (auto simp: in_set_conv_nth acc_def)
  have "ma_index a = i" using good_index [OF since_good [OF assms(1,2)] i(1)] i(2) by simp
  with i q show ?thesis by (simp add: quiet_def kept_def same_view_def)
qed

text \<open>Whether some usable account is neither exhausted nor on a reserve plan.\<close>

definition unreserved :: "pool_env \<Rightarrow> jsnum \<Rightarrow> choose_params \<Rightarrow> pool \<Rightarrow> bool" where
  "unreserved env now prm p \<longleftrightarrow>
     (case cp_quotaByAccount prm of None \<Rightarrow> False
      | Some q \<Rightarrow> \<exists>i. eligible env now prm p i \<and> \<not> quota_exhausted q i \<and> \<not> usesSubscriptionReserve (q i))"

lemma has_non_reserve_ok:
  assumes "good env (ch_pool st)" and "0 \<le> now"
  shows "\<exists>st'. has_non_reserve env now prm st = (unreserved env now prm (ch_pool st), st') \<and> since env now st st'"
proof (cases "cp_quotaByAccount prm")
  case None
  with since_refl [OF assms(1)] show ?thesis by (simp add: has_non_reserve_def unreserved_def)
next
  case (Some q)
  obtain st1 where st1: "getAccountsSnapshot env st = (accounts (ch_pool st1), st1)" "since env now st st1"
    using since_snapshot [OF assms(1) since_refl [OF assms(1)]] by blast
  let ?P = "\<lambda>a. eligible env now prm (ch_pool st) (ma_index a) \<and> \<not> quota_exhausted q (ma_index a)
    \<and> \<not> usesSubscriptionReserve (q (ma_index a))"
  have step: "\<exists>s'. non_reserve_test env now prm q a s = (?P a, s') \<and> since env now st s'"
    if mem: "a \<in> set (accounts (ch_pool st1))" and inv: "since env now st s" for a s
  proof -
    note a = snapshot_member [OF assms(1) st1(2) mem]
    obtain r s1 where s1: "skip_reason_at env now prm (int (ma_index a)) s = (r, s1)" "since env now st s1"
        "r = None \<longleftrightarrow> routable env now (cp_family prm) (cp_model prm) {} (ch_pool st) (ma_index a)"
      using since_skip_reason [OF assms inv conjunct1 [OF a], of prm] by blast
    have "ma_enabled a = Some False \<Longrightarrow> \<not> routable env now (cp_family prm) (cp_model prm) {} (ch_pool st) (ma_index a)"
      using a by (simp add: routable_def)
    with a s1 inv eligible_iff [OF assms(1), of now prm "ma_index a"] show ?thesis
      by (auto simp: non_reserve_test_def)
  qed
  obtain st2 where st2: "some_st (non_reserve_test env now prm q) (accounts (ch_pool st1)) st1
      = (\<exists>a \<in> set (accounts (ch_pool st1)). ?P a, st2)" "since env now st st2"
    using some_st_inv [where I = "since env now st" and P = ?P and f = "non_reserve_test env now prm q" and xs = "accounts (ch_pool st1)", OF step st1(2)] by blast
  have idx: "ma_index ` set (accounts (ch_pool st1)) = {..<length (accounts (ch_pool st))}"
    using good_indexes [OF since_good [OF assms(1) st1(2)]] st1(2)
    by (metis atLeast_upt list.set_map quiet_length since_def)
  have "(\<exists>a \<in> set (accounts (ch_pool st1)). ?P a) \<longleftrightarrow> unreserved env now prm (ch_pool st)"
  proof -
    have "(\<exists>a \<in> set (accounts (ch_pool st1)). ?P a) \<longleftrightarrow> (\<exists>i \<in> ma_index ` set (accounts (ch_pool st1)).
        eligible env now prm (ch_pool st) i \<and> \<not> quota_exhausted q i \<and> \<not> usesSubscriptionReserve (q i))" by blast
    also have "\<dots> \<longleftrightarrow> unreserved env now prm (ch_pool st)"
      unfolding idx unreserved_def Some by (auto simp: eligible_def)
    finally show ?thesis .
  qed
  with st1 st2 Some show ?thesis by (simp add: has_non_reserve_def)
qed

text \<open>The accounts the priorities choose among.\<close>

definition tier_candidates :: "pool_env \<Rightarrow> jsnum \<Rightarrow> choose_params \<Rightarrow> pool \<Rightarrow> nat list" where
  "tier_candidates env now prm p = quota_candidates prm (filter (eligible env now prm p) [0..<length (accounts p)])"

lemma quota_candidates_subset: "set (quota_candidates prm c) \<subseteq> set c"
  by (auto simp: quota_candidates_def Let_def split: option.splits if_splits)

lemma candidates_ok:
  assumes "good env (ch_pool st0)" and "0 \<le> now" and "since env now st0 st"
  shows "\<exists>cs st'. filter_snap (candidate_test env now prm) (accounts (ch_pool st)) st = (cs, st') \<and> since env now st0 st'
    \<and> map ma_index cs = filter (eligible env now prm (ch_pool st0)) [0..<length (accounts (ch_pool st0))]"
proof -
  let ?P = "\<lambda>a. eligible env now prm (ch_pool st0) (ma_index a)"
  have step: "\<exists>s'. candidate_test env now prm a s = (?P a, s') \<and> since env now st0 s'"
    if mem: "a \<in> set (accounts (ch_pool st))" and inv: "since env now st0 s" for a s
  proof -
    note a = snapshot_member [OF assms(1,3) mem]
    obtain r s1 where s1: "skip_reason_at env now prm (int (ma_index a)) s = (r, s1)" "since env now st0 s1"
        "r = None \<longleftrightarrow> routable env now (cp_family prm) (cp_model prm) {} (ch_pool st0) (ma_index a)"
      using since_skip_reason [OF assms(1,2) inv conjunct1 [OF a], of prm] by blast
    have "ma_enabled a = Some False \<Longrightarrow> \<not> routable env now (cp_family prm) (cp_model prm) {} (ch_pool st0) (ma_index a)"
      using a by (simp add: routable_def)
    with a s1 inv eligible_iff [OF assms(1), of now prm "ma_index a"] show ?thesis
      by (cases r) (auto simp: candidate_test_def since_def)
  qed
  obtain st' where "filter_snap (candidate_test env now prm) (accounts (ch_pool st)) st = (filter ?P (accounts (ch_pool st)), st')"
      "since env now st0 st'"
    using filter_snap_inv [where I = "since env now st0" and P = ?P and f = "candidate_test env now prm" and xs = "accounts (ch_pool st)", OF step assms(3)] by blast
  moreover have "map ma_index (filter ?P (accounts (ch_pool st)))
      = filter (eligible env now prm (ch_pool st0)) (map ma_index (accounts (ch_pool st)))"
    by (simp add: filter_map o_def)
  moreover have "length (accounts (ch_pool st)) = length (accounts (ch_pool st0))"
    using assms(3) by (auto simp: since_def intro: quiet_length)
  ultimately show ?thesis using good_indexes [OF since_good [OF assms(1,3)]] by auto
qed

lemma nested_eligible:
  assumes "good env p" and "cp_policy prm = Some policy"
    and "nested = prm\<lparr>cp_policy := Some (policy\<lparr>rp_priorityByAccount := None, rp_blockedAccountIndexes :=
          rp_blockedAccountIndexes policy \<union> set (map ma_index (filter (\<lambda>a. tier_blocked prm h tier (ma_index a)) as))\<rparr>),
        cp_fallbackPinnedIndex := None, cp_pinnedIndex := pin\<rparr>"
    and "map ma_index as = [0..<length (accounts p)]"
  shows "eligible env now nested p i \<longleftrightarrow> eligible env now prm p i \<and> i \<in> tier"
    and "i \<in> tier \<Longrightarrow> i \<in> blocked_by nested \<longleftrightarrow> i \<in> blocked_by prm"
proof -
  have "set (map ma_index (filter (\<lambda>a. tier_blocked prm h tier (ma_index a)) as))
      = {i. i < length (accounts p) \<and> tier_blocked prm h tier i}"
  proof -
    have "set (map ma_index (filter (\<lambda>a. tier_blocked prm h tier (ma_index a)) as))
        = set (filter (tier_blocked prm h tier) (map ma_index as))" by (auto simp: filter_map)
    then show ?thesis unfolding assms(4) by auto
  qed
  then have bl: "blocked_by nested = blocked_by prm \<union> {i. i < length (accounts p) \<and> tier_blocked prm h tier i}"
    by (simp add: blocked_by_def assms(2,3))
  show "i \<in> tier \<Longrightarrow> i \<in> blocked_by nested \<longleftrightarrow> i \<in> blocked_by prm" by (auto simp: bl tier_blocked_def)
  have "cp_attemptedIndexes nested = cp_attemptedIndexes prm" "cp_family nested = cp_family prm" "cp_model nested = cp_model prm"
    by (simp_all add: assms(3))
  then show "eligible env now nested p i \<longleftrightarrow> eligible env now prm p i \<and> i \<in> tier"
    unfolding eligible_iff [OF assms(1)] bl by (auto simp: tier_blocked_def)
qed

lemma pin_usable_quiet:
  assumes "quiet env now p q"
  shows "pin_usable env now prm q pin = pin_usable env now prm p pin"
proof (cases "0 \<le> pin \<and> pin < int (length (accounts p))")
  case True
  then have i: "nat pin < length (accounts p)" by linarith
  have "only_cooling env now f m q (nat pin) = only_cooling env now f m p (nat pin)" for f m
    using assms i by (auto simp: quiet_def kept_def same_view_def only_cooling_def hasEnabledWorkspaces_def tracked_workspaces_def)
  then show ?thesis using quiet_routable [OF assms i] quiet_length [OF assms] by (simp add: pin_usable_def)
next
  case False
  then show ?thesis using quiet_length [OF assms] by (auto simp: pin_usable_def)
qed

lemma choose_nested_ok:
  assumes "good env (ch_pool st)" and "0 \<le> now"
  shows "\<exists>r st'. choose_nested env now pid prm st = (r, st') \<and> steady env now (ch_pool st) (ch_pool st')
     \<and> (case cp_pinnedIndex prm of None \<Rightarrow> sound env now prm (ch_pool st) r
        | Some pin \<Rightarrow> r = (if pin_usable env now prm (ch_pool st) pin then Some (nat pin) else None))"
proof -
  obtain st1 where st1: "has_non_reserve env now prm st = (unreserved env now prm (ch_pool st), st1)" "since env now st st1"
    using has_non_reserve_ok [OF assms] by blast
  note g = since_good [OF assms(1) st1(2)] and s = since_steady [OF assms(1) st1(2)]
  show ?thesis
  proof (cases "cp_pinnedIndex prm")
    case None
    from choose_core_unpinned [OF g assms(2) None, of pid] steady_trans [OF s] sound_steady [OF s] None st1(1)
    show ?thesis by (auto simp: choose_nested_def)
  next
    case (Some pin)
    have "quiet env now (ch_pool st) (ch_pool st1)" using st1(2) by (simp add: since_def)
    from pin_usable_quiet [OF this, of prm pin] show ?thesis
      using choose_pinned_ok [OF g assms(2), of prm pin] steady_trans [OF s] steady_quiet [OF g] Some st1(1)
      by (auto simp: choose_nested_def choose_core_def)
  qed
qed

lemma choose_tiered_ok:
  assumes "good env (ch_pool st)" and "0 \<le> now" and "cp_policy prm = Some policy"
  shows "\<exists>r st'. choose_tiered env now pid h prm policy priorities st = (r, st') \<and> steady env now (ch_pool st) (ch_pool st')
     \<and> (case r of None \<Rightarrow> tier_candidates env now prm (ch_pool st) = []
        | Some i \<Rightarrow> i \<in> set (tier_candidates env now prm (ch_pool st))
            \<and> (\<forall>j \<in> set (tier_candidates env now prm (ch_pool st)). priority_of priorities i \<le> priority_of priorities j))"
proof -
  let ?cands = "tier_candidates env now prm (ch_pool st)"
  obtain st1 where st1: "getAccountsSnapshot env st = (accounts (ch_pool st1), st1)" "since env now st st1"
    using since_snapshot [OF assms(1) since_refl [OF assms(1)]] by blast
  obtain cs st2 where st2: "filter_snap (candidate_test env now prm) (accounts (ch_pool st1)) st1 = (cs, st2)"
      "since env now st st2" "map ma_index cs = filter (eligible env now prm (ch_pool st)) [0..<length (accounts (ch_pool st))]"
    using candidates_ok [OF assms(1,2) st1(2)] by blast
  have cands: "quota_candidates prm (map ma_index cs) = ?cands" by (simp add: tier_candidates_def st2(3))
  show ?thesis
  proof (cases "?cands = []")
    case True
    then show ?thesis
      using since_steady [OF assms(1) st2(2)] by (simp add: choose_tiered_def st1(1) st2(1) cands Let_def)
  next
    case False
    define tier where "tier = Min (priority_of priorities ` set ?cands)"
    define tierIndexes where "tierIndexes = set (filter (\<lambda>i. priority_of priorities i = tier) ?cands)"
    define pin where "pin = (let preferred = preferred_in_tier prm priorities ?cands tierIndexes
      in if nullish preferred (-1) \<in> int ` tierIndexes then preferred else None)"
    obtain st3 where st3: "getAccountsSnapshot env st2 = (accounts (ch_pool st3), st3)" "since env now st st3"
      using since_snapshot [OF assms(1) st2(2)] by blast
    define nested where "nested = prm\<lparr>cp_policy := Some (policy\<lparr>rp_priorityByAccount := None, rp_blockedAccountIndexes :=
          rp_blockedAccountIndexes policy \<union> set (map ma_index (filter (\<lambda>a. tier_blocked prm h tierIndexes (ma_index a))
            (accounts (ch_pool st3))))\<rparr>),
        cp_fallbackPinnedIndex := None, cp_pinnedIndex := pin\<rparr>"
    have g3: "good env (ch_pool st3)" by (rule since_good [OF assms(1) st3(2)])
    have q3: "quiet env now (ch_pool st) (ch_pool st3)" using st3(2) by (simp add: since_def)
    note ne = nested_eligible [OF g3 assms(3) nested_def good_indexes [OF g3]]
    have el: "eligible env now nested (ch_pool st3) i \<longleftrightarrow> eligible env now prm (ch_pool st) i \<and> i \<in> tierIndexes" for i
      unfolding ne(1) eligible_quiet [OF q3] ..
    have inTier: "eligible env now prm (ch_pool st) i" if "i \<in> tierIndexes" for i
      using that quota_candidates_subset by (fastforce simp: tierIndexes_def tier_candidates_def)
    have "tier \<in> priority_of priorities ` set ?cands" unfolding tier_def using False by (intro Min_in) auto
    then have nonempty: "tierIndexes \<noteq> {}" by (auto simp: tierIndexes_def)
    have best: "i \<in> set ?cands \<and> (\<forall>j \<in> set ?cands. priority_of priorities i \<le> priority_of priorities j)" if "i \<in> tierIndexes" for i
      using that by (auto simp: tierIndexes_def tier_def)
    obtain r st4 where st4: "choose_nested env now pid nested st3 = (r, st4)" "steady env now (ch_pool st3) (ch_pool st4)"
        "case cp_pinnedIndex nested of None \<Rightarrow> sound env now nested (ch_pool st3) r
         | Some pin \<Rightarrow> r = (if pin_usable env now nested (ch_pool st3) pin then Some (nat pin) else None)"
      using choose_nested_ok [OF g3 assms(2), of pid nested] by blast
    have "\<exists>i. r = Some i \<and> i \<in> tierIndexes"
    proof (cases pin)
      case None
      then have "sound env now nested (ch_pool st3) r" using st4(3) by (simp add: nested_def)
      with nonempty inTier show ?thesis by (auto simp: sound_def el split: option.splits)
    next
      case (Some k)
      then have k: "k \<in> int ` tierIndexes" by (auto simp: pin_def Let_def nullish_def split: if_splits option.splits)
      then obtain i where i: "k = int i" "i \<in> tierIndexes" by blast
      have "eligible env now nested (ch_pool st3) i" using i(2) inTier by (simp add: el)
      then have "pin_usable env now nested (ch_pool st3) (int i)"
        unfolding eligible_iff [OF g3] by (simp add: pin_usable_def)
      with st4(3) Some i show ?thesis by (simp add: nested_def)
    qed
    then obtain i where i: "r = Some i" "i \<in> tierIndexes" by blast
    have s4: "steady env now (ch_pool st) (ch_pool st4)"
      by (rule steady_trans [OF since_steady [OF assms(1) st3(2)] st4(2)])
    have "i < length (accounts (ch_pool st4))"
      using inTier [OF i(2)] s4 by (simp add: eligible_def steady_def)
    with s4 have s5: "steady env now (ch_pool st) (touch i now (ch_pool st4))"
      using steady_trans [OF s4 steady_touch] by (simp add: steady_def)
    have "choose_tiered env now pid h prm policy priorities st =
        (Some i, if cp_sequential prm then st4\<lparr>ch_pool := touch i now (ch_pool st4)\<rparr> else st4)"
      using False st4(1) i(1)
      unfolding choose_tiered_def st1(1) prod.case st2(1) cands Let_def st3(1) nested_def pin_def tierIndexes_def tier_def
      by simp
    with s4 s5 best [OF i(2)] show ?thesis by simp
  qed
qed

section \<open>The whole choice\<close>

text \<open>The accounts a choice ranges over once the soft pin has been passed over.\<close>

definition choice_set :: "pool_env \<Rightarrow> jsnum \<Rightarrow> choose_params \<Rightarrow> pool \<Rightarrow> nat set" where
  "choice_set env now prm p =
     (case Option.bind (cp_policy prm) rp_priorityByAccount of
        Some _ \<Rightarrow> set (tier_candidates env now prm p) | None \<Rightarrow> {i. eligible env now prm p i})"

definition best_tier :: "choose_params \<Rightarrow> nat set \<Rightarrow> nat \<Rightarrow> bool" where
  "best_tier prm cs i \<longleftrightarrow>
     (case Option.bind (cp_policy prm) rp_priorityByAccount of
        Some priorities \<Rightarrow> \<forall>j \<in> cs. priority_of priorities i \<le> priority_of priorities j | None \<Rightarrow> True)"

definition soft_pinned :: "pool_env \<Rightarrow> jsnum \<Rightarrow> choose_params \<Rightarrow> pool \<Rightarrow> nat \<Rightarrow> bool" where
  "soft_pinned env now prm p i \<longleftrightarrow> cp_fallbackPinnedIndex prm = Some (int i) \<and> eligible env now prm p i
     \<and> fallback_applies prm (unreserved env now prm p) (int i)"

definition main_choice :: "pool_env \<Rightarrow> jsnum \<Rightarrow> choose_params \<Rightarrow> pool \<Rightarrow> nat option \<Rightarrow> bool" where
  "main_choice env now prm p r \<longleftrightarrow>
     (case r of None \<Rightarrow> choice_set env now prm p = {}
      | Some i \<Rightarrow> i \<in> choice_set env now prm p \<and> best_tier prm (choice_set env now prm p) i)"

lemma choose_main_ok:
  assumes "good env (ch_pool st)" and "0 \<le> now" and "cp_pinnedIndex prm = None"
  shows "\<exists>r st'. choose_main env now pid h prm st = (r, st') \<and> steady env now (ch_pool st) (ch_pool st')
     \<and> main_choice env now prm (ch_pool st) r"
proof (cases "Option.bind (cp_policy prm) rp_priorityByAccount")
  case None
  then have "choose_main env now pid h prm st = choose_core env now pid prm st"
    using assms(3) by (auto simp: choose_main_def split: option.split)
  moreover have "main_choice env now prm (ch_pool st) r = sound env now prm (ch_pool st) r" for r
    by (auto simp: main_choice_def sound_def choice_set_def best_tier_def None split: option.split)
  ultimately show ?thesis using choose_core_unpinned [OF assms, of pid] by auto
next
  case (Some priorities)
  then obtain policy where pol: "cp_policy prm = Some policy" "rp_priorityByAccount policy = Some priorities"
    by (cases "cp_policy prm") auto
  have "choose_main env now pid h prm st = choose_tiered env now pid h prm policy priorities st"
    using assms(3) pol by (simp add: choose_main_def)
  moreover have "main_choice env now prm (ch_pool st) r = (case r of
        None \<Rightarrow> tier_candidates env now prm (ch_pool st) = []
      | Some i \<Rightarrow> i \<in> set (tier_candidates env now prm (ch_pool st))
          \<and> (\<forall>j \<in> set (tier_candidates env now prm (ch_pool st)). priority_of priorities i \<le> priority_of priorities j))" for r
    by (simp add: main_choice_def choice_set_def best_tier_def Some split: option.split)
  ultimately show ?thesis using choose_tiered_ok [OF assms(1,2) pol(1), of pid h priorities] by auto
qed

lemma chooseAccount_unpinned:
  assumes "good env (ch_pool st)" and "0 \<le> now" and "cp_pinnedIndex prm = None"
  shows "\<exists>r st'. chooseAccount env now pid prm st = (r, st') \<and> steady env now (ch_pool st) (ch_pool st')
     \<and> (if \<exists>i. soft_pinned env now prm (ch_pool st) i then \<exists>i. r = Some i \<and> soft_pinned env now prm (ch_pool st) i
        else main_choice env now prm (ch_pool st) r)"
proof -
  let ?h = "unreserved env now prm (ch_pool st)"
  obtain st1 where st1: "has_non_reserve env now prm st = (?h, st1)" "since env now st st1"
    using has_non_reserve_ok [OF assms(1,2)] by blast
  note g1 = since_good [OF assms(1) st1(2)] and s1 = since_steady [OF assms(1) st1(2)]
  have main: "\<exists>r st'. choose_main env now pid ?h prm s = (r, st') \<and> steady env now (ch_pool st) (ch_pool st')
      \<and> main_choice env now prm (ch_pool st) r" if s: "steady env now (ch_pool st) (ch_pool s)" for s
  proof -
    have el: "eligible env now prm (ch_pool s) = eligible env now prm (ch_pool st)"
      using eligible_steady [OF s] by (simp add: fun_eq_iff)
    have len: "length (accounts (ch_pool s)) = length (accounts (ch_pool st))" using s by (simp add: steady_def)
    have "choice_set env now prm (ch_pool s) = choice_set env now prm (ch_pool st)"
      unfolding choice_set_def tier_candidates_def el len ..
    then have "main_choice env now prm (ch_pool s) r = main_choice env now prm (ch_pool st) r" for r
      by (simp add: main_choice_def split: option.split)
    with choose_main_ok [of env s now prm pid ?h] s assms(2,3) steady_trans [OF s]
    show ?thesis by (auto simp: steady_def)
  qed
  show ?thesis
  proof (cases "\<exists>pin. cp_fallbackPinnedIndex prm = Some pin \<and> fallback_applies prm ?h pin")
    case False
    then have "chooseAccount env now pid prm st = choose_main env now pid ?h prm st1"
      by (auto simp: chooseAccount_def st1(1) split: option.split)
    moreover have "\<not> soft_pinned env now prm (ch_pool st) i" for i using False by (auto simp: soft_pinned_def)
    ultimately show ?thesis using main [OF s1] by simp
  next
    case True
    then obtain pin where pin: "cp_fallbackPinnedIndex prm = Some pin" "fallback_applies prm ?h pin" by blast
    let ?prm = "prm\<lparr>cp_pinnedIndex := Some pin, cp_allowPinnedCooldown := False\<rparr>"
    obtain r st2 where st2: "choose_nested env now pid ?prm st1 = (r, st2)" "steady env now (ch_pool st1) (ch_pool st2)"
        "r = (if pin_usable env now ?prm (ch_pool st1) pin then Some (nat pin) else None)"
      using choose_nested_ok [OF g1 assms(2), of pid ?prm] by auto
    have s2: "steady env now (ch_pool st) (ch_pool st2)" by (rule steady_trans [OF s1 st2(2)])
    have att: "pin \<notin> int ` cp_attemptedIndexes prm" using pin(2) by (simp add: fallback_applies_def)
    have usable: "pin_usable env now ?prm (ch_pool st1) pin \<longleftrightarrow> 0 \<le> pin \<and> eligible env now prm (ch_pool st1) (nat pin)"
      using att eligible_iff [OF g1, of now prm "nat pin"]
      by (auto simp: pin_usable_def blocked_by_def image_iff)
    have soft: "soft_pinned env now prm (ch_pool st) i \<longleftrightarrow> pin = int i \<and> r = Some i" for i
      using pin eligible_steady [OF s1, of prm i] usable by (auto simp: soft_pinned_def st2(3))
    have eq: "chooseAccount env now pid prm st = (case r of Some i \<Rightarrow> (Some i, st2) | None \<Rightarrow> choose_main env now pid ?h prm st2)"
      unfolding chooseAccount_def st1(1) prod.case pin(1) option.case if_P [OF pin(2)] st2(1) ..
    show ?thesis
    proof (cases r)
      case None
      then show ?thesis using main [OF s2] soft by (simp add: eq)
    next
      case (Some i)
      then have "pin = int i" using st2(3) usable by (auto split: if_splits)
      with Some show ?thesis using s2 soft by (auto simp: eq)
    qed
  qed
qed

lemma chooseAccount_pinned:
  assumes "good env (ch_pool st)" and "0 \<le> now" and "cp_pinnedIndex prm = Some pin"
  shows "\<exists>st'. chooseAccount env now pid prm st =
       (if pin_usable env now prm (ch_pool st) pin then Some (nat pin) else None, st') \<and> since env now st st'"
proof -
  obtain st1 where st1: "has_non_reserve env now prm st = (unreserved env now prm (ch_pool st), st1)" "since env now st st1"
    using has_non_reserve_ok [OF assms(1,2)] by blast
  have q1: "quiet env now (ch_pool st) (ch_pool st1)" using st1(2) by (simp add: since_def)
  have "chooseAccount env now pid prm st = choose_pinned env now prm pin st1"
    using assms(3) by (auto simp: chooseAccount_def st1(1) fallback_applies_def choose_main_def choose_core_def split: option.split)
  with choose_pinned_ok [OF since_good [OF assms(1) st1(2)] assms(2), of prm pin] show ?thesis
    using pin_usable_quiet [OF q1] quiet_trans [OF q1] st1(2) by (auto simp: since_def)
qed

section \<open>Properties\<close>

definition demo_params :: choose_params where
  "demo_params = \<lparr>cp_sessionKey = None, cp_family = ''codex'', cp_model = None, cp_attemptedIndexes = {2},
     cp_policy = Some \<lparr>rp_blockedAccountIndexes = {}, rp_blockedAccountReasons = Map.empty,
       rp_scoreBoostByAccount = Map.empty, rp_priorityByAccount = Some [(0, 2), (1, 1), (2, 1)]\<rparr>,
     cp_pinnedIndex = None, cp_preferredIndex = None, cp_fallbackPinnedIndex = None, cp_quotaByAccount = None,
     cp_stickyBoostByAccount = Map.empty, cp_pidOffsetEnabled = False, cp_sequential = False,
     cp_allowPinnedCooldown = False\<rparr>"

definition demo_chooser :: chooser where
  "demo_chooser = \<lparr>ch_pool = demo_pool, ch_affinity = None, ch_skip = []\<rparr>"

lemma demo_good: "good demo_env (ch_pool demo_chooser)"
  by (simp add: good_def demo_chooser_def demo_pool_ok demo_pool_room demo_pointer_inv)

lemma demo_eligible:
  "0 \<le> now \<Longrightarrow> blocked_by prm = {} \<Longrightarrow> eligible demo_env now prm demo_pool i \<longleftrightarrow> i < 3 \<and> i \<notin> cp_attemptedIndexes prm"
  using demo_routable [of now i] by (auto simp: eligible_def) (simp_all add: demo_pool_def)

text \<open>
  C1. A choice without a hard pin is exact: if the soft pin names an account the request may use
  (and the subscription quota does not rule it out), that account is chosen; otherwise an
  account of the candidates is chosen, of minimal priority number among them when priorities
  are given, and none exactly when there is no candidate.  The candidates are the accounts
  not tried yet, not blocked by policy and routable now, narrowed by the subscription quota
  when priorities are given.  Whatever is chosen, no account's routability changes.
\<close>

theorem choice_exact:
  assumes "good env (ch_pool st)" and "0 \<le> now" and "cp_pinnedIndex prm = None"
  shows "case chooseAccount env now pid prm st of (r, st') \<Rightarrow>
      steady env now (ch_pool st) (ch_pool st')
    \<and> (if \<exists>i. soft_pinned env now prm (ch_pool st) i then \<exists>i. r = Some i \<and> soft_pinned env now prm (ch_pool st) i
       else case r of
          None \<Rightarrow> choice_set env now prm (ch_pool st) = {}
        | Some i \<Rightarrow> i \<in> choice_set env now prm (ch_pool st) \<and> best_tier prm (choice_set env now prm (ch_pool st)) i)"
  using chooseAccount_unpinned [OF assms, of pid] unfolding main_choice_def by auto

theorem choice_exact_witness:
  "fst (chooseAccount demo_env 1000 7 demo_params demo_chooser) = Some 1"
proof -
  have "cp_pinnedIndex demo_params = None" "\<not> soft_pinned demo_env 1000 demo_params demo_pool i" for i
    by (simp_all add: demo_params_def soft_pinned_def)
  moreover have prio: "Option.bind (cp_policy demo_params) rp_priorityByAccount = Some [(0, 2), (1, 1), (2, 1)]"
    by (simp add: demo_params_def)
  moreover have "choice_set demo_env 1000 demo_params demo_pool = {0, 1}"
  proof -
    have "blocked_by demo_params = {}" "cp_attemptedIndexes demo_params = {2}" "cp_quotaByAccount demo_params = None"
      by (simp_all add: blocked_by_def demo_params_def)
    moreover have "length (accounts demo_pool) = 3" by (simp add: demo_pool_def)
    ultimately show ?thesis
      using demo_eligible [of 1000 demo_params] unfolding choice_set_def prio tier_candidates_def quota_candidates_def by auto
  qed
  moreover have "best_tier demo_params {0, 1} i \<Longrightarrow> i \<noteq> 0" for i
    by (cases "i = 0") (auto simp: best_tier_def prio priority_of_def jm_get_def nullish_def)
  ultimately show ?thesis
    using choice_exact [OF demo_good, of 1000 demo_params 7]
    by (auto simp: demo_chooser_def split: prod.splits option.splits)
qed

text \<open>
  A hard pin is the only account considered: it is returned when it is in the pool, unblocked and
  routable now, whether or not it was attempted, or when its cooldown alone keeps it out and the
  call waives that; otherwise nothing is.  A pinned choice moves no pointer, leaves the affinity
  store alone and changes no account's routability.
\<close>

theorem pin_overrides:
  assumes "good env (ch_pool st)" and "0 \<le> now" and "cp_pinnedIndex prm = Some pin"
  shows "case chooseAccount env now pid prm st of (r, st') \<Rightarrow>
      r = (if pin_usable env now prm (ch_pool st) pin then Some (nat pin) else None)
    \<and> ch_affinity st' = ch_affinity st \<and> steady env now (ch_pool st) (ch_pool st')
    \<and> cursorByFamily (ch_pool st') = cursorByFamily (ch_pool st)
    \<and> currentAccountIndexByFamily (ch_pool st') = currentAccountIndexByFamily (ch_pool st)"
  using chooseAccount_pinned [OF assms, of pid] since_steady [OF assms(1)] by (auto simp: since_def quiet_def kept_def)

theorem pin_overrides_witness:
  "fst (chooseAccount demo_env 1000 7 (demo_params\<lparr>cp_pinnedIndex := Some 2\<rparr>) demo_chooser) = Some 2"
proof -
  have "pin_usable demo_env 1000 (demo_params\<lparr>cp_pinnedIndex := Some 2\<rparr>) demo_pool 2"
    using demo_routable [of 1000 2] by (simp add: pin_usable_def blocked_by_def demo_params_def) (simp add: demo_pool_def)
  then show ?thesis
    using pin_overrides [OF demo_good, of 1000 "demo_params\<lparr>cp_pinnedIndex := Some 2\<rparr>" 2 7]
    by (auto simp: demo_chooser_def split: prod.splits)
qed

text \<open>
  C30. Sequential scheduling drains one account first: without pin and priorities the choice is the
  first routable, unblocked account from the active one on; when this very request has already
  tried that account the first one it may still use is returned instead, but the active index
  stays on the account that was tried, so a failed attempt alone never moves the primary.
\<close>

theorem primary_survives_retry:
  assumes "good env (ch_pool st)" and "0 \<le> now" and "cp_sequential prm" and "cp_pinnedIndex prm = None"
    and "cp_fallbackPinnedIndex prm = None" and "Option.bind (cp_policy prm) rp_priorityByAccount = None"
  shows "case chooseAccount env now pid prm st of (r, st') \<Rightarrow>
      r = drain_first env now prm (ch_pool st)
    \<and> currentAccountIndexByFamily (ch_pool st') =
        (case next_routable env now (cp_family prm) (cp_model prm) (blocked_by prm) (ch_pool st)
                (active_start (ch_pool st) (cp_family prm)) of
           Some i \<Rightarrow> (currentAccountIndexByFamily (ch_pool st))(cp_family prm := int i)
         | None \<Rightarrow> currentAccountIndexByFamily (ch_pool st))"
proof -
  obtain st1 where st1: "has_non_reserve env now prm st = (unreserved env now prm (ch_pool st), st1)" "since env now st st1"
    using has_non_reserve_ok [OF assms(1,2)] by blast
  have q: "quiet env now (ch_pool st) (ch_pool st1)" using st1(2) by (simp add: since_def)
  have eq: "chooseAccount env now pid prm st = choose_sequential env now prm st1"
    using assms(3-6) by (auto simp: chooseAccount_def st1(1) choose_main_def choose_core_def split: option.split)
  have cur: "currentAccountIndexByFamily (ch_pool st1) = currentAccountIndexByFamily (ch_pool st)"
    and len: "length (accounts (ch_pool st1)) = length (accounts (ch_pool st))"
    using q by (simp_all add: quiet_def kept_def)
  then have act: "active_start (ch_pool st1) f = active_start (ch_pool st) f" for f by (simp add: active_start_def)
  have nxt: "next_routable env now f m b (ch_pool st1) k = next_routable env now f m b (ch_pool st) k" for f m b k
    using q by (intro next_routable_kept) (simp add: quiet_def)
  have df: "drain_first env now prm (ch_pool st1) = drain_first env now prm (ch_pool st)"
  proof -
    have "eligible env now prm (ch_pool st1) = eligible env now prm (ch_pool st)" using eligible_quiet [OF q] by (simp add: fun_eq_iff)
    then show ?thesis by (simp only: drain_first_def act nxt len)
  qed
  show ?thesis
    using choose_sequential_ok [OF since_good [OF assms(1) st1(2)] assms(2), of prm] unfolding eq act nxt df cur by auto
qed

theorem primary_survives_retry_witness:
  "let prm = demo_params\<lparr>cp_sequential := True, cp_policy := None\<rparr>;
       (r, st') = chooseAccount demo_env 1000 7 prm demo_chooser
   in r = Some 0 \<and> currentAccountIndexByFamily (ch_pool st') ''codex'' = 2"
proof -
  let ?prm = "demo_params\<lparr>cp_sequential := True, cp_policy := None\<rparr>"
  have flds: "cp_sequential ?prm" "cp_pinnedIndex ?prm = None" "cp_fallbackPinnedIndex ?prm = None" "cp_family ?prm = ''codex''"
      "Option.bind (cp_policy ?prm) rp_priorityByAccount = None" "cp_model ?prm = None" "blocked_by ?prm = {}"
      "cp_attemptedIndexes ?prm = {2}"
    by (simp_all add: demo_params_def blocked_by_def)
  have start: "active_start demo_pool ''codex'' = 2" "length (accounts demo_pool) = 3"
    by (simp_all add: active_start_def demo_pool_def)
  have nxt: "next_routable demo_env 1000 ''codex'' None {} demo_pool 2 = Some 2" by simp
  have "eligible demo_env 1000 ?prm demo_pool 0" using demo_eligible [of 1000 ?prm 0] flds by simp
  then have "drain_first demo_env 1000 ?prm demo_pool = Some 0"
    by (simp add: drain_first_def flds start nxt upt_rec)
  then show ?thesis
    using primary_survives_retry [where env = demo_env and st = demo_chooser and now = 1000 and prm = ?prm and pid = 7]
      demo_good flds(1-3,5) unfolding flds(4,6,7) by (simp add: demo_chooser_def start nxt split: prod.splits)
qed

text \<open>
  C29. The subscription reserve is used last: when quotas and priorities are given, a choice without a
  hard pin is never an exhausted account, and it is an account down to its reserve only when
  every account the request may use is exhausted or down to its reserve as well.
\<close>

theorem reserve_last:
  assumes "good env (ch_pool st)" and "0 \<le> now" and "cp_pinnedIndex prm = None"
    and "cp_quotaByAccount prm = Some q" and "Option.bind (cp_policy prm) rp_priorityByAccount = Some priorities"
    and "fst (chooseAccount env now pid prm st) = Some i"
  shows "\<not> quota_exhausted q i
    \<and> (usesSubscriptionReserve (q i) \<longrightarrow>
        (\<forall>j. eligible env now prm (ch_pool st) j \<longrightarrow> quota_exhausted q j \<or> usesSubscriptionReserve (q j)))"
proof (cases "soft_pinned env now prm (ch_pool st) i")
  case True
  then have "\<not> quota_exhausted q i" "\<not> (unreserved env now prm (ch_pool st) \<and> usesSubscriptionReserve (q i))"
    using assms(4) by (auto simp: soft_pinned_def fallback_applies_def at_int_def quota_exhausted_def split: option.splits)
  then show ?thesis using assms(4) by (auto simp: unreserved_def)
next
  case False
  then have "i \<in> set (tier_candidates env now prm (ch_pool st))"
    using chooseAccount_unpinned [OF assms(1-3), of pid] assms(5,6)
    by (auto simp: main_choice_def choice_set_def split: if_splits)
  then show ?thesis
    using assms(4) by (auto simp: tier_candidates_def quota_candidates_def Let_def eligible_def filter_empty_conv split: if_splits)
qed

definition demo_quota :: "nat \<Rightarrow> jsnum \<Rightarrow> subscription_preference" where
  "demo_quota i remaining = \<lparr>sp_plan = SubscriptionPlan, sp_remainingPercent = Some remaining, sp_resetAtMs = None,
     sp_urgency = None, sp_exhausted = (remaining = 0), sp_observedAt = Some 0\<rparr>"

theorem reserve_last_witness:
  "fst (chooseAccount demo_env 1000 7 (demo_params\<lparr>cp_quotaByAccount := Some [0 \<mapsto> demo_quota 0 50, 1 \<mapsto> demo_quota 1 4]\<rparr>)
     demo_chooser) \<noteq> Some 1"
proof
  let ?q = "[(0::nat) \<mapsto> demo_quota 0 50, 1 \<mapsto> demo_quota 1 4]"
  let ?prm = "demo_params\<lparr>cp_quotaByAccount := Some ?q\<rparr>"
  assume r: "fst (chooseAccount demo_env 1000 7 ?prm demo_chooser) = Some 1"
  have flds: "cp_pinnedIndex ?prm = None" "cp_quotaByAccount ?prm = Some ?q" "blocked_by ?prm = {}" "cp_attemptedIndexes ?prm = {2}"
      "Option.bind (cp_policy ?prm) rp_priorityByAccount = Some [(0, 2), (1, 1), (2, 1)]"
    by (simp_all add: demo_params_def blocked_by_def)
  have "eligible demo_env 1000 ?prm demo_pool 0" using demo_eligible [of 1000 ?prm 0] flds by simp
  moreover have "\<not> quota_exhausted ?q 0" "\<not> usesSubscriptionReserve (?q 0)" "usesSubscriptionReserve (?q 1)"
    by (simp_all add: quota_exhausted_def usesSubscriptionReserve_def demo_quota_def SUBSCRIPTION_RESERVE_PERCENT_def)
  ultimately show False
    using reserve_last [where env = demo_env and st = demo_chooser and now = 1000 and prm = ?prm and pid = 7 and q = ?q
        and i = 1 and priorities = "[(0, 2), (1, 1), (2, 1)]"] demo_good flds(1,2,5) r
    by (auto simp: demo_chooser_def)
qed

section \<open>The drain order\<close>

lemma first_by_least:
  assumes "comparator c"
  shows "case first_by c xs of None \<Rightarrow> xs = [] | Some x \<Rightarrow> x \<in> set xs \<and> (\<forall>y \<in> set xs. c x y \<le> 0)"
proof (induction xs)
  case (Cons x xs)
  note flip = comparatorD(1) [OF assms] and trans = comparatorD(2) [OF assms]
  have refl: "c x x \<le> 0" for x using flip [of x x] by simp
  show ?case
  proof (cases "first_by c xs")
    case None
    with Cons refl show ?thesis by simp
  next
    case (Some y)
    have y: "y \<in> set xs" "\<forall>z \<in> set xs. c y z \<le> 0" using Cons Some by simp_all
    show ?thesis
    proof (cases "c x y \<le> 0")
      case True
      then show ?thesis using Some y refl trans [OF True] by auto
    next
      case False
      then have "c y x \<le> 0" using flip [of y x] by simp
      then show ?thesis using Some y False by auto
    qed
  qed
qed simp

text \<open>
  The drain order is a total preorder on quota observations, so the ranking of a tier does not
  depend on storage order: the ranked account is one of the tier's measured accounts and no
  measured account of the tier precedes it; there is none exactly when no account is measured.
\<close>

theorem drain_order_total:
  "(\<forall>a b. compareSubscriptionQuota b a = - compareSubscriptionQuota a b)
   \<and> (\<forall>a b c. compareSubscriptionQuota a b \<le> 0 \<longrightarrow> compareSubscriptionQuota b c \<le> 0 \<longrightarrow> compareSubscriptionQuota a c \<le> 0)
   \<and> (case best_quota_index q indexes of
        None \<Rightarrow> \<forall>i \<in> set indexes. q i = None
      | Some (best, s) \<Rightarrow> best \<in> set indexes \<and> q best = Some s
          \<and> (\<forall>i \<in> set indexes. \<forall>t. q i = Some t \<longrightarrow> compareSubscriptionQuota s t \<le> 0))"
proof -
  let ?c = "\<lambda>a b. compareSubscriptionQuota (snd a) (snd b)"
  let ?xs = "concat (map (\<lambda>i. case q i of Some s \<Rightarrow> [(i, s)] | None \<Rightarrow> []) indexes)"
  have mem: "(i, s) \<in> set ?xs \<longleftrightarrow> i \<in> set indexes \<and> q i = Some s" for i s by (auto split: option.splits)
  have "comparator ?c" using comparatorD [OF compare_is_comparator] unfolding comparator_def by blast
  from first_by_least [OF this, of ?xs]
  have "case best_quota_index q indexes of
        None \<Rightarrow> \<forall>i \<in> set indexes. q i = None
      | Some (best, s) \<Rightarrow> best \<in> set indexes \<and> q best = Some s
          \<and> (\<forall>i \<in> set indexes. \<forall>t. q i = Some t \<longrightarrow> compareSubscriptionQuota s t \<le> 0)"
  proof (cases "first_by ?c ?xs")
    case None
    with first_by_least [OF \<open>comparator ?c\<close>, of ?xs] have "?xs = []" by simp
    then have "q i = None" if "i \<in> set indexes" for i using that by (auto split: option.splits)
    with None show ?thesis by (simp add: best_quota_index_def)
  next
    case (Some x)
    with first_by_least [OF \<open>comparator ?c\<close>, of ?xs] have x: "x \<in> set ?xs" "\<forall>y \<in> set ?xs. ?c x y \<le> 0" by simp_all
    obtain i s where "x = (i, s)" by fastforce
    with x Some mem show ?thesis by (simp only: best_quota_index_def option.case prod.case) force
  qed
  then show ?thesis using comparatorD [OF compare_is_comparator] by blast
qed

theorem drain_order_total_witness:
  "map_option fst (best_quota_index [(0::nat) \<mapsto> demo_quota 0 50, 1 \<mapsto> demo_quota 1 4, 2 \<mapsto> demo_quota 2 80] [0, 1, 2]) = Some 2"
proof -
  let ?q = "[(0::nat) \<mapsto> demo_quota 0 50, 1 \<mapsto> demo_quota 1 4, 2 \<mapsto> demo_quota 2 80]"
  have "\<not> compareSubscriptionQuota (demo_quota 0 50) (demo_quota 2 80) \<le> 0"
      "\<not> compareSubscriptionQuota (demo_quota 1 4) (demo_quota 2 80) \<le> 0"
    by (simp_all add: compareSubscriptionQuota_def usesSubscriptionReserve_def demo_quota_def SUBSCRIPTION_RESERVE_PERCENT_def
        js_or_def sign_of_def earlier_def nullish_def)
  then show ?thesis
    using conjunct2 [OF conjunct2 [OF drain_order_total [where q = ?q and indexes = "[0, 1, 2]"]]]
    by (auto split: option.splits prod.splits if_splits)
qed

section \<open>Transcription\<close>

text \<open>A snapshot writes the two keys of each account and nothing else.\<close>

definition unkeyed :: "managed_account \<Rightarrow> managed_account" where
  "unkeyed a = a\<lparr>runtimeTrackerKey := None, circuitKeyId := None\<rparr>"

lemma unkeyed_fields:
  assumes "unkeyed b = unkeyed a"
  shows "ma_enabled b = ma_enabled a" "workspaces b = workspaces a" "authInvalidatedAt b = authInvalidatedAt a"
    "cooldownReason b = cooldownReason a" "coolingDownUntil b = coolingDownUntil a" "ma_recordId b = ma_recordId a"
    "authInvalidationErrorCode b = authInvalidationErrorCode a"
  using arg_cong [OF assms, of ma_enabled] arg_cong [OF assms, of workspaces] arg_cong [OF assms, of authInvalidatedAt]
    arg_cong [OF assms, of cooldownReason] arg_cong [OF assms, of coolingDownUntil] arg_cong [OF assms, of ma_recordId]
    arg_cong [OF assms, of authInvalidationErrorCode]
  by (simp_all add: unkeyed_def)

lemma unkeyed_set_acc:
  "i < length (accounts p) \<Longrightarrow> unkeyed a = unkeyed (acc p i) \<Longrightarrow> map unkeyed (accounts (set_acc i a p)) = map unkeyed (accounts p)"
  by (simp add: set_acc_def acc_def map_update list_update_same_conv)

lemma unkeyed_circuit_key:
  "i < length (accounts p) \<Longrightarrow> map unkeyed (accounts (snd (getAccountCircuitKey env i p))) = map unkeyed (accounts p)"
  by (auto simp: getAccountCircuitKey_def Let_def unkeyed_set_acc unkeyed_def split: option.split)

lemma unkeyed_snapshot_step:
  assumes "i < length (accounts p)"
  shows "map unkeyed (accounts (snapshot_step env i p)) = map unkeyed (accounts p)"
proof -
  have "map unkeyed (accounts (snd (tracker_key_at env i p))) = map unkeyed (accounts p)"
    using assms by (simp add: tracker_key_at_def getRuntimeTrackerKey_alt unkeyed_set_acc unkeyed_def)
  moreover from map_eq_imp_length_eq [OF this] assms have "i < length (accounts (snd (tracker_key_at env i p)))" by simp
  ultimately show ?thesis by (simp add: snapshot_step_def unkeyed_circuit_key)
qed

lemma unkeyed_snapshot:
  assumes "getAccountsSnapshot env st = (as, st')"
  shows "map unkeyed (accounts (ch_pool st')) = map unkeyed (accounts (ch_pool st))"
proof -
  have "map unkeyed (accounts (fold (snapshot_step env) is p)) = map unkeyed (accounts p)"
    if "\<forall>i \<in> set is. i < length (accounts p)" for "is" p
    using that
  proof (induction "is" arbitrary: p)
    case (Cons i "is")
    have s: "map unkeyed (accounts (snapshot_step env i p)) = map unkeyed (accounts p)"
      using Cons.prems by (intro unkeyed_snapshot_step) simp
    from Cons.IH [of "snapshot_step env i p"] map_eq_imp_length_eq [OF s] Cons.prems s show ?case by simp
  qed simp
  from this [of "[0..<length (accounts (ch_pool st))]" "ch_pool st"] assms show ?thesis
    by (auto simp: getAccountsSnapshot_def Let_def)
qed

lemma credentialReason_unkeyed:
  assumes "map unkeyed (accounts q) = map unkeyed (accounts p)"
  shows "credentialReason now prm q k = credentialReason now prm p k"
proof -
  have len: "length (accounts q) = length (accounts p)" using assms by (rule map_eq_imp_length_eq)
  show ?thesis
  proof (cases "0 \<le> k \<and> k < int (length (accounts p))")
    case True
    then have "nat k < length (accounts p)" by linarith
    then have "unkeyed (acc q (nat k)) = unkeyed (acc p (nat k))"
      using assms len by (metis acc_def nth_map)
    note same = unkeyed_fields [OF this]
    have "hasEnabledWorkspaces (acc q (nat k)) = hasEnabledWorkspaces (acc p (nat k))"
        "isAccountAuthInvalidated (acc q (nat k)) = isAccountAuthInvalidated (acc p (nat k))"
      using same by (simp_all add: hasEnabledWorkspaces_def tracked_workspaces_def isAccountAuthInvalidated_def)
    with True same show ?thesis by (simp add: credentialReason_def len Let_def)
  next
    case False
    then show ?thesis by (auto simp: credentialReason_def len)
  qed
qed

lemma pick_member:
  assumes "cs \<noteq> []"
  shows "\<exists>i. transcription_pick prm cs = Some i \<and> i \<in> set cs
    \<and> (\<forall>pr. Option.bind (tp_policy prm) rp_priorityByAccount = Some pr \<longrightarrow> (\<forall>j \<in> set cs. priority_of pr i \<le> priority_of pr j))"
proof -
  define cs' where "cs' = (case Option.bind (tp_policy prm) rp_priorityByAccount of None \<Rightarrow> cs
      | Some pr \<Rightarrow> filter (\<lambda>i. priority_of pr i = Min (priority_of pr ` set cs)) cs)"
  have sub: "set cs' \<subseteq> set cs" by (auto simp: cs'_def split: option.splits)
  have low: "priority_of pr i \<le> priority_of pr j"
    if "i \<in> set cs'" "j \<in> set cs" "Option.bind (tp_policy prm) rp_priorityByAccount = Some pr" for i j pr
    using that by (auto simp: cs'_def)
  have ne: "cs' \<noteq> []"
  proof (cases "Option.bind (tp_policy prm) rp_priorityByAccount")
    case (Some pr)
    have "Min (priority_of pr ` set cs) \<in> priority_of pr ` set cs" using assms by (intro Min_in) auto
    then show ?thesis by (auto simp: cs'_def Some filter_empty_conv)
  qed (use assms in \<open>simp add: cs'_def\<close>)
  define cs'' where "cs'' = (case tp_startIndex prm of
       Some s \<Rightarrow> if length cs' > 1 then filter (\<lambda>i. int i \<ge> s) cs' @ filter (\<lambda>i. int i < s) cs' else cs' | None \<Rightarrow> cs')"
  have set'': "set cs'' = set cs'" by (auto simp: cs''_def split: option.splits)
  with ne obtain j js where j: "cs'' = j # js" by (cases cs'') auto
  have pick: "transcription_pick prm cs = (if tp_preferredIndex prm \<in> Some ` int ` set cs' then map_option nat (tp_preferredIndex prm)
      else (case cs'' of [] \<Rightarrow> None | i # _ \<Rightarrow> Some i))"
    unfolding transcription_pick_def Let_def cs''_def cs'_def ..
  have "j \<in> set cs'" using j set'' by auto
  then show ?thesis using sub low by (auto simp: pick j)
qed

definition transcription_free :: "jsnum \<Rightarrow> transcription_params \<Rightarrow> pool \<Rightarrow> nat \<Rightarrow> bool" where
  "transcription_free now prm p i \<longleftrightarrow> credentialReason now prm p (int i) = None"

lemma credential_bound:
  "credentialReason now prm p k = None \<Longrightarrow> 0 \<le> k \<and> k < int (length (accounts p)) \<and> getAccountByIndex p (Finite (of_int k)) = Some (nat k)"
  by (auto simp: credentialReason_def split: if_splits)

lemma transcription_eligible_alt:
  "fst (transcription_eligible now prm p k skips) = (if credentialReason now prm p k = None then Some (nat k) else None)"
  using credential_bound [of now prm p k] by (auto simp: transcription_eligible_def split: option.splits)

lemma transcription_unpinned:
  assumes "good env (ch_pool st)" and "tp_pinnedIndex prm = None"
    and "\<forall>k. tp_fallbackPinnedIndex prm = Some k \<longrightarrow> credentialReason now prm (ch_pool st) k \<noteq> None"
  shows "\<exists>st' skips'. chooseTranscriptionAccount env now prm st skips =
      (transcription_pick prm (filter (transcription_free now prm (ch_pool st)) [0..<length (accounts (ch_pool st))]), st', skips')
    \<and> since env now st st'"
proof -
  let ?cs = "filter (transcription_free now prm (ch_pool st)) [0..<length (accounts (ch_pool st))]"
  obtain st1 where st1: "getAccountsSnapshot env st = (accounts (ch_pool st1), st1)" "since env now st st1"
    using since_snapshot [OF assms(1) since_refl [OF assms(1)]] by blast
  obtain st2 where st2: "getAccountsSnapshot env st1 = (accounts (ch_pool st2), st2)" "since env now st st2"
    using since_snapshot [OF assms(1) st1(2)] by blast
  obtain skips1 where fb: "(case tp_fallbackPinnedIndex prm of
        Some pin \<Rightarrow> transcription_eligible now prm (ch_pool st) pin skips | None \<Rightarrow> (None, skips)) = (None, skips1)"
  proof (cases "tp_fallbackPinnedIndex prm")
    case (Some k)
    with assms(3) obtain r where "credentialReason now prm (ch_pool st) k = Some r" by auto
    with Some that show ?thesis by (simp add: transcription_eligible_def)
  qed simp
  have len: "length (accounts (ch_pool st1)) = length (accounts (ch_pool st))"
    using st1(2) by (auto simp: since_def intro: quiet_length)
  have cs: "filter (\<lambda>i. credentialReason now prm (ch_pool st1) (int i) = None) (map ma_index (accounts (ch_pool st1))) = ?cs"
    unfolding good_indexes [OF since_good [OF assms(1) st1(2)]] len credentialReason_unkeyed [OF unkeyed_snapshot [OF st1(1)]]
    unfolding transcription_free_def ..
  show ?thesis
  proof (cases "?cs = []")
    case True
    have "transcription_pick prm [] = None" by (simp add: transcription_pick_def Let_def split: option.split)
    with True st1 st2 show ?thesis
      by (simp add: chooseTranscriptionAccount_def assms(2) fb cs [unfolded True] True Let_def)
  next
    case False
    then obtain i where i: "transcription_pick prm ?cs = Some i" "i \<in> set ?cs" using pick_member by blast
    then have "i < length (accounts (ch_pool st1))" using len by simp
    with False i st1 show ?thesis
      by (simp add: chooseTranscriptionAccount_def assms(2) fb cs Let_def)
  qed
qed

text \<open>
  Transcription looks at credentials and policy alone: with a hard pin the result is the pinned
  account if nothing bars it, otherwise none; a soft pin that nothing bars is taken first; and
  the remaining choice finds an account exactly when some account is not barred, of minimal
  priority number among those when priorities are given.  Rate limits, breakers and cursors of
  the inference path are neither asked nor changed.
\<close>

theorem transcription_exact:
  assumes "good env (ch_pool st)"
  shows "case chooseTranscriptionAccount env now prm st skips of (r, st', skips') \<Rightarrow>
      since env now st st'
    \<and> (case tp_pinnedIndex prm of
         Some pin \<Rightarrow> r = (if credentialReason now prm (ch_pool st) pin = None then Some (nat pin) else None)
       | None \<Rightarrow>
           (case r of
              None \<Rightarrow> \<forall>i. \<not> transcription_free now prm (ch_pool st) i
            | Some i \<Rightarrow> transcription_free now prm (ch_pool st) i)
         \<and> (\<forall>k. tp_fallbackPinnedIndex prm = Some k \<and> credentialReason now prm (ch_pool st) k = None \<longrightarrow> r = Some (nat k))
         \<and> ((\<forall>k. tp_fallbackPinnedIndex prm = Some k \<longrightarrow> credentialReason now prm (ch_pool st) k \<noteq> None) \<longrightarrow>
             (\<forall>i pr j. r = Some i \<and> Option.bind (tp_policy prm) rp_priorityByAccount = Some pr
                \<and> transcription_free now prm (ch_pool st) j \<longrightarrow> priority_of pr i \<le> priority_of pr j)))"
proof (cases "tp_pinnedIndex prm")
  case (Some pin)
  with since_refl [OF assms] show ?thesis
    using transcription_eligible_alt [of now prm "ch_pool st" pin skips]
    by (auto simp: chooseTranscriptionAccount_def split: prod.splits)
next
  case None
  let ?free = "transcription_free now prm (ch_pool st)"
  have bound: "i < length (accounts (ch_pool st))" if "?free i" for i
    using that credential_bound [of now prm "ch_pool st" "int i"] by (simp add: transcription_free_def)
  show ?thesis
  proof (cases "\<exists>k. tp_fallbackPinnedIndex prm = Some k \<and> credentialReason now prm (ch_pool st) k = None")
    case True
    then obtain k where k: "tp_fallbackPinnedIndex prm = Some k" "credentialReason now prm (ch_pool st) k = None" by blast
    have "chooseTranscriptionAccount env now prm st skips = (Some (nat k), st, skips)"
      using k credential_bound [OF k(2)] None by (simp add: chooseTranscriptionAccount_def transcription_eligible_def)
    with k None since_refl [OF assms] credential_bound [OF k(2)] show ?thesis by (simp add: transcription_free_def)
  next
    case False
    let ?cs = "filter ?free [0..<length (accounts (ch_pool st))]"
    have none: "\<forall>k. tp_fallbackPinnedIndex prm = Some k \<longrightarrow> credentialReason now prm (ch_pool st) k \<noteq> None"
      using False by auto
    obtain st' skips' where r: "chooseTranscriptionAccount env now prm st skips = (transcription_pick prm ?cs, st', skips')"
        "since env now st st'"
      using transcription_unpinned [OF assms None none, of skips] by blast
    show ?thesis
    proof (cases "?cs = []")
      case True
      then have "\<forall>i. \<not> ?free i" using bound by (auto simp: filter_empty_conv)
      moreover have "transcription_pick prm ?cs = None" unfolding True
        by (simp add: transcription_pick_def Let_def split: option.split)
      ultimately show ?thesis using r False None by simp
    next
      case ne: False
      from pick_member [OF ne, of prm] bound r False None show ?thesis by (auto simp: split: option.splits)
    qed
  qed
qed

definition demo_transcription :: transcription_params where
  "demo_transcription = \<lparr>tp_attemptedIndexes = {0}, tp_policy = None, tp_pinnedIndex = None, tp_rateLimitUntil = [],
     tp_startIndex = Some 2, tp_preferredIndex = None, tp_fallbackPinnedIndex = Some 0\<rparr>"

theorem transcription_exact_witness:
  "fst (chooseTranscriptionAccount demo_env 1000 demo_transcription demo_chooser []) \<noteq> None"
proof -
  have "transcription_free 1000 demo_transcription demo_pool 1"
    by (simp add: transcription_free_def credentialReason_def acc_def demo_pool_def demo_account_def demo_transcription_def
        hasEnabledWorkspaces_def tracked_workspaces_def isAccountAuthInvalidated_def jm_get_def getAccountByIndex_def js_floor_def)
  moreover have "tp_pinnedIndex demo_transcription = None" by (simp add: demo_transcription_def)
  ultimately show ?thesis
    using transcription_exact [OF demo_good, of 1000 demo_transcription "[]"]
    by (auto simp: demo_chooser_def split: prod.splits option.splits)
qed

end
