(* ===== verification/ModelMap.thy ===== *)
theory ModelMap
  imports JsMap
begin

text \<open>
  Model identifiers (\<open>lib/request/helpers/model-map.ts\<close>): the catalogue of profiles, the table of
  aliases built when the module is loaded, the resolvers for identifiers outside the table, and the
  reasoning effort a request is sent with (\<open>lib/request/request-transformer.ts\<close>,
  \<open>lib/constants.ts\<close>).  The regular expressions are written out as functions on strings.
\<close>

section \<open>Strings and arrays\<close>

text \<open>\<open>indexOf\<close> and a read past the end of an array.\<close>

fun js_index_of :: "'a \<Rightarrow> 'a list \<Rightarrow> nat option" where
  "js_index_of x [] = None"
| "js_index_of x (y # ys) = (if y = x then Some 0 else map_option Suc (js_index_of x ys))"

definition js_at :: "'a list \<Rightarrow> nat \<Rightarrow> 'a option" where
  "js_at xs i = (if i < length xs then Some (xs ! i) else None)"

text \<open>\<open>split("/").pop()\<close>.\<close>

definition last_segment :: "string \<Rightarrow> string" where
  "last_segment s = rev (takeWhile (\<lambda>c. c \<noteq> CHR ''/'') (rev s))"

text \<open>\<open>s.replace(/(e1|e2|...)$/i, "")\<close>.\<close>

definition strip_ending :: "string list \<Rightarrow> string \<Rightarrow> string" where
  "strip_ending ends s =
     (case List.find (\<lambda>e. suffix e (js_lower s)) ends of None \<Rightarrow> s | Some e \<Rightarrow> take (length s - length e) s)"

definition is_alnum :: "char \<Rightarrow> bool" where
  "is_alnum c \<longleftrightarrow> (97 \<le> (of_char c :: nat) \<and> (of_char c :: nat) \<le> 122) \<or> is_digit c"

section \<open>The catalogue\<close>

datatype reasoning_effort = EffNone | EffMinimal | EffLow | EffMedium | EffHigh | EffXhigh | EffMax | EffUltra

fun effort_name :: "reasoning_effort \<Rightarrow> string" where
  "effort_name EffNone = ''none''"
| "effort_name EffMinimal = ''minimal''"
| "effort_name EffLow = ''low''"
| "effort_name EffMedium = ''medium''"
| "effort_name EffHigh = ''high''"
| "effort_name EffXhigh = ''xhigh''"
| "effort_name EffMax = ''max''"
| "effort_name EffUltra = ''ultra''"

definition REASONING_EFFORTS :: "reasoning_effort list" where
  "REASONING_EFFORTS = [EffNone, EffMinimal, EffLow, EffMedium, EffHigh, EffXhigh, EffMax, EffUltra]"

definition REASONING_VARIANTS :: "reasoning_effort list" where
  "REASONING_VARIANTS = [EffNone, EffMinimal, EffLow, EffMedium, EffHigh, EffXhigh]"

datatype prompt_family = FamGpt5Codex | FamCodexMax | FamCodex | FamGpt52 | FamGpt51

record model_capabilities =
  mc_toolSearch :: bool
  mc_computerUse :: bool
  mc_compaction :: bool

record model_profile =
  mp_normalizedModel :: string
  mp_promptFamily :: prompt_family
  mp_defaultReasoningEffort :: reasoning_effort
  mp_supportedReasoningEfforts :: "reasoning_effort list"
  mp_capabilities :: model_capabilities

definition CAPABILITIES_FULL :: model_capabilities where
  "CAPABILITIES_FULL = \<lparr>mc_toolSearch = True, mc_computerUse = True, mc_compaction = True\<rparr>"

abbreviation "GPT_5_6_SOL_MODEL \<equiv> ''gpt-5.6-sol''"
abbreviation "GPT_5_6_TERRA_MODEL \<equiv> ''gpt-5.6-terra''"
abbreviation "GPT_5_6_LUNA_MODEL \<equiv> ''gpt-5.6-luna''"
abbreviation "GPT_6_ASTRA_MODEL \<equiv> ''gpt-6-astra''"
abbreviation "GPT_6_SOL_MODEL \<equiv> ''gpt-6-sol''"
abbreviation "GPT_6_LUNA_MODEL \<equiv> ''gpt-6-luna''"
abbreviation "GPT_6_1_SOL_MODEL \<equiv> ''gpt-6.1-sol''"
abbreviation "GPT_6_1_TERRA_MODEL \<equiv> ''gpt-6.1-terra''"
abbreviation "GPT_RESERVE_MODEL \<equiv> ''gpt-reserve''"
abbreviation "DAYBREAK_BLUE_MODEL \<equiv> ''gpt-daybreak-blue-latest''"
abbreviation "DAYBREAK_RED_MODEL \<equiv> ''gpt-daybreak-red-latest''"
abbreviation "CURRENT_CODEX_MODEL \<equiv> ''gpt-5.6-sol''"
abbreviation "CODEX_MINI_REPLACEMENT_MODEL \<equiv> ''gpt-5.6-terra''"

definition DEFAULT_MODEL :: string where
  "DEFAULT_MODEL = ''gpt-6.1-sol''"

text \<open>The two ladders every model of the catalogue has one of.\<close>

definition GPT_5_6_SOL_TERRA_EFFORTS :: "reasoning_effort list" where
  "GPT_5_6_SOL_TERRA_EFFORTS = [EffLow, EffMedium, EffHigh, EffXhigh, EffMax, EffUltra]"

definition GPT_5_6_LUNA_EFFORTS :: "reasoning_effort list" where
  "GPT_5_6_LUNA_EFFORTS = [EffLow, EffMedium, EffHigh, EffXhigh, EffMax]"

definition GPT_6_ASTRA_EFFORTS :: "reasoning_effort list" where
  "GPT_6_ASTRA_EFFORTS = [EffLow, EffMedium, EffHigh, EffXhigh, EffMax, EffUltra]"

definition GPT_6_LUNA_EFFORTS :: "reasoning_effort list" where
  "GPT_6_LUNA_EFFORTS = [EffLow, EffMedium, EffHigh, EffXhigh, EffMax]"

definition DAYBREAK_EFFORTS :: "reasoning_effort list" where
  "DAYBREAK_EFFORTS = [EffLow, EffMedium, EffHigh, EffXhigh, EffMax, EffUltra]"

definition profile_row :: "string \<Rightarrow> reasoning_effort \<Rightarrow> reasoning_effort list \<Rightarrow> string \<times> model_profile" where
  "profile_row m effort efforts =
     (m, \<lparr>mp_normalizedModel = m, mp_promptFamily = FamGpt52, mp_defaultReasoningEffort = effort,
          mp_supportedReasoningEfforts = efforts, mp_capabilities = CAPABILITIES_FULL\<rparr>)"

definition MODEL_PROFILES :: "(string, model_profile) jsmap" where
  "MODEL_PROFILES =
     [profile_row GPT_6_ASTRA_MODEL EffLow GPT_6_ASTRA_EFFORTS,
      profile_row GPT_6_1_SOL_MODEL EffLow GPT_6_ASTRA_EFFORTS,
      profile_row GPT_6_1_TERRA_MODEL EffLow GPT_6_ASTRA_EFFORTS,
      profile_row GPT_6_SOL_MODEL EffMedium GPT_6_ASTRA_EFFORTS,
      profile_row GPT_6_LUNA_MODEL EffMedium GPT_6_LUNA_EFFORTS,
      profile_row GPT_RESERVE_MODEL EffMedium GPT_6_LUNA_EFFORTS,
      profile_row DAYBREAK_BLUE_MODEL EffLow DAYBREAK_EFFORTS,
      profile_row DAYBREAK_RED_MODEL EffMedium DAYBREAK_EFFORTS,
      profile_row GPT_5_6_SOL_MODEL EffLow GPT_5_6_SOL_TERRA_EFFORTS,
      profile_row GPT_5_6_TERRA_MODEL EffMedium GPT_5_6_SOL_TERRA_EFFORTS,
      profile_row GPT_5_6_LUNA_MODEL EffMedium GPT_5_6_LUNA_EFFORTS]"

section \<open>The table of aliases\<close>

type_synonym model_map = "(string, string) jsmap"

definition addAlias :: "string \<Rightarrow> string \<Rightarrow> model_map \<Rightarrow> model_map" where
  "addAlias alias normalizedModel m = jm_set alias normalizedModel m"

text \<open>The loop \<open>for (const effort of efforts) addAlias(`${alias}-${effort}`, model)\<close>.\<close>

definition addEffortAliases :: "string \<Rightarrow> string \<Rightarrow> reasoning_effort list \<Rightarrow> model_map \<Rightarrow> model_map" where
  "addEffortAliases alias normalizedModel efforts m =
     fold (\<lambda>effort. addAlias (alias @ ''-'' @ effort_name effort) normalizedModel) efforts (addAlias alias normalizedModel m)"

definition addReasoningAliases :: "string \<Rightarrow> string \<Rightarrow> model_map \<Rightarrow> model_map" where
  "addReasoningAliases alias normalizedModel = addEffortAliases alias normalizedModel REASONING_VARIANTS"

definition addGpt56Aliases :: "model_map \<Rightarrow> model_map" where
  "addGpt56Aliases m =
     addEffortAliases ''gpt-5.6'' GPT_5_6_SOL_MODEL GPT_5_6_SOL_TERRA_EFFORTS
     (addEffortAliases GPT_5_6_LUNA_MODEL GPT_5_6_LUNA_MODEL GPT_5_6_LUNA_EFFORTS
     (addEffortAliases GPT_5_6_TERRA_MODEL GPT_5_6_TERRA_MODEL GPT_5_6_SOL_TERRA_EFFORTS
     (addEffortAliases GPT_5_6_SOL_MODEL GPT_5_6_SOL_MODEL GPT_5_6_SOL_TERRA_EFFORTS m)))"

definition addGpt6Aliases :: "model_map \<Rightarrow> model_map" where
  "addGpt6Aliases m =
     addEffortAliases GPT_6_1_TERRA_MODEL GPT_6_1_TERRA_MODEL GPT_6_ASTRA_EFFORTS
     (addEffortAliases ''gpt-6.1'' GPT_6_1_SOL_MODEL GPT_6_ASTRA_EFFORTS
     (addEffortAliases GPT_6_1_SOL_MODEL GPT_6_1_SOL_MODEL GPT_6_ASTRA_EFFORTS
     (addEffortAliases GPT_RESERVE_MODEL GPT_RESERVE_MODEL GPT_6_LUNA_EFFORTS
     (addEffortAliases GPT_6_LUNA_MODEL GPT_6_LUNA_MODEL GPT_6_LUNA_EFFORTS
     (addEffortAliases GPT_6_SOL_MODEL GPT_6_SOL_MODEL GPT_6_ASTRA_EFFORTS
     (addEffortAliases ''astra-aeon'' GPT_6_ASTRA_MODEL GPT_6_ASTRA_EFFORTS
     (addEffortAliases ''astra'' GPT_6_ASTRA_MODEL GPT_6_ASTRA_EFFORTS
     (addEffortAliases ''gpt-6'' GPT_6_ASTRA_MODEL GPT_6_ASTRA_EFFORTS
     (addEffortAliases GPT_6_ASTRA_MODEL GPT_6_ASTRA_MODEL GPT_6_ASTRA_EFFORTS m)))))))))"

definition addDaybreakAliases :: "model_map \<Rightarrow> model_map" where
  "addDaybreakAliases m =
     addEffortAliases ''daybreak-red'' DAYBREAK_RED_MODEL DAYBREAK_EFFORTS
     (addEffortAliases ''daybreak-blue'' DAYBREAK_BLUE_MODEL DAYBREAK_EFFORTS
     (addEffortAliases DAYBREAK_RED_MODEL DAYBREAK_RED_MODEL DAYBREAK_EFFORTS
     (addEffortAliases DAYBREAK_BLUE_MODEL DAYBREAK_BLUE_MODEL DAYBREAK_EFFORTS m)))"

definition addGeneralAliases :: "model_map \<Rightarrow> model_map" where
  "addGeneralAliases m =
     addReasoningAliases ''gpt-5'' GPT_5_6_SOL_MODEL (addReasoningAliases ''gpt-5-pro'' GPT_6_ASTRA_MODEL m)"

definition RETIRED_GENERAL_MODEL_REPLACEMENTS :: "(string \<times> string) list" where
  "RETIRED_GENERAL_MODEL_REPLACEMENTS =
     [(''gpt-6-astra-aeon'', GPT_6_ASTRA_MODEL), (''gpt-5.5'', GPT_6_SOL_MODEL), (''gpt-5.5-2026-04-23'', GPT_6_SOL_MODEL),
      (''gpt-5.5-20260423'', GPT_6_SOL_MODEL), (''gpt-5.5-pro'', GPT_6_ASTRA_MODEL),
      (''gpt-5.5-pro-2026-04-23'', GPT_6_ASTRA_MODEL), (''gpt-5.5-pro-20260423'', GPT_6_ASTRA_MODEL),
      (''gpt-5.4'', GPT_6_SOL_MODEL), (''gpt-5.4-mini'', GPT_6_LUNA_MODEL), (''gpt-5.4-nano'', GPT_6_LUNA_MODEL),
      (''gpt-5.4-pro'', GPT_6_ASTRA_MODEL), (''gpt-5.2'', GPT_5_6_SOL_MODEL), (''gpt-5.2-pro'', GPT_6_ASTRA_MODEL),
      (''gpt-5.1'', GPT_5_6_SOL_MODEL), (''gpt-5-mini'', GPT_5_6_TERRA_MODEL), (''gpt-5-nano'', GPT_5_6_LUNA_MODEL),
      (''gpt-5-chat-latest'', GPT_5_6_SOL_MODEL), (''gpt-5.1-chat-latest'', GPT_5_6_SOL_MODEL),
      (''gpt-5.2-chat-latest'', GPT_5_6_SOL_MODEL), (''gpt-5.3-chat-latest'', GPT_5_6_SOL_MODEL)]"

definition RETIRED_CODEX_MODEL_REPLACEMENTS :: "(string \<times> string) list" where
  "RETIRED_CODEX_MODEL_REPLACEMENTS =
     [(''gpt-5.3-codex'', CURRENT_CODEX_MODEL), (''gpt-5.3-codex-spark'', CURRENT_CODEX_MODEL),
      (''gpt-5.2-codex'', CURRENT_CODEX_MODEL), (''gpt-5.1-codex'', CURRENT_CODEX_MODEL),
      (''gpt-5.1-codex-max'', CURRENT_CODEX_MODEL), (''gpt-5-codex'', CURRENT_CODEX_MODEL), (''codex-max'', CURRENT_CODEX_MODEL),
      (''gpt-5.1-codex-mini'', CODEX_MINI_REPLACEMENT_MODEL), (''gpt-5-codex-mini'', CODEX_MINI_REPLACEMENT_MODEL),
      (''codex-mini-latest'', CODEX_MINI_REPLACEMENT_MODEL)]"

definition RETIRED_MODEL_REPLACEMENTS :: "(string \<times> string) list" where
  "RETIRED_MODEL_REPLACEMENTS = RETIRED_GENERAL_MODEL_REPLACEMENTS @ RETIRED_CODEX_MODEL_REPLACEMENTS"

definition addRetiredAliases :: "model_map \<Rightarrow> model_map" where
  "addRetiredAliases m =
     addAlias ''gpt_5_codex'' CURRENT_CODEX_MODEL
       (fold (\<lambda>(retired, replacement). addReasoningAliases retired replacement) RETIRED_MODEL_REPLACEMENTS m)"

definition MODEL_MAP :: model_map where
  "MODEL_MAP = addDaybreakAliases (addGpt6Aliases (addGpt56Aliases (addGeneralAliases (addRetiredAliases []))))"

section \<open>Resolving an identifier\<close>

definition stripProviderPrefix :: "string \<Rightarrow> string" where
  "stripProviderPrefix modelId = (if CHR ''/'' \<in> set modelId then last_segment modelId else modelId)"

text \<open>\<open>split(/[^a-z0-9]+/).filter(Boolean)\<close>.\<close>

function split_tokens :: "string \<Rightarrow> string list" where
  "split_tokens [] = []"
| "split_tokens (c # cs) =
     (if is_alnum c then (c # takeWhile is_alnum cs) # split_tokens (dropWhile is_alnum cs) else split_tokens cs)"
  by pat_completeness auto
termination by (relation "measure length") (auto simp: le_imp_less_Suc length_dropWhile_le)

definition tokenizeModelId :: "string \<Rightarrow> string list" where
  "tokenizeModelId modelId = split_tokens (js_lower modelId)"

text \<open>\<open>/codex[- ]mini(?!mal)/\<close>.\<close>

definition names_codex_mini :: "string \<Rightarrow> bool" where
  "names_codex_mini s \<longleftrightarrow>
     list_ex (\<lambda>t. (prefix ''codex-mini'' t \<or> prefix ''codex mini'' t) \<and> \<not> prefix ''mal'' (drop 10 t)) (suffixes s)"

definition resolveCodexCatalogModel :: "string \<Rightarrow> string option" where
  "resolveCodexCatalogModel modelId =
     (let normalized = js_lower modelId
      in if \<not> js_includes normalized ''codex'' then None
         else if names_codex_mini normalized then Some CODEX_MINI_REPLACEMENT_MODEL
         else Some CURRENT_CODEX_MODEL)"

definition resolveGpt6CatalogModel :: "string \<Rightarrow> string option" where
  "resolveGpt6CatalogModel modelId =
     (let tokens = tokenizeModelId modelId;
          gptIndex = js_index_of ''gpt'' tokens;
          versionToken = Option.bind gptIndex (\<lambda>i. js_at tokens (i + 1));
          gpt6Index = js_index_of ''gpt6'' tokens;
          isGpt6 = (versionToken = Some ''6'' \<or> gpt6Index \<noteq> None);
          isGpt61 = ((isGpt6 \<and> Option.bind gptIndex (\<lambda>i. js_at tokens (i + 2)) = Some ''1'')
                     \<or> Option.bind gpt6Index (\<lambda>i. js_at tokens (i + 1)) = Some ''1'');
          namesOtherGptVersion = (case versionToken of None \<Rightarrow> False | Some v \<Rightarrow> all_digits v \<and> v \<noteq> ''6'');
          isAstra = (''astra'' \<in> set tokens \<and> \<not> namesOtherGptVersion)
      in if (\<not> isGpt6 \<and> \<not> isAstra) \<or> ''codex'' \<in> set tokens then None
         else if ''aeon'' \<in> set tokens then Some GPT_6_ASTRA_MODEL
         else if isAstra then Some GPT_6_ASTRA_MODEL
         else if isGpt61 then Some (if ''terra'' \<in> set tokens then GPT_6_1_TERRA_MODEL else GPT_6_1_SOL_MODEL)
         else if ''luna'' \<in> set tokens then Some GPT_6_LUNA_MODEL
         else if ''sol'' \<in> set tokens \<or> ''terra'' \<in> set tokens then Some GPT_6_SOL_MODEL
         else Some GPT_6_ASTRA_MODEL)"

definition resolveDaybreakCatalogModel :: "string \<Rightarrow> string option" where
  "resolveDaybreakCatalogModel modelId =
     (let tokens = tokenizeModelId modelId
      in if ''daybreak'' \<notin> set tokens then None
         else if ''red'' \<in> set tokens then Some DAYBREAK_RED_MODEL
         else Some DAYBREAK_BLUE_MODEL)"

definition resolveGpt56CatalogModel :: "string \<Rightarrow> string option" where
  "resolveGpt56CatalogModel modelId =
     (let tokens = tokenizeModelId modelId;
          gptIndex = js_index_of ''gpt'' tokens;
          isGpt56 = (Option.bind gptIndex (\<lambda>i. js_at tokens (i + 1)) = Some ''5''
                     \<and> Option.bind gptIndex (\<lambda>i. js_at tokens (i + 2)) = Some ''6'')
      in if \<not> isGpt56 \<or> ''codex'' \<in> set tokens then None
         else if ''terra'' \<in> set tokens then Some GPT_5_6_TERRA_MODEL
         else if ''luna'' \<in> set tokens then Some GPT_5_6_LUNA_MODEL
         else Some GPT_5_6_SOL_MODEL)"

datatype gpt5_variant = VarBase | VarPro | VarMini | VarNano

definition GENERAL_GPT5_VERSION_CATALOG :: "nat \<Rightarrow> (gpt5_variant \<times> string) list option" where
  "GENERAL_GPT5_VERSION_CATALOG minor = map_of
     [(1, [(VarBase, GPT_5_6_SOL_MODEL), (VarPro, GPT_6_ASTRA_MODEL)]),
      (2, [(VarBase, GPT_5_6_SOL_MODEL), (VarPro, GPT_6_ASTRA_MODEL)]),
      (4, [(VarBase, GPT_6_SOL_MODEL), (VarPro, GPT_6_ASTRA_MODEL), (VarMini, GPT_6_LUNA_MODEL), (VarNano, GPT_6_LUNA_MODEL)]),
      (5, [(VarBase, GPT_6_SOL_MODEL), (VarPro, GPT_6_ASTRA_MODEL), (VarMini, GPT_5_6_TERRA_MODEL),
           (VarNano, GPT_5_6_LUNA_MODEL)])] minor"

fun GENERAL_GPT5_STABLE_VARIANTS :: "gpt5_variant \<Rightarrow> string" where
  "GENERAL_GPT5_STABLE_VARIANTS VarBase = GPT_5_6_SOL_MODEL"
| "GENERAL_GPT5_STABLE_VARIANTS VarPro = GPT_6_ASTRA_MODEL"
| "GENERAL_GPT5_STABLE_VARIANTS VarMini = GPT_5_6_TERRA_MODEL"
| "GENERAL_GPT5_STABLE_VARIANTS VarNano = GPT_5_6_LUNA_MODEL"

fun GENERAL_GPT5_GENERIC_VARIANTS :: "gpt5_variant \<Rightarrow> string" where
  "GENERAL_GPT5_GENERIC_VARIANTS VarBase = GPT_5_6_SOL_MODEL"
| "GENERAL_GPT5_GENERIC_VARIANTS VarPro = GPT_6_ASTRA_MODEL"
| "GENERAL_GPT5_GENERIC_VARIANTS VarMini = GPT_5_6_TERRA_MODEL"
| "GENERAL_GPT5_GENERIC_VARIANTS VarNano = GPT_5_6_LUNA_MODEL"

text \<open>\<open>catalog?.[variant] ?? catalog?.base\<close>.\<close>

definition resolveGeneralGpt5CatalogVariant :: "(gpt5_variant \<times> string) list option \<Rightarrow> gpt5_variant \<Rightarrow> string option" where
  "resolveGeneralGpt5CatalogVariant catalog variant =
     (case catalog of
        None \<Rightarrow> None
      | Some c \<Rightarrow> (case map_of c variant of Some m \<Rightarrow> Some m | None \<Rightarrow> map_of c VarBase))"

definition resolveGeneralGpt5CatalogModel :: "string \<Rightarrow> string option" where
  "resolveGeneralGpt5CatalogModel modelId =
     (let tokens = tokenizeModelId modelId;
          gptIndex = js_index_of ''gpt'' tokens;
          isGpt5 = (Option.bind gptIndex (\<lambda>i. js_at tokens (i + 1)) = Some ''5'');
          minor = (case Option.bind gptIndex (\<lambda>i. js_at tokens (i + 2)) of
             None \<Rightarrow> None | Some raw \<Rightarrow> if all_digits raw then Some (read_nat raw) else None);
          variant = (if ''mini'' \<in> set tokens then VarMini else if ''nano'' \<in> set tokens then VarNano
             else if ''pro'' \<in> set tokens then VarPro else VarBase)
      in if \<not> isGpt5 \<or> ''codex'' \<in> set tokens then None
         else (case minor of
             None \<Rightarrow> Some (GENERAL_GPT5_GENERIC_VARIANTS variant)
           | Some n \<Rightarrow> Some (nullish (resolveGeneralGpt5CatalogVariant (GENERAL_GPT5_VERSION_CATALOG n) variant)
                (GENERAL_GPT5_STABLE_VARIANTS variant))))"

definition lookupMappedModel :: "string \<Rightarrow> string option" where
  "lookupMappedModel modelId =
     (if jm_has MODEL_MAP modelId then jm_get MODEL_MAP modelId
      else map_option snd (List.find (\<lambda>e. js_lower (fst e) = js_lower modelId) MODEL_MAP))"

definition getNormalizedModel :: "string \<Rightarrow> string option" where
  "getNormalizedModel modelId =
     (let stripped = stripProviderPrefix (js_trim modelId)
      in if stripped = [] then None else lookupMappedModel stripped)"

text \<open>The first resolver that answers; \<open>orElse\<close> is the chain of early returns.\<close>

fun orElse :: "'a option list \<Rightarrow> 'a \<Rightarrow> 'a" where
  "orElse [] d = d"
| "orElse (x # xs) d = (case x of Some v \<Rightarrow> v | None \<Rightarrow> orElse xs d)"

definition resolveNormalizedModel :: "string option \<Rightarrow> string" where
  "resolveNormalizedModel model =
     (let modelId = js_trim (stripProviderPrefix (nullish model []));
          withoutTopEffort = strip_ending [''-max'', ''-ultra''] modelId
      in if modelId = [] then DEFAULT_MODEL
         else orElse
           [lookupMappedModel modelId,
            if withoutTopEffort \<noteq> modelId then lookupMappedModel withoutTopEffort else None,
            resolveDaybreakCatalogModel modelId, resolveCodexCatalogModel modelId, resolveGpt6CatalogModel modelId,
            resolveGpt56CatalogModel modelId, resolveGeneralGpt5CatalogModel modelId]
           DEFAULT_MODEL)"

text \<open>The profile; the \<open>Inl\<close> branch is the error thrown when the default has no profile.\<close>

datatype model_error = DefaultModelMissing string

definition getModelProfile :: "string option \<Rightarrow> model_error + model_profile" where
  "getModelProfile model =
     (case jm_get MODEL_PROFILES (resolveNormalizedModel model) of
        Some profile \<Rightarrow> Inr profile
      | None \<Rightarrow> (case jm_get MODEL_PROFILES DEFAULT_MODEL of
          Some profile \<Rightarrow> Inr profile | None \<Rightarrow> Inl (DefaultModelMissing DEFAULT_MODEL)))"

definition isKnownModel :: "string \<Rightarrow> bool" where
  "isKnownModel modelId \<longleftrightarrow> getNormalizedModel modelId \<noteq> None"

definition EFFORT_ENDINGS :: "string list" where
  "EFFORT_ENDINGS = map (\<lambda>e. ''-'' @ effort_name e) REASONING_EFFORTS"

definition stripModelEffortSuffix :: "string \<Rightarrow> string" where
  "stripModelEffortSuffix modelId =
     (if suffix ''codex-max'' (js_lower modelId) then modelId else strip_ending EFFORT_ENDINGS modelId)"

section \<open>Reasoning effort of a request\<close>

fun REASONING_FALLBACKS :: "reasoning_effort \<Rightarrow> reasoning_effort list" where
  "REASONING_FALLBACKS EffNone = [EffNone, EffLow, EffMinimal, EffMedium, EffHigh, EffXhigh]"
| "REASONING_FALLBACKS EffMinimal = [EffMinimal, EffLow, EffNone, EffMedium, EffHigh, EffXhigh]"
| "REASONING_FALLBACKS EffLow = [EffLow, EffMinimal, EffNone, EffMedium, EffHigh, EffXhigh]"
| "REASONING_FALLBACKS EffMedium = [EffMedium, EffLow, EffHigh, EffMinimal, EffNone, EffXhigh]"
| "REASONING_FALLBACKS EffHigh = [EffHigh, EffMedium, EffXhigh, EffLow, EffMinimal, EffNone]"
| "REASONING_FALLBACKS EffXhigh = [EffXhigh, EffHigh, EffMedium, EffLow, EffMinimal, EffNone]"
| "REASONING_FALLBACKS EffMax = [EffMax, EffXhigh, EffHigh, EffMedium, EffLow, EffMinimal, EffNone]"
| "REASONING_FALLBACKS EffUltra = [EffUltra, EffMax, EffXhigh, EffHigh, EffMedium, EffLow, EffMinimal, EffNone]"

definition coerceReasoningEffort :: "reasoning_effort \<Rightarrow> reasoning_effort list \<Rightarrow> reasoning_effort \<Rightarrow> reasoning_effort" where
  "coerceReasoningEffort effort supportedEfforts defaultEffort =
     (if effort \<in> set supportedEfforts then effort
      else nullish (List.find (\<lambda>candidate. candidate \<in> set supportedEfforts) (REASONING_FALLBACKS effort)) defaultEffort)"

definition sanitizeReasoningSummary :: "string option \<Rightarrow> string" where
  "sanitizeReasoningSummary summary =
     (let normalized = js_lower (nullish summary [])
      in if normalized \<in> {''concise'', ''detailed'', ''auto''} then normalized else ''auto'')"

definition getReasoningConfig ::
  "string option \<Rightarrow> reasoning_effort option \<Rightarrow> string option \<Rightarrow> model_error + reasoning_effort \<times> string" where
  "getReasoningConfig modelName reasoningEffort reasoningSummary =
     (case getModelProfile modelName of
        Inl e \<Rightarrow> Inl e
      | Inr profile \<Rightarrow>
          let requestedEffort = nullish reasoningEffort (mp_defaultReasoningEffort profile);
              coercedEffort = coerceReasoningEffort requestedEffort (mp_supportedReasoningEfforts profile)
                (mp_defaultReasoningEffort profile)
          in Inr (if coercedEffort = EffUltra then EffMax else coercedEffort, sanitizeReasoningSummary reasoningSummary))"

definition PROBE_REASONING_EFFORT_PREFERENCE :: "reasoning_effort list" where
  "PROBE_REASONING_EFFORT_PREFERENCE = [EffNone, EffMinimal, EffLow, EffMedium, EffHigh, EffXhigh, EffMax]"

definition resolveProbeReasoningEffort :: "string option \<Rightarrow> model_error + reasoning_effort" where
  "resolveProbeReasoningEffort model =
     (case getModelProfile model of
        Inl e \<Rightarrow> Inl e
      | Inr profile \<Rightarrow> Inr
          (case List.find (\<lambda>e. e \<in> set (mp_supportedReasoningEfforts profile)) PROBE_REASONING_EFFORT_PREFERENCE of
             Some e \<Rightarrow> e
           | None \<Rightarrow> if mp_defaultReasoningEffort profile = EffUltra then EffMax else mp_defaultReasoningEffort profile))"

section \<open>Every identifier resolves into the catalogue\<close>

definition canonical :: "string \<Rightarrow> bool" where
  "canonical m \<longleftrightarrow> jm_has MODEL_PROFILES m"

lemma canonical_models:
  "canonical m \<longleftrightarrow> m \<in> {GPT_6_ASTRA_MODEL, GPT_6_1_SOL_MODEL, GPT_6_1_TERRA_MODEL, GPT_6_SOL_MODEL, GPT_6_LUNA_MODEL,
     GPT_RESERVE_MODEL, DAYBREAK_BLUE_MODEL, DAYBREAK_RED_MODEL, GPT_5_6_SOL_MODEL, GPT_5_6_TERRA_MODEL, GPT_5_6_LUNA_MODEL}"
  unfolding canonical_def jm_has_def MODEL_PROFILES_def profile_row_def by (simp only: jm_get_Cons jm_get_Nil) auto

named_theorems resolver_simps \<open>the tables and the resolvers over them\<close>

text \<open>The keys one call of \<open>addEffortAliases\<close> writes, decided along the identifier.\<close>

fun alias_match :: "string \<Rightarrow> string list \<Rightarrow> string \<Rightarrow> bool" where
  "alias_match [] ends k = (if k = [] then True else k \<in> set ends)"
| "alias_match (a # as) ends [] = False"
| "alias_match (a # as) ends (c # cs) = (if a = c then alias_match as ends cs else False)"

lemma alias_match_iff: "alias_match a ends k \<longleftrightarrow> k = a \<or> k \<in> (\<lambda>e. a @ e) ` set ends"
  by (induction a ends k rule: alias_match.induct) auto

definition effort_ends :: "reasoning_effort list \<Rightarrow> string list" where
  "effort_ends efforts = map (\<lambda>e. ''-'' @ effort_name e) efforts"

lemma get_addEffortAliases [resolver_simps]:
  "jm_get (addEffortAliases alias model efforts m) k =
     (if alias_match alias (effort_ends efforts) k then Some model else jm_get m k)"
  unfolding alias_match_iff effort_ends_def
proof (induction efforts rule: rev_induct)
  case Nil
  then show ?case by (simp add: addEffortAliases_def addAlias_def jm_get_set)
next
  case (snoc e es)
  then show ?case by (auto simp: addEffortAliases_def addAlias_def jm_get_set)
qed

lemma all_addEffortAliases:
  "jm_all (\<lambda>_. canonical) m \<Longrightarrow> canonical model \<Longrightarrow> jm_all (\<lambda>_. canonical) (addEffortAliases alias model efforts m)"
  by (induction efforts rule: rev_induct) (auto simp: addEffortAliases_def addAlias_def)

lemma all_fold_aliases:
  "list_all (\<lambda>e. canonical (snd e)) es \<Longrightarrow> jm_all (\<lambda>_. canonical) m \<Longrightarrow>
    jm_all (\<lambda>_. canonical) (fold (\<lambda>(retired, replacement). addReasoningAliases retired replacement) es m)"
proof (induction es arbitrary: m)
  case (Cons e es)
  obtain r x where e: "e = (r, x)" by (cases e)
  have "jm_all (\<lambda>_. canonical) (addReasoningAliases r x m)"
    using Cons.prems unfolding e addReasoningAliases_def by (intro all_addEffortAliases) simp_all
  with Cons.IH Cons.prems e show ?case by simp
qed simp

lemma retired_canonical: "list_all (\<lambda>e. canonical (snd e)) RETIRED_MODEL_REPLACEMENTS"
  by (simp add: RETIRED_MODEL_REPLACEMENTS_def RETIRED_GENERAL_MODEL_REPLACEMENTS_def RETIRED_CODEX_MODEL_REPLACEMENTS_def
    canonical_models)

lemma all_addRetiredAliases:
  assumes "jm_all (\<lambda>_. canonical) m"
  shows "jm_all (\<lambda>_. canonical) (addRetiredAliases m)"
  unfolding addRetiredAliases_def addAlias_def
  by (rule jm_all_set [OF all_fold_aliases [OF retired_canonical assms]]) (simp add: canonical_models)

lemma MODEL_MAP_canonical: "jm_all (\<lambda>_. canonical) MODEL_MAP"
  unfolding MODEL_MAP_def addDaybreakAliases_def addGpt6Aliases_def addGpt56Aliases_def addGeneralAliases_def addReasoningAliases_def
  by (intro all_addEffortAliases all_addRetiredAliases jm_all_Nil) (simp_all add: canonical_models)

lemma find_mem: "List.find P xs = Some x \<Longrightarrow> x \<in> set xs"
  by (auto simp: find_Some_iff)

lemma lookup_canonical: "lookupMappedModel k = Some m \<Longrightarrow> canonical m"
proof -
  assume l: "lookupMappedModel k = Some m"
  have "(k', m) \<in> set MODEL_MAP \<Longrightarrow> canonical m" for k'
    using MODEL_MAP_canonical by (auto simp: jm_all_def list_all_iff)
  moreover have "\<exists>k'. (k', m) \<in> set MODEL_MAP"
    using l by (auto simp: lookupMappedModel_def dest: jm_get_mem find_mem split: if_splits)
  ultimately show ?thesis by blast
qed

lemma codex_canonical: "resolveCodexCatalogModel k = Some m \<Longrightarrow> canonical m"
  by (auto simp: resolveCodexCatalogModel_def canonical_models Let_def split: if_splits)

lemma gpt6_canonical: "resolveGpt6CatalogModel k = Some m \<Longrightarrow> canonical m"
  unfolding resolveGpt6CatalogModel_def Let_def canonical_models by (auto split: if_splits)

lemma daybreak_canonical: "resolveDaybreakCatalogModel k = Some m \<Longrightarrow> canonical m"
  by (auto simp: resolveDaybreakCatalogModel_def canonical_models Let_def split: if_splits)

lemma gpt56_canonical: "resolveGpt56CatalogModel k = Some m \<Longrightarrow> canonical m"
  by (auto simp: resolveGpt56CatalogModel_def canonical_models Let_def split: if_splits)

lemma variants_canonical: "canonical (GENERAL_GPT5_STABLE_VARIANTS v)" "canonical (GENERAL_GPT5_GENERIC_VARIANTS v)"
  by (cases v; simp add: canonical_models)+

lemma version_catalog_canonical:
  "resolveGeneralGpt5CatalogVariant (GENERAL_GPT5_VERSION_CATALOG n) v = Some m \<Longrightarrow> canonical m"
  by (cases v) (auto simp: resolveGeneralGpt5CatalogVariant_def GENERAL_GPT5_VERSION_CATALOG_def canonical_models split: if_splits)

lemma general_canonical: "resolveGeneralGpt5CatalogModel k = Some m \<Longrightarrow> canonical m"
proof -
  have "canonical (nullish (resolveGeneralGpt5CatalogVariant (GENERAL_GPT5_VERSION_CATALOG n) v) (GENERAL_GPT5_STABLE_VARIANTS v))" for n v
    using version_catalog_canonical variants_canonical
    by (cases "resolveGeneralGpt5CatalogVariant (GENERAL_GPT5_VERSION_CATALOG n) v") auto
  then show "resolveGeneralGpt5CatalogModel k = Some m \<Longrightarrow> canonical m"
    using variants_canonical by (auto simp: resolveGeneralGpt5CatalogModel_def Let_def
        simp del: GENERAL_GPT5_STABLE_VARIANTS.simps GENERAL_GPT5_GENERIC_VARIANTS.simps split: if_splits option.splits)
qed

definition finds :: "('a \<Rightarrow> bool) \<Rightarrow> 'a option \<Rightarrow> bool" where
  "finds P x \<longleftrightarrow> (\<forall>v. x = Some v \<longrightarrow> P v)"

lemma orElse_finds: "list_all (finds P) xs \<Longrightarrow> P d \<Longrightarrow> P (orElse xs d)"
  by (induction xs) (auto simp: finds_def split: option.split)

lemma finds_canonical:
  "finds canonical (lookupMappedModel k)" "finds canonical (resolveDaybreakCatalogModel k)"
  "finds canonical (resolveCodexCatalogModel k)" "finds canonical (resolveGpt6CatalogModel k)"
  "finds canonical (resolveGpt56CatalogModel k)" "finds canonical (resolveGeneralGpt5CatalogModel k)"
  "finds canonical None"
  unfolding finds_def
  using lookup_canonical codex_canonical gpt6_canonical daybreak_canonical gpt56_canonical general_canonical by blast+

lemma default_canonical: "canonical DEFAULT_MODEL"
  by (simp add: canonical_models DEFAULT_MODEL_def)

lemma resolve_canonical: "canonical (resolveNormalizedModel model)"
proof -
  have "list_all (finds canonical)
     [lookupMappedModel k, if b then lookupMappedModel k' else None, resolveDaybreakCatalogModel k, resolveCodexCatalogModel k,
      resolveGpt6CatalogModel k, resolveGpt56CatalogModel k, resolveGeneralGpt5CatalogModel k]" for b k k'
    using finds_canonical by simp
  note orElse_finds [OF this default_canonical]
  then show ?thesis unfolding resolveNormalizedModel_def Let_def using default_canonical by simp
qed

lemma profile_exists: "\<exists>p. getModelProfile model = Inr p \<and> jm_get MODEL_PROFILES (resolveNormalizedModel model) = Some p"
  using resolve_canonical [of model] by (auto simp: canonical_def jm_has_def getModelProfile_def)

definition profile_ok :: "string \<Rightarrow> model_profile \<Rightarrow> bool" where
  "profile_ok m p \<longleftrightarrow> mp_normalizedModel p = m \<and> mp_defaultReasoningEffort p \<in> set (mp_supportedReasoningEfforts p)
    \<and> EffLow \<in> set (mp_supportedReasoningEfforts p) \<and> EffMax \<in> set (mp_supportedReasoningEfforts p)
    \<and> mp_defaultReasoningEffort p \<noteq> EffUltra"

lemma profiles_ok: "jm_all profile_ok MODEL_PROFILES"
  by (simp add: jm_all_def profile_ok_def MODEL_PROFILES_def profile_row_def GPT_6_ASTRA_EFFORTS_def GPT_6_LUNA_EFFORTS_def
    DAYBREAK_EFFORTS_def GPT_5_6_SOL_TERRA_EFFORTS_def GPT_5_6_LUNA_EFFORTS_def)

lemmas profile_row = jm_all_get [OF profiles_ok, unfolded profile_ok_def]

lemma effort_endings [resolver_simps]:
  "effort_ends REASONING_VARIANTS = [''-none'', ''-minimal'', ''-low'', ''-medium'', ''-high'', ''-xhigh'']"
  "effort_ends GPT_6_ASTRA_EFFORTS = [''-low'', ''-medium'', ''-high'', ''-xhigh'', ''-max'', ''-ultra'']"
  "effort_ends GPT_6_LUNA_EFFORTS = [''-low'', ''-medium'', ''-high'', ''-xhigh'', ''-max'']"
  "effort_ends DAYBREAK_EFFORTS = [''-low'', ''-medium'', ''-high'', ''-xhigh'', ''-max'', ''-ultra'']"
  "effort_ends GPT_5_6_SOL_TERRA_EFFORTS = [''-low'', ''-medium'', ''-high'', ''-xhigh'', ''-max'', ''-ultra'']"
  "effort_ends GPT_5_6_LUNA_EFFORTS = [''-low'', ''-medium'', ''-high'', ''-xhigh'', ''-max'']"
  by (simp_all add: effort_ends_def REASONING_VARIANTS_def GPT_6_ASTRA_EFFORTS_def GPT_6_LUNA_EFFORTS_def DAYBREAK_EFFORTS_def
    GPT_5_6_SOL_TERRA_EFFORTS_def GPT_5_6_LUNA_EFFORTS_def)

lemmas map_tables = MODEL_MAP_def addDaybreakAliases_def addGpt6Aliases_def addGpt56Aliases_def addGeneralAliases_def
  addReasoningAliases_def

lemma canonical_self: "canonical m \<Longrightarrow> jm_get MODEL_MAP m = Some m"
  unfolding canonical_models map_tables
  by (elim insertE emptyE; hypsubst; simp add: resolver_simps)

section \<open>Lookups do not depend on case, prefix or padding\<close>

definition plain :: "string \<Rightarrow> bool" where
  "plain s \<longleftrightarrow> s \<noteq> [] \<and> list_all (\<lambda>c. \<not> js_space c \<and> c \<noteq> CHR ''/'') s"

lemma trim_plain: "plain s \<Longrightarrow> js_trim s = s"
proof -
  have "dropWhile js_space xs = xs" if "list_all (\<lambda>c. \<not> js_space c) xs" for xs
    using that by (cases xs) auto
  moreover assume "plain s"
  then have "list_all (\<lambda>c. \<not> js_space c) s" "list_all (\<lambda>c. \<not> js_space c) (rev s)"
    by (auto simp: plain_def list_all_iff)
  ultimately show ?thesis by (simp add: js_trim_def)
qed

lemma strip_plain: "plain s \<Longrightarrow> stripProviderPrefix s = s"
  by (auto simp: stripProviderPrefix_def plain_def list_all_iff)

lemma strip_prefixed: "plain s \<Longrightarrow> stripProviderPrefix (p @ ''/'' @ s) = s"
proof -
  assume "plain s"
  then have "takeWhile (\<lambda>c. c \<noteq> CHR ''/'') (rev s @ CHR ''/'' # rev p) = rev s"
    by (intro takeWhile_tail [THEN trans]) (auto simp: plain_def list_all_iff takeWhile_eq_all_conv)
  then show ?thesis by (simp add: stripProviderPrefix_def last_segment_def)
qed

lemma lower_char_space: "js_space (lower_char c) \<longleftrightarrow> js_space c"
  by (auto simp: js_space_def lower_char_def Let_def)

lemma lower_char_slash: "lower_char c = CHR ''/'' \<longleftrightarrow> c = CHR ''/''"
proof -
  have "of_char (lower_char c) = (47::nat) \<longleftrightarrow> of_char c = (47::nat)" by (auto simp: lower_char_def Let_def)
  moreover have "(of_char (CHR ''/'') :: nat) = 47" by simp
  ultimately show ?thesis by (metis of_char_eq_iff)
qed

lemma plain_lower: "plain (js_lower s) \<longleftrightarrow> plain s"
  by (simp add: plain_def js_lower_def list_all_iff lower_char_space lower_char_slash)

definition lower_key :: "string \<Rightarrow> bool" where
  "lower_key k \<longleftrightarrow> js_lower k = k"

lemma lower_append: "lower_key (a @ b) \<longleftrightarrow> lower_key a \<and> lower_key b"
  by (simp add: lower_key_def js_lower_def)

lemma lower_effort: "lower_key (''-'' @ effort_name e)"
  by (cases e) (simp_all add: lower_key_def js_lower_def lower_char_def)

lemma lower_addEffortAliases:
  "jm_all (\<lambda>k _. lower_key k) m \<Longrightarrow> lower_key a \<Longrightarrow> jm_all (\<lambda>k _. lower_key k) (addEffortAliases a model efforts m)"
proof (induction efforts rule: rev_induct)
  case Nil
  then show ?case by (simp add: addEffortAliases_def addAlias_def jm_all_set)
next
  case (snoc e es)
  then have "lower_key (a @ ''-'' @ effort_name e)" using lower_effort by (simp only: lower_append)
  with snoc show ?case by (simp add: addEffortAliases_def addAlias_def jm_all_set)
qed

lemma lower_fold_aliases:
  "list_all (\<lambda>e. lower_key (fst e)) es \<Longrightarrow> jm_all (\<lambda>k _. lower_key k) m \<Longrightarrow>
    jm_all (\<lambda>k _. lower_key k) (fold (\<lambda>(retired, replacement). addReasoningAliases retired replacement) es m)"
proof (induction es arbitrary: m)
  case (Cons e es)
  obtain r x where e: "e = (r, x)" by (cases e)
  have "jm_all (\<lambda>k _. lower_key k) (addReasoningAliases r x m)"
    using Cons.prems unfolding e addReasoningAliases_def by (intro lower_addEffortAliases) simp_all
  with Cons.IH Cons.prems e show ?case by simp
qed simp

lemma retired_rows:
  "list_all (\<lambda>(r, x). lower_key r \<and> plain r \<and> \<not> canonical r) RETIRED_MODEL_REPLACEMENTS"
  by (simp add: RETIRED_MODEL_REPLACEMENTS_def RETIRED_GENERAL_MODEL_REPLACEMENTS_def RETIRED_CODEX_MODEL_REPLACEMENTS_def
    canonical_models plain_def js_space_def lower_key_def js_lower_def lower_char_def)

lemma lower_addRetiredAliases: "jm_all (\<lambda>k _. lower_key k) (addRetiredAliases [])"
proof -
  have "list_all (\<lambda>e. lower_key (fst e)) RETIRED_MODEL_REPLACEMENTS"
    using retired_rows by (auto simp: list_all_iff)
  then show ?thesis
    unfolding addRetiredAliases_def addAlias_def
    by (intro jm_all_set lower_fold_aliases jm_all_Nil) (simp_all add: lower_key_def js_lower_def lower_char_def)
qed

lemma lower_keys: "jm_all (\<lambda>k _. lower_key k) MODEL_MAP"
  unfolding map_tables
  by (intro lower_addEffortAliases lower_addRetiredAliases) (simp_all add: lower_key_def js_lower_def lower_char_def)

lemma find_key:
  "jm_all (\<lambda>k _. lower_key k) m \<Longrightarrow>
    map_option snd (List.find (\<lambda>e. js_lower (fst e) = l) m) = (jm_get m l :: string option)"
  by (induction m) (auto simp: jm_all_def lower_key_def)

lemma js_lower_idem [simp]: "js_lower (js_lower s) = js_lower s"
proof -
  have "lower_char (lower_char c) = lower_char c" for c
    by (auto simp: lower_char_def Let_def)
  then show ?thesis by (simp add: js_lower_def)
qed

lemma lookup_lower: "lookupMappedModel k = jm_get MODEL_MAP (js_lower k)"
proof (cases "jm_has MODEL_MAP k")
  case True
  then have "js_lower k = k"
    using lower_keys by (auto simp: jm_has_def lower_key_def dest: jm_all_get)
  with True show ?thesis by (simp add: lookupMappedModel_def)
next
  case False
  then show ?thesis by (simp add: lookupMappedModel_def find_key [OF lower_keys])
qed

section \<open>Retired identifiers\<close>

lemma get_addAlias [resolver_simps]: "jm_get (addAlias a v m) k = (if k = a then Some v else jm_get m k)"
  by (simp add: addAlias_def jm_get_set)

text \<open>Later calls do not overwrite what an earlier one wrote for a retired identifier.\<close>

definition retired_from :: "(string \<times> string) list \<Rightarrow> string \<Rightarrow> string option" where
  "retired_from es k = map_option snd (List.find (\<lambda>(r, x). alias_match r (effort_ends REASONING_VARIANTS) k) (rev es))"

lemma get_fold_aliases:
  "jm_get (fold (\<lambda>(retired, replacement). addReasoningAliases retired replacement) es []) k = retired_from es k"
  by (induction es rule: rev_induct)
    (auto simp: retired_from_def addReasoningAliases_def get_addEffortAliases split: prod.splits)

lemma retired_endings: "list_all (\<lambda>(r, x). last r \<notin> set ''elwmh'') RETIRED_MODEL_REPLACEMENTS"
  by (simp add: RETIRED_MODEL_REPLACEMENTS_def RETIRED_GENERAL_MODEL_REPLACEMENTS_def RETIRED_CODEX_MODEL_REPLACEMENTS_def)

lemma retired_distinct: "distinct (map fst RETIRED_MODEL_REPLACEMENTS)"
  by (simp add: RETIRED_MODEL_REPLACEMENTS_def RETIRED_GENERAL_MODEL_REPLACEMENTS_def RETIRED_CODEX_MODEL_REPLACEMENTS_def)

lemma match_without_effort:
  assumes "last r \<notin> set ''elwmh''"
  shows "alias_match a (effort_ends REASONING_VARIANTS) r \<longleftrightarrow> a = r"
proof -
  have "last (a @ e) \<in> set ''elwmh''" if "e \<in> set (effort_ends REASONING_VARIANTS)" for e
    using that by (auto simp: effort_endings)
  then show ?thesis using assms unfolding alias_match_iff by auto
qed

lemma retired_lookup_aux:
  assumes "(r, x) \<in> set RETIRED_MODEL_REPLACEMENTS"
  shows "retired_from RETIRED_MODEL_REPLACEMENTS r = Some x"
proof -
  have "last r \<notin> set ''elwmh''" using assms retired_endings unfolding list_all_iff by fast
  note m = match_without_effort [OF this]
  have find: "map_option snd (List.find (\<lambda>(a, y). a = r) es) = map_of es r" for es :: "(string \<times> string) list"
    by (induction es) auto
  have "distinct (map fst (rev RETIRED_MODEL_REPLACEMENTS))" using retired_distinct by (simp add: rev_map [symmetric])
  then have "map_of (rev RETIRED_MODEL_REPLACEMENTS) r = Some x" using assms by simp
  then show ?thesis by (simp add: retired_from_def m find)
qed

definition untouched :: "string \<Rightarrow> bool" where
  "untouched r \<longleftrightarrow> (\<forall>m. jm_get (addDaybreakAliases (addGpt6Aliases (addGpt56Aliases (addGeneralAliases
     (addAlias ''gpt_5_codex'' CURRENT_CODEX_MODEL m))))) r = jm_get m r)"

lemma untouched_general: "list_all (\<lambda>e. untouched (fst e)) RETIRED_GENERAL_MODEL_REPLACEMENTS"
  unfolding untouched_def addDaybreakAliases_def addGpt6Aliases_def addGpt56Aliases_def addGeneralAliases_def addReasoningAliases_def
  by (simp add: RETIRED_GENERAL_MODEL_REPLACEMENTS_def resolver_simps)

lemma untouched_codex: "list_all (\<lambda>e. untouched (fst e)) RETIRED_CODEX_MODEL_REPLACEMENTS"
  unfolding untouched_def addDaybreakAliases_def addGpt6Aliases_def addGpt56Aliases_def addGeneralAliases_def addReasoningAliases_def
  by (simp add: RETIRED_CODEX_MODEL_REPLACEMENTS_def resolver_simps)

lemma retired_lookup:
  assumes "(r, x) \<in> set RETIRED_MODEL_REPLACEMENTS"
  shows "jm_get MODEL_MAP r = Some x"
proof -
  have "untouched r"
    using assms untouched_general untouched_codex unfolding RETIRED_MODEL_REPLACEMENTS_def list_all_iff by fastforce
  then have "jm_get MODEL_MAP r = retired_from RETIRED_MODEL_REPLACEMENTS r"
    by (simp add: untouched_def MODEL_MAP_def addRetiredAliases_def get_fold_aliases)
  also have "\<dots> = Some x" using assms by (rule retired_lookup_aux)
  finally show ?thesis .
qed

lemma resolve_plain:
  assumes "plain u" and "v = u \<or> v = p @ ''/'' @ u" and "jm_get MODEL_MAP (js_lower u) = Some x"
  shows "resolveNormalizedModel (Some v) = x"
proof -
  have "js_trim (stripProviderPrefix v) = u" using assms(1,2) strip_plain strip_prefixed trim_plain by auto
  moreover have "u \<noteq> []" using assms(1) by (simp add: plain_def)
  ultimately show ?thesis
    using assms(3) by (simp add: resolveNormalizedModel_def lookup_lower Let_def)
qed

lemma canonical_rows: "canonical m \<Longrightarrow> plain m \<and> lower_key m"
  unfolding canonical_models
  by (elim insertE emptyE; hypsubst; simp add: plain_def js_space_def lower_key_def js_lower_def lower_char_def)

lemma resolve_self: "canonical m \<Longrightarrow> resolveNormalizedModel (Some m) = m"
  using canonical_rows canonical_self by (intro resolve_plain) (auto simp: lower_key_def)

lemma effort_of_profile:
  assumes "jm_get MODEL_PROFILES m = Some p"
  shows "set (mp_supportedReasoningEfforts p) \<in> {set GPT_6_ASTRA_EFFORTS, set GPT_6_LUNA_EFFORTS}
    \<and> mp_defaultReasoningEffort p \<in> {EffLow, EffMedium}"
proof -
  have "jm_all (\<lambda>m p. set (mp_supportedReasoningEfforts p) \<in> {set GPT_6_ASTRA_EFFORTS, set GPT_6_LUNA_EFFORTS}
      \<and> mp_defaultReasoningEffort p \<in> {EffLow, EffMedium}) MODEL_PROFILES"
    by (simp add: jm_all_def MODEL_PROFILES_def profile_row_def GPT_6_ASTRA_EFFORTS_def GPT_6_LUNA_EFFORTS_def
      DAYBREAK_EFFORTS_def GPT_5_6_SOL_TERRA_EFFORTS_def GPT_5_6_LUNA_EFFORTS_def)
  from jm_all_get [OF this assms] show ?thesis .
qed

text \<open>Coercion over the two ladders.\<close>

fun effort_sent :: "reasoning_effort \<Rightarrow> reasoning_effort" where
  "effort_sent EffNone = EffLow"
| "effort_sent EffMinimal = EffLow"
| "effort_sent EffUltra = EffMax"
| "effort_sent e = e"

lemma coerced_effort:
  assumes "set supported \<in> {set GPT_6_ASTRA_EFFORTS, set GPT_6_LUNA_EFFORTS}" and "coerceReasoningEffort e supported d = c"
  shows "(if c = EffUltra then EffMax else c) = effort_sent e \<and> effort_sent e \<in> set supported - {EffUltra}"
proof -
  consider "set supported = set GPT_6_ASTRA_EFFORTS" | "set supported = set GPT_6_LUNA_EFFORTS" using assms(1) by blast
  then show ?thesis
  proof cases
    case 1
    show ?thesis unfolding assms(2) [symmetric] coerceReasoningEffort_def 1 GPT_6_ASTRA_EFFORTS_def by (cases e) simp_all
  next
    case 2
    show ?thesis unfolding assms(2) [symmetric] coerceReasoningEffort_def 2 GPT_6_LUNA_EFFORTS_def by (cases e) simp_all
  qed
qed

lemma probe_low:
  assumes "set supported \<in> {set GPT_6_ASTRA_EFFORTS, set GPT_6_LUNA_EFFORTS}"
  shows "List.find (\<lambda>e. e \<in> set supported) PROBE_REASONING_EFFORT_PREFERENCE = Some EffLow"
proof -
  consider "set supported = set GPT_6_ASTRA_EFFORTS" | "set supported = set GPT_6_LUNA_EFFORTS" using assms by blast
  then show ?thesis
    by cases (simp_all add: PROBE_REASONING_EFFORT_PREFERENCE_def GPT_6_ASTRA_EFFORTS_def GPT_6_LUNA_EFFORTS_def)
qed

section \<open>Properties\<close>

text \<open>
  C36. Every model string (absent, blank, misspelt or of a future generation) resolves to a model of the catalogue, whose profile exists
  and names it, so \<open>getModelProfile\<close> never throws; and resolving is idempotent: a resolved identifier resolves to itself.
\<close>

theorem resolves_into_catalogue:
  "jm_has MODEL_PROFILES (resolveNormalizedModel model)
   \<and> (\<exists>p. getModelProfile model = Inr p \<and> mp_normalizedModel p = resolveNormalizedModel model)
   \<and> resolveNormalizedModel (Some (resolveNormalizedModel model)) = resolveNormalizedModel model"
  using profile_exists [of model] resolve_canonical [of model] resolve_self profile_row by (auto simp: canonical_def)

text \<open>
  A retired identifier is never sent: in any case and behind any provider prefix it resolves to the replacement the
  table names, under the exact lookup of the pricing code as well, and no retired identifier has a profile.
\<close>

theorem retired_ids_replaced:
  assumes "(r, x) \<in> set RETIRED_MODEL_REPLACEMENTS" and "js_lower u = r" and "v = u \<or> v = p @ ''/'' @ u"
  shows "resolveNormalizedModel (Some v) = x \<and> getNormalizedModel u = Some x
    \<and> \<not> jm_has MODEL_PROFILES r \<and> jm_has MODEL_PROFILES x"
proof -
  have r: "plain r" "\<not> canonical r" using assms(1) retired_rows by (auto simp: list_all_iff)
  then have u: "plain u" using assms(2) plain_lower by auto
  have l: "jm_get MODEL_MAP (js_lower u) = Some x" using retired_lookup assms(1,2) by simp
  have "resolveNormalizedModel (Some v) = x" using resolve_plain u assms(3) l .
  moreover have "getNormalizedModel u = Some x"
    using u l trim_plain strip_plain by (auto simp: getNormalizedModel_def lookup_lower plain_def Let_def)
  moreover have "canonical x" using assms(1) retired_canonical by (auto simp: list_all_iff)
  ultimately show ?thesis using r by (simp add: canonical_def)
qed

lemma retired_ids_replaced_witness: "resolveNormalizedModel (Some ''openai/GPT-5.1-Codex-Mini'') = ''gpt-5.6-terra''"
proof -
  have "(''gpt-5.1-codex-mini'', ''gpt-5.6-terra'') \<in> set RETIRED_MODEL_REPLACEMENTS"
    by (simp add: RETIRED_MODEL_REPLACEMENTS_def RETIRED_CODEX_MODEL_REPLACEMENTS_def)
  moreover have "js_lower ''GPT-5.1-Codex-Mini'' = ''gpt-5.1-codex-mini''" by code_simp
  moreover have "''openai/GPT-5.1-Codex-Mini'' = ''GPT-5.1-Codex-Mini''
      \<or> ''openai/GPT-5.1-Codex-Mini'' = ''openai'' @ ''/'' @ ''GPT-5.1-Codex-Mini''" by simp
  ultimately show ?thesis by (rule retired_ids_replaced [THEN conjunct1])
qed

text \<open>
  The reasoning effort a request is sent with is one the model accepts, never \<open>ultra\<close>, and exactly the one asked for,
  save that \<open>none\<close> and \<open>minimal\<close>, which no model of the catalogue offers, become \<open>low\<close>, \<open>ultra\<close> becomes \<open>max\<close>, and
  no request means the default of the model.  Probes always ask for \<open>low\<close>.
\<close>

theorem effort_sent_exact:
  "\<exists>p. getModelProfile model = Inr p
     \<and> getReasoningConfig model req summary =
         Inr (effort_sent (nullish req (mp_defaultReasoningEffort p)), sanitizeReasoningSummary summary)
     \<and> effort_sent (nullish req (mp_defaultReasoningEffort p)) \<in> set (mp_supportedReasoningEfforts p) - {EffUltra}
     \<and> resolveProbeReasoningEffort model = Inr EffLow"
proof -
  obtain p where p: "getModelProfile model = Inr p" "jm_get MODEL_PROFILES (resolveNormalizedModel model) = Some p"
    using profile_exists by blast
  note S = conjunct1 [OF effort_of_profile [OF p(2)]]
  note c = coerced_effort [OF S refl, of "nullish req (mp_defaultReasoningEffort p)" "mp_defaultReasoningEffort p"]
  have "getReasoningConfig model req summary =
         Inr (effort_sent (nullish req (mp_defaultReasoningEffort p)), sanitizeReasoningSummary summary)"
    unfolding getReasoningConfig_def p(1) sum.case Let_def conjunct1 [OF c] ..
  moreover have "resolveProbeReasoningEffort model = Inr EffLow"
    by (simp add: resolveProbeReasoningEffort_def p(1) probe_low [OF S])
  ultimately show ?thesis using p(1) c by (intro exI [of _ p] conjI) simp_all
qed

end
