(* ===== verification/UsageLedger.thy ===== *)
theory UsageLedger
  imports JsMap
begin

text \<open>
  The usage ledger: rows and their normalisation (\<open>lib/usage/redaction.ts\<close>), the JSON line of a row
  and its validation when read back (\<open>lib/usage/ledger.ts\<close>), and the summary of a set of rows.
  \<open>JSON.stringify\<close> and \<open>JSON.parse\<close> are taken at the level of JSON values; the files, their locks
  and the log are left out.  SHA-256, the random row id and the collation of bucket keys are
  parameters.
\<close>

section \<open>JSON values\<close>

datatype json = JNull | JBool bool | JNum jsval | JStr string | JArr "json list" | JObj "(string \<times> json) list"

definition json_field :: "json \<Rightarrow> string \<Rightarrow> json option" where
  "json_field j k = (case j of JObj fs \<Rightarrow> map_of fs k | _ \<Rightarrow> None)"

definition isRecord :: "json option \<Rightarrow> bool" where
  "isRecord j \<longleftrightarrow> (case j of Some (JObj _) \<Rightarrow> True | _ \<Rightarrow> False)"

definition json_string :: "json option \<Rightarrow> string option" where
  "json_string j = (case j of Some (JStr s) \<Rightarrow> Some s | _ \<Rightarrow> None)"

definition json_finite :: "json option \<Rightarrow> jsnum option" where
  "json_finite j = (case j of Some (JNum (Finite x)) \<Rightarrow> Some x | _ \<Rightarrow> None)"

definition js_trunc :: "jsnum \<Rightarrow> jsnum" where
  "js_trunc x = (if 0 \<le> x then of_int \<lfloor>x\<rfloor> else of_int \<lceil>x\<rceil>)"

definition is_integer :: "jsnum \<Rightarrow> bool" where
  "is_integer x \<longleftrightarrow> js_floor x = x"

section \<open>Rows\<close>

datatype usage_source = SrcRuntimeProxy | SrcPluginHost | SrcLocalBridge | SrcCli | SrcUnknown

datatype usage_operation =
    OpDecisions | OpResponses | OpImages | OpModels | OpThreadGoal | OpTranscribe | OpSearch | OpRealtime
  | OpAuthRefresh | OpDiagnostic | OpUnknown

datatype usage_outcome = OutSuccess | OutFailure | OutBlocked | OutCancelled

datatype service_tier = TierStandard | TierPriority | TierFlex | TierBatch | TierScale | TierUltrafast | TierUnknown

definition VALID_SOURCES :: "(string \<times> usage_source) list" where
  "VALID_SOURCES = [(''runtime-proxy'', SrcRuntimeProxy), (''plugin-host'', SrcPluginHost), (''local-bridge'', SrcLocalBridge),
     (''cli'', SrcCli), (''unknown'', SrcUnknown)]"

definition VALID_OPERATIONS :: "(string \<times> usage_operation) list" where
  "VALID_OPERATIONS = [(''decisions'', OpDecisions), (''responses'', OpResponses), (''images'', OpImages), (''models'', OpModels),
     (''thread-goal'', OpThreadGoal), (''transcribe'', OpTranscribe), (''search'', OpSearch), (''realtime'', OpRealtime),
     (''auth-refresh'', OpAuthRefresh), (''diagnostic'', OpDiagnostic), (''unknown'', OpUnknown)]"

definition VALID_OUTCOMES :: "(string \<times> usage_outcome) list" where
  "VALID_OUTCOMES = [(''success'', OutSuccess), (''failure'', OutFailure), (''blocked'', OutBlocked), (''cancelled'', OutCancelled)]"

definition USAGE_SERVICE_TIERS :: "(string \<times> service_tier) list" where
  "USAGE_SERVICE_TIERS = [(''standard'', TierStandard), (''priority'', TierPriority), (''flex'', TierFlex), (''batch'', TierBatch),
     (''scale'', TierScale), (''ultrafast'', TierUltrafast), (''unknown'', TierUnknown)]"

text \<open>The string of a constructor, as it is written.\<close>

definition name_of :: "(string \<times> 'a) list \<Rightarrow> 'a \<Rightarrow> string" where
  "name_of table x = (case List.find (\<lambda>(_, y). y = x) table of Some (s, _) \<Rightarrow> s | None \<Rightarrow> [])"

record usage_tokens =
  ut_inputTokens :: jsnum
  ut_outputTokens :: jsnum
  ut_cachedInputTokens :: jsnum
  ut_reasoningTokens :: jsnum
  ut_totalTokens :: jsnum
  ut_serviceTier :: "service_tier option"

record usage_account_ref =
  ua_accountHash :: "string option"
  ua_emailHash :: "string option"
  ua_index :: "jsnum option"

record usage_row =
  ur_id :: string
  ur_createdAt :: jsnum
  ur_source :: usage_source
  ur_operation :: usage_operation
  ur_outcome :: usage_outcome
  ur_model :: "string option"
  ur_projectKey :: "string option"
  ur_account :: "usage_account_ref option"
  ur_requestId :: "string option"
  ur_statusCode :: "jsnum option"
  ur_errorCode :: "string option"
  ur_durationMs :: "jsnum option"
  ur_tokens :: usage_tokens
  ur_costUsd :: "jsnum option"

record usage_input =
  ui_id :: "string option"
  ui_createdAt :: "jsval option"
  ui_source :: "string option"
  ui_operation :: "string option"
  ui_outcome :: "string option"
  ui_model :: "string option"
  ui_projectKey :: "string option"
  ui_accountId :: "string option"
  ui_email :: "string option"
  ui_accountIndex :: "jsval option"
  ui_requestId :: "string option"
  ui_statusCode :: "jsval option"
  ui_errorCode :: "string option"
  ui_durationMs :: "jsval option"
  ui_inputTokens :: "jsval option"
  ui_outputTokens :: "jsval option"
  ui_cachedInputTokens :: "jsval option"
  ui_reasoningTokens :: "jsval option"
  ui_totalTokens :: "jsval option"
  ui_serviceTier :: "string option"
  ui_costUsd :: "jsval option"

section \<open>Normalisation of an appended row\<close>

definition normalizeFiniteNumber :: "jsval option \<Rightarrow> jsnum option" where
  "normalizeFiniteNumber v = (case v of Some (Finite x) \<Rightarrow> Some x | _ \<Rightarrow> None)"

definition normalizeNonNegativeInteger :: "jsval option \<Rightarrow> jsnum" where
  "normalizeNonNegativeInteger v = (case normalizeFiniteNumber v of None \<Rightarrow> 0 | Some x \<Rightarrow> max 0 (js_trunc x))"

definition normalizeOptionalString :: "string option \<Rightarrow> string option" where
  "normalizeOptionalString v =
     (case v of None \<Rightarrow> None | Some s \<Rightarrow> if js_trim s \<noteq> [] then Some (js_trim s) else None)"

definition normalizeStatusCode :: "jsval option \<Rightarrow> jsnum option" where
  "normalizeStatusCode v =
     (case normalizeFiniteNumber v of
        None \<Rightarrow> None
      | Some x \<Rightarrow> let statusCode = js_trunc x in if 100 \<le> statusCode \<and> statusCode \<le> 599 then Some statusCode else None)"

definition normalizeDurationMs :: "jsval option \<Rightarrow> jsnum option" where
  "normalizeDurationMs v = map_option (\<lambda>x. max 0 (js_trunc x)) (normalizeFiniteNumber v)"

definition normalizeSource :: "string option \<Rightarrow> usage_source" where
  "normalizeSource v = nullish (Option.bind v (map_of VALID_SOURCES)) SrcUnknown"

definition normalizeOperation :: "string option \<Rightarrow> usage_operation" where
  "normalizeOperation v = nullish (Option.bind v (map_of VALID_OPERATIONS)) OpUnknown"

definition normalizeOutcome :: "string option \<Rightarrow> usage_outcome" where
  "normalizeOutcome v = nullish (Option.bind v (map_of VALID_OUTCOMES)) OutFailure"

definition hashUsageIdentifier :: "(string \<Rightarrow> string) \<Rightarrow> string \<Rightarrow> string" where
  "hashUsageIdentifier sha256 v = ''sha256:'' @ sha256 (js_trim v)"

definition createUsageAccountRef ::
  "(string \<Rightarrow> string) \<Rightarrow> string option \<Rightarrow> string option \<Rightarrow> jsval option \<Rightarrow> usage_account_ref option" where
  "createUsageAccountRef sha256 accountId email accountIndex =
     (let accountId = normalizeOptionalString accountId;
          email = map_option js_lower (normalizeOptionalString email);
          index = (case accountIndex of Some (Finite x) \<Rightarrow> if is_integer x \<and> 0 \<le> x then Some x else None | _ \<Rightarrow> None)
      in if accountId = None \<and> email = None \<and> index = None then None
         else Some \<lparr>ua_accountHash = map_option (hashUsageIdentifier sha256) accountId,
                    ua_emailHash = map_option (hashUsageIdentifier sha256) email, ua_index = index\<rparr>)"

definition normalizeTokens :: "usage_input \<Rightarrow> usage_tokens" where
  "normalizeTokens i =
     (let inputTokens = normalizeNonNegativeInteger (ui_inputTokens i);
          outputTokens = normalizeNonNegativeInteger (ui_outputTokens i);
          reasoningTokens = normalizeNonNegativeInteger (ui_reasoningTokens i)
      in \<lparr>ut_inputTokens = inputTokens, ut_outputTokens = outputTokens,
          ut_cachedInputTokens = normalizeNonNegativeInteger (ui_cachedInputTokens i),
          ut_reasoningTokens = reasoningTokens,
          ut_totalTokens = (case normalizeFiniteNumber (ui_totalTokens i) of
             None \<Rightarrow> inputTokens + outputTokens + reasoningTokens | Some x \<Rightarrow> max 0 (js_trunc x)),
          ut_serviceTier = Option.bind (ui_serviceTier i) (map_of USAGE_SERVICE_TIERS)\<rparr>)"

definition isUnpricedOperation :: "string option \<Rightarrow> bool" where
  "isUnpricedOperation operation \<longleftrightarrow> operation = Some ''decisions''"

text \<open>The row, with the cost estimate of \<open>UsageCost\<close> as an argument.\<close>

definition normalizeUsageLedgerRow ::
  "(string \<Rightarrow> string) \<Rightarrow> (string option \<Rightarrow> usage_tokens \<Rightarrow> jsnum option) \<Rightarrow> string \<Rightarrow> jsnum \<Rightarrow> usage_input \<Rightarrow> usage_row" where
  "normalizeUsageLedgerRow sha256 estimate uuid now i =
     (let model = normalizeOptionalString (ui_model i);
          tokens = normalizeTokens i
      in \<lparr>ur_id = nullish (normalizeOptionalString (ui_id i)) uuid,
          ur_createdAt = nullish (normalizeFiniteNumber (ui_createdAt i)) now,
          ur_source = normalizeSource (ui_source i), ur_operation = normalizeOperation (ui_operation i),
          ur_outcome = normalizeOutcome (ui_outcome i), ur_model = model,
          ur_projectKey = normalizeOptionalString (ui_projectKey i),
          ur_account = createUsageAccountRef sha256 (ui_accountId i) (ui_email i) (ui_accountIndex i),
          ur_requestId = normalizeOptionalString (ui_requestId i),
          ur_statusCode = normalizeStatusCode (ui_statusCode i),
          ur_errorCode = normalizeOptionalString (ui_errorCode i),
          ur_durationMs = normalizeDurationMs (ui_durationMs i), ur_tokens = tokens,
          ur_costUsd = (case normalizeFiniteNumber (ui_costUsd i) of
             None \<Rightarrow> if isUnpricedOperation (ui_operation i) then None else estimate model tokens
           | Some x \<Rightarrow> Some (max 0 x))\<rparr>)"

section \<open>The line of a row and reading it back\<close>

definition opt_json :: "('a \<Rightarrow> json) \<Rightarrow> 'a option \<Rightarrow> json" where
  "opt_json f v = (case v of None \<Rightarrow> JNull | Some x \<Rightarrow> f x)"

text \<open>A property that is \<open>undefined\<close> is not written.\<close>

definition opt_field :: "string \<Rightarrow> ('a \<Rightarrow> json) \<Rightarrow> 'a option \<Rightarrow> (string \<times> json) list" where
  "opt_field k f v = (case v of None \<Rightarrow> [] | Some x \<Rightarrow> [(k, f x)])"

definition num_json :: "jsnum \<Rightarrow> json" where
  "num_json x = JNum (Finite x)"

definition tokens_json :: "usage_tokens \<Rightarrow> json" where
  "tokens_json t = JObj ([(''inputTokens'', num_json (ut_inputTokens t)), (''outputTokens'', num_json (ut_outputTokens t)),
     (''cachedInputTokens'', num_json (ut_cachedInputTokens t)), (''reasoningTokens'', num_json (ut_reasoningTokens t)),
     (''totalTokens'', num_json (ut_totalTokens t))]
     @ opt_field ''serviceTier'' (\<lambda>s. JStr (name_of USAGE_SERVICE_TIERS s)) (ut_serviceTier t))"

definition account_json :: "usage_account_ref \<Rightarrow> json" where
  "account_json a = JObj (opt_field ''accountHash'' JStr (ua_accountHash a) @ opt_field ''emailHash'' JStr (ua_emailHash a)
     @ opt_field ''index'' num_json (ua_index a))"

definition usageRowToJsonLine :: "usage_row \<Rightarrow> json" where
  "usageRowToJsonLine r = JObj [(''version'', num_json 1), (''id'', JStr (ur_id r)), (''createdAt'', num_json (ur_createdAt r)),
     (''source'', JStr (name_of VALID_SOURCES (ur_source r))),
     (''operation'', JStr (name_of VALID_OPERATIONS (ur_operation r))),
     (''outcome'', JStr (name_of VALID_OUTCOMES (ur_outcome r))), (''model'', opt_json JStr (ur_model r)),
     (''projectKey'', opt_json JStr (ur_projectKey r)), (''account'', opt_json account_json (ur_account r)),
     (''requestId'', opt_json JStr (ur_requestId r)), (''statusCode'', opt_json num_json (ur_statusCode r)),
     (''errorCode'', opt_json JStr (ur_errorCode r)), (''durationMs'', opt_json num_json (ur_durationMs r)),
     (''tokens'', tokens_json (ur_tokens r)), (''costUsd'', opt_json num_json (ur_costUsd r))]"

definition read_count :: "json \<Rightarrow> string \<Rightarrow> jsnum" where
  "read_count j k = (case json_finite (json_field j k) of Some x \<Rightarrow> max 0 (js_trunc x) | None \<Rightarrow> 0)"

definition read_hash :: "json \<Rightarrow> string \<Rightarrow> string option" where
  "read_hash j k = (case json_string (json_field j k) of
     Some s \<Rightarrow> if js_starts_with s ''sha256:'' then Some s else None | None \<Rightarrow> None)"

definition read_account :: "json option \<Rightarrow> usage_account_ref option" where
  "read_account v =
     (case v of
        Some (JObj fs) \<Rightarrow>
          let a = \<lparr>ua_accountHash = read_hash (JObj fs) ''accountHash'', ua_emailHash = read_hash (JObj fs) ''emailHash'',
                   ua_index = (case json_finite (json_field (JObj fs) ''index'') of
                      Some x \<Rightarrow> if is_integer x \<and> 0 \<le> x then Some x else None | None \<Rightarrow> None)\<rparr>
          in if (ua_accountHash a \<noteq> None) \<or> (ua_emailHash a \<noteq> None) \<or> ua_index a \<noteq> None then Some a else None
      | _ \<Rightarrow> None)"

definition normalizeParsedUsageRow :: "json \<Rightarrow> usage_row option" where
  "normalizeParsedUsageRow v =
     (let tokens = json_field v ''tokens'';
          t = nullish tokens JNull;
          statusCode = json_finite (json_field v ''statusCode'')
      in case (json_finite (json_field v ''version''), json_string (json_field v ''id''), json_finite (json_field v ''createdAt'')) of
           (Some version, Some rowId, Some createdAt) \<Rightarrow>
             if \<not> isRecord (Some v) \<or> version \<noteq> 1 \<or> js_trim rowId = [] \<or> \<not> isRecord tokens then None
             else Some \<lparr>ur_id = rowId, ur_createdAt = createdAt,
               ur_source = normalizeSource (json_string (json_field v ''source'')),
               ur_operation = normalizeOperation (json_string (json_field v ''operation'')),
               ur_outcome = normalizeOutcome (json_string (json_field v ''outcome'')),
               ur_model = json_string (json_field v ''model''), ur_projectKey = json_string (json_field v ''projectKey''),
               ur_account = read_account (json_field v ''account''), ur_requestId = json_string (json_field v ''requestId''),
               ur_statusCode = (case statusCode of
                  Some x \<Rightarrow> if is_integer x \<and> 100 \<le> x \<and> x \<le> 599 then Some x else None | None \<Rightarrow> None),
               ur_errorCode = json_string (json_field v ''errorCode''),
               ur_durationMs = map_option (\<lambda>x. max 0 (js_trunc x)) (json_finite (json_field v ''durationMs'')),
               ur_tokens = \<lparr>ut_inputTokens = read_count t ''inputTokens'', ut_outputTokens = read_count t ''outputTokens'',
                 ut_cachedInputTokens = read_count t ''cachedInputTokens'', ut_reasoningTokens = read_count t ''reasoningTokens'',
                 ut_totalTokens = read_count t ''totalTokens'',
                 ut_serviceTier = Option.bind (json_string (json_field t ''serviceTier'')) (map_of USAGE_SERVICE_TIERS)\<rparr>,
               ur_costUsd = map_option (max 0) (json_finite (json_field v ''costUsd''))\<rparr>
         | _ \<Rightarrow> None)"

section \<open>Round trip\<close>

lemma js_trunc_int [simp]: "js_trunc (of_int n) = of_int n"
  by (simp add: js_trunc_def)

definition count_ok :: "jsnum \<Rightarrow> bool" where
  "count_ok x \<longleftrightarrow> 0 \<le> x \<and> max 0 (js_trunc x) = x"

lemma count_ok_trunc [simp]: "count_ok (max 0 (js_trunc x))"
proof (cases "0 \<le> x")
  case True
  then have "js_trunc x = of_int \<lfloor>x\<rfloor>" "0 \<le> \<lfloor>x\<rfloor>" by (simp_all add: js_trunc_def)
  then show ?thesis by (simp add: count_ok_def max_def)
next
  case False
  then have "js_trunc x \<le> 0" by (simp add: js_trunc_def)
  then show ?thesis using js_trunc_int [of 0] by (simp add: count_ok_def max_def)
qed

lemma count_ok_0 [simp]: "count_ok 0"
  using js_trunc_int [of 0] by (simp add: count_ok_def)

lemma count_ok_int: "count_ok x \<Longrightarrow> \<exists>n. x = of_nat n"
proof -
  assume x: "count_ok x"
  then have "x = of_int \<lfloor>x\<rfloor>" by (auto simp: count_ok_def js_trunc_def max_def split: if_splits)
  moreover have "0 \<le> \<lfloor>x\<rfloor>" using x by (simp add: count_ok_def)
  ultimately show ?thesis by (metis nonneg_int_cases of_int_of_nat_eq)
qed

lemma count_ok_add: "count_ok x \<Longrightarrow> count_ok y \<Longrightarrow> count_ok (x + y)"
proof -
  assume "count_ok x" "count_ok y"
  then obtain m n where "x = of_nat m" "y = of_nat n" using count_ok_int by blast
  then show ?thesis using js_trunc_int [of "int (m + n)"] by (simp add: count_ok_def)
qed

lemma count_ok_norm [simp]: "count_ok (normalizeNonNegativeInteger v)"
  by (simp add: normalizeNonNegativeInteger_def split: option.split)

text \<open>What every row the ledger writes satisfies.\<close>

definition row_ok :: "usage_row \<Rightarrow> bool" where
  "row_ok r \<longleftrightarrow>
     js_trim (ur_id r) \<noteq> []
     \<and> list_all count_ok [ut_inputTokens (ur_tokens r), ut_outputTokens (ur_tokens r), ut_cachedInputTokens (ur_tokens r),
          ut_reasoningTokens (ur_tokens r), ut_totalTokens (ur_tokens r)]
     \<and> (\<forall>x. ur_statusCode r = Some x \<longrightarrow> is_integer x \<and> 100 \<le> x \<and> x \<le> 599)
     \<and> (\<forall>x. ur_durationMs r = Some x \<longrightarrow> count_ok x)
     \<and> (\<forall>x. ur_costUsd r = Some x \<longrightarrow> 0 \<le> x)
     \<and> (\<forall>a. ur_account r = Some a \<longrightarrow>
          (ua_accountHash a \<noteq> None \<or> ua_emailHash a \<noteq> None \<or> ua_index a \<noteq> None)
          \<and> (\<forall>h. ua_accountHash a = Some h \<longrightarrow> js_starts_with h ''sha256:'')
          \<and> (\<forall>h. ua_emailHash a = Some h \<longrightarrow> js_starts_with h ''sha256:'')
          \<and> (\<forall>x. ua_index a = Some x \<longrightarrow> is_integer x \<and> 0 \<le> x))"

lemma optional_string_trimmed: "normalizeOptionalString v = Some s \<Longrightarrow> js_trim s = s \<and> s \<noteq> []"
  by (auto simp: normalizeOptionalString_def split: option.splits if_splits)

lemma hash_prefixed [simp]: "js_starts_with (hashUsageIdentifier sha256 v) ''sha256:''"
  by (simp add: js_starts_with_def hashUsageIdentifier_def)

lemma account_ref_ok:
  assumes "createUsageAccountRef sha256 accountId email index = Some a"
  shows "(ua_accountHash a \<noteq> None \<or> ua_emailHash a \<noteq> None \<or> ua_index a \<noteq> None)
    \<and> (\<forall>h. ua_accountHash a = Some h \<longrightarrow> js_starts_with h ''sha256:'')
    \<and> (\<forall>h. ua_emailHash a = Some h \<longrightarrow> js_starts_with h ''sha256:'')
    \<and> (\<forall>x. ua_index a = Some x \<longrightarrow> is_integer x \<and> 0 \<le> x)"
  using assms by (auto simp: createUsageAccountRef_def Let_def split: if_splits option.splits jsval.splits)

lemma normalize_row_ok:
  assumes "js_trim uuid \<noteq> []" and "\<And>m c. estimate m (normalizeTokens i) = Some c \<Longrightarrow> 0 \<le> c"
  shows "row_ok (normalizeUsageLedgerRow sha256 estimate uuid now i)"
proof -
  let ?r = "normalizeUsageLedgerRow sha256 estimate uuid now i"
  have "js_trim (ur_id ?r) \<noteq> []"
    using assms(1) optional_string_trimmed [of "ui_id i"]
    by (cases "normalizeOptionalString (ui_id i)") (auto simp: normalizeUsageLedgerRow_def Let_def)
  moreover have "list_all count_ok [ut_inputTokens (ur_tokens ?r), ut_outputTokens (ur_tokens ?r), ut_cachedInputTokens (ur_tokens ?r),
          ut_reasoningTokens (ur_tokens ?r), ut_totalTokens (ur_tokens ?r)]"
    by (auto simp: normalizeUsageLedgerRow_def normalizeTokens_def Let_def intro!: count_ok_add split: option.split)
  moreover have "is_integer x \<and> 100 \<le> x \<and> x \<le> 599" if st: "ur_statusCode ?r = Some x" for x
  proof -
    obtain y where y: "x = js_trunc y" "100 \<le> x" "x \<le> 599"
      using st by (auto simp: normalizeUsageLedgerRow_def normalizeStatusCode_def Let_def split: option.splits if_splits)
    have "is_integer (js_trunc y)" by (simp add: is_integer_def js_trunc_def)
    with y show ?thesis by simp
  qed
  moreover have "count_ok x" if "ur_durationMs ?r = Some x" for x
    using that by (auto simp: normalizeUsageLedgerRow_def normalizeDurationMs_def Let_def)
  moreover have "0 \<le> x" if "ur_costUsd ?r = Some x" for x
    using that assms(2) by (auto simp: normalizeUsageLedgerRow_def Let_def split: option.splits if_splits)
  moreover have "ur_account ?r = createUsageAccountRef sha256 (ui_accountId i) (ui_email i) (ui_accountIndex i)"
    by (simp add: normalizeUsageLedgerRow_def Let_def)
  then have "createUsageAccountRef sha256 (ui_accountId i) (ui_email i) (ui_accountIndex i) = Some a" if "ur_account ?r = Some a" for a
    using that by simp
  note account_ref_ok [OF this]
  ultimately show ?thesis unfolding row_ok_def by blast
qed

lemma name_source [simp]: "normalizeSource (Some (name_of VALID_SOURCES s)) = s"
  by (cases s) (simp_all add: normalizeSource_def name_of_def VALID_SOURCES_def)

lemma name_operation [simp]: "normalizeOperation (Some (name_of VALID_OPERATIONS s)) = s"
  by (cases s) (simp_all add: normalizeOperation_def name_of_def VALID_OPERATIONS_def)

lemma name_outcome [simp]: "normalizeOutcome (Some (name_of VALID_OUTCOMES s)) = s"
  by (cases s) (simp_all add: normalizeOutcome_def name_of_def VALID_OUTCOMES_def)

lemma name_tier [simp]: "map_of USAGE_SERVICE_TIERS (name_of USAGE_SERVICE_TIERS s) = Some s"
  by (cases s) (simp_all add: name_of_def USAGE_SERVICE_TIERS_def)

lemma read_account_json:
  assumes "(ua_accountHash a \<noteq> None \<or> ua_emailHash a \<noteq> None \<or> ua_index a \<noteq> None)
    \<and> (\<forall>h. ua_accountHash a = Some h \<longrightarrow> js_starts_with h ''sha256:'')
    \<and> (\<forall>h. ua_emailHash a = Some h \<longrightarrow> js_starts_with h ''sha256:'')
    \<and> (\<forall>x. ua_index a = Some x \<longrightarrow> is_integer x \<and> 0 \<le> x)"
  shows "read_account (Some (account_json a)) = Some a"
proof -
  obtain h e i where a: "a = \<lparr>ua_accountHash = h, ua_emailHash = e, ua_index = i\<rparr>" by (cases a)
  show ?thesis
    using assms unfolding a
    by (cases h; cases e; cases i)
      (simp_all add: read_account_def account_json_def opt_field_def read_hash_def json_field_def json_string_def
        json_finite_def num_json_def)
qed

lemma read_tokens_json:
  assumes "list_all count_ok [ut_inputTokens t, ut_outputTokens t, ut_cachedInputTokens t, ut_reasoningTokens t, ut_totalTokens t]"
  shows "\<lparr>ut_inputTokens = read_count (tokens_json t) ''inputTokens'', ut_outputTokens = read_count (tokens_json t) ''outputTokens'',
    ut_cachedInputTokens = read_count (tokens_json t) ''cachedInputTokens'',
    ut_reasoningTokens = read_count (tokens_json t) ''reasoningTokens'',
    ut_totalTokens = read_count (tokens_json t) ''totalTokens'',
    ut_serviceTier = Option.bind (json_string (json_field (tokens_json t) ''serviceTier'')) (map_of USAGE_SERVICE_TIERS)\<rparr> = t"
proof -
  obtain a b c d e f where t: "t = \<lparr>ut_inputTokens = a, ut_outputTokens = b, ut_cachedInputTokens = c, ut_reasoningTokens = d,
    ut_totalTokens = e, ut_serviceTier = f\<rparr>" by (cases t)
  have num: "read_count (tokens_json t) ''inputTokens'' = a" "read_count (tokens_json t) ''outputTokens'' = b"
     "read_count (tokens_json t) ''cachedInputTokens'' = c" "read_count (tokens_json t) ''reasoningTokens'' = d"
     "read_count (tokens_json t) ''totalTokens'' = e"
    using assms unfolding t by (simp_all add: read_count_def tokens_json_def json_field_def json_finite_def num_json_def count_ok_def)
  have "Option.bind (json_string (json_field (tokens_json t) ''serviceTier'')) (map_of USAGE_SERVICE_TIERS) = f"
    unfolding t by (cases f) (simp_all add: tokens_json_def json_field_def json_string_def opt_field_def num_json_def)
  with num show ?thesis by (simp add: t)
qed

lemma json_field_Cons: "json_field (JObj ((k, v) # fs)) k' = (if k = k' then Some v else json_field (JObj fs) k')"
  by (simp add: json_field_def)

lemma opt_json_string: "json_string (Some (opt_json JStr v)) = v"
  by (cases v) (simp_all add: opt_json_def json_string_def)

lemma opt_json_number: "json_finite (Some (opt_json num_json v)) = v"
  by (cases v) (simp_all add: opt_json_def json_finite_def num_json_def)

lemma parse_row:
  assumes "row_ok r"
  shows "normalizeParsedUsageRow (usageRowToJsonLine r) = Some r"
proof -
  have t: "isRecord (Some (tokens_json (ur_tokens r)))" by (simp add: tokens_json_def isRecord_def)
  have acct: "read_account (Some (opt_json account_json (ur_account r))) = ur_account r"
  proof (cases "ur_account r")
    case None
    then show ?thesis by (simp add: opt_json_def read_account_def)
  next
    case (Some a)
    with assms have "read_account (Some (account_json a)) = Some a" by (intro read_account_json) (simp add: row_ok_def)
    with Some show ?thesis by (simp add: opt_json_def)
  qed
  have status: "(case ur_statusCode r of Some x \<Rightarrow> if is_integer x \<and> 100 \<le> x \<and> x \<le> 599 then Some x else None | None \<Rightarrow> None)
      = ur_statusCode r"
    using assms by (auto simp: row_ok_def split: option.split)
  have dur: "map_option (\<lambda>x. max 0 (js_trunc x)) (ur_durationMs r) = ur_durationMs r"
    using assms by (cases "ur_durationMs r") (auto simp: row_ok_def count_ok_def)
  have cost: "map_option (max 0) (ur_costUsd r) = ur_costUsd r"
    using assms by (cases "ur_costUsd r") (auto simp: row_ok_def)
  have id: "js_trim (ur_id r) \<noteq> []" using assms by (simp add: row_ok_def)
  have tok: "\<lparr>ut_inputTokens = read_count (tokens_json (ur_tokens r)) ''inputTokens'',
    ut_outputTokens = read_count (tokens_json (ur_tokens r)) ''outputTokens'',
    ut_cachedInputTokens = read_count (tokens_json (ur_tokens r)) ''cachedInputTokens'',
    ut_reasoningTokens = read_count (tokens_json (ur_tokens r)) ''reasoningTokens'',
    ut_totalTokens = read_count (tokens_json (ur_tokens r)) ''totalTokens'',
    ut_serviceTier = Option.bind (json_string (json_field (tokens_json (ur_tokens r)) ''serviceTier'')) (map_of USAGE_SERVICE_TIERS)\<rparr>
      = ur_tokens r"
    using assms by (intro read_tokens_json) (simp add: row_ok_def)
  have str: "json_string (Some (JStr s)) = Some s" and fin: "json_finite (Some (num_json x)) = Some x" for s x
    by (simp_all add: json_string_def json_finite_def num_json_def)
  have rec: "isRecord (Some (usageRowToJsonLine r))" by (simp add: isRecord_def usageRowToJsonLine_def)
  have f: "json_field (usageRowToJsonLine r) ''version'' = Some (num_json 1)"
    "json_field (usageRowToJsonLine r) ''id'' = Some (JStr (ur_id r))"
    "json_field (usageRowToJsonLine r) ''createdAt'' = Some (num_json (ur_createdAt r))"
    "json_field (usageRowToJsonLine r) ''source'' = Some (JStr (name_of VALID_SOURCES (ur_source r)))"
    "json_field (usageRowToJsonLine r) ''operation'' = Some (JStr (name_of VALID_OPERATIONS (ur_operation r)))"
    "json_field (usageRowToJsonLine r) ''outcome'' = Some (JStr (name_of VALID_OUTCOMES (ur_outcome r)))"
    "json_field (usageRowToJsonLine r) ''model'' = Some (opt_json JStr (ur_model r))"
    "json_field (usageRowToJsonLine r) ''projectKey'' = Some (opt_json JStr (ur_projectKey r))"
    "json_field (usageRowToJsonLine r) ''account'' = Some (opt_json account_json (ur_account r))"
    "json_field (usageRowToJsonLine r) ''requestId'' = Some (opt_json JStr (ur_requestId r))"
    "json_field (usageRowToJsonLine r) ''statusCode'' = Some (opt_json num_json (ur_statusCode r))"
    "json_field (usageRowToJsonLine r) ''errorCode'' = Some (opt_json JStr (ur_errorCode r))"
    "json_field (usageRowToJsonLine r) ''durationMs'' = Some (opt_json num_json (ur_durationMs r))"
    "json_field (usageRowToJsonLine r) ''tokens'' = Some (tokens_json (ur_tokens r))"
    "json_field (usageRowToJsonLine r) ''costUsd'' = Some (opt_json num_json (ur_costUsd r))"
    by (simp_all add: usageRowToJsonLine_def json_field_Cons)
  have "\<not> (\<not> isRecord (Some (usageRowToJsonLine r)) \<or> (1::jsnum) \<noteq> 1 \<or> js_trim (ur_id r) = []
      \<or> \<not> isRecord (Some (tokens_json (ur_tokens r))))"
    using rec id t by simp
  then show ?thesis
    unfolding normalizeParsedUsageRow_def f Let_def nullish_simps str fin opt_json_string opt_json_number option.case prod.case
      name_source name_operation name_outcome acct status dur cost tok
    by simp
qed

end
