(* ===== verification/UsageCost.thy ===== *)
theory UsageCost
  imports ModelMap UsageLedger
begin

text \<open>
  Cost estimates (\<open>lib/usage/pricing.ts\<close>): the rate table, the choice of the row of a model string,
  of a service tier and of the context length, and the rounded cost.  Rates are the exact decimals
  of the source; \<open>toFixed8\<close> is \<open>Number(x.toFixed(8))\<close> on exact numbers.
\<close>

section \<open>The rate table\<close>

datatype model_pricing = Pricing
  (inputUsdPerMillion: jsnum)
  (outputUsdPerMillion: jsnum)
  (cachedInputUsdPerMillion: "jsnum option")
  (reasoningUsdPerMillion: "jsnum option")
  (serviceTiers: "(service_tier \<times> model_pricing) list")
  (longContext: "model_pricing option")

definition SHORT_CONTEXT_MAX_INPUT_TOKENS :: jsnum where
  "SHORT_CONTEXT_MAX_INPUT_TOKENS = 272000"

text \<open>A row whose reasoning rate is the output rate, as all of them are.\<close>

definition rates :: "jsnum \<Rightarrow> jsnum \<Rightarrow> jsnum \<Rightarrow> (service_tier \<times> model_pricing) list \<Rightarrow> model_pricing option \<Rightarrow> model_pricing" where
  "rates inp out cached tiers long = Pricing inp out (Some cached) (Some out) tiers long"

definition MODEL_PRICING :: "(string, model_pricing) jsmap" where
  "MODEL_PRICING =
     [(''gpt-6-astra'', rates 10 50 1
         [(TierPriority, rates 20 100 2 [] (Some (rates 40 150 4 [] None)))]
         (Some (rates 20 75 2 [] None))),
      (''gpt-6.1-sol'', rates 2 10 (1/10)
         [(TierPriority, rates 4 20 (2/10) [] (Some (rates 8 30 (4/10) [] None))), (TierUltrafast, rates 12 60 (6/10) [] None)]
         (Some (rates 4 15 (2/10) [] None))),
      (''gpt-6.1-terra'', rates 1 5 (5/100)
         [(TierPriority, rates 2 10 (1/10) [] (Some (rates 4 15 (2/10) [] None)))]
         (Some (rates 2 (75/10) (1/10) [] None))),
      (''gpt-6-sol'', rates 2 10 (2/10)
         [(TierPriority, rates 4 20 (4/10) [] (Some (rates 8 30 (8/10) [] None)))]
         (Some (rates 4 15 (4/10) [] None))),
      (''gpt-6-luna'', rates (1/10) (5/10) (1/100)
         [(TierPriority, rates (2/10) 1 (2/100) [] (Some (rates (4/10) (15/10) (4/100) [] None)))]
         (Some (rates (2/10) (75/100) (2/100) [] None))),
      (''gpt-5.6-sol'', rates 5 30 (5/10) [] None),
      (''gpt-5.6-terra'', rates (25/10) 15 (25/100) [] None),
      (''gpt-5.6-luna'', rates 1 6 (1/10) [] None)]"

definition UNPRICED_ROUTABLE_MODELS :: "string list" where
  "UNPRICED_ROUTABLE_MODELS = [''gpt-reserve'', ''gpt-daybreak-blue-latest'', ''gpt-daybreak-red-latest'']"

section \<open>The row that applies\<close>

definition normalizeModelName :: "string option \<Rightarrow> string option" where
  "normalizeModelName model =
     (let trimmed = js_lower (js_trim (nullish model [])) in if trimmed \<noteq> [] then Some trimmed else None)"

text \<open>\<open>/^(api|zdr|psp)\//\<close>: whether the string names a route, and the string without it.\<close>

definition ROUTE_PREFIXES :: "string list" where
  "ROUTE_PREFIXES = [''api/'', ''zdr/'', ''psp/'']"

definition is_routed :: "string \<Rightarrow> bool" where
  "is_routed model \<longleftrightarrow> list_ex (\<lambda>p. js_starts_with model p) ROUTE_PREFIXES"

definition strip_route :: "string \<Rightarrow> string" where
  "strip_route model = (if is_routed model then drop 4 model else model)"

definition getUsageModelPricing :: "string option \<Rightarrow> model_pricing option" where
  "getUsageModelPricing model =
     (case normalizeModelName (map_option strip_route model) of
        None \<Rightarrow> None
      | Some normalized \<Rightarrow>
          let retired = map_of RETIRED_MODEL_REPLACEMENTS normalized;
              effective = (if \<not> is_routed (nullish model []) \<and> retired \<noteq> None then nullish retired []
                           else nullish (getNormalizedModel normalized) normalized)
          in if effective = [] then None else jm_get MODEL_PRICING effective)"

definition resolveServiceTierPricing :: "model_pricing \<Rightarrow> service_tier option \<Rightarrow> model_pricing option" where
  "resolveServiceTierPricing pricing serviceTier =
     (case serviceTier of
        None \<Rightarrow> Some pricing
      | Some t \<Rightarrow> if t = TierStandard then Some pricing else map_of (serviceTiers pricing) t)"

definition resolveContextLengthPricing :: "model_pricing \<Rightarrow> model_pricing \<Rightarrow> jsnum \<Rightarrow> model_pricing option" where
  "resolveContextLengthPricing basePricing tierPricing inputTokens =
     (if inputTokens \<le> SHORT_CONTEXT_MAX_INPUT_TOKENS then Some tierPricing
      else case longContext tierPricing of
        Some long \<Rightarrow> Some long
      | None \<Rightarrow> if longContext basePricing \<noteq> None then None else Some tierPricing)"

section \<open>The estimate\<close>

text \<open>\<open>Number(x.toFixed(8))\<close>: the nearest multiple of 1e-8, the larger of two for a positive number;
  from 1e21 on \<open>toFixed\<close> is \<open>String(x)\<close>.\<close>

definition round8 :: "jsnum \<Rightarrow> jsnum" where
  "round8 x = of_int \<lfloor>x * 10 ^ 8 + 1 / 2\<rfloor> / 10 ^ 8"

definition toFixed8 :: "jsnum \<Rightarrow> jsnum" where
  "toFixed8 x = (if 10 ^ 21 \<le> \<bar>x\<bar> then x else if x < 0 then - round8 (- x) else round8 x)"

definition cost_of :: "model_pricing \<Rightarrow> usage_tokens \<Rightarrow> jsnum" where
  "cost_of pricing tokens =
     (let billableInputTokens = max 0 (ut_inputTokens tokens - ut_cachedInputTokens tokens);
          inp = (billableInputTokens / 1000000) * inputUsdPerMillion pricing;
          out = (ut_outputTokens tokens / 1000000) * outputUsdPerMillion pricing;
          cached = (ut_cachedInputTokens tokens / 1000000)
                     * nullish (cachedInputUsdPerMillion pricing) (inputUsdPerMillion pricing);
          reasoning = (ut_reasoningTokens tokens / 1000000)
                     * nullish (reasoningUsdPerMillion pricing) (outputUsdPerMillion pricing)
      in inp + out + cached + reasoning)"

definition estimateUsageCostUsd :: "string option \<Rightarrow> usage_tokens \<Rightarrow> jsnum option" where
  "estimateUsageCostUsd model tokens =
     (case getUsageModelPricing model of
        None \<Rightarrow> None
      | Some basePricing \<Rightarrow>
          (case resolveServiceTierPricing basePricing (ut_serviceTier tokens) of
             None \<Rightarrow> None
           | Some tierPricing \<Rightarrow>
               (case resolveContextLengthPricing basePricing tierPricing (ut_inputTokens tokens) of
                  None \<Rightarrow> None
                | Some pricing \<Rightarrow> Some (toFixed8 (cost_of pricing tokens)))))"

section \<open>Rounding\<close>

lemma round8_error: "\<bar>round8 x - x\<bar> \<le> 1 / (2 * 10 ^ 8)"
proof -
  define n where "n = \<lfloor>x * 10 ^ 8 + 1 / 2\<rfloor>"
  have "of_int n \<le> x * 10 ^ 8 + 1 / 2" "x * 10 ^ 8 + 1 / 2 < of_int n + 1" unfolding n_def by linarith+
  then have "of_int n / 10 ^ 8 - x \<le> 1 / (2 * 10 ^ 8)" "- (1 / (2 * 10 ^ 8)) \<le> of_int n / 10 ^ 8 - x" by (simp_all add: field_simps)
  then show ?thesis unfolding round8_def n_def [symmetric] abs_le_iff by linarith
qed

lemma round8_mono: "x \<le> y \<Longrightarrow> round8 x \<le> round8 y"
  by (simp add: round8_def floor_mono divide_right_mono)

lemma round8_nonneg: "0 \<le> x \<Longrightarrow> 0 \<le> round8 x"
  using round8_mono [of 0 x] by (simp add: round8_def)

lemma round8_fix: "round8 (of_int n / 10 ^ 8) = of_int n / 10 ^ 8"
proof -
  have "\<lfloor>(of_int n :: rat) + 1 / 2\<rfloor> = n" by linarith
  then show ?thesis by (simp add: round8_def)
qed

lemma toFixed8_nonneg: "0 \<le> x \<Longrightarrow> 0 \<le> toFixed8 x"
  by (simp add: toFixed8_def round8_nonneg)

lemma round8_below: "x < 10 ^ 21 \<Longrightarrow> round8 x \<le> 10 ^ 21"
proof -
  assume "x < 10 ^ 21"
  then have "round8 x \<le> round8 (10 ^ 21)" by (intro round8_mono) simp
  also have "\<dots> = 10 ^ 21" using round8_fix [of "10 ^ 29"] by simp
  finally show ?thesis .
qed

lemma toFixed8_mono:
  assumes "0 \<le> x" and "x \<le> y"
  shows "toFixed8 x \<le> toFixed8 y"
proof (cases "10 ^ 21 \<le> y")
  case True
  then show ?thesis using assms round8_below [of x] by (auto simp: toFixed8_def)
next
  case False
  then show ?thesis using assms round8_mono by (auto simp: toFixed8_def)
qed

lemma toFixed8_error: "\<bar>toFixed8 x - x\<bar> \<le> 1 / (2 * 10 ^ 8)"
proof -
  have "\<bar>- round8 (- x) - x\<bar> = \<bar>round8 (- x) - (- x)\<bar>" by linarith
  then show ?thesis using round8_error [of x] round8_error [of "- x"] by (simp add: toFixed8_def)
qed

section \<open>The order of the rates\<close>

definition cached_rate :: "model_pricing \<Rightarrow> jsnum" where
  "cached_rate p = nullish (cachedInputUsdPerMillion p) (inputUsdPerMillion p)"

definition reasoning_rate :: "model_pricing \<Rightarrow> jsnum" where
  "reasoning_rate p = nullish (reasoningUsdPerMillion p) (outputUsdPerMillion p)"

definition cheaper :: "model_pricing \<Rightarrow> model_pricing \<Rightarrow> bool" where
  "cheaper p q \<longleftrightarrow> inputUsdPerMillion p \<le> inputUsdPerMillion q \<and> outputUsdPerMillion p \<le> outputUsdPerMillion q
     \<and> cached_rate p \<le> cached_rate q \<and> reasoning_rate p \<le> reasoning_rate q"

definition rates_nonneg :: "model_pricing \<Rightarrow> bool" where
  "rates_nonneg p \<longleftrightarrow> 0 \<le> inputUsdPerMillion p \<and> 0 \<le> outputUsdPerMillion p \<and> 0 \<le> cached_rate p \<and> 0 \<le> reasoning_rate p"

definition opt_cheaper :: "model_pricing option \<Rightarrow> model_pricing option \<Rightarrow> bool" where
  "opt_cheaper p q \<longleftrightarrow> (case q of None \<Rightarrow> True | Some q' \<Rightarrow> (case p of None \<Rightarrow> False | Some p' \<Rightarrow> cheaper p' q'))"

definition row_sane :: "model_pricing \<Rightarrow> bool" where
  "row_sane p \<longleftrightarrow> rates_nonneg p \<and> (case longContext p of None \<Rightarrow> True | Some l \<Rightarrow> cheaper p l)
     \<and> list_all (\<lambda>(_, q). cheaper p q \<and> opt_cheaper (longContext p) (longContext q)) (serviceTiers p)"

lemma rates_simps [simp]:
  "inputUsdPerMillion (rates i out c ts l) = i" "outputUsdPerMillion (rates i out c ts l) = out"
  "cached_rate (rates i out c ts l) = c" "reasoning_rate (rates i out c ts l) = out"
  "serviceTiers (rates i out c ts l) = ts" "longContext (rates i out c ts l) = l"
  by (simp_all add: rates_def cached_rate_def reasoning_rate_def)

lemma table_sane: "jm_all (\<lambda>_. row_sane) MODEL_PRICING"
  by (simp add: jm_all_def MODEL_PRICING_def row_sane_def rates_nonneg_def cheaper_def opt_cheaper_def)

definition tokens_nonneg :: "usage_tokens \<Rightarrow> bool" where
  "tokens_nonneg t \<longleftrightarrow> 0 \<le> ut_inputTokens t \<and> 0 \<le> ut_outputTokens t \<and> 0 \<le> ut_cachedInputTokens t \<and> 0 \<le> ut_reasoningTokens t"

lemma cost_of_alt:
  "cost_of p t = max 0 (ut_inputTokens t - ut_cachedInputTokens t) / 1000000 * inputUsdPerMillion p
     + ut_outputTokens t / 1000000 * outputUsdPerMillion p + ut_cachedInputTokens t / 1000000 * cached_rate p
     + ut_reasoningTokens t / 1000000 * reasoning_rate p"
  by (simp add: cost_of_def Let_def cached_rate_def reasoning_rate_def)

lemma cost_of_mono: "cheaper p q \<Longrightarrow> tokens_nonneg t \<Longrightarrow> cost_of p t \<le> cost_of q t"
  unfolding cost_of_alt cheaper_def tokens_nonneg_def by (intro add_mono mult_left_mono) simp_all

lemma cost_of_nonneg: "rates_nonneg p \<Longrightarrow> tokens_nonneg t \<Longrightarrow> 0 \<le> cost_of p t"
  unfolding cost_of_alt rates_nonneg_def tokens_nonneg_def by (intro add_nonneg_nonneg mult_nonneg_nonneg) simp_all

lemma cost_of_tier [simp]: "cost_of p (t\<lparr>ut_serviceTier := s\<rparr>) = cost_of p t"
  by (simp add: cost_of_def)

lemma cheaper_refl [simp]: "cheaper p p"
  by (simp add: cheaper_def)

lemma pricing_sane: "getUsageModelPricing model = Some p \<Longrightarrow> row_sane p"
  using table_sane by (auto simp: getUsageModelPricing_def Let_def split: option.splits if_splits dest: jm_all_get)

text \<open>The row of a tier and a context length costs at least what the standard tier costs there.\<close>

lemma row_at_least_standard:
  assumes sane: "row_sane base" and tier: "resolveServiceTierPricing base t = Some q"
    and ctx: "resolveContextLengthPricing base q n = Some r"
  shows "\<exists>b. resolveContextLengthPricing base base n = Some b \<and> cheaper base b \<and> cheaper b r"
proof -
  have q: "cheaper base q \<and> (q = base \<or> opt_cheaper (longContext base) (longContext q))"
    using sane tier by (auto simp: row_sane_def resolveServiceTierPricing_def list_all_iff dest!: map_of_SomeD
      split: option.splits if_splits)
  show ?thesis
  proof (cases "n \<le> SHORT_CONTEXT_MAX_INPUT_TOKENS")
    case True
    then show ?thesis using ctx q by (simp add: resolveContextLengthPricing_def)
  next
    case False
    show ?thesis
    proof (cases "longContext base")
      case None
      then show ?thesis using ctx q False by (auto simp: resolveContextLengthPricing_def opt_cheaper_def split: option.splits)
    next
      case (Some l)
      with sane have "cheaper base l" by (simp add: row_sane_def)
      moreover have "cheaper l r"
        using ctx q False Some by (auto simp: resolveContextLengthPricing_def opt_cheaper_def split: option.splits)
      ultimately show ?thesis using False Some by (simp add: resolveContextLengthPricing_def)
    qed
  qed
qed

lemma estimate_cases:
  "estimateUsageCostUsd model t = Some c \<longleftrightarrow>
     (\<exists>base q r. getUsageModelPricing model = Some base \<and> resolveServiceTierPricing base (ut_serviceTier t) = Some q
        \<and> resolveContextLengthPricing base q (ut_inputTokens t) = Some r \<and> c = toFixed8 (cost_of r t))"
  by (auto simp: estimateUsageCostUsd_def split: option.splits)

section \<open>The row is that of the model the request runs on\<close>

lemma trim_prefixed: "plain u \<Longrightarrow> js_trim (p @ ''/'' @ u) = dropWhile js_space p @ ''/'' @ u"
proof -
  assume u: "plain u"
  have "\<not> js_space (CHR ''/'')" by (simp add: js_space_def)
  then have d: "dropWhile js_space (p @ ''/'' @ u) = dropWhile js_space p @ ''/'' @ u"
    by (induction p) auto
  have "rev u \<noteq> []" "\<not> js_space (hd (rev u))" using u by (auto simp: plain_def list_all_iff hd_rev)
  then have "dropWhile js_space (rev u @ xs) = rev u @ xs" for xs by (cases "rev u") auto
  then show ?thesis unfolding js_trim_def d by simp
qed

lemma normalized_plain: "plain u \<Longrightarrow> getNormalizedModel (js_lower u) = jm_get MODEL_MAP (js_lower u)"
  using plain_lower [of u] trim_plain strip_plain by (auto simp: getNormalizedModel_def lookup_lower plain_def Let_def)

lemma normalized_prefixed: "plain u \<Longrightarrow> getNormalizedModel (js_lower (p @ ''/'' @ u)) = jm_get MODEL_MAP (js_lower u)"
proof -
  assume u: "plain u"
  have l: "js_lower (p @ ''/'' @ u) = js_lower p @ ''/'' @ js_lower u"
    by (simp add: js_lower_def lower_char_def)
  show ?thesis
    unfolding l getNormalizedModel_def trim_prefixed [OF plain_lower [THEN iffD2, OF u]]
      strip_prefixed [OF plain_lower [THEN iffD2, OF u]]
    using u plain_lower [of u] by (auto simp: plain_def lookup_lower Let_def)
qed

lemma retired_no_slash: "(r, x) \<in> set RETIRED_MODEL_REPLACEMENTS \<Longrightarrow> CHR ''/'' \<notin> set r"
  using retired_rows by (auto simp: list_all_iff plain_def)

lemma retired_none: "CHR ''/'' \<in> set k \<Longrightarrow> map_of RETIRED_MODEL_REPLACEMENTS k = None"
  using retired_no_slash by (fastforce simp: map_of_eq_None_iff)

lemma unrouted_plain: "plain u \<Longrightarrow> \<not> is_routed u"
  by (auto simp: is_routed_def ROUTE_PREFIXES_def js_starts_with_def plain_def prefix_def)

lemma routed_shape: "is_routed w \<Longrightarrow> \<exists>a b c zs. w = a # b # c # CHR ''/'' # zs \<and> CHR ''/'' \<notin> {a, b, c}"
  by (auto simp: is_routed_def ROUTE_PREFIXES_def js_starts_with_def prefix_def)

lemma routed_prefixed:
  assumes "is_routed (p @ ''/'' @ u)"
  shows "drop 4 (p @ ''/'' @ u) = u \<or> drop 4 (p @ ''/'' @ u) = drop 4 p @ ''/'' @ u"
proof -
  obtain a b c zs where abc: "p @ ''/'' @ u = a # b # c # CHR ''/'' # zs" "CHR ''/'' \<notin> {a, b, c}"
    using routed_shape [OF assms] by blast
  consider "p = []" | x where "p = [x]" | x y where "p = [x, y]" | x y z where "p = [x, y, z]" | x y z w q where "p = x # y # z # w # q"
    by (metis list.exhaust)
  then show ?thesis using abc by cases auto
qed

lemma pricing_row:
  assumes u: "plain u" and x: "jm_get MODEL_MAP (js_lower u) = Some x" and v: "v = u \<or> v = p @ ''/'' @ u"
  shows "getUsageModelPricing (Some v) = jm_get MODEL_PRICING x"
proof -
  have "canonical x" using x MODEL_MAP_canonical jm_all_get by fast
  then have ne: "x \<noteq> []" using canonical_rows by (auto simp: plain_def)
  have lu: "js_lower u \<noteq> []" using u by (auto simp: plain_def js_lower_def)
  have direct: "getUsageModelPricing (Some v) = jm_get MODEL_PRICING x"
    if s: "strip_route v = u" "is_routed v \<or> v = u" for v
  proof -
    have "normalizeModelName (Some u) = Some (js_lower u)" using lu by (simp add: normalizeModelName_def trim_plain u)
    moreover have "map_of RETIRED_MODEL_REPLACEMENTS (js_lower u) = Some y \<Longrightarrow> y = x" for y
      using retired_lookup x by (fastforce dest: map_of_SomeD)
    ultimately show ?thesis
      using s ne x normalized_plain [OF u]
      by (cases "map_of RETIRED_MODEL_REPLACEMENTS (js_lower u)") (auto simp: getUsageModelPricing_def Let_def)
  qed
  have nested: "getUsageModelPricing (Some v) = jm_get MODEL_PRICING x" if s: "strip_route v = q @ ''/'' @ u" for v q
  proof -
    define k where "k = js_lower (dropWhile js_space q @ ''/'' @ u)"
    have "normalizeModelName (Some (q @ ''/'' @ u)) = Some k"
      unfolding k_def normalizeModelName_def nullish_simps trim_prefixed [OF u] by (simp add: Let_def js_lower_def)
    moreover have "CHR ''/'' \<in> set k" by (auto simp: k_def js_lower_def lower_char_def)
    then have "map_of RETIRED_MODEL_REPLACEMENTS k = None" by (rule retired_none)
    moreover have "getNormalizedModel k = Some x" unfolding k_def using normalized_prefixed [OF u] x by simp
    ultimately show ?thesis using s ne by (simp add: getUsageModelPricing_def Let_def)
  qed
  show ?thesis
  proof (cases "v = u")
    case True
    then show ?thesis using direct unrouted_plain [OF u] by (simp add: strip_route_def)
  next
    case False
    with v have v: "v = p @ ''/'' @ u" by blast
    show ?thesis
    proof (cases "is_routed v")
      case True
      then show ?thesis using routed_prefixed [of p u] direct nested v by (auto simp: strip_route_def)
    next
      case False
      then show ?thesis using nested v by (simp add: strip_route_def)
    qed
  qed
qed

section \<open>Properties\<close>

text \<open>
  A known model string, in any case and behind any prefix, a billing route among them, is priced by the row of the model
  the request runs on, and has no price exactly when that model is one of the three listed as unpriced.
\<close>

theorem priced_as_routed:
  assumes "plain u" and "isKnownModel u" and "v = u \<or> v = p @ ''/'' @ u"
  shows "getUsageModelPricing (Some v) = jm_get MODEL_PRICING (resolveNormalizedModel (Some v))
    \<and> (getUsageModelPricing (Some v) = None \<longleftrightarrow> resolveNormalizedModel (Some v) \<in> set UNPRICED_ROUTABLE_MODELS)"
proof -
  have u: "js_trim u = u" "stripProviderPrefix u = u" using assms(1) trim_plain strip_plain by auto
  then obtain x where x: "jm_get MODEL_MAP (js_lower u) = Some x"
    using assms(2) by (auto simp: isKnownModel_def getNormalizedModel_def lookup_lower Let_def split: if_splits)
  have r: "resolveNormalizedModel (Some v) = x" using resolve_plain assms(1,3) x .
  have "canonical x" using x MODEL_MAP_canonical jm_all_get by fast
  then have "jm_get MODEL_PRICING x = None \<longleftrightarrow> x \<in> set UNPRICED_ROUTABLE_MODELS"
    unfolding canonical_models
    by (elim insertE emptyE; hypsubst; simp add: MODEL_PRICING_def UNPRICED_ROUTABLE_MODELS_def)
  then show ?thesis using pricing_row [OF assms(1) x assms(3)] r by simp
qed

lemma priced_as_routed_witness:
  "getUsageModelPricing (Some ''api/Astra-High'') = jm_get MODEL_PRICING (resolveNormalizedModel (Some ''api/Astra-High''))"
proof -
  have "plain ''Astra-High''" by (simp add: plain_def js_space_def)
  moreover have "js_lower ''Astra-High'' = ''astra-high''" by code_simp
  then have "isKnownModel ''Astra-High''"
    unfolding isKnownModel_def getNormalizedModel_def trim_plain [OF \<open>plain ''Astra-High''\<close>] strip_plain [OF \<open>plain ''Astra-High''\<close>]
      lookup_lower map_tables
    by (simp add: resolver_simps)
  moreover have "''api/Astra-High'' = ''Astra-High'' \<or> ''api/Astra-High'' = ''api'' @ ''/'' @ ''Astra-High''" by simp
  ultimately show ?thesis by (rule priced_as_routed [THEN conjunct1])
qed



text \<open>
  C34. Every row the ledger writes is read back as it was written: whatever the caller passed, the JSON of the normalised row
  is accepted, and no field is lost or changed.
\<close>

theorem usage_row_roundtrip:
  assumes "js_trim uuid \<noteq> []"
  shows "normalizeParsedUsageRow (usageRowToJsonLine (normalizeUsageLedgerRow sha256 estimateUsageCostUsd uuid now i))
    = Some (normalizeUsageLedgerRow sha256 estimateUsageCostUsd uuid now i)"
proof -
  have "0 \<le> c" if "estimateUsageCostUsd m (normalizeTokens i) = Some c" for m c
  proof -
    have "tokens_nonneg (normalizeTokens i)"
      using count_ok_norm by (simp add: tokens_nonneg_def normalizeTokens_def count_ok_def Let_def)
    moreover obtain base q r where e: "getUsageModelPricing m = Some base"
        "resolveServiceTierPricing base (ut_serviceTier (normalizeTokens i)) = Some q"
        "resolveContextLengthPricing base q (ut_inputTokens (normalizeTokens i)) = Some r"
        "c = toFixed8 (cost_of r (normalizeTokens i))"
      using \<open>estimateUsageCostUsd m (normalizeTokens i) = Some c\<close> unfolding estimate_cases by blast
    moreover obtain b where "cheaper base b" "cheaper b r"
      using row_at_least_standard [OF pricing_sane [OF e(1)] e(2,3)] by blast
    ultimately show ?thesis
      using cost_of_mono [of base b] cost_of_mono [of b r] cost_of_nonneg [of base] pricing_sane [OF e(1)]
      by (force simp: row_sane_def intro!: toFixed8_nonneg)
  qed
  then show ?thesis by (intro parse_row normalize_row_ok assms)
qed

definition sample_input :: usage_input where
  "sample_input = \<lparr>ui_id = None, ui_createdAt = Some NonFinite, ui_source = Some ''cli'', ui_operation = Some ''responses'',
     ui_outcome = Some ''success'', ui_model = Some '' astra '', ui_projectKey = None, ui_accountId = Some ''a'', ui_email = None,
     ui_accountIndex = Some (Finite 3), ui_requestId = None, ui_statusCode = Some (Finite 200), ui_errorCode = None,
     ui_durationMs = Some (Finite (- 5)), ui_inputTokens = Some (Finite (7/2)), ui_outputTokens = None,
     ui_cachedInputTokens = None, ui_reasoningTokens = None, ui_totalTokens = None, ui_serviceTier = Some ''flex'',
     ui_costUsd = None\<rparr>"

lemma usage_row_roundtrip_witness:
  "normalizeParsedUsageRow (usageRowToJsonLine (normalizeUsageLedgerRow (\<lambda>_. ''ff'') estimateUsageCostUsd ''u1'' 5 sample_input))
    = Some (normalizeUsageLedgerRow (\<lambda>_. ''ff'') estimateUsageCostUsd ''u1'' 5 sample_input)"
proof -
  have "js_trim ''u1'' \<noteq> []" by (simp add: js_trim_def js_space_def)
  then show ?thesis by (rule usage_row_roundtrip)
qed

end
