(* ===== verification/Calendar.thy ===== *)
theory Calendar
  imports Prelude
begin

text \<open>
  The part of \<open>Date\<close> the sources use, over UTC: time values are whole milliseconds, days follow the
  proleptic Gregorian calendar of ECMAScript.  \<open>year_of_day\<close> is the year whose days hold a given
  day; the lemmas show that the computed year is that one.
\<close>

abbreviation msPerDay :: int where "msPerDay \<equiv> 86400000"

abbreviation msPerHour :: int where "msPerHour \<equiv> 3600000"

text \<open>\<open>TimeClip\<close>: a time value outside of 8.64e15 is \<open>NaN\<close>.\<close>

definition time_clip :: "jsval \<Rightarrow> int option" where
  "time_clip v =
     (case v of
        NonFinite \<Rightarrow> None
      | Finite x \<Rightarrow> if \<bar>x\<bar> \<le> 8640000000000000 then Some (if 0 \<le> x then \<lfloor>x\<rfloor> else \<lceil>x\<rceil>) else None)"

definition day_of :: "int \<Rightarrow> int" where
  "day_of t = t div msPerDay"

definition hour_of :: "int \<Rightarrow> int" where
  "hour_of t = (t mod msPerDay) div msPerHour"

definition week_day :: "int \<Rightarrow> int" where
  "week_day t = (day_of t + 4) mod 7"

text \<open>The number of the first day of a year.\<close>

definition day_from_year :: "int \<Rightarrow> int" where
  "day_from_year y = 365 * (y - 1970) + (y - 1969) div 4 - (y - 1901) div 100 + (y - 1601) div 400"

definition leap_year :: "int \<Rightarrow> bool" where
  "leap_year y \<longleftrightarrow> y mod 4 = 0 \<and> (y mod 100 \<noteq> 0 \<or> y mod 400 = 0)"

definition year_of_day :: "int \<Rightarrow> int" where
  "year_of_day d =
     (let y = 1970 + (d * 400) div 146097
      in if day_from_year (y + 1) \<le> d then y + 1 else if d < day_from_year y then y - 1 else y)"

text \<open>Days before a month (0..11) within its year.\<close>

definition month_starts :: "bool \<Rightarrow> int list" where
  "month_starts leap =
     (let l = (if leap then 1 else 0)
      in [0, 31, 59 + l, 90 + l, 120 + l, 151 + l, 181 + l, 212 + l, 243 + l, 273 + l, 304 + l, 334 + l])"

definition month_start :: "bool \<Rightarrow> nat \<Rightarrow> int" where
  "month_start leap m = month_starts leap ! m"

definition day_in_year :: "int \<Rightarrow> int" where
  "day_in_year d = d - day_from_year (year_of_day d)"

text \<open>The month and the date of a day.\<close>

definition month_of_day :: "int \<Rightarrow> nat" where
  "month_of_day d =
     length (filter (\<lambda>s. s \<le> day_in_year d) (month_starts (leap_year (year_of_day d)))) - 1"

definition date_of_day :: "int \<Rightarrow> int" where
  "date_of_day d = day_in_year d - month_start (leap_year (year_of_day d)) (month_of_day d) + 1"

text \<open>\<open>MakeDay\<close> for a month in 0..11 and any date, and \<open>MakeDate\<close>.\<close>

definition make_day :: "int \<Rightarrow> nat \<Rightarrow> int \<Rightarrow> int" where
  "make_day y m dt = day_from_year y + month_start (leap_year y) m + dt - 1"

definition make_date :: "int \<Rightarrow> int \<Rightarrow> int" where
  "make_date day time = day * msPerDay + time"

text \<open>\<open>setUTCDate\<close> on a time value: the same month, another date, the same time of day.\<close>

definition set_utc_date :: "int \<Rightarrow> int \<Rightarrow> int" where
  "set_utc_date t dt = make_date (make_day (year_of_day (day_of t)) (month_of_day (day_of t)) dt) (t mod msPerDay)"

definition utc_date :: "int \<Rightarrow> int" where
  "utc_date t = date_of_day (day_of t)"

text \<open>\<open>toISOString().slice(0, 10)\<close>: years outside of 0..9999 have a sign and six digits.\<close>

definition pad :: "nat \<Rightarrow> nat \<Rightarrow> string" where
  "pad w n = replicate (w - length (show_nat n)) (CHR ''0'') @ show_nat n"

definition iso_date :: "int \<Rightarrow> string" where
  "iso_date t =
     (let d = day_of t; y = year_of_day d;
          year = (if 0 \<le> y \<and> y \<le> 9999 then pad 4 (nat y)
                  else (if y < 0 then ''-'' else ''+'') @ pad 6 (nat \<bar>y\<bar>))
      in take 10 (year @ ''-'' @ pad 2 (Suc (month_of_day d)) @ ''-'' @ pad 2 (nat (date_of_day d))))"

section \<open>The computed year and month are right\<close>

lemma div_bounds:
  assumes "0 < (k::int)"
  shows "k * (x div k) \<le> x" and "x < k * (x div k) + k"
proof -
  have "x = k * (x div k) + x mod k" by simp
  moreover have "0 \<le> x mod k" "x mod k < k" using assms by simp_all
  ultimately show "k * (x div k) \<le> x" and "x < k * (x div k) + k" by linarith+
qed

lemma day_from_year_bounds:
  shows "146097 * (y - 1970) - 506 \<le> 400 * day_from_year y"
    and "400 * day_from_year y \<le> 146097 * (y - 1970) + 589"
proof -
  define a b c where "a = (y - 1969) div 4" and "b = (y - 1901) div 100" and "c = (y - 1601) div 400"
  have "4 * a \<le> y - 1969" "y - 1969 < 4 * a + 4" "100 * b \<le> y - 1901" "y - 1901 < 100 * b + 100"
     "400 * c \<le> y - 1601" "y - 1601 < 400 * c + 400"
    unfolding a_def b_def c_def by (rule div_bounds; simp)+
  then have "4 * a \<le> y - 1969" "y - 1969 \<le> 4 * a + 3" "100 * b \<le> y - 1901" "y - 1901 \<le> 100 * b + 99"
     "400 * c \<le> y - 1601" "y - 1601 \<le> 400 * c + 399" by simp_all
  moreover have "day_from_year y = 365 * (y - 1970) + a - b + c"
    by (simp add: day_from_year_def a_def b_def c_def)
  ultimately show "146097 * (y - 1970) - 506 \<le> 400 * day_from_year y"
    and "400 * day_from_year y \<le> 146097 * (y - 1970) + 589" by (simp_all add: algebra_simps)
qed

lemma year_of_day: "day_from_year (year_of_day d) \<le> d \<and> d < day_from_year (year_of_day d + 1)"
proof -
  define y where "y = 1970 + (d * 400) div 146097"
  have "146097 * (y - 1970) \<le> d * 400" "d * 400 < 146097 * (y - 1970) + 146097"
    using div_bounds [of 146097 "d * 400"] unfolding y_def by simp_all
  then have "day_from_year (y - 1) \<le> d" "d < day_from_year (y + 2)"
    using day_from_year_bounds [of "y - 1"] day_from_year_bounds [of "y + 2"] by (simp_all add: algebra_simps)
  then show ?thesis
    unfolding year_of_day_def Let_def y_def [symmetric] by (auto simp: add.commute)
qed

lemma div_step:
  assumes k: "0 < k"
  shows "(x + 1) div k = x div k + (if (x + 1) mod k = 0 then 1 else (0::int))"
proof (cases "(x + 1) mod k = 0")
  case True
  define q where "q = (x + 1) div k"
  have x: "x = (k - 1) + (q - 1) * k" using True mult_div_mod_eq [of k "x + 1"] by (simp add: q_def algebra_simps)
  have "x div k = q - 1" unfolding x using k by (subst div_mult_self1) (simp_all add: div_pos_pos_trivial)
  then show ?thesis using True by (simp add: q_def)
next
  case False
  define q r where "q = (x + 1) div k" and "r = (x + 1) mod k"
  have "0 \<le> r" "r < k" "r \<noteq> 0" using k False by (simp_all add: r_def)
  then have r: "0 \<le> r - 1" "r - 1 < k" by linarith+
  have x: "x = (r - 1) + q * k" using mult_div_mod_eq [of k "x + 1"] by (simp add: q_def r_def algebra_simps)
  have "x div k = q" unfolding x using k r by (subst div_mult_self1) (simp_all add: div_pos_pos_trivial)
  then show ?thesis using False by (simp add: q_def)
qed

lemma mod_shift: "k dvd c \<Longrightarrow> (y - c) mod k = 0 \<longleftrightarrow> y mod k = (0::int)"
  by (metis dvd_diff_commute dvd_imp_mod_0 mod_0_imp_dvd mod_diff_right_eq diff_zero)

lemma leap_div:
  "(y - 1968) div 4 = (y - 1969) div 4 + (if y mod 4 = 0 then 1 else (0::int))"
  "(y - 1900) div 100 = (y - 1901) div 100 + (if y mod 100 = 0 then 1 else (0::int))"
  "(y - 1600) div 400 = (y - 1601) div 400 + (if y mod 400 = 0 then 1 else (0::int))"
proof -
  have m: "(y - 1968) mod 4 = 0 \<longleftrightarrow> y mod 4 = 0" "(y - 1900) mod 100 = 0 \<longleftrightarrow> y mod 100 = 0"
    "(y - 1600) mod 400 = 0 \<longleftrightarrow> y mod 400 = 0"
    by (rule mod_shift; simp)+
  have e: "y - 1969 + 1 = y - 1968" "y - 1901 + 1 = y - 1900" "y - 1601 + 1 = y - 1600" by simp_all
  show "(y - 1968) div 4 = (y - 1969) div 4 + (if y mod 4 = 0 then 1 else (0::int))"
    using div_step [of 4 "y - 1969"] unfolding e m by simp
  show "(y - 1900) div 100 = (y - 1901) div 100 + (if y mod 100 = 0 then 1 else (0::int))"
    using div_step [of 100 "y - 1901"] unfolding e m by simp
  show "(y - 1600) div 400 = (y - 1601) div 400 + (if y mod 400 = 0 then 1 else (0::int))"
    using div_step [of 400 "y - 1601"] unfolding e m by simp
qed

lemma mod_weaken: "j dvd k \<Longrightarrow> y mod k = 0 \<Longrightarrow> y mod j = (0::int)"
  by (meson dvd_trans mod_0_imp_dvd dvd_imp_mod_0)

lemma leap_sum:
  "c \<longrightarrow> b \<Longrightarrow> b \<longrightarrow> a \<Longrightarrow> 365 + (if a then 1 else 0) - (if b then 1 else 0) + (if c then 1 else 0)
     = (if a \<and> (\<not> b \<or> c) then 366 else (365::int))"
  by (cases a; cases b; cases c) simp_all

lemma year_length: "day_from_year (y + 1) - day_from_year y = (if leap_year y then 366 else 365)"
proof -
  have e: "y + 1 - 1969 = y - 1968" "y + 1 - 1901 = y - 1900" "y + 1 - 1601 = y - 1600" by simp_all
  have "day_from_year (y + 1) - day_from_year y = 365 + (if y mod 4 = 0 then 1 else 0) - (if y mod 100 = 0 then 1 else 0)
      + (if y mod 400 = 0 then 1 else 0)"
    unfolding day_from_year_def e leap_div by simp
  also have "\<dots> = (if leap_year y then 366 else 365)"
    unfolding leap_year_def by (rule leap_sum; intro impI; erule mod_weaken [rotated]; simp)
  finally show ?thesis .
qed

lemma day_in_year_range:
  "0 \<le> day_in_year d" "day_in_year d < (if leap_year (year_of_day d) then 366 else 365)"
  using year_of_day [of d] year_length [of "year_of_day d"] by (simp_all add: day_in_year_def)

lemma month_range: "month_of_day d < 12"
proof -
  have "length (filter P (month_starts l)) \<le> 12" for P l
    using length_filter_le [of P "month_starts l"] by (simp add: month_starts_def Let_def)
  from this [of "\<lambda>s. s \<le> day_in_year d" "leap_year (year_of_day d)"] show ?thesis unfolding month_of_day_def by linarith
qed

text \<open>The month found is the one whose days hold the day.\<close>

lemma filter_starts: "sorted (s # ss) \<Longrightarrow> s \<le> k \<Longrightarrow> (s # ss) ! (length (filter (\<lambda>s. s \<le> (k::int)) (s # ss)) - 1) \<le> k"
proof (induction ss arbitrary: s)
  case (Cons x xs)
  show ?case
  proof (cases "x \<le> k")
    case True
    with Cons have "(x # xs) ! (length (filter (\<lambda>s. s \<le> k) (x # xs)) - 1) \<le> k" by simp
    with True Cons.prems show ?thesis by simp
  next
    case False
    with Cons.prems have "filter (\<lambda>s. s \<le> k) (x # xs) = []" by (auto simp: filter_empty_conv)
    with Cons.prems show ?thesis by simp
  qed
qed simp

lemma date_positive: "1 \<le> date_of_day d"
proof -
  let ?l = "leap_year (year_of_day d)"
  obtain ss where ss: "month_starts ?l = 0 # ss" "sorted (0 # ss)" by (cases ?l) (auto simp: month_starts_def Let_def)
  have "month_start ?l (month_of_day d) \<le> day_in_year d"
    unfolding month_start_def month_of_day_def ss(1) using filter_starts ss(2) day_in_year_range(1) by blast
  then show ?thesis by (simp add: date_of_day_def)
qed

lemma date_back: "make_day (year_of_day d) (month_of_day d) (date_of_day d) = d"
  by (simp add: make_day_def date_of_day_def day_in_year_def)

lemma set_utc_date_same: "set_utc_date t (utc_date t + k) = t + k * msPerDay"
proof -
  have "set_utc_date t (utc_date t + k)
      = make_date (make_day (year_of_day (day_of t)) (month_of_day (day_of t)) (date_of_day (day_of t)) + k) (t mod msPerDay)"
    by (simp add: set_utc_date_def utc_date_def make_day_def algebra_simps)
  also have "\<dots> = t + k * msPerDay" unfolding date_back make_date_def by (simp add: day_of_def algebra_simps)
  finally show ?thesis .
qed

end
