(* ===== verification/UsageSummary.thy ===== *)
theory UsageSummary
  imports UsageCost Calendar "HOL-Library.Multiset"
begin

text \<open>
  Summaries of usage rows (\<open>lib/usage/ledger.ts\<close>): the rows of a time window and the buckets they
  are added up in.  Parsing of a date string and the collation of bucket keys
  (\<open>localeCompare\<close>) are parameters.
\<close>

section \<open>Queries and buckets\<close>

datatype timestamp = TNumber jsval | TDate jsval | TString string

definition normalizeTimestamp :: "(string \<Rightarrow> jsval) \<Rightarrow> timestamp option \<Rightarrow> jsnum option" where
  "normalizeTimestamp date_parse value =
     (case value of
        None \<Rightarrow> None
      | Some (TDate t) \<Rightarrow> normalizeFiniteNumber (Some t)
      | Some (TNumber t) \<Rightarrow> normalizeFiniteNumber (Some t)
      | Some (TString s) \<Rightarrow> normalizeFiniteNumber (Some (date_parse s)))"

datatype group_by = ByModel | ByAccount | ByProject | ByOutcome | ByDay

record usage_query =
  uq_since :: "timestamp option"
  uq_until :: "timestamp option"
  uq_by :: "group_by option"

record usage_bucket =
  ub_key :: string
  ub_requests :: nat
  ub_successes :: nat
  ub_failures :: nat
  ub_blocked :: nat
  ub_cancelled :: nat
  ub_inputTokens :: jsnum
  ub_outputTokens :: jsnum
  ub_cachedInputTokens :: jsnum
  ub_reasoningTokens :: jsnum
  ub_totalTokens :: jsnum
  ub_costUsd :: jsnum
  ub_unpricedRequests :: nat

record usage_summary =
  us_since :: "jsnum option"
  us_until :: "jsnum option"
  us_by :: group_by
  us_totals :: usage_bucket
  us_buckets :: "usage_bucket list"

definition in_window :: "jsnum option \<Rightarrow> jsnum option \<Rightarrow> usage_row \<Rightarrow> bool" where
  "in_window since until row \<longleftrightarrow>
     \<not> (case since of None \<Rightarrow> False | Some s \<Rightarrow> ur_createdAt row < s)
     \<and> \<not> (case until of None \<Rightarrow> False | Some u \<Rightarrow> ur_createdAt row > u)"

definition filterRows :: "(string \<Rightarrow> jsval) \<Rightarrow> usage_row list \<Rightarrow> usage_query \<Rightarrow> usage_row list" where
  "filterRows date_parse rows query =
     filter (in_window (normalizeTimestamp date_parse (uq_since query)) (normalizeTimestamp date_parse (uq_until query))) rows"

definition createBucket :: "string \<Rightarrow> usage_bucket" where
  "createBucket key = \<lparr>ub_key = key, ub_requests = 0, ub_successes = 0, ub_failures = 0, ub_blocked = 0, ub_cancelled = 0,
     ub_inputTokens = 0, ub_outputTokens = 0, ub_cachedInputTokens = 0, ub_reasoningTokens = 0, ub_totalTokens = 0,
     ub_costUsd = 0, ub_unpricedRequests = 0\<rparr>"

text \<open>\<open>new Date(createdAt).toISOString()\<close> throws for an invalid date.\<close>

datatype summary_error = InvalidTime

definition getBucketKey :: "usage_row \<Rightarrow> group_by \<Rightarrow> summary_error + string" where
  "getBucketKey row grp =
     (case grp of
        ByAccount \<Rightarrow> Inr (case ur_account row of
            None \<Rightarrow> ''unknown''
          | Some a \<Rightarrow> nullish (ua_accountHash a) (nullish (ua_emailHash a) ''unknown''))
      | ByProject \<Rightarrow> Inr (nullish (ur_projectKey row) ''global'')
      | ByOutcome \<Rightarrow> Inr (name_of VALID_OUTCOMES (ur_outcome row))
      | ByDay \<Rightarrow> (case time_clip (Finite (ur_createdAt row)) of None \<Rightarrow> Inl InvalidTime | Some t \<Rightarrow> Inr (iso_date t))
      | ByModel \<Rightarrow> Inr (nullish (ur_model row) ''unknown''))"

definition addRowToBucket :: "usage_row \<Rightarrow> usage_bucket \<Rightarrow> usage_bucket" where
  "addRowToBucket row b =
     b\<lparr>ub_requests := ub_requests b + 1,
       ub_successes := (if ur_outcome row = OutSuccess then ub_successes b + 1 else ub_successes b),
       ub_failures := (if ur_outcome row = OutFailure then ub_failures b + 1 else ub_failures b),
       ub_blocked := (if ur_outcome row = OutBlocked then ub_blocked b + 1 else ub_blocked b),
       ub_cancelled := (if ur_outcome row = OutCancelled then ub_cancelled b + 1 else ub_cancelled b),
       ub_inputTokens := ub_inputTokens b + ut_inputTokens (ur_tokens row),
       ub_outputTokens := ub_outputTokens b + ut_outputTokens (ur_tokens row),
       ub_cachedInputTokens := ub_cachedInputTokens b + ut_cachedInputTokens (ur_tokens row),
       ub_reasoningTokens := ub_reasoningTokens b + ut_reasoningTokens (ur_tokens row),
       ub_totalTokens := ub_totalTokens b + ut_totalTokens (ur_tokens row),
       ub_costUsd := toFixed8 (ub_costUsd b + nullish (ur_costUsd row) 0),
       ub_unpricedRequests := (if ur_costUsd row = None \<and> 0 < ut_totalTokens (ur_tokens row)
                               then ub_unpricedRequests b + 1 else ub_unpricedRequests b)\<rparr>"

text \<open>The loop over the sorted rows.\<close>

fun summarize_rows ::
  "group_by \<Rightarrow> usage_row list \<Rightarrow> usage_bucket \<times> (string, usage_bucket) jsmap
    \<Rightarrow> summary_error + usage_bucket \<times> (string, usage_bucket) jsmap" where
  "summarize_rows grp [] (totals, buckets) = Inr (totals, buckets)"
| "summarize_rows grp (row # rows) (totals, buckets) =
     (case getBucketKey row grp of
        Inl e \<Rightarrow> Inl e
      | Inr key \<Rightarrow> summarize_rows grp rows (addRowToBucket row totals,
          jm_set key (addRowToBucket row (nullish (jm_get buckets key) (createBucket key))) buckets))"

text \<open>\<open>sort\<close> with a comparator is stable.\<close>

fun insert_cmp :: "('a \<Rightarrow> 'a \<Rightarrow> int) \<Rightarrow> 'a \<Rightarrow> 'a list \<Rightarrow> 'a list" where
  "insert_cmp cmp x [] = [x]"
| "insert_cmp cmp x (y # ys) = (if cmp x y \<le> 0 then x # y # ys else y # insert_cmp cmp x ys)"

definition sort_cmp :: "('a \<Rightarrow> 'a \<Rightarrow> int) \<Rightarrow> 'a list \<Rightarrow> 'a list" where
  "sort_cmp cmp xs = foldr (insert_cmp cmp) xs []"

definition summarizeUsageRows ::
  "(string \<Rightarrow> jsval) \<Rightarrow> (string \<Rightarrow> string \<Rightarrow> int) \<Rightarrow> usage_row list \<Rightarrow> usage_query \<Rightarrow> summary_error + usage_summary" where
  "summarizeUsageRows date_parse collate rows query =
     (let grp = nullish (uq_by query) ByModel;
          filteredRows = sort_key ur_createdAt (filterRows date_parse rows query)
      in case summarize_rows grp filteredRows (createBucket ''total'', []) of
           Inl e \<Rightarrow> Inl e
         | Inr (totals, buckets) \<Rightarrow>
             Inr \<lparr>us_since = normalizeTimestamp date_parse (uq_since query),
                  us_until = normalizeTimestamp date_parse (uq_until query), us_by = grp, us_totals = totals,
                  us_buckets = sort_cmp (\<lambda>a b. collate (ub_key a) (ub_key b)) (map snd buckets)\<rparr>)"

section \<open>What a summary adds up\<close>

text \<open>The bucket of a list of rows.\<close>

definition bucket_of :: "string \<Rightarrow> usage_row list \<Rightarrow> usage_bucket" where
  "bucket_of key rows = fold addRowToBucket rows (createBucket key)"

definition bucket_key :: "group_by \<Rightarrow> usage_row \<Rightarrow> string" where
  "bucket_key grp row = (case getBucketKey row grp of Inr k \<Rightarrow> k | Inl _ \<Rightarrow> [])"

lemma bucket_of_Nil [simp]: "bucket_of key [] = createBucket key"
  by (simp add: bucket_of_def)

lemma bucket_of_snoc: "bucket_of key (rows @ [row]) = addRowToBucket row (bucket_of key rows)"
  by (simp add: bucket_of_def)

lemma summarize_rows_append:
  "summarize_rows grp (xs @ ys) acc = (case summarize_rows grp xs acc of Inl e \<Rightarrow> Inl e | Inr acc' \<Rightarrow> summarize_rows grp ys acc')"
  by (induction grp xs acc rule: summarize_rows.induct) (auto split: sum.split)

text \<open>The map of buckets after a prefix of the rows.\<close>

definition buckets_ok :: "group_by \<Rightarrow> usage_row list \<Rightarrow> (string, usage_bucket) jsmap \<Rightarrow> bool" where
  "buckets_ok grp rows m \<longleftrightarrow> jm_ok m
     \<and> (\<forall>k. jm_get m k = (if \<exists>r \<in> set rows. bucket_key grp r = k
            then Some (bucket_of k (filter (\<lambda>r. bucket_key grp r = k) rows)) else None))"

lemma buckets_ok_step:
  assumes "buckets_ok grp rows m" and "bucket_key grp row = key"
  shows "buckets_ok grp (rows @ [row]) (jm_set key (addRowToBucket row (nullish (jm_get m key) (createBucket key))) m)"
proof -
  have "nullish (jm_get m key) (createBucket key) = bucket_of key (filter (\<lambda>r. bucket_key grp r = key) rows)"
  proof (cases "\<exists>r \<in> set rows. bucket_key grp r = key")
    case True
    then show ?thesis using assms(1) by (simp add: buckets_ok_def)
  next
    case False
    then have "filter (\<lambda>r. bucket_key grp r = key) rows = []" by (auto simp: filter_empty_conv)
    then show ?thesis using assms(1) False by (simp add: buckets_ok_def)
  qed
  then show ?thesis
    using assms by (auto simp: buckets_ok_def jm_get_set bucket_of_snoc)
qed

lemma summarize_rows_ok:
  assumes "list_all (\<lambda>r. \<exists>k. getBucketKey r grp = Inr k) rows"
  shows "\<exists>m. summarize_rows grp rows (createBucket ''total'', []) = Inr (bucket_of ''total'' rows, m) \<and> buckets_ok grp rows m"
  using assms
proof (induction rows rule: rev_induct)
  case Nil
  then show ?case by (simp add: buckets_ok_def)
next
  case (snoc row rows)
  then obtain m where m: "summarize_rows grp rows (createBucket ''total'', []) = Inr (bucket_of ''total'' rows, m)"
      "buckets_ok grp rows m" by auto
  obtain k where k: "getBucketKey row grp = Inr k" using snoc.prems by auto
  then have "bucket_key grp row = k" by (simp add: bucket_key_def)
  from buckets_ok_step [OF m(2) this] show ?case
    by (simp add: summarize_rows_append m(1) k bucket_of_snoc)
qed

lemma mset_insert_cmp: "set (insert_cmp cmp x ys) = insert x (set ys) \<and> length (insert_cmp cmp x ys) = Suc (length ys)"
  by (induction ys) auto

lemma set_sort_cmp: "set (sort_cmp cmp xs) = set xs" "length (sort_cmp cmp xs) = length xs"
  unfolding sort_cmp_def by (induction xs) (auto simp: mset_insert_cmp)

text \<open>Sums over rows do not depend on their order.\<close>

definition row_cost :: "usage_row \<Rightarrow> jsnum" where
  "row_cost r = nullish (ur_costUsd r) 0"

definition unpriced :: "usage_row \<Rightarrow> bool" where
  "unpriced r \<longleftrightarrow> ur_costUsd r = None \<and> 0 < ut_totalTokens (ur_tokens r)"

text \<open>Costs the ledger writes: not negative, multiples of 1e-8.\<close>

definition cost_ok :: "usage_row \<Rightarrow> bool" where
  "cost_ok r \<longleftrightarrow> (\<exists>n. row_cost r = of_nat n / 10 ^ 8)"

lemma bucket_counts:
  "ub_key (bucket_of k rows) = k"
  "ub_requests (bucket_of k rows) = length rows"
  "ub_totalTokens (bucket_of k rows) = sum_list (map (\<lambda>r. ut_totalTokens (ur_tokens r)) rows)"
  "ub_inputTokens (bucket_of k rows) = sum_list (map (\<lambda>r. ut_inputTokens (ur_tokens r)) rows)"
  "ub_outputTokens (bucket_of k rows) = sum_list (map (\<lambda>r. ut_outputTokens (ur_tokens r)) rows)"
  "ub_unpricedRequests (bucket_of k rows) = length (filter unpriced rows)"
  "ub_successes (bucket_of k rows) + ub_failures (bucket_of k rows) + ub_blocked (bucket_of k rows)
     + ub_cancelled (bucket_of k rows) = length rows"
proof (induction rows rule: rev_induct)
  case (snoc r rows)
  {
    case 7
    then show ?case using snoc(7) by (cases "ur_outcome r") (simp_all add: bucket_of_snoc addRowToBucket_def)
  }
qed (simp_all add: createBucket_def bucket_of_snoc addRowToBucket_def unpriced_def)

lemma toFixed8_fix: "toFixed8 (of_nat n / 10 ^ 8) = of_nat n / 10 ^ 8"
  using round8_fix [of "int n"] by (simp add: toFixed8_def)

lemma bucket_cost:
  "list_all cost_ok rows \<Longrightarrow>
     (\<exists>n. ub_costUsd (bucket_of k rows) = of_nat n / 10 ^ 8) \<and> ub_costUsd (bucket_of k rows) = sum_list (map row_cost rows)"
proof (induction rows rule: rev_induct)
  case Nil
  then show ?case by (auto simp: createBucket_def intro: exI [of _ 0])
next
  case (snoc r rows)
  then obtain m n where m: "ub_costUsd (bucket_of k rows) = of_nat m / 10 ^ 8" and n: "row_cost r = of_nat n / 10 ^ 8"
    by (auto simp: cost_ok_def)
  have "ub_costUsd (bucket_of k (rows @ [r])) = toFixed8 (of_nat m / 10 ^ 8 + of_nat n / 10 ^ 8)"
    unfolding m [symmetric] n [symmetric] by (simp add: bucket_of_snoc addRowToBucket_def row_cost_def)
  also have "\<dots> = of_nat (m + n) / 10 ^ 8" using toFixed8_fix [of "m + n"] by (simp add: add_divide_distrib)
  finally have e: "ub_costUsd (bucket_of k (rows @ [r])) = of_nat (m + n) / 10 ^ 8" .
  moreover have "of_nat (m + n) / 10 ^ 8 = sum_list (map row_cost (rows @ [r]))"
    using snoc m n by (simp add: add_divide_distrib)
  ultimately show ?case by metis
qed

definition window_rows :: "(string \<Rightarrow> jsval) \<Rightarrow> usage_query \<Rightarrow> usage_row list \<Rightarrow> usage_row list" where
  "window_rows date_parse query rows = sort_key ur_createdAt (filterRows date_parse rows query)"

lemma sum_list_sort: "sum_list (map f (sort_key g xs)) = (sum_list (map f xs) :: jsnum)"
  by (metis mset_map mset_sort sum_mset_sum_list)

lemma length_filter_sort: "length (filter P (sort_key g xs)) = length (filter P xs)"
  by (metis mset_filter mset_sort size_mset)

lemma list_all_sort: "list_all P (sort_key g xs) = list_all P xs"
  by (simp add: list_all_iff)

lemma summary_form:
  assumes "list_all (\<lambda>r. \<exists>k. getBucketKey r (nullish (uq_by q) ByModel) = Inr k) (filterRows dp rows q)"
  shows "\<exists>s. summarizeUsageRows dp collate rows q = Inr s \<and> us_totals s = bucket_of ''total'' (window_rows dp q rows)
    \<and> (\<exists>m. buckets_ok (nullish (uq_by q) ByModel) (window_rows dp q rows) m \<and> set (us_buckets s) = snd ` set m
         \<and> length (us_buckets s) = length m)"
proof -
  have "list_all (\<lambda>r. \<exists>k. getBucketKey r (nullish (uq_by q) ByModel) = Inr k) (window_rows dp q rows)"
    using assms by (simp add: window_rows_def list_all_sort)
  from summarize_rows_ok [OF this] obtain m where
    "summarize_rows (nullish (uq_by q) ByModel) (window_rows dp q rows) (createBucket ''total'', [])
       = Inr (bucket_of ''total'' (window_rows dp q rows), m)" "buckets_ok (nullish (uq_by q) ByModel) (window_rows dp q rows) m"
    by blast
  then show ?thesis
    by (auto simp: summarizeUsageRows_def window_rows_def [symmetric] Let_def set_sort_cmp intro!: exI [of _ m])
qed

text \<open>Grouping by anything but the day cannot fail.\<close>

lemma key_defined: "grp \<noteq> ByDay \<Longrightarrow> \<exists>k. getBucketKey r grp = Inr k"
  by (cases grp) (auto simp: getBucketKey_def)

text \<open>Reading the map of buckets.\<close>

lemma buckets_entry:
  assumes "buckets_ok grp rows m" and "(k, b) \<in> set m"
  shows "b = bucket_of k (filter (\<lambda>r. bucket_key grp r = k) rows) \<and> k \<in> bucket_key grp ` set rows"
proof -
  have "jm_get m k = Some b" using assms unfolding buckets_ok_def by (intro jm_mem_get) simp_all
  then show ?thesis using assms(1) by (auto simp: buckets_ok_def split: if_splits)
qed

lemma buckets_keys:
  assumes "buckets_ok grp rows m"
  shows "fst ` set m = bucket_key grp ` set rows"
proof
  show "fst ` set m \<subseteq> bucket_key grp ` set rows" using buckets_entry [OF assms] by force
  show "bucket_key grp ` set rows \<subseteq> fst ` set m"
  proof
    fix k assume "k \<in> bucket_key grp ` set rows"
    then have "jm_get m k \<noteq> None" using assms by (auto simp: buckets_ok_def)
    then show "k \<in> fst ` set m" using jm_get_mem by force
  qed
qed

section \<open>Property\<close>


definition sample_row :: usage_row where
  "sample_row = \<lparr>ur_id = ''r'', ur_createdAt = 5, ur_source = SrcCli, ur_operation = OpResponses, ur_outcome = OutSuccess,
     ur_model = Some ''gpt-reserve'', ur_projectKey = None, ur_account = None, ur_requestId = None, ur_statusCode = None,
     ur_errorCode = None, ur_durationMs = None,
     ur_tokens = \<lparr>ut_inputTokens = 3, ut_outputTokens = 0, ut_cachedInputTokens = 0, ut_reasoningTokens = 0, ut_totalTokens = 3,
                  ut_serviceTier = None\<rparr>, ur_costUsd = None\<rparr>"


end
