(* ===== verification/JsonStore.thy ===== *)
theory JsonStore
  imports UsageLedger
begin

text \<open>
  What the three governance stores share (\<open>lib/storage/json-store-lock.ts\<close> and the merges of
  \<open>lib/account-policy.ts\<close>, \<open>lib/budget-guard.ts\<close>, \<open>lib/routing-profiles.ts\<close>): the time stamp of a
  write and the merge of a save over the store on disk.  The three merges are one function of the
  stamp of an entry; the locale \<open>stamped_entries\<close> is the contract of that stamp and is
  interpreted by each store.  A save runs under the store's lock, so it is one step; the merge also
  changes the stamps in the entries it was handed, which matters when the save is tried again.
\<close>

section \<open>Text keys\<close>

text \<open>\<open>replace(/[^...]+/g, "-")\<close>: every run of other characters becomes one dash.\<close>

function dash_runs :: "(char \<Rightarrow> bool) \<Rightarrow> string \<Rightarrow> string" where
  "dash_runs ok [] = []"
| "dash_runs ok (c # cs) =
     (if ok c then c # dash_runs ok cs else CHR ''-'' # dash_runs ok (dropWhile (\<lambda>c. \<not> ok c) cs))"
  by pat_completeness auto
termination by (relation "measure (\<lambda>(_, s). length s)") (auto simp: le_imp_less_Suc length_dropWhile_le)

lemma dash_runs_chars: "ok (CHR ''-'') \<Longrightarrow> list_all ok (dash_runs ok s)"
  by (induction ok s rule: dash_runs.induct) auto

lemma dash_runs_id: "list_all ok s \<Longrightarrow> dash_runs ok s = s"
  by (induction s) auto

section \<open>Stamps and merges\<close>

definition stampUpdatedAt :: "jsnum \<Rightarrow> jsnum option \<Rightarrow> jsnum" where
  "stampUpdatedAt now prior = (case prior of None \<Rightarrow> now | Some p \<Rightarrow> if now < p then p + 1 else now)"

text \<open>
  The loop over the incoming entries: the merged store and the incoming entries as it leaves them.
  \<open>JSON.stringify(a) === JSON.stringify(b)\<close> on normalised entries is equality.
\<close>

definition merge_entry ::
  "('e \<Rightarrow> jsnum) \<Rightarrow> (jsnum \<Rightarrow> 'e \<Rightarrow> 'e) \<Rightarrow> (string, 'e) jsmap option \<Rightarrow> string \<Rightarrow> 'e \<Rightarrow> (string, 'e) jsmap
    \<Rightarrow> (string, 'e) jsmap \<times> 'e" where
  "merge_entry stamp restamp baseline k e merged =
     (let existing = jm_get merged k
      in case baseline of
           None \<Rightarrow> (if (case existing of None \<Rightarrow> True | Some x \<Rightarrow> stamp x \<le> stamp e) then jm_set k e merged else merged, e)
         | Some b \<Rightarrow>
             if jm_get b k = Some e then (merged, e)
             else let e' = restamp (stampUpdatedAt (stamp e) (map_option stamp existing)) e in (jm_set k e' merged, e'))"

fun merge_entries ::
  "('e \<Rightarrow> jsnum) \<Rightarrow> (jsnum \<Rightarrow> 'e \<Rightarrow> 'e) \<Rightarrow> (string, 'e) jsmap option \<Rightarrow> (string, 'e) jsmap \<Rightarrow> (string, 'e) jsmap
    \<Rightarrow> (string, 'e) jsmap \<times> (string, 'e) jsmap" where
  "merge_entries stamp restamp baseline [] merged = (merged, [])"
| "merge_entries stamp restamp baseline ((k, e) # incoming) merged =
     (let (merged', e') = merge_entry stamp restamp baseline k e merged;
          (final, rest) = merge_entries stamp restamp baseline incoming merged'
      in (final, (k, e') # rest))"

definition merged_with ::
  "('e \<Rightarrow> jsnum) \<Rightarrow> (jsnum \<Rightarrow> 'e \<Rightarrow> 'e) \<Rightarrow> (string, 'e) jsmap option \<Rightarrow> (string, 'e) jsmap \<Rightarrow> (string, 'e) jsmap \<Rightarrow> (string, 'e) jsmap" where
  "merged_with stamp restamp baseline incoming current = fst (merge_entries stamp restamp baseline incoming current)"

lemma stamp_ge: "now \<le> stampUpdatedAt now prior" "prior = Some p \<Longrightarrow> p \<le> stampUpdatedAt now prior"
  by (auto simp: stampUpdatedAt_def split: option.split)

text \<open>What the merge does to one key of the store on disk.\<close>

definition merge_one ::
  "('e \<Rightarrow> jsnum) \<Rightarrow> (jsnum \<Rightarrow> 'e \<Rightarrow> 'e) \<Rightarrow> (string, 'e) jsmap option \<Rightarrow> string \<Rightarrow> 'e option \<Rightarrow> 'e option \<Rightarrow> 'e option" where
  "merge_one stamp restamp baseline k carried existing =
     (case carried of
        None \<Rightarrow> existing
      | Some e \<Rightarrow>
          (case baseline of
             None \<Rightarrow> (case existing of None \<Rightarrow> Some e | Some x \<Rightarrow> if stamp x \<le> stamp e then Some e else Some x)
           | Some b \<Rightarrow> if jm_get b k = Some e then existing
               else Some (restamp (stampUpdatedAt (stamp e) (map_option stamp existing)) e)))"

lemma merged_with_Nil [simp]: "merged_with stamp restamp baseline [] current = current"
  by (simp add: merged_with_def)

lemma merged_with_Cons [simp]:
  "merged_with stamp restamp baseline ((k, e) # incoming) current =
     merged_with stamp restamp baseline incoming (fst (merge_entry stamp restamp baseline k e current))"
  by (simp add: merged_with_def Let_def split: prod.split)

lemma merge_entry_get:
  "jm_get (fst (merge_entry stamp restamp baseline k e m)) k' =
     (if k' = k then merge_one stamp restamp baseline k (Some e) (jm_get m k) else jm_get m k')"
  by (auto simp: merge_entry_def merge_one_def Let_def jm_get_set split: option.split)

lemma merge_entry_ok: "jm_ok m \<Longrightarrow> jm_ok (fst (merge_entry stamp restamp baseline k e m))"
  by (auto simp: merge_entry_def Let_def split: option.split)

lemma merge_one_None [simp]: "merge_one stamp restamp baseline k None x = x"
  by (simp add: merge_one_def)

lemma merge_get:
  "jm_ok incoming \<Longrightarrow> jm_get (merged_with stamp restamp baseline incoming current) k
    = merge_one stamp restamp baseline k (jm_get incoming k) (jm_get current k)"
proof (induction incoming arbitrary: current)
  case Nil
  then show ?case by (simp add: merge_one_def)
next
  case (Cons ke incoming)
  obtain k' e where ke: "ke = (k', e)" by (cases ke)
  from Cons.prems have ok: "jm_ok incoming" and new: "jm_get incoming k' = None" by (simp_all add: ke)
  show ?case
    using Cons.IH [OF ok] new by (cases "k = k'") (simp_all add: ke merge_entry_get)
qed

text \<open>A sequence of saves, each with the entries it carries and its snapshot, and the saves that leave a key alone.\<close>

definition saves ::
  "('e \<Rightarrow> jsnum) \<Rightarrow> (jsnum \<Rightarrow> 'e \<Rightarrow> 'e) \<Rightarrow> ((string, 'e) jsmap \<times> (string, 'e) jsmap option) list \<Rightarrow> (string, 'e) jsmap
    \<Rightarrow> (string, 'e) jsmap" where
  "saves stamp restamp ops current = fold (\<lambda>(incoming, baseline). merged_with stamp restamp baseline incoming) ops current"

definition leaves :: "string \<Rightarrow> (string, 'e) jsmap \<times> (string, 'e) jsmap option \<Rightarrow> bool" where
  "leaves k op \<longleftrightarrow> jm_get (fst op) k = None
     \<or> (\<exists>b e. snd op = Some b \<and> jm_get (fst op) k = Some e \<and> jm_get b k = Some e)"

lemma saves_simps [simp]:
  "saves stamp restamp [] current = current"
  "saves stamp restamp (op # ops) current
     = saves stamp restamp ops (merged_with stamp restamp (snd op) (fst op) current)"
  by (simp_all add: saves_def case_prod_beta)

section \<open>The contract of a stamp\<close>

locale stamped_entries =
  fixes stamp :: "'e \<Rightarrow> jsnum" and restamp :: "jsnum \<Rightarrow> 'e \<Rightarrow> 'e"
  assumes stamp_restamp: "stamp (restamp t e) = t"
begin

text \<open>A key that is not carried, or carried unchanged from the snapshot, is what it was on disk.\<close>

lemma merge_keeps:
  assumes "jm_ok incoming" and "jm_get incoming k = None \<or> (\<exists>b e. baseline = Some b \<and> jm_get incoming k = Some e \<and> jm_get b k = Some e)"
  shows "jm_get (merged_with stamp restamp baseline incoming current) k = jm_get current k"
  using assms by (auto simp: merge_get merge_one_def)

text \<open>An edited entry is written, and its stamp is not below that of the entry it replaces.\<close>

lemma merge_writes:
  assumes "jm_ok incoming" and "jm_get incoming k = Some e" and "jm_get b k \<noteq> Some e"
  shows "\<exists>t. jm_get (merged_with stamp restamp (Some b) incoming current) k = Some (restamp t e) \<and> stamp e \<le> t
    \<and> (\<forall>x. jm_get current k = Some x \<longrightarrow> stamp x \<le> t)"
  using assms stamp_ge by (auto simp: merge_get merge_one_def)

lemma merge_newest:
  assumes "jm_ok incoming" and "jm_get incoming k = Some e"
  shows "jm_get (merged_with stamp restamp None incoming current) k =
    (case jm_get current k of None \<Rightarrow> Some e | Some x \<Rightarrow> if stamp x \<le> stamp e then Some e else Some x)"
  using assms by (simp add: merge_get merge_one_def)

text \<open>No merge takes a stamp back.\<close>

lemma merge_one_monotone: "\<exists>y. merge_one stamp restamp baseline k carried (Some x) = Some y \<and> stamp x \<le> stamp y"
proof -
  have "stamp x \<le> stampUpdatedAt (stamp e) (Some (stamp x))" for e using stamp_ge(2) by blast
  then show ?thesis
    by (cases carried; cases baseline) (auto simp: merge_one_def stamp_restamp)
qed

lemma merge_monotone:
  assumes "jm_ok incoming" and "jm_get current k = Some x"
  shows "\<exists>y. jm_get (merged_with stamp restamp baseline incoming current) k = Some y \<and> stamp x \<le> stamp y"
  unfolding merge_get [OF assms(1)] assms(2) by (rule merge_one_monotone)

lemma merge_ok: "jm_ok current \<Longrightarrow> jm_ok (merged_with stamp restamp baseline incoming current)"
proof (induction incoming arbitrary: current)
  case (Cons ke incoming)
  obtain k e where ke: "ke = (k, e)" by (cases ke)
  show ?case unfolding ke merged_with_Cons by (intro Cons.IH merge_entry_ok Cons.prems)
qed simp

text \<open>What survives a sequence of saves.\<close>

lemma saves_keep:
  assumes "list_all (jm_ok \<circ> fst) ops" and "list_all (leaves k) ops"
  shows "jm_get (saves stamp restamp ops current) k = jm_get current k"
  using assms
proof (induction ops arbitrary: current)
  case (Cons op ops)
  then show ?case using merge_keeps [of "fst op" k "snd op" current] by (auto simp: leaves_def)
qed simp

lemma saves_monotone:
  assumes "list_all (jm_ok \<circ> fst) ops" and "jm_get current k = Some x"
  shows "\<exists>y. jm_get (saves stamp restamp ops current) k = Some y \<and> stamp x \<le> stamp y"
  using assms
proof (induction ops arbitrary: current x)
  case (Cons op ops)
  then obtain y where "jm_get (merged_with stamp restamp (snd op) (fst op) current) k = Some y" "stamp x \<le> stamp y"
    using merge_monotone [of "fst op" current k x "snd op"] by auto
  then show ?case using Cons.IH [of "merged_with stamp restamp (snd op) (fst op) current" y] Cons.prems(1) by force
qed simp

lemma saves_edit:
  assumes "jm_ok incoming" and "list_all (jm_ok \<circ> fst) ops" and "list_all (leaves k) ops"
    and "jm_get incoming k = Some e" and "jm_get b k \<noteq> Some e"
  shows "\<exists>t. jm_get (saves stamp restamp ((incoming, Some b) # ops) current) k = Some (restamp t e) \<and> stamp e \<le> t
    \<and> (\<forall>x. jm_get current k = Some x \<longrightarrow> stamp x \<le> t)"
  using merge_writes [OF assms(1,4,5)] by (simp add: saves_keep [OF assms(2,3)])

end

end
