(* ===== verification/BudgetGuard.thy ===== *)
theory BudgetGuard
  imports UsageSummary JsonStore
begin

text \<open>
  Budget limits (\<open>lib/budget-guard.ts\<close>): the store and its merge, limits read from JSON, the start
  of a window, and the evaluation of a limit against the usage of its window.  A reason is kept as
  the values its message shows.
\<close>

section \<open>Limits and the store\<close>

datatype budget_window = WinHour | WinDay | WinWeek | WinMonth

definition VALID_WINDOWS :: "(string \<times> budget_window) list" where
  "VALID_WINDOWS = [(''hour'', WinHour), (''day'', WinDay), (''week'', WinWeek), (''month'', WinMonth)]"

record budget_limit =
  bl_key :: string
  bl_window :: budget_window
  bl_maxRequests :: "jsnum option"
  bl_maxTokens :: "jsnum option"
  bl_maxCostUsd :: "jsnum option"
  bl_updatedAt :: jsnum

type_synonym budget_store = "(string, budget_limit) jsmap"

definition budget_char :: "char \<Rightarrow> bool" where
  "budget_char c \<longleftrightarrow> is_digit c \<or> (97 \<le> (of_char c :: nat) \<and> (of_char c :: nat) \<le> 122) \<or> c \<in> set ''._:-''"

definition normalizeBudgetKey :: "string \<Rightarrow> string option" where
  "normalizeBudgetKey v =
     (let normalized = dash_runs budget_char (js_lower (js_trim v))
      in if normalized = [] then None else Some (take 100 normalized))"

definition normalizePositiveNumber :: "json option \<Rightarrow> jsnum option" where
  "normalizePositiveNumber v = (case json_finite v of Some x \<Rightarrow> if 0 < x then Some x else None | None \<Rightarrow> None)"

definition normalizeLimit :: "string \<Rightarrow> json option \<Rightarrow> budget_limit option" where
  "normalizeLimit key v =
     (if \<not> isRecord v then None
      else let j = the v in
        case Option.bind (json_string (json_field j ''window'')) (map_of VALID_WINDOWS) of
          None \<Rightarrow> None
        | Some window \<Rightarrow> Some \<lparr>bl_key = key, bl_window = window,
            bl_maxRequests = normalizePositiveNumber (json_field j ''maxRequests''),
            bl_maxTokens = normalizePositiveNumber (json_field j ''maxTokens''),
            bl_maxCostUsd = normalizePositiveNumber (json_field j ''maxCostUsd''),
            bl_updatedAt = nullish (json_finite (json_field j ''updatedAt'')) 0\<rparr>)"

definition store_step :: "string \<times> json \<Rightarrow> budget_store \<Rightarrow> budget_store" where
  "store_step e limits =
     (case normalizeBudgetKey (fst e) of
        None \<Rightarrow> limits
      | Some key \<Rightarrow> (case normalizeLimit key (Some (snd e)) of None \<Rightarrow> limits | Some limit \<Rightarrow> jm_set key limit limits))"

definition normalizeBudgetStore :: "json \<Rightarrow> budget_store" where
  "normalizeBudgetStore v =
     (if json_finite (json_field v ''version'') \<noteq> Some 1 then []
      else case json_field v ''limits'' of Some (JObj entries) \<Rightarrow> fold store_step entries [] | _ \<Rightarrow> [])"

definition restamp_limit :: "jsnum \<Rightarrow> budget_limit \<Rightarrow> budget_limit" where
  "restamp_limit t limit = limit\<lparr>bl_updatedAt := t\<rparr>"

definition mergeBudgetGuardLimits :: "budget_store \<Rightarrow> budget_store \<Rightarrow> budget_store option \<Rightarrow> budget_store" where
  "mergeBudgetGuardLimits current incoming baseline = merged_with bl_updatedAt restamp_limit baseline incoming current"

interpretation budget_merge: stamped_entries bl_updatedAt restamp_limit
  by unfold_locales (simp add: restamp_limit_def)

datatype budget_error = BudgetKeyRequired | InvalidBudgetLimit

text \<open>\<open>normalizeLimit\<close> on the typed limit of a caller; a bound that is not positive and finite is dropped.\<close>

definition positive_bound :: "jsval option \<Rightarrow> jsnum option" where
  "positive_bound v = (case v of Some (Finite x) \<Rightarrow> if 0 < x then Some x else None | _ \<Rightarrow> None)"

definition upsertBudgetLimit ::
  "budget_store \<Rightarrow> string \<Rightarrow> string \<Rightarrow> jsval option \<Rightarrow> jsval option \<Rightarrow> jsval option \<Rightarrow> jsnum
    \<Rightarrow> budget_error + budget_limit \<times> budget_store" where
  "upsertBudgetLimit store key window maxRequests maxTokens maxCostUsd now =
     (case normalizeBudgetKey key of
        None \<Rightarrow> Inl BudgetKeyRequired
      | Some key \<Rightarrow> (case map_of VALID_WINDOWS window of
        None \<Rightarrow> Inl InvalidBudgetLimit
      | Some window \<Rightarrow>
          let limit = \<lparr>bl_key = key, bl_window = window, bl_maxRequests = positive_bound maxRequests,
                 bl_maxTokens = positive_bound maxTokens, bl_maxCostUsd = positive_bound maxCostUsd,
                 bl_updatedAt = stampUpdatedAt now (map_option bl_updatedAt (jm_get store key))\<rparr>
          in Inr (limit, jm_set key limit store)))"

section \<open>Windows\<close>

text \<open>The setters keep a time value inside the range of dates or make it \<open>NaN\<close>.\<close>

definition clip_back :: "int \<Rightarrow> jsval" where
  "clip_back t = (case time_clip (Finite (of_int t)) of None \<Rightarrow> NonFinite | Some t \<Rightarrow> Finite (of_int t))"

definition start_of_hour :: "int \<Rightarrow> int" where
  "start_of_hour t = make_date (day_of t) (hour_of t * msPerHour)"

definition start_of_day :: "int \<Rightarrow> int" where
  "start_of_day t = make_date (day_of t) 0"

definition start_of_week :: "int \<Rightarrow> int" where
  "start_of_week t =
     (let date = start_of_day t; day = week_day date; mondayOffset = (if day = 0 then 6 else day - 1)
      in set_utc_date date (utc_date date - mondayOffset))"

definition start_of_month :: "int \<Rightarrow> int" where
  "start_of_month t = start_of_day (set_utc_date t 1)"

definition getBudgetWindowStart :: "budget_window \<Rightarrow> jsval \<Rightarrow> jsval" where
  "getBudgetWindowStart window now =
     (case time_clip now of
        None \<Rightarrow> NonFinite
      | Some t \<Rightarrow> clip_back (case window of
            WinHour \<Rightarrow> start_of_hour t
          | WinDay \<Rightarrow> start_of_day t
          | WinWeek \<Rightarrow> start_of_week t
          | WinMonth \<Rightarrow> start_of_month t))"

section \<open>Evaluation\<close>

datatype budget_reason =
    RequestLimitReached nat jsnum
  | TokenLimitReached jsnum jsnum
  | CostLimitReached jsnum jsnum
  | CostNotEvaluable nat jsnum

record budget_evaluation =
  be_key :: string
  be_window :: budget_window
  be_allowed :: bool
  be_reasons :: "budget_reason list"
  be_usage :: "nat \<times> jsnum \<times> jsnum \<times> nat"
  be_limits :: "jsnum option \<times> jsnum option \<times> jsnum option"

definition evaluateBudgetGuard :: "budget_limit \<Rightarrow> usage_summary \<Rightarrow> budget_evaluation" where
  "evaluateBudgetGuard limit summary =
     (let totals = us_totals summary;
          reasons =
            (case bl_maxRequests limit of
               None \<Rightarrow> []
             | Some k \<Rightarrow> if k \<le> of_nat (ub_requests totals) then [RequestLimitReached (ub_requests totals) k] else [])
            @ (case bl_maxTokens limit of
               None \<Rightarrow> []
             | Some k \<Rightarrow> if k \<le> ub_totalTokens totals then [TokenLimitReached (ub_totalTokens totals) k] else [])
            @ (case bl_maxCostUsd limit of
               None \<Rightarrow> []
             | Some k \<Rightarrow> if k \<le> ub_costUsd totals then [CostLimitReached (ub_costUsd totals) k]
                 else if 0 < ub_unpricedRequests totals
                   then [CostNotEvaluable (ub_unpricedRequests totals) (ub_costUsd totals)] else [])
      in \<lparr>be_key = bl_key limit, be_window = bl_window limit, be_allowed = (reasons = []), be_reasons = reasons,
          be_usage = (ub_requests totals, ub_totalTokens totals, ub_costUsd totals, ub_unpricedRequests totals),
          be_limits = (bl_maxRequests limit, bl_maxTokens limit, bl_maxCostUsd limit)\<rparr>)"

section \<open>Where a window starts\<close>

lemma day_bounds: "day_of t * msPerDay \<le> t \<and> t < day_of t * msPerDay + msPerDay"
  using div_bounds [of msPerDay t] by (simp add: day_of_def mult.commute)

lemma start_of_day_bounds: "start_of_day t \<le> t \<and> t < start_of_day t + msPerDay"
  using day_bounds [of t] by (simp add: start_of_day_def make_date_def)

lemma day_of_start [simp]: "day_of (make_date d 0) = d"
  by (simp add: day_of_def make_date_def)

lemma start_of_hour_bounds: "start_of_hour t \<le> t \<and> t < start_of_hour t + msPerHour"
proof -
  have "hour_of t * msPerHour \<le> t mod msPerDay" "t mod msPerDay < hour_of t * msPerHour + msPerHour"
    using div_bounds [of msPerHour "t mod msPerDay"] by (simp_all add: hour_of_def mult.commute)
  moreover have "t = day_of t * msPerDay + t mod msPerDay" by (simp add: day_of_def)
  ultimately show ?thesis unfolding start_of_hour_def make_date_def by linarith
qed

lemma back_to_monday:
  fixes x :: int
  shows "x mod 7 = 0 \<Longrightarrow> 1 = (x - 6) mod 7" and "x mod 7 \<noteq> 0 \<Longrightarrow> 1 = (x - (x mod 7 - 1)) mod 7"
proof -
  have x: "x = 7 * (x div 7) + x mod 7" by simp
  show "1 = (x - 6) mod 7" if "x mod 7 = 0"
  proof -
    have "x - 6 = 1 + 7 * (x div 7 - 1)" using x that by simp
    then show ?thesis by (simp only: mod_mult_self2) simp
  qed
  show "1 = (x - (x mod 7 - 1)) mod 7" if "x mod 7 \<noteq> 0"
  proof -
    have "x - (x mod 7 - 1) = 1 + 7 * (x div 7)" using x by linarith
    then show ?thesis by (simp only: mod_mult_self2) simp
  qed
qed

lemma week_start:
  "start_of_week t \<le> t \<and> t < start_of_week t + 7 * msPerDay \<and> week_day (start_of_week t) = 1
    \<and> start_of_week t = make_date (day_of (start_of_week t)) 0"
proof -
  define d where "d = start_of_day t"
  define k where "k = (if week_day d = 0 then 6 else week_day d - 1)"
  have dd: "d = make_date (day_of t) 0" by (simp add: d_def start_of_day_def)
  have w: "0 \<le> week_day d" "week_day d < 7" by (simp_all add: week_day_def)
  then have k: "0 \<le> k" "k \<le> 6" by (auto simp: k_def)
  have s: "start_of_week t = d - k * msPerDay"
    using set_utc_date_same [of d "- k"] unfolding start_of_week_def Let_def d_def [symmetric] k_def [symmetric] by simp
  also have "\<dots> = make_date (day_of t - k) 0" by (simp add: dd make_date_def algebra_simps)
  finally have m: "start_of_week t = make_date (day_of t - k) 0" .
  have "week_day (start_of_week t) = (day_of t + 4 - k) mod 7" by (simp add: m week_day_def algebra_simps)
  moreover have wd: "week_day d = (day_of t + 4) mod 7" by (simp add: week_day_def dd)
  have "(day_of t + 4 - k) mod 7 = 1"
  proof (cases "(day_of t + 4) mod 7 = 0")
    case True
    then have "k = 6" by (simp add: k_def wd)
    show ?thesis unfolding \<open>k = 6\<close> using back_to_monday(1) [OF True] by (rule sym)
  next
    case False
    then have e: "k = (day_of t + 4) mod 7 - 1" by (simp add: k_def wd)
    show ?thesis unfolding e using back_to_monday(2) [OF False] by (rule sym)
  qed
  ultimately have "week_day (start_of_week t) = 1" by simp
  moreover have "start_of_week t = make_date (day_of (start_of_week t)) 0" unfolding m by simp
  moreover have "start_of_week t \<le> t" "t < start_of_week t + 7 * msPerDay"
    using s start_of_day_bounds [of t] k unfolding d_def by linarith+
  ultimately show ?thesis by blast
qed

lemma month_start_day: "day_of (start_of_month t) = day_of t - date_of_day (day_of t) + 1"
proof -
  have "day_of (set_utc_date t 1) = day_of t - date_of_day (day_of t) + 1"
  proof -
    have "set_utc_date t (utc_date t + (1 - utc_date t)) = t + (1 - utc_date t) * msPerDay" by (rule set_utc_date_same)
    then have "set_utc_date t 1 = t + (1 - utc_date t) * msPerDay" by simp
    then have "day_of (set_utc_date t 1) = day_of t + (1 - utc_date t)" by (simp add: day_of_def)
    then show ?thesis by (simp add: utc_date_def)
  qed
  then show ?thesis by (simp add: start_of_month_def start_of_day_def)
qed

lemma year_unique:
  assumes "day_from_year y \<le> d" "d < day_from_year (y + 1)"
  shows "year_of_day d = y"
proof -
  have gap: "day_from_year (u + 1) \<le> day_from_year v" if "u < v" for u v
  proof (cases "v = u + 1")
    case False
    with that have "u + 2 \<le> v" by simp
    then show ?thesis using day_from_year_bounds(2) [of "u + 1"] day_from_year_bounds(1) [of v] by (simp add: algebra_simps)
  qed simp
  let ?z = "year_of_day d"
  have "\<not> ?z < y" using gap [of ?z y] year_of_day [of d] assms by linarith
  moreover have "\<not> y < ?z" using gap [of y ?z] year_of_day [of d] assms by linarith
  ultimately show ?thesis by linarith
qed

lemma month_start_range: "m < 12 \<Longrightarrow> 0 \<le> month_start l m \<and> month_start l m < 365"
  unfolding month_start_def month_starts_def Let_def
  by (cases l) (auto simp: less_Suc_eq numeral_eq_Suc)

lemma month_of_start: "m < 12 \<Longrightarrow> length (filter (\<lambda>s. s \<le> month_start l m) (month_starts l)) - 1 = m"
  unfolding month_start_def month_starts_def Let_def
  by (cases l) (auto simp: less_Suc_eq numeral_eq_Suc)

lemma first_of_month:
  assumes d': "d' = d - date_of_day d + 1"
  shows "year_of_day d' = year_of_day d \<and> month_of_day d' = month_of_day d \<and> date_of_day d' = 1"
proof -
  let ?y = "year_of_day d" and ?m = "month_of_day d"
  let ?l = "leap_year ?y"
  have e: "d' = day_from_year ?y + month_start ?l ?m" by (simp add: d' date_of_day_def day_in_year_def)
  have r: "0 \<le> month_start ?l ?m" "month_start ?l ?m < 365" using month_start_range [OF month_range] by auto
  have y: "year_of_day d' = ?y"
  proof (rule year_unique)
    show "day_from_year ?y \<le> d'" using e r by simp
    show "d' < day_from_year (?y + 1)" using e r year_length [of ?y] by (cases ?l) simp_all
  qed
  have i: "day_in_year d' = month_start ?l ?m" by (simp add: day_in_year_def y) (simp add: e)
  have m: "month_of_day d' = ?m" unfolding month_of_day_def [of d'] y i by (rule month_of_start [OF month_range])
  have "date_of_day d' = 1" unfolding date_of_day_def [of d'] y m i by simp
  with y m show ?thesis by simp
qed

lemma date_of_day_bounds: "1 \<le> date_of_day d"
  by (rule date_positive)

lemma month_start_facts:
  "start_of_month t \<le> t \<and> start_of_month t = make_date (day_of (start_of_month t)) 0
   \<and> utc_date (start_of_month t) = 1 \<and> month_of_day (day_of (start_of_month t)) = month_of_day (day_of t)
   \<and> year_of_day (day_of (start_of_month t)) = year_of_day (day_of t)"
proof -
  note f = first_of_month [OF month_start_day [of t]]
  have m: "start_of_month t = make_date (day_of (start_of_month t)) 0" by (simp add: start_of_month_def start_of_day_def)
  have "day_of (start_of_month t) \<le> day_of t" using month_start_day [of t] date_positive [of "day_of t"] by linarith
  then have "make_date (day_of (start_of_month t)) 0 \<le> t" using day_bounds [of t] by (simp add: make_date_def)
  then show ?thesis using m f unfolding utc_date_def by simp
qed

section \<open>The verdict\<close>

lemma summary_totals:
  assumes "summarizeUsageRows dp collate rows q = Inr s" and "uq_by q \<noteq> Some ByDay"
  shows "us_totals s = bucket_of ''total'' (window_rows dp q rows)"
proof -
  have "list_all (\<lambda>r. \<exists>k. getBucketKey r (nullish (uq_by q) ByModel) = Inr k) (filterRows dp rows q)"
    using assms(2) key_defined by (cases "uq_by q") (auto simp: list_all_iff)
  from summary_form [OF this, of collate] show ?thesis using assms(1) by auto
qed

text \<open>
  A budget lets a request pass exactly when the rows of its window are fewer than the request bound, their tokens are
  below the token bound, and, for a cost bound, their cost is below it and no row that used tokens has an unknown cost:
  a cost budget that cannot be evaluated fails closed.
\<close>

definition within_limit :: "budget_limit \<Rightarrow> usage_row list \<Rightarrow> bool" where
  "within_limit limit rows \<longleftrightarrow>
      (\<forall>k. bl_maxRequests limit = Some k \<longrightarrow> of_nat (length rows) < k)
    \<and> (\<forall>k. bl_maxTokens limit = Some k \<longrightarrow> sum_list (map (\<lambda>r. ut_totalTokens (ur_tokens r)) rows) < k)
    \<and> (\<forall>k. bl_maxCostUsd limit = Some k \<longrightarrow> sum_list (map row_cost rows) < k \<and> \<not> list_ex unpriced rows)"

lemma budget_verdict:
  assumes "summarizeUsageRows dp collate rows q = Inr s" and "uq_by q \<noteq> Some ByDay"
    and "list_all cost_ok (filterRows dp rows q)"
  shows "be_allowed (evaluateBudgetGuard limit s) \<longleftrightarrow> within_limit limit (filterRows dp rows q)"
proof -
  let ?W = "filterRows dp rows q"
  note t = summary_totals [OF assms(1,2)]
  have "list_all cost_ok (window_rows dp q rows)" using assms(3) by (simp add: window_rows_def list_all_sort)
  then have v: "ub_requests (us_totals s) = length ?W" "ub_totalTokens (us_totals s) = sum_list (map (\<lambda>r. ut_totalTokens (ur_tokens r)) ?W)"
    "ub_costUsd (us_totals s) = sum_list (map row_cost ?W)" "ub_unpricedRequests (us_totals s) = length (filter unpriced ?W)"
    unfolding t by (simp_all add: bucket_counts bucket_cost window_rows_def sum_list_sort length_filter_sort)
  have u: "length (filter unpriced ?W) = 0 \<longleftrightarrow> \<not> list_ex unpriced ?W" by (simp add: filter_empty_conv list_ex_iff)
  have a: "be_allowed (evaluateBudgetGuard limit s) \<longleftrightarrow>
      (case bl_maxRequests limit of None \<Rightarrow> True | Some k \<Rightarrow> \<not> k \<le> of_nat (length ?W))
    \<and> (case bl_maxTokens limit of None \<Rightarrow> True | Some k \<Rightarrow> \<not> k \<le> sum_list (map (\<lambda>r. ut_totalTokens (ur_tokens r)) ?W))
    \<and> (case bl_maxCostUsd limit of None \<Rightarrow> True
         | Some k \<Rightarrow> \<not> k \<le> sum_list (map row_cost ?W) \<and> length (filter unpriced ?W) = 0)"
    unfolding evaluateBudgetGuard_def Let_def v by (simp split: option.split)
  show ?thesis unfolding a u within_limit_def by (auto simp: not_le split: option.split)
qed

section \<open>Property\<close>

text \<open>
  The window of a budget is the calendar hour, day, week (from Monday) or month of now in UTC: it starts at the first
  instant of that unit, at or before now, and now lies in it.
\<close>

theorem window_start_exact:
  assumes "time_clip now = Some t"
  shows "\<exists>s. getBudgetWindowStart w now = clip_back s \<and> s \<le> t
    \<and> (case w of
         WinHour \<Rightarrow> t < s + 3600000 \<and> s = make_date (day_of t) (hour_of t * 3600000)
       | WinDay \<Rightarrow> t < s + 86400000 \<and> s = make_date (day_of t) 0
       | WinWeek \<Rightarrow> t < s + 7 * 86400000 \<and> s = make_date (day_of s) 0 \<and> week_day s = 1
       | WinMonth \<Rightarrow> s = make_date (day_of s) 0 \<and> utc_date s = 1 \<and> month_of_day (day_of s) = month_of_day (day_of t)
           \<and> year_of_day (day_of s) = year_of_day (day_of t))"
proof (cases w)
  case WinHour
  then show ?thesis using assms start_of_hour_bounds [of t]
    by (intro exI [of _ "start_of_hour t"]) (simp add: getBudgetWindowStart_def start_of_hour_def)
next
  case WinDay
  then show ?thesis using assms start_of_day_bounds [of t]
    by (intro exI [of _ "start_of_day t"]) (simp add: getBudgetWindowStart_def start_of_day_def)
next
  case WinWeek
  then show ?thesis using assms week_start [of t]
    by (intro exI [of _ "start_of_week t"]) (simp add: getBudgetWindowStart_def)
next
  case WinMonth
  then show ?thesis using assms month_start_facts [of t]
    by (intro exI [of _ "start_of_month t"]) (simp add: getBudgetWindowStart_def)
qed

lemma window_start_exact_witness:
  "\<exists>s. getBudgetWindowStart WinMonth (Finite 1709210096000) = clip_back s \<and> s \<le> 1709210096000 \<and> utc_date s = 1"
proof -
  have "time_clip (Finite 1709210096000) = Some 1709210096000" by (simp add: time_clip_def)
  from window_start_exact [OF this, of WinMonth] show ?thesis by auto
qed

end
