(* ===== verification/CapabilityPolicy.thy ===== *)
theory CapabilityPolicy
  imports ModelMap
begin

text \<open>
  The store of what an account could do with a model (\<open>lib/capability-policy.ts\<close>): counters per
  account key and canonical model, kept in the order of their last change, at most 2048 of them.
\<close>

section \<open>Keys\<close>

text \<open>\<open>/gpt[^a-z0-9]*[56]|codex|astra|daybreak/i\<close>.\<close>

definition names_gpt5_or_6 :: "string \<Rightarrow> bool" where
  "names_gpt5_or_6 s \<longleftrightarrow>
     list_ex (\<lambda>t. prefix ''gpt'' t \<and> (case dropWhile (\<lambda>c. \<not> is_alnum c) (drop 3 t) of [] \<Rightarrow> False | c # _ \<Rightarrow> c = CHR ''5'' \<or> c = CHR ''6''))
       (suffixes s)"

definition shouldUseFallbackCatalog :: "string \<Rightarrow> bool" where
  "shouldUseFallbackCatalog model \<longleftrightarrow>
     (let s = js_lower model
      in names_gpt5_or_6 s \<or> js_includes s ''codex'' \<or> js_includes s ''astra'' \<or> js_includes s ''daybreak'')"

definition normalizeCapabilityModel :: "string \<Rightarrow> string option" where
  "normalizeCapabilityModel model =
     (let trimmedInput = js_trim model
      in if trimmedInput = [] then None
         else
           let withoutProvider = (if CHR ''/'' \<in> set trimmedInput then last_segment trimmedInput else trimmedInput);
               mapped = nullish (getNormalizedModel withoutProvider)
                 (if shouldUseFallbackCatalog withoutProvider then resolveNormalizedModel (Some withoutProvider) else withoutProvider);
               trimmed = js_lower (js_trim mapped)
           in if trimmed = [] then None else Some (stripModelEffortSuffix trimmed))"

definition makeCapabilityKey :: "string \<Rightarrow> string \<Rightarrow> string option" where
  "makeCapabilityKey accountKey model =
     (case normalizeCapabilityModel model of
        None \<Rightarrow> None
      | Some normalized \<Rightarrow> if accountKey = [] \<or> normalized = [] then None else Some (accountKey @ '':'' @ normalized))"

section \<open>The store\<close>

record capability_entry =
  ce_successes :: nat
  ce_failures :: nat
  ce_unsupported :: nat
  ce_lastSuccessAt :: "jsnum option"
  ce_lastFailureAt :: "jsnum option"
  ce_updatedAt :: jsnum

type_synonym capability_store = "(string, capability_entry) jsmap"

definition MAX_CAPABILITY_ENTRIES :: nat where
  "MAX_CAPABILITY_ENTRIES = 2048"

definition PASSIVE_RECOVERY_PER_MIN :: jsnum where
  "PASSIVE_RECOVERY_PER_MIN = 1/2"

definition evictIfNeeded :: "capability_store \<Rightarrow> capability_store" where
  "evictIfNeeded s =
     (if length s \<le> MAX_CAPABILITY_ENTRIES then s
      else case jm_first_key s of None \<Rightarrow> s | Some key \<Rightarrow> jm_delete key s)"

text \<open>\<open>delete\<close> and \<open>set\<close>, then the eviction: the entry moves to the end of the order.\<close>

definition put_entry :: "string \<Rightarrow> capability_entry \<Rightarrow> capability_store \<Rightarrow> capability_store" where
  "put_entry key e s = evictIfNeeded (jm_set key e (jm_delete key s))"

definition count_of :: "(capability_entry \<Rightarrow> nat) \<Rightarrow> capability_entry option \<Rightarrow> nat" where
  "count_of f e = (case e of None \<Rightarrow> 0 | Some x \<Rightarrow> f x)"

definition recordCapabilitySuccess :: "string \<Rightarrow> string \<Rightarrow> jsnum \<Rightarrow> capability_store \<Rightarrow> capability_store" where
  "recordCapabilitySuccess accountKey model now s =
     (case makeCapabilityKey accountKey model of
        None \<Rightarrow> s
      | Some key \<Rightarrow>
          let existing = jm_get s key
          in put_entry key \<lparr>ce_successes = count_of ce_successes existing + 1, ce_failures = count_of ce_failures existing - 1,
               ce_unsupported = count_of ce_unsupported existing - 1, ce_lastSuccessAt = Some now,
               ce_lastFailureAt = Option.bind existing ce_lastFailureAt, ce_updatedAt = now\<rparr> s)"

definition recordCapabilityFailure :: "string \<Rightarrow> string \<Rightarrow> jsnum \<Rightarrow> capability_store \<Rightarrow> capability_store" where
  "recordCapabilityFailure accountKey model now s =
     (case makeCapabilityKey accountKey model of
        None \<Rightarrow> s
      | Some key \<Rightarrow>
          let existing = jm_get s key
          in put_entry key \<lparr>ce_successes = count_of ce_successes existing, ce_failures = count_of ce_failures existing + 1,
               ce_unsupported = count_of ce_unsupported existing, ce_lastSuccessAt = Option.bind existing ce_lastSuccessAt,
               ce_lastFailureAt = Some now, ce_updatedAt = now\<rparr> s)"

definition recordUnsupported :: "string \<Rightarrow> string \<Rightarrow> jsnum \<Rightarrow> capability_store \<Rightarrow> capability_store" where
  "recordUnsupported accountKey model now s =
     (case makeCapabilityKey accountKey model of
        None \<Rightarrow> s
      | Some key \<Rightarrow>
          let existing = jm_get s key
          in put_entry key \<lparr>ce_successes = count_of ce_successes existing, ce_failures = count_of ce_failures existing + 1,
               ce_unsupported = count_of ce_unsupported existing + 1, ce_lastSuccessAt = Option.bind existing ce_lastSuccessAt,
               ce_lastFailureAt = Some now, ce_updatedAt = now\<rparr> s)"

definition getBoost :: "string \<Rightarrow> string \<Rightarrow> jsnum \<Rightarrow> capability_store \<Rightarrow> jsnum" where
  "getBoost accountKey model now s =
     (case Option.bind (makeCapabilityKey accountKey model) (jm_get s) of
        None \<Rightarrow> 0
      | Some entry \<Rightarrow>
          let minutesSinceUpdate = max 0 ((now - ce_updatedAt entry) / 60000);
              recoveredFailures = max 0 (of_nat (ce_failures entry) - minutesSinceUpdate * PASSIVE_RECOVERY_PER_MIN);
              recoveredUnsupported = max 0 (of_nat (ce_unsupported entry) - minutesSinceUpdate * PASSIVE_RECOVERY_PER_MIN);
              successScore = min 12 (of_nat (ce_successes entry) * 2);
              failurePenalty = min 18 (recoveredFailures * 3);
              unsupportedPenalty = min 24 (recoveredUnsupported * 6);
              net = successScore - failurePenalty - unsupportedPenalty
          in max (- 30) (min 20 net))"

definition getSnapshot :: "string \<Rightarrow> string \<Rightarrow> capability_store \<Rightarrow> capability_entry option" where
  "getSnapshot accountKey model s = Option.bind (makeCapabilityKey accountKey model) (jm_get s)"

definition clearAccount :: "string \<Rightarrow> capability_store \<Rightarrow> nat \<times> capability_store" where
  "clearAccount accountKey s =
     (if accountKey = [] then (0, s)
      else (jm_count (\<lambda>key _. js_starts_with key (accountKey @ '':'')) s,
            jm_remove_if (\<lambda>key _. js_starts_with key (accountKey @ '':'')) s))"

datatype capability_op = CapSuccess string string | CapFailure string string | CapUnsupported string string | CapClear string

fun capability_step :: "capability_op \<Rightarrow> jsnum \<Rightarrow> capability_store \<Rightarrow> capability_store" where
  "capability_step (CapSuccess a m) now s = recordCapabilitySuccess a m now s"
| "capability_step (CapFailure a m) now s = recordCapabilityFailure a m now s"
| "capability_step (CapUnsupported a m) now s = recordUnsupported a m now s"
| "capability_step (CapClear a) now s = snd (clearAccount a s)"

section \<open>Invariant\<close>

definition store_ok :: "capability_store \<Rightarrow> bool" where
  "store_ok s \<longleftrightarrow> jm_ok s \<and> length s \<le> MAX_CAPABILITY_ENTRIES"

lemma set_at_end: "\<not> jm_has s k \<Longrightarrow> jm_set k e s = s @ [(k, e)]"
  by (induction s) (auto simp: jm_has_def split: if_splits)

lemma put_form: "jm_set k e (jm_delete k s) = jm_delete k s @ [(k, e)]"
  by (rule set_at_end) (simp add: jm_has_def jm_get_delete)

lemma put_ok:
  assumes "store_ok s"
  shows "store_ok (put_entry k e s)"
proof -
  have "length (jm_set k e (jm_delete k s)) \<le> Suc (length s)" by (simp add: put_form length_jm_delete_le)
  moreover have "length (evictIfNeeded s') \<le> MAX_CAPABILITY_ENTRIES" if "length s' \<le> Suc MAX_CAPABILITY_ENTRIES" for s' :: capability_store
    using that length_jm_delete [OF jm_first_key_has, of s'] jm_first_key_some [of s']
    by (force simp: evictIfNeeded_def split: option.split)
  moreover have "jm_ok (evictIfNeeded s')" if "jm_ok s'" for s' :: capability_store
    using that by (auto simp: evictIfNeeded_def split: option.split)
  ultimately show ?thesis using assms by (auto simp: store_ok_def put_entry_def)
qed

text \<open>The entry written is there afterwards: the one evicted is the least recently written.\<close>

lemma put_get: "jm_get (put_entry k e s) k = Some e"
proof (cases "length (jm_set k e (jm_delete k s)) \<le> MAX_CAPABILITY_ENTRIES")
  case True
  then show ?thesis by (simp add: put_entry_def evictIfNeeded_def jm_get_set)
next
  case False
  then obtain f x r where d: "jm_delete k s = (f, x) # r"
    by (cases "jm_delete k s") (auto simp: MAX_CAPABILITY_ENTRIES_def)
  have "jm_get (jm_delete k s) k = None" by (simp add: jm_get_delete)
  then have "f \<noteq> k" by (auto simp: d split: if_splits)
  then have "jm_first_key (jm_set k e (jm_delete k s)) = Some f" by (simp add: d jm_first_key_def)
  then have "put_entry k e s = jm_delete f (jm_set k e (jm_delete k s))" using False by (simp add: put_entry_def evictIfNeeded_def)
  then show ?thesis using \<open>f \<noteq> k\<close> by (simp add: jm_get_delete jm_get_set)
qed

interpretation capabilities: stable_machine capability_step store_ok
proof
  show "store_ok (capability_step x t s)" if "store_ok s" for x t s
  proof (cases x)
    case (CapClear a)
    then show ?thesis
      using that order_trans [OF length_jm_remove_if_le] by (auto simp: clearAccount_def store_ok_def)
  qed (use that in \<open>auto simp: recordCapabilitySuccess_def recordCapabilityFailure_def recordUnsupported_def Let_def put_ok
      split: option.split\<close>)
qed

section \<open>What the boost learns\<close>

text \<open>The score of an entry whose failures and rejections have recovered for some minutes.\<close>

definition score :: "nat \<Rightarrow> nat \<Rightarrow> nat \<Rightarrow> jsnum \<Rightarrow> jsnum" where
  "score successes failures unsupported minutes =
     max (- 30) (min 20 (min 12 (of_nat successes * 2)
       - min 18 (max 0 (of_nat failures - minutes * PASSIVE_RECOVERY_PER_MIN) * 3)
       - min 24 (max 0 (of_nat unsupported - minutes * PASSIVE_RECOVERY_PER_MIN) * 6)))"

lemma getBoost_entry:
  assumes "makeCapabilityKey a m = Some k" and "jm_get s k = Some e"
  shows "getBoost a m now s = score (ce_successes e) (ce_failures e) (ce_unsupported e) (max 0 ((now - ce_updatedAt e) / 60000))"
  using assms by (simp add: getBoost_def score_def Let_def)

lemma getBoost_none: "makeCapabilityKey a m = Some k \<Longrightarrow> jm_get s k = None \<Longrightarrow> getBoost a m now s = 0"
  by (simp add: getBoost_def)

lemma getBoost_old:
  assumes "makeCapabilityKey a m = Some k"
  shows "\<exists>minutes \<ge> 0. getBoost a m now s = score (count_of ce_successes (jm_get s k)) (count_of ce_failures (jm_get s k))
           (count_of ce_unsupported (jm_get s k)) minutes
         \<and> (\<forall>e. jm_get s k = Some e \<and> now \<le> ce_updatedAt e \<longrightarrow> minutes = 0)"
proof (cases "jm_get s k")
  case None
  then show ?thesis using getBoost_none [OF assms None] by (intro exI [of _ 0]) (simp add: score_def count_of_def)
next
  case (Some e)
  then show ?thesis using getBoost_entry [OF assms Some, of now]
    by (intro exI [of _ "max 0 ((now - ce_updatedAt e) / 60000)"]) (simp add: count_of_def)
qed

lemma score_mono:
  assumes "s \<le> s'" and "f' \<le> f" and "u' \<le> u" and "t \<le> t'"
  shows "score s f u t \<le> score s' f' u' t'"
proof -
  have n: "(of_nat s :: jsnum) \<le> of_nat s'" "(of_nat f' :: jsnum) \<le> of_nat f" "(of_nat u' :: jsnum) \<le> of_nat u" using assms by simp_all
  have t: "t * PASSIVE_RECOVERY_PER_MIN \<le> t' * PASSIVE_RECOVERY_PER_MIN" using assms(4) by (simp add: PASSIVE_RECOVERY_PER_MIN_def)
  have a: "min 12 (of_nat s * 2 :: jsnum) \<le> min 12 (of_nat s' * 2)" using n(1) by (intro min.mono) simp_all
  have b: "min 18 (max 0 (of_nat f' - t' * PASSIVE_RECOVERY_PER_MIN) * 3) \<le> min 18 (max 0 (of_nat f - t * PASSIVE_RECOVERY_PER_MIN) * 3)"
    using n(2) t by (intro min.mono mult_right_mono max.mono order_refl) (linarith | simp)+
  have c: "min 24 (max 0 (of_nat u' - t' * PASSIVE_RECOVERY_PER_MIN) * 6) \<le> min 24 (max 0 (of_nat u - t * PASSIVE_RECOVERY_PER_MIN) * 6)"
    using n(3) t by (intro min.mono mult_right_mono max.mono order_refl) (linarith | simp)+
  show ?thesis unfolding score_def using a b c by (intro max.mono min.mono order_refl) linarith
qed

lemma score_range: "- 30 \<le> score s f u t \<and> score s f u t \<le> 20"
  by (simp add: score_def)

lemma getBoost_range: "- 30 \<le> getBoost a m now s \<and> getBoost a m now s \<le> 20"
proof (cases "makeCapabilityKey a m")
  case None
  then show ?thesis by (simp add: getBoost_def)
next
  case (Some k)
  then show ?thesis using getBoost_old [OF Some, of now s] score_range by metis
qed

lemma getBoost_recovers: "now \<le> later \<Longrightarrow> getBoost a m now s \<le> getBoost a m later s"
proof (cases "Option.bind (makeCapabilityKey a m) (jm_get s)")
  case (Some e)
  then obtain k where k: "makeCapabilityKey a m = Some k" "jm_get s k = Some e" by (auto simp: bind_eq_Some_conv)
  assume "now \<le> later"
  then have "max 0 ((now - ce_updatedAt e) / 60000) \<le> max 0 ((later - ce_updatedAt e) / 60000)"
    by (intro max.mono divide_right_mono) simp_all
  then show ?thesis unfolding getBoost_entry [OF k] by (intro score_mono) simp_all
qed (simp add: getBoost_def)

text \<open>What is recorded counts at once, before any recovery.\<close>

lemma recorded:
  assumes "makeCapabilityKey a m = Some k"
  shows "getBoost a m now (recordCapabilitySuccess a m now s) = score (count_of ce_successes (jm_get s k) + 1)
           (count_of ce_failures (jm_get s k) - 1) (count_of ce_unsupported (jm_get s k) - 1) 0"
    and "getBoost a m now (recordCapabilityFailure a m now s) = score (count_of ce_successes (jm_get s k))
           (count_of ce_failures (jm_get s k) + 1) (count_of ce_unsupported (jm_get s k)) 0"
    and "getBoost a m now (recordUnsupported a m now s) = score (count_of ce_successes (jm_get s k))
           (count_of ce_failures (jm_get s k) + 1) (count_of ce_unsupported (jm_get s k) + 1) 0"
  using assms by (simp_all add: recordCapabilitySuccess_def recordCapabilityFailure_def recordUnsupported_def Let_def
      getBoost_entry [OF assms put_get])

text \<open>A model of the catalogue is its own key.\<close>

lemma no_effort_ending:
  assumes "canonical m" shows "stripModelEffortSuffix m = m"
proof -
  have "list_all (\<lambda>m. stripModelEffortSuffix m = m) [GPT_6_ASTRA_MODEL, GPT_6_1_SOL_MODEL, GPT_6_1_TERRA_MODEL, GPT_6_SOL_MODEL,
      GPT_6_LUNA_MODEL, GPT_RESERVE_MODEL, DAYBREAK_BLUE_MODEL, DAYBREAK_RED_MODEL, GPT_5_6_SOL_MODEL, GPT_5_6_TERRA_MODEL,
      GPT_5_6_LUNA_MODEL]" by code_simp
  then show ?thesis using assms unfolding canonical_models by auto
qed

lemma canonical_key:
  assumes "canonical m" and "a \<noteq> []"
  shows "makeCapabilityKey a m = Some (a @ '':'' @ m)"
proof -
  have p: "plain m" "js_lower m = m" using canonical_rows [OF assms(1)] by (simp_all add: lower_key_def)
  have "getNormalizedModel m = Some m"
    using p canonical_self [OF assms(1)] by (simp add: getNormalizedModel_def trim_plain strip_plain lookup_lower plain_def)
  moreover have "CHR ''/'' \<notin> set m" "m \<noteq> []" using p(1) by (auto simp: plain_def list_all_iff)
  ultimately have "normalizeCapabilityModel m = Some m"
    using p no_effort_ending [OF assms(1)] by (simp add: normalizeCapabilityModel_def trim_plain)
  then show ?thesis using assms(2) \<open>m \<noteq> []\<close> by (simp add: makeCapabilityKey_def)
qed

section \<open>Property\<close>

text \<open>
  What an account is credited with for a model stays between -30 and 20 and recovers with time.  A failure never raises
  it, a rejected model lowers it at least as much as a failure, and a success recorded no later than the last outcome
  never lowers it.
\<close>

theorem boost_learns:
  assumes "now \<le> later" and "makeCapabilityKey a m = Some k"
  shows "- 30 \<le> getBoost a m now s \<and> getBoost a m now s \<le> 20 \<and> getBoost a m now s \<le> getBoost a m later s
    \<and> getBoost a m now (recordUnsupported a m now s) \<le> getBoost a m now (recordCapabilityFailure a m now s)
    \<and> getBoost a m now (recordCapabilityFailure a m now s) \<le> getBoost a m now s
    \<and> ((\<forall>e. jm_get s k = Some e \<longrightarrow> now \<le> ce_updatedAt e) \<longrightarrow> getBoost a m now s \<le> getBoost a m now (recordCapabilitySuccess a m now s))"
proof -
  obtain t where t: "0 \<le> t" "getBoost a m now s = score (count_of ce_successes (jm_get s k)) (count_of ce_failures (jm_get s k))
      (count_of ce_unsupported (jm_get s k)) t" "\<And>e. jm_get s k = Some e \<Longrightarrow> now \<le> ce_updatedAt e \<Longrightarrow> t = 0"
    using getBoost_old [OF assms(2)] by metis
  have "getBoost a m now s \<le> getBoost a m now (recordCapabilitySuccess a m now s)"
    if "\<forall>e. jm_get s k = Some e \<longrightarrow> now \<le> ce_updatedAt e"
  proof (cases "jm_get s k")
    case None
    then show ?thesis using getBoost_none [OF assms(2) None, of now]
      by (simp add: recorded [OF assms(2)] count_of_def score_def PASSIVE_RECOVERY_PER_MIN_def)
  next
    case (Some e)
    then have "t = 0" using that t(3) by blast
    then show ?thesis unfolding t(2) recorded(1) [OF assms(2)] by (intro score_mono) simp_all
  qed
  moreover have "getBoost a m now (recordUnsupported a m now s) \<le> getBoost a m now (recordCapabilityFailure a m now s)"
    unfolding recorded [OF assms(2)] by (intro score_mono) simp_all
  moreover have "getBoost a m now (recordCapabilityFailure a m now s) \<le> getBoost a m now s"
    unfolding recorded [OF assms(2)] t(2) using t(1) by (intro score_mono) simp_all
  ultimately show ?thesis using getBoost_range getBoost_recovers [OF assms(1)] by blast
qed

lemma boost_learns_witness:
  "getBoost ''idx:0'' ''gpt-6-sol'' 0 (recordCapabilityFailure ''idx:0'' ''gpt-6-sol'' 0 []) \<le> getBoost ''idx:0'' ''gpt-6-sol'' 0 []"
proof -
  have c: "canonical ''gpt-6-sol''" by (simp add: canonical_models)
  have "makeCapabilityKey ''idx:0'' ''gpt-6-sol'' = Some (''idx:0'' @ '':'' @ ''gpt-6-sol'')"
    by (rule canonical_key [OF c]) simp
  from boost_learns [OF order_refl this] show ?thesis by blast
qed

text \<open>
  A success starts the recovery of the remaining failures anew: after half an hour an account with five failures has
  recovered, and one success later it is penalised for four of them again.
\<close>

lemma success_forgets_recovery:
  "jm_get s k = Some \<lparr>ce_successes = 0, ce_failures = 5, ce_unsupported = 0, ce_lastSuccessAt = None,
     ce_lastFailureAt = Some 0, ce_updatedAt = 0\<rparr> \<Longrightarrow> makeCapabilityKey a m = Some k \<Longrightarrow>
   getBoost a m 1800000 s = 0 \<and> getBoost a m 1800000 (recordCapabilitySuccess a m 1800000 s) = - 10"
  by (simp add: recorded getBoost_entry count_of_def) (simp add: score_def PASSIVE_RECOVERY_PER_MIN_def)

end
