(* ===== verification/EntitlementCache.thy ===== *)
theory EntitlementCache
  imports ModelMap
begin

text \<open>
  The cache of models an account may not use (\<open>lib/entitlement-cache.ts\<close>): a map of maps from account
  key and normalised model to a block with a deadline, at most 512 accounts.
\<close>

section \<open>Keys\<close>

definition normalizeEntitlementModel :: "string \<Rightarrow> string option" where
  "normalizeEntitlementModel model =
     (let trimmed = js_lower (js_trim model)
      in if trimmed = [] then None
         else Some (stripModelEffortSuffix (if CHR ''/'' \<in> set trimmed then last_segment trimmed else trimmed)))"

definition normalizeEntitlementEmail :: "string option \<Rightarrow> string option" where
  "normalizeEntitlementEmail email =
     (let trimmed = js_trim (nullish email []) in if trimmed = [] then None else Some (js_lower trimmed))"

record entitlement_ref =
  er_accountId :: "string option"
  er_email :: "string option"
  er_index :: "jsval option"

definition resolveEntitlementAccountKey :: "entitlement_ref \<Rightarrow> string" where
  "resolveEntitlementAccountKey ref =
     (let accountId = js_trim (nullish (er_accountId ref) []);
          index = (case er_index ref of Some (Finite x) \<Rightarrow> Some (nat \<lfloor>x\<rfloor>) | _ \<Rightarrow> None);
          email = normalizeEntitlementEmail (er_email ref)
      in case email of
           Some e \<Rightarrow> if accountId \<noteq> [] then ''account:'' @ accountId @ ''::email:'' @ e else ''email:'' @ e
         | None \<Rightarrow>
             if accountId \<noteq> [] then
               (case index of Some n \<Rightarrow> ''account:'' @ accountId @ ''::idx:'' @ show_nat n | None \<Rightarrow> ''account:'' @ accountId)
             else ''idx:'' @ show_nat (nullish index 0))"

section \<open>The cache\<close>

datatype block_reason = UnsupportedModel | PlanEntitlement

record entitlement_block =
  eb_model :: string
  eb_blockedUntil :: jsnum
  eb_reason :: block_reason
  eb_updatedAt :: jsnum

type_synonym entitlement_blocks = "(string, entitlement_block) jsmap"

type_synonym entitlement_cache = "(string, entitlement_blocks) jsmap"

definition DEFAULT_BLOCK_TTL_MS :: jsnum where
  "DEFAULT_BLOCK_TTL_MS = 30 * 60000"

definition MAX_ACCOUNT_BUCKETS :: nat where
  "MAX_ACCOUNT_BUCKETS = 512"

definition block_ttl :: "jsval option \<Rightarrow> jsnum" where
  "block_ttl ttlMs = (case ttlMs of
     None \<Rightarrow> DEFAULT_BLOCK_TTL_MS
   | Some NonFinite \<Rightarrow> DEFAULT_BLOCK_TTL_MS
   | Some (Finite x) \<Rightarrow> max 1000 (js_floor x))"

text \<open>The key of a call: both parts must not be empty.\<close>

definition block_key :: "string \<Rightarrow> string \<Rightarrow> (string \<times> string) option" where
  "block_key accountKey model =
     (case normalizeEntitlementModel model of
        None \<Rightarrow> None
      | Some m \<Rightarrow> if accountKey = [] \<or> m = [] then None else Some (accountKey, m))"

definition markBlocked ::
  "string \<Rightarrow> string \<Rightarrow> block_reason \<Rightarrow> jsval option \<Rightarrow> jsnum \<Rightarrow> entitlement_cache \<Rightarrow> entitlement_cache" where
  "markBlocked accountKey model reason ttlMs now cache =
     (case block_key accountKey model of
        None \<Rightarrow> cache
      | Some (a, m) \<Rightarrow>
          let cache = (if MAX_ACCOUNT_BUCKETS \<le> length cache \<and> \<not> jm_has cache a
                       then (case jm_first_key cache of Some first \<Rightarrow> jm_delete first cache | None \<Rightarrow> cache) else cache);
              existing = nullish (jm_get cache a) [];
              block = \<lparr>eb_model = m, eb_blockedUntil = now + block_ttl ttlMs, eb_reason = reason, eb_updatedAt = now\<rparr>
          in jm_set a (jm_set m block existing) cache)"

text \<open>Removal of one block; an account without blocks is dropped.\<close>

definition drop_block :: "string \<Rightarrow> string \<Rightarrow> entitlement_cache \<Rightarrow> entitlement_cache" where
  "drop_block a m cache =
     (case jm_get cache a of
        None \<Rightarrow> cache
      | Some blocks \<Rightarrow>
          let blocks = jm_delete m blocks in if blocks = [] then jm_delete a cache else jm_set a blocks cache)"

definition clear_entitlement :: "string \<Rightarrow> string option \<Rightarrow> entitlement_cache \<Rightarrow> entitlement_cache" where
  "clear_entitlement accountKey model cache =
     (if accountKey = [] then cache
      else if nullish model [] = [] then jm_delete accountKey cache
      else case block_key accountKey (nullish model []) of None \<Rightarrow> cache | Some (a, m) \<Rightarrow> drop_block a m cache)"

record block_status =
  bs_blocked :: bool
  bs_waitMs :: jsnum
  bs_reason :: "block_reason option"

definition not_blocked :: block_status where
  "not_blocked = \<lparr>bs_blocked = False, bs_waitMs = 0, bs_reason = None\<rparr>"

definition isBlocked :: "string \<Rightarrow> string \<Rightarrow> jsnum \<Rightarrow> entitlement_cache \<Rightarrow> block_status \<times> entitlement_cache" where
  "isBlocked accountKey model now cache =
     (case block_key accountKey model of
        None \<Rightarrow> (not_blocked, cache)
      | Some (a, m) \<Rightarrow>
          (case Option.bind (jm_get cache a) (\<lambda>blocks. jm_get blocks m) of
             None \<Rightarrow> (not_blocked, cache)
           | Some block \<Rightarrow>
               if eb_blockedUntil block \<le> now then (not_blocked, drop_block a m cache)
               else (\<lparr>bs_blocked = True, bs_waitMs = max 0 (eb_blockedUntil block - now), bs_reason = Some (eb_reason block)\<rparr>, cache)))"

definition live_blocks :: "jsnum \<Rightarrow> entitlement_blocks \<Rightarrow> entitlement_blocks" where
  "live_blocks now = jm_remove_if (\<lambda>_ block. eb_blockedUntil block \<le> now)"

definition prune_entitlements :: "jsnum \<Rightarrow> entitlement_cache \<Rightarrow> nat \<times> entitlement_cache" where
  "prune_entitlements now cache =
     (sum_list (map (\<lambda>(_, blocks). length blocks - length (live_blocks now blocks)) cache),
      filter (\<lambda>(_, blocks). blocks \<noteq> []) (map (\<lambda>(a, blocks). (a, live_blocks now blocks)) cache))"

datatype entitlement_op =
    EMark string string block_reason "jsval option"
  | EClear string "string option"
  | EAsk string string
  | EPrune

fun entitlement_step :: "entitlement_op \<Rightarrow> jsnum \<Rightarrow> entitlement_cache \<Rightarrow> entitlement_cache" where
  "entitlement_step (EMark a m r ttl) now c = markBlocked a m r ttl now c"
| "entitlement_step (EClear a m) now c = clear_entitlement a m c"
| "entitlement_step (EAsk a m) now c = snd (isBlocked a m now c)"
| "entitlement_step EPrune now c = snd (prune_entitlements now c)"

section \<open>What the cache means\<close>

text \<open>The deadline of a pair of keys.\<close>

definition block_of :: "entitlement_cache \<Rightarrow> string \<Rightarrow> string \<Rightarrow> entitlement_block option" where
  "block_of c a m = Option.bind (jm_get c a) (\<lambda>blocks. jm_get blocks m)"

definition cache_ok :: "entitlement_cache \<Rightarrow> bool" where
  "cache_ok c \<longleftrightarrow> jm_ok c \<and> jm_all (\<lambda>_ blocks. jm_ok blocks \<and> blocks \<noteq> []) c \<and> length c \<le> MAX_ACCOUNT_BUCKETS"

lemma jm_set_nonempty [simp]: "jm_set k v m \<noteq> []"
  using length_jm_set [of k v m] by (cases m) (auto split: if_splits)

lemma mark_ok:
  assumes "cache_ok c"
  shows "cache_ok (markBlocked a m r ttl now c)"
proof (cases "block_key a m")
  case None
  then show ?thesis using assms by (simp add: markBlocked_def)
next
  case (Some k)
  then obtain a' m' where k: "block_key a m = Some (a', m')" by (cases k) auto
  define c' where "c' = (if MAX_ACCOUNT_BUCKETS \<le> length c \<and> \<not> jm_has c a'
      then (case jm_first_key c of Some first \<Rightarrow> jm_delete first c | None \<Rightarrow> c) else c)"
  have "jm_ok c' \<and> jm_all (\<lambda>_ blocks. jm_ok blocks \<and> blocks \<noteq> []) c'"
    using assms by (auto simp: c'_def cache_ok_def split: option.split)
  moreover have "length c' < MAX_ACCOUNT_BUCKETS \<or> jm_has c' a' \<and> length c' \<le> MAX_ACCOUNT_BUCKETS"
  proof (cases "MAX_ACCOUNT_BUCKETS \<le> length c \<and> \<not> jm_has c a'")
    case True
    then obtain f where "jm_first_key c = Some f" using jm_first_key_some [of c] by (force simp: MAX_ACCOUNT_BUCKETS_def)
    then show ?thesis
      using True assms length_jm_delete [OF jm_first_key_has] by (force simp: c'_def cache_ok_def)
  next
    case False
    then show ?thesis using assms by (auto simp: c'_def cache_ok_def)
  qed
  moreover have "jm_ok (nullish (jm_get c' a') [])"
    using calculation(1) by (cases "jm_get c' a'") (auto dest: jm_all_get)
  ultimately show ?thesis
    by (auto simp: markBlocked_def k c'_def [symmetric] Let_def cache_ok_def length_jm_set)
qed

lemma drop_ok: "cache_ok c \<Longrightarrow> cache_ok (drop_block a m c)"
  by (auto simp: drop_block_def cache_ok_def Let_def length_jm_set jm_has_def split: option.split
    intro: order_trans [OF length_jm_delete_le] dest: jm_all_get)

lemma clear_ok: "cache_ok c \<Longrightarrow> cache_ok (clear_entitlement a m c)"
  by (auto simp: clear_entitlement_def drop_ok split: option.split)
    (auto simp: cache_ok_def intro: order_trans [OF length_jm_delete_le])

lemma ask_ok: "cache_ok c \<Longrightarrow> cache_ok (snd (isBlocked a m now c))"
  by (auto simp: isBlocked_def drop_ok split: option.split)

lemma prune_ok: "cache_ok c \<Longrightarrow> cache_ok (snd (prune_entitlements now c))"
proof -
  assume c: "cache_ok c"
  have "jm_ok (map (\<lambda>(a, blocks). (a, live_blocks now blocks)) c)" using c by (simp add: jm_ok_map_values cache_ok_def)
  moreover have "jm_all (\<lambda>_ blocks. jm_ok blocks) (map (\<lambda>(a, blocks). (a, live_blocks now blocks)) c)"
    using c unfolding jm_all_map_values by (auto simp: cache_ok_def live_blocks_def intro: jm_all_mono)
  moreover have "length (filter P (map f c)) \<le> MAX_ACCOUNT_BUCKETS" for P f
    using c order_trans [OF length_filter_le [of P "map f c"]] by (simp add: cache_ok_def)
  ultimately show ?thesis
    by (auto simp: cache_ok_def prune_entitlements_def jm_ok_filter jm_all_def list_all_iff)
qed

interpretation entitlements: stable_machine entitlement_step cache_ok
proof
  show "cache_ok (entitlement_step x t s)" if "cache_ok s" for x t s
    using that by (cases x) (auto simp: mark_ok clear_ok ask_ok prune_ok)
qed

section \<open>Property\<close>

text \<open>The account that makes room for a new one.\<close>

definition evicted :: "entitlement_cache \<Rightarrow> string \<Rightarrow> string option" where
  "evicted c a = (if MAX_ACCOUNT_BUCKETS \<le> length c \<and> \<not> jm_has c a then jm_first_key c else None)"

lemma mark_form:
  assumes "block_key a m = Some (a', m')"
  shows "markBlocked a m r ttl now c =
    (let c' = (case evicted c a' of None \<Rightarrow> c | Some f \<Rightarrow> jm_delete f c)
     in jm_set a' (jm_set m' \<lparr>eb_model = m', eb_blockedUntil = now + block_ttl ttl, eb_reason = r, eb_updatedAt = now\<rparr>
          (nullish (jm_get c' a') [])) c')"
proof -
  have "(if MAX_ACCOUNT_BUCKETS \<le> length c \<and> \<not> jm_has c a'
      then (case jm_first_key c of Some f \<Rightarrow> jm_delete f c | None \<Rightarrow> c) else c)
    = (case evicted c a' of None \<Rightarrow> c | Some f \<Rightarrow> jm_delete f c)" by (auto simp: evicted_def split: option.split)
  then show ?thesis using assms by (simp add: markBlocked_def Let_def)
qed

lemma mark_block_of:
  assumes "block_key a m = Some (a', m')"
  shows "block_of (markBlocked a m r ttl now c) x y =
    (if x = a' \<and> y = m' then Some \<lparr>eb_model = m', eb_blockedUntil = now + block_ttl ttl, eb_reason = r, eb_updatedAt = now\<rparr>
     else if evicted c a' = Some x then None else block_of c x y)"
proof -
  have "evicted c a' \<noteq> Some a'" by (auto simp: evicted_def dest: jm_first_key_has split: if_splits)
  then show ?thesis
    unfolding mark_form [OF assms] Let_def block_of_def
    by (cases "evicted c a'"; cases "jm_get c a'") (auto simp: jm_get_set jm_get_delete)
qed

lemma ttl_ge: "1000 \<le> block_ttl ttl"
  by (auto simp: block_ttl_def DEFAULT_BLOCK_TTL_MS_def split: option.split jsval.split)

text \<open>
  C35. A marked model is blocked for its account, under every spelling with the same key, until exactly the deadline, at least a
  second away, and the time to wait is the rest of it; every other block is as before, save those of the one account that
  had to make room, so never more than 512 accounts are kept.
\<close>

theorem entitlement_exact:
  assumes "cache_ok c" and "block_key a m = Some k" and "block_key a2 m2 = Some k"
  shows "1000 \<le> block_ttl ttl
    \<and> fst (isBlocked a2 m2 t2 (markBlocked a m r ttl t c)) =
        (if t + block_ttl ttl \<le> t2 then not_blocked
         else \<lparr>bs_blocked = True, bs_waitMs = t + block_ttl ttl - t2, bs_reason = Some r\<rparr>)
    \<and> (\<forall>x y. (x, y) \<noteq> k \<longrightarrow> block_of (markBlocked a m r ttl t c) x y = (if evicted c (fst k) = Some x then None else block_of c x y))
    \<and> length (markBlocked a m r ttl t c) \<le> 512"
proof -
  obtain a' m' where k: "k = (a', m')" by (cases k)
  note b = mark_block_of [OF assms(2) [unfolded k]]
  have "fst (isBlocked a2 m2 t2 (markBlocked a m r ttl t c)) =
        (if t + block_ttl ttl \<le> t2 then not_blocked
         else \<lparr>bs_blocked = True, bs_waitMs = t + block_ttl ttl - t2, bs_reason = Some r\<rparr>)"
    using b [of r ttl t c a' m'] by (simp add: isBlocked_def assms(3) k block_of_def)
  moreover have "length (markBlocked a m r ttl t c) \<le> 512"
    using mark_ok [OF assms(1)] by (simp add: cache_ok_def MAX_ACCOUNT_BUCKETS_def)
  moreover have "\<forall>x y. (x, y) \<noteq> k \<longrightarrow>
      block_of (markBlocked a m r ttl t c) x y = (if evicted c (fst k) = Some x then None else block_of c x y)"
    unfolding b k by auto
  ultimately show ?thesis using ttl_ge by blast
qed

lemma entitlement_exact_witness:
  "bs_waitMs (fst (isBlocked ''acc'' ''openai/GPT-6-SOL-high'' 100 (markBlocked ''acc'' ''gpt-6-sol'' UnsupportedModel None 0 []))) = 1799900"
proof -
  have "cache_ok []" by (simp add: cache_ok_def)
  moreover have "block_key ''acc'' ''gpt-6-sol'' = Some (''acc'', ''gpt-6-sol'')" by code_simp
  moreover have "block_key ''acc'' ''openai/GPT-6-SOL-high'' = Some (''acc'', ''gpt-6-sol'')" by code_simp
  ultimately have "fst (isBlocked ''acc'' ''openai/GPT-6-SOL-high'' 100 (markBlocked ''acc'' ''gpt-6-sol'' UnsupportedModel None 0 [])) =
     (if 0 + block_ttl None \<le> 100 then not_blocked
      else \<lparr>bs_blocked = True, bs_waitMs = 0 + block_ttl None - 100, bs_reason = Some UnsupportedModel\<rparr>)"
    using entitlement_exact by blast
  then show ?thesis by (simp add: block_ttl_def DEFAULT_BLOCK_TTL_MS_def)
qed

end
