(* ===== verification/AccountPolicy.thy ===== *)
theory AccountPolicy
  imports JsonStore "HOL-Library.List_Lexorder" "HOL-Library.Char_ord"
begin

text \<open>
  Policies of accounts (\<open>lib/account-policy.ts\<close>): tags, weight, tier and the flags that take an
  account out of use, in a JSON file keyed by a hash of the account's identity.  The file is a JSON
  value; reading it fails or gives one.  SHA-256 is a parameter.  Accounts whose keys begin with
  \<open>sha256:\<close> are never names of the object's prototype, so the plain objects of the code are maps.
\<close>

section \<open>Policies\<close>

record account_policy =
  ap_accountKey :: string
  ap_tags :: "string list"
  ap_weight :: jsnum
  ap_priority :: jsnum
  ap_autoPrime :: bool
  ap_emergencyOnly :: bool
  ap_paused :: bool
  ap_drained :: bool
  ap_note :: "string option"
  ap_updatedAt :: jsnum

type_synonym policy_store = "(string, account_policy) jsmap"

definition json_num :: "json option \<Rightarrow> jsval option" where
  "json_num j = (case j of Some (JNum v) \<Rightarrow> Some v | _ \<Rightarrow> None)"

definition json_true :: "json option \<Rightarrow> bool" where
  "json_true j \<longleftrightarrow> j = Some (JBool True)"

definition tag_char :: "char \<Rightarrow> bool" where
  "tag_char c \<longleftrightarrow> is_digit c \<or> (97 \<le> (of_char c :: nat) \<and> (of_char c :: nat) \<le> 122) \<or> c \<in> set ''._-''"

definition normalizeTag :: "string \<Rightarrow> string option" where
  "normalizeTag v =
     (let normalized = dash_runs tag_char (js_lower (js_trim v))
      in if normalized = [] then None else Some (take 64 normalized))"

definition normalizeWeight :: "jsval option \<Rightarrow> jsnum" where
  "normalizeWeight v = (case v of Some (Finite x) \<Rightarrow> max 0 (min 10 x) | _ \<Rightarrow> 1)"

definition normalizePriority :: "jsval option \<Rightarrow> jsnum" where
  "normalizePriority v =
     (case v of Some (Finite x) \<Rightarrow> if is_integer x \<and> 0 \<le> x \<and> x \<le> 9 then x else 1 | _ \<Rightarrow> 1)"

text \<open>\<open>[...new Set(...)].sort()\<close> of the tags that are left.\<close>

definition tag_list :: "string list \<Rightarrow> string list" where
  "tag_list tags = sort (remdups (List.map_filter normalizeTag tags))"

definition json_strings :: "json option \<Rightarrow> string list" where
  "json_strings j = (case j of Some (JArr xs) \<Rightarrow> List.map_filter (\<lambda>x. json_string (Some x)) xs | _ \<Rightarrow> [])"

definition normalizePolicy :: "string \<Rightarrow> json option \<Rightarrow> account_policy" where
  "normalizePolicy key v =
     (let r = (if isRecord v then the v else JObj []);
          note = (case json_string (json_field r ''note'') of Some s \<Rightarrow> js_trim s | None \<Rightarrow> [])
      in \<lparr>ap_accountKey = key, ap_tags = tag_list (json_strings (json_field r ''tags'')),
          ap_weight = normalizeWeight (json_num (json_field r ''weight'')),
          ap_priority = normalizePriority (json_num (json_field r ''priority'')),
          ap_autoPrime = json_true (json_field r ''autoPrime''),
          ap_emergencyOnly = json_true (json_field r ''emergencyOnly''),
          ap_paused = json_true (json_field r ''paused''), ap_drained = json_true (json_field r ''drained''),
          ap_note = (if note = [] then None else Some (take 500 note)),
          ap_updatedAt = nullish (json_finite (json_field r ''updatedAt'')) 0\<rparr>)"

definition policy_step :: "string \<times> json \<Rightarrow> policy_store \<Rightarrow> policy_store" where
  "policy_step e accounts =
     (if js_starts_with (fst e) ''sha256:'' then jm_set (fst e) (normalizePolicy (fst e) (Some (snd e))) accounts else accounts)"

definition normalizePolicyStore :: "json \<Rightarrow> policy_store" where
  "normalizePolicyStore v =
     (if json_finite (json_field v ''version'') \<noteq> Some 1 then []
      else case json_field v ''accounts'' of Some (JObj entries) \<Rightarrow> fold policy_step entries [] | _ \<Rightarrow> [])"

text \<open>The key of an account: \<open>||\<close> passes over what is missing or empty.\<close>

definition falls_to :: "string option \<Rightarrow> string \<Rightarrow> string" where
  "falls_to s d = (case s of None \<Rightarrow> d | Some v \<Rightarrow> if v = [] then d else v)"

definition policy_identity :: "string option \<Rightarrow> string option \<Rightarrow> string option \<Rightarrow> string" where
  "policy_identity accountId email refreshToken =
     falls_to (map_option js_trim accountId)
       (falls_to (map_option (js_lower \<circ> js_trim) email)
         (case map_option js_trim refreshToken of
            None \<Rightarrow> ''unknown''
          | Some r \<Rightarrow> if r = [] then ''unknown'' else ''refresh:'' @ r))"

definition getAccountPolicyKey :: "(string \<Rightarrow> string) \<Rightarrow> string option \<Rightarrow> string option \<Rightarrow> string option \<Rightarrow> string" where
  "getAccountPolicyKey sha256 accountId email refreshToken = ''sha256:'' @ sha256 (policy_identity accountId email refreshToken)"

section \<open>The file\<close>

datatype store_read = ReadMissing | ReadFailed | ReadJson json

datatype policy_error = PolicyStoreUnreadable | InvalidPolicyStore | InvalidPolicyRow

definition flag_malformed :: "json \<Rightarrow> string \<Rightarrow> bool" where
  "flag_malformed row flag \<longleftrightarrow> (case json_field row flag of None \<Rightarrow> False | Some (JBool _) \<Rightarrow> False | Some _ \<Rightarrow> True)"

definition row_malformed :: "json \<Rightarrow> bool" where
  "row_malformed row \<longleftrightarrow> \<not> isRecord (Some row)
     \<or> list_ex (flag_malformed row) [''autoPrime'', ''emergencyOnly'', ''paused'', ''drained'']"

definition strict_check :: "json \<Rightarrow> policy_error option" where
  "strict_check parsed =
     (if json_finite (json_field parsed ''version'') \<noteq> Some 1 then Some InvalidPolicyStore
      else case json_field parsed ''accounts'' of
        Some (JObj entries) \<Rightarrow>
          if list_ex (\<lambda>(key, row). js_starts_with key ''sha256:'' \<and> row_malformed row) entries then Some InvalidPolicyRow else None
      | _ \<Rightarrow> Some InvalidPolicyStore)"

definition loadAccountPolicyStore :: "bool \<Rightarrow> store_read \<Rightarrow> policy_error + policy_store" where
  "loadAccountPolicyStore strict file =
     (case file of
        ReadMissing \<Rightarrow> Inr []
      | ReadFailed \<Rightarrow> if strict then Inl PolicyStoreUnreadable else Inr []
      | ReadJson parsed \<Rightarrow>
          (case if strict then strict_check parsed else None of
             Some e \<Rightarrow> Inl e
           | None \<Rightarrow> Inr (normalizePolicyStore parsed)))"

text \<open>\<open>JSON.stringify\<close> of a store.\<close>

definition policy_json :: "account_policy \<Rightarrow> json" where
  "policy_json p = JObj
     [(''accountKey'', JStr (ap_accountKey p)), (''tags'', JArr (map JStr (ap_tags p))), (''weight'', JNum (Finite (ap_weight p))),
      (''priority'', JNum (Finite (ap_priority p))), (''autoPrime'', JBool (ap_autoPrime p)),
      (''emergencyOnly'', JBool (ap_emergencyOnly p)), (''paused'', JBool (ap_paused p)), (''drained'', JBool (ap_drained p)),
      (''note'', case ap_note p of None \<Rightarrow> JNull | Some s \<Rightarrow> JStr s), (''updatedAt'', JNum (Finite (ap_updatedAt p)))]"

definition policies_json :: "policy_store \<Rightarrow> json" where
  "policies_json m = JObj [(''version'', JNum (Finite 1)), (''accounts'', JObj (map (\<lambda>(k, p). (k, policy_json p)) m))]"

definition restamp_policy :: "jsnum \<Rightarrow> account_policy \<Rightarrow> account_policy" where
  "restamp_policy t p = p\<lparr>ap_updatedAt := t\<rparr>"

definition mergeAccountPolicies :: "policy_store \<Rightarrow> policy_store \<Rightarrow> policy_store option \<Rightarrow> policy_store" where
  "mergeAccountPolicies current incoming baseline = merged_with ap_updatedAt restamp_policy baseline incoming current"

interpretation policy_merge: stamped_entries ap_updatedAt restamp_policy
  by unfold_locales (simp add: restamp_policy_def)

text \<open>The body of a save, between taking the lock and the rename, on the file it finds.\<close>

definition current_policies :: "store_read \<Rightarrow> policy_store" where
  "current_policies file = (case loadAccountPolicyStore False file of Inr m \<Rightarrow> m | Inl _ \<Rightarrow> [])"

definition saveAccountPolicyStore :: "policy_store \<Rightarrow> policy_store option \<Rightarrow> store_read \<Rightarrow> store_read" where
  "saveAccountPolicyStore store baseline file =
     (let incoming = normalizePolicyStore (policies_json store);
          prior = map_option (\<lambda>b. normalizePolicyStore (policies_json b)) baseline
      in ReadJson (policies_json (mergeAccountPolicies (current_policies file) incoming prior)))"

definition updateAccountPolicyStore :: "(policy_store \<Rightarrow> ('r \<times> bool) \<times> policy_store) \<Rightarrow> store_read \<Rightarrow> 'r \<times> store_read" where
  "updateAccountPolicyStore mutate file =
     (let ((result, dirty), store) = mutate (current_policies file)
      in (result, if dirty then ReadJson (policies_json (normalizePolicyStore (policies_json store))) else file))"

text \<open>\<open>mutate\<close> changes a copy; its tags, weight, priority and flags are normalised afterwards.\<close>

definition upsertAccountPolicy ::
  "policy_store \<Rightarrow> string \<Rightarrow> (account_policy \<Rightarrow> account_policy) \<Rightarrow> jsnum \<Rightarrow> account_policy \<times> policy_store" where
  "upsertAccountPolicy store accountKey mutate now =
     (let existing = jm_get store accountKey;
          p = mutate (nullish existing (normalizePolicy accountKey (Some JNull)));
          nxt = p\<lparr>ap_tags := tag_list (ap_tags p), ap_weight := normalizeWeight (Some (Finite (ap_weight p))),
                  ap_priority := normalizePriority (Some (Finite (ap_priority p))),
                  ap_updatedAt := stampUpdatedAt now (map_option ap_updatedAt existing)\<rparr>
      in (nxt, jm_set accountKey nxt store))"

section \<open>Normal policies\<close>

definition policy_ok :: "string \<Rightarrow> account_policy \<Rightarrow> bool" where
  "policy_ok k p \<longleftrightarrow> js_starts_with k ''sha256:'' \<and> ap_accountKey p = k
     \<and> sorted (ap_tags p) \<and> distinct (ap_tags p) \<and> list_all (\<lambda>t. normalizeTag t = Some t) (ap_tags p)
     \<and> 0 \<le> ap_weight p \<and> ap_weight p \<le> 10 \<and> normalizePriority (Some (Finite (ap_priority p))) = ap_priority p
     \<and> (case ap_note p of None \<Rightarrow> True | Some s \<Rightarrow> s \<noteq> [] \<and> js_trim s = s \<and> length s \<le> 500)"

definition policies_ok :: "policy_store \<Rightarrow> bool" where
  "policies_ok m \<longleftrightarrow> jm_ok m \<and> jm_all policy_ok m"

lemma map_filter_id: "list_all (\<lambda>x. f x = Some x) xs \<Longrightarrow> List.map_filter f xs = xs"
  by (induction xs) (simp_all add: List.map_filter_def)

lemma map_filter_Some: "(\<And>x. f (g x) = Some x) \<Longrightarrow> List.map_filter f (map g xs) = xs"
  by (induction xs) (simp_all add: List.map_filter_def)

lemma tag_list_id: "sorted ts \<Longrightarrow> distinct ts \<Longrightarrow> list_all (\<lambda>t. normalizeTag t = Some t) ts \<Longrightarrow> tag_list ts = ts"
  by (simp add: tag_list_def map_filter_id distinct_remdups_id sorted_sort_id)

lemma policy_roundtrip: "policy_ok k p \<Longrightarrow> normalizePolicy k (Some (policy_json p)) = p"
  by (cases p) (auto simp: policy_ok_def normalizePolicy_def policy_json_def isRecord_def json_field_def json_strings_def json_num_def
      json_string_def json_true_def json_finite_def normalizeWeight_def tag_list_id map_filter_Some Let_def split: option.split)

lemma fold_policy_step:
  assumes "jm_ok (acc @ m)" and "jm_all policy_ok m"
  shows "fold policy_step (map (\<lambda>(k, p). (k, policy_json p)) m) acc = acc @ m"
  using assms
proof (induction m arbitrary: acc)
  case (Cons kp m)
  obtain k p where kp: "kp = (k, p)" by (cases kp)
  have "jm_set k p acc = acc @ [(k, p)]"
    using Cons.prems(1) by (induction acc) (auto simp: kp jm_ok_def)
  then show ?case
    using Cons.IH [of "acc @ [(k, p)]"] Cons.prems
    by (auto simp: kp policy_step_def policy_roundtrip jm_all_def) (auto simp: policy_ok_def)
qed simp

lemma load_written: "policies_ok m \<Longrightarrow> normalizePolicyStore (policies_json m) = m"
  using fold_policy_step [of "[]" m]
  by (simp add: normalizePolicyStore_def policies_json_def json_field_def json_finite_def policies_ok_def)

lemma restamp_ok: "policy_ok k (restamp_policy t p) = policy_ok k p"
  by (simp add: policy_ok_def restamp_policy_def)

lemma merge_entry_all:
  assumes "jm_all q m" and "q k e" and "\<And>t. q k (restamp t e)"
  shows "jm_all q (fst (merge_entry stamp restamp baseline k e m))"
  using assms by (auto simp: merge_entry_def Let_def split: option.split)

lemma merge_policies_ok:
  "policies_ok current \<Longrightarrow> policies_ok incoming \<Longrightarrow> policies_ok (mergeAccountPolicies current incoming baseline)"
proof -
  assume c: "policies_ok current" and i: "policies_ok incoming"
  have "jm_all policy_ok (merged_with ap_updatedAt restamp_policy baseline inc cur)"
    if "jm_all policy_ok cur" "jm_all policy_ok inc" for inc cur
    using that
  proof (induction inc arbitrary: cur)
    case (Cons kp inc)
    obtain k p where kp: "kp = (k, p)" by (cases kp)
    have p: "policy_ok k p" and inc: "jm_all policy_ok inc" using Cons.prems(2) by (simp_all add: kp jm_all_def)
    have "jm_all policy_ok (fst (merge_entry ap_updatedAt restamp_policy baseline k p cur))"
      by (rule merge_entry_all [OF Cons.prems(1) p]) (simp add: restamp_ok p)
    then show ?case unfolding kp merged_with_Cons by (rule Cons.IH [OF _ inc])
  qed simp
  then show ?thesis using c i policy_merge.merge_ok by (simp add: policies_ok_def mergeAccountPolicies_def)
qed

lemma save_form:
  assumes "policies_ok m" and "policies_ok store" and "\<And>b. baseline = Some b \<Longrightarrow> policies_ok b"
  shows "saveAccountPolicyStore store baseline (ReadJson (policies_json m))
    = ReadJson (policies_json (mergeAccountPolicies m store baseline))"
  using assms load_written
  by (cases baseline) (simp_all add: saveAccountPolicyStore_def current_policies_def loadAccountPolicyStore_def)

text \<open>A sequence of saves on the file is the sequence of merges.\<close>

definition save_policies :: "(policy_store \<times> policy_store option) list \<Rightarrow> store_read \<Rightarrow> store_read" where
  "save_policies ops file = fold (\<lambda>(store, baseline). saveAccountPolicyStore store baseline) ops file"

definition save_ok :: "policy_store \<times> policy_store option \<Rightarrow> bool" where
  "save_ok op \<longleftrightarrow> policies_ok (fst op) \<and> (case snd op of None \<Rightarrow> True | Some b \<Rightarrow> policies_ok b)"

lemma save_policies_form:
  "policies_ok m \<Longrightarrow> list_all save_ok ops \<Longrightarrow>
     save_policies ops (ReadJson (policies_json m)) = ReadJson (policies_json (saves ap_updatedAt restamp_policy ops m))
     \<and> policies_ok (saves ap_updatedAt restamp_policy ops m)"
proof (induction ops arbitrary: m)
  case (Cons op ops)
  have o: "policies_ok (fst op)" "\<And>b. snd op = Some b \<Longrightarrow> policies_ok b" using Cons.prems(2) by (auto simp: save_ok_def)
  have "policies_ok (mergeAccountPolicies m (fst op) (snd op))" by (rule merge_policies_ok [OF Cons.prems(1) o(1)])
  from Cons.IH [OF this] Cons.prems show ?case
    using save_form [OF Cons.prems(1) o, of "snd op"] by (simp add: save_policies_def case_prod_beta mergeAccountPolicies_def)
qed (simp add: save_policies_def)

lemma save_ok_jm: "list_all save_ok ops \<Longrightarrow> list_all (jm_ok \<circ> fst) ops"
  by (auto simp: list_all_iff save_ok_def policies_ok_def)

section \<open>Property\<close>

text \<open>
  C16. An edit is never lost to a concurrent writer: when a save changes the policy of an account from what its snapshot held,
  then however the saves of other writers before it were, and after any later saves that leave that account alone, the
  file holds the edited policy, stamped no earlier than any policy it replaced; and every other account the file knew is
  still known, with a stamp that did not go back.
\<close>

theorem policy_edit_survives:
  assumes "policies_ok m" and "list_all save_ok before" and "save_ok (store, Some snapshot)" and "list_all save_ok after"
    and "jm_get store k = Some p" and "jm_get snapshot k \<noteq> Some p" and "list_all (leaves k) after"
  shows "\<exists>final. save_policies (before @ (store, Some snapshot) # after) (ReadJson (policies_json m)) = ReadJson (policies_json final)
    \<and> current_policies (ReadJson (policies_json final)) = final
    \<and> (\<exists>t. jm_get final k = Some (restamp_policy t p) \<and> ap_updatedAt p \<le> t
         \<and> (\<forall>x. jm_get (current_policies (save_policies before (ReadJson (policies_json m)))) k = Some x \<longrightarrow> ap_updatedAt x \<le> t))
    \<and> (\<forall>k' x. jm_get m k' = Some x \<longrightarrow> (\<exists>y. jm_get final k' = Some y \<and> ap_updatedAt x \<le> ap_updatedAt y))"
proof -
  let ?ops = "before @ (store, Some snapshot) # after"
  let ?mid = "saves ap_updatedAt restamp_policy before m"
  let ?final = "saves ap_updatedAt restamp_policy ?ops m"
  have all: "list_all save_ok ?ops" using assms(2-4) by simp
  note f = save_policies_form [OF assms(1) all]
  note b = save_policies_form [OF assms(1,2)]
  have cur: "current_policies (ReadJson (policies_json x)) = x" if "policies_ok x" for x
    using load_written [OF that] by (simp add: current_policies_def loadAccountPolicyStore_def)
  have split: "?final = saves ap_updatedAt restamp_policy ((store, Some snapshot) # after) ?mid" by (simp add: saves_def)
  have "jm_ok store" using assms(3) by (simp add: save_ok_def policies_ok_def)
  from policy_merge.saves_edit [OF this save_ok_jm [OF assms(4)] assms(7,5,6), of ?mid]
  have "\<exists>t. jm_get ?final k = Some (restamp_policy t p) \<and> ap_updatedAt p \<le> t
      \<and> (\<forall>x. jm_get ?mid k = Some x \<longrightarrow> ap_updatedAt x \<le> t)" unfolding split .
  moreover have "current_policies (save_policies before (ReadJson (policies_json m))) = ?mid" using b cur by simp
  moreover have "\<forall>k' x. jm_get m k' = Some x \<longrightarrow> (\<exists>y. jm_get ?final k' = Some y \<and> ap_updatedAt x \<le> ap_updatedAt y)"
    using policy_merge.saves_monotone [OF save_ok_jm [OF all]] by blast
  ultimately show ?thesis using f cur by (intro exI [of _ ?final]) simp
qed

definition sample_policy :: "string list \<Rightarrow> bool \<Rightarrow> jsnum \<Rightarrow> account_policy" where
  "sample_policy tags paused t = (normalizePolicy ''sha256:a'' None)\<lparr>ap_tags := tags, ap_paused := paused, ap_updatedAt := t\<rparr>"

lemma sample_policy_ok: "policies_ok [(''sha256:a'', sample_policy [''team''] paused t)]"
proof -
  have "normalizeTag ''team'' = Some ''team''" by code_simp
  moreover have "js_starts_with ''sha256:a'' ''sha256:''" by code_simp
  moreover have "is_integer 1" by (simp add: is_integer_def)
  ultimately show ?thesis
    by (simp add: policies_ok_def jm_all_def policy_ok_def sample_policy_def normalizePolicy_def normalizeWeight_def
        normalizePriority_def json_num_def json_field_def json_string_def isRecord_def Let_def)
qed

text \<open>A pause set on a snapshot of stamp 5 lands over a policy that another process has stamped 9 meanwhile.\<close>

lemma policy_edit_survives_witness:
  "\<exists>final. save_policies [([(''sha256:a'', sample_policy [''team''] False 9)], None), ([(''sha256:a'', sample_policy [''team''] True 6)],
        Some [(''sha256:a'', sample_policy [''team''] False 5)])] (ReadJson (policies_json []))
      = ReadJson (policies_json final)
    \<and> (\<exists>x. jm_get final ''sha256:a'' = Some x \<and> ap_paused x)"
proof -
  let ?store = "\<lambda>paused t. [(''sha256:a'', sample_policy [''team''] paused t)]"
  have ok: "policies_ok []" "list_all save_ok [(?store False 9, None)]" "save_ok (?store True 6, Some (?store False 5))"
    using sample_policy_ok by (simp_all add: save_ok_def policies_ok_def)
  have "sample_policy [''team''] False 5 \<noteq> sample_policy [''team''] True 6" by (simp add: sample_policy_def normalizePolicy_def Let_def)
  then have "jm_get (?store True 6) ''sha256:a'' = Some (sample_policy [''team''] True 6)"
    "jm_get (?store False 5) ''sha256:a'' \<noteq> Some (sample_policy [''team''] True 6)" by simp_all
  from policy_edit_survives [OF ok _ this, of "[]"]
  obtain final t where "save_policies [(?store False 9, None), (?store True 6, Some (?store False 5))] (ReadJson (policies_json []))
      = ReadJson (policies_json final)" "jm_get final ''sha256:a'' = Some (restamp_policy t (sample_policy [''team''] True 6))"
    by auto
  moreover have "ap_paused (restamp_policy t (sample_policy [''team''] True 6))" for t by (simp add: restamp_policy_def sample_policy_def)
  ultimately show ?thesis by blast
qed

end
