(* ===== verification/RoutingProfile.thy ===== *)
theory RoutingProfile
  imports AccountPolicy
begin

text \<open>
  Routing profiles of projects (\<open>lib/routing-profiles.ts\<close>): tags to prefer and to avoid, models to
  allow and to deny, weights of accounts and the name of a budget, per project key.  The profile
  maps of the code have no prototype.  How a project's root and key are found is a parameter.
\<close>

section \<open>Profiles\<close>

record routing_profile =
  rf_projectKey :: string
  rf_projectName :: string
  rf_identityRoot :: string
  rf_preferredTags :: "string list"
  rf_avoidTags :: "string list"
  rf_modelAllowlist :: "string list"
  rf_modelDenylist :: "string list"
  rf_accountWeightByKey :: "(string, jsnum) jsmap"
  rf_budgetKey :: "string option"
  rf_updatedAt :: jsnum

type_synonym profile_store = "(string, routing_profile) jsmap"

definition normalizeTokenList :: "json option \<Rightarrow> string list" where
  "normalizeTokenList v = sort (remdups (filter (\<lambda>s. s \<noteq> []) (map (js_lower \<circ> js_trim) (json_strings v))))"

definition weight_step :: "string \<times> json \<Rightarrow> (string, jsnum) jsmap \<Rightarrow> (string, jsnum) jsmap" where
  "weight_step e result =
     (if \<not> js_starts_with (fst e) ''sha256:'' then result
      else case json_finite (Some (snd e)) of None \<Rightarrow> result | Some x \<Rightarrow> jm_set (fst e) (max 0 (min 10 x)) result)"

definition normalizeWeightMap :: "json option \<Rightarrow> (string, jsnum) jsmap" where
  "normalizeWeightMap v = (case v of Some (JObj entries) \<Rightarrow> fold weight_step entries [] | _ \<Rightarrow> [])"

text \<open>A string field that is not blank, trimmed.\<close>

definition trimmed_field :: "json \<Rightarrow> string \<Rightarrow> string option" where
  "trimmed_field j f =
     (case json_string (json_field j f) of None \<Rightarrow> None | Some s \<Rightarrow> if js_trim s = [] then None else Some (js_trim s))"

definition normalizeProfile :: "string \<Rightarrow> json option \<Rightarrow> routing_profile option" where
  "normalizeProfile key v =
     (if \<not> isRecord v then None
      else let j = the v in Some
        \<lparr>rf_projectKey = key, rf_projectName = nullish (map_option (take 80) (trimmed_field j ''projectName'')) ''project'',
         rf_identityRoot = nullish (trimmed_field j ''identityRoot'') [],
         rf_preferredTags = normalizeTokenList (json_field j ''preferredTags''),
         rf_avoidTags = normalizeTokenList (json_field j ''avoidTags''),
         rf_modelAllowlist = normalizeTokenList (json_field j ''modelAllowlist''),
         rf_modelDenylist = normalizeTokenList (json_field j ''modelDenylist''),
         rf_accountWeightByKey = normalizeWeightMap (json_field j ''accountWeightByKey''),
         rf_budgetKey = map_option (take 80) (trimmed_field j ''budgetKey''),
         rf_updatedAt = nullish (json_finite (json_field j ''updatedAt'')) 0\<rparr>)"

definition profile_step :: "string \<times> json \<Rightarrow> profile_store \<Rightarrow> profile_store" where
  "profile_step e profiles =
     (case normalizeProfile (fst e) (Some (snd e)) of None \<Rightarrow> profiles | Some profile \<Rightarrow> jm_set (fst e) profile profiles)"

definition normalizeProfileStore :: "json \<Rightarrow> profile_store" where
  "normalizeProfileStore v =
     (if json_finite (json_field v ''version'') \<noteq> Some 1 then []
      else case json_field v ''profiles'' of Some (JObj entries) \<Rightarrow> fold profile_step entries [] | _ \<Rightarrow> [])"

definition loadRoutingProfileStore :: "store_read \<Rightarrow> profile_store" where
  "loadRoutingProfileStore file = (case file of ReadMissing \<Rightarrow> [] | ReadFailed \<Rightarrow> [] | ReadJson parsed \<Rightarrow> normalizeProfileStore parsed)"

section \<open>Saving and editing\<close>

definition profile_json :: "routing_profile \<Rightarrow> json" where
  "profile_json p = JObj
     [(''projectKey'', JStr (rf_projectKey p)), (''projectName'', JStr (rf_projectName p)), (''identityRoot'', JStr (rf_identityRoot p)),
      (''preferredTags'', JArr (map JStr (rf_preferredTags p))), (''avoidTags'', JArr (map JStr (rf_avoidTags p))),
      (''modelAllowlist'', JArr (map JStr (rf_modelAllowlist p))), (''modelDenylist'', JArr (map JStr (rf_modelDenylist p))),
      (''accountWeightByKey'', JObj (map (\<lambda>(k, w). (k, JNum (Finite w))) (rf_accountWeightByKey p))),
      (''budgetKey'', case rf_budgetKey p of None \<Rightarrow> JNull | Some s \<Rightarrow> JStr s), (''updatedAt'', JNum (Finite (rf_updatedAt p)))]"

definition profiles_json :: "profile_store \<Rightarrow> json" where
  "profiles_json m = JObj [(''version'', JNum (Finite 1)), (''profiles'', JObj (map (\<lambda>(k, p). (k, profile_json p)) m))]"

definition restamp_profile :: "jsnum \<Rightarrow> routing_profile \<Rightarrow> routing_profile" where
  "restamp_profile t p = p\<lparr>rf_updatedAt := t\<rparr>"

definition mergeRoutingProfiles :: "profile_store \<Rightarrow> profile_store \<Rightarrow> profile_store option \<Rightarrow> profile_store" where
  "mergeRoutingProfiles current incoming baseline = merged_with rf_updatedAt restamp_profile baseline incoming current"

interpretation profile_merge: stamped_entries rf_updatedAt restamp_profile
  by unfold_locales (simp add: restamp_profile_def)

definition saveRoutingProfileStore :: "profile_store \<Rightarrow> profile_store option \<Rightarrow> store_read \<Rightarrow> store_read" where
  "saveRoutingProfileStore store baseline file =
     (let incoming = normalizeProfileStore (profiles_json store);
          prior = map_option (\<lambda>b. normalizeProfileStore (profiles_json b)) baseline
      in ReadJson (profiles_json (mergeRoutingProfiles (loadRoutingProfileStore file) incoming prior)))"

definition updateRoutingProfileStore :: "(profile_store \<Rightarrow> ('r \<times> bool) \<times> profile_store) \<Rightarrow> store_read \<Rightarrow> 'r \<times> store_read" where
  "updateRoutingProfileStore mutate file =
     (let ((result, dirty), store) = mutate (loadRoutingProfileStore file)
      in (result, if dirty then ReadJson (profiles_json (normalizeProfileStore (profiles_json store))) else file))"

definition createDefaultRoutingProfile :: "string \<Rightarrow> string \<Rightarrow> string \<Rightarrow> jsnum \<Rightarrow> routing_profile" where
  "createDefaultRoutingProfile projectKey projectName identityRoot now =
     \<lparr>rf_projectKey = projectKey, rf_projectName = projectName, rf_identityRoot = identityRoot, rf_preferredTags = [],
      rf_avoidTags = [], rf_modelAllowlist = [], rf_modelDenylist = [], rf_accountWeightByKey = [], rf_budgetKey = None,
      rf_updatedAt = now\<rparr>"

datatype profile_error = InvalidRoutingProfile

definition upsertRoutingProfile ::
  "profile_store \<Rightarrow> routing_profile \<Rightarrow> (routing_profile \<Rightarrow> routing_profile) option \<Rightarrow> jsnum
    \<Rightarrow> profile_error + routing_profile \<times> profile_store" where
  "upsertRoutingProfile store profile mutate now =
     (let existing = jm_get store (rf_projectKey profile);
          base = nullish existing profile;
          changed = (case mutate of None \<Rightarrow> base | Some f \<Rightarrow> f base);
          nxt = changed\<lparr>rf_updatedAt := stampUpdatedAt now (map_option rf_updatedAt existing)\<rparr>
      in case normalizeProfile (rf_projectKey profile) (Some (profile_json nxt)) of
           None \<Rightarrow> Inl InvalidRoutingProfile
         | Some normalized \<Rightarrow> Inr (normalized, jm_set (rf_projectKey profile) normalized store))"

section \<open>The profile of a directory\<close>

record project_context =
  pc_startDir :: string
  pc_projectRoot :: "string option"
  pc_identityRoot :: "string option"
  pc_projectKey :: "string option"
  pc_profile :: "routing_profile option"

definition resolveProjectRoutingProfile ::
  "(string \<Rightarrow> string option) \<Rightarrow> (string \<Rightarrow> string) \<Rightarrow> (string \<Rightarrow> string) \<Rightarrow> string \<Rightarrow> profile_store \<Rightarrow> project_context" where
  "resolveProjectRoutingProfile findProjectRoot identityRootOf storageKeyOf startDir store =
     (case findProjectRoot startDir of
        None \<Rightarrow> \<lparr>pc_startDir = startDir, pc_projectRoot = None, pc_identityRoot = None, pc_projectKey = None, pc_profile = None\<rparr>
      | Some projectRoot \<Rightarrow>
          let identityRoot = identityRootOf projectRoot; projectKey = storageKeyOf identityRoot
          in \<lparr>pc_startDir = startDir, pc_projectRoot = Some projectRoot, pc_identityRoot = Some identityRoot,
              pc_projectKey = Some projectKey, pc_profile = jm_get store projectKey\<rparr>)"

section \<open>What an edit leaves behind\<close>

text \<open>An edit always succeeds, is found under its project, and its stamp does not go back.\<close>

lemma upsert_profile:
  "\<exists>p store'. upsertRoutingProfile store profile mutate now = Inr (p, store') \<and> jm_get store' (rf_projectKey profile) = Some p
     \<and> rf_projectKey p = rf_projectKey profile \<and> now \<le> rf_updatedAt p
     \<and> (\<forall>x. jm_get store (rf_projectKey profile) = Some x \<longrightarrow> rf_updatedAt x \<le> rf_updatedAt p)
     \<and> (\<forall>k. k \<noteq> rf_projectKey profile \<longrightarrow> jm_get store' k = jm_get store k)"
proof -
  have "isRecord (Some (profile_json p))" for p by (simp add: profile_json_def isRecord_def)
  moreover have "json_finite (json_field (profile_json p) ''updatedAt'') = Some (rf_updatedAt p)" for p
    by (simp add: profile_json_def json_field_def json_finite_def)
  ultimately show ?thesis
    using stamp_ge by (auto simp: upsertRoutingProfile_def normalizeProfile_def Let_def jm_get_set)
qed

text \<open>Tokens are lower case, trimmed, sorted and without repetitions, so reading them again changes nothing.\<close>

lemma token_list_sorted: "sorted (normalizeTokenList v) \<and> distinct (normalizeTokenList v) \<and> [] \<notin> set (normalizeTokenList v)"
  by (simp add: normalizeTokenList_def)

lemma weight_fold_range: "jm_all (\<lambda>k w. 0 \<le> w \<and> w \<le> 10) m \<Longrightarrow> jm_all (\<lambda>k w. 0 \<le> w \<and> w \<le> 10) (fold weight_step entries m)"
  by (induction entries arbitrary: m) (auto simp: weight_step_def jm_all_set split: option.split)

lemma weights_in_range: "jm_get (normalizeWeightMap v) k = Some w \<Longrightarrow> 0 \<le> w \<and> w \<le> 10"
proof -
  have "jm_all (\<lambda>k w. 0 \<le> w \<and> w \<le> 10) (normalizeWeightMap v)"
    by (simp add: normalizeWeightMap_def weight_fold_range split: option.split json.split)
  then show "jm_get (normalizeWeightMap v) k = Some w \<Longrightarrow> 0 \<le> w \<and> w \<le> 10" by (rule jm_all_get)
qed

end
