(* ===== verification/RuntimePolicy.thy ===== *)
theory RuntimePolicy
  imports SelectionResults BudgetGuard CapabilityPolicy EntitlementCache RoutingProfile
begin

text \<open>
  The policy decision of a request (\<open>lib/policy/runtime-policy.ts\<close>): models a profile allows,
  budgets, account policies and learned capabilities, combined into a verdict and into what the
  choice of \<open>AccountSelection\<close> is given; and the recorder that writes one ledger row per request.
  Budgets are looked up as entries of the store.  A profile that names its budget like a member of
  the object prototype (\<open>constructor\<close>) makes the code evaluate a limit without bounds, which always
  allows; the model has no such limit.
\<close>

section \<open>The decision\<close>

record policy_account =
  pa_index :: nat
  pa_accountId :: "string option"
  pa_email :: "string option"
  pa_refreshToken :: "string option"

record policy_state =
  ps_accountPolicies :: policy_store
  ps_budgets :: budget_store
  ps_project :: project_context

datatype policy_reason =
    ModelDenied
  | ModelNotAllowed
  | BudgetBlocked string "budget_reason list"
  | UnpricedOperation "string option" "string list"

record policy_decision =
  pd_allowed :: bool
  pd_statusCode :: nat
  pd_errorCode :: "string option"
  pd_reasons :: "policy_reason list"
  pd_projectKey :: "string option"
  pd_blockedAccountIndexes :: "nat set"
  pd_blockedAccountReasons :: "(nat, string) jsmap"
  pd_scoreBoostByAccount :: "(nat, jsnum) jsmap"
  pd_priorityByAccount :: "(nat, jsnum) jsmap"
  pd_emergencyAccountIndexes :: "nat set"
  pd_budgetEvaluations :: "budget_evaluation list"

definition normalizeToken :: "string option \<Rightarrow> string option" where
  "normalizeToken v =
     (case v of None \<Rightarrow> None | Some s \<Rightarrow> let trimmed = js_lower (js_trim s) in if trimmed = [] then None else Some trimmed)"

definition matchesModel :: "string list \<Rightarrow> string option \<Rightarrow> bool" where
  "matchesModel patterns model =
     (case normalizeToken model of
        None \<Rightarrow> False
      | Some m \<Rightarrow> list_ex (\<lambda>pattern. case normalizeToken (Some pattern) of
            None \<Rightarrow> False | Some t \<Rightarrow> m = t \<or> js_includes m t) patterns)"

definition intersects :: "string list \<Rightarrow> string list \<Rightarrow> bool" where
  "intersects left right = list_ex (\<lambda>entry. entry \<in> set right) left"

section \<open>Budgets\<close>

text \<open>A \<open>Set\<close> of strings, in the order of insertion.\<close>

definition set_add :: "string option \<Rightarrow> string list \<Rightarrow> string list" where
  "set_add k ks = (case k of None \<Rightarrow> ks | Some k \<Rightarrow> if k \<in> set ks then ks else ks @ [k])"

definition truthy :: "string option \<Rightarrow> string option" where
  "truthy s = (case s of Some v \<Rightarrow> if v = [] then None else Some v | None \<Rightarrow> None)"

definition budget_keys :: "project_context \<Rightarrow> string list" where
  "budget_keys project =
     set_add (Option.bind (truthy (Option.bind (pc_profile project) rf_budgetKey)) normalizeBudgetKey)
       (set_add (Option.bind (truthy (pc_projectKey project)) (\<lambda>k. normalizeBudgetKey (''project:'' @ k))) [''global''])"

definition matching_limits :: "policy_state \<Rightarrow> budget_limit list" where
  "matching_limits state = List.map_filter (jm_get (ps_budgets state)) (budget_keys (ps_project state))"

definition budget_query :: "budget_window \<Rightarrow> jsnum \<Rightarrow> usage_query" where
  "budget_query window now =
     \<lparr>uq_since = Some (TNumber (getBudgetWindowStart window (Finite now))), uq_until = Some (TNumber (Finite now)), uq_by = None\<rparr>"

text \<open>The loop over the limits; summaries are kept per window.\<close>

fun evaluate_limits ::
  "(string \<Rightarrow> jsval) \<Rightarrow> (string \<Rightarrow> string \<Rightarrow> int) \<Rightarrow> usage_row list \<Rightarrow> jsnum \<Rightarrow> budget_limit list
    \<Rightarrow> (budget_window, usage_summary) jsmap \<Rightarrow> summary_error + budget_evaluation list" where
  "evaluate_limits dp collate rows now [] summaries = Inr []"
| "evaluate_limits dp collate rows now (limit # limits) summaries =
     (case (case jm_get summaries (bl_window limit) of
              Some s \<Rightarrow> Inr s | None \<Rightarrow> summarizeUsageRows dp collate rows (budget_query (bl_window limit) now)) of
        Inl e \<Rightarrow> Inl e
      | Inr summary \<Rightarrow>
          (case evaluate_limits dp collate rows now limits (jm_set (bl_window limit) summary summaries) of
             Inl e \<Rightarrow> Inl e
           | Inr evaluations \<Rightarrow> Inr (evaluateBudgetGuard limit summary # evaluations)))"

definition evaluateBudgets ::
  "(string \<Rightarrow> jsval) \<Rightarrow> (string \<Rightarrow> string \<Rightarrow> int) \<Rightarrow> usage_row list \<Rightarrow> policy_state \<Rightarrow> jsnum
    \<Rightarrow> summary_error + budget_evaluation list" where
  "evaluateBudgets dp collate rows state now =
     (let limits = matching_limits state in if limits = [] then Inr [] else evaluate_limits dp collate rows now limits [])"

section \<open>Accounts\<close>

record account_marks =
  am_blocked :: "nat set"
  am_reasons :: "(nat, string) jsmap"
  am_boosts :: "(nat, jsnum) jsmap"
  am_priorities :: "(nat, jsnum) jsmap"
  am_emergency :: "nat set"

definition policy_of :: "(string \<Rightarrow> string) \<Rightarrow> policy_state \<Rightarrow> policy_account \<Rightarrow> account_policy option" where
  "policy_of sha256 state a =
     jm_get (ps_accountPolicies state) (getAccountPolicyKey sha256 (pa_accountId a) (pa_email a) (pa_refreshToken a))"

definition account_boost :: "string \<Rightarrow> account_policy option \<Rightarrow> routing_profile option \<Rightarrow> jsnum" where
  "account_boost accountKey policy profile =
     (case policy of None \<Rightarrow> 0 | Some p \<Rightarrow> (ap_weight p - 1) * 2)
     + (case (policy, profile) of
          (Some p, Some f) \<Rightarrow> if rf_preferredTags f \<noteq> [] \<and> intersects (ap_tags p) (rf_preferredTags f) then 8 else 0 | _ \<Rightarrow> 0)
     - (case (policy, profile) of
          (Some p, Some f) \<Rightarrow> if rf_avoidTags f \<noteq> [] \<and> intersects (ap_tags p) (rf_avoidTags f) then 8 else 0 | _ \<Rightarrow> 0)
     + (case profile of
          None \<Rightarrow> 0 | Some f \<Rightarrow> (case jm_get (rf_accountWeightByKey f) accountKey of None \<Rightarrow> 0 | Some w \<Rightarrow> w * 2))"

definition model_unsupported :: "capability_store option \<Rightarrow> string option \<Rightarrow> policy_account \<Rightarrow> bool" where
  "model_unsupported capabilities model a =
     (case capabilities of
        None \<Rightarrow> False
      | Some s \<Rightarrow>
          let capabilityKey = resolveEntitlementAccountKey
                \<lparr>er_accountId = pa_accountId a, er_email = pa_email a, er_index = Some (Finite (of_nat (pa_index a)))\<rparr>
          in case getSnapshot capabilityKey (nullish model ''unknown'') s of
               None \<Rightarrow> False | Some e \<Rightarrow> 0 < ce_unsupported e)"

definition mark_account ::
  "(string \<Rightarrow> string) \<Rightarrow> policy_state \<Rightarrow> capability_store option \<Rightarrow> string option \<Rightarrow> policy_account \<Rightarrow> account_marks \<Rightarrow> account_marks" where
  "mark_account sha256 state capabilities model a m =
     (let i = pa_index a;
          accountKey = getAccountPolicyKey sha256 (pa_accountId a) (pa_email a) (pa_refreshToken a);
          policy = jm_get (ps_accountPolicies state) accountKey;
          paused = (case policy of None \<Rightarrow> False | Some p \<Rightarrow> ap_paused p);
          drained = (case policy of None \<Rightarrow> False | Some p \<Rightarrow> ap_drained p);
          m = m\<lparr>am_priorities := jm_set i (case policy of None \<Rightarrow> 1 | Some p \<Rightarrow> ap_priority p) (am_priorities m)\<rparr>;
          m = (case policy of
                 Some p \<Rightarrow> if ap_emergencyOnly p then m\<lparr>am_emergency := insert i (am_emergency m)\<rparr> else m | None \<Rightarrow> m);
          m = (if paused then m\<lparr>am_blocked := insert i (am_blocked m), am_reasons := jm_set i ''policy: paused'' (am_reasons m)\<rparr>
               else m);
          m = (if drained then m\<lparr>am_blocked := insert i (am_blocked m),
                 am_reasons := jm_set i (if paused then ''policy: paused, drained'' else ''policy: drained'') (am_reasons m)\<rparr>
               else m);
          m = (if model_unsupported capabilities model a
               then m\<lparr>am_blocked := insert i (am_blocked m), am_reasons := jm_set i ''policy: unsupported model'' (am_reasons m)\<rparr>
               else m)
      in m\<lparr>am_boosts := jm_set i (account_boost accountKey policy (pc_profile (ps_project state))) (am_boosts m)\<rparr>)"

definition no_marks :: account_marks where
  "no_marks = \<lparr>am_blocked = {}, am_reasons = [], am_boosts = [], am_priorities = [], am_emergency = {}\<rparr>"

section \<open>Evaluation\<close>

definition model_reasons :: "routing_profile option \<Rightarrow> string option \<Rightarrow> policy_reason list" where
  "model_reasons profile model =
     (case profile of
        None \<Rightarrow> []
      | Some f \<Rightarrow>
          (if rf_modelDenylist f \<noteq> [] \<and> matchesModel (rf_modelDenylist f) model then [ModelDenied] else [])
          @ (if rf_modelAllowlist f \<noteq> [] \<and> \<not> matchesModel (rf_modelAllowlist f) model then [ModelNotAllowed] else []))"

definition unpriced_reasons :: "budget_store \<Rightarrow> string option \<Rightarrow> policy_reason list" where
  "unpriced_reasons budgets operation =
     (if isUnpricedOperation operation
      then let costBudgets = map bl_key (filter (\<lambda>l. bl_maxCostUsd l \<noteq> None) (map snd budgets))
           in if costBudgets \<noteq> [] then [UnpricedOperation operation costBudgets] else []
      else [])"

definition evaluateRuntimePolicy ::
  "(string \<Rightarrow> jsval) \<Rightarrow> (string \<Rightarrow> string \<Rightarrow> int) \<Rightarrow> (string \<Rightarrow> string) \<Rightarrow> usage_row list \<Rightarrow> policy_state
    \<Rightarrow> policy_account list \<Rightarrow> string option \<Rightarrow> capability_store option \<Rightarrow> jsnum \<Rightarrow> string option
    \<Rightarrow> summary_error + policy_decision" where
  "evaluateRuntimePolicy dp collate sha256 rows state as model capabilities now operation =
     (case evaluateBudgets dp collate rows state now of
        Inl e \<Rightarrow> Inl e
      | Inr budgetEvaluations \<Rightarrow>
          let reasons = model_reasons (pc_profile (ps_project state)) model
                @ map (\<lambda>e. BudgetBlocked (be_key e) (be_reasons e)) (filter (\<lambda>e. \<not> be_allowed e) budgetEvaluations)
                @ unpriced_reasons (ps_budgets state) operation;
              marks = fold (mark_account sha256 state capabilities model) as no_marks;
              blockedByBudget = list_ex (\<lambda>e. \<not> be_allowed e) budgetEvaluations;
              allowed = (reasons = [] \<and> \<not> blockedByBudget)
          in Inr \<lparr>pd_allowed = allowed, pd_statusCode = (if blockedByBudget then 429 else 403),
                  pd_errorCode = (if allowed then None else if blockedByBudget then Some ''budget_blocked'' else Some ''policy_blocked''),
                  pd_reasons = reasons, pd_projectKey = pc_projectKey (ps_project state),
                  pd_blockedAccountIndexes = am_blocked marks, pd_blockedAccountReasons = am_reasons marks,
                  pd_scoreBoostByAccount = am_boosts marks, pd_priorityByAccount = am_priorities marks,
                  pd_emergencyAccountIndexes = am_emergency marks, pd_budgetEvaluations = budgetEvaluations\<rparr>)"

text \<open>What the choice of an account is given of the decision.\<close>

definition choice_policy :: "policy_decision \<Rightarrow> runtime_policy" where
  "choice_policy d = \<lparr>rp_blockedAccountIndexes = pd_blockedAccountIndexes d, rp_blockedAccountReasons = jm_get (pd_blockedAccountReasons d),
     rp_scoreBoostByAccount = (\<lambda>i. map_option Finite (jm_get (pd_scoreBoostByAccount d) i)),
     rp_priorityByAccount = Some (pd_priorityByAccount d)\<rparr>"

text \<open>Emergency accounts count as tried while other accounts still serve, unless a pin is given (\<open>lib/runtime-rotation-proxy.ts\<close>).\<close>

definition attempted_for_selection :: "policy_decision option \<Rightarrow> bool \<Rightarrow> bool \<Rightarrow> nat set \<Rightarrow> nat set" where
  "attempted_for_selection decision isPinned backupsAllowed attempted =
     (case decision of
        None \<Rightarrow> attempted
      | Some d \<Rightarrow> if \<not> isPinned \<and> pd_emergencyAccountIndexes d \<noteq> {} \<and> \<not> backupsAllowed
          then attempted \<union> pd_emergencyAccountIndexes d else attempted)"

section \<open>Recording the usage of a request\<close>

record record_input =
  ri_outcome :: "string option"
  ri_statusCode :: "jsval option"
  ri_errorCode :: "string option"
  ri_durationMs :: "jsval option"
  ri_account :: "policy_account option"
  ri_inputTokens :: "jsval option"
  ri_outputTokens :: "jsval option"
  ri_cachedInputTokens :: "jsval option"
  ri_reasoningTokens :: "jsval option"
  ri_totalTokens :: "jsval option"
  ri_serviceTier :: "string option"

record usage_recorder =
  rc_source :: string
  rc_operation :: string
  rc_model :: "string option"
  rc_projectKey :: "string option"
  rc_requestId :: "string option"
  rc_startedAt :: jsnum
  rc_recorded :: bool

definition createRuntimeUsageRecorder ::
  "string \<Rightarrow> string \<Rightarrow> string option \<Rightarrow> string option \<Rightarrow> string option \<Rightarrow> jsnum option \<Rightarrow> jsnum \<Rightarrow> usage_recorder" where
  "createRuntimeUsageRecorder source operation model projectKey requestId startedAt now =
     \<lparr>rc_source = source, rc_operation = operation, rc_model = model, rc_projectKey = projectKey, rc_requestId = requestId,
      rc_startedAt = nullish startedAt now, rc_recorded = False\<rparr>"

text \<open>The row handed to the ledger, if any; a failing append is ignored.\<close>

definition record_usage :: "record_input \<Rightarrow> jsnum \<Rightarrow> usage_recorder \<Rightarrow> usage_input option \<times> usage_recorder" where
  "record_usage r now rc =
     (if rc_recorded rc then (None, rc)
      else (Some \<lparr>ui_id = None, ui_createdAt = None, ui_source = Some (rc_source rc), ui_operation = Some (rc_operation rc),
              ui_outcome = ri_outcome r, ui_model = rc_model rc, ui_projectKey = rc_projectKey rc,
              ui_accountId = Option.bind (ri_account r) pa_accountId, ui_email = Option.bind (ri_account r) pa_email,
              ui_accountIndex = map_option (\<lambda>a. Finite (of_nat (pa_index a))) (ri_account r), ui_requestId = rc_requestId rc,
              ui_statusCode = ri_statusCode r, ui_errorCode = ri_errorCode r,
              ui_durationMs = Some (nullish (ri_durationMs r) (Finite (now - rc_startedAt rc))),
              ui_inputTokens = ri_inputTokens r, ui_outputTokens = ri_outputTokens r,
              ui_cachedInputTokens = ri_cachedInputTokens r, ui_reasoningTokens = ri_reasoningTokens r,
              ui_totalTokens = ri_totalTokens r, ui_serviceTier = ri_serviceTier r, ui_costUsd = None\<rparr>,
            rc\<lparr>rc_recorded := True\<rparr>))"

fun record_all :: "(record_input \<times> jsnum) list \<Rightarrow> usage_recorder \<Rightarrow> usage_input list" where
  "record_all [] rc = []"
| "record_all ((r, now) # rs) rc =
     (case record_usage r now rc of (row, rc) \<Rightarrow> (case row of None \<Rightarrow> record_all rs rc | Some x \<Rightarrow> x # record_all rs rc))"

lemma recorded_silent: "rc_recorded rc \<Longrightarrow> record_all rs rc = []"
  by (induction rs) (auto simp: record_usage_def)

text \<open>A request writes one row, that of the first call, however often it is recorded.\<close>

lemma recorder_once:
  "\<not> rc_recorded rc \<Longrightarrow> record_all ((r, now) # rs) rc = [the (fst (record_usage r now rc))]"
  by (simp add: recorded_silent record_usage_def)

section \<open>What the loops compute\<close>

lemma default_group: "uq_by (budget_query w now) \<noteq> Some ByDay"
  by (simp add: budget_query_def)

lemma budget_summary: "\<exists>s. summarizeUsageRows dp collate rows (budget_query w now) = Inr s"
proof -
  have "list_all (\<lambda>r. \<exists>k. getBucketKey r (nullish (uq_by (budget_query w now)) ByModel) = Inr k) (filterRows dp rows (budget_query w now))"
    by (simp add: budget_query_def key_defined list_all_iff)
  from summary_form [OF this] show ?thesis by blast
qed

text \<open>Keeping the summary of a window changes nothing.\<close>

lemma evaluate_limits_ok:
  assumes "\<And>w s. jm_get summaries w = Some s \<Longrightarrow> summarizeUsageRows dp collate rows (budget_query w now) = Inr s"
  shows "\<exists>es. evaluate_limits dp collate rows now limits summaries = Inr es
    \<and> list_all2 (\<lambda>l e. \<exists>s. summarizeUsageRows dp collate rows (budget_query (bl_window l) now) = Inr s \<and> e = evaluateBudgetGuard l s) limits es"
  using assms
proof (induction limits arbitrary: summaries)
  case (Cons l limits)
  obtain s where s: "summarizeUsageRows dp collate rows (budget_query (bl_window l) now) = Inr s" using budget_summary by blast
  have m: "(case jm_get summaries (bl_window l) of
      Some s \<Rightarrow> Inr s | None \<Rightarrow> summarizeUsageRows dp collate rows (budget_query (bl_window l) now)) = Inr s"
    using Cons.prems [of "bl_window l"] s by (auto split: option.split)
  have "\<exists>es. evaluate_limits dp collate rows now limits (jm_set (bl_window l) s summaries) = Inr es
    \<and> list_all2 (\<lambda>l e. \<exists>s. summarizeUsageRows dp collate rows (budget_query (bl_window l) now) = Inr s \<and> e = evaluateBudgetGuard l s) limits es"
    by (rule Cons.IH) (use Cons.prems s in \<open>auto simp: jm_get_set split: if_splits\<close>)
  then show ?case using s by (auto simp: m)
qed simp

definition budget_rows :: "(string \<Rightarrow> jsval) \<Rightarrow> usage_row list \<Rightarrow> jsnum \<Rightarrow> budget_limit \<Rightarrow> usage_row list" where
  "budget_rows dp rows now l = filterRows dp rows (budget_query (bl_window l) now)"

lemma evaluateBudgets_ok:
  assumes "list_all cost_ok rows"
  shows "\<exists>es. evaluateBudgets dp collate rows state now = Inr es
    \<and> list_all2 (\<lambda>l e. be_allowed e \<longleftrightarrow> within_limit l (budget_rows dp rows now l)) (matching_limits state) es"
proof -
  obtain es where es: "evaluate_limits dp collate rows now (matching_limits state) [] = Inr es"
    "list_all2 (\<lambda>l e. \<exists>s. summarizeUsageRows dp collate rows (budget_query (bl_window l) now) = Inr s \<and> e = evaluateBudgetGuard l s)
       (matching_limits state) es"
    using evaluate_limits_ok [of "[]" dp collate rows now "matching_limits state"] by auto
  have "list_all cost_ok (filterRows dp rows q)" for q using assms by (simp add: filterRows_def list_all_iff)
  then have "list_all2 (\<lambda>l e. be_allowed e \<longleftrightarrow> within_limit l (budget_rows dp rows now l)) (matching_limits state) es"
    using es(2) by (elim list_all2_mono) (auto simp: budget_rows_def budget_verdict default_group)
  then show ?thesis using es(1) by (cases "matching_limits state") (auto simp: evaluateBudgets_def Let_def)
qed

lemma all_allowed:
  "list_all2 (\<lambda>l e. be_allowed e \<longleftrightarrow> P l) ls es \<Longrightarrow> list_ex (\<lambda>e. \<not> be_allowed e) es \<longleftrightarrow> \<not> list_all P ls"
  by (induction ls es rule: list_all2_induct) auto

text \<open>What is marked of an account.\<close>

definition taken_out :: "(string \<Rightarrow> string) \<Rightarrow> policy_state \<Rightarrow> capability_store option \<Rightarrow> string option \<Rightarrow> policy_account \<Rightarrow> bool" where
  "taken_out sha256 state capabilities model a \<longleftrightarrow>
     (\<exists>p. policy_of sha256 state a = Some p \<and> (ap_paused p \<or> ap_drained p)) \<or> model_unsupported capabilities model a"

definition backup_only :: "(string \<Rightarrow> string) \<Rightarrow> policy_state \<Rightarrow> policy_account \<Rightarrow> bool" where
  "backup_only sha256 state a \<longleftrightarrow> (\<exists>p. policy_of sha256 state a = Some p \<and> ap_emergencyOnly p)"

definition policy_tier :: "(string \<Rightarrow> string) \<Rightarrow> policy_state \<Rightarrow> policy_account \<Rightarrow> jsnum" where
  "policy_tier sha256 state a = (case policy_of sha256 state a of None \<Rightarrow> 1 | Some p \<Rightarrow> ap_priority p)"

lemma mark_fields:
  "am_blocked (mark_account sha256 state capabilities model a m) =
     (if taken_out sha256 state capabilities model a then insert (pa_index a) (am_blocked m) else am_blocked m)"
  "am_emergency (mark_account sha256 state capabilities model a m) =
     (if backup_only sha256 state a then insert (pa_index a) (am_emergency m) else am_emergency m)"
  "am_priorities (mark_account sha256 state capabilities model a m) = jm_set (pa_index a) (policy_tier sha256 state a) (am_priorities m)"
  by (auto simp: mark_account_def taken_out_def backup_only_def policy_tier_def policy_of_def Let_def split: option.split)

lemma marks_fold:
  "am_blocked (fold (mark_account sha256 state capabilities model) as m) =
     am_blocked m \<union> pa_index ` {a \<in> set as. taken_out sha256 state capabilities model a}"
  "am_emergency (fold (mark_account sha256 state capabilities model) as m) =
     am_emergency m \<union> pa_index ` {a \<in> set as. backup_only sha256 state a}"
  by (induction as arbitrary: m) (auto simp: mark_fields)

lemma marks_priority:
  assumes "distinct (map pa_index as)" and "a \<in> set as"
  shows "jm_get (am_priorities (fold (mark_account sha256 state capabilities model) as m)) (pa_index a) = Some (policy_tier sha256 state a)"
proof -
  have keep: "jm_get (am_priorities (fold (mark_account sha256 state capabilities model) bs m)) i = jm_get (am_priorities m) i"
    if "i \<notin> pa_index ` set bs" for bs m i
    using that by (induction bs arbitrary: m) (auto simp: mark_fields jm_get_set)
  from assms show ?thesis
  proof (induction as arbitrary: m)
    case (Cons b as)
    show ?case
    proof (cases "a = b")
      case True
      then show ?thesis using Cons.prems(1) keep [of "pa_index a" as] by (auto simp: mark_fields jm_get_set)
    next
      case False
      then show ?thesis using Cons by simp
    qed
  qed simp
qed

lemma decision_form:
  assumes "evaluateRuntimePolicy dp collate sha256 rows state as model capabilities now operation = Inr d"
  shows "pd_blockedAccountIndexes d = pa_index ` {a \<in> set as. taken_out sha256 state capabilities model a}"
    and "pd_emergencyAccountIndexes d = pa_index ` {a \<in> set as. backup_only sha256 state a}"
    and "distinct (map pa_index as) \<Longrightarrow> a \<in> set as \<Longrightarrow>
      jm_get (pd_priorityByAccount d) (pa_index a) = Some (policy_tier sha256 state a)"
  using assms by (auto simp: evaluateRuntimePolicy_def Let_def marks_fold marks_priority no_marks_def split: sum.splits)

lemma decision_verdict:
  assumes "evaluateBudgets dp collate rows state now = Inr es"
  shows "\<exists>d. evaluateRuntimePolicy dp collate sha256 rows state as model capabilities now operation = Inr d
    \<and> (pd_allowed d \<longleftrightarrow> model_reasons (pc_profile (ps_project state)) model = [] \<and> \<not> list_ex (\<lambda>e. \<not> be_allowed e) es
         \<and> unpriced_reasons (ps_budgets state) operation = [])
    \<and> pd_statusCode d = (if list_ex (\<lambda>e. \<not> be_allowed e) es then 429 else 403)
    \<and> (pd_errorCode d = None \<longleftrightarrow> pd_allowed d)"
proof -
  have "filter (\<lambda>e. \<not> be_allowed e) es = [] \<longleftrightarrow> \<not> list_ex (\<lambda>e. \<not> be_allowed e) es"
    by (simp add: filter_empty_conv list_ex_iff)
  note f = this
  have e: "(if A then None else if B then Some x else Some y) = None \<longleftrightarrow> A" for A B and x y :: string by simp
  show ?thesis
    unfolding evaluateRuntimePolicy_def assms sum.case Let_def
  proof (intro exI conjI, rule refl, goal_cases)
    case 1
    show ?case unfolding policy_decision.select_convs append_is_Nil_conv map_is_Nil_conv f by blast
  next
    case 2
    show ?case unfolding policy_decision.select_convs ..
  next
    case 3
    show ?case unfolding policy_decision.select_convs e ..
  qed
qed

text \<open>The accounts of the pool as the policy sees them.\<close>

definition pool_account :: "managed_account \<Rightarrow> policy_account" where
  "pool_account a = \<lparr>pa_index = ma_index a, pa_accountId = accountId a, pa_email = ma_email a, pa_refreshToken = Some (refreshToken a)\<rparr>"

lemma pool_account_at:
  assumes "good env p" and "i < length (accounts p)"
  shows "pool_account (acc p i) \<in> set (map pool_account (accounts p)) \<and> pa_index (pool_account (acc p i)) = i"
proof -
  have "ma_index (accounts p ! i) = i" using good_indexes [OF assms(1)] assms(2) by (metis nth_map nth_upt add_0)
  moreover have "pool_account (accounts p ! i) \<in> pool_account ` set (accounts p)" using assms(2) by (intro imageI nth_mem)
  ultimately show ?thesis by (simp add: acc_def) (simp add: pool_account_def)
qed

lemma pool_accounts_distinct: "good env p \<Longrightarrow> distinct (map pa_index (map pool_account (accounts p)))"
proof -
  assume "good env p"
  moreover have "map pa_index (map pool_account (accounts p)) = map ma_index (accounts p)" by (simp add: pool_account_def)
  ultimately show ?thesis using good_indexes [of env p] by simp
qed

text \<open>What a choice returns is not blocked, and without a pin it has not been tried.\<close>

lemma chosen_free:
  assumes "good env (ch_pool st)" and "0 \<le> now" and "fst (chooseAccount env now pid prm st) = Some i"
  shows "i < length (accounts (ch_pool st)) \<and> i \<notin> blocked_by prm
    \<and> (cp_pinnedIndex prm = None \<longrightarrow> i \<notin> cp_attemptedIndexes prm)"
proof (cases "cp_pinnedIndex prm")
  case None
  have sub: "set (tier_candidates env now prm (ch_pool st)) \<subseteq> {i. eligible env now prm (ch_pool st) i}"
    using quota_candidates_subset by (fastforce simp: tier_candidates_def)
  have "eligible env now prm (ch_pool st) i"
  proof (cases "\<exists>i. soft_pinned env now prm (ch_pool st) i")
    case True
    then show ?thesis using chooseAccount_unpinned [OF assms(1,2) None, of pid] assms(3) by (auto simp: soft_pinned_def)
  next
    case False
    then have "i \<in> choice_set env now prm (ch_pool st)"
      using chooseAccount_unpinned [OF assms(1,2) None, of pid] assms(3) by (auto simp: main_choice_def)
    then show ?thesis using sub by (auto simp: choice_set_def split: option.splits)
  qed
  then show ?thesis using eligible_iff [OF assms(1)] by auto
next
  case (Some pin)
  then have "pin_usable env now prm (ch_pool st) pin" "i = nat pin"
    using chooseAccount_pinned [OF assms(1,2) Some, of pid] assms(3) by (auto split: if_splits)
  then show ?thesis using Some by (auto simp: pin_usable_def)
qed

section \<open>Properties\<close>


definition sample_limit :: budget_limit where
  "sample_limit = \<lparr>bl_key = ''global'', bl_window = WinDay, bl_maxRequests = Some 10, bl_maxTokens = None, bl_maxCostUsd = Some 1,
     bl_updatedAt = 0\<rparr>"

definition sample_state :: policy_state where
  "sample_state = \<lparr>ps_accountPolicies = [], ps_budgets = [(''global'', sample_limit)],
     ps_project = \<lparr>pc_startDir = [], pc_projectRoot = None, pc_identityRoot = None, pc_projectKey = None, pc_profile = None\<rparr>\<rparr>"


text \<open>
  C2. A policy decision is respected by the choice of an account: whether pinned or not, the account chosen is not paused, not
  drained and not known to lack the model, and without a pin it is no emergency backup unless backups are allowed.
\<close>

theorem policy_respected:
  assumes "good env (ch_pool st)" and "0 \<le> now" and "fst (chooseAccount env now pid prm st) = Some i"
    and "evaluateRuntimePolicy dp collate sha256 rows state (map pool_account (accounts (ch_pool st))) model capabilities t operation = Inr d"
    and "cp_policy prm = Some (choice_policy d)"
    and "cp_attemptedIndexes prm = attempted_for_selection (Some d) (cp_pinnedIndex prm \<noteq> None) backupsAllowed tried"
  shows "i < length (accounts (ch_pool st))
    \<and> (\<forall>p. policy_of sha256 state (pool_account (acc (ch_pool st) i)) = Some p \<longrightarrow> \<not> ap_paused p \<and> \<not> ap_drained p
          \<and> (cp_pinnedIndex prm = None \<and> \<not> backupsAllowed \<longrightarrow> \<not> ap_emergencyOnly p))
    \<and> \<not> model_unsupported capabilities model (pool_account (acc (ch_pool st) i))"
proof -
  note c = chosen_free [OF assms(1-3)] and f = decision_form(1,2) [OF assms(4)]
  have at: "pool_account (acc (ch_pool st) i) \<in> set (map pool_account (accounts (ch_pool st)))"
    "pa_index (pool_account (acc (ch_pool st) i)) = i" using pool_account_at [OF assms(1)] c by blast+
  have "blocked_by prm = pd_blockedAccountIndexes d" using assms(5) by (simp add: blocked_by_def choice_policy_def)
  then have out: "\<not> taken_out sha256 state capabilities model (pool_account (acc (ch_pool st) i))" using c at f(1) by force
  have "\<not> backup_only sha256 state (pool_account (acc (ch_pool st) i))" if "cp_pinnedIndex prm = None" "\<not> backupsAllowed"
  proof
    assume "backup_only sha256 state (pool_account (acc (ch_pool st) i))"
    then have "i \<in> pd_emergencyAccountIndexes d" using at f(2) by force
    then have "i \<in> cp_attemptedIndexes prm" using that assms(6) by (auto simp: attempted_for_selection_def)
    with that(1) c show False by blast
  qed
  then show ?thesis using c out by (auto simp: taken_out_def backup_only_def)
qed

definition paused_state :: policy_state where
  "paused_state = sample_state\<lparr>ps_budgets := [], ps_accountPolicies :=
     [(getAccountPolicyKey id None None (Some ''r1''), (sample_policy [] True 0))]\<rparr>"

text \<open>The demo pool with account 1 paused: account 0 can serve, and account 1 is not chosen.\<close>

lemma policy_of_demo:
  "policy_of id paused_state (pool_account (demo_account 1 ''r1'')) = Some (sample_policy [] True 0)"
  "policy_of id paused_state (pool_account (demo_account 0 ''r0'')) = None"
proof -
  have "js_trim ''r0'' = ''r0''" "js_trim ''r1'' = ''r1''" by code_simp+
  then show "policy_of id paused_state (pool_account (demo_account 1 ''r1'')) = Some (sample_policy [] True 0)"
    "policy_of id paused_state (pool_account (demo_account 0 ''r0'')) = None"
    by (simp_all add: policy_of_def paused_state_def pool_account_def demo_account_def getAccountPolicyKey_def policy_identity_def falls_to_def)
qed

lemma paused_decision:
  "\<exists>d. evaluateRuntimePolicy (\<lambda>_. NonFinite) (\<lambda>_ _. 0) id [] paused_state (map pool_account (accounts (ch_pool demo_chooser))) None None 7 None = Inr d"
proof -
  have "matching_limits paused_state = []"
    by (simp add: matching_limits_def paused_state_def sample_state_def budget_keys_def truthy_def set_add_def List.map_filter_def)
  then show ?thesis by (simp add: evaluateRuntimePolicy_def evaluateBudgets_def Let_def)
qed

lemma policy_respected_witness:
  "\<exists>d i. evaluateRuntimePolicy (\<lambda>_. NonFinite) (\<lambda>_ _. 0) id [] paused_state (map pool_account (accounts (ch_pool demo_chooser))) None None 7 None = Inr d
     \<and> fst (chooseAccount demo_env 1000 7 (demo_params\<lparr>cp_policy := Some (choice_policy d),
           cp_attemptedIndexes := attempted_for_selection (Some d) False False {2}\<rparr>) demo_chooser) = Some i \<and> i \<noteq> 1"
proof -
  obtain d where d: "evaluateRuntimePolicy (\<lambda>_. NonFinite) (\<lambda>_ _. 0) id [] paused_state
      (map pool_account (accounts (ch_pool demo_chooser))) None None 7 None = Inr d" using paused_decision by blast
  define prm where "prm = demo_params\<lparr>cp_policy := Some (choice_policy d), cp_attemptedIndexes := attempted_for_selection (Some d) False False {2}\<rparr>"
  have as: "accounts (ch_pool demo_chooser) = [demo_account 0 ''r0'', demo_account 1 ''r1'', demo_account 2 ''r2'']"
    by (simp add: demo_chooser_def demo_pool_def)
  have flds: "cp_pinnedIndex prm = None" "cp_policy prm = Some (choice_policy d)" "cp_fallbackPinnedIndex prm = None"
    "cp_quotaByAccount prm = None" "cp_attemptedIndexes prm = attempted_for_selection (Some d) (cp_pinnedIndex prm \<noteq> None) False {2}"
    by (simp_all add: prm_def demo_params_def)
  have a0: "a = demo_account 0 ''r0''" if "a \<in> set (accounts (ch_pool demo_chooser))" "pa_index (pool_account a) = 0" for a
    using that by (auto simp: as pool_account_def) (simp_all add: demo_account_def)
  have "0 \<notin> pd_blockedAccountIndexes d \<and> 0 \<notin> pd_emergencyAccountIndexes d"
    unfolding decision_form(1,2) [OF d] using a0 policy_of_demo(2)
    by (fastforce simp: taken_out_def backup_only_def model_unsupported_def)
  moreover have "routable demo_env 1000 (cp_family prm) (cp_model prm) {} (ch_pool demo_chooser) 0"
    using demo_routable by (simp add: demo_chooser_def)
  ultimately have "eligible demo_env 1000 prm (ch_pool demo_chooser) 0"
    unfolding eligible_iff [OF demo_good]
    by (simp add: as blocked_by_def flds attempted_for_selection_def choice_policy_def)
  then have "choice_set demo_env 1000 prm (ch_pool demo_chooser) \<noteq> {}"
    by (auto simp: choice_set_def tier_candidates_def quota_candidates_def flds as split: option.split)
  moreover have "\<not> (\<exists>i. soft_pinned demo_env 1000 prm (ch_pool demo_chooser) i)" by (simp add: soft_pinned_def flds)
  moreover obtain r st' where r: "chooseAccount demo_env 1000 7 prm demo_chooser = (r, st')"
    "if \<exists>i. soft_pinned demo_env 1000 prm (ch_pool demo_chooser) i then \<exists>i. r = Some i \<and> soft_pinned demo_env 1000 prm (ch_pool demo_chooser) i
     else main_choice demo_env 1000 prm (ch_pool demo_chooser) r"
    using chooseAccount_unpinned [OF demo_good _ flds(1), of 1000 7] by auto
  ultimately obtain i where i: "fst (chooseAccount demo_env 1000 7 prm demo_chooser) = Some i"
    by (cases r) (auto simp: main_choice_def)
  have "\<not> ap_paused p" if "policy_of id paused_state (pool_account (acc (ch_pool demo_chooser) i)) = Some p" for p
    using policy_respected [OF demo_good _ i d flds(2,5)] that by simp
  then have "i \<noteq> 1" using policy_of_demo(1) by (auto simp: acc_def as sample_policy_def)
  with d i show ?thesis unfolding prm_def by blast
qed

end
