(* ===== verification/RoutingMutex.thy ===== *)
theory RoutingMutex
  imports Main
begin

text \<open>
  The mutex around the moves of the rotation pointers (\<open>lib/routing-mutex.ts\<close>): \<open>runExclusive\<close>
  chains each call onto the promise of the call before it, and \<open>withRoutingMutex\<close> runs a call made
  inside a held section inline.  The event loop is a step relation: each step is one turn, from one
  \<open>await\<close> to the next, of one call.  Promises are numbered; promise 0 is the resolved one the chain
  begins with.  A critical section is a list of turns on a shared state, some of which are nested
  sections.
\<close>

section \<open>Calls and the state of the mutex\<close>

datatype 's turn = Act "'s \<Rightarrow> 's" | Nested "'s turn list"

datatype mutex_mode = MutexEnabled | MutexLegacy

datatype mutex_route = RunInline | Acquire

definition withRoutingMutex :: "mutex_mode \<Rightarrow> bool \<Rightarrow> mutex_route" where
  "withRoutingMutex mode isRoutingMutexHeld =
     (if mode = MutexEnabled then (if isRoutingMutexHeld then RunInline else Acquire) else RunInline)"

text \<open>
  A call waits for its predecessor's promise, is active inside its section (the flag is the context
  \<open>routingMutexHeldContext\<close>), awaits a call it made itself, or has settled.
\<close>

datatype 's call_status =
    Waiting "'s turn list"
  | Active bool "'s turn list"
  | Awaiting nat bool "'s turn list"
  | Settled

record 's mutex_call =
  mc_previous :: nat
  mc_next :: nat
  mc_status :: "'s call_status"

record 's mutex =
  mx_tail :: nat
  mx_running :: nat
  mx_queued :: nat
  mx_resolved :: "nat set"
  mx_calls :: "'s mutex_call list"
  mx_shared :: 's

definition createAsyncMutex :: "'s \<Rightarrow> 's mutex" where
  "createAsyncMutex s = \<lparr>mx_tail = 0, mx_running = 0, mx_queued = 0, mx_resolved = {0}, mx_calls = [], mx_shared = s\<rparr>"

definition isLocked :: "'s mutex \<Rightarrow> bool" where
  "isLocked m \<longleftrightarrow> 0 < mx_running m"

definition queueLength :: "'s mutex \<Rightarrow> nat" where
  "queueLength m = mx_queued m"

abbreviation status_of :: "'s mutex \<Rightarrow> nat \<Rightarrow> 's call_status" where
  "status_of m i \<equiv> mc_status (mx_calls m ! i)"

definition set_status :: "nat \<Rightarrow> 's call_status \<Rightarrow> 's mutex \<Rightarrow> 's mutex" where
  "set_status i st m = m\<lparr>mx_calls := (mx_calls m)[i := (mx_calls m ! i)\<lparr>mc_status := st\<rparr>]\<rparr>"

text \<open>\<open>runExclusive\<close> up to its first \<open>await\<close>; the new promise is the next number.\<close>

definition enqueue :: "'s turn list \<Rightarrow> 's mutex \<Rightarrow> 's mutex" where
  "enqueue body m =
     (let fresh = Suc (length (mx_calls m))
      in m\<lparr>mx_queued := mx_queued m + 1, mx_tail := fresh,
           mx_calls := mx_calls m @ [\<lparr>mc_previous = mx_tail m, mc_next = fresh, mc_status = Waiting body\<rparr>]\<rparr>)"

text \<open>From the predecessor's promise to the call of \<open>fn\<close>, which runs with the context set.\<close>

definition enter :: "nat \<Rightarrow> 's turn list \<Rightarrow> 's mutex \<Rightarrow> 's mutex" where
  "enter i body m = (set_status i (Active True body) m)\<lparr>mx_queued := mx_queued m - 1, mx_running := mx_running m + 1\<rparr>"

text \<open>The \<open>finally\<close> block, after a return or a throw.\<close>

definition leave :: "nat \<Rightarrow> 's mutex \<Rightarrow> 's mutex" where
  "leave i m = (set_status i Settled m)\<lparr>mx_running := mx_running m - 1,
     mx_resolved := insert (mc_next (mx_calls m ! i)) (mx_resolved m)\<rparr>"

definition nested_call :: "nat \<Rightarrow> bool \<Rightarrow> 's turn list \<Rightarrow> 's turn list \<Rightarrow> 's mutex \<Rightarrow> 's mutex" where
  "nested_call i held body rest m =
     (case withRoutingMutex MutexEnabled held of
        RunInline \<Rightarrow> set_status i (Active held (body @ rest)) m
      | Acquire \<Rightarrow> enqueue body (set_status i (Awaiting (length (mx_calls m)) held rest) m))"

section \<open>Turns\<close>

datatype 's event = EvCall "'s turn list" | EvEnter nat | EvAct nat | EvNested nat | EvResume nat | EvThrow nat | EvReturn nat

inductive mutex_step :: "'s mutex \<Rightarrow> 's event \<Rightarrow> 's mutex \<Rightarrow> bool" where
  Call: "withRoutingMutex MutexEnabled False = Acquire \<Longrightarrow> mutex_step m (EvCall body) (enqueue body m)"
| Enter: "i < length (mx_calls m) \<Longrightarrow> status_of m i = Waiting body \<Longrightarrow> mc_previous (mx_calls m ! i) \<in> mx_resolved m
    \<Longrightarrow> mutex_step m (EvEnter i) (enter i body m)"
| Act: "i < length (mx_calls m) \<Longrightarrow> status_of m i = Active held (Act f # rest)
    \<Longrightarrow> mutex_step m (EvAct i) ((set_status i (Active held rest) m)\<lparr>mx_shared := f (mx_shared m)\<rparr>)"
| Nested: "i < length (mx_calls m) \<Longrightarrow> status_of m i = Active held (Nested body # rest)
    \<Longrightarrow> mutex_step m (EvNested i) (nested_call i held body rest m)"
| Resume: "i < length (mx_calls m) \<Longrightarrow> status_of m i = Awaiting c held rest \<Longrightarrow> c < length (mx_calls m) \<Longrightarrow> status_of m c = Settled
    \<Longrightarrow> mutex_step m (EvResume i) (set_status i (Active held rest) m)"
| Throw: "i < length (mx_calls m) \<Longrightarrow> status_of m i = Active held rest \<Longrightarrow> mutex_step m (EvThrow i) (leave i m)"
| Return: "i < length (mx_calls m) \<Longrightarrow> status_of m i = Active held [] \<Longrightarrow> mutex_step m (EvReturn i) (leave i m)"

inductive_cases mutex_stepE [elim]: "mutex_step m e m'"

inductive mutex_run :: "'s mutex \<Rightarrow> 's event list \<Rightarrow> 's mutex \<Rightarrow> bool" where
  Start: "mutex_run m [] m"
| Turn: "mutex_run m es m' \<Longrightarrow> mutex_step m' e m'' \<Longrightarrow> mutex_run m (es @ [e]) m''"

text \<open>The steps as a function, to run a sequence of events.\<close>

definition try_step :: "'s event \<Rightarrow> 's mutex \<Rightarrow> 's mutex option" where
  "try_step e m =
     (case e of
        EvCall body \<Rightarrow> Some (enqueue body m)
      | EvEnter i \<Rightarrow> if i < length (mx_calls m) \<and> mc_previous (mx_calls m ! i) \<in> mx_resolved m
          then (case status_of m i of Waiting body \<Rightarrow> Some (enter i body m) | _ \<Rightarrow> None) else None
      | EvAct i \<Rightarrow> if i < length (mx_calls m)
          then (case status_of m i of
                  Active held (Act f # rest) \<Rightarrow> Some ((set_status i (Active held rest) m)\<lparr>mx_shared := f (mx_shared m)\<rparr>) | _ \<Rightarrow> None) else None
      | EvNested i \<Rightarrow> if i < length (mx_calls m)
          then (case status_of m i of Active held (Nested body # rest) \<Rightarrow> Some (nested_call i held body rest m) | _ \<Rightarrow> None) else None
      | EvResume i \<Rightarrow> if i < length (mx_calls m)
          then (case status_of m i of Awaiting c held rest \<Rightarrow>
                  if c < length (mx_calls m) then (case status_of m c of Settled \<Rightarrow> Some (set_status i (Active held rest) m) | _ \<Rightarrow> None)
                  else None | _ \<Rightarrow> None) else None
      | EvThrow i \<Rightarrow> if i < length (mx_calls m) then (case status_of m i of Active _ _ \<Rightarrow> Some (leave i m) | _ \<Rightarrow> None) else None
      | EvReturn i \<Rightarrow> if i < length (mx_calls m) then (case status_of m i of Active _ [] \<Rightarrow> Some (leave i m) | _ \<Rightarrow> None) else None)"

fun try_run :: "'s event list \<Rightarrow> 's mutex \<Rightarrow> 's mutex option" where
  "try_run [] m = Some m"
| "try_run (e # es) m = (case try_step e m of None \<Rightarrow> None | Some m \<Rightarrow> try_run es m)"

lemma acquires: "withRoutingMutex MutexEnabled False = Acquire"
  by (simp add: withRoutingMutex_def)

lemma try_step_sound: "try_step e m = Some m' \<Longrightarrow> mutex_step m e m'"
  using acquires
  by (cases e) (auto simp: try_step_def intro: mutex_step.intros
      split: if_splits call_status.splits list.splits turn.splits)

lemma try_run_sound: "mutex_run m0 es m \<Longrightarrow> try_run fs m = Some m' \<Longrightarrow> mutex_run m0 (es @ fs) m'"
proof (induction fs arbitrary: es m)
  case (Cons e fs)
  then obtain m1 where m1: "try_step e m = Some m1" "try_run fs m1 = Some m'" by (auto split: option.splits)
  from mutex_run.Turn [OF Cons.prems(1) try_step_sound [OF m1(1)]] have "mutex_run m0 (es @ [e]) m1" .
  from Cons.IH [OF this m1(2)] show ?case by simp
qed simp

lemmas run_by_trying = try_run_sound [OF mutex_run.Start, simplified]

section \<open>Invariant\<close>

text \<open>Before position \<open>n\<close> all calls have settled, after it all wait; the call at \<open>n\<close> is next or active.\<close>

definition active :: "'s call_status \<Rightarrow> bool" where
  "active st \<longleftrightarrow> (\<exists>rest. st = Active True rest)"

definition waits :: "'s call_status \<Rightarrow> bool" where
  "waits st \<longleftrightarrow> (\<exists>body. st = Waiting body)"

lemma status_simps [simp]:
  "active (Active held rest) = held" "\<not> active (Waiting b)" "\<not> active Settled" "\<not> active (Awaiting c held rest)"
  "waits (Waiting b)" "\<not> waits (Active held rest)" "\<not> waits Settled" "\<not> waits (Awaiting c held rest)"
  by (auto simp: active_def waits_def)

lemma waits_not_active: "waits st \<Longrightarrow> \<not> active st"
  by (auto simp: active_def waits_def)

definition chain :: "nat \<Rightarrow> 's mutex \<Rightarrow> bool" where
  "chain n m \<longleftrightarrow> n \<le> length (mx_calls m) \<and> mx_tail m = length (mx_calls m) \<and> mx_resolved m = {..n}
     \<and> (\<forall>i < length (mx_calls m). mc_previous (mx_calls m ! i) = i \<and> mc_next (mx_calls m ! i) = Suc i
          \<and> (i < n \<longrightarrow> status_of m i = Settled) \<and> (n < i \<longrightarrow> waits (status_of m i))
          \<and> (i = n \<longrightarrow> waits (status_of m i) \<or> active (status_of m i)))
     \<and> mx_running m = (if n < length (mx_calls m) \<and> active (status_of m n) then 1 else 0)
     \<and> mx_queued m + mx_running m + n = length (mx_calls m)"

lemma length_set_status [simp]: "length (mx_calls (set_status i st m)) = length (mx_calls m)"
  by (simp add: set_status_def)

lemma set_status_fields [simp]:
  "mx_tail (set_status i st m) = mx_tail m" "mx_running (set_status i st m) = mx_running m"
  "mx_queued (set_status i st m) = mx_queued m" "mx_resolved (set_status i st m) = mx_resolved m"
  "mx_shared (set_status i st m) = mx_shared m"
  by (simp_all add: set_status_def)

lemma nth_set_status:
  "j < length (mx_calls m) \<Longrightarrow>
     mx_calls (set_status i st m) ! j = (if j = i then (mx_calls m ! i)\<lparr>mc_status := st\<rparr> else mx_calls m ! j)"
  by (simp add: set_status_def nth_list_update)

lemma chain_new: "chain 0 (createAsyncMutex s)"
  by (simp add: chain_def createAsyncMutex_def)

lemma chain_enqueue: "chain n m \<Longrightarrow> chain n (enqueue body m)"
  by (auto simp: chain_def enqueue_def Let_def nth_append less_Suc_eq)

lemma chain_enter:
  assumes "chain n m" and "i < length (mx_calls m)" and "status_of m i = Waiting body" and "mc_previous (mx_calls m ! i) \<in> mx_resolved m"
  shows "i = n \<and> chain n (enter i body m)"
proof -
  have "i \<le> n" using assms by (auto simp: chain_def)
  moreover have "\<not> i < n" using assms by (auto simp: chain_def)
  ultimately have "i = n" by simp
  then show ?thesis using assms by (auto simp: chain_def enter_def nth_set_status)
qed

lemma chain_active:
  assumes "chain n m" and "i < length (mx_calls m)" and "\<not> waits (status_of m i)" and "status_of m i \<noteq> Settled"
  shows "i = n" and "active (status_of m n)"
proof -
  show i: "i = n" using assms by (cases i n rule: linorder_cases) (auto simp: chain_def)
  show "active (status_of m n)" using assms i by (auto simp: chain_def)
qed

lemma chain_set:
  assumes "chain n m" and "n < length (mx_calls m)" and "active (status_of m n)"
  shows "chain n (set_status n (Active True rest) m)"
  using assms by (auto simp: chain_def nth_set_status)

lemma chain_leave:
  assumes "chain n m" and "n < length (mx_calls m)" and "active (status_of m n)"
  shows "chain (Suc n) (leave n m)"
proof -
  have "\<not> active (status_of m (Suc n))" if "Suc n < length (mx_calls m)"
    using assms that waits_not_active [of "status_of m (Suc n)"] by (simp add: chain_def)
  then show ?thesis using assms by (auto simp: chain_def leave_def nth_set_status atMost_Suc less_Suc_eq)
qed

lemma nested_inline: "nested_call i True body rest m = set_status i (Active True (body @ rest)) m"
  by (simp add: nested_call_def withRoutingMutex_def)

lemma chain_shared: "chain n (m\<lparr>mx_shared := s\<rparr>) = chain n m"
  by (simp add: chain_def)

text \<open>Every step of a chained state is at the position of the chain.\<close>

definition ends :: "'s event \<Rightarrow> bool" where
  "ends e \<longleftrightarrow> (case e of EvThrow _ \<Rightarrow> True | EvReturn _ \<Rightarrow> True | _ \<Rightarrow> False)"

lemma no_resume: "chain n m \<Longrightarrow> i < length (mx_calls m) \<Longrightarrow> status_of m i \<noteq> Awaiting c held rest"
  using chain_active [of n m i] by (auto simp: active_def)

lemma held_turn:
  assumes "chain n m" and "i < length (mx_calls m)" and "status_of m i = Active held rest"
  shows "i = n \<and> held = True \<and> n < length (mx_calls m) \<and> active (status_of m n)"
  using chain_active [OF assms(1,2)] assms by auto

lemma chain_step:
  assumes "mutex_step m e m'" and "chain n m"
  shows "chain (if ends e then Suc n else n) m'"
  using assms
proof cases
  case (Nested i held body rest)
  then show ?thesis using held_turn [OF assms(2) Nested(3,4)] chain_set [OF assms(2)] by (simp add: nested_inline ends_def)
next
  case (Act i held f rest)
  then show ?thesis using held_turn [OF assms(2) Act(3,4)] chain_set [OF assms(2)] by (simp add: ends_def chain_shared)
next
  case (Resume i c held rest)
  then show ?thesis using no_resume [OF assms(2)] by blast
next
  case (Throw i held rest)
  then show ?thesis using held_turn [OF assms(2) Throw(3,4)] chain_leave [OF assms(2)] by (simp add: ends_def)
next
  case (Return i held)
  then show ?thesis using held_turn [OF assms(2) Return(3,4)] chain_leave [OF assms(2)] by (simp add: ends_def)
next
  case (Call body)
  then show ?thesis using chain_enqueue [OF assms(2)] by (simp add: ends_def)
next
  case (Enter i body)
  have "chain n m'" unfolding Enter(2) using chain_enter [OF assms(2) Enter(3-5)] by blast
  then show ?thesis by (simp add: Enter(1) ends_def)
qed

lemma chain_run: "mutex_run m es m' \<Longrightarrow> chain n m \<Longrightarrow> \<exists>n'. chain n' m'"
proof (induction rule: mutex_run.induct)
  case (Turn m es m' e m'')
  then obtain n' where "chain n' m'" by blast
  from chain_step [OF Turn.hyps(2) this] show ?case by blast
qed blast

lemma reachable_chain: "mutex_run (createAsyncMutex s) es m \<Longrightarrow> \<exists>n. chain n m"
  by (rule chain_run [OF _ chain_new])

section \<open>Progress and termination\<close>

fun is_call :: "'s event \<Rightarrow> bool" where
  "is_call (EvCall _) = True"
| "is_call _ = False"

definition all_settled :: "'s mutex \<Rightarrow> bool" where
  "all_settled m \<longleftrightarrow> (\<forall>i < length (mx_calls m). status_of m i = Settled)"

lemma chain_progress:
  assumes "chain n m" and "\<not> all_settled m"
  shows "\<exists>e m'. mutex_step m e m' \<and> \<not> is_call e"
proof -
  have n: "n < length (mx_calls m)" using assms by (auto simp: chain_def all_settled_def)
  have previous: "mc_previous (mx_calls m ! n) \<in> mx_resolved m" using assms(1) n by (simp add: chain_def)
  have "waits (status_of m n) \<or> active (status_of m n)" using assms(1) n by (simp add: chain_def)
  then consider (waiting) body where "status_of m n = Waiting body" | (returning) "status_of m n = Active True []"
    | (acting) f rest where "status_of m n = Active True (Act f # rest)"
    | (nesting) body rest where "status_of m n = Active True (Nested body # rest)"
    unfolding waits_def active_def using turn.exhaust list.exhaust by metis
  then show ?thesis
  proof cases
    case waiting
    then show ?thesis using mutex_step.Enter [OF n _ previous] is_call.simps(2) by blast
  next
    case returning
    then show ?thesis using mutex_step.Return [OF n] is_call.simps(7) by blast
  next
    case acting
    then show ?thesis using mutex_step.Act [OF n] is_call.simps(3) by blast
  next
    case nesting
    then show ?thesis using mutex_step.Nested [OF n] is_call.simps(4) by blast
  qed
qed

text \<open>The turns that are left: those of the section, its entry and its end.\<close>

function turns :: "'s turn list \<Rightarrow> nat" where
  "turns [] = 0"
| "turns (Act f # ts) = Suc (turns ts)"
| "turns (Nested body # ts) = Suc (turns body + turns ts)"
  by pat_completeness auto
termination by (relation "measure (size_list size)") auto

lemma turns_append: "turns (as @ bs) = turns as + turns bs"
  by (induction as rule: turns.induct) auto

fun pending_of :: "'s call_status \<Rightarrow> nat" where
  "pending_of (Waiting body) = turns body + 2"
| "pending_of (Active _ rest) = turns rest + 1"
| "pending_of (Awaiting _ _ rest) = turns rest + 2"
| "pending_of Settled = 0"

definition pending :: "'s mutex \<Rightarrow> nat" where
  "pending m = sum_list (map (pending_of \<circ> mc_status) (mx_calls m))"

lemma sum_map_update:
  "i < length xs \<Longrightarrow> sum_list (map f (xs[i := x])) + f (xs ! i) = sum_list (map f xs) + (f x :: nat)"
  by (induction xs arbitrary: i) (auto split: nat.split)

lemma pending_set:
  "i < length (mx_calls m) \<Longrightarrow> pending (set_status i st m) + pending_of (status_of m i) = pending m + pending_of st"
  using sum_map_update [of i "mx_calls m" "pending_of \<circ> mc_status" "(mx_calls m ! i)\<lparr>mc_status := st\<rparr>"]
  by (simp add: pending_def set_status_def)

lemma pending_fields [simp]:
  "pending (m\<lparr>mx_shared := s\<rparr>) = pending m" "pending (m\<lparr>mx_queued := q, mx_running := r\<rparr>) = pending m"
  "pending (m\<lparr>mx_running := r, mx_resolved := x\<rparr>) = pending m"
  by (simp_all add: pending_def)

lemma pending_step:
  assumes "mutex_step m e m'" and "chain n m" and "\<not> is_call e"
  shows "pending m' < pending m"
  using assms(1)
proof cases
  case (Call body)
  then show ?thesis using assms(3) by simp
next
  case (Enter i body)
  then show ?thesis using pending_set [of i m "Active True body"] by (simp add: enter_def)
next
  case (Act i held f rest)
  then show ?thesis using pending_set [of i m "Active held rest"] by simp
next
  case (Nested i held body rest)
  then show ?thesis using held_turn [OF assms(2) Nested(3,4)] pending_set [of i m "Active True (body @ rest)"]
    by (simp add: nested_inline turns_append)
next
  case (Resume i c held rest)
  then show ?thesis using no_resume [OF assms(2)] by blast
next
  case (Throw i held rest)
  then show ?thesis using pending_set [of i m Settled] by (simp add: leave_def)
next
  case (Return i held)
  then show ?thesis using pending_set [of i m Settled] by (simp add: leave_def)
qed

lemma pending_run:
  "mutex_run m es m' \<Longrightarrow> chain n m \<Longrightarrow> \<forall>e \<in> set es. \<not> is_call e \<Longrightarrow> length es + pending m' \<le> pending m"
proof (induction rule: mutex_run.induct)
  case (Turn m es m' e m'')
  then obtain n' where "chain n' m'" using chain_run by blast
  from pending_step [OF Turn.hyps(2) this] Turn show ?case by simp
qed simp

section \<open>Sections run as if one after the other\<close>

function run_turns :: "'s turn list \<Rightarrow> 's \<Rightarrow> 's" where
  "run_turns [] s = s"
| "run_turns (Act f # ts) s = run_turns ts (f s)"
| "run_turns (Nested body # ts) s = run_turns ts (run_turns body s)"
  by pat_completeness auto
termination by (relation "measure (\<lambda>(ts, s). size_list size ts)") auto

lemma run_turns_append: "run_turns (as @ bs) s = run_turns bs (run_turns as s)"
  by (induction as s rule: run_turns.induct) auto

fun called :: "'s event list \<Rightarrow> 's turn list list" where
  "called [] = []"
| "called (EvCall body # es) = body # called es"
| "called (_ # es) = called es"

lemma called_snoc: "called (es @ [e]) = called es @ (case e of EvCall body \<Rightarrow> [body] | _ \<Rightarrow> [])"
  by (induction es rule: called.induct) (auto split: event.split)

definition no_throw :: "'s event list \<Rightarrow> bool" where
  "no_throw es \<longleftrightarrow> (\<forall>i. EvThrow i \<notin> set es)"

text \<open>The shared state is that of the sections before position \<open>n\<close>, and of the turns taken at \<open>n\<close>.\<close>

definition serial :: "'s \<Rightarrow> 's turn list list \<Rightarrow> nat \<Rightarrow> 's mutex \<Rightarrow> bool" where
  "serial s bodies n m \<longleftrightarrow> length bodies = length (mx_calls m)
     \<and> (\<forall>i < length bodies. \<forall>b. status_of m i = Waiting b \<longrightarrow> b = bodies ! i)
     \<and> (if n < length bodies \<and> active (status_of m n)
        then \<forall>rest. status_of m n = Active True rest \<longrightarrow> run_turns rest (mx_shared m) = fold run_turns (take (Suc n) bodies) s
        else mx_shared m = fold run_turns (take n bodies) s)"

lemma serial_active:
  assumes "serial s bodies n m" and "n < length (mx_calls m)" and "status_of m n = Active True rest"
  shows "run_turns rest (mx_shared m) = fold run_turns (take (Suc n) bodies) s" and "length bodies = length (mx_calls m)"
  using assms by (simp_all add: serial_def)

lemma serial_set:
  assumes "serial s bodies n m" and "n < length (mx_calls m)" and "run_turns rest x = fold run_turns (take (Suc n) bodies) s"
  shows "serial s bodies n ((set_status n (Active True rest) m)\<lparr>mx_shared := x\<rparr>)"
  using assms by (auto simp: serial_def nth_set_status)

lemma serial_leave:
  assumes "chain n m" and "serial s bodies n m" and "n < length (mx_calls m)" and "status_of m n = Active True []"
  shows "serial s bodies (Suc n) (leave n m)"
proof -
  have "\<not> active (status_of m (Suc n))" if "Suc n < length (mx_calls m)"
    using assms(1,3) that waits_not_active [of "status_of m (Suc n)"] by (simp add: chain_def)
  moreover have "mx_shared m = fold run_turns (take (Suc n) bodies) s" using serial_active(1) [OF assms(2-4)] by simp
  ultimately show ?thesis using assms(2,3) by (auto simp: serial_def leave_def nth_set_status)
qed

lemma serial_enter:
  assumes "serial s bodies n m" and "n < length (mx_calls m)" and "status_of m n = Waiting body"
  shows "serial s bodies n (enter n body m)"
proof -
  have "body = bodies ! n" "mx_shared m = fold run_turns (take n bodies) s" using assms by (auto simp: serial_def)
  then have "run_turns body (mx_shared m) = fold run_turns (take (Suc n) bodies) s"
    using assms(1,2) by (simp add: serial_def take_Suc_conv_app_nth)
  then show ?thesis using assms by (auto simp: serial_def enter_def nth_set_status)
qed

lemma serial_enqueue:
  assumes "serial s bodies n m" and "n \<le> length (mx_calls m)"
  shows "serial s (bodies @ [body]) n (enqueue body m)"
  using assms by (auto simp: serial_def enqueue_def Let_def nth_append less_Suc_eq)

lemma serial_step:
  assumes "mutex_step m e m'" and "chain n m" and "serial s bodies n m" and "\<forall>i. e \<noteq> EvThrow i"
  shows "serial s (bodies @ (case e of EvCall body \<Rightarrow> [body] | _ \<Rightarrow> [])) (if ends e then Suc n else n) m'"
  using assms(1)
proof cases
  case (Call body)
  then show ?thesis using serial_enqueue [OF assms(3)] assms(2) by (simp add: ends_def chain_def)
next
  case (Enter i body)
  have "i = n" using chain_enter [OF assms(2) Enter(3-5)] by blast
  then show ?thesis using serial_enter [OF assms(3)] Enter by (simp add: ends_def)
next
  case (Act i held f rest)
  have "i = n" "held" using held_turn [OF assms(2) Act(3,4)] by simp_all
  then show ?thesis using Act serial_set [OF assms(3)] serial_active(1) [OF assms(3)] by (simp add: ends_def)
next
  case (Nested i held body rest)
  have i: "i = n" "held" using held_turn [OF assms(2) Nested(3,4)] by simp_all
  have "m' = (set_status n (Active True (body @ rest)) m)\<lparr>mx_shared := mx_shared m\<rparr>"
    using Nested(2) i by (simp add: nested_inline set_status_def)
  moreover have "run_turns (body @ rest) (mx_shared m) = fold run_turns (take (Suc n) bodies) s"
    using Nested i serial_active(1) [OF assms(3)] by (simp add: run_turns_append)
  ultimately show ?thesis using Nested(1,3) i serial_set [OF assms(3)] by (simp add: ends_def)
next
  case (Resume i c held rest)
  then show ?thesis using no_resume [OF assms(2)] by blast
next
  case (Throw i held rest)
  then show ?thesis using assms(4) by blast
next
  case (Return i held)
  have "i = n" "held" using held_turn [OF assms(2) Return(3,4)] by simp_all
  then show ?thesis using Return serial_leave [OF assms(2,3)] by (simp add: ends_def)
qed

lemma serial_run:
  "mutex_run m0 es m \<Longrightarrow> m0 = createAsyncMutex s \<Longrightarrow> no_throw es \<Longrightarrow> \<exists>n. chain n m \<and> serial s (called es) n m"
proof (induction rule: mutex_run.induct)
  case (Start m)
  have "serial s [] 0 (createAsyncMutex s)" by (simp add: serial_def createAsyncMutex_def)
  then show ?case using chain_new Start by force
next
  case (Turn m es m' e m'')
  then obtain n where n: "chain n m'" "serial s (called es) n m'" by (auto simp: no_throw_def)
  have "\<forall>i. e \<noteq> EvThrow i" using Turn.prems(2) by (auto simp: no_throw_def)
  from serial_step [OF Turn.hyps(2) n this] chain_step [OF Turn.hyps(2) n(1)] show ?case
    unfolding called_snoc by blast
qed

section \<open>Properties\<close>

definition inside :: "'s call_status \<Rightarrow> bool" where
  "inside st \<longleftrightarrow> \<not> waits st \<and> st \<noteq> Settled"

lemma chain_inside: "chain n m \<Longrightarrow> i < length (mx_calls m) \<Longrightarrow> inside (status_of m i) \<longleftrightarrow> i = n \<and> active (status_of m n)"
  using chain_active [of n m i] waits_not_active [of "status_of m i"] by (auto simp: inside_def)

lemma chain_waits:
  assumes "chain n m" and "i < length (mx_calls m)"
  shows "waits (status_of m i) \<longleftrightarrow> n < i \<or> (i = n \<and> \<not> active (status_of m n))"
  using assms waits_not_active [of "status_of m i"] by (cases i n rule: linorder_cases) (auto simp: chain_def)

lemma chain_waiting:
  assumes "chain n m"
  shows "card {i. i < length (mx_calls m) \<and> waits (status_of m i)} = mx_queued m"
proof -
  have "{i. i < length (mx_calls m) \<and> waits (status_of m i)} = (if n < length (mx_calls m) \<and> active (status_of m n)
      then {Suc n..<length (mx_calls m)} else {n..<length (mx_calls m)})"
    using chain_waits [OF assms] by (auto simp: le_less)
  then show ?thesis using assms by (auto simp: chain_def)
qed

text \<open>
  C15. The mutex excludes and is fair: at any time, with calls made, nested and failing in any order, at most one call is inside
  its section, the lock is reported held exactly then, the reported queue is the number of calls that wait, and a call
  that has begun was preceded only by calls that have settled.
\<close>

theorem mutex_exclusive:
  assumes "mutex_run (createAsyncMutex s) es m" and "i < length (mx_calls m)"
  shows "(inside (status_of m i) \<longrightarrow> (\<forall>j < length (mx_calls m). inside (status_of m j) \<longrightarrow> j = i))
    \<and> (isLocked m \<longleftrightarrow> (\<exists>j < length (mx_calls m). inside (status_of m j)))
    \<and> queueLength m = card {j. j < length (mx_calls m) \<and> waits (status_of m j)}
    \<and> (\<not> waits (status_of m i) \<longrightarrow> (\<forall>j < i. status_of m j = Settled))"
proof -
  obtain n where c: "chain n m" using reachable_chain [OF assms(1)] by blast
  note ins = chain_inside [OF c]
  have "isLocked m \<longleftrightarrow> n < length (mx_calls m) \<and> active (status_of m n)" using c by (simp add: chain_def isLocked_def)
  moreover have "\<not> waits (status_of m i) \<longrightarrow> (\<forall>j < i. status_of m j = Settled)"
  proof (intro impI allI)
    fix j assume "\<not> waits (status_of m i)" "j < i"
    then have "j < n" "j < length (mx_calls m)" using chain_waits [OF c assms(2)] assms(2) by auto
    then show "status_of m j = Settled" using c by (simp add: chain_def)
  qed
  ultimately show ?thesis using ins assms(2) by (simp add: queueLength_def chain_waiting [OF c]) blast
qed

text \<open>
  C3. No call waits forever: once no new calls come, a run ends within as many turns as the sections have left, and when
  nothing can move any more every call has settled, also where sections call the mutex again from inside.
\<close>

theorem mutex_terminates:
  assumes "mutex_run (createAsyncMutex s) es m" and "mutex_run m fs m'" and "\<forall>e \<in> set fs. \<not> is_call e"
  shows "length fs \<le> pending m \<and> ((\<forall>e m''. mutex_step m' e m'' \<longrightarrow> is_call e) \<longrightarrow> all_settled m')"
proof -
  obtain n where c: "chain n m" using reachable_chain [OF assms(1)] by blast
  obtain n' where c': "chain n' m'" using chain_run [OF assms(2) c] by blast
  show ?thesis using pending_run [OF assms(2) c assms(3)] chain_progress [OF c'] by auto
qed

text \<open>
  C14. Sections are serialised in the order of the calls: when every call has settled and none threw, the shared state is the
  one that running the sections one after the other, in the order they were called, produces.
\<close>

theorem mutex_serialises:
  assumes "mutex_run (createAsyncMutex s) es m" and "no_throw es" and "all_settled m"
  shows "mx_shared m = fold run_turns (called es) s"
proof -
  obtain n where n: "chain n m" "serial s (called es) n m" using serial_run [OF assms(1) refl assms(2)] by blast
  have "n = length (mx_calls m)"
  proof (rule ccontr)
    assume "n \<noteq> length (mx_calls m)"
    then have len: "n < length (mx_calls m)" using n(1) by (simp add: chain_def)
    then have "status_of m n = Settled" using assms(3) by (simp add: all_settled_def)
    moreover have "waits (status_of m n) \<or> active (status_of m n)" using n(1) len unfolding chain_def by blast
    ultimately show False by simp
  qed
  then show ?thesis using n(2) by (simp add: serial_def)
qed

text \<open>Two calls, the second with a section nested in its own: turns of the two cannot mix.\<close>

definition demo_calls :: "nat event list" where
  "demo_calls = [EvCall [Act Suc], EvCall [Nested [Act (\<lambda>x. x * 10)], Act Suc]]"

definition demo_turns :: "nat event list" where
  "demo_turns = [EvEnter 0, EvAct 0, EvReturn 0, EvEnter 1, EvNested 1, EvAct 1, EvAct 1, EvReturn 1]"

lemmas mutex_exec = try_step_def enqueue_def enter_def leave_def set_status_def nested_call_def withRoutingMutex_def
  createAsyncMutex_def demo_calls_def demo_turns_def

lemma demo_waiting: "\<exists>m. try_run demo_calls (createAsyncMutex 0) = Some m \<and> length (mx_calls m) = 2 \<and> pending m = 8"
  by (simp add: mutex_exec pending_def)

lemma demo_done:
  "\<exists>m. try_run (demo_calls @ demo_turns) (createAsyncMutex 0) = Some m \<and> all_settled m"
  by (simp add: mutex_exec all_settled_def less_Suc_eq numeral_2_eq_2)

lemma mutex_exclusive_witness:
  "\<exists>m. mutex_run (createAsyncMutex 0) demo_calls m \<and> queueLength m = card {j. j < 2 \<and> waits (status_of m j)}"
proof -
  obtain m where m: "mutex_run (createAsyncMutex 0) demo_calls m" "length (mx_calls m) = 2"
    using demo_waiting run_by_trying by blast
  then show ?thesis using mutex_exclusive [OF m(1), of 0] by auto
qed

lemma try_run_append: "try_run (es @ fs) m = (case try_run es m of None \<Rightarrow> None | Some m' \<Rightarrow> try_run fs m')"
  by (induction es arbitrary: m) (auto split: option.split)

lemma mutex_terminates_witness:
  "\<exists>m m'. mutex_run (createAsyncMutex 0) demo_calls m \<and> mutex_run m demo_turns m' \<and> length demo_turns \<le> pending m"
proof -
  obtain m' where "try_run (demo_calls @ demo_turns) (createAsyncMutex 0) = Some m'" using demo_done by blast
  then obtain m where m: "try_run demo_calls (createAsyncMutex 0) = Some m" "try_run demo_turns m = Some m'"
    unfolding try_run_append by (auto split: option.splits)
  note r = run_by_trying [OF m(1)] run_by_trying [OF m(2)]
  have "\<forall>e \<in> set demo_turns. \<not> is_call e" by (simp add: demo_turns_def)
  from mutex_terminates [OF r this] r show ?thesis by blast
qed

lemma mutex_serialises_witness:
  "\<exists>m. mutex_run (createAsyncMutex 0) (demo_calls @ demo_turns) m \<and> mx_shared m = 11"
proof -
  obtain m where m: "mutex_run (createAsyncMutex 0) (demo_calls @ demo_turns) m" "all_settled m"
    using demo_done run_by_trying by blast
  have "no_throw (demo_calls @ demo_turns)" by (simp add: no_throw_def demo_calls_def demo_turns_def)
  from mutex_serialises [OF m(1) this m(2)] m(1) show ?thesis by (auto simp: demo_calls_def demo_turns_def)
qed

end
