(* ===== verification/JsText.thy ===== *)
theory JsText
  imports Prelude
begin

text \<open>
  \<open>indexOf\<close>, \<open>split\<close> and \<open>join\<close> of JavaScript strings with their laws: joining undoes splitting, the
  pieces hold no separator, and splitting at one character undoes joining.
\<close>

section \<open>Strings: search, split, join\<close>

abbreviation LF :: char where "LF \<equiv> CHR 0x0A"
abbreviation CR :: char where "CR \<equiv> CHR 0x0D"

text \<open>\<open>s.indexOf(n)\<close>, with \<open>None\<close> for -1.\<close>

fun js_string_index :: "string \<Rightarrow> string \<Rightarrow> nat option" where
  "js_string_index [] n = (if n = [] then Some 0 else None)"
| "js_string_index (c # s) n =
     (if prefix n (c # s) then Some 0 else map_option Suc (js_string_index s n))"

lemma js_string_index_Some:
  assumes "js_string_index s n = Some i"
  shows "i + length n \<le> length s" and "s = take i s @ n @ drop (i + length n) s"
    and "\<forall>k<i. \<not> prefix n (drop k s)"
proof -
  have "i + length n \<le> length s \<and> s = take i s @ n @ drop (i + length n) s
      \<and> (\<forall>k<i. \<not> prefix n (drop k s))"
    using assms
  proof (induction s arbitrary: i)
    case Nil
    then show ?case by (auto split: if_splits)
  next
    case (Cons c s)
    show ?case
    proof (cases "prefix n (c # s)")
      case True
      with Cons.prems have "i = 0" by simp
      with prefix_length_le [OF True] True show ?thesis by (auto simp: prefix_def)
    next
      case False
      with Cons.prems obtain k where k: "js_string_index s n = Some k" "i = Suc k" by auto
      have IH: "k + length n \<le> length s" "s = take k s @ n @ drop (k + length n) s"
        "\<forall>j<k. \<not> prefix n (drop j s)"
        using Cons.IH [OF k(1)] by blast+
      have "\<not> prefix n (drop j (c # s))" if "j < i" for j
        using that False IH(3) k(2) by (cases j) auto
      with IH k(2) show ?thesis by simp
    qed
  qed
  then show "i + length n \<le> length s" and "s = take i s @ n @ drop (i + length n) s"
    and "\<forall>k<i. \<not> prefix n (drop k s)" by blast+
qed

lemma js_string_index_None: "js_string_index s n = None \<longleftrightarrow> \<not> sublist n s"
  by (induction s) (auto simp: sublist_Cons_right)

text \<open>\<open>s.split(sep)\<close> for a separator that is not empty (the code never splits on an empty one:
  the empty separator is a branch of its own here only so that the function is total), and
  \<open>parts.join(sep)\<close>.\<close>

function js_split :: "string \<Rightarrow> string \<Rightarrow> string list" where
  "js_split sep s =
     (case js_string_index s sep of
        None \<Rightarrow> [s]
      | Some i \<Rightarrow> if sep = [] then [s] else take i s # js_split sep (drop (i + length sep) s))"
  by pat_completeness auto
termination
proof (relation "measure (\<lambda>(sep, s). length s)")
  show "wf (measure (\<lambda>(sep :: string, s :: string). length s))" by simp
next
  fix sep s :: string and i
  assume i: "js_string_index s sep = Some i" and "sep \<noteq> []"
  from js_string_index_Some(1) [OF i] \<open>sep \<noteq> []\<close> have "0 < length s" by (cases sep) auto
  with \<open>sep \<noteq> []\<close> show "((sep, drop (i + length sep) s), sep, s)
      \<in> measure (\<lambda>(sep, s). length s)" by (cases sep) auto
qed

declare js_split.simps [simp del]

fun js_join :: "string \<Rightarrow> string list \<Rightarrow> string" where
  "js_join sep [] = []"
| "js_join sep [x] = x"
| "js_join sep (x # y # xs) = x @ sep @ js_join sep (y # xs)"

lemma js_join_Cons: "xs \<noteq> [] \<Longrightarrow> js_join sep (x # xs) = x @ sep @ js_join sep xs"
  by (cases xs) auto

lemma js_join_snoc: "xs \<noteq> [] \<Longrightarrow> js_join sep (xs @ [x]) = js_join sep xs @ sep @ x"
proof (induction xs)
  case (Cons a xs)
  then show ?case by (cases xs) auto
qed simp

lemma js_split_nonempty [simp]: "js_split sep s \<noteq> []"
  by (subst js_split.simps) (auto split: option.split)

lemma js_join_split [simp]: "js_join sep (js_split sep s) = s"
proof (induction sep s rule: js_split.induct)
  case (1 sep s)
  show ?case
  proof (cases "js_string_index s sep")
    case None
    then show ?thesis by (simp add: js_split.simps [of sep s])
  next
    case (Some i)
    show ?thesis
    proof (cases "sep = []")
      case True
      with Some show ?thesis by (subst js_split.simps) simp
    next
      case False
      have "js_join sep (js_split sep s)
          = take i s @ sep @ js_join sep (js_split sep (drop (i + length sep) s))"
        using Some False by (subst js_split.simps) (simp add: js_join_Cons)
      also have "\<dots> = take i s @ sep @ drop (i + length sep) s"
        using 1 [OF Some False] by simp
      also have "\<dots> = s" using js_string_index_Some(2) [OF Some] by simp
      finally show ?thesis .
    qed
  qed
qed

lemma js_string_index_char: "c \<notin> set a \<Longrightarrow> js_string_index (a @ c # b) [c] = Some (length a)"
  by (induction a) auto

lemma js_string_index_char_None: "js_string_index a [c] = None \<longleftrightarrow> c \<notin> set a"
  by (induction a) auto

lemma js_split_char_app:
  "c \<notin> set a \<Longrightarrow> js_split [c] (a @ c # b) = a # js_split [c] b"
  by (subst js_split.simps) (simp add: js_string_index_char)

lemma js_split_char_none: "c \<notin> set a \<Longrightarrow> js_split [c] a = [a]"
  by (subst js_split.simps) (simp add: js_string_index_char_None [THEN iffD2])

lemma js_split_join_char:
  "ls \<noteq> [] \<Longrightarrow> \<forall>l\<in>set ls. c \<notin> set l \<Longrightarrow> js_split [c] (js_join [c] ls) = ls"
proof (induction ls)
  case (Cons a ls)
  then show ?case
    by (cases "ls = []") (auto simp: js_join_Cons js_split_char_app js_split_char_none)
qed simp

lemma js_split_char_free: "p \<in> set (js_split [c] s) \<Longrightarrow> c \<notin> set p"
proof (induction "[c]" s rule: js_split.induct)
  case (1 s)
  show ?case
  proof (cases "js_string_index s [c]")
    case None
    with 1(2) have "p = s" by (simp add: js_split.simps [of "[c]" s])
    with None show ?thesis by (simp add: js_string_index_char_None)
  next
    case (Some i)
    then have cases: "p = take i s \<or> p \<in> set (js_split [c] (drop (i + length [c]) s))"
      using 1(2) by (subst (asm) js_split.simps) simp
    have "c \<notin> set (take i s)"
    proof
      assume "c \<in> set (take i s)"
      then obtain k where "k < i" "k < length s" "s ! k = c"
        by (auto simp: in_set_conv_nth)
      then have "prefix [c] (drop k s)" by (simp add: Cons_nth_drop_Suc [symmetric])
      with js_string_index_Some(3) [OF Some] \<open>k < i\<close> show False by blast
    qed
    with cases 1(1) [OF Some] show ?thesis by auto
  qed
qed

end
