(* ===== verification/HashlineEdit.thy ===== *)
theory HashlineEdit
  imports JsText
begin

text \<open>
  The hash-verified edit tools (\<open>lib/tools/hashline-tools.ts\<close>): the split of a file into lines
  and its inverse (\<open>normalizeFileText\<close>, \<open>denormalizeFileText\<close>), the line references
  \<open>L<line>#<hash>\<close> (\<open>formatHashlineRef\<close>, \<open>parseHashlineRef\<close>, \<open>resolveHashlineRef\<close>), the window a
  read prints (\<open>renderHashlineSlice\<close>), the two edits (\<open>applyHashlineEdit\<close>, \<open>applyLegacyEdit\<close>) and
  the tools' \<open>execute\<close> functions as lists of the calls they make.

  The SHA-1 digest of \<open>node:crypto\<close> is the parameter \<open>digest\<close> (text to lower-case hex), the path
  functions of \<open>node:path\<close> are a record of functions, what the permission prompt and the file
  system answer are arguments.  A message of a failed edit is the error value of the result.
\<close>

section \<open>A file as lines\<close>

text \<open>\<open>s.replace(/\r\n/g, "\n")\<close>.\<close>

fun crlf_to_lf :: "string \<Rightarrow> string" where
  "crlf_to_lf [] = []"
| "crlf_to_lf [c] = [c]"
| "crlf_to_lf (c # d # s) =
     (if c = CR \<and> d = LF then LF # crlf_to_lf s else c # crlf_to_lf (d # s))"

record normalized_file_text =
  nf_lines :: "string list"
  nf_eol :: string
  nf_trailing :: bool

definition normalizeFileText :: "string \<Rightarrow> normalized_file_text" where
  "normalizeFileText content =
     (let normalized = crlf_to_lf content;
          eol = if js_includes content [CR, LF] then [CR, LF] else [LF]
      in if normalized = [] then \<lparr>nf_lines = [], nf_eol = eol, nf_trailing = False\<rparr>
         else
           let hadTrailingNewline = suffix [LF] normalized;
               pieces = js_split [LF] normalized
           in \<lparr>nf_lines = (if hadTrailingNewline then butlast pieces else pieces),
               nf_eol = eol, nf_trailing = hadTrailingNewline\<rparr>)"

definition denormalizeFileText :: "normalized_file_text \<Rightarrow> string" where
  "denormalizeFileText v =
     (if nf_lines v = [] then []
      else let joined = js_join (nf_eol v) (nf_lines v)
           in if nf_trailing v then joined @ nf_eol v else joined)"

definition splitInsertText :: "string \<Rightarrow> string list" where
  "splitInsertText s =
     (let normalized = crlf_to_lf s
      in if normalized = [] then []
         else let pieces = js_split [LF] normalized
              in if suffix [LF] normalized then butlast pieces else pieces)"

definition clipLine :: "string \<Rightarrow> string" where
  "clipLine s = (if length s \<le> 240 then s else take 237 s @ ''...'')"

section \<open>References\<close>

record parsed_hashline_ref =
  ref_line :: nat
  ref_hash :: string
  ref_raw :: string

definition computeHashline :: "(string \<Rightarrow> string) \<Rightarrow> string \<Rightarrow> string" where
  "computeHashline digest s = take 8 (digest s)"

definition formatHashlineRef :: "(string \<Rightarrow> string) \<Rightarrow> nat \<Rightarrow> string \<Rightarrow> string" where
  "formatHashlineRef digest n s = ''L'' @ show_nat n @ ''#'' @ computeHashline digest s"

definition is_hex :: "char \<Rightarrow> bool" where
  "is_hex c \<longleftrightarrow> is_digit c \<or> (let n = of_char c :: nat in 97 \<le> n \<and> n \<le> 102 \<or> 65 \<le> n \<and> n \<le> 70)"

text \<open>The expression \<open>/^L([1-9]\d*)#([a-f0-9]{8})$/i\<close>: its two groups.\<close>

definition match_hashline_ref :: "string \<Rightarrow> (string \<times> string) option" where
  "match_hashline_ref raw =
     (case raw of
        [] \<Rightarrow> None
      | c # rest \<Rightarrow>
          let digits = takeWhile is_digit rest; tail = dropWhile is_digit rest
          in if (c = CHR ''L'' \<or> c = CHR ''l'') \<and> digits \<noteq> [] \<and> hd digits \<noteq> CHR ''0''
                \<and> tail \<noteq> [] \<and> hd tail = CHR ''#''
                \<and> length (tl tail) = 8 \<and> list_all is_hex (tl tail)
             then Some (digits, tl tail) else None)"

text \<open>\<open>Number.parseInt\<close> is finite below \<open>2^1024 - 2^970\<close>, the numbers that round to a double.\<close>

definition js_finite_nat :: "nat \<Rightarrow> bool" where
  "js_finite_nat n \<longleftrightarrow> n < 2 ^ 1024 - 2 ^ 970"

lemma js_finite_nat_code [code]:
  "js_finite_nat n \<longleftrightarrow> int n < 2 ^ 970 * (2 ^ 54 - 1)"
proof -
  have "js_finite_nat n \<longleftrightarrow> n < 2 ^ 970 * (2 ^ 54 - 1)" by (simp add: js_finite_nat_def)
  also have "\<dots> \<longleftrightarrow> int n < int (2 ^ 970 * (2 ^ 54 - 1))" by (simp only: of_nat_less_iff)
  finally show ?thesis by simp
qed

definition parseHashlineRef :: "string \<Rightarrow> parsed_hashline_ref option" where
  "parseHashlineRef s =
     (let raw = js_trim s
      in case match_hashline_ref raw of
           None \<Rightarrow> None
         | Some (digits, hash) \<Rightarrow>
             let lineNumber = read_nat digits
             in if \<not> js_finite_nat lineNumber \<or> lineNumber < 1 then None
                else Some \<lparr>ref_line = lineNumber, ref_hash = js_lower hash, ref_raw = raw\<rparr>)"

definition resolveHashlineRef ::
    "(string \<Rightarrow> string) \<Rightarrow> string list \<Rightarrow> parsed_hashline_ref \<Rightarrow> string \<Rightarrow> string + nat" where
  "resolveHashlineRef digest lines r label =
     (if length lines < ref_line r
      then Inl (label @ '' is out of range ('' @ ref_raw r @ ''). File has ''
                @ show_nat (length lines) @ '' line(s).'')
      else
        let index = ref_line r - 1
        in if \<not> index < length lines then Inl (label @ '' is out of range ('' @ ref_raw r @ '').'')
           else
             let line = lines ! index; currentHash = computeHashline digest line
             in if currentHash \<noteq> ref_hash r
                then Inl (label @ '' hash mismatch at line '' @ show_nat (ref_line r)
                          @ ''. Expected '' @ ref_hash r @ '', found '' @ currentHash
                          @ ''. Current ref: '' @ formatHashlineRef digest (ref_line r) line)
                else Inr index)"

definition ref_row :: "(string \<Rightarrow> string) \<Rightarrow> string list \<Rightarrow> nat \<Rightarrow> string" where
  "ref_row digest lines n =
     formatHashlineRef digest n (lines ! (n - 1)) @ '' | '' @ clipLine (lines ! (n - 1))"

definition buildUpdatedRefs ::
    "(string \<Rightarrow> string) \<Rightarrow> string \<Rightarrow> nat \<Rightarrow> nat \<Rightarrow> string list" where
  "buildUpdatedRefs digest content startLine endLine =
     (let lines = nf_lines (normalizeFileText content)
      in if lines = [] then []
         else
           let safeStart = max 1 (min startLine (length lines));
               safeEnd = max safeStart (min endLine (length lines))
           in map (ref_row digest lines)
                (filter (\<lambda>n. n - 1 < length lines) [safeStart..<Suc safeEnd]))"

definition renderHashlineSlice ::
    "(string \<Rightarrow> string) \<Rightarrow> string \<Rightarrow> jsnum \<Rightarrow> jsnum \<Rightarrow> string" where
  "renderHashlineSlice digest content startLine maxLines =
     (let lines = nf_lines (normalizeFileText content)
      in if lines = [] then ''File is empty.''
         else
           let safeStartLine = nat (max 1 \<lfloor>startLine\<rfloor>);
               safeMaxLines = nat (max 1 (min 400 \<lfloor>maxLines\<rfloor>));
               startIndex = min (length lines - 1) (safeStartLine - 1);
               endIndex = min (length lines - 1) (startIndex + safeMaxLines - 1)
           in js_join [LF]
                ([''Hashline window '' @ show_nat (startIndex + 1) @ ''-'' @ show_nat (endIndex + 1)
                  @ '' of '' @ show_nat (length lines) @ '':'', '''']
                 @ map (ref_row digest lines) [startIndex + 1..<endIndex + 2]
                 @ (if endIndex < length lines - 1
                    then ['''', ''... '' @ show_nat (length lines - endIndex - 1) @ '' more line(s).'']
                    else [])))"

section \<open>The hashline edit\<close>

datatype hashline_operation = Replace | InsertBefore | InsertAfter | Delete

definition operation_name :: "hashline_operation \<Rightarrow> string" where
  "operation_name p = (case p of Replace \<Rightarrow> ''replace'' | InsertBefore \<Rightarrow> ''insert_before''
     | InsertAfter \<Rightarrow> ''insert_after'' | Delete \<Rightarrow> ''delete'')"

definition parseOperation :: "string option \<Rightarrow> hashline_operation option" where
  "parseOperation v =
     (let normalized = js_lower (js_trim (nullish v ''replace''))
      in find (\<lambda>p. operation_name p = normalized) [Replace, InsertBefore, InsertAfter, Delete])"

record edit_tool_args =
  ea_path :: string
  ea_oldString :: "string option"
  ea_newString :: "string option"
  ea_replaceAll :: "bool option"
  ea_lineRef :: "string option"
  ea_endLineRef :: "string option"
  ea_operation :: "string option"
  ea_content :: "string option"

record hashline_edit_success =
  es_updatedContent :: string
  es_operation :: hashline_operation
  es_changedStartLine :: nat
  es_changedEndLine :: nat

text \<open>A string the code finds truthy, and \<open>lines.splice(start, count, ...ins)\<close>.\<close>

definition nonempty_arg :: "string option \<Rightarrow> bool" where
  "nonempty_arg s \<longleftrightarrow> s \<noteq> None \<and> s \<noteq> Some []"

definition js_splice :: "nat \<Rightarrow> nat \<Rightarrow> 'a list \<Rightarrow> 'a list \<Rightarrow> 'a list" where
  "js_splice start count ins xs = take start xs @ ins @ drop (start + count) xs"

definition edited_lines ::
    "hashline_operation \<Rightarrow> nat \<Rightarrow> nat \<Rightarrow> string list \<Rightarrow> string list \<Rightarrow> string list" where
  "edited_lines operation startIndex rangeLength insertLines lines =
     (case operation of
        Replace \<Rightarrow> js_splice startIndex rangeLength insertLines lines
      | Delete \<Rightarrow> js_splice startIndex rangeLength [] lines
      | InsertBefore \<Rightarrow> js_splice startIndex 0 insertLines lines
      | InsertAfter \<Rightarrow> js_splice (startIndex + 1) 0 insertLines lines)"

text \<open>The lines the answer prints references for: \<open>changedStartLine\<close>, \<open>changedEndLine\<close>.\<close>

definition changed_range :: "hashline_operation \<Rightarrow> nat \<Rightarrow> nat \<Rightarrow> nat \<times> nat" where
  "changed_range operation line count =
     (case operation of
        Replace \<Rightarrow> (line, if 0 < count then line + count - 1 else max 1 (line - 1))
      | Delete \<Rightarrow> (max 1 (line - 1), max 1 (line - 1))
      | InsertBefore \<Rightarrow> (line, line + count - 1)
      | InsertAfter \<Rightarrow> (line + 1, line + count))"

definition insert_text :: "edit_tool_args \<Rightarrow> string" where
  "insert_text args = nullish (ea_content args) (nullish (ea_newString args) [])"

definition applyHashlineEdit ::
    "(string \<Rightarrow> string) \<Rightarrow> string \<Rightarrow> edit_tool_args \<Rightarrow> string + hashline_edit_success" where
  "applyHashlineEdit digest content args =
     (if \<not> nonempty_arg (ea_lineRef args) then Inl ''lineRef is required for hashline edit mode.''
      else case parseHashlineRef (the (ea_lineRef args)) of
        None \<Rightarrow> Inl (''Invalid lineRef format: '' @ the (ea_lineRef args)
                      @ ''. Expected L<line>#<hash>.'')
      | Some lineRef \<Rightarrow>
          (case (if nonempty_arg (ea_endLineRef args)
                 then parseHashlineRef (the (ea_endLineRef args)) else Some lineRef) of
             None \<Rightarrow> Inl (''Invalid endLineRef format: '' @ the (ea_endLineRef args)
                           @ ''. Expected L<line>#<hash>.'')
           | Some endLineRef \<Rightarrow>
               if ref_line endLineRef < ref_line lineRef
               then Inl ''endLineRef must be on or after lineRef.''
               else (case parseOperation (ea_operation args) of
                 None \<Rightarrow> Inl (''Invalid operation. Use one of: ''
                               @ ''replace, insert_before, insert_after, delete.'')
               | Some operation \<Rightarrow>
                   let normalized = normalizeFileText content; lines = nf_lines normalized
                   in (case resolveHashlineRef digest lines lineRef ''lineRef'' of
                         Inl e \<Rightarrow> Inl e
                       | Inr startIndex \<Rightarrow>
                           (case resolveHashlineRef digest lines endLineRef ''endLineRef'' of
                              Inl e \<Rightarrow> Inl e
                            | Inr endIndex \<Rightarrow>
                                let rangeLength = endIndex - startIndex + 1;
                                    insertLines = splitInsertText (insert_text args)
                                in if (operation = InsertBefore \<or> operation = InsertAfter)
                                      \<and> insertLines = []
                                   then Inl (''content is required for ''
                                             @ operation_name operation @ ''.'')
                                   else
                                     let edited =
                                           edited_lines operation startIndex rangeLength
                                             insertLines lines;
                                         changed =
                                           changed_range operation (ref_line lineRef)
                                             (length insertLines)
                                     in Inr \<lparr>es_updatedContent = denormalizeFileText
                                               \<lparr>nf_lines = edited, nf_eol = nf_eol normalized,
                                                nf_trailing = (if edited \<noteq> []
                                                  then nf_trailing normalized else False)\<rparr>,
                                             es_operation = operation,
                                             es_changedStartLine = fst changed,
                                             es_changedEndLine = snd changed\<rparr>)))))"


section \<open>The legacy edit\<close>

text \<open>The expression of \<open>findUnresolvedLegacyPlaceholder\<close>: \<open>${\<close>, no brace up to the next \<open>}\<close>,
  and between them one of the template words, at word boundaries on both sides.\<close>

definition word_char :: "char \<Rightarrow> bool" where
  "word_char c \<longleftrightarrow> is_digit c \<or> c = CHR ''_''
     \<or> (let n = of_char c :: nat in 65 \<le> n \<and> n \<le> 90 \<or> 97 \<le> n \<and> n \<le> 122)"

definition target_char :: "char \<Rightarrow> bool" where
  "target_char c \<longleftrightarrow> is_digit c \<or> c = CHR ''_''
     \<or> (let n = of_char c :: nat in 65 \<le> n \<and> n \<le> 90)"

definition at_boundary :: "string \<Rightarrow> bool" where
  "at_boundary s \<longleftrightarrow> s = [] \<or> \<not> word_char (hd s)"

definition template_word_here :: "string \<Rightarrow> bool" where
  "template_word_here s \<longleftrightarrow>
     prefix ''TARGET_'' s \<and> at_boundary (dropWhile target_char (drop 7 s))
     \<or> list_ex (\<lambda>w. prefix w s \<and> at_boundary (drop (length w) s))
         [''ORIGINAL_LINES'', ''SNIPPET'', ''START_LINE'', ''END_LINE'']"

fun has_template_word :: "bool \<Rightarrow> string \<Rightarrow> bool" where
  "has_template_word after_word [] = False"
| "has_template_word after_word (c # s) =
     (\<not> after_word \<and> template_word_here (c # s) \<or> has_template_word (word_char c) s)"

fun findUnresolvedLegacyPlaceholder :: "string \<Rightarrow> string option" where
  "findUnresolvedLegacyPlaceholder [] = None"
| "findUnresolvedLegacyPlaceholder (c # s) =
     (if c = CHR ''$'' \<and> s \<noteq> [] \<and> hd s = CHR 0x7B \<and> CHR 0x7D \<in> set (tl s)
         \<and> has_template_word False (takeWhile (\<lambda>d. d \<noteq> CHR 0x7D) (tl s))
      then Some ([c, hd s] @ takeWhile (\<lambda>d. d \<noteq> CHR 0x7D) (tl s) @ [CHR 0x7D])
      else findUnresolvedLegacyPlaceholder s)"

definition applyLegacyEdit :: "string \<Rightarrow> edit_tool_args \<Rightarrow> string + string \<times> nat" where
  "applyLegacyEdit content args =
     (if \<not> nonempty_arg (ea_oldString args)
      then Inl (''Legacy edit requires non-empty oldString. For hashline mode, use lineRef.'')
      else
        let oldString = the (ea_oldString args)
        in case findUnresolvedLegacyPlaceholder oldString of
             Some placeholder \<Rightarrow>
               Inl (''oldString contains unresolved template placeholder '' @ placeholder
                    @ ''. Use literal file text for oldString, ''
                    @ ''or prefer hashline_read + lineRef/endLineRef.'')
           | None \<Rightarrow>
               let newString = nullish (ea_newString args) []
               in if ea_replaceAll args = Some True
                  then
                    let parts = js_split oldString content; replacements = length parts - 1
                    in if replacements = 0 then Inl ''oldString not found.''
                       else Inr (js_join newString parts, replacements)
                  else
                    (case js_string_index content oldString of
                       None \<Rightarrow> Inl ''oldString not found.''
                     | Some firstIndex \<Rightarrow>
                         let rest = drop (firstIndex + length oldString) content
                         in if js_string_index rest oldString \<noteq> None
                            then Inl (''oldString appears multiple times. ''
                                      @ ''Use replaceAll=true or hashline mode.'')
                            else Inr (take firstIndex content @ newString @ rest, 1)))"

section \<open>The tools\<close>

record node_path =
  np_normalize :: "string \<Rightarrow> string"
  np_isAbsolute :: "string \<Rightarrow> bool"
  np_resolve :: "string \<Rightarrow> string \<Rightarrow> string"
  np_relative :: "string \<Rightarrow> string \<Rightarrow> string"

record tool_context =
  tc_directory :: "string option"
  tc_worktree :: "string option"
  tc_cwd :: string

definition or_string :: "string option \<Rightarrow> string \<Rightarrow> string" where
  "or_string s d = (if nonempty_arg s then the s else d)"

definition resolveToolPath :: "node_path \<Rightarrow> string \<Rightarrow> tool_context \<Rightarrow> string + string" where
  "resolveToolPath np pathValue ctx =
     (let trimmed = js_trim pathValue
      in if trimmed = [] then Inl ''path is required''
         else let baseDir = or_string (tc_directory ctx) (tc_cwd ctx)
              in Inr (np_normalize np
                   (if np_isAbsolute np trimmed then trimmed else np_resolve np baseDir trimmed)))"

definition toDisplayPath :: "node_path \<Rightarrow> string \<Rightarrow> tool_context \<Rightarrow> string" where
  "toDisplayPath np absolutePath ctx =
     (let root = or_string (tc_worktree ctx) (or_string (tc_directory ctx) (tc_cwd ctx));
          rel = np_relative np root absolutePath
      in if rel = [] \<or> js_starts_with rel ''..'' then absolutePath
         else map (\<lambda>c. if c = CHR 0x5C then CHR ''/'' else c) rel)"

text \<open>The calls a tool makes, in their order, and how it ends: with an answer, or with the
  exception of the path check or of a refused permission.\<close>

datatype tool_call = AskPermission string string | ReadFile string | WriteFile string string
datatype tool_end = Answer string | Throws string

text \<open>\<open>context.ask\<close> for each permission in turn: the calls made and the refusal, if one came.\<close>

fun askFilePermission ::
    "(string \<Rightarrow> string option) \<Rightarrow> string \<Rightarrow> string list \<Rightarrow> tool_call list \<times> string option" where
  "askFilePermission ask absolutePath [] = ([], None)"
| "askFilePermission ask absolutePath (permission # permissions) =
     (case ask permission of
        Some refusal \<Rightarrow> ([AskPermission permission absolutePath], Some refusal)
      | None \<Rightarrow>
          (let (calls, refused) = askFilePermission ask absolutePath permissions
           in (AskPermission permission absolutePath # calls, refused)))"

definition hashline_read_execute ::
    "(string \<Rightarrow> string) \<Rightarrow> node_path \<Rightarrow> tool_context \<Rightarrow> (string \<Rightarrow> string option)
     \<Rightarrow> (string \<Rightarrow> string + string) \<Rightarrow> string \<Rightarrow> jsnum option \<Rightarrow> jsnum option
     \<Rightarrow> tool_call list \<times> tool_end" where
  "hashline_read_execute digest np ctx ask readFile path startLine maxLines =
     (case resolveToolPath np path ctx of
        Inl e \<Rightarrow> ([], Throws e)
      | Inr absolutePath \<Rightarrow>
          (case askFilePermission ask absolutePath [''read''] of
             (calls, Some refusal) \<Rightarrow> (calls, Throws refusal)
           | (calls, None) \<Rightarrow>
               (calls @ [ReadFile absolutePath],
                (case readFile absolutePath of
                   Inl message \<Rightarrow> Answer (''Failed to read '' @ absolutePath @ '': '' @ message)
                 | Inr content \<Rightarrow>
                     Answer (js_join [LF]
                       [''File: '' @ toDisplayPath np absolutePath ctx,
                        renderHashlineSlice digest content (nullish startLine 1)
                          (nullish maxLines 120)])))))"

text \<open>What the edit tool computes from the text it read: the failure message, or the new text with
  the answer given once it is written.\<close>

definition hashline_mode :: "edit_tool_args \<Rightarrow> bool" where
  "hashline_mode args \<longleftrightarrow> nonempty_arg (ea_lineRef args) \<or> nonempty_arg (ea_endLineRef args)
     \<or> nonempty_arg (ea_operation args) \<or> nonempty_arg (ea_content args)"

definition planned_edit ::
    "(string \<Rightarrow> string) \<Rightarrow> string \<Rightarrow> string \<Rightarrow> edit_tool_args \<Rightarrow> string + string \<times> string" where
  "planned_edit digest displayPath content args =
     (if hashline_mode args
      then (case applyHashlineEdit digest content args of
              Inl message \<Rightarrow> Inl message
            | Inr r \<Rightarrow>
                let refs = buildUpdatedRefs digest (es_updatedContent r)
                             (es_changedStartLine r) (es_changedEndLine r)
                in Inr (es_updatedContent r,
                        js_join [LF]
                          ([''Updated '' @ displayPath @ '' using hashline ''
                            @ operation_name (es_operation r) @ ''.'']
                           @ (if refs \<noteq> [] then ''Updated refs:'' # refs else []))))
      else (case applyLegacyEdit content args of
              Inl message \<Rightarrow> Inl message
            | Inr (updated, replacements) \<Rightarrow>
                Inr (updated, ''Updated '' @ displayPath @ '' using legacy edit (''
                     @ show_nat replacements @ '' replacement''
                     @ (if replacements = 1 then [] else ''s'') @ '').'')))"

definition hashline_edit_execute ::
    "(string \<Rightarrow> string) \<Rightarrow> node_path \<Rightarrow> tool_context \<Rightarrow> (string \<Rightarrow> string option)
     \<Rightarrow> (string \<Rightarrow> string + string) \<Rightarrow> (string \<Rightarrow> string \<Rightarrow> string option) \<Rightarrow> edit_tool_args
     \<Rightarrow> tool_call list \<times> tool_end" where
  "hashline_edit_execute digest np ctx ask readFile writeFile args =
     (case resolveToolPath np (ea_path args) ctx of
        Inl e \<Rightarrow> ([], Throws e)
      | Inr absolutePath \<Rightarrow>
          (case askFilePermission ask absolutePath [''read'', ''edit''] of
             (calls, Some refusal) \<Rightarrow> (calls, Throws refusal)
           | (calls, None) \<Rightarrow>
               (case readFile absolutePath of
                  Inl message \<Rightarrow>
                    (calls @ [ReadFile absolutePath],
                     Answer (''Failed to read '' @ absolutePath @ '': '' @ message))
                | Inr originalContent \<Rightarrow>
                    (case planned_edit digest (toDisplayPath np absolutePath ctx)
                            originalContent args of
                       Inl message \<Rightarrow> (calls @ [ReadFile absolutePath], Answer message)
                     | Inr (updated, answer) \<Rightarrow>
                         if updated = originalContent
                         then (calls @ [ReadFile absolutePath], Answer ''No changes applied.'')
                         else
                           (calls @ [ReadFile absolutePath, WriteFile absolutePath updated],
                            (case writeFile absolutePath updated of
                               Some message \<Rightarrow>
                                 Answer (''Failed to write '' @ absolutePath @ '': '' @ message)
                             | None \<Rightarrow> Answer answer))))))"

section \<open>Line text survives the split and the join\<close>

text \<open>\<open>plain_line\<close>: a line without a stray carriage return (the split leaves no line feed in it).
  \<open>closed_lines\<close>: an unterminated file does not end in an empty line; such a file and the shorter
  one terminated by a line end are the same text.\<close>

definition plain_line :: "string \<Rightarrow> bool" where
  "plain_line l \<longleftrightarrow> LF \<notin> set l \<and> CR \<notin> set l"

definition closed_lines :: "string list \<Rightarrow> bool \<Rightarrow> bool" where
  "closed_lines ls terminated \<longleftrightarrow> terminated \<or> ls = [] \<or> last ls \<noteq> []"

definition file_lines :: "string \<Rightarrow> string list" where
  "file_lines content = nf_lines (normalizeFileText content)"

lemma crlf_to_lf_plain: "CR \<notin> set a \<Longrightarrow> crlf_to_lf (a @ b) = a @ crlf_to_lf b"
proof (induction a)
  case (Cons c a)
  then have c: "c \<noteq> CR" "CR \<notin> set a" by auto
  show ?case
  proof (cases "a @ b")
    case Nil
    then show ?thesis by simp
  next
    case (Cons d s)
    then have "crlf_to_lf ((c # a) @ b) = c # crlf_to_lf (a @ b)" using c by simp
    with Cons.IH c show ?thesis by simp
  qed
qed simp

lemma crlf_to_lf_pair [simp]: "crlf_to_lf (CR # LF # s) = LF # crlf_to_lf s"
  by simp

lemma crlf_to_lf_lf [simp]: "crlf_to_lf (LF # s) = LF # crlf_to_lf s"
  by (cases s) auto

lemma crlf_to_lf_id: "CR \<notin> set a \<Longrightarrow> crlf_to_lf a = a"
  using crlf_to_lf_plain [of a "[]"] by simp

lemma crlf_to_lf_eol: "eol \<in> {[LF], [CR, LF]} \<Longrightarrow> crlf_to_lf (eol @ s) = LF # crlf_to_lf s"
  by auto

lemma crlf_to_lf_join:
  assumes "\<forall>l\<in>set ls. plain_line l" and eol: "eol \<in> {[LF], [CR, LF]}"
  shows "crlf_to_lf (js_join eol ls @ s) = js_join [LF] ls @ crlf_to_lf s"
  using assms(1)
proof (induction ls)
  case (Cons x ls)
  then have x: "CR \<notin> set x" and ls: "\<forall>l\<in>set ls. plain_line l" by (auto simp: plain_line_def)
  show ?case
  proof (cases "ls = []")
    case True
    then show ?thesis by (simp add: crlf_to_lf_plain [OF x])
  next
    case False
    then have "crlf_to_lf (js_join eol (x # ls) @ s)
        = crlf_to_lf (x @ (eol @ (js_join eol ls @ s)))"
      by (simp add: js_join_Cons)
    also have "\<dots> = x @ LF # crlf_to_lf (js_join eol ls @ s)"
      by (simp only: crlf_to_lf_plain [OF x] crlf_to_lf_eol [OF eol])
    also have "\<dots> = js_join [LF] (x # ls) @ crlf_to_lf s"
      using False Cons.IH [OF ls] by (simp add: js_join_Cons)
    finally show ?thesis .
  qed
qed simp

lemma js_join_Nil_iff: "sep \<noteq> [] \<Longrightarrow> js_join sep ls = [] \<longleftrightarrow> ls = [] \<or> ls = [[]]"
  by (induction sep ls rule: js_join.induct) auto

lemma last_js_join:
  "ls \<noteq> [] \<Longrightarrow> last ls \<noteq> [] \<Longrightarrow> js_join sep ls \<noteq> [] \<and> last (js_join sep ls) = last (last ls)"
proof (induction ls)
  case (Cons x ls)
  then show ?case by (cases "ls = []") (auto simp: js_join_Cons)
qed simp

text \<open>The unparsed text of plain lines parses back to these lines, with either line end.\<close>

lemma normalize_denormalize:
  assumes plain: "\<forall>l\<in>set ls. plain_line l" and eol: "eol \<in> {[LF], [CR, LF]}"
    and closed: "closed_lines ls terminated"
  shows "file_lines (denormalizeFileText
    \<lparr>nf_lines = ls, nf_eol = eol, nf_trailing = terminated\<rparr>) = ls"
proof (cases "ls = []")
  case True
  then show ?thesis
    by (simp add: denormalizeFileText_def file_lines_def normalizeFileText_def)
next
  case False
  have free: "\<forall>l\<in>set ls. LF \<notin> set l" using plain by (auto simp: plain_line_def)
  show ?thesis
  proof (cases terminated)
    case True
    let ?s = "denormalizeFileText \<lparr>nf_lines = ls, nf_eol = eol, nf_trailing = terminated\<rparr>"
    have n: "crlf_to_lf ?s = js_join [LF] (ls @ [[]])"
      using crlf_to_lf_join [OF plain eol, of eol] False True crlf_to_lf_eol [OF eol, of "[]"]
      by (simp add: denormalizeFileText_def js_join_snoc Let_def)
    have split: "js_split [LF] (crlf_to_lf ?s) = ls @ [[]]"
      unfolding n by (rule js_split_join_char) (use free in auto)
    have ends: "suffix [LF] (crlf_to_lf ?s)" and ne: "crlf_to_lf ?s \<noteq> []"
      unfolding n using False by (simp_all add: js_join_snoc suffix_def)
    show ?thesis using ends ne split
      by (simp add: file_lines_def normalizeFileText_def Let_def)
  next
    case unended: False
    with closed False have lst: "last ls \<noteq> []" by (simp add: closed_lines_def)
    let ?s = "denormalizeFileText \<lparr>nf_lines = ls, nf_eol = eol, nf_trailing = terminated\<rparr>"
    have n: "crlf_to_lf ?s = js_join [LF] ls"
      using crlf_to_lf_join [OF plain eol, of "[]"] False unended
      by (simp add: denormalizeFileText_def Let_def)
    have split: "js_split [LF] (crlf_to_lf ?s) = ls"
      unfolding n by (rule js_split_join_char) (use free False in auto)
    have ne: "crlf_to_lf ?s \<noteq> []" and l: "last (crlf_to_lf ?s) = last (last ls)"
      unfolding n using last_js_join [OF False lst, of "[LF]"] by blast+
    have "last (last ls) \<noteq> LF" using free lst False last_in_set by metis
    then have "\<not> suffix [LF] (crlf_to_lf ?s)" using l by (auto simp: suffix_def)
    with ne split show ?thesis by (simp add: file_lines_def normalizeFileText_def Let_def)
  qed
qed

text \<open>The lines of a text have no line feed, whatever the text.\<close>

lemma splitInsertText_lines: "splitInsertText s = file_lines s"
  by (simp add: splitInsertText_def file_lines_def normalizeFileText_def Let_def)

lemma file_lines_free: "l \<in> set (file_lines s) \<Longrightarrow> LF \<notin> set l"
  by (auto simp: file_lines_def normalizeFileText_def Let_def split: if_splits
      dest: in_set_butlastD js_split_char_free)

lemma nf_eol_cases: "nf_eol (normalizeFileText s) \<in> {[LF], [CR, LF]}"
  by (simp add: normalizeFileText_def Let_def)


section \<open>What an edit does to the lines\<close>

text \<open>\<open>edit_target\<close>: the arguments name the lines \<open>i\<close> to \<open>j\<close> (from 0) of the file, and the hashes
  they carry are the hashes of these lines now.\<close>

definition edit_target ::
    "(string \<Rightarrow> string) \<Rightarrow> string list \<Rightarrow> edit_tool_args \<Rightarrow> hashline_operation \<Rightarrow> nat \<Rightarrow> nat \<Rightarrow> bool"
  where
  "edit_target digest lines args operation i j \<longleftrightarrow>
     nonempty_arg (ea_lineRef args) \<and> parseOperation (ea_operation args) = Some operation
     \<and> (\<exists>a b. parseHashlineRef (the (ea_lineRef args)) = Some a
          \<and> (if nonempty_arg (ea_endLineRef args)
             then parseHashlineRef (the (ea_endLineRef args)) else Some a) = Some b
          \<and> ref_line a = Suc i \<and> ref_line b = Suc j \<and> i \<le> j \<and> j < length lines
          \<and> computeHashline digest (lines ! i) = ref_hash a
          \<and> computeHashline digest (lines ! j) = ref_hash b)"

lemma parseHashlineRef_positive: "parseHashlineRef s = Some a \<Longrightarrow> \<exists>i. ref_line a = Suc i"
  by (auto simp: parseHashlineRef_def Let_def split: option.splits if_splits
      intro!: not0_implies_Suc)

lemma resolveHashlineRef_Inr:
  assumes "parseHashlineRef s = Some a"
  shows "resolveHashlineRef digest lines a label = Inr i \<longleftrightarrow>
    ref_line a = Suc i \<and> i < length lines \<and> computeHashline digest (lines ! i) = ref_hash a"
  using parseHashlineRef_positive [OF assms]
  by (auto simp: resolveHashlineRef_def Let_def)

definition needs_text :: "hashline_operation \<Rightarrow> bool" where
  "needs_text operation \<longleftrightarrow> operation = InsertBefore \<or> operation = InsertAfter"

lemma applyHashlineEdit_target:
  assumes "applyHashlineEdit digest content args = Inr r"
  obtains operation i j where
    "edit_target digest (file_lines content) args operation i j"
    "es_operation r = operation"
    "needs_text operation \<Longrightarrow> splitInsertText (insert_text args) \<noteq> []"
    "es_updatedContent r = denormalizeFileText
       \<lparr>nf_lines = edited_lines operation i (Suc j - i) (splitInsertText (insert_text args))
                    (file_lines content),
        nf_eol = nf_eol (normalizeFileText content),
        nf_trailing = (if edited_lines operation i (Suc j - i)
                            (splitInsertText (insert_text args)) (file_lines content) \<noteq> []
                       then nf_trailing (normalizeFileText content) else False)\<rparr>"
proof -
  have given: "nonempty_arg (ea_lineRef args)"
    using assms by (auto simp: applyHashlineEdit_def split: if_splits)
  from assms given obtain a where a: "parseHashlineRef (the (ea_lineRef args)) = Some a"
    by (auto simp: applyHashlineEdit_def split: option.splits)
  from assms given a obtain b where
    b: "(if nonempty_arg (ea_endLineRef args)
         then parseHashlineRef (the (ea_endLineRef args)) else Some a) = Some b"
    by (auto simp: applyHashlineEdit_def simp del: if_split split: option.splits)
  from assms given a b have ord: "\<not> ref_line b < ref_line a"
    by (auto simp: applyHashlineEdit_def simp del: if_split split: if_splits)
  from assms given a b ord obtain operation where p: "parseOperation (ea_operation args) = Some operation"
    by (auto simp: applyHashlineEdit_def simp del: if_split split: option.splits)
  define L where "L = file_lines content"
  from assms given a b ord p obtain i where
    i: "resolveHashlineRef digest L a ''lineRef'' = Inr i"
    by (auto simp: applyHashlineEdit_def Let_def L_def file_lines_def simp del: if_split
        split: sum.splits)
  from assms given a b ord p i obtain j where
    j: "resolveHashlineRef digest L b ''endLineRef'' = Inr j"
    by (auto simp: applyHashlineEdit_def Let_def L_def file_lines_def simp del: if_split
        split: sum.splits)
  define ins where "ins = splitInsertText (insert_text args)"
  define E where "E = edited_lines operation i (j - i + 1) ins L"
  have body: "(if (operation = InsertBefore \<or> operation = InsertAfter) \<and> ins = []
     then Inl (''content is required for '' @ operation_name operation @ ''.'')
     else Inr \<lparr>es_updatedContent = denormalizeFileText
            \<lparr>nf_lines = E, nf_eol = nf_eol (normalizeFileText content),
             nf_trailing = (if E \<noteq> [] then nf_trailing (normalizeFileText content) else False)\<rparr>,
          es_operation = operation,
          es_changedStartLine = fst (changed_range operation (ref_line a) (length ins)),
          es_changedEndLine = snd (changed_range operation (ref_line a) (length ins))\<rparr>) = Inr r"
    using assms given a b ord p i j
    unfolding applyHashlineEdit_def Let_def L_def file_lines_def E_def ins_def
    by (simp del: if_split)
  have b': "\<exists>s. parseHashlineRef s = Some b" using a b by (auto split: if_splits)
  then obtain sb where sb: "parseHashlineRef sb = Some b" by blast
  have ri: "ref_line a = Suc i" "i < length L" "computeHashline digest (L ! i) = ref_hash a"
    using i resolveHashlineRef_Inr [OF a] by auto
  have rj: "ref_line b = Suc j" "j < length L" "computeHashline digest (L ! j) = ref_hash b"
    using j resolveHashlineRef_Inr [OF sb] by auto
  have ij: "i \<le> j" using ord ri rj by simp
  have "edit_target digest L args operation i j"
    unfolding edit_target_def using given p a b ri rj ij by blast
  moreover have "es_operation r = operation" using body by (auto split: if_splits)
  moreover have "ins \<noteq> []" if "needs_text operation"
    using body that by (auto simp: needs_text_def)
  moreover have "j - i + 1 = Suc j - i" using ij by simp
  moreover have "es_updatedContent r = denormalizeFileText
      \<lparr>nf_lines = E, nf_eol = nf_eol (normalizeFileText content),
       nf_trailing = (if E \<noteq> [] then nf_trailing (normalizeFileText content) else False)\<rparr>"
    using body by (auto split: if_splits)
  ultimately show thesis using that unfolding L_def ins_def E_def by metis
qed

text \<open>What the operation promises: the lines before and after the target are kept, in order.\<close>

definition intended_lines ::
    "hashline_operation \<Rightarrow> nat \<Rightarrow> nat \<Rightarrow> string list \<Rightarrow> string list \<Rightarrow> string list" where
  "intended_lines operation i j new lines =
     (case operation of
        Replace \<Rightarrow> take i lines @ new @ drop (Suc j) lines
      | Delete \<Rightarrow> take i lines @ drop (Suc j) lines
      | InsertBefore \<Rightarrow> take i lines @ new @ drop i lines
      | InsertAfter \<Rightarrow> take (Suc i) lines @ new @ drop (Suc i) lines)"

lemma edited_lines_intended:
  "i \<le> j \<Longrightarrow> edited_lines operation i (Suc j - i) new lines = intended_lines operation i j new lines"
  by (cases operation) (simp_all add: edited_lines_def intended_lines_def js_splice_def)

lemma intended_lines_set:
  "l \<in> set (intended_lines operation i j new lines) \<Longrightarrow> l \<in> set new \<or> l \<in> set lines"
  by (auto simp: intended_lines_def split: hashline_operation.splits
      dest: in_set_takeD in_set_dropD)

definition zero_digest :: "string \<Rightarrow> string" where
  "zero_digest s = (if s = ''ab'' then replicate 40 (CHR ''0'') else replicate 40 (CHR ''f''))"

definition example_file :: string where
  "example_file = ''ab'' @ [CR, LF] @ ''cd'' @ [CR, LF]"

definition example_edit :: edit_tool_args where
  "example_edit = \<lparr>ea_path = ''f'', ea_oldString = None, ea_newString = None, ea_replaceAll = None,
     ea_lineRef = Some ''l2#FFFFFFFF'', ea_endLineRef = None, ea_operation = Some ''insert_before'',
     ea_content = Some ''new''\<rparr>"

lemma example_parts:
  "parseHashlineRef ''l2#FFFFFFFF'' = Some \<lparr>ref_line = 2, ref_hash = ''ffffffff'', ref_raw = ''l2#FFFFFFFF''\<rparr>"
  "normalizeFileText example_file = \<lparr>nf_lines = [''ab'', ''cd''], nf_eol = [CR, LF], nf_trailing = True\<rparr>"
  "parseOperation (Some ''insert_before'') = Some InsertBefore"
  "splitInsertText ''new'' = [''new'']"
  "computeHashline zero_digest ''cd'' = ''ffffffff''"
  by code_simp+

lemma example_edit_result:
  "applyHashlineEdit zero_digest example_file example_edit
   = Inr \<lparr>es_updatedContent = ''ab'' @ [CR, LF] @ ''new'' @ [CR, LF] @ ''cd'' @ [CR, LF],
          es_operation = InsertBefore, es_changedStartLine = 2, es_changedEndLine = 2\<rparr>"
  by (simp add: applyHashlineEdit_def example_edit_def nonempty_arg_def example_parts
      resolveHashlineRef_def insert_text_def edited_lines_def js_splice_def changed_range_def
      denormalizeFileText_def Let_def)



section \<open>A printed reference is accepted\<close>

definition hex_digest :: "(string \<Rightarrow> string) \<Rightarrow> bool" where
  "hex_digest digest \<longleftrightarrow> (\<forall>s. length (digest s) = 40 \<and> set (digest s) \<subseteq> set ''0123456789abcdef'')"

lemma js_trim_fixed:
  "s \<noteq> [] \<Longrightarrow> \<not> js_space (hd s) \<Longrightarrow> \<not> js_space (last s) \<Longrightarrow> js_trim s = s"
proof -
  assume s: "s \<noteq> []" "\<not> js_space (hd s)" "\<not> js_space (last s)"
  have keep: "dropWhile js_space x = x" if "x \<noteq> []" "\<not> js_space (hd x)" for x
    using that by (cases x) auto
  show ?thesis using s keep [of s] keep [of "rev s"] by (simp add: js_trim_def hd_rev)
qed

lemma show_nat_hd: "1 \<le> n \<Longrightarrow> hd (show_nat n) \<noteq> CHR ''0''"
proof (induction n rule: show_nat.induct)
  case (1 n)
  show ?case
  proof (cases "n < 10")
    case True
    with of_char_digit [OF this] 1 have "(of_char (digit_char n) :: nat) \<noteq> of_char CHR ''0''"
      by simp
    then have "digit_char n \<noteq> CHR ''0''" by metis
    with True show ?thesis by (simp add: show_nat.simps [of n])
  next
    case False
    then have "show_nat (n div 10) \<noteq> []"
      using all_digits_show_nat by (auto simp: all_digits_def)
    with False 1 show ?thesis by (simp add: show_nat.simps [of n])
  qed
qed

lemma low_hex_facts:
  assumes "c \<in> set ''0123456789abcdef''"
  shows "is_hex c" and "lower_char c = c" and "\<not> js_space c"
  using assms by (auto simp: is_hex_def is_digit_def lower_char_def js_space_def Let_def)

lemma parse_formatHashlineRef:
  assumes d: "hex_digest digest" and n: "1 \<le> n" "n < 2 ^ 53"
  shows "parseHashlineRef (formatHashlineRef digest n s)
    = Some \<lparr>ref_line = n, ref_hash = computeHashline digest s,
            ref_raw = formatHashlineRef digest n s\<rparr>"
proof -
  define h where "h = computeHashline digest s"
  have h: "length h = 8" "set h \<subseteq> set ''0123456789abcdef''"
    using d set_take_subset [of 8 "digest s"]
    unfolding h_def computeHashline_def hex_digest_def by (simp, meson order_trans)
  define raw where "raw = formatHashlineRef digest n s"
  have raw: "raw = CHR ''L'' # show_nat n @ CHR ''#'' # h"
    by (simp add: raw_def formatHashlineRef_def h_def)
  have hne: "h \<noteq> []" using h by auto
  then have "last raw \<in> set ''0123456789abcdef''" using raw h last_in_set [of h] by (simp, blast)
  then have "\<not> js_space (last raw)" by (rule low_hex_facts(3))
  moreover have "\<not> js_space (hd raw)" by (simp add: raw js_space_def)
  ultimately have trim: "js_trim raw = raw" by (intro js_trim_fixed) (auto simp: raw)
  have digits: "list_all is_digit (show_nat n)" "show_nat n \<noteq> []"
    using all_digits_show_nat [of n] by (auto simp: all_digits_def)
  have hash: "\<not> is_digit CHR ''#''" by (simp add: is_digit_def)
  have "takeWhile is_digit (show_nat n @ CHR ''#'' # h) = show_nat n"
    and "dropWhile is_digit (show_nat n @ CHR ''#'' # h) = CHR ''#'' # h"
    using digits hash by (auto simp: list_all_iff takeWhile_append dropWhile_append)
  moreover have "list_all is_hex h" using h low_hex_facts(1) by (auto simp: list_all_iff)
  ultimately have match: "match_hashline_ref raw = Some (show_nat n, h)"
    using digits h show_nat_hd [OF n(1)] hash by (simp add: match_hashline_ref_def raw Let_def)
  have "js_lower h = h" using h low_hex_facts(2) by (auto simp: js_lower_def intro: map_idI)
  moreover have "js_finite_nat n" using n by (simp add: js_finite_nat_def)
  ultimately show ?thesis
    using n trim match by (simp add: parseHashlineRef_def Let_def raw_def [symmetric] h_def)
qed

text \<open>
  The reference a read or an edit prints for a line is accepted for the unchanged file and names
  that line: printing, parsing (with white space around it) and resolving it give back the index,
  whatever the hash function, as long as it yields 40 lower-case hex digits.
\<close>

theorem printed_ref_resolves:
  assumes "hex_digest digest" and "i < length (file_lines content)" and "i < 2 ^ 53 - 1"
  shows "map_option (\<lambda>r. resolveHashlineRef digest (file_lines content) r label)
      (parseHashlineRef (formatHashlineRef digest (Suc i) (file_lines content ! i)))
    = Some (Inr i)"
  using parse_formatHashlineRef [OF assms(1), of "Suc i"] assms(2,3)
  by (simp add: resolveHashlineRef_def Let_def)

theorem printed_ref_resolves_witness:
  "map_option (\<lambda>r. resolveHashlineRef zero_digest (file_lines example_file) r ''lineRef'')
     (parseHashlineRef (formatHashlineRef zero_digest (Suc 1) (file_lines example_file ! 1)))
   = Some (Inr 1)"
proof -
  have "length (file_lines example_file) = 2" by code_simp
  moreover have "hex_digest zero_digest" by (simp add: hex_digest_def zero_digest_def)
  ultimately show ?thesis by (intro printed_ref_resolves) simp_all
qed

section \<open>The legacy edit replaces what it names\<close>

lemma js_string_index_first: "js_string_index s n = Some i \<Longrightarrow> n \<noteq> [] \<Longrightarrow> \<not> sublist n (take i s)"
proof
  assume i: "js_string_index s n = Some i" and n: "n \<noteq> []" and "sublist n (take i s)"
  then obtain a b where ab: "take i s = a @ n @ b" by (auto simp: sublist_def)
  have "length (take i s) \<le> i" by simp
  with ab n have "length a < i" by (cases n) auto
  moreover have "s = a @ n @ b @ drop i s" by (metis ab append.assoc append_take_drop_id)
  then have "prefix n (drop (length a) s)" by (metis append_eq_conv_conj prefix_def)
  ultimately show False using js_string_index_Some(3) [OF i] by blast
qed

lemma js_split_free: "sep \<noteq> [] \<Longrightarrow> p \<in> set (js_split sep s) \<Longrightarrow> \<not> sublist sep p"
proof (induction sep s rule: js_split.induct)
  case (1 sep s)
  show ?case
  proof (cases "js_string_index s sep")
    case None
    with 1(3) have "p = s" by (subst (asm) js_split.simps) simp
    with None show ?thesis by (simp add: js_string_index_None)
  next
    case (Some i)
    then have "p = take i s \<or> p \<in> set (js_split sep (drop (i + length sep) s))"
      using 1(2,3) by (subst (asm) js_split.simps) simp
    with 1(1) [OF Some 1(2) 1(2)] js_string_index_first [OF Some 1(2)] show ?thesis by blast
  qed
qed

text \<open>
  A legacy edit that is accepted replaces exactly the occurrences it counts: the text is cut at
  the \<open>k >= 1\<close> places where \<open>oldString\<close> stands, no piece between them has another occurrence, and
  the new text is the same pieces joined by \<open>newString\<close>.  Without \<open>replaceAll\<close> there is one place.
\<close>

theorem legacy_edit_exact:
  assumes "applyLegacyEdit content args = Inr (updated, k)"
  shows "\<exists>old pieces. ea_oldString args = Some old \<and> old \<noteq> [] \<and> length pieces = Suc k \<and> 1 \<le> k
    \<and> content = js_join old pieces
    \<and> updated = js_join (nullish (ea_newString args) []) pieces
    \<and> (\<forall>p\<in>set pieces. \<not> sublist old p) \<and> (ea_replaceAll args \<noteq> Some True \<longrightarrow> k = 1)"
proof -
  obtain old where old: "ea_oldString args = Some old" "old \<noteq> []"
    using assms by (auto simp: applyLegacyEdit_def nonempty_arg_def split: if_splits)
  have none: "findUnresolvedLegacyPlaceholder old = None"
    using assms old by (auto simp: applyLegacyEdit_def nonempty_arg_def Let_def split: option.splits)
  show ?thesis
  proof (cases "ea_replaceAll args = Some True")
    case True
    have k: "k = length (js_split old content) - 1" "k \<noteq> 0"
      "updated = js_join (nullish (ea_newString args) []) (js_split old content)"
      using assms old none True
      by (auto simp: applyLegacyEdit_def nonempty_arg_def Let_def split: if_splits)
    have "length (js_split old content) = Suc k" using k by (cases "js_split old content") auto
    then show ?thesis using k old True js_split_free [OF old(2)]
      by (intro exI [of _ old] exI [of _ "js_split old content"]) auto
  next
    case False
    obtain i where i: "js_string_index content old = Some i"
      using assms old none False
      by (auto simp: applyLegacyEdit_def nonempty_arg_def Let_def split: option.splits)
    define rest where "rest = drop (i + length old) content"
    have r: "js_string_index rest old = None" "k = 1"
      "updated = take i content @ nullish (ea_newString args) [] @ rest"
      using assms old none False i
      by (auto simp: applyLegacyEdit_def nonempty_arg_def Let_def rest_def split: if_splits)
    have "content = take i content @ old @ rest"
      using js_string_index_Some(2) [OF i] by (simp add: rest_def)
    moreover have "\<not> sublist old rest" using r by (simp add: js_string_index_None)
    moreover have "\<not> sublist old (take i content)" by (rule js_string_index_first [OF i old(2)])
    ultimately show ?thesis using r old False
      by (intro exI [of _ old] exI [of _ "[take i content, rest]"]) auto
  qed
qed

definition legacy_args :: edit_tool_args where
  "legacy_args = \<lparr>ea_path = ''f'', ea_oldString = Some ''b'', ea_newString = Some ''xy'',
     ea_replaceAll = Some True, ea_lineRef = None, ea_endLineRef = None, ea_operation = None,
     ea_content = None\<rparr>"

theorem legacy_edit_exact_witness:
  "\<exists>old pieces. ea_oldString legacy_args = Some old \<and> old \<noteq> [] \<and> length pieces = Suc 2 \<and> 1 \<le> (2::nat)
    \<and> ''abcb'' = js_join old pieces
    \<and> ''axycxy'' = js_join (nullish (ea_newString legacy_args) []) pieces
    \<and> (\<forall>p\<in>set pieces. \<not> sublist old p) \<and> (ea_replaceAll legacy_args \<noteq> Some True \<longrightarrow> 2 = (1::nat))"
proof -
  have "applyLegacyEdit ''abcb'' legacy_args = Inr (''axycxy'', 2)" by code_simp
  from legacy_edit_exact [OF this] show ?thesis .
qed

section \<open>A write is permitted, current and last\<close>

declare askFilePermission.simps [simp del]

lemma askFilePermission_granted:
  "askFilePermission ask p ps = (calls, None) \<Longrightarrow>
    (\<forall>q\<in>set ps. ask q = None) \<and> calls = map (\<lambda>q. AskPermission q p) ps"
  by (induction ps arbitrary: calls)
    (auto simp: askFilePermission.simps split: option.splits prod.splits)

lemma askFilePermission_no_write:
  "askFilePermission ask p ps = (calls, r) \<Longrightarrow> WriteFile q c \<notin> set calls"
  by (induction ps arbitrary: calls)
    (auto simp: askFilePermission.simps split: option.splits prod.splits)

lemma planned_edit_hashline:
  "planned_edit digest d content args = Inr (c, answer) \<Longrightarrow> hashline_mode args \<Longrightarrow>
    \<exists>operation i j. edit_target digest (file_lines content) args operation i j"
  by (auto simp: planned_edit_def Let_def split: sum.splits elim!: applyHashlineEdit_target)

text \<open>The calls of the edit tool, without the answers.\<close>

lemma edit_execute_calls:
  "fst (hashline_edit_execute digest np ctx ask readFile writeFile args) =
    (case resolveToolPath np (ea_path args) ctx of
       Inl e \<Rightarrow> []
     | Inr a \<Rightarrow>
         (case askFilePermission ask a [''read'', ''edit''] of
            (calls, Some refusal) \<Rightarrow> calls
          | (calls, None) \<Rightarrow>
              (case readFile a of
                 Inl message \<Rightarrow> calls @ [ReadFile a]
               | Inr content \<Rightarrow>
                   (case planned_edit digest (toDisplayPath np a ctx) content args of
                      Inl message \<Rightarrow> calls @ [ReadFile a]
                    | Inr (u, answer) \<Rightarrow>
                        if u = content then calls @ [ReadFile a]
                        else calls @ [ReadFile a, WriteFile a u]))))"
  unfolding hashline_edit_execute_def
  by (simp split: sum.split prod.split option.split)

lemma edit_execute_writes:
  assumes "WriteFile p c \<in> set (fst (hashline_edit_execute digest np ctx ask readFile writeFile args))"
  obtains content answer where "resolveToolPath np (ea_path args) ctx = Inr p"
    "ask ''read'' = None" "ask ''edit'' = None" "readFile p = Inr content"
    "planned_edit digest (toDisplayPath np p ctx) content args = Inr (c, answer)" "c \<noteq> content"
    "fst (hashline_edit_execute digest np ctx ask readFile writeFile args)
      = [AskPermission ''read'' p, AskPermission ''edit'' p, ReadFile p, WriteFile p c]"
proof -
  note run = assms [unfolded edit_execute_calls]
  obtain a where a: "resolveToolPath np (ea_path args) ctx = Inr a"
    using run by (cases "resolveToolPath np (ea_path args) ctx") auto
  obtain calls r where q: "askFilePermission ask a [''read'', ''edit''] = (calls, r)" by force
  have nw: "WriteFile p c \<notin> set calls" using askFilePermission_no_write [OF q] .
  have r: "r = None" using run nw by (cases r) (auto simp: a q)
  have g: "ask ''read'' = None" "ask ''edit'' = None"
    "calls = [AskPermission ''read'' a, AskPermission ''edit'' a]"
    using askFilePermission_granted [OF q [unfolded r]] by auto
  obtain content where co: "readFile a = Inr content"
    using run nw by (cases "readFile a") (auto simp: a q r)
  obtain u answer where u: "planned_edit digest (toDisplayPath np a ctx) content args = Inr (u, answer)"
    using run nw
    by (cases "planned_edit digest (toDisplayPath np a ctx) content args") (auto simp: a q r co)
  have ne: "u \<noteq> content" using run nw by (auto simp: a q r co u)
  have all: "fst (hashline_edit_execute digest np ctx ask readFile writeFile args)
      = calls @ [ReadFile a, WriteFile a u]"
    unfolding edit_execute_calls using ne by (simp add: a q r co u)
  with assms nw have "p = a" "c = u" by auto
  with that [of content answer] a g co u ne all show thesis by simp
qed


lemma example_edit_args:
  "ea_path example_edit = ''f''" "hashline_mode example_edit"
  "js_trim ''f'' = ''f''" "js_starts_with ''f'' ''/'' = False"
  by code_simp+

lemma example_text: "''ab'' @ [CR, LF] @ ''new'' @ [CR, LF] @ ''cd'' @ [CR, LF] \<noteq> example_file"
  by code_simp

definition example_paths :: node_path where
  "example_paths = \<lparr>np_normalize = (\<lambda>p. p), np_isAbsolute = (\<lambda>p. js_starts_with p ''/''),
     np_resolve = (\<lambda>base p. base @ ''/'' @ p), np_relative = (\<lambda>root p. drop (Suc (length root)) p)\<rparr>"


end
