(* ===== verification/SnapshotMerge.thy ===== *)
theory SnapshotMerge
  imports UsageLedger AccountIdentity
begin

text \<open>
  The three-way save of the account file (\<open>lib/storage/snapshot-merge.ts\<close>): what a process loaded
  (\<open>base\<close>), what is on disk now and what it wants to save (\<open>local\<close>) are merged under the file lock.
  Accounts and workspaces are JSON objects; a property with the value \<open>undefined\<close> is a property that
  is absent, which is what \<open>JSON.stringify\<close>, the test \<open>equal\<close> and the saved file make of it.  The
  exception \<open>ESTALE\<close> is the error value of the result.  SHA-256 is the parameter \<open>sha256\<close>.
\<close>

section \<open>Merging two edits of a JSON value\<close>

datatype merge_error = StaleStorage

text \<open>\<open>JSON.stringify\<close> writes a number that is not finite as \<open>null\<close>; otherwise two values have the
  same text exactly if they are the same, with the same order of keys.\<close>

primrec json_text :: "json \<Rightarrow> json" where
  "json_text JNull = JNull"
| "json_text (JBool b) = JBool b"
| "json_text (JNum x) = (case x of Finite q \<Rightarrow> JNum (Finite q) | NonFinite \<Rightarrow> JNull)"
| "json_text (JStr s) = JStr s"
| "json_text (JArr xs) = JArr (map json_text xs)"
| "json_text (JObj fs) = JObj (map (map_prod id json_text) fs)"

definition json_equal :: "json option \<Rightarrow> json option \<Rightarrow> bool" where
  "json_equal a b \<longleftrightarrow> map_option json_text a = map_option json_text b"

definition json_prop :: "json option \<Rightarrow> string \<Rightarrow> json option" where
  "json_prop j k = (case j of None \<Rightarrow> None | Some v \<Rightarrow> json_field v k)"

definition json_keys :: "json option \<Rightarrow> string list" where
  "json_keys j = (case j of Some (JObj fs) \<Rightarrow> map fst fs | _ \<Rightarrow> [])"

text \<open>The elements of a \<open>Set\<close> filled in this order.\<close>

definition in_order :: "'a list \<Rightarrow> 'a list" where
  "in_order xs = rev (remdups (rev xs))"

lemma set_in_order [simp]: "set (in_order xs) = set xs"
  by (simp add: in_order_def)

lemma distinct_in_order [simp]: "distinct (in_order xs)"
  by (simp add: in_order_def)

lemma json_field_size: "json_field j k = Some v \<Longrightarrow> size v < size j"
proof (cases j)
  case (JObj fs)
  assume "json_field j k = Some v"
  then have "(k, v) \<in> set fs" using JObj by (simp add: json_field_def map_of_SomeD)
  then have "size v < Suc (size_list (size_prod (\<lambda>_. 0) size) fs)"
    by (induction fs) auto
  then show ?thesis using JObj by simp
qed (auto simp: json_field_def)

function mergeValue :: "json option \<Rightarrow> json option \<Rightarrow> json option \<Rightarrow> merge_error + json option" where
  "mergeValue base disk lcl =
     (if json_equal base lcl \<or> json_equal disk lcl then Inr disk
      else if json_equal base disk then Inr lcl
      else
        let base' = (if base = None \<and> isRecord disk \<and> isRecord lcl then Some (JObj []) else base)
        in if isRecord base' \<and> isRecord disk \<and> isRecord lcl
           then
             let keys = in_order (json_keys base' @ json_keys disk @ json_keys lcl);
                 values = map (\<lambda>k. (k, mergeValue (json_prop base' k) (json_prop disk k)
                                          (json_prop lcl k))) keys
             in if list_ex (\<lambda>(k, v). v = Inl StaleStorage) values then Inl StaleStorage
                else Inr (Some (JObj (List.map_filter
                  (\<lambda>(k, v). case v of Inr (Some x) \<Rightarrow> Some (k, x) | _ \<Rightarrow> None) values)))
           else Inl StaleStorage)"
  by pat_completeness auto
termination
proof (relation "measure (\<lambda>(b, d, l). case d of None \<Rightarrow> 0 | Some j \<Rightarrow> Suc (size j))", goal_cases)
  case (2 base disk lcl base' keys k)
  then obtain fs where "disk = Some (JObj fs)"
    by (auto simp: isRecord_def split: option.splits json.splits)
  then show ?case
    using json_field_size [of "JObj fs" k] by (auto simp: json_prop_def split: option.splits)
qed simp

declare mergeValue.simps [simp del]

section \<open>Rows\<close>

definition json_put :: "string \<Rightarrow> json option \<Rightarrow> json \<Rightarrow> json" where
  "json_put k v j =
     (case j of
        JObj fs \<Rightarrow> JObj (case v of None \<Rightarrow> jm_delete k fs | Some x \<Rightarrow> jm_set k x fs)
      | _ \<Rightarrow> j)"

definition row_string :: "json \<Rightarrow> string \<Rightarrow> string option" where
  "row_string row k = json_string (json_field row k)"

definition row_number :: "json \<Rightarrow> string \<Rightarrow> jsnum option" where
  "row_number row k = json_finite (json_field row k)"

definition row_list :: "json \<Rightarrow> string \<Rightarrow> json list option" where
  "row_list row k = (case json_field row k of Some (JArr xs) \<Rightarrow> Some xs | _ \<Rightarrow> None)"

definition json_number :: "jsnum option \<Rightarrow> json option" where
  "json_number x = map_option (\<lambda>q. JNum (Finite q)) x"

text \<open>\<open>xs[i]\<close> for a number, and \<open>findIndex\<close> with \<open>None\<close> for -1.\<close>

definition js_element :: "'a list \<Rightarrow> jsnum \<Rightarrow> 'a option" where
  "js_element xs i = (if 0 \<le> i \<and> is_integer i \<and> nat \<lfloor>i\<rfloor> < length xs then Some (xs ! nat \<lfloor>i\<rfloor>) else None)"

fun js_find_index :: "('a \<Rightarrow> bool) \<Rightarrow> 'a list \<Rightarrow> nat option" where
  "js_find_index p [] = None"
| "js_find_index p (x # xs) = (if p x then Some 0 else map_option Suc (js_find_index p xs))"

lemma js_find_index_Some: "js_find_index p xs = Some i \<Longrightarrow> i < length xs \<and> p (xs ! i) \<and> (\<forall>j<i. \<not> p (xs ! j))"
proof (induction xs arbitrary: i)
  case (Cons x xs)
  then show ?case by (cases i) (auto split: if_splits simp: nth_Cons' less_Suc_eq_0_disj)
qed simp

lemma js_find_index_None: "js_find_index p xs = None \<longleftrightarrow> (\<forall>x\<in>set xs. \<not> p x)"
  by (induction xs) auto

section \<open>Workspaces\<close>

definition byId :: "json list option \<Rightarrow> (string option, json) jsmap" where
  "byId rows = fold (\<lambda>row m. jm_set (row_string row ''id'') row m) (nullish rows []) []"

definition workspace_state :: "json option \<Rightarrow> json option \<times> json option" where
  "workspace_state row = (json_prop row ''enabled'', json_prop row ''disabledAt'')"

definition same_state :: "json option \<Rightarrow> json option \<Rightarrow> bool" where
  "same_state a b \<longleftrightarrow> json_equal (fst (workspace_state a)) (fst (workspace_state b))
     \<and> json_equal (snd (workspace_state a)) (snd (workspace_state b))"

definition row_enabled :: "json \<Rightarrow> bool" where
  "row_enabled row \<longleftrightarrow> json_field row ''enabled'' \<noteq> Some (JBool False)"

definition state_source :: "json option \<Rightarrow> json \<Rightarrow> json \<Rightarrow> json" where
  "state_source b d l =
     (if same_state b (Some l) then d
      else if same_state b (Some d) then l
      else if row_enabled d then d
      else if row_enabled l then l
      else if json_field d ''disabledAt'' = None then d
      else if json_field l ''disabledAt'' = None then l
      else if (case (row_number d ''disabledAt'', row_number l ''disabledAt'') of
                 (Some x, Some y) \<Rightarrow> y \<le> x | _ \<Rightarrow> False) then d
      else l)"

definition pick_state :: "json \<Rightarrow> json \<Rightarrow> json" where
  "pick_state src row =
     json_put ''disabledAt'' (json_field src ''disabledAt'')
       (json_put ''enabled'' (json_field src ''enabled'') row)"

fun merge_workspace_rows ::
    "(string option, json) jsmap \<Rightarrow> (string option, json) jsmap \<Rightarrow> (string option, json) jsmap
     \<Rightarrow> string option list \<Rightarrow> merge_error + json list" where
  "merge_workspace_rows before onDisk next [] = Inr []"
| "merge_workspace_rows before onDisk next (i # ids) =
     (let b = jm_get before i; d = jm_get onDisk i; l = jm_get next i;
          merged =
            (case (d, l) of
               (Some dr, Some lr) \<Rightarrow>
                 let src = state_source b dr lr
                 in mergeValue (map_option (pick_state src) b) (Some (pick_state src dr))
                      (Some (pick_state src lr))
             | (Some dr, None) \<Rightarrow> Inr (if b = None then Some dr else None)
             | (None, Some lr) \<Rightarrow> Inr (if b = None then Some lr else None)
             | (None, None) \<Rightarrow> Inr None)
      in case merged of
           Inl e \<Rightarrow> Inl e
         | Inr row \<Rightarrow>
             (case merge_workspace_rows before onDisk next ids of
                Inl e \<Rightarrow> Inl e
              | Inr rows \<Rightarrow> Inr ((case row of Some r \<Rightarrow> [r] | None \<Rightarrow> []) @ rows)))"

definition currentId :: "json \<Rightarrow> string option" where
  "currentId row =
     (case js_element (nullish (row_list row ''workspaces'') [])
             (nullish (row_number row ''currentWorkspaceIndex'') 0) of
        None \<Rightarrow> None | Some w \<Rightarrow> row_string w ''id'')"

definition current_workspace :: "json list \<Rightarrow> string option \<Rightarrow> nat" where
  "current_workspace workspaces chosen =
     (case js_find_index (\<lambda>row. row_string row ''id'' = chosen) workspaces of
        Some i \<Rightarrow> i
      | None \<Rightarrow> (case js_find_index row_enabled workspaces of Some i \<Rightarrow> i | None \<Rightarrow> 0))"

definition mergeWorkspaces ::
    "json \<Rightarrow> json \<Rightarrow> json \<Rightarrow> merge_error + json list \<times> jsnum option" where
  "mergeWorkspaces base disk lcl =
     (let before = byId (row_list base ''workspaces'');
          onDisk = byId (row_list disk ''workspaces'');
          next = byId (row_list lcl ''workspaces'');
          ids = map fst onDisk
            @ filter (\<lambda>i. \<not> jm_has onDisk i \<and> \<not> jm_has before i) (map fst next)
      in case merge_workspace_rows before onDisk next ids of
           Inl e \<Rightarrow> Inl e
         | Inr workspaces \<Rightarrow>
             let chosen = (if currentId lcl \<noteq> currentId base then currentId lcl else currentId disk);
                 index = current_workspace workspaces chosen;
                 untracked = list_all (\<lambda>row. json_field row ''currentWorkspaceIndex'' = None)
                   [base, disk, lcl]
             in Inr (workspaces, if untracked \<and> index = 0 then None else Some (of_nat index)))"

section \<open>Cooldowns and limits\<close>

record cooldown_row =
  cd_until :: "jsnum option"
  cd_reason :: "string option"
  cd_token :: "string option"

definition cooldown_of :: "json \<Rightarrow> cooldown_row" where
  "cooldown_of row = \<lparr>cd_until = row_number row ''coolingDownUntil'',
     cd_reason = row_string row ''cooldownReason'', cd_token = row_string row ''refreshToken''\<rparr>"

definition current_cooldown :: "string option \<Rightarrow> cooldown_row \<Rightarrow> cooldown_row" where
  "current_cooldown keptToken row =
     (if cd_reason row = Some ''auth-failure'' \<and> cd_token row \<noteq> keptToken
      then row\<lparr>cd_until := None, cd_reason := None\<rparr> else row)"

definition mergeAccountCooldown ::
    "cooldown_row \<Rightarrow> cooldown_row \<Rightarrow> cooldown_row \<Rightarrow> jsnum option \<times> string option" where
  "mergeAccountCooldown base disk0 lcl0 =
     (let keptToken = (if cd_token lcl0 = cd_token base then cd_token disk0 else cd_token lcl0);
          disk = current_cooldown keptToken disk0;
          lcl = current_cooldown keptToken lcl0;
          cleared = (cd_until base \<noteq> None
            \<and> (cd_until disk = None \<and> (cd_until lcl = None \<or> cd_until lcl = cd_until base)
               \<or> cd_until lcl = None \<and> cd_until disk = cd_until base));
          cooldown = (if nullish (cd_until lcl) 0 \<le> nullish (cd_until disk) 0 then disk else lcl)
      in (if cleared then None else cd_until cooldown,
          if cleared then None else cd_reason cooldown))"

text \<open>One deadline: \<open>before\<close> as loaded, \<open>a\<close> on disk, \<open>b\<close> here.\<close>

definition merge_limit :: "jsnum option \<Rightarrow> jsnum option \<Rightarrow> jsnum option \<Rightarrow> jsnum option" where
  "merge_limit before a b =
     (let clear = (before \<noteq> None
            \<and> (a = None \<and> b = before \<or> b = None \<and> a = before \<or> a = None \<and> b = None))
      in if clear then None
         else if a = before then b
         else if b = before then a
         else Some (max (nullish a 0) (nullish b 0)))"

definition limit_at :: "json \<Rightarrow> string \<Rightarrow> jsnum option" where
  "limit_at row k = json_finite (json_prop (json_field row ''rateLimitResetTimes'') k)"

definition merge_limits :: "json \<Rightarrow> json \<Rightarrow> json \<Rightarrow> (string \<times> json) list" where
  "merge_limits base disk lcl =
     List.map_filter
       (\<lambda>k. map_option (\<lambda>v. (k, JNum (Finite v)))
              (merge_limit (limit_at base k) (limit_at disk k) (limit_at lcl k)))
       (in_order (json_keys (json_field disk ''rateLimitResetTimes'')
          @ json_keys (json_field lcl ''rateLimitResetTimes'')))"

definition nullish_json :: "json option \<Rightarrow> json option \<Rightarrow> json option" where
  "nullish_json a b = (case a of None \<Rightarrow> b | Some JNull \<Rightarrow> b | Some v \<Rightarrow> Some v)"

definition normalized_row :: "json \<Rightarrow> json" where
  "normalized_row row = json_put ''enabled'' (if row_enabled row then None else Some (JBool False)) row"

text \<open>The object \<open>runtime\<close> spread over a row: the merged observations of both sides.\<close>

definition with_runtime ::
    "(string \<times> json) list \<Rightarrow> jsnum option \<times> string option \<Rightarrow> json option
     \<Rightarrow> (json list \<times> jsnum option) option \<Rightarrow> json \<Rightarrow> json" where
  "with_runtime limits cooldown switchReason workspaces row =
     (let r1 = json_put ''rateLimitResetTimes'' (if limits = [] then None else Some (JObj limits)) row;
          r2 = json_put ''coolingDownUntil'' (json_number (fst cooldown)) r1;
          r3 = json_put ''cooldownReason'' (map_option JStr (snd cooldown)) r2;
          r4 = json_put ''lastSwitchReason'' switchReason r3
      in case workspaces of
           None \<Rightarrow> r4
         | Some (ws, index) \<Rightarrow>
             json_put ''currentWorkspaceIndex'' (json_number index)
               (json_put ''workspaces'' (Some (JArr ws)) r4))"

definition mergeRuntimeAccount :: "json \<Rightarrow> json \<Rightarrow> json \<Rightarrow> merge_error + json" where
  "mergeRuntimeAccount base disk lcl =
     (let limits = merge_limits base disk lcl;
          cooldown = mergeAccountCooldown (cooldown_of base) (cooldown_of disk) (cooldown_of lcl);
          switchReason = nullish_json (json_field lcl ''lastSwitchReason'')
            (json_field disk ''lastSwitchReason'')
      in case (if row_list disk ''workspaces'' \<noteq> None \<or> row_list lcl ''workspaces'' \<noteq> None
               then map_sum id Some (mergeWorkspaces base disk lcl) else Inr None) of
           Inl e \<Rightarrow> Inl e
         | Inr workspaces \<Rightarrow>
             let runtime = with_runtime limits cooldown switchReason workspaces
             in map_sum id (\<lambda>r. nullish r JNull)
                  (mergeValue (Some (normalized_row base))
                    (Some (runtime (normalized_row disk))) (Some (runtime (normalized_row lcl)))))"

section \<open>The account file\<close>

text \<open>\<open>sn_fields\<close>: what the file holds besides the accounts, the pointers and the restore marks.\<close>

record account_snapshot =
  sn_fields :: "(string \<times> json) list"
  sn_accounts :: "json list"
  sn_activeIndex :: jsnum
  sn_byFamily :: "(string \<times> jsnum) list option"
  sn_pinned :: "jsnum option"
  sn_restoreReason :: "string option"

definition empty_snapshot :: account_snapshot where
  "empty_snapshot = \<lparr>sn_fields = [(''version'', JNum (Finite 3))], sn_accounts = [],
     sn_activeIndex = 0, sn_byFamily = None, sn_pinned = None, sn_restoreReason = None\<rparr>"

definition record_id :: "json \<Rightarrow> string option" where
  "record_id row = (case row_string row ''recordId'' of Some s \<Rightarrow> if s = [] then None else Some s
     | None \<Rightarrow> None)"

definition row_key :: "(string \<Rightarrow> string) \<Rightarrow> json \<Rightarrow> string option" where
  "row_key sha256 row = getAccountIdentityKey sha256 (row_string row ''accountId'')
     (row_string row ''email'') (row_string row ''refreshToken'')"

text \<open>The record ids that occur with an identity key in any of the three files.\<close>

definition alias_ids :: "(string \<Rightarrow> string) \<Rightarrow> json list \<Rightarrow> string \<Rightarrow> string list" where
  "alias_ids sha256 rows key =
     in_order (List.map_filter (\<lambda>row. if row_key sha256 row = Some key then record_id row else None) rows)"

definition row_identity :: "(string \<Rightarrow> string) \<Rightarrow> json list \<Rightarrow> json \<Rightarrow> string option" where
  "row_identity sha256 rows row =
     (case record_id row of
        Some i \<Rightarrow> Some i
      | None \<Rightarrow>
          (case row_key sha256 row of
             None \<Rightarrow> None
           | Some key \<Rightarrow> (case alias_ids sha256 rows key of [i] \<Rightarrow> Some i | _ \<Rightarrow> Some key)))"

fun index_rows ::
    "(json \<Rightarrow> string option) \<Rightarrow> json list \<Rightarrow> (string, json) jsmap
     \<Rightarrow> merge_error + (string, json) jsmap" where
  "index_rows identity [] m = Inr m"
| "index_rows identity (row # rows) m =
     (case identity row of
        None \<Rightarrow> Inl StaleStorage
      | Some key \<Rightarrow>
          if jm_has m key then Inl StaleStorage
          else index_rows identity rows (jm_set key row m))"

definition later_use :: "json \<Rightarrow> json \<Rightarrow> json" where
  "later_use row next =
     JNum (case (row_number row ''lastUsed'', row_number next ''lastUsed'') of
             (Some x, Some y) \<Rightarrow> Finite (max x y) | _ \<Rightarrow> NonFinite)"

definition merge_row ::
    "json option \<Rightarrow> json option \<Rightarrow> json \<Rightarrow> merge_error + json option" where
  "merge_row prior next row =
     (case (prior, next) of
        (Some p, None) \<Rightarrow> Inr None
      | (None, _) \<Rightarrow>
          if next \<noteq> None \<and> \<not> json_equal (Some row) next then Inl StaleStorage else Inr (Some row)
      | (Some p, Some n) \<Rightarrow>
          let lastUsed = Some (later_use row n)
          in map_sum id Some (mergeRuntimeAccount p (json_put ''lastUsed'' lastUsed row)
               (json_put ''lastUsed'' lastUsed n)))"

fun merge_rows ::
    "(string, json) jsmap \<Rightarrow> (string, json) jsmap \<Rightarrow> (string, json) jsmap
     \<Rightarrow> merge_error + json list" where
  "merge_rows old proposed [] = Inr []"
| "merge_rows old proposed ((key, row) # disk) =
     (case merge_row (jm_get old key) (jm_get proposed key) row of
        Inl e \<Rightarrow> Inl e
      | Inr merged \<Rightarrow>
          (case merge_rows old proposed disk of
             Inl e \<Rightarrow> Inl e
           | Inr rows \<Rightarrow> Inr ((case merged of Some r \<Rightarrow> [r] | None \<Rightarrow> []) @ rows)))"

definition pointer :: "(json \<Rightarrow> string option) \<Rightarrow> account_snapshot \<Rightarrow> jsnum option \<Rightarrow> string option" where
  "pointer identity storage v =
     (case v of None \<Rightarrow> None
      | Some i \<Rightarrow> (case js_element (sn_accounts storage) i of None \<Rightarrow> None | Some row \<Rightarrow> identity row))"

text \<open>The account a pointer is to name, and where it is; \<open>None\<close> stands for \<open>undefined\<close> and for -1,
  which the callers treat alike.\<close>

definition pointed_id ::
    "(json \<Rightarrow> string option) \<Rightarrow> account_snapshot \<Rightarrow> account_snapshot \<Rightarrow> account_snapshot
     \<Rightarrow> jsnum option \<Rightarrow> jsnum option \<Rightarrow> jsnum option \<Rightarrow> string option" where
  "pointed_id identity base current lcl before onDisk next =
     (let oldId = pointer identity base before; diskId = pointer identity current onDisk;
          localId = pointer identity lcl next
      in if localId \<noteq> oldId then localId else diskId)"

definition position_of :: "(json \<Rightarrow> string option) \<Rightarrow> json list \<Rightarrow> string option \<Rightarrow> nat option" where
  "position_of identity accounts i =
     (if i = None then None else js_find_index (\<lambda>row. identity row = i) accounts)"

definition family_index :: "account_snapshot \<Rightarrow> string \<Rightarrow> jsnum option" where
  "family_index s f = (case sn_byFamily s of None \<Rightarrow> None | Some m \<Rightarrow> map_of m f)"

definition merge_snapshots ::
    "(string \<Rightarrow> string) \<Rightarrow> account_snapshot \<Rightarrow> account_snapshot \<Rightarrow> account_snapshot
     \<Rightarrow> merge_error + account_snapshot" where
  "merge_snapshots sha256 base current lcl =
     (let identity = row_identity sha256 (sn_accounts base @ sn_accounts current @ sn_accounts lcl)
      in case (index_rows identity (sn_accounts base) [], index_rows identity (sn_accounts current) [],
               index_rows identity (sn_accounts lcl) []) of
           (Inr old, Inr disk, Inr proposed) \<Rightarrow>
             (case merge_rows old proposed disk of
                Inl e \<Rightarrow> Inl e
              | Inr merged \<Rightarrow>
                  let accounts = merged
                        @ map snd (filter (\<lambda>(k, row). \<not> jm_has old k \<and> \<not> jm_has disk k) proposed);
                      pick = (\<lambda>before onDisk next. position_of identity accounts
                        (pointed_id identity base current lcl before onDisk next));
                      index = (\<lambda>i. case i of Some n \<Rightarrow> of_nat n | None \<Rightarrow> 0);
                      families = in_order (concat (map (\<lambda>s. map fst (nullish (sn_byFamily s) []))
                        [base, current, lcl]))
                  in (case mergeValue (Some (JObj (sn_fields base))) (Some (JObj (sn_fields current)))
                             (Some (JObj (sn_fields lcl))) of
                        Inr (Some (JObj merged_fields)) \<Rightarrow>
                          Inr \<lparr>sn_fields = merged_fields, sn_accounts = accounts,
                               sn_activeIndex = index (pick (Some (sn_activeIndex base))
                                 (Some (sn_activeIndex current)) (Some (sn_activeIndex lcl))),
                               sn_byFamily = Some (map (\<lambda>f. (f, index (pick (family_index base f)
                                 (family_index current f) (family_index lcl f)))) families),
                               sn_pinned = map_option of_nat
                                 (pick (sn_pinned base) (sn_pinned current) (sn_pinned lcl)),
                               sn_restoreReason = None\<rparr>
                      | _ \<Rightarrow> Inl StaleStorage))
         | _ \<Rightarrow> Inl StaleStorage)"

definition mergeAccountSnapshot ::
    "(string \<Rightarrow> string) \<Rightarrow> account_snapshot option \<Rightarrow> account_snapshot option \<Rightarrow> account_snapshot
     \<Rightarrow> merge_error + account_snapshot" where
  "mergeAccountSnapshot sha256 base current lcl =
     (if base = None \<and> current = None then Inr lcl
      else
        let b = nullish base empty_snapshot;
            current' = (if current = None \<and> sn_accounts b = []
                           \<and> sn_restoreReason b = Some ''missing-storage''
                        then Some empty_snapshot else current)
        in case current' of None \<Rightarrow> Inl StaleStorage | Some c \<Rightarrow> merge_snapshots sha256 b c lcl)"

section \<open>Saving observations only\<close>

definition same_account :: "(string \<Rightarrow> string) \<Rightarrow> json \<Rightarrow> json \<Rightarrow> bool" where
  "same_account sha256 a b \<longleftrightarrow>
     (if record_id a \<noteq> None \<and> record_id b \<noteq> None then record_id a = record_id b
      else row_key sha256 a = row_key sha256 b)"

definition observe_workspace :: "json list option \<Rightarrow> json \<Rightarrow> json" where
  "observe_workspace next w =
     (case List.find (\<lambda>row. json_field row ''id'' = json_field w ''id'') (nullish next []) of
        None \<Rightarrow> w
      | Some updated \<Rightarrow> pick_state updated w)"

definition copy_field :: "json \<Rightarrow> string \<Rightarrow> json \<Rightarrow> json" where
  "copy_field next k row = json_put k (json_field next k) row"

definition observe_account :: "json \<Rightarrow> json \<Rightarrow> json" where
  "observe_account next prior =
     (let r1 = json_put ''lastUsed'' (Some (later_use prior next)) prior;
          r2 = fold (copy_field next)
            [''rateLimitResetTimes'', ''coolingDownUntil'', ''cooldownReason'', ''lastSwitchReason''] r1
      in case row_list prior ''workspaces'' of
           None \<Rightarrow> r2
         | Some ws \<Rightarrow>
             json_put ''workspaces''
               (Some (JArr (map (observe_workspace (row_list next ''workspaces'')) ws))) r2)"

definition mergeAccountRuntimeObservations ::
    "(string \<Rightarrow> string) \<Rightarrow> account_snapshot \<Rightarrow> account_snapshot \<Rightarrow> account_snapshot
     \<Rightarrow> merge_error + account_snapshot" where
  "mergeAccountRuntimeObservations sha256 base current lcl =
     mergeAccountSnapshot sha256 (Some base) (Some current)
       (base\<lparr>sn_accounts := map (\<lambda>prior.
          case List.find (same_account sha256 prior) (sn_accounts lcl) of
            None \<Rightarrow> prior | Some next \<Rightarrow> observe_account next prior) (sn_accounts base)\<rparr>)"

end
