(* ===== verification/SnapshotResults.thy ===== *)
theory SnapshotResults
  imports SnapshotMerge
begin

text \<open>
  What a three-way save keeps (\<open>SnapshotMerge\<close>): the merge is field by field, so an edit of one side
  survives; the inventory, the pointers and the deadlines of the result are stated over the record
  ids of the accounts.
\<close>

section \<open>The merge is field by field\<close>

lemma json_equal_refl [simp]: "json_equal a a"
  by (simp add: json_equal_def)

lemma json_equal_sym: "json_equal a b \<Longrightarrow> json_equal b a"
  by (simp add: json_equal_def)

lemma json_equal_trans: "json_equal a b \<Longrightarrow> json_equal b c \<Longrightarrow> json_equal a c"
  by (simp add: json_equal_def)

lemma json_field_text: "json_field (json_text j) k = map_option json_text (json_field j k)"
proof (cases j)
  case (JObj fs)
  have "map_of (map (map_prod id json_text) fs) k = map_option json_text (map_of fs k)"
    by (induction fs) auto
  then show ?thesis using JObj by (simp add: json_field_def)
qed (auto simp: json_field_def split: jsval.splits)

lemma json_equal_field: "json_equal a b \<Longrightarrow> json_equal (json_prop a k) (json_prop b k)"
proof -
  have f: "map_option json_text (json_prop x k) = json_prop (map_option json_text x) k" for x
    by (cases x) (simp_all add: json_prop_def json_field_text)
  show "json_equal a b \<Longrightarrow> json_equal (json_prop a k) (json_prop b k)"
    by (simp add: json_equal_def f)
qed

lemma json_equal_string:
  assumes "json_equal a (Some (JStr s))"
  shows "a = Some (JStr s)"
proof -
  obtain v where v: "a = Some v" "json_text v = JStr s"
    using assms by (auto simp: json_equal_def)
  then show ?thesis by (cases v) (auto split: jsval.splits)
qed

lemma map_of_merged:
  "map_of (List.map_filter (\<lambda>(k, v). case v of Inr (Some x) \<Rightarrow> Some (k, x) | _ \<Rightarrow> None)
      (map (\<lambda>k. (k, g k)) ks)) k
   = (if k \<in> set ks then (case g k of Inr v \<Rightarrow> v | Inl e \<Rightarrow> None) else None)"
  by (induction ks) (auto simp: List.map_filter_def split: sum.splits option.splits)

lemma json_prop_absent: "k \<notin> set (json_keys j) \<Longrightarrow> json_prop j k = None"
  by (cases j) (auto simp: json_prop_def json_keys_def json_field_def map_of_eq_None_iff
      split: json.splits)

lemma isRecord_Some: "isRecord j \<longleftrightarrow> (\<exists>fs. j = Some (JObj fs))"
  by (auto simp: isRecord_def split: option.splits json.splits)

lemma mergeValue_unchanged:
  "json_equal base lcl \<Longrightarrow> mergeValue base disk lcl = Inr disk"
  "json_equal disk lcl \<Longrightarrow> mergeValue base disk lcl = Inr disk"
  by (simp_all add: mergeValue.simps)

lemma mergeValue_disk_unchanged:
  "json_equal base disk \<Longrightarrow> mergeValue base disk lcl = Inr v \<Longrightarrow> json_equal v lcl"
  by (auto simp: mergeValue.simps split: if_splits intro: json_equal_trans json_equal_sym)

text \<open>The record case: each field of the result is the merge of the fields.\<close>

definition field_merges ::
    "json option \<Rightarrow> json option \<Rightarrow> json option \<Rightarrow> (string \<times> (merge_error + json option)) list" where
  "field_merges base disk lcl =
     map (\<lambda>k. (k, mergeValue (json_prop base k) (json_prop disk k) (json_prop lcl k)))
       (in_order (json_keys base @ json_keys disk @ json_keys lcl))"

lemma mergeValue_record:
  assumes "\<not> json_equal base lcl" "\<not> json_equal disk lcl" "\<not> json_equal base disk"
    and rec: "isRecord disk" "isRecord lcl" and b: "isRecord base"
  shows "mergeValue base disk lcl =
    (if list_ex (\<lambda>(k, v). v = Inl StaleStorage) (field_merges base disk lcl) then Inl StaleStorage
     else Inr (Some (JObj (List.map_filter
       (\<lambda>(k, v). case v of Inr (Some x) \<Rightarrow> Some (k, x) | _ \<Rightarrow> None) (field_merges base disk lcl)))))"
proof -
  obtain fs where "base = Some (JObj fs)" using b by (auto simp: isRecord_Some)
  with assms show ?thesis
    by (subst mergeValue.simps) (simp add: Let_def field_merges_def)
qed

lemma mergeValue_record_None:
  assumes "\<not> json_equal None lcl" "\<not> json_equal disk lcl" "\<not> json_equal None disk"
    and rec: "isRecord disk" "isRecord lcl"
  shows "mergeValue None disk lcl =
    (if list_ex (\<lambda>(k, v). v = Inl StaleStorage) (field_merges (Some (JObj [])) disk lcl)
     then Inl StaleStorage
     else Inr (Some (JObj (List.map_filter
       (\<lambda>(k, v). case v of Inr (Some x) \<Rightarrow> Some (k, x) | _ \<Rightarrow> None)
       (field_merges (Some (JObj [])) disk lcl)))))"
proof -
  have "isRecord (Some (JObj []))" by (simp add: isRecord_def)
  with assms show ?thesis
    by (subst mergeValue.simps) (simp add: Let_def field_merges_def)
qed

lemma field_merges_result:
  assumes "\<not> list_ex (\<lambda>(k, v). v = Inl StaleStorage) (field_merges base disk lcl)"
    and "isRecord disk" "isRecord lcl" "isRecord base"
  shows "mergeValue (json_prop base k) (json_prop disk k) (json_prop lcl k)
    = Inr (json_prop (Some (JObj (List.map_filter
       (\<lambda>(k, v). case v of Inr (Some x) \<Rightarrow> Some (k, x) | _ \<Rightarrow> None) (field_merges base disk lcl)))) k)"
proof -
  define ks where "ks = in_order (json_keys base @ json_keys disk @ json_keys lcl)"
  define g where "g = (\<lambda>k. mergeValue (json_prop base k) (json_prop disk k) (json_prop lcl k))"
  have fm: "field_merges base disk lcl = map (\<lambda>k. (k, g k)) ks"
    by (simp add: field_merges_def g_def ks_def)
  show ?thesis
  proof (cases "k \<in> set ks")
    case True
    with assms(1) have "g k \<noteq> Inl StaleStorage" by (auto simp: list_ex_iff fm)
    then obtain v where v: "g k = Inr v" by (cases "g k") (auto intro: merge_error.exhaust)
    then show ?thesis
      using True unfolding fm g_def [symmetric]
      by (simp add: json_prop_def [of "Some (JObj _)"] json_field_def map_of_merged g_def)
  next
    case False
    then have none: "json_prop base k = None" "json_prop disk k = None" "json_prop lcl k = None"
      using json_prop_absent by (auto simp: ks_def)
    show ?thesis
      unfolding none fm using False
      by (simp add: json_prop_def json_field_def map_of_merged mergeValue_unchanged)
  qed
qed

text \<open>The refinement: the merge of two records agrees, field by field, with the merge of the fields.\<close>

lemma mergeValue_fieldwise:
  assumes m: "mergeValue base disk lcl = Inr r" and rec: "isRecord disk" "isRecord lcl"
    and b: "base = None \<or> isRecord base"
  shows "isRecord r \<and> (\<exists>v. mergeValue (json_prop base k) (json_prop disk k) (json_prop lcl k) = Inr v
    \<and> json_equal (json_prop r k) v)"
proof -
  note field = json_equal_field [where k = k]
  consider (bl) "json_equal base lcl" | (dl) "json_equal disk lcl"
    | (bd) "json_equal base disk" "\<not> json_equal base lcl" "\<not> json_equal disk lcl"
    | (new) "base = None" "\<not> json_equal base lcl" "\<not> json_equal disk lcl" "\<not> json_equal base disk"
    | (old) "isRecord base" "\<not> json_equal base lcl" "\<not> json_equal disk lcl" "\<not> json_equal base disk"
    using b by blast
  then show ?thesis
  proof cases
    case bl
    then have "r = disk" using m mergeValue_unchanged by auto
    with rec mergeValue_unchanged(1) [OF field [OF bl]] show ?thesis by simp
  next
    case dl
    then have "r = disk" using m mergeValue_unchanged by auto
    with rec mergeValue_unchanged(2) [OF field [OF dl]] show ?thesis by simp
  next
    case bd
    then have r: "r = lcl" using m by (auto simp: mergeValue.simps)
    have eq: "json_equal (json_prop base k) (json_prop disk k)" by (rule field [OF bd(1)])
    show ?thesis
    proof (cases "json_equal (json_prop base k) (json_prop lcl k)
        \<or> json_equal (json_prop disk k) (json_prop lcl k)")
      case True
      then have "json_equal (json_prop lcl k) (json_prop disk k)"
        using eq by (blast intro: json_equal_trans json_equal_sym)
      with True r rec mergeValue_unchanged show ?thesis by auto
    next
      case False
      with eq r rec show ?thesis by (simp add: mergeValue.simps)
    qed
  next
    case new
    have e: "isRecord (Some (JObj []))" by (simp add: isRecord_def)
    have "json_prop (Some (JObj [])) k = json_prop None k"
      by (simp add: json_prop_def json_field_def)
    with m new rec mergeValue_record_None [of lcl disk]
      field_merges_result [OF _ rec e, of k]
    show ?thesis by (auto simp: isRecord_def split: if_splits)
  next
    case old
    with m rec mergeValue_record [of base lcl disk] field_merges_result [OF _ rec, of base k]
    show ?thesis by (auto simp: isRecord_def split: if_splits)
  qed
qed

lemma mergeValue_field:
  assumes m: "mergeValue base disk lcl = Inr r" and rec: "isRecord disk" "isRecord lcl"
    and b: "base = None \<or> isRecord base"
  shows "json_equal (json_prop base k) (json_prop lcl k)
      \<Longrightarrow> json_equal (json_prop r k) (json_prop disk k)"
    and "json_equal (json_prop base k) (json_prop disk k)
      \<Longrightarrow> json_equal (json_prop r k) (json_prop lcl k)"
    and "json_prop disk k = json_prop lcl k \<Longrightarrow> json_equal (json_prop r k) (json_prop disk k)"
proof -
  obtain v where v: "mergeValue (json_prop base k) (json_prop disk k) (json_prop lcl k) = Inr v"
    and r: "json_equal (json_prop r k) v"
    using mergeValue_fieldwise [OF assms] by blast
  show "json_equal (json_prop base k) (json_prop lcl k)
      \<Longrightarrow> json_equal (json_prop r k) (json_prop disk k)"
    using v r mergeValue_unchanged(1) by auto
  show "json_equal (json_prop base k) (json_prop disk k)
      \<Longrightarrow> json_equal (json_prop r k) (json_prop lcl k)"
    using mergeValue_disk_unchanged [OF _ v] r by (blast intro: json_equal_trans)
  show "json_prop disk k = json_prop lcl k \<Longrightarrow> json_equal (json_prop r k) (json_prop disk k)"
    using v r mergeValue_unchanged(2) by auto
qed

section \<open>One account\<close>

lemma json_put_record [simp]: "isRecord (Some (json_put k v row)) = isRecord (Some row)"
  by (cases row) (auto simp: json_put_def isRecord_def)

lemma json_field_put:
  "isRecord (Some row) \<Longrightarrow> json_field (json_put k v row) k' = (if k' = k then v else json_field row k')"
  using jm_get_set [of k _ _ k'] jm_get_delete [of k _ k']
  by (cases row) (auto simp: json_put_def isRecord_def json_field_def jm_get_def split: option.splits)

definition runtime_fields :: "string list" where
  "runtime_fields = [''rateLimitResetTimes'', ''coolingDownUntil'', ''cooldownReason'',
     ''lastSwitchReason'', ''workspaces'', ''currentWorkspaceIndex'', ''enabled'', ''lastUsed'']"

lemma with_runtime_record [simp]:
  "isRecord (Some (with_runtime limits cooldown reason ws row)) = isRecord (Some row)"
  by (simp add: with_runtime_def Let_def split: option.split prod.split)

lemma normalized_record [simp]: "isRecord (Some (normalized_row row)) = isRecord (Some row)"
  by (simp add: normalized_row_def)

lemma with_runtime_field:
  "isRecord (Some row) \<Longrightarrow> k \<notin> set runtime_fields
    \<Longrightarrow> json_field (with_runtime limits cooldown reason ws row) k = json_field row k"
  by (simp add: with_runtime_def Let_def runtime_fields_def json_field_put
      split: option.split prod.split)

lemma normalized_field:
  "isRecord (Some row) \<Longrightarrow> k \<notin> set runtime_fields \<Longrightarrow> json_field (normalized_row row) k = json_field row k"
  by (simp add: normalized_row_def runtime_fields_def json_field_put)

lemma with_runtime_limits:
  "isRecord (Some row) \<Longrightarrow>
    json_field (with_runtime limits cooldown reason ws row) ''rateLimitResetTimes''
      = (if limits = [] then None else Some (JObj limits))"
  by (simp add: with_runtime_def Let_def json_field_put split: option.split prod.split)

lemma mergeRuntimeAccount_merge:
  assumes "mergeRuntimeAccount base disk lcl = Inr r"
    and "isRecord (Some base)" "isRecord (Some disk)" "isRecord (Some lcl)"
  obtains cooldown reason ws where
    "mergeValue (Some (normalized_row base))
       (Some (with_runtime (merge_limits base disk lcl) cooldown reason ws (normalized_row disk)))
       (Some (with_runtime (merge_limits base disk lcl) cooldown reason ws (normalized_row lcl)))
     = Inr (Some r)"
proof -
  define cooldown where
    "cooldown = mergeAccountCooldown (cooldown_of base) (cooldown_of disk) (cooldown_of lcl)"
  define reason where "reason = nullish_json (json_field lcl ''lastSwitchReason'')
            (json_field disk ''lastSwitchReason'')"
  define w where "w = (if row_list disk ''workspaces'' \<noteq> None \<or> row_list lcl ''workspaces'' \<noteq> None
               then map_sum id Some (mergeWorkspaces base disk lcl) else Inr None)"
  obtain ws where ws: "w = Inr ws"
    using assms(1) unfolding mergeRuntimeAccount_def w_def [symmetric]
    by (cases w) (simp_all add: Let_def)
  define D where "D = Some (with_runtime (merge_limits base disk lcl) cooldown reason ws (normalized_row disk))"
  define L where "L = Some (with_runtime (merge_limits base disk lcl) cooldown reason ws (normalized_row lcl))"
  have "map_sum id (\<lambda>r. nullish r JNull) (mergeValue (Some (normalized_row base)) D L) = Inr r"
    using assms(1)
    unfolding mergeRuntimeAccount_def w_def [symmetric] ws cooldown_def [symmetric]
      reason_def [symmetric] D_def L_def
    by (simp add: Let_def cooldown_def reason_def)
  then obtain v where v: "mergeValue (Some (normalized_row base)) D L = Inr v" "r = nullish v JNull"
    by (cases "mergeValue (Some (normalized_row base)) D L") auto
  have "isRecord v"
    using mergeValue_fieldwise [OF v(1)] assms(2-4) by (simp add: D_def L_def)
  then have "v = Some r" using v(2) by (auto simp: isRecord_Some)
  with v(1) that show thesis unfolding D_def L_def by blast
qed

lemma mergeRuntimeAccount_field:
  assumes "mergeRuntimeAccount base disk lcl = Inr r"
    and rec: "isRecord (Some base)" "isRecord (Some disk)" "isRecord (Some lcl)"
    and k: "k \<notin> set runtime_fields"
  shows "json_equal (json_field base k) (json_field lcl k) \<Longrightarrow> json_equal (json_field r k) (json_field disk k)"
    and "json_equal (json_field base k) (json_field disk k) \<Longrightarrow> json_equal (json_field r k) (json_field lcl k)"
    and "isRecord (Some r)"
proof -
  obtain cooldown reason ws where
    m: "mergeValue (Some (normalized_row base))
       (Some (with_runtime (merge_limits base disk lcl) cooldown reason ws (normalized_row disk)))
       (Some (with_runtime (merge_limits base disk lcl) cooldown reason ws (normalized_row lcl)))
     = Inr (Some r)"
    using mergeRuntimeAccount_merge [OF assms(1) rec] by blast
  note mf = mergeValue_fieldwise [OF m] mergeValue_field(1,2) [OF m, where k = k]
  have f: "json_field (with_runtime l c s w (normalized_row row)) k = json_field row k"
    "json_field (normalized_row row) k = json_field row k" if "isRecord (Some row)" for l c s w row
    using that k by (simp_all add: with_runtime_field normalized_field)
  show "isRecord (Some r)" using mf(1) rec by simp
  show "json_equal (json_field base k) (json_field lcl k) \<Longrightarrow> json_equal (json_field r k) (json_field disk k)"
    using mf(2) rec f by (simp add: json_prop_def)
  show "json_equal (json_field base k) (json_field disk k) \<Longrightarrow> json_equal (json_field r k) (json_field lcl k)"
    using mf(3) rec f by (simp add: json_prop_def)
qed

text \<open>Three deadlines, by cases that need no flag for a clear.\<close>

lemma merge_limit_cases:
  "merge_limit before a b =
    (if a = before then b else if b = before then a
     else if a = None \<and> b = None then None else Some (max (nullish a 0) (nullish b 0)))"
  by (auto simp: merge_limit_def Let_def)

lemma map_of_limits:
  "map_of (List.map_filter (\<lambda>k. map_option (\<lambda>v. (k, JNum (Finite v))) (h k)) ks) k
    = (if k \<in> set ks then map_option (\<lambda>v. JNum (Finite v)) (h k) else None)"
  by (induction ks) (auto simp: List.map_filter_def split: option.splits)

lemma limit_at_absent:
  "k \<notin> set (json_keys (json_field row ''rateLimitResetTimes'')) \<Longrightarrow> limit_at row k = None"
  by (simp add: limit_at_def json_prop_absent json_finite_def)

lemma merge_limits_at:
  "json_finite (map_of (merge_limits base disk lcl) k)
    = merge_limit (limit_at base k) (limit_at disk k) (limit_at lcl k)"
proof (cases "k \<in> set (json_keys (json_field disk ''rateLimitResetTimes''))
     \<union> set (json_keys (json_field lcl ''rateLimitResetTimes''))")
  case True
  then show ?thesis
    by (cases "merge_limit (limit_at base k) (limit_at disk k) (limit_at lcl k)")
      (auto simp: merge_limits_def map_of_limits json_finite_def)
next
  case False
  then show ?thesis
    using limit_at_absent
    by (auto simp: merge_limits_def map_of_limits json_finite_def merge_limit_cases)
qed

lemma json_finite_text: "json_equal a b \<Longrightarrow> json_finite a = json_finite b"
proof -
  have f: "json_finite (map_option json_text x) = json_finite x" for x
    by (auto simp: json_finite_def split: option.splits json.splits jsval.splits)
  assume "json_equal a b"
  then show ?thesis unfolding json_equal_def using f [of a] f [of b] by simp
qed

lemma mergeRuntimeAccount_limit:
  assumes "mergeRuntimeAccount base disk lcl = Inr r"
    and rec: "isRecord (Some base)" "isRecord (Some disk)" "isRecord (Some lcl)"
  shows "limit_at r k = merge_limit (limit_at base k) (limit_at disk k) (limit_at lcl k)"
proof -
  let ?l = "merge_limits base disk lcl"
  obtain cooldown reason ws where
    m: "mergeValue (Some (normalized_row base))
       (Some (with_runtime ?l cooldown reason ws (normalized_row disk)))
       (Some (with_runtime ?l cooldown reason ws (normalized_row lcl))) = Inr (Some r)"
    using mergeRuntimeAccount_merge [OF assms] by blast
  define R where "R = (if ?l = [] then None else Some (JObj ?l))"
  have D: "json_prop (Some (with_runtime ?l cooldown reason ws (normalized_row disk)))
      ''rateLimitResetTimes'' = R"
    and L: "json_prop (Some (with_runtime ?l cooldown reason ws (normalized_row lcl)))
      ''rateLimitResetTimes'' = R"
    using rec by (simp_all add: json_prop_def with_runtime_limits R_def)
  have "json_equal (json_field r ''rateLimitResetTimes'') R"
    using mergeValue_field(3) [OF m, where k = "''rateLimitResetTimes''"] D L rec
    by (simp add: json_prop_def)
  then have "json_equal (json_prop (json_field r ''rateLimitResetTimes'') k) (json_prop R k)"
    by (rule json_equal_field)
  then have "limit_at r k = json_finite (json_prop R k)"
    unfolding limit_at_def by (rule json_finite_text)
  also have "json_prop R k = map_of ?l k" by (simp add: R_def json_prop_def json_field_def)
  finally show ?thesis by (simp add: merge_limits_at)
qed


section \<open>Inventory\<close>

lemma jm_set_new: "\<not> jm_has m k \<Longrightarrow> jm_set k v m = m @ [(k, v)]"
  by (induction k v m rule: jm_set.induct) (auto simp: jm_has_def split: if_splits)

lemma index_rows_Inr:
  assumes "index_rows identity rows m = Inr m'" and "jm_ok m"
  shows "m' = m @ map (\<lambda>row. (the (identity row), row)) rows \<and> jm_ok m'
    \<and> (\<forall>row\<in>set rows. identity row \<noteq> None)"
  using assms
proof (induction rows arbitrary: m)
  case (Cons row rows)
  from Cons.prems(1) obtain key where key: "identity row = Some key"
    by (auto split: option.splits)
  with Cons.prems(1) have new: "\<not> jm_has m key" by (auto split: if_splits)
  have "index_rows identity rows (jm_set key row m) = Inr m'" using Cons.prems(1) key new by simp
  note ih = Cons.IH [OF this jm_ok_set [OF Cons.prems(2)]]
  have m': "m' = m @ map (\<lambda>row. (the (identity row), row)) (row # rows)"
    using ih key new by (simp add: jm_set_new)
  moreover have "jm_ok m'" using ih by blast
  moreover have "\<forall>r\<in>set (row # rows). identity r \<noteq> None" using ih key by simp
  ultimately show ?case by blast
qed simp

definition record_ids :: "account_snapshot \<Rightarrow> string option list" where
  "record_ids s = map record_id (sn_accounts s)"

text \<open>\<open>all_recorded\<close>: every account of the file has a record id.\<close>

definition all_recorded :: "account_snapshot \<Rightarrow> bool" where
  "all_recorded s \<longleftrightarrow> None \<notin> set (record_ids s)"

definition account_with :: "account_snapshot \<Rightarrow> string \<Rightarrow> json option" where
  "account_with s i = List.find (\<lambda>row. record_id row = Some i) (sn_accounts s)"

lemma record_id_record: "record_id row = Some i \<Longrightarrow> isRecord (Some row)"
  by (cases row) (auto simp: record_id_def row_string_def json_string_def json_field_def isRecord_def
      split: option.splits json.splits)

lemma record_id_field:
  "record_id row = Some i \<longleftrightarrow> json_field row ''recordId'' = Some (JStr i) \<and> i \<noteq> []"
  by (auto simp: record_id_def row_string_def json_string_def split: option.splits json.splits if_splits)

lemma row_identity_recorded: "record_id row = Some i \<Longrightarrow> row_identity sha256 rows row = Some i"
  by (simp add: row_identity_def)

lemma recordId_not_runtime: "''recordId'' \<notin> set runtime_fields"
  by (simp add: runtime_fields_def)

lemma record_id_put_used: "isRecord (Some row) \<Longrightarrow> record_id (json_put ''lastUsed'' v row) = record_id row"
  by (simp add: record_id_def row_string_def json_field_put)

lemma mergeRuntimeAccount_record_id:
  assumes m: "mergeRuntimeAccount b d l = Inr r"
    and ids: "record_id b = Some i" "record_id d = Some i" "record_id l = Some i"
  shows "record_id r = Some i"
proof -
  note rec = record_id_record [OF ids(1)] record_id_record [OF ids(2)] record_id_record [OF ids(3)]
  have "json_equal (json_field r ''recordId'') (json_field d ''recordId'')"
    by (rule mergeRuntimeAccount_field(1) [OF m rec recordId_not_runtime])
      (use ids in \<open>simp add: record_id_field\<close>)
  with ids show ?thesis by (auto simp: record_id_field dest: json_equal_string)
qed

text \<open>What is left of a row on disk: kept unless this process removed an account it knew.\<close>

lemma merge_row_kept:
  assumes "merge_row prior next row = Inr merged" and "record_id row = Some i"
    and "\<And>p. prior = Some p \<Longrightarrow> record_id p = Some i"
    and "\<And>n. next = Some n \<Longrightarrow> record_id n = Some i"
  shows "(if prior = None \<or> next \<noteq> None then \<exists>m. merged = Some m \<and> record_id m = Some i
          else merged = None)"
proof (cases prior)
  case None
  with assms show ?thesis by (auto simp: merge_row_def split: if_splits)
next
  case (Some p)
  show ?thesis
  proof (cases "next")
    case None
    with Some assms show ?thesis by (simp add: merge_row_def)
  next
    case n: (Some n)
    obtain m where m: "mergeRuntimeAccount p (json_put ''lastUsed'' (Some (later_use row n)) row)
        (json_put ''lastUsed'' (Some (later_use row n)) n) = Inr m" "merged = Some m"
      using assms(1) Some n
      by (cases "mergeRuntimeAccount p (json_put ''lastUsed'' (Some (later_use row n)) row)
        (json_put ''lastUsed'' (Some (later_use row n)) n)") (auto simp: merge_row_def Let_def)
    have "record_id p = Some i" "record_id n = Some i" using assms(3,4) Some n by auto
    then have "record_id m = Some i"
      using mergeRuntimeAccount_record_id [OF m(1)] assms(2)
      by (simp add: record_id_put_used record_id_record)
    with Some n m show ?thesis by simp
  qed
qed

lemma merge_rows_ids:
  assumes "merge_rows old proposed disk = Inr rows"
    and "\<forall>(k, row)\<in>set disk. record_id row = Some k"
    and "\<forall>(k, row)\<in>set old. record_id row = Some k"
    and "\<forall>(k, row)\<in>set proposed. record_id row = Some k"
  shows "map record_id rows
    = map Some (filter (\<lambda>k. \<not> jm_has old k \<or> jm_has proposed k) (map fst disk))"
  using assms(1,2)
proof (induction disk arbitrary: rows)
  case (Cons e disk)
  obtain k row where e: "e = (k, row)" by (cases e)
  from Cons.prems(1) obtain merged where
    m: "merge_row (jm_get old k) (jm_get proposed k) row = Inr merged"
    by (auto simp: e split: sum.splits)
  from Cons.prems(1) m obtain rest where rest: "merge_rows old proposed disk = Inr rest"
    "rows = (case merged of Some r \<Rightarrow> [r] | None \<Rightarrow> []) @ rest"
    by (auto simp: e split: sum.splits)
  have "record_id row = Some k" using Cons.prems(2) e by auto
  note kept = merge_row_kept [OF m this]
  have "jm_get old k = Some p \<Longrightarrow> record_id p = Some k"
    and "jm_get proposed k = Some p \<Longrightarrow> record_id p = Some k" for p
    using assms(3,4) by (auto dest: jm_get_mem)
  note kept = kept [OF this]
  have IH: "map record_id rest
      = map Some (filter (\<lambda>k. \<not> jm_has old k \<or> jm_has proposed k) (map fst disk))"
    using Cons.IH [OF rest(1)] Cons.prems(2) by simp
  show ?case
    using kept IH rest(2) e by (auto simp: jm_has_def split: if_splits)
qed simp

text \<open>The stages of a save that succeeds, with the identity of an account being its record id.\<close>

lemma merge_snapshots_stages:
  assumes m: "merge_snapshots sha256 base current lcl = Inr r"
    and rec: "all_recorded base" "all_recorded current" "all_recorded lcl"
  obtains old disk proposed merged where
    "old = map (\<lambda>row. (the (record_id row), row)) (sn_accounts base)"
    "disk = map (\<lambda>row. (the (record_id row), row)) (sn_accounts current)"
    "proposed = map (\<lambda>row. (the (record_id row), row)) (sn_accounts lcl)"
    "jm_ok old" "jm_ok disk" "jm_ok proposed"
    "merge_rows old proposed disk = Inr merged"
    "sn_accounts r = merged
       @ map snd (filter (\<lambda>(k, row). \<not> jm_has old k \<and> \<not> jm_has disk k) proposed)"
proof -
  define identity where
    "identity = row_identity sha256 (sn_accounts base @ sn_accounts current @ sn_accounts lcl)"
  have idr: "the (identity row) = the (record_id row)" if "record_id row \<noteq> None" for row
    using that by (auto simp: identity_def row_identity_recorded)
  obtain old where old: "index_rows identity (sn_accounts base) [] = Inr old"
    using m unfolding merge_snapshots_def identity_def [symmetric] Let_def
    by (cases "index_rows identity (sn_accounts base) []") auto
  obtain disk where disk: "index_rows identity (sn_accounts current) [] = Inr disk"
    using m old unfolding merge_snapshots_def identity_def [symmetric] Let_def
    by (cases "index_rows identity (sn_accounts current) []") auto
  obtain proposed where proposed: "index_rows identity (sn_accounts lcl) [] = Inr proposed"
    using m old disk unfolding merge_snapshots_def identity_def [symmetric] Let_def
    by (cases "index_rows identity (sn_accounts lcl) []") auto
  obtain merged where merged: "merge_rows old proposed disk = Inr merged"
    using m old disk proposed unfolding merge_snapshots_def identity_def [symmetric] Let_def
    by (cases "merge_rows old proposed disk") auto
  have acc: "sn_accounts r = merged
       @ map snd (filter (\<lambda>(k, row). \<not> jm_has old k \<and> \<not> jm_has disk k) proposed)"
    using m unfolding merge_snapshots_def identity_def [symmetric] Let_def
    by (auto simp: old disk proposed merged split: sum.splits option.splits json.splits)
  have ix: "ms = map (\<lambda>row. (the (record_id row), row)) (sn_accounts s) \<and> jm_ok ms"
    if "index_rows identity (sn_accounts s) [] = Inr ms" "all_recorded s" for s ms
    using index_rows_Inr [OF that(1)] idr that(2)
    by (force simp: all_recorded_def record_ids_def)
  show thesis
    using that ix [OF old rec(1)] ix [OF disk rec(2)] ix [OF proposed rec(3)] merged acc by blast
qed

lemma indexed_ids:
  assumes "None \<notin> set (map record_id rows)"
  shows "\<forall>(k, row)\<in>set (map (\<lambda>row. (the (record_id row), row)) rows). record_id row = Some k"
    and "jm_has (map (\<lambda>row. (the (record_id row), row)) rows) k \<longleftrightarrow> Some k \<in> set (map record_id rows)"
    and "map Some (map fst (map (\<lambda>row. (the (record_id row), row)) rows)) = map record_id rows"
proof -
  show "\<forall>(k, row)\<in>set (map (\<lambda>row. (the (record_id row), row)) rows). record_id row = Some k"
    using assms by (auto simp: image_iff)
  show "jm_has (map (\<lambda>row. (the (record_id row), row)) rows) k \<longleftrightarrow> Some k \<in> set (map record_id rows)"
    using assms
  proof (induction rows)
    case (Cons a rows)
    then obtain i where "record_id a = Some i" by (cases "record_id a") auto
    with Cons show ?case by (auto simp: jm_has_def)
  qed (simp add: jm_has_def)
  show "map Some (map fst (map (\<lambda>row. (the (record_id row), row)) rows)) = map record_id rows"
    using assms by (induction rows) auto
qed

lemma merge_snapshots_ids:
  assumes m: "merge_snapshots sha256 base current lcl = Inr r"
    and rec: "all_recorded base" "all_recorded current" "all_recorded lcl"
  shows "record_ids r =
    filter (\<lambda>i. i \<notin> set (record_ids base) \<or> i \<in> set (record_ids lcl)) (record_ids current)
    @ filter (\<lambda>i. i \<notin> set (record_ids base) \<and> i \<notin> set (record_ids current)) (record_ids lcl)"
proof -
  obtain old disk proposed merged where
    old: "old = map (\<lambda>row. (the (record_id row), row)) (sn_accounts base)" and
    disk: "disk = map (\<lambda>row. (the (record_id row), row)) (sn_accounts current)" and
    proposed: "proposed = map (\<lambda>row. (the (record_id row), row)) (sn_accounts lcl)" and
    "jm_ok old" and "jm_ok disk" and "jm_ok proposed" and
    mr: "merge_rows old proposed disk = Inr merged" and
    acc: "sn_accounts r = merged
       @ map snd (filter (\<lambda>(k, row). \<not> jm_has old k \<and> \<not> jm_has disk k) proposed)"
    by (rule merge_snapshots_stages [OF m rec])
  note ib = indexed_ids [OF rec(1) [unfolded all_recorded_def record_ids_def], folded old]
  note ic = indexed_ids [OF rec(2) [unfolded all_recorded_def record_ids_def], folded disk]
  note il = indexed_ids [OF rec(3) [unfolded all_recorded_def record_ids_def], folded proposed]
  have sf: "map Some (filter P xs) = filter (\<lambda>i. P (the i)) (map Some xs)" for P and xs :: "string list"
    by (induction xs) auto
  have fc: "filter P xs = filter Q xs" if "None \<notin> set xs" "\<And>k. P (Some k) = Q (Some k)"
    for P Q and xs :: "string option list"
    using that by (auto intro!: filter_cong) (metis option.exhaust)+
  have "map record_id merged
      = filter (\<lambda>i. \<not> jm_has old (the i) \<or> jm_has proposed (the i)) (map record_id (sn_accounts current))"
    using merge_rows_ids [OF mr ic(1) ib(1) il(1)] ic(3) by (simp only: sf)
  also have "\<dots> = filter (\<lambda>i. i \<notin> set (record_ids base) \<or> i \<in> set (record_ids lcl)) (record_ids current)"
    unfolding record_ids_def
    by (rule fc) (use rec(2) ib(2) il(2) in \<open>auto simp: all_recorded_def record_ids_def\<close>)
  finally have first: "map record_id merged
      = filter (\<lambda>i. i \<notin> set (record_ids base) \<or> i \<in> set (record_ids lcl)) (record_ids current)" .
  have "map record_id (map snd (filter (\<lambda>(k, row). \<not> jm_has old k \<and> \<not> jm_has disk k) proposed))
      = filter (\<lambda>i. \<not> jm_has old (the i) \<and> \<not> jm_has disk (the i)) (map record_id (sn_accounts lcl))"
    unfolding proposed by (induction "sn_accounts lcl") (auto simp: filter_map comp_def)
  also have "\<dots> = filter (\<lambda>i. i \<notin> set (record_ids base) \<and> i \<notin> set (record_ids current)) (record_ids lcl)"
    unfolding record_ids_def
    by (rule fc) (use rec(3) ib(2) ic(2) in \<open>auto simp: all_recorded_def record_ids_def\<close>)
  finally show ?thesis using first acc unfolding record_ids_def by simp
qed


text \<open>
  C5. A save merges the inventories by record id and loses no account that nobody removed: the
  accounts of the result are those on disk that this process has not removed (an account it never
  knew stays), in the order of the disk, followed by the ones it added.  An account that another
  process removed does not come back.
\<close>

theorem inventory_exact:
  assumes "mergeAccountSnapshot sha256 (Some base) (Some current) lcl = Inr r"
    and "all_recorded base" "all_recorded current" "all_recorded lcl"
  shows "record_ids r =
    filter (\<lambda>i. i \<notin> set (record_ids base) \<or> i \<in> set (record_ids lcl)) (record_ids current)
    @ filter (\<lambda>i. i \<notin> set (record_ids base) \<and> i \<notin> set (record_ids current)) (record_ids lcl)"
  by (rule merge_snapshots_ids [OF _ assms(2-4)])
    (use assms(1) in \<open>simp add: mergeAccountSnapshot_def\<close>)

section \<open>Edits and deadlines of one account\<close>

lemma account_with_Some:
  "account_with s i = Some row \<Longrightarrow> record_id row = Some i \<and> row \<in> set (sn_accounts s)"
  by (auto simp: account_with_def find_Some_iff)

lemma merge_rows_mem:
  assumes "merge_rows old proposed disk = Inr rows" and "(k, row) \<in> set disk"
    and "jm_get old k = Some p" and "jm_get proposed k = Some n"
  shows "\<exists>m\<in>set rows. mergeRuntimeAccount p (json_put ''lastUsed'' (Some (later_use row n)) row)
        (json_put ''lastUsed'' (Some (later_use row n)) n) = Inr m"
  using assms(1,2)
proof (induction disk arbitrary: rows)
  case (Cons e disk)
  obtain k' row' where e: "e = (k', row')" by (cases e)
  from Cons.prems(1) obtain merged where
    m: "merge_row (jm_get old k') (jm_get proposed k') row' = Inr merged"
    by (auto simp: e split: sum.splits)
  from Cons.prems(1) m obtain rest where rest: "merge_rows old proposed disk = Inr rest"
    "rows = (case merged of Some r \<Rightarrow> [r] | None \<Rightarrow> []) @ rest"
    by (auto simp: e split: sum.splits)
  show ?case
  proof (cases "(k, row) = e")
    case True
    then have "merge_row (Some p) (Some n) row = Inr merged" using m e assms(3,4) by simp
    then obtain x where "mergeRuntimeAccount p (json_put ''lastUsed'' (Some (later_use row n)) row)
        (json_put ''lastUsed'' (Some (later_use row n)) n) = Inr x" "merged = Some x"
      by (cases "mergeRuntimeAccount p (json_put ''lastUsed'' (Some (later_use row n)) row)
        (json_put ''lastUsed'' (Some (later_use row n)) n)") (auto simp: merge_row_def Let_def)
    then show ?thesis using rest(2) by auto
  next
    case False
    with Cons.prems(2) Cons.IH [OF rest(1)] rest(2) show ?thesis by auto
  qed
qed simp

lemma indexed_get:
  assumes "jm_ok (map (\<lambda>row. (the (record_id row), row)) (sn_accounts s))"
    and "account_with s i = Some row"
  shows "jm_get (map (\<lambda>row. (the (record_id row), row)) (sn_accounts s)) i = Some row"
proof -
  from account_with_Some [OF assms(2)]
  have "(i, row) \<in> set (map (\<lambda>row. (the (record_id row), row)) (sn_accounts s))"
    by (auto simp: image_iff intro!: bexI [of _ row])
  then show ?thesis by (rule jm_mem_get [OF assms(1)])
qed

lemma merged_account:
  assumes m: "merge_snapshots sha256 base current lcl = Inr r"
    and rec: "all_recorded base" "all_recorded current" "all_recorded lcl"
    and rows: "account_with base i = Some b" "account_with current i = Some d"
      "account_with lcl i = Some l"
  obtains x where "x \<in> set (sn_accounts r)" "record_id x = Some i"
    "mergeRuntimeAccount b (json_put ''lastUsed'' (Some (later_use d l)) d)
       (json_put ''lastUsed'' (Some (later_use d l)) l) = Inr x"
proof -
  obtain old disk proposed merged where
    old: "old = map (\<lambda>row. (the (record_id row), row)) (sn_accounts base)" and
    disk: "disk = map (\<lambda>row. (the (record_id row), row)) (sn_accounts current)" and
    proposed: "proposed = map (\<lambda>row. (the (record_id row), row)) (sn_accounts lcl)" and
    ok: "jm_ok old" and okd: "jm_ok disk" and okp: "jm_ok proposed" and
    mr: "merge_rows old proposed disk = Inr merged" and
    acc: "sn_accounts r = merged
       @ map snd (filter (\<lambda>(k, row). \<not> jm_has old k \<and> \<not> jm_has disk k) proposed)"
    by (rule merge_snapshots_stages [OF m rec])
  have "jm_get old i = Some b" "jm_get disk i = Some d" "jm_get proposed i = Some l"
    using indexed_get rows ok okd okp unfolding old disk proposed by blast+
  with merge_rows_mem [OF mr] obtain x where x: "x \<in> set merged"
    "mergeRuntimeAccount b (json_put ''lastUsed'' (Some (later_use d l)) d)
       (json_put ''lastUsed'' (Some (later_use d l)) l) = Inr x"
    using jm_get_mem by metis
  have "record_id x = Some i"
    by (rule mergeRuntimeAccount_record_id [OF x(2)])
      (use rows in \<open>simp_all add: account_with_Some record_id_put_used record_id_record\<close>)
  moreover have "x \<in> set (sn_accounts r)" using x(1) acc by simp
  ultimately show thesis using that x(2) by blast
qed


text \<open>
  The deadlines of the rate limits merge key by key, and the order of the two writers does not
  matter: a side that kept what it loaded made no observation, so the other side's value stands (a
  cleared limit is cleared, a corrected one is lower); two new observations keep the later deadline;
  and a limit all_recorded by one side survives its removal by the other.
\<close>

theorem limits_merge:
  assumes "mergeAccountSnapshot sha256 (Some base) (Some current) lcl = Inr r"
    and "all_recorded base" "all_recorded current" "all_recorded lcl"
    and "account_with base i = Some b" "account_with current i = Some d" "account_with lcl i = Some l"
  shows "\<exists>x\<in>set (sn_accounts r). record_id x = Some i \<and> (\<forall>k. limit_at x k =
    (if limit_at d k = limit_at b k then limit_at l k
     else if limit_at l k = limit_at b k then limit_at d k
     else if limit_at d k = None \<and> limit_at l k = None then None
     else Some (max (nullish (limit_at d k) 0) (nullish (limit_at l k) 0))))"
proof -
  have m: "merge_snapshots sha256 base current lcl = Inr r"
    using assms(1) by (simp add: mergeAccountSnapshot_def)
  obtain x where x: "x \<in> set (sn_accounts r)" "record_id x = Some i"
    "mergeRuntimeAccount b (json_put ''lastUsed'' (Some (later_use d l)) d)
       (json_put ''lastUsed'' (Some (later_use d l)) l) = Inr x"
    by (rule merged_account [OF m assms(2-7)])
  have rec: "isRecord (Some b)" "isRecord (Some d)" "isRecord (Some l)"
    using assms(5-7) account_with_Some record_id_record by blast+
  have "limit_at x k = merge_limit (limit_at b k) (limit_at d k) (limit_at l k)" for k
    using mergeRuntimeAccount_limit [OF x(3), of k] rec by (simp add: limit_at_def json_field_put)
  with x show ?thesis by (auto simp: merge_limit_cases)
qed

section \<open>Pointers\<close>

lemma is_integer_of_nat [simp]: "is_integer (of_nat n)"
  by (simp add: is_integer_def)

lemma js_element_of_nat: "js_element xs (of_nat n) = (if n < length xs then Some (xs ! n) else None)"
  by (simp add: js_element_def)

lemma position_of_Some:
  "position_of identity accounts i = Some n \<Longrightarrow> n < length accounts \<and> identity (accounts ! n) = i \<and> i \<noteq> None"
  by (auto simp: position_of_def dest: js_find_index_Some split: if_splits)

lemma position_of_mem:
  "i \<in> identity ` set accounts \<Longrightarrow> i \<noteq> None \<Longrightarrow> \<exists>n. position_of identity accounts i = Some n"
  by (cases "js_find_index (\<lambda>row. identity row = i) accounts")
    (auto simp: position_of_def js_find_index_None)

text \<open>The identity of an account in a save, and the account a pointer is meant for: the one this
  process points at if it moved the pointer to another account, else the one of the disk.\<close>

abbreviation save_identity where
  "save_identity sha256 base current lcl \<equiv>
     row_identity sha256 (sn_accounts base @ sn_accounts current @ sn_accounts lcl)"

lemma merge_snapshots_pointers:
  assumes "merge_snapshots sha256 base current lcl = Inr r"
  defines "identity \<equiv> save_identity sha256 base current lcl"
  defines "index \<equiv> \<lambda>i. case i of Some n \<Rightarrow> of_nat n | None \<Rightarrow> (0 :: jsnum)"
  defines "pick \<equiv> \<lambda>before onDisk next. position_of identity (sn_accounts r)
                        (pointed_id identity base current lcl before onDisk next)"
  shows "sn_activeIndex r = index (pick (Some (sn_activeIndex base)) (Some (sn_activeIndex current))
      (Some (sn_activeIndex lcl)))"
    and "sn_pinned r = map_option of_nat (pick (sn_pinned base) (sn_pinned current) (sn_pinned lcl))"
    and "\<exists>fs. sn_byFamily r = Some (map (\<lambda>f. (f, index (pick (family_index base f)
      (family_index current f) (family_index lcl f)))) fs)"
proof -
  obtain old where old: "index_rows identity (sn_accounts base) [] = Inr old"
    using assms(1) unfolding merge_snapshots_def identity_def [symmetric] Let_def
    by (cases "index_rows identity (sn_accounts base) []") auto
  obtain disk where disk: "index_rows identity (sn_accounts current) [] = Inr disk"
    using assms(1) old unfolding merge_snapshots_def identity_def [symmetric] Let_def
    by (cases "index_rows identity (sn_accounts current) []") auto
  obtain proposed where proposed: "index_rows identity (sn_accounts lcl) [] = Inr proposed"
    using assms(1) old disk unfolding merge_snapshots_def identity_def [symmetric] Let_def
    by (cases "index_rows identity (sn_accounts lcl) []") auto
  obtain merged where merged: "merge_rows old proposed disk = Inr merged"
    using assms(1) old disk proposed unfolding merge_snapshots_def identity_def [symmetric] Let_def
    by (cases "merge_rows old proposed disk") auto
  define accounts where "accounts = merged
       @ map snd (filter (\<lambda>(k, row). \<not> jm_has old k \<and> \<not> jm_has disk k) proposed)"
  define mv where "mv = mergeValue (Some (JObj (sn_fields base))) (Some (JObj (sn_fields current)))
      (Some (JObj (sn_fields lcl)))"
  note run = assms(1) [unfolded merge_snapshots_def, folded identity_def mv_def, unfolded Let_def old
      disk proposed, simplified prod.case sum.case, unfolded merged, simplified sum.case,
      folded accounts_def]
  obtain fs where fs: "mv = Inr (Some (JObj fs))"
    using run by (simp split: sum.splits option.splits json.splits)
  have r: "r = \<lparr>sn_fields = fs, sn_accounts = accounts,
       sn_activeIndex = index (position_of identity accounts (pointed_id identity base current lcl
         (Some (sn_activeIndex base)) (Some (sn_activeIndex current)) (Some (sn_activeIndex lcl)))),
       sn_byFamily = Some (map (\<lambda>f. (f, index (position_of identity accounts
         (pointed_id identity base current lcl (family_index base f) (family_index current f)
           (family_index lcl f)))))
         (in_order (concat (map (\<lambda>s. map fst (nullish (sn_byFamily s) [])) [base, current, lcl])))),
       sn_pinned = map_option of_nat (position_of identity accounts
         (pointed_id identity base current lcl (sn_pinned base) (sn_pinned current) (sn_pinned lcl))),
       sn_restoreReason = None\<rparr>"
    using run unfolding fs index_def by simp
  show "sn_activeIndex r = index (pick (Some (sn_activeIndex base)) (Some (sn_activeIndex current))
      (Some (sn_activeIndex lcl)))"
    and "sn_pinned r = map_option of_nat (pick (sn_pinned base) (sn_pinned current) (sn_pinned lcl))"
    and "\<exists>fs. sn_byFamily r = Some (map (\<lambda>f. (f, index (pick (family_index base f)
      (family_index current f) (family_index lcl f)))) fs)"
    unfolding r pick_def by (simp, simp, auto)
qed



section \<open>Saving observations only\<close>

lemma observe_record: "isRecord (Some (observe_account next prior)) = isRecord (Some prior)"
  by (simp add: observe_account_def Let_def copy_field_def split: option.split)

lemma observe_field:
  assumes "isRecord (Some prior)" and "k \<notin> set runtime_fields"
  shows "json_field (observe_account next prior) k = json_field prior k"
  using assms
  by (simp add: observe_account_def Let_def copy_field_def runtime_fields_def json_field_put
      split: option.split)

lemma observe_record_id: "record_id prior = Some i \<Longrightarrow> record_id (observe_account next prior) = Some i"
  using observe_field [OF _ recordId_not_runtime, of prior "next"] record_id_record [of prior i]
  by (simp add: record_id_field)

definition observed :: "(string \<Rightarrow> string) \<Rightarrow> account_snapshot \<Rightarrow> json \<Rightarrow> json" where
  "observed sha256 lcl prior =
     (case List.find (same_account sha256 prior) (sn_accounts lcl) of
        None \<Rightarrow> prior | Some next \<Rightarrow> observe_account next prior)"

lemma observed_facts:
  assumes "record_id prior = Some i"
  shows "record_id (observed sha256 lcl prior) = Some i"
    and "k \<notin> set runtime_fields
      \<Longrightarrow> json_field (observed sha256 lcl prior) k = json_field prior k"
  using assms observe_record_id observe_field record_id_record
  by (auto simp: observed_def split: option.split)

lemma find_map_observed:
  assumes "None \<notin> set (map record_id rows)"
  shows "List.find (\<lambda>row. record_id row = Some i) (map (observed sha256 lcl) rows)
    = map_option (observed sha256 lcl) (List.find (\<lambda>row. record_id row = Some i) rows)"
  using assms
proof (induction rows)
  case (Cons a rows)
  then obtain j where "record_id a = Some j" by (cases "record_id a") auto
  with Cons observed_facts(1) [OF this] show ?case by simp
qed simp

text \<open>
  A save of observations commits nothing else: the inventory of the result is that of the disk, in
  its order, and every account that was loaded keeps, in all fields a user owns, what is on disk.
\<close>

theorem observations_leave_disk:
  assumes "mergeAccountRuntimeObservations sha256 base current lcl = Inr r"
    and "all_recorded base" "all_recorded current"
  shows "record_ids r = record_ids current
    \<and> (\<forall>i b d. account_with base i = Some b \<and> account_with current i = Some d
      \<longrightarrow> (\<exists>x\<in>set (sn_accounts r). record_id x = Some i
        \<and> (\<forall>k. k \<notin> set runtime_fields \<longrightarrow> json_equal (json_field x k) (json_field d k))))"
proof -
  define obs where "obs = base\<lparr>sn_accounts := map (observed sha256 lcl) (sn_accounts base)\<rparr>"
  have m: "merge_snapshots sha256 base current obs = Inr r"
    using assms(1)
    by (simp add: mergeAccountRuntimeObservations_def mergeAccountSnapshot_def obs_def
        observed_def [abs_def])
  have "record_id (observed sha256 lcl row) = record_id row" if mem: "row \<in> set (sn_accounts base)" for row
  proof -
    obtain i where "record_id row = Some i"
      using mem assms(2) by (cases "record_id row") (force simp: all_recorded_def record_ids_def image_iff)+
    then show ?thesis using observed_facts(1) by simp
  qed
  then have ids: "record_ids obs = record_ids base" by (simp add: obs_def record_ids_def)
  have rec: "all_recorded obs" using assms(2) ids by (simp add: all_recorded_def)
  have "record_ids r = record_ids current"
    unfolding merge_snapshots_ids [OF m assms(2,3) rec] ids by auto
  moreover have "\<exists>x\<in>set (sn_accounts r). record_id x = Some i
        \<and> (\<forall>k. k \<notin> set runtime_fields \<longrightarrow> json_equal (json_field x k) (json_field d k))"
    if b: "account_with base i = Some b" and d: "account_with current i = Some d" for i b d
  proof -
    define l where "l = observed sha256 lcl b"
    have l: "account_with obs i = Some l"
      using b find_map_observed [of "sn_accounts base" i sha256 lcl] assms(2)
      by (simp add: account_with_def obs_def l_def all_recorded_def record_ids_def)
    obtain x where x: "x \<in> set (sn_accounts r)" "record_id x = Some i"
      "mergeRuntimeAccount b (json_put ''lastUsed'' (Some (later_use d l)) d)
         (json_put ''lastUsed'' (Some (later_use d l)) l) = Inr x"
      by (rule merged_account [OF m assms(2,3) rec b d l])
    have rb: "record_id b = Some i" and recs: "isRecord (Some b)" "isRecord (Some d)" "isRecord (Some l)"
      using b d l account_with_Some record_id_record by blast+
    have "json_equal (json_field x k) (json_field d k)" if k: "k \<notin> set runtime_fields" for k
    proof -
      have "k \<noteq> ''lastUsed''" using k by (auto simp: runtime_fields_def)
      then show ?thesis
        using mergeRuntimeAccount_field(1) [OF x(3) recs(1) _ _ k] recs observed_facts(2) [OF rb k]
        by (simp add: json_field_put l_def)
    qed
    with x show ?thesis by blast
  qed
  ultimately show ?thesis by blast
qed

section \<open>Witnesses\<close>

definition example_row :: "string \<Rightarrow> (string \<times> json) list \<Rightarrow> json" where
  "example_row i fs = JObj ((''recordId'', JStr i) # (''refreshToken'', JStr i)
     # (''lastUsed'', JNum (Finite 1)) # fs)"

definition example_snapshot :: "json list \<Rightarrow> jsnum option \<Rightarrow> account_snapshot" where
  "example_snapshot rows pin = \<lparr>sn_fields = [(''version'', JNum (Finite 3))], sn_accounts = rows,
     sn_activeIndex = 0, sn_byFamily = Some [(''gpt'', 1)], sn_pinned = pin, sn_restoreReason = None\<rparr>"

definition limit_field :: "jsnum \<Rightarrow> string \<times> json" where
  "limit_field t = (''rateLimitResetTimes'', JObj [(''gpt'', JNum (Finite t))])"

text \<open>Another process relabels \<open>a\<close> and adds \<open>c\<close>, this one limits \<open>a\<close>, pins it, removes \<open>b\<close> and
  adds \<open>d\<close>.\<close>

definition ex_base :: account_snapshot where
  "ex_base = example_snapshot [example_row ''b'' [], example_row ''a'' []] None"

definition ex_disk :: account_snapshot where
  "ex_disk = example_snapshot [example_row ''c'' [], example_row ''b'' [],
     example_row ''a'' [(''accountLabel'', JStr ''x''), limit_field 7]] None"

definition ex_local :: account_snapshot where
  "ex_local = example_snapshot [example_row ''a'' [limit_field 9], example_row ''d'' []] (Some 0)"

definition ex_result :: account_snapshot where
  "ex_result = \<lparr>sn_fields = [(''version'', JNum (Finite 3))],
     sn_accounts = [example_row ''c'' [],
       example_row ''a'' [(''accountLabel'', JStr ''x''), limit_field 9], example_row ''d'' []],
     sn_activeIndex = 1, sn_byFamily = Some [(''gpt'', 2)], sn_pinned = Some 1,
     sn_restoreReason = None\<rparr>"

lemma ex_merged: "mergeAccountSnapshot id (Some ex_base) (Some ex_disk) ex_local = Inr ex_result"
  by code_simp

lemma ex_recorded: "all_recorded ex_base" "all_recorded ex_disk" "all_recorded ex_local"
  by code_simp+

theorem inventory_exact_witness:
  "record_ids ex_result =
    filter (\<lambda>i. i \<notin> set (record_ids ex_base) \<or> i \<in> set (record_ids ex_local)) (record_ids ex_disk)
    @ filter (\<lambda>i. i \<notin> set (record_ids ex_base) \<and> i \<notin> set (record_ids ex_disk)) (record_ids ex_local)"
  by (rule inventory_exact [OF ex_merged ex_recorded])

lemma ex_rows:
  "account_with ex_base ''a'' = Some (example_row ''a'' [])"
  "account_with ex_disk ''a'' = Some (example_row ''a'' [(''accountLabel'', JStr ''x''), limit_field 7])"
  "account_with ex_local ''a'' = Some (example_row ''a'' [limit_field 9])"
  by code_simp+


theorem limits_merge_witness:
  "\<exists>x\<in>set (sn_accounts ex_result). record_id x = Some ''a'' \<and> (\<forall>k. limit_at x k =
    (if limit_at (example_row ''a'' [(''accountLabel'', JStr ''x''), limit_field 7]) k
          = limit_at (example_row ''a'' []) k
     then limit_at (example_row ''a'' [limit_field 9]) k
     else if limit_at (example_row ''a'' [limit_field 9]) k = limit_at (example_row ''a'' []) k
     then limit_at (example_row ''a'' [(''accountLabel'', JStr ''x''), limit_field 7]) k
     else if limit_at (example_row ''a'' [(''accountLabel'', JStr ''x''), limit_field 7]) k = None
          \<and> limit_at (example_row ''a'' [limit_field 9]) k = None then None
     else Some (max (nullish (limit_at (example_row ''a''
            [(''accountLabel'', JStr ''x''), limit_field 7]) k) 0)
          (nullish (limit_at (example_row ''a'' [limit_field 9]) k) 0))))"
  by (rule limits_merge [OF ex_merged ex_recorded ex_rows])


definition ex_observed :: account_snapshot where
  "ex_observed = \<lparr>sn_fields = [(''version'', JNum (Finite 3))],
     sn_accounts = [example_row ''c'' [], example_row ''b'' [],
       example_row ''a'' [(''accountLabel'', JStr ''x''), limit_field 9]],
     sn_activeIndex = 0, sn_byFamily = Some [(''gpt'', 1)], sn_pinned = None,
     sn_restoreReason = None\<rparr>"

lemma ex_observation: "mergeAccountRuntimeObservations id ex_base ex_disk ex_local = Inr ex_observed"
  by code_simp

theorem observations_leave_disk_witness:
  "record_ids ex_observed = record_ids ex_disk
    \<and> (\<exists>x. x \<in> set (sn_accounts ex_observed) \<and> record_id x = Some ''a''
        \<and> json_equal (json_field x ''accountLabel'') (Some (JStr ''x'')))"
proof -
  have all: "record_ids ex_observed = record_ids ex_disk
    \<and> (\<forall>i b d. account_with ex_base i = Some b \<and> account_with ex_disk i = Some d
      \<longrightarrow> (\<exists>x\<in>set (sn_accounts ex_observed). record_id x = Some i
        \<and> (\<forall>k. k \<notin> set runtime_fields \<longrightarrow> json_equal (json_field x k) (json_field d k))))"
    by (rule observations_leave_disk [OF ex_observation ex_recorded(1,2)])
  have "account_with ex_base ''a'' = Some (example_row ''a'' [])
      \<and> account_with ex_disk ''a'' = Some (example_row ''a'' [(''accountLabel'', JStr ''x''), limit_field 7])"
    by (intro conjI ex_rows)
  with all obtain x where x: "x \<in> set (sn_accounts ex_observed)" "record_id x = Some ''a''"
    and same: "\<forall>k. k \<notin> set runtime_fields \<longrightarrow> json_equal (json_field x k)
      (json_field (example_row ''a'' [(''accountLabel'', JStr ''x''), limit_field 7]) k)"
    by blast
  have "''accountLabel'' \<notin> set runtime_fields
      \<and> json_field (example_row ''a'' [(''accountLabel'', JStr ''x''), limit_field 7]) ''accountLabel'' = Some (JStr ''x'')"
    by code_simp
  then show ?thesis using all x same by metis
qed

end
