(* ===== verification/AccountStatus.thy ===== *)
theory AccountStatus
  imports AccountState SubscriptionQuota JsText
begin

text \<open>
  What is shown of an account: the recovery times of \<open>lib/runtime/account-status.ts\<close> and the labels of
  \<open>lib/accounts.ts\<close>, with the masking of e-mail addresses (\<open>lib/redaction.ts\<close>).
\<close>

section \<open>Recovery times\<close>

text \<open>The raw index is finite or not; the pool has \<open>pool_size\<close> accounts.\<close>

definition resolveActiveIndex :: "nat \<Rightarrow> (string \<times> jsval) list option \<Rightarrow> jsval \<Rightarrow> model_family \<Rightarrow> jsnum" where
  "resolveActiveIndex pool_size activeIndexByFamily activeIndex family =
     (if pool_size = 0 then 0
      else
        let rawCandidate = nullish (Option.bind activeIndexByFamily (\<lambda>m. map_of m family)) activeIndex;
            raw = (case rawCandidate of Finite x \<Rightarrow> x | NonFinite \<Rightarrow> 0)
        in max 0 (min raw (of_nat pool_size - 1)))"

definition family_reset_step ::
    "model_family \<Rightarrow> jsnum \<Rightarrow> quota_key \<times> jsnum option \<Rightarrow> jsnum option \<Rightarrow> jsnum option" where
  "family_reset_step family now e minReset =
     (case snd e of
        None \<Rightarrow> minReset
      | Some v \<Rightarrow>
          if v \<le> now then minReset
          else if fst e \<noteq> family \<and> \<not> js_starts_with (fst e) (family @ '':'') then minReset
          else (case minReset of None \<Rightarrow> Some v | Some m \<Rightarrow> if v < m then Some v else Some m))"

definition getRateLimitResetTimeForFamily ::
    "(string \<Rightarrow> string option) \<Rightarrow> 'a limited_entity_scheme \<Rightarrow> jsnum \<Rightarrow> model_family \<Rightarrow> jsnum option" where
  "getRateLimitResetTimeForFamily claim a now family =
     fold (family_reset_step family now) (selectedQuotaLimits claim a) None"

definition activeBound :: "jsnum option \<Rightarrow> jsnum \<Rightarrow> jsnum option" where
  "activeBound v now = (case v of None \<Rightarrow> None | Some x \<Rightarrow> if now < x then Some x else None)"

definition laterBound :: "jsnum option \<Rightarrow> jsnum option \<Rightarrow> jsnum option" where
  "laterBound a b =
     (case a of None \<Rightarrow> b
      | Some x \<Rightarrow> (case b of None \<Rightarrow> a | Some y \<Rightarrow> if y < x then a else b))"

text \<open>\<open>times[key]\<close>\<close>

definition limit_of :: "rate_limit_state \<Rightarrow> quota_key \<Rightarrow> jsnum option" where
  "limit_of limits key = Option.bind (jm_get limits key) (\<lambda>v. v)"

text \<open>The pair of \<open>rateLimitAtMs\<close> and \<open>recoveryAtMs\<close>.\<close>

definition getAccountRecoveryBoundsForFamily ::
    "(string \<Rightarrow> string option) \<Rightarrow> 'a limited_entity_scheme \<Rightarrow> jsnum option \<Rightarrow> jsnum \<Rightarrow> model_family
     \<Rightarrow> string option \<Rightarrow> jsnum option \<times> jsnum option" where
  "getAccountRecoveryBoundsForFamily claim a cooling now family model =
     (let limits = selectedQuotaLimits claim a;
          rateLimitAtMs = laterBound
            (if model = Some LUNA_RESERVE_MODEL then None
             else activeBound (limit_of limits (getQuotaKey family None)) now)
            (if truthy_string model then activeBound (limit_of limits (getQuotaKey family model)) now
             else None)
      in (rateLimitAtMs, laterBound rateLimitAtMs (activeBound cooling now)))"

definition getAccountRecoveryTimeForFamily ::
    "(string \<Rightarrow> string option) \<Rightarrow> 'a limited_entity_scheme \<Rightarrow> jsnum option \<Rightarrow> jsnum \<Rightarrow> model_family
     \<Rightarrow> string option \<Rightarrow> jsnum option" where
  "getAccountRecoveryTimeForFamily claim a cooling now family model =
     snd (getAccountRecoveryBoundsForFamily claim a cooling now family model)"

definition getRateLimitRecoveryTimeForFamily ::
    "(string \<Rightarrow> string option) \<Rightarrow> 'a limited_entity_scheme \<Rightarrow> jsnum \<Rightarrow> model_family
     \<Rightarrow> string option \<Rightarrow> jsnum option" where
  "getRateLimitRecoveryTimeForFamily claim a now family model =
     fst (getAccountRecoveryBoundsForFamily claim a None now family model)"

definition getRateLimitResetTimeForModel ::
    "(string \<Rightarrow> string option) \<Rightarrow> 'a limited_entity_scheme \<Rightarrow> jsnum \<Rightarrow> model_family \<Rightarrow> string
     \<Rightarrow> jsnum option" where
  "getRateLimitResetTimeForModel claim a now family model =
     fst (getAccountRecoveryBoundsForFamily claim a None now family (Some model))"

definition formatRateLimitEntry ::
    "(string \<Rightarrow> string option) \<Rightarrow> 'a limited_entity_scheme \<Rightarrow> jsnum \<Rightarrow> model_family \<Rightarrow> string option" where
  "formatRateLimitEntry claim a now family =
     (case getRateLimitResetTimeForFamily claim a now family of
        None \<Rightarrow> None
      | Some resetAt \<Rightarrow>
          let remaining = resetAt - now
          in if remaining \<le> 0 then None
             else Some (''resets in '' @ formatWaitTime (WaitMs remaining)))"

section \<open>Addresses\<close>

definition letter_char :: "char \<Rightarrow> bool" where
  "letter_char c \<longleftrightarrow> (let n = of_char c :: nat in 65 \<le> n \<and> n \<le> 90 \<or> 97 \<le> n \<and> n \<le> 122)"

definition mail_local_char :: "char \<Rightarrow> bool" where
  "mail_local_char c \<longleftrightarrow> letter_char c \<or> is_digit c \<or> c \<in> set ''._%+-''"

definition mail_domain_char :: "char \<Rightarrow> bool" where
  "mail_domain_char c \<longleftrightarrow> letter_char c \<or> is_digit c \<or> c \<in> set ''.-''"

definition maskEmail :: "string \<Rightarrow> string" where
  "maskEmail s =
     (let lcl = takeWhile (\<lambda>c. c \<noteq> CHR ''@'') s;
          domain = drop (Suc (length lcl)) s;
          tld = rev (takeWhile (\<lambda>c. c \<noteq> CHR ''.'') (rev domain))
      in if CHR ''@'' \<notin> set s \<or> lcl = [] then ''***@***''
         else take 2 lcl @ ''***@***.'' @ (if tld = [] then ''***'' else tld))"

text \<open>The part of the expression after the \<open>@\<close>, on the longest run of its characters: the last dot
  that has something before it and two letters after it ends the greedy match.\<close>

definition match_domain :: "string \<Rightarrow> string option" where
  "match_domain r =
     (case filter (\<lambda>k. 1 \<le> k \<and> r ! k = CHR ''.'' \<and> 2 \<le> length (takeWhile letter_char (drop (Suc k) r)))
             [0..<length r] of
        [] \<Rightarrow> None
      | k # ks \<Rightarrow>
          let j = last (k # ks)
          in Some (take (Suc j) r @ takeWhile letter_char (drop (Suc j) r)))"

function redactEmails :: "string \<Rightarrow> string" where
  "redactEmails [] = []"
| "redactEmails (c # s) =
     (if \<not> mail_local_char c then c # redactEmails s
      else
        let lcl = takeWhile mail_local_char (c # s); rest = dropWhile mail_local_char (c # s)
        in (case (if rest \<noteq> [] \<and> hd rest = CHR ''@''
                  then match_domain (takeWhile mail_domain_char (tl rest)) else None) of
              None \<Rightarrow> lcl @ redactEmails rest
            | Some domain \<Rightarrow>
                maskEmail (lcl @ CHR ''@'' # domain)
                @ redactEmails (drop (length domain) (tl rest))))"
  by pat_completeness auto
termination
proof (relation "measure length", goal_cases)
  case (3 c s lcl rest)
  then show ?case by (simp add: length_dropWhile_le le_imp_less_Suc)
next
  case (4 c s lcl rest domain)
  then have "length rest \<le> length s" by (simp add: length_dropWhile_le)
  then show ?case by simp
qed simp_all

section \<open>Labels\<close>

definition nonblank :: "string option \<Rightarrow> string option" where
  "nonblank s = (case map_option js_trim s of None \<Rightarrow> None | Some t \<Rightarrow> if t = [] then None else Some t)"

definition last_six :: "string \<Rightarrow> string" where
  "last_six s = (if 6 < length s then drop (length s - 6) s else s)"

definition activeWorkspaceName :: "'a limited_entity_scheme \<Rightarrow> string option" where
  "activeWorkspaceName a =
     (case workspaces a of
        Some (w # ws) \<Rightarrow>
          nonblank (ws_name (nullish (js_index (w # ws) (nullish (currentWorkspaceIndex a) 0)) w))
      | _ \<Rightarrow> None)"

definition list_if :: "bool \<Rightarrow> 'a \<Rightarrow> 'a list" where
  "list_if b x = (if b then [x] else [])"

definition formatAccountLabel :: "managed_account \<Rightarrow> nat \<Rightarrow> string" where
  "formatAccountLabel a index =
     (let label = nonblank (ma_accountLabel a);
          workspaceName = activeWorkspaceName a;
          email = nonblank (ma_email a);
          idSuffix = map_option last_six (nonblank (accountId a));
          segments = (case label of Some l \<Rightarrow> [l] | None \<Rightarrow> [])
            @ (case workspaceName of
                 Some w \<Rightarrow> list_if (Some w \<noteq> map_option js_trim (ma_accountLabel a)) (''['' @ w @ '']'')
               | None \<Rightarrow> [])
            @ (case email of Some e \<Rightarrow> [e] | None \<Rightarrow> []);
          segments = segments @ (case idSuffix of
              Some i \<Rightarrow> [if segments \<noteq> [] then ''id:'' @ i else i] | None \<Rightarrow> [])
      in if segments = [] then ''Account '' @ show_nat (index + 1)
         else ''Account '' @ show_nat (index + 1) @ '' ('' @ js_join '', '' segments @ '')'')"

definition workspace_line :: "string \<Rightarrow> string \<Rightarrow> int \<Rightarrow> nat \<times> workspace \<Rightarrow> string" where
  "workspace_line indent selectionLabel activeIndex e =
     (let (idx, w) = e;
          isActive = (int idx = activeIndex);
          name = nullish (nonblank (ws_name w)) ''(unnamed)'';
          idSuffix = last_six (js_trim (ws_id w));
          tags = list_if isActive selectionLabel @ list_if (\<not> ws_enabled w) ''disabled'';
          tagLabel = (if tags \<noteq> [] then '' ('' @ js_join '', '' tags @ '')'' else []);
          idLabel = (if idSuffix \<noteq> [] then '' id:'' @ idSuffix else [])
      in indent @ (if isActive then ''*'' else ''-'') @ '' '' @ show_nat (idx + 1) @ ''. ['' @ name @ '']''
         @ idLabel @ tagLabel)"

definition formatWorkspaceLines ::
    "'a limited_entity_scheme \<Rightarrow> string \<Rightarrow> string \<Rightarrow> string list" where
  "formatWorkspaceLines a indent selectionLabel =
     (case workspaces a of
        None \<Rightarrow> []
      | Some ws \<Rightarrow>
          map (workspace_line indent selectionLabel (nullish (currentWorkspaceIndex a) 0))
            (enumerate 0 ws))"

section \<open>What the recovery times promise\<close>

lemma activeBound_gt: "activeBound v now = Some t \<Longrightarrow> now < t"
  by (auto simp: activeBound_def split: option.splits if_splits)

lemma laterBound_Some:
  "laterBound a b = Some t \<Longrightarrow> (a = Some t \<or> b = Some t)
    \<and> (\<forall>x. a = Some x \<longrightarrow> x \<le> t) \<and> (\<forall>x. b = Some x \<longrightarrow> x \<le> t)"
  by (auto simp: laterBound_def split: option.splits if_splits)

lemma laterBound_None: "laterBound a b = None \<longleftrightarrow> a = None \<and> b = None"
  by (auto simp: laterBound_def split: option.splits)

lemma recovery_gt:
  assumes "fst (getAccountRecoveryBoundsForFamily claim account c now family model) = Some t"
  shows "now < t"
proof -
  define a where "a = (if model = Some LUNA_RESERVE_MODEL then None
    else activeBound (limit_of (selectedQuotaLimits claim account) (getQuotaKey family None)) now)"
  define b where "b = (if truthy_string model
    then activeBound (limit_of (selectedQuotaLimits claim account) (getQuotaKey family model)) now else None)"
  have "laterBound a b = Some t"
    using assms by (simp add: getAccountRecoveryBoundsForFamily_def Let_def a_def b_def)
  then have "a = Some t \<or> b = Some t" using laterBound_Some by blast
  then show ?thesis using activeBound_gt by (auto simp: a_def b_def split: if_splits)
qed

lemma family_reset_gt:
  assumes "getRateLimitResetTimeForFamily claim a now family = Some t"
  shows "now < t"
proof -
  have "fold (family_reset_step family now) xs m = Some t \<Longrightarrow> (\<forall>x. m = Some x \<longrightarrow> now < x) \<Longrightarrow> now < t"
    for xs m
    by (induction xs arbitrary: m) (fastforce simp: family_reset_step_def split: option.splits if_splits)+
  with assms show ?thesis by (simp add: getRateLimitResetTimeForFamily_def)
qed

end
