(* ===== verification/JsSort.thy ===== *)
theory JsSort
  imports UsageSummary
begin

text \<open>
  Sorting with a numeric comparator (\<open>xs.sort((a, b) => a.n - b.n)\<close>): the sign of a number, and what the
  head and the order of the sorted list are when the comparator follows a key.
\<close>

definition js_sign :: "jsnum \<Rightarrow> int" where
  "js_sign x = (if x < 0 then -1 else if 0 < x then 1 else 0)"

lemma js_sign_le: "js_sign x \<le> 0 \<longleftrightarrow> x \<le> 0"
  by (simp add: js_sign_def)

lemma set_insert_cmp: "set (insert_cmp cmp x xs) = insert x (set xs)"
  by (induction cmp x xs rule: insert_cmp.induct) auto

lemma sort_cmp_head:
  fixes key :: "'a \<Rightarrow> 'b :: linorder"
  assumes cmp: "\<And>a b. cmp a b \<le> 0 \<longleftrightarrow> key a \<le> key b" and "sort_cmp cmp xs = y # ys"
  shows "y \<in> set xs \<and> (\<forall>x\<in>set xs. key y \<le> key x)"
  using assms(2)
proof (induction xs arbitrary: y ys)
  case (Cons x xs)
  have eq: "sort_cmp cmp (x # xs) = insert_cmp cmp x (sort_cmp cmp xs)" by (simp add: sort_cmp_def)
  show ?case
  proof (cases "sort_cmp cmp xs")
    case Nil
    then have "xs = []" using set_sort_cmp(1) [of cmp xs] by auto
    with Cons.prems show ?thesis by (simp add: sort_cmp_def)
  next
    case (Cons z zs)
    note IH = Cons.IH [OF Cons]
    show ?thesis
      using Cons.prems IH unfolding eq Cons
      by (auto simp: cmp split: if_splits intro: order_trans)
  qed
qed (simp add: sort_cmp_def)

text \<open>The whole list is in the order of the key.\<close>

lemma sorted_insert_cmp:
  fixes key :: "'a \<Rightarrow> 'b :: linorder"
  assumes cmp: "\<And>a b. cmp a b \<le> 0 \<Longrightarrow> key a \<le> key b" "\<And>a b. \<not> cmp a b \<le> 0 \<Longrightarrow> key b \<le> key a"
    and "sorted (map key xs)"
  shows "sorted (map key (insert_cmp cmp x xs))"
  using assms(3)
proof (induction xs)
  case (Cons y ys)
  have "\<forall>z\<in>set (y # ys). key x \<le> key z" if "cmp x y \<le> 0"
    using cmp(1) [OF that] Cons.prems by (auto intro: order_trans)
  then show ?case
    using Cons cmp(2) [of x y] by (auto simp: set_insert_cmp)
qed simp

lemma sorted_sort_cmp:
  fixes key :: "'a \<Rightarrow> 'b :: linorder"
  assumes "\<And>a b. cmp a b \<le> 0 \<Longrightarrow> key a \<le> key b" "\<And>a b. \<not> cmp a b \<le> 0 \<Longrightarrow> key b \<le> key a"
  shows "sorted (map key (sort_cmp cmp xs))"
  unfolding sort_cmp_def by (induction xs) (auto intro: sorted_insert_cmp assms)

end
