(* ===== verification/Forecast.thy ===== *)
theory Forecast
  imports AccountStatus AccountResults JsSort "HOL-Library.Product_Lexorder"
begin

text \<open>
  The forecast of the accounts (\<open>lib/forecast.ts\<close>): what is known of each account is turned into an
  availability, a wait and a risk, and the account to use next is recommended.  Each block of
  \<open>evaluateForecastAccount\<close> is a function on the variables it updates, composed in the order of the
  code.  The reasons are the constructors of a datatype, not their wording.
\<close>

section \<open>Inputs and results\<close>

datatype availability = Ready | Delayed | Unavailable
datatype risk_level = LowRisk | MediumRisk | HighRisk

record token_failure =
  tf_reason :: "string option"
  tf_statusCode :: "nat option"
  tf_message :: "string option"

record live_quota =
  lq_status :: nat
  lq_primary :: quota_window
  lq_secondary :: quota_window

record forecast_overlay =
  fo_accountSkipReasons :: "(string \<times> string) list option"
  fo_lastPoolExhaustionSkipReasons :: "(string \<times> string) list option"
  fo_policyBlockedIndexes :: "nat list option"

text \<open>\<open>fi_workspaceKey\<close> is \<open>quotaWorkspaceKey\<close> of the account: a SHA-256 digest over its record id and a
  workspace id.\<close>

record forecast_input =
  fi_index :: nat
  fi_account :: managed_account
  fi_isCurrent :: bool
  fi_now :: jsnum
  fi_refreshFailure :: "token_failure option"
  fi_liveQuota :: "live_quota option"
  fi_quotaCache :: "quota_cache option"
  fi_allAccounts :: "managed_account list option"
  fi_runtimeOverlay :: "forecast_overlay option"
  fi_family :: "model_family option"
  fi_model :: "string option"

record forecast_env =
  fe_claim :: "string \<Rightarrow> string option"
  fe_workspaceKey :: "managed_account \<Rightarrow> string \<Rightarrow> string option"

datatype forecast_reason =
    AccountDisabled | AuthInvalidated | HardAuthFailure token_failure | RefreshWarning token_failure
  | CooldownRemaining jsnum | RateLimitResetsIn jsnum | QuotaCacheExhausted | QuotaResetsIn jsnum
  | PolicyBlocked | RuntimeSkip string | LiveProbe429 | PrimaryUsed jsnum | SecondaryUsed jsnum

record forecast_result =
  fr_index :: nat
  fr_label :: string
  fr_isCurrent :: bool
  fr_availability :: availability
  fr_riskScore :: jsnum
  fr_riskLevel :: risk_level
  fr_waitMs :: jsnum
  fr_reasons :: "forecast_reason list"
  fr_hardFailure :: bool
  fr_disabled :: bool
  fr_exhausted :: bool

section \<open>Helpers\<close>

definition js_round :: "jsnum \<Rightarrow> jsnum" where
  "js_round x = js_floor (x + 1 / 2)"

definition clampRisk :: "jsnum \<Rightarrow> jsnum" where
  "clampRisk x = max 0 (min 100 (js_round x))"

definition getRiskLevel :: "jsnum \<Rightarrow> risk_level" where
  "getRiskLevel x = (if 75 \<le> x then HighRisk else if 40 \<le> x then MediumRisk else LowRisk)"

definition max_or :: "jsnum \<Rightarrow> jsnum list \<Rightarrow> jsnum" where
  "max_or d xs = (case xs of [] \<Rightarrow> d | x # ys \<Rightarrow> fold max ys x)"

definition getLiveQuotaWaitMs :: "live_quota \<Rightarrow> jsnum \<Rightarrow> bool \<Rightarrow> jsnum" where
  "getLiveQuotaWaitMs snapshot now onlyExhausted =
     max_or 0 (List.map_filter
       (\<lambda>w. if onlyExhausted \<and> \<not> quotaUsedPercentIsExhausted (qw_usedPercent w) then None
            else (case qw_resetAtMs w of
                    None \<Rightarrow> None
                  | Some resetAt \<Rightarrow> if 0 < resetAt - now then Some (resetAt - now) else None))
       [lq_primary snapshot, lq_secondary snapshot])"

definition describeQuotaUsage :: "(jsnum \<Rightarrow> forecast_reason) \<Rightarrow> jsnum option \<Rightarrow> forecast_reason list" where
  "describeQuotaUsage label used =
     (case used of None \<Rightarrow> [] | Some u \<Rightarrow> [label (max 0 (min 100 (js_round u)))])"

definition isHardRefreshFailure :: "token_failure \<Rightarrow> bool" where
  "isHardRefreshFailure f \<longleftrightarrow>
     (if tf_reason f = Some ''missing_refresh'' then True
      else if tf_statusCode f = Some 401 then True
      else if tf_statusCode f \<noteq> Some 400 then False
      else let message = js_lower (nullish (tf_message f) [])
           in js_includes message ''invalid_grant'' \<or> js_includes message ''invalid refresh''
              \<or> js_includes message ''token has been revoked'')"

section \<open>The blocks of an evaluation\<close>

record forecast_state =
  fs_availability :: availability
  fs_risk :: jsnum
  fs_wait :: jsnum
  fs_reasons :: "forecast_reason list"
  fs_hardFailure :: bool
  fs_exhausted :: bool

definition add_risk :: "jsnum \<Rightarrow> forecast_state \<Rightarrow> forecast_state" where
  "add_risk x s = s\<lparr>fs_risk := fs_risk s + x\<rparr>"

definition add_reasons :: "forecast_reason list \<Rightarrow> forecast_state \<Rightarrow> forecast_state" where
  "add_reasons rs s = s\<lparr>fs_reasons := fs_reasons s @ rs\<rparr>"

definition set_unavailable :: "forecast_state \<Rightarrow> forecast_state" where
  "set_unavailable s = s\<lparr>fs_availability := Unavailable\<rparr>"

text \<open>\<open>if (availability === "ready") availability = "delayed"\<close>\<close>

definition set_delayed :: "forecast_state \<Rightarrow> forecast_state" where
  "set_delayed s = (if fs_availability s = Ready then s\<lparr>fs_availability := Delayed\<rparr> else s)"

definition widen_wait :: "jsnum \<Rightarrow> forecast_state \<Rightarrow> forecast_state" where
  "widen_wait w s = s\<lparr>fs_wait := max (fs_wait s) w\<rparr>"

definition wait_reason :: "(jsnum \<Rightarrow> forecast_reason) \<Rightarrow> jsnum \<Rightarrow> forecast_reason list" where
  "wait_reason label waitMs = (if waitMs \<le> 0 then [] else [label waitMs])"

definition account_disabled :: "managed_account \<Rightarrow> bool" where
  "account_disabled a \<longleftrightarrow> ma_enabled a = Some False"

definition disabled_block :: "managed_account \<Rightarrow> forecast_state \<Rightarrow> forecast_state" where
  "disabled_block a s =
     (if account_disabled a then add_reasons [AccountDisabled] (add_risk 95 (set_unavailable s)) else s)"

definition auth_block :: "managed_account \<Rightarrow> forecast_state \<Rightarrow> forecast_state" where
  "auth_block a s =
     (case authInvalidatedAt a of
        Some (Finite t) \<Rightarrow> add_reasons [AuthInvalidated] (add_risk 95 (set_unavailable s))
      | _ \<Rightarrow> s)"

definition refresh_block :: "token_failure option \<Rightarrow> forecast_state \<Rightarrow> forecast_state" where
  "refresh_block failure s =
     (case failure of
        None \<Rightarrow> s
      | Some f \<Rightarrow>
          let hard = isHardRefreshFailure f; s = s\<lparr>fs_hardFailure := hard\<rparr>
          in if hard then add_reasons [HardAuthFailure f] (add_risk 90 (set_unavailable s))
             else add_reasons [RefreshWarning f] (add_risk 25 s))"

definition cooldown_block :: "managed_account \<Rightarrow> jsnum \<Rightarrow> forecast_state \<Rightarrow> forecast_state" where
  "cooldown_block a now s =
     (case coolingDownUntil a of
        None \<Rightarrow> s
      | Some until \<Rightarrow>
          if now < until
          then add_reasons (wait_reason CooldownRemaining (until - now))
                 (add_risk 45 (set_delayed (widen_wait (until - now) s)))
          else s)"

definition forecast_reset_at :: "forecast_env \<Rightarrow> forecast_input \<Rightarrow> jsnum option" where
  "forecast_reset_at env i =
     (let family = nullish (fi_family i) ''codex''
      in if truthy_string (fi_model i)
         then getRateLimitResetTimeForModel (fe_claim env) (fi_account i) (fi_now i) family
                (the (fi_model i))
         else getRateLimitResetTimeForFamily (fe_claim env) (fi_account i) (fi_now i) family)"

definition rate_limit_block :: "jsnum option \<Rightarrow> jsnum \<Rightarrow> forecast_state \<Rightarrow> forecast_state" where
  "rate_limit_block resetAt now s =
     (case resetAt of
        None \<Rightarrow> s
      | Some r \<Rightarrow>
          let remaining = max 0 (r - now)
          in add_reasons (wait_reason RateLimitResetsIn remaining)
               (add_risk 35 (set_delayed (widen_wait remaining s))))"

definition quota_ref :: "managed_account \<Rightarrow> quota_account_ref" where
  "quota_ref a = \<lparr>qa_accountId = accountId a, qa_email = ma_email a\<rparr>"

definition quotaWorkspaceId :: "(string \<Rightarrow> string option) \<Rightarrow> managed_account \<Rightarrow> string option" where
  "quotaWorkspaceId claim a =
     (let selectedId =
        (case workspaces a of
           Some (w # ws) \<Rightarrow>
             map_option (\<lambda>x. js_trim (ws_id x))
               (js_index (w # ws) (nullish (currentWorkspaceIndex a) 0))
         | _ \<Rightarrow> (case nonblank (accountId a) of
                  Some i \<Rightarrow> Some i | None \<Rightarrow> extractAccountId claim (accessToken a)))
      in nativeWorkspaceIdentity claim (accessToken a) (codexCliMirror a) selectedId)"

definition forecast_quota_entry :: "forecast_env \<Rightarrow> forecast_input \<Rightarrow> quota_entry option" where
  "forecast_quota_entry env i =
     (case fi_quotaCache i of
        None \<Rightarrow> None
      | Some cache \<Rightarrow>
          let a = fi_account i; workspaceId = quotaWorkspaceId (fe_claim env) a
          in findQuotaCacheEntryForAccount cache (quota_ref a)
               (map quota_ref (nullish (fi_allAccounts i) [a]))
               (case workspaces a of Some (w # ws) \<Rightarrow> True | _ \<Rightarrow> False) workspaceId
               (Option.bind workspaceId (\<lambda>w. if w = [] then None else fe_workspaceKey env a w)))"

definition exhausted_resets :: "quota_entry \<Rightarrow> jsnum \<Rightarrow> jsnum list" where
  "exhausted_resets e now =
     List.map_filter
       (\<lambda>w. if quotaUsedPercentIsExhausted (qw_usedPercent w)
            then (case qw_resetAtMs w of Some r \<Rightarrow> if now < r then Some r else None | None \<Rightarrow> None)
            else None)
       [qe_primary e, qe_secondary e]"

definition quota_block :: "quota_entry option \<Rightarrow> jsnum \<Rightarrow> forecast_state \<Rightarrow> forecast_state" where
  "quota_block entry now s =
     (if isQuotaCacheEntryExhausted entry now
      then
        let resetAts = (case entry of None \<Rightarrow> [] | Some e \<Rightarrow> exhausted_resets e now);
            quotaWait = (if resetAts \<noteq> [] then max_or 0 resetAts - now else fs_wait s)
        in add_reasons (QuotaCacheExhausted # wait_reason QuotaResetsIn quotaWait)
             (add_risk 60 ((set_delayed (widen_wait quotaWait s))\<lparr>fs_exhausted := True\<rparr>))
      else s)"

definition overlay_reason :: "forecast_overlay option \<Rightarrow> nat \<Rightarrow> string option" where
  "overlay_reason overlay index =
     (case overlay of
        None \<Rightarrow> None
      | Some o' \<Rightarrow>
          (case Option.bind (fo_accountSkipReasons o') (\<lambda>m. map_of m (show_nat index)) of
             Some r \<Rightarrow> Some r
           | None \<Rightarrow>
               Option.bind (fo_lastPoolExhaustionSkipReasons o') (\<lambda>m. map_of m (show_nat index))))"

definition cooling_now :: "managed_account \<Rightarrow> jsnum \<Rightarrow> bool" where
  "cooling_now a now \<longleftrightarrow> (case coolingDownUntil a of Some t \<Rightarrow> now < t | None \<Rightarrow> False)"

definition stale_overlay_reason :: "string option \<Rightarrow> jsnum option \<Rightarrow> bool \<Rightarrow> bool" where
  "stale_overlay_reason reason resetAt coolingDownActive \<longleftrightarrow>
     (if reason = Some ''rate-limited'' then resetAt = None
      else if (case reason of Some r \<Rightarrow> js_starts_with r ''cooling-down'' | None \<Rightarrow> False)
      then \<not> coolingDownActive else False)"

definition policy_blocked :: "forecast_overlay option \<Rightarrow> nat \<Rightarrow> bool" where
  "policy_blocked overlay index \<longleftrightarrow>
     (case overlay of None \<Rightarrow> False
      | Some o' \<Rightarrow> (case fo_policyBlockedIndexes o' of None \<Rightarrow> False | Some is \<Rightarrow> index \<in> set is))"

text \<open>The skip reason of the runtime that still applies.\<close>

definition active_skip :: "string option \<Rightarrow> jsnum option \<Rightarrow> bool \<Rightarrow> bool" where
  "active_skip reason resetAt coolingDownActive \<longleftrightarrow>
     truthy_string reason \<and> reason \<noteq> Some ''already-attempted''
     \<and> \<not> stale_overlay_reason reason resetAt coolingDownActive"

definition overlay_block ::
    "forecast_overlay option \<Rightarrow> nat \<Rightarrow> jsnum option \<Rightarrow> bool \<Rightarrow> forecast_state \<Rightarrow> forecast_state" where
  "overlay_block overlay index resetAt coolingDownActive s =
     (let reason = overlay_reason overlay index
      in if policy_blocked overlay index
         then add_reasons [PolicyBlocked] (add_risk 95 (set_unavailable s))
         else if active_skip reason resetAt coolingDownActive
         then add_reasons [RuntimeSkip (the reason)]
                (add_risk (if reason = Some ''circuit-open'' then 90
                           else if reason = Some ''token-exhausted'' then 70 else 50)
                  (set_unavailable s))
         else s)"

definition live_exhausted :: "live_quota \<Rightarrow> bool" where
  "live_exhausted q \<longleftrightarrow>
     quotaUsedPercentIsExhausted (qw_usedPercent (lq_primary q)) \<and> qw_resetAtMs (lq_primary q) = None
     \<or> quotaUsedPercentIsExhausted (qw_usedPercent (lq_secondary q))
       \<and> qw_resetAtMs (lq_secondary q) = None"

definition usage_risk :: "jsnum \<Rightarrow> jsnum \<Rightarrow> jsnum" where
  "usage_risk primaryUsed secondaryUsed =
     (if 98 \<le> primaryUsed \<or> 98 \<le> secondaryUsed then 55
      else if 90 \<le> primaryUsed \<or> 90 \<le> secondaryUsed then 35
      else if 80 \<le> primaryUsed \<or> 80 \<le> secondaryUsed then 20
      else if 70 \<le> primaryUsed \<or> 70 \<le> secondaryUsed then 10
      else 0)"

definition live_wait :: "live_quota \<Rightarrow> jsnum \<Rightarrow> jsnum" where
  "live_wait q now =
     (let primaryUsed = nullish (qw_usedPercent (lq_primary q)) 0;
          secondaryUsed = nullish (qw_usedPercent (lq_secondary q)) 0;
          quotaPressure = (lq_status q = 429 \<or> 90 \<le> primaryUsed \<or> 90 \<le> secondaryUsed)
      in if quotaPressure then getLiveQuotaWaitMs q now (lq_status q \<noteq> 429) else 0)"

definition live_block :: "live_quota option \<Rightarrow> jsnum \<Rightarrow> forecast_state \<Rightarrow> forecast_state" where
  "live_block quota now s =
     (case quota of
        None \<Rightarrow> s
      | Some q \<Rightarrow>
          let s1 = (if lq_status q = 429 then add_reasons [LiveProbe429] (add_risk 35
                      (if fs_availability s = Unavailable then s else s\<lparr>fs_availability := Delayed\<rparr>))
                    else s);
              liveWait = live_wait q now;
              s2 = widen_wait liveWait s1;
              s3 = (if 0 < liveWait then set_delayed s2 else s2);
              s4 = (if live_exhausted q then set_delayed (s3\<lparr>fs_exhausted := True\<rparr>) else s3);
              s5 = add_reasons (describeQuotaUsage PrimaryUsed (qw_usedPercent (lq_primary q))
                     @ describeQuotaUsage SecondaryUsed (qw_usedPercent (lq_secondary q))) s4
          in add_risk (usage_risk (nullish (qw_usedPercent (lq_primary q)) 0)
                         (nullish (qw_usedPercent (lq_secondary q)) 0)) s5)"

definition age_block :: "managed_account \<Rightarrow> jsnum \<Rightarrow> forecast_state \<Rightarrow> forecast_state" where
  "age_block a now s =
     (if 0 < lastUsed a
      then let lastUsedAge = now - lastUsed a
           in if lastUsedAge < 0 then add_risk 5 s
              else if 7 * 24 * 60 * 60 * 1000 < lastUsedAge then add_risk 10 s else s
      else s)"

definition initial_forecast :: "bool \<Rightarrow> forecast_state" where
  "initial_forecast isCurrent = \<lparr>fs_availability = Ready, fs_risk = (if isCurrent then -5 else 0),
     fs_wait = 0, fs_reasons = [], fs_hardFailure = False, fs_exhausted = False\<rparr>"

definition evaluate_blocks :: "forecast_env \<Rightarrow> forecast_input \<Rightarrow> forecast_state" where
  "evaluate_blocks env i =
     (let a = fi_account i; now = fi_now i; resetAt = forecast_reset_at env i
      in age_block a now
           (live_block (fi_liveQuota i) now
             (overlay_block (fi_runtimeOverlay i) (fi_index i) resetAt (cooling_now a now)
               (quota_block (forecast_quota_entry env i) now
                 (rate_limit_block resetAt now
                   (cooldown_block a now
                     (refresh_block (fi_refreshFailure i)
                       (auth_block a
                         (disabled_block a (initial_forecast (fi_isCurrent i)))))))))))"

definition evaluateForecastAccount :: "forecast_env \<Rightarrow> forecast_input \<Rightarrow> forecast_result" where
  "evaluateForecastAccount env i =
     (let s = evaluate_blocks env i; finalRisk = clampRisk (fs_risk s)
      in \<lparr>fr_index = fi_index i,
          fr_label = redactEmails (formatAccountLabel (fi_account i) (fi_index i)),
          fr_isCurrent = fi_isCurrent i, fr_availability = fs_availability s,
          fr_riskScore = finalRisk, fr_riskLevel = getRiskLevel finalRisk,
          fr_waitMs = max 0 (js_floor (fs_wait s)), fr_reasons = fs_reasons s,
          fr_hardFailure = fs_hardFailure s, fr_disabled = account_disabled (fi_account i),
          fr_exhausted = fs_exhausted s\<rparr>)"

definition evaluateForecastAccounts :: "forecast_env \<Rightarrow> forecast_input list \<Rightarrow> forecast_result list" where
  "evaluateForecastAccounts env inputs = map (evaluateForecastAccount env) inputs"

section \<open>The recommendation\<close>

definition availability_rank :: "availability \<Rightarrow> jsnum" where
  "availability_rank v = (case v of Ready \<Rightarrow> 0 | Delayed \<Rightarrow> 1 | Unavailable \<Rightarrow> 2)"

definition compareForecastResults :: "forecast_result \<Rightarrow> forecast_result \<Rightarrow> jsnum" where
  "compareForecastResults a b =
     (if fr_availability a \<noteq> fr_availability b
      then availability_rank (fr_availability a) - availability_rank (fr_availability b)
      else if fr_availability a = Delayed \<and> fr_availability b = Delayed \<and> fr_waitMs a \<noteq> fr_waitMs b
      then fr_waitMs a - fr_waitMs b
      else if fr_riskScore a \<noteq> fr_riskScore b then fr_riskScore a - fr_riskScore b
      else if fr_isCurrent a \<noteq> fr_isCurrent b then (if fr_isCurrent a then -1 else 1)
      else of_nat (fr_index a) - of_nat (fr_index b))"

datatype recommendation_reason =
    BlockedOrExhausted | NoHealthyAccount | NoRecommendation
  | LowestRisk risk_level jsnum | ShortestWait jsnum

definition recommendable :: "forecast_result \<Rightarrow> bool" where
  "recommendable r \<longleftrightarrow> \<not> fr_disabled r \<and> \<not> fr_hardFailure r \<and> \<not> fr_exhausted r
     \<and> fr_availability r \<noteq> Unavailable"

definition recommendForecastAccount :: "forecast_result list \<Rightarrow> nat option \<times> recommendation_reason" where
  "recommendForecastAccount results =
     (let candidates = filter recommendable results
      in if candidates = []
         then (None,
               if list_ex (\<lambda>r. \<not> fr_disabled r \<and> \<not> fr_hardFailure r
                     \<and> (fr_exhausted r \<or> fr_availability r = Unavailable)) results
               then BlockedOrExhausted else NoHealthyAccount)
         else
           (case sort_cmp (\<lambda>a b. js_sign (compareForecastResults a b)) candidates of
              [] \<Rightarrow> (None, NoRecommendation)
            | best # _ \<Rightarrow>
                if fr_availability best = Ready
                then (Some (fr_index best), LowestRisk (fr_riskLevel best) (fr_riskScore best))
                else (Some (fr_index best), ShortestWait (fr_waitMs best))))"

record forecast_summary =
  fsum_total :: nat
  fsum_ready :: nat
  fsum_delayed :: nat
  fsum_unavailable :: nat
  fsum_highRisk :: nat

definition summarizeForecast :: "forecast_result list \<Rightarrow> forecast_summary" where
  "summarizeForecast results =
     \<lparr>fsum_total = length results,
      fsum_ready = length (filter (\<lambda>r. fr_availability r = Ready) results),
      fsum_delayed = length (filter (\<lambda>r. fr_availability r = Delayed) results),
      fsum_unavailable = length (filter (\<lambda>r. fr_availability r = Unavailable) results),
      fsum_highRisk = length (filter (\<lambda>r. fr_riskLevel r = HighRisk) results)\<rparr>"

text \<open>The explanation: the recommendation and, with each result, whether it is the one selected.\<close>

definition buildForecastExplanation ::
    "forecast_result list \<Rightarrow> nat option \<times> recommendation_reason
     \<Rightarrow> (nat option \<times> recommendation_reason) \<times> (forecast_result \<times> bool) list" where
  "buildForecastExplanation results recommendation =
     (recommendation, map (\<lambda>r. (r, fst recommendation = Some (fr_index r))) results)"


section \<open>What each block changes\<close>

named_theorems block_simps \<open>availability, hard failure and exhaustion after a block\<close>

lemmas block_defs = disabled_block_def auth_block_def refresh_block_def cooldown_block_def
  rate_limit_block_def quota_block_def overlay_block_def live_block_def age_block_def
  add_risk_def add_reasons_def set_unavailable_def set_delayed_def widen_wait_def

lemma unavailable_blocks [block_simps]:
  "fs_availability (disabled_block a s) = Unavailable
    \<longleftrightarrow> account_disabled a \<or> fs_availability s = Unavailable"
  "fs_availability (auth_block a s) = Unavailable
    \<longleftrightarrow> (\<exists>t. authInvalidatedAt a = Some (Finite t)) \<or> fs_availability s = Unavailable"
  "fs_availability (refresh_block f s) = Unavailable
    \<longleftrightarrow> (\<exists>x. f = Some x \<and> isHardRefreshFailure x) \<or> fs_availability s = Unavailable"
  "fs_availability (cooldown_block a now s) = Unavailable \<longleftrightarrow> fs_availability s = Unavailable"
  "fs_availability (rate_limit_block r now s) = Unavailable \<longleftrightarrow> fs_availability s = Unavailable"
  "fs_availability (quota_block e now s) = Unavailable \<longleftrightarrow> fs_availability s = Unavailable"
  "fs_availability (overlay_block ov ix r c s) = Unavailable
    \<longleftrightarrow> policy_blocked ov ix \<or> active_skip (overlay_reason ov ix) r c \<or> fs_availability s = Unavailable"
  "fs_availability (live_block q now s) = Unavailable \<longleftrightarrow> fs_availability s = Unavailable"
  "fs_availability (age_block a now s) = Unavailable \<longleftrightarrow> fs_availability s = Unavailable"
  by (simp_all add: block_defs Let_def split: option.split jsval.split)

lemma hard_blocks [block_simps]:
  "fs_hardFailure (disabled_block a s) = fs_hardFailure s"
  "fs_hardFailure (auth_block a s) = fs_hardFailure s"
  "fs_hardFailure (refresh_block f s)
    = (case f of None \<Rightarrow> fs_hardFailure s | Some x \<Rightarrow> isHardRefreshFailure x)"
  "fs_hardFailure (cooldown_block a now s) = fs_hardFailure s"
  "fs_hardFailure (rate_limit_block r now s) = fs_hardFailure s"
  "fs_hardFailure (quota_block e now s) = fs_hardFailure s"
  "fs_hardFailure (overlay_block ov ix r c s) = fs_hardFailure s"
  "fs_hardFailure (live_block q now s) = fs_hardFailure s"
  "fs_hardFailure (age_block a now s) = fs_hardFailure s"
  by (simp_all add: block_defs Let_def split: option.split jsval.split)

lemma exhausted_blocks [block_simps]:
  "fs_exhausted (disabled_block a s) = fs_exhausted s"
  "fs_exhausted (auth_block a s) = fs_exhausted s"
  "fs_exhausted (refresh_block f s) = fs_exhausted s"
  "fs_exhausted (cooldown_block a now s) = fs_exhausted s"
  "fs_exhausted (rate_limit_block r now s) = fs_exhausted s"
  "fs_exhausted (quota_block e now s) \<longleftrightarrow> isQuotaCacheEntryExhausted e now \<or> fs_exhausted s"
  "fs_exhausted (overlay_block ov ix r c s) = fs_exhausted s"
  "fs_exhausted (live_block q now s) \<longleftrightarrow> (\<exists>x. q = Some x \<and> live_exhausted x) \<or> fs_exhausted s"
  "fs_exhausted (age_block a now s) = fs_exhausted s"
  by (simp_all add: block_defs Let_def split: option.split jsval.split)

text \<open>\<open>wait_ok\<close>: an account that is still ready has nothing to wait for and is not exhausted.\<close>

definition wait_ok :: "forecast_state \<Rightarrow> bool" where
  "wait_ok s \<longleftrightarrow> 0 \<le> fs_wait s \<and> (fs_availability s = Ready \<longrightarrow> fs_wait s = 0 \<and> \<not> fs_exhausted s)"

lemma max_or_nonneg: "\<forall>x\<in>set xs. 0 \<le> x \<Longrightarrow> 0 \<le> d \<Longrightarrow> 0 \<le> max_or d xs"
proof (cases xs)
  case (Cons x ys)
  assume "\<forall>x\<in>set xs. 0 \<le> x"
  then have "0 \<le> x" "\<forall>y\<in>set ys. 0 \<le> y" using Cons by auto
  then have "0 \<le> fold max ys x"
    by (induction ys arbitrary: x) auto
  then show ?thesis using Cons by (simp add: max_or_def)
qed (simp add: max_or_def)

lemma getLiveQuotaWaitMs_nonneg: "0 \<le> getLiveQuotaWaitMs q now b"
  unfolding getLiveQuotaWaitMs_def
  by (rule max_or_nonneg) (auto simp: List.map_filter_def split: option.splits if_splits)

lemma live_wait_nonneg: "0 \<le> live_wait q now"
  by (simp add: live_wait_def Let_def getLiveQuotaWaitMs_nonneg)

lemma wait_ok_blocks [intro]:
  "wait_ok s \<Longrightarrow> wait_ok (disabled_block a s)"
  "wait_ok s \<Longrightarrow> wait_ok (auth_block a s)"
  "wait_ok s \<Longrightarrow> wait_ok (refresh_block f s)"
  "wait_ok s \<Longrightarrow> wait_ok (cooldown_block a now s)"
  "wait_ok s \<Longrightarrow> wait_ok (rate_limit_block r now s)"
  "wait_ok s \<Longrightarrow> wait_ok (quota_block e now s)"
  "wait_ok s \<Longrightarrow> wait_ok (overlay_block ov ix r c s)"
  "wait_ok s \<Longrightarrow> wait_ok (age_block a now s)"
  by (simp_all add: wait_ok_def block_defs Let_def max.coboundedI1 split: option.split jsval.split)

lemma wait_ok_live [intro]: "wait_ok s \<Longrightarrow> wait_ok (live_block q now s)"
proof (cases q)
  case (Some x)
  assume ok: "wait_ok s"
  have "0 \<le> live_wait x now" by (rule live_wait_nonneg)
  then consider (zero) "live_wait x now = 0" | (pos) "0 < live_wait x now" by linarith
  then show ?thesis
  proof cases
    case zero
    then show ?thesis using ok Some by (auto simp: wait_ok_def block_defs Let_def max_def)
  next
    case pos
    then show ?thesis using ok Some by (auto simp: wait_ok_def block_defs Let_def max_def)
  qed
qed (simp add: live_block_def)

lemma evaluate_blocks_wait_ok: "wait_ok (evaluate_blocks env i)"
proof -
  have "wait_ok (initial_forecast c)" for c by (simp add: wait_ok_def initial_forecast_def)
  then show ?thesis unfolding evaluate_blocks_def Let_def by (intro wait_ok_blocks wait_ok_live)
qed

lemma ready_blocks [block_simps]:
  "fs_availability (cooldown_block a now s) = Ready \<longleftrightarrow> \<not> cooling_now a now \<and> fs_availability s = Ready"
  "fs_availability (rate_limit_block r now s) = Ready \<longleftrightarrow> r = None \<and> fs_availability s = Ready"
  "fs_availability (quota_block e now s) = Ready
    \<longleftrightarrow> \<not> isQuotaCacheEntryExhausted e now \<and> fs_availability s = Ready"
  "fs_availability (overlay_block ov ix r c s) = Ready
    \<longleftrightarrow> \<not> policy_blocked ov ix \<and> \<not> active_skip (overlay_reason ov ix) r c \<and> fs_availability s = Ready"
  "fs_availability (age_block a now s) = fs_availability s"
  by (auto simp: block_defs cooling_now_def Let_def split: option.split)

lemma live_block_ready: "fs_availability (live_block q now s) = Ready \<Longrightarrow> fs_availability s = Ready"
  by (cases q) (auto simp: block_defs Let_def split: if_splits)

text \<open>
  A forecast is well formed: the risk is between 0 and 100 and the wait is not negative; an
  account shown as ready has a wait of 0, is not exhausted and has neither a cooldown nor a rate
  limit in force for the model asked about.
\<close>

theorem forecast_well_formed:
  fixes env :: forecast_env and i :: forecast_input
  defines "r \<equiv> evaluateForecastAccount env i"
  shows "0 \<le> fr_riskScore r \<and> fr_riskScore r \<le> 100 \<and> 0 \<le> fr_waitMs r
    \<and> \<not> (fr_availability r = Ready \<and> (fr_waitMs r \<noteq> 0 \<or> fr_exhausted r \<or> cooling_now (fi_account i) (fi_now i)
          \<or> forecast_reset_at env i \<noteq> None))"
proof -
  define s where "s = evaluate_blocks env i"
  have ok: "wait_ok s" by (simp add: s_def evaluate_blocks_wait_ok)
  have ready: "\<not> cooling_now (fi_account i) (fi_now i) \<and> forecast_reset_at env i = None"
    if "fs_availability s = Ready"
  proof -
    have "fs_availability (overlay_block (fi_runtimeOverlay i) (fi_index i) (forecast_reset_at env i)
        (cooling_now (fi_account i) (fi_now i)) (quota_block (forecast_quota_entry env i) (fi_now i)
          (rate_limit_block (forecast_reset_at env i) (fi_now i) (cooldown_block (fi_account i) (fi_now i)
            (refresh_block (fi_refreshFailure i) (auth_block (fi_account i)
              (disabled_block (fi_account i) (initial_forecast (fi_isCurrent i))))))))) = Ready"
      using that unfolding s_def evaluate_blocks_def Let_def ready_blocks(5) by (rule live_block_ready)
    then show ?thesis by (simp add: block_simps)
  qed
  have r: "fr_riskScore r = clampRisk (fs_risk s)" "fr_waitMs r = max 0 (js_floor (fs_wait s))"
    "fr_availability r = fs_availability s" "fr_exhausted r = fs_exhausted s"
    unfolding r_def evaluateForecastAccount_def Let_def s_def by (simp_all only: forecast_result.select_convs)
  have bounds: "0 \<le> fr_riskScore r" "fr_riskScore r \<le> 100" "0 \<le> fr_waitMs r"
    unfolding r clampRisk_def by (simp_all add: max_def min_def)
  show ?thesis
  proof (intro conjI bounds notI)
    assume bad: "fr_availability r = Ready \<and> (fr_waitMs r \<noteq> 0 \<or> fr_exhausted r
      \<or> cooling_now (fi_account i) (fi_now i) \<or> forecast_reset_at env i \<noteq> None)"
    then have "fs_availability s = Ready" by (simp only: r)
    with ok ready have "fs_wait s = 0" "\<not> fs_exhausted s"
      "\<not> cooling_now (fi_account i) (fi_now i)" "forecast_reset_at env i = None"
      unfolding wait_ok_def by blast+
    with bad show False by (simp add: r(2,4))
  qed
qed

section \<open>Who is recommended\<close>

definition forecast_usable :: "forecast_env \<Rightarrow> forecast_input \<Rightarrow> bool" where
  "forecast_usable env i \<longleftrightarrow>
     (let a = fi_account i; now = fi_now i
      in \<not> account_disabled a \<and> (\<forall>t. authInvalidatedAt a \<noteq> Some (Finite t))
         \<and> \<not> (\<exists>f. fi_refreshFailure i = Some f \<and> isHardRefreshFailure f)
         \<and> \<not> isQuotaCacheEntryExhausted (forecast_quota_entry env i) now
         \<and> \<not> policy_blocked (fi_runtimeOverlay i) (fi_index i)
         \<and> \<not> active_skip (overlay_reason (fi_runtimeOverlay i) (fi_index i)) (forecast_reset_at env i)
               (cooling_now a now)
         \<and> \<not> (\<exists>q. fi_liveQuota i = Some q \<and> live_exhausted q))"

lemma recommendable_usable: "recommendable (evaluateForecastAccount env i) \<longleftrightarrow> forecast_usable env i"
  by (auto simp: recommendable_def forecast_usable_def evaluateForecastAccount_def evaluate_blocks_def
      block_simps initial_forecast_def Let_def split: option.splits)

text \<open>The order of the recommendation as a tuple: availability, then the wait of a delayed account,
  the risk, the current account first, the index.\<close>

definition forecast_key :: "forecast_result \<Rightarrow> jsnum \<times> jsnum \<times> jsnum \<times> jsnum \<times> jsnum" where
  "forecast_key r = (availability_rank (fr_availability r),
     (if fr_availability r = Delayed then fr_waitMs r else 0), fr_riskScore r,
     (if fr_isCurrent r then 0 else 1), of_nat (fr_index r))"

lemma compare_key: "js_sign (compareForecastResults a b) \<le> 0 \<longleftrightarrow> forecast_key a \<le> forecast_key b"
  unfolding js_sign_le
  by (cases "fr_availability a"; cases "fr_availability b")
    (auto simp: compareForecastResults_def forecast_key_def availability_rank_def less_eq_prod_def)

text \<open>
  C23. The recommendation is exact: an account is recommended if and only if one can be used - not
  disabled, logged in, not refused for good by a refresh, not exhausted in the cache or by the live
  probe, and not kept out by a policy or by a skip reason of the runtime that is still true - and then
  it is one of these, the least in the order: ready before delayed, among delayed ones the shortest
  wait, then the lowest risk, the current account and the lowest index.
\<close>

theorem recommendation_exact:
  "(case fst (recommendForecastAccount (evaluateForecastAccounts env inputs)) of
      None \<Rightarrow> filter (forecast_usable env) inputs = []
    | Some n \<Rightarrow> \<exists>i\<in>set (filter (forecast_usable env) inputs). fi_index i = n
        \<and> (\<forall>j\<in>set (filter (forecast_usable env) inputs).
             forecast_key (evaluateForecastAccount env i) \<le> forecast_key (evaluateForecastAccount env j)))"
proof -
  define cs where "cs = filter recommendable (evaluateForecastAccounts env inputs)"
  define us where "us = filter (forecast_usable env) inputs"
  have cs: "cs = map (evaluateForecastAccount env) us"
    by (simp add: cs_def us_def evaluateForecastAccounts_def filter_map comp_def recommendable_usable)
  show ?thesis unfolding us_def [symmetric]
  proof (cases "cs = []")
    case True
    then have "us = []" using cs by simp
    with True show "case fst (recommendForecastAccount (evaluateForecastAccounts env inputs)) of
        None \<Rightarrow> us = []
      | Some n \<Rightarrow> \<exists>i\<in>set us. fi_index i = n \<and> (\<forall>j\<in>set us.
          forecast_key (evaluateForecastAccount env i) \<le> forecast_key (evaluateForecastAccount env j))"
      by (simp add: recommendForecastAccount_def cs_def [symmetric] Let_def)
  next
    case False
    define ord where "ord = sort_cmp (\<lambda>a b. js_sign (compareForecastResults a b)) cs"
    have "set ord = set cs" unfolding ord_def by (rule set_sort_cmp(1))
    then obtain best rest where best: "ord = best # rest" using False by (cases ord) auto
    have min: "best \<in> set cs \<and> (\<forall>x\<in>set cs. forecast_key best \<le> forecast_key x)"
      by (rule sort_cmp_head [OF compare_key]) (use best in \<open>simp add: ord_def\<close>)
    then obtain i where i: "i \<in> set us" "best = evaluateForecastAccount env i" using cs by auto
    have "fst (recommendForecastAccount (evaluateForecastAccounts env inputs)) = Some (fr_index best)"
      using False best
      by (simp add: recommendForecastAccount_def cs_def [symmetric] ord_def [symmetric] Let_def)
    moreover have "fr_index best = fi_index i"
      by (simp add: i evaluateForecastAccount_def Let_def)
    ultimately show "case fst (recommendForecastAccount (evaluateForecastAccounts env inputs)) of
        None \<Rightarrow> us = []
      | Some n \<Rightarrow> \<exists>i\<in>set us. fi_index i = n \<and> (\<forall>j\<in>set us.
          forecast_key (evaluateForecastAccount env i) \<le> forecast_key (evaluateForecastAccount env j))"
      using i min cs by auto
  qed
qed


definition example_input :: "nat \<Rightarrow> bool option \<Rightarrow> forecast_input" where
  "example_input n enabled = \<lparr>fi_index = n, fi_account = (demo_account n ''t'')\<lparr>ma_enabled := enabled\<rparr>,
     fi_isCurrent = (n = 0), fi_now = 1000, fi_refreshFailure = None, fi_liveQuota = None,
     fi_quotaCache = None, fi_allAccounts = None, fi_runtimeOverlay = None, fi_family = None,
     fi_model = None\<rparr>"

definition example_env :: forecast_env where
  "example_env = \<lparr>fe_claim = (\<lambda>_. None), fe_workspaceKey = (\<lambda>_ _. None)\<rparr>"

lemma example_usable: "forecast_usable example_env (example_input n enabled) \<longleftrightarrow> enabled \<noteq> Some False"
  by (simp add: forecast_usable_def example_input_def demo_account_def account_disabled_def
      forecast_quota_entry_def isQuotaCacheEntryExhausted_def policy_blocked_def active_skip_def
      overlay_reason_def truthy_string_def Let_def)

theorem recommendation_exact_witness:
  "fst (recommendForecastAccount (evaluateForecastAccounts example_env
     [example_input 0 (Some False), example_input 1 None])) = Some 1"
proof -
  let ?inputs = "[example_input 0 (Some False), example_input 1 None]"
  have us: "filter (forecast_usable example_env) ?inputs = [example_input 1 None]"
    by (simp add: example_usable)
  have "fi_index (example_input 1 None) = 1" by (simp add: example_input_def)
  then show ?thesis
    using recommendation_exact [of example_env ?inputs] unfolding us
    by (cases "fst (recommendForecastAccount (evaluateForecastAccounts example_env ?inputs))") auto
qed

end
