(* ===== verification/AuthRateLimit.thy ===== *)
theory AuthRateLimit
  imports JsMap
begin

text \<open>
  The limit on login attempts (\<open>lib/auth-rate-limit.ts\<close>): per account a list of the times of its
  attempts, pruned to a sliding window.  The module state is a record; every function that prunes
  returns the state it leaves.
\<close>

section \<open>State and operations\<close>

record auth_limit_config =
  al_maxAttempts :: jsnum
  al_windowMs :: jsnum

definition default_auth_limit :: auth_limit_config where
  "default_auth_limit = \<lparr>al_maxAttempts = 5, al_windowMs = 60000\<rparr>"

record auth_limits =
  al_config :: auth_limit_config
  al_attempts :: "(string, jsnum list) jsmap"

definition configureAuthRateLimit :: "jsnum option \<Rightarrow> jsnum option \<Rightarrow> auth_limits \<Rightarrow> auth_limits" where
  "configureAuthRateLimit maxAttempts windowMs s =
     s\<lparr>al_config := \<lparr>al_maxAttempts = nullish maxAttempts (al_maxAttempts (al_config s)),
                   al_windowMs = nullish windowMs (al_windowMs (al_config s))\<rparr>\<rparr>"

definition auth_account_key :: "string \<Rightarrow> string" where
  "auth_account_key i = js_trim (js_lower i)"

definition pruneOldAttempts :: "jsnum \<Rightarrow> jsnum \<Rightarrow> jsnum list \<Rightarrow> jsnum list" where
  "pruneOldAttempts windowMs now timestamps = filter (\<lambda>ts. now - windowMs < ts) timestamps"

text \<open>The record of an account after the pruning every reader does.\<close>

definition pruned_record :: "string \<Rightarrow> jsnum \<Rightarrow> auth_limits \<Rightarrow> auth_limits" where
  "pruned_record key now s =
     (case jm_get (al_attempts s) key of
        None \<Rightarrow> s
      | Some ts \<Rightarrow>
          s\<lparr>al_attempts := jm_set key (pruneOldAttempts (al_windowMs (al_config s)) now ts) (al_attempts s)\<rparr>)"

definition timestamps_of :: "auth_limits \<Rightarrow> string \<Rightarrow> jsnum list" where
  "timestamps_of s key = nullish (jm_get (al_attempts s) key) []"

definition canAttemptAuth :: "string \<Rightarrow> jsnum \<Rightarrow> auth_limits \<Rightarrow> bool \<times> auth_limits" where
  "canAttemptAuth accountId now s =
     (let key = auth_account_key accountId
      in case jm_get (al_attempts s) key of
           None \<Rightarrow> (True, s)
         | Some ts \<Rightarrow>
             let s' = pruned_record key now s
             in (of_nat (length (timestamps_of s' key)) < al_maxAttempts (al_config s'), s'))"

definition recordAuthAttempt :: "string \<Rightarrow> jsnum \<Rightarrow> auth_limits \<Rightarrow> auth_limits" where
  "recordAuthAttempt accountId now s =
     (let key = auth_account_key accountId;
          ts = pruneOldAttempts (al_windowMs (al_config s)) now (timestamps_of s key) @ [now]
      in s\<lparr>al_attempts := jm_set key ts (al_attempts s)\<rparr>)"

definition getAttemptsRemaining :: "string \<Rightarrow> jsnum \<Rightarrow> auth_limits \<Rightarrow> jsnum \<times> auth_limits" where
  "getAttemptsRemaining accountId now s =
     (let key = auth_account_key accountId
      in case jm_get (al_attempts s) key of
           None \<Rightarrow> (al_maxAttempts (al_config s), s)
         | Some ts \<Rightarrow>
             let s' = pruned_record key now s
             in (max 0 (al_maxAttempts (al_config s') - of_nat (length (timestamps_of s' key))), s'))"

definition getTimeUntilReset_auth :: "string \<Rightarrow> jsnum \<Rightarrow> auth_limits \<Rightarrow> jsnum \<times> auth_limits" where
  "getTimeUntilReset_auth accountId now s =
     (let key = auth_account_key accountId
      in if timestamps_of s key = [] then (0, s)
         else
           let s' = pruned_record key now s
           in case timestamps_of s' key of
                [] \<Rightarrow> (0, s')
              | t # ts \<Rightarrow>
                  let oldestAttempt = fold min ts t;
                      resetTime = oldestAttempt + al_windowMs (al_config s')
                  in (max 0 (resetTime - now), s'))"

definition resetAuthRateLimit :: "string \<Rightarrow> auth_limits \<Rightarrow> auth_limits" where
  "resetAuthRateLimit accountId s =
     s\<lparr>al_attempts := jm_delete (auth_account_key accountId) (al_attempts s)\<rparr>"

definition resetAllAuthRateLimits :: "auth_limits \<Rightarrow> auth_limits" where
  "resetAllAuthRateLimits s = s\<lparr>al_attempts := []\<rparr>"

text \<open>\<open>AuthRateLimitError\<close>: account, attempts remaining and wait; \<open>checkAuthRateLimit\<close> throws it.\<close>

datatype auth_limit_error = AuthRateLimitError string jsnum jsnum

definition checkAuthRateLimit :: "string \<Rightarrow> jsnum \<Rightarrow> auth_limits \<Rightarrow> (auth_limit_error + unit) \<times> auth_limits" where
  "checkAuthRateLimit accountId now s =
     (let (allowed, s1) = canAttemptAuth accountId now s
      in if allowed then (Inr (), s1)
         else let (remaining, s2) = getAttemptsRemaining accountId now s1;
                  (resetAfter, s3) = getTimeUntilReset_auth accountId now s2
              in (Inl (AuthRateLimitError accountId remaining resetAfter), s3))"

section \<open>Login attempts over time\<close>

text \<open>An attempt checks the limit and, when it may go on, is recorded.\<close>

definition attempt_login :: "string \<Rightarrow> jsnum \<Rightarrow> auth_limits \<Rightarrow> bool \<times> auth_limits" where
  "attempt_login accountId now s =
     (case checkAuthRateLimit accountId now s of
        (Inl e, s1) \<Rightarrow> (False, s1)
      | (Inr u, s1) \<Rightarrow> (True, recordAuthAttempt accountId now s1))"

text \<open>The times of the attempts that were let through, by account key.\<close>

fun login_run ::
    "(string \<times> jsnum) list \<Rightarrow> auth_limits \<Rightarrow> (string \<times> jsnum) list \<times> auth_limits" where
  "login_run [] s = ([], s)"
| "login_run ((i, now) # xs) s =
     (let (ok, s1) = attempt_login i now s; (rest, s2) = login_run xs s1
      in ((if ok then [(auth_account_key i, now)] else []) @ rest, s2))"

definition admitted_times :: "string \<Rightarrow> (string \<times> jsnum) list \<Rightarrow> jsnum list" where
  "admitted_times key adm = map snd (filter (\<lambda>e. fst e = key) adm)"

named_theorems auth_simps \<open>what the operations leave in the table\<close>

lemma prune_idem [simp]: "pruneOldAttempts w now (pruneOldAttempts w now ts) = pruneOldAttempts w now ts"
  by (simp add: pruneOldAttempts_def)

lemma timestamps_pruned [auth_simps]:
  "timestamps_of (pruned_record key now s) key' =
    (if key' = key then pruneOldAttempts (al_windowMs (al_config s)) now (timestamps_of s key)
     else timestamps_of s key')"
  by (simp add: pruned_record_def timestamps_of_def jm_get_set pruneOldAttempts_def split: option.split)

lemma pruned_config [simp]: "al_config (pruned_record key now s) = al_config s"
  by (simp add: pruned_record_def split: option.split)

lemma pruned_has [simp]: "jm_get (al_attempts (pruned_record key now s)) key = None \<longleftrightarrow> jm_get (al_attempts s) key = None"
  by (simp add: pruned_record_def jm_get_set split: option.split)

lemma pruned_absent: "jm_get (al_attempts s) key = None \<Longrightarrow> pruned_record key now s = s"
  by (simp add: pruned_record_def)

lemma pruned_twice [simp]: "pruned_record key now (pruned_record key now s) = pruned_record key now s"
proof (cases "jm_get (al_attempts s) key")
  case (Some ts)
  have "jm_set key v (jm_set key u m) = jm_set key v m" for v u and m :: "(string, jsnum list) jsmap"
    by (induction key u m rule: jm_set.induct) auto
  with Some show ?thesis by (simp add: pruned_record_def jm_get_set)
qed (simp add: pruned_record_def)

lemma canAttemptAuth_eq:
  "canAttemptAuth i now s =
    (jm_get (al_attempts s) (auth_account_key i) = None
     \<or> of_nat (length (pruneOldAttempts (al_windowMs (al_config s)) now (timestamps_of s (auth_account_key i))))
        < al_maxAttempts (al_config s),
     pruned_record (auth_account_key i) now s)"
  by (auto simp: canAttemptAuth_def auth_simps Let_def pruned_absent split: option.split)

lemma attempt_login_eq:
  "attempt_login i now s =
    (let key = auth_account_key i; s1 = pruned_record key now s
     in if fst (canAttemptAuth i now s) then (True, recordAuthAttempt i now s1) else (False, s1))"
proof (cases "fst (canAttemptAuth i now s)")
  case True
  then show ?thesis
    by (simp add: attempt_login_def checkAuthRateLimit_def canAttemptAuth_eq Let_def)
next
  case False
  have "snd (getAttemptsRemaining i now (pruned_record (auth_account_key i) now s))
      = pruned_record (auth_account_key i) now s"
    by (simp add: getAttemptsRemaining_def Let_def split: option.split)
  moreover have "snd (getTimeUntilReset_auth i now (pruned_record (auth_account_key i) now s))
      = pruned_record (auth_account_key i) now s"
    by (simp add: getTimeUntilReset_auth_def Let_def split: list.split)
  ultimately show ?thesis using False
    by (simp add: attempt_login_def checkAuthRateLimit_def canAttemptAuth_eq Let_def split_beta)
qed

text \<open>\<open>window_inv\<close>: the table and the log of admissions agree on every window that is still open, and
  no admission saw more than \<open>n\<close> attempts in its window, itself included.\<close>

definition attempts_within :: "jsnum \<Rightarrow> jsnum \<Rightarrow> jsnum list \<Rightarrow> jsnum list" where
  "attempts_within w t xs = filter (\<lambda>x. t - w < x \<and> x \<le> t) xs"

definition window_inv :: "nat \<Rightarrow> jsnum \<Rightarrow> jsnum \<Rightarrow> (string \<times> jsnum) list \<Rightarrow> auth_limits \<Rightarrow> bool" where
  "window_inv n w now adm s \<longleftrightarrow>
     al_config s = \<lparr>al_maxAttempts = of_nat n, al_windowMs = w\<rparr>
     \<and> (\<forall>key. sorted (admitted_times key adm) \<and> (\<forall>x\<in>set (admitted_times key adm). x \<le> now)
          \<and> filter (\<lambda>x. now - w < x) (timestamps_of s key)
              = filter (\<lambda>x. now - w < x) (admitted_times key adm)
          \<and> (\<forall>t. length (attempts_within w t (admitted_times key adm)) \<le> n))"

lemma window_inv_later:
  assumes "window_inv n w now adm s" and "now \<le> now'"
  shows "window_inv n w now' adm s"
proof -
  have "filter (\<lambda>x. now' - w < x) ts = filter (\<lambda>x. now' - w < x) (filter (\<lambda>x. now - w < x) ts)" for ts
    using assms(2) by (auto intro!: filter_cong)
  with assms show ?thesis
    unfolding window_inv_def by (metis (no_types, lifting) order_trans)
qed

lemma admitted_snoc: "admitted_times key (adm @ [(k, t)]) = admitted_times key adm @ (if k = key then [t] else [])"
  by (simp add: admitted_times_def)


lemma record_timestamps [auth_simps]:
  "timestamps_of (recordAuthAttempt i now s) key =
    (if key = auth_account_key i
     then pruneOldAttempts (al_windowMs (al_config s)) now (timestamps_of s key) @ [now]
     else timestamps_of s key)"
  by (simp add: recordAuthAttempt_def timestamps_of_def jm_get_set Let_def)

lemma record_config [simp]: "al_config (recordAuthAttempt i now s) = al_config s"
  by (simp add: recordAuthAttempt_def Let_def)

lemma attempts_within_late:
  assumes "now \<le> t"
  shows "length (attempts_within w t xs) \<le> length (filter (\<lambda>x. now - w < x) xs)"
proof -
  have "attempts_within w t xs = filter (\<lambda>x. t - w < x \<and> x \<le> t) (filter (\<lambda>x. now - w < x) xs)"
    using assms by (auto simp: attempts_within_def intro!: filter_cong)
  then show ?thesis by (simp only: length_filter_le)
qed

lemma attempts_within_append: "attempts_within w t (xs @ ys) = attempts_within w t xs @ attempts_within w t ys"
  by (simp add: attempts_within_def)

lemma window_inv_attempt:
  assumes inv: "window_inv n w now adm s" and n: "1 \<le> n"
  shows "window_inv n w now
    (adm @ (if fst (attempt_login i now s) then [(auth_account_key i, now)] else []))
    (snd (attempt_login i now s))"
proof -
  define k where "k = auth_account_key i"
  define s1 where "s1 = pruned_record k now s"
  note I = inv [unfolded window_inv_def]
  have cfg: "al_config s = \<lparr>al_maxAttempts = of_nat n, al_windowMs = w\<rparr>" using I by blast
  show ?thesis
  proof (cases "fst (canAttemptAuth i now s)")
    case False
    then have "attempt_login i now s = (False, s1)"
      by (simp add: attempt_login_eq Let_def s1_def k_def)
    moreover have "filter (\<lambda>x. now - w < x) (timestamps_of s1 key)
        = filter (\<lambda>x. now - w < x) (timestamps_of s key)" for key
      by (simp add: s1_def auth_simps pruneOldAttempts_def cfg)
    ultimately show ?thesis using I by (simp add: window_inv_def s1_def)
  next
    case True
    then have at: "attempt_login i now s = (True, recordAuthAttempt i now s1)"
      by (simp add: attempt_login_eq Let_def s1_def k_def)
    have few: "length (filter (\<lambda>x. now - w < x) (timestamps_of s k)) < n"
      using True n by (auto simp: canAttemptAuth_eq cfg pruneOldAttempts_def k_def [symmetric] timestamps_of_def)
    have stored: "filter (\<lambda>x. now - w < x) (timestamps_of (recordAuthAttempt i now s1) key)
        = filter (\<lambda>x. now - w < x) (admitted_times key (adm @ [(k, now)]))" for key
    proof -
      have "filter (\<lambda>x. now - w < x) (timestamps_of s key)
          = filter (\<lambda>x. now - w < x) (admitted_times key adm)" using I by blast
      then show ?thesis
        by (auto simp: auth_simps admitted_snoc s1_def k_def [symmetric] pruneOldAttempts_def cfg)
    qed
    have bound: "length (attempts_within w t (admitted_times key (adm @ [(k, now)]))) \<le> n" for t key
    proof (cases "key = k \<and> now \<le> t")
      case True
      then have "length (attempts_within w t (admitted_times k adm)) < n"
        using attempts_within_late [of now t w "admitted_times k adm"] few I by (metis le_less_trans)
      moreover have "length (attempts_within w t [now]) \<le> 1" by (simp add: attempts_within_def)
      ultimately show ?thesis using True by (simp add: admitted_snoc attempts_within_append)
    next
      case False
      then have "attempts_within w t (admitted_times key (adm @ [(k, now)])) = attempts_within w t (admitted_times key adm)"
        by (auto simp: admitted_snoc attempts_within_append) (auto simp: attempts_within_def)
      then show ?thesis using I by simp
    qed
    have order: "sorted (admitted_times key (adm @ [(k, now)]))
        \<and> (\<forall>x\<in>set (admitted_times key (adm @ [(k, now)])). x \<le> now)" for key
      using I by (auto simp: admitted_snoc sorted_append)
    show ?thesis
      using at stored bound order cfg by (simp add: window_inv_def s1_def k_def [symmetric])
  qed
qed

lemma window_inv_run:
  assumes "window_inv n w t0 adm s" and "1 \<le> n" and "clock_ok t0 ops"
  shows "\<exists>t. window_inv n w t (adm @ fst (login_run ops s)) (snd (login_run ops s))"
  using assms(1,3)
proof (induction ops arbitrary: t0 adm s)
  case Nil
  then show ?case by auto
next
  case (Cons e ops)
  obtain i now where e: "e = (i, now)" by (cases e)
  have "window_inv n w now adm s" using window_inv_later [OF Cons.prems(1)] Cons.prems(2) e by simp
  from Cons.IH [OF window_inv_attempt [OF this assms(2), of i]] Cons.prems(2)
  show ?case by (simp add: e split_beta Let_def)
qed



section \<open>The wait that is reported\<close>

lemma fold_min_le: "fold min ts (t :: jsnum) \<le> x \<longleftrightarrow> t \<le> x \<or> (\<exists>y\<in>set ts. y \<le> x)"
  by (induction ts arbitrary: t) auto



end
