(* ===== verification/ModelRoute.thy ===== *)
theory ModelRoute
  imports JsSort
begin

text \<open>
  Routing of a model name to an OAuth, API, ZDR or PSP catalogue (\<open>lib/model-route-policy.ts\<close>): the
  prefix of the name is the only routing signal.  A catalogue model is a JSON object with a slug;
  \<open>localeCompare\<close> is the parameter \<open>collate\<close>; a thrown error is the error value of the result.
\<close>

section \<open>Names of routes\<close>

datatype route_kind = OAuthRoute | ApiRoute | ZdrRoute | PspRoute

datatype route_error = InvalidRouteModel | InvalidSpeedRoute | ConflictingSpeed

record model_route =
  mr_kind :: route_kind
  mr_upstreamModel :: string
  mr_serviceTier :: "string option"

definition tier_char :: "char \<Rightarrow> bool" where
  "tier_char c \<longleftrightarrow> is_digit c \<or> c \<in> set ''._-''
     \<or> (let n = of_char c :: nat in 65 \<le> n \<and> n \<le> 90 \<or> 97 \<le> n \<and> n \<le> 122)"

text \<open>\<open>/^[A-Za-z0-9._-]{1,64}$/\<close>\<close>

definition tier_name :: "string \<Rightarrow> bool" where
  "tier_name s \<longleftrightarrow> s \<noteq> [] \<and> length s \<le> 64 \<and> list_all tier_char s"

definition control_or_space :: "char \<Rightarrow> bool" where
  "control_or_space c \<longleftrightarrow> (of_char c :: nat) \<le> 32 \<or> (of_char c :: nat) = 127"

definition kind_prefixes :: "(string \<times> route_kind) list" where
  "kind_prefixes = [(''api/'', ApiRoute), (''zdr/'', ZdrRoute), (''psp/'', PspRoute)]"

text \<open>\<open>/^(api|zdr|psp|speed)\//\<close>\<close>

definition route_prefixed :: "string \<Rightarrow> bool" where
  "route_prefixed s \<longleftrightarrow> list_ex (js_starts_with s) [''api/'', ''zdr/'', ''psp/'', ''speed/'']"

text \<open>The loop over the three prefixes, and the expression \<open>/^speed\/([A-Za-z0-9._-]{1,64})\/(.+)$/\<close>.\<close>

definition split_kind :: "string \<Rightarrow> route_kind \<times> string" where
  "split_kind model =
     (case find (\<lambda>(p, k). js_starts_with model p) kind_prefixes of
        Some (p, k) \<Rightarrow> (k, drop (length p) model) | None \<Rightarrow> (OAuthRoute, model))"

definition match_speed :: "string \<Rightarrow> (string \<times> string) option" where
  "match_speed s =
     (let body = drop 6 s; tier = takeWhile tier_char body; rest = dropWhile tier_char body
      in if js_starts_with s ''speed/'' \<and> tier_name tier \<and> rest \<noteq> [] \<and> hd rest = CHR ''/'' \<and> tl rest \<noteq> []
         then Some (tier, tl rest) else None)"

definition parseModelRoute :: "string \<Rightarrow> route_error + model_route" where
  "parseModelRoute model =
     (if model = [] \<or> 256 < length model \<or> list_ex control_or_space model then Inl InvalidRouteModel
      else
        let (kind, model1) = split_kind model
        in case (if js_starts_with model1 ''speed/''
                 then (case match_speed model1 of
                         None \<Rightarrow> Inl InvalidSpeedRoute
                       | Some (tier, rest) \<Rightarrow> Inr (Some tier, rest))
                 else Inr (None, model1)) of
             Inl e \<Rightarrow> Inl e
           | Inr (serviceTier, model2) \<Rightarrow>
               if model2 = [] \<or> route_prefixed model2 then Inl InvalidRouteModel
               else Inr \<lparr>mr_kind = kind, mr_upstreamModel = model2, mr_serviceTier = serviceTier\<rparr>)"

section \<open>Catalogues\<close>

record route_catalog =
  rc_id :: string
  rc_kind :: route_kind
  rc_priority :: jsnum
  rc_enabled :: bool
  rc_models :: "json list"
  rc_visibleModels :: "string list option"

definition model_slug :: "json \<Rightarrow> string" where
  "model_slug m = nullish (json_string (json_field m ''slug'')) []"

definition control_char :: "char \<Rightarrow> bool" where
  "control_char c \<longleftrightarrow> (of_char c :: nat) \<le> 31 \<or> (of_char c :: nat) = 127"

definition valid_tier :: "json \<Rightarrow> bool" where
  "valid_tier t \<longleftrightarrow>
     (case (json_string (json_field t ''id''), json_string (json_field t ''name''),
            json_string (json_field t ''description'')) of
        (Some i, Some n, Some d) \<Rightarrow> tier_name i \<and> length n \<le> 100 \<and> \<not> list_ex control_char n
      | _ \<Rightarrow> False)"

definition modelServiceTiers :: "json \<Rightarrow> json list" where
  "modelServiceTiers m =
     (case json_field m ''service_tiers'' of Some (JArr ts) \<Rightarrow> filter valid_tier ts | _ \<Rightarrow> [])"

definition canonicalServiceTier :: "string \<Rightarrow> string" where
  "canonicalServiceTier tier = (if tier = ''priority'' then ''fast'' else tier)"

definition tier_id :: "json \<Rightarrow> string" where
  "tier_id t = nullish (json_string (json_field t ''id'')) []"

definition probe_status :: "json \<Rightarrow> string \<Rightarrow> string option" where
  "probe_status m k =
     (case json_field m ''capability_probe_status'' of
        Some (JObj fs) \<Rightarrow> json_string (map_of fs k) | _ \<Rightarrow> None)"

definition supports_effort :: "json \<Rightarrow> string option \<Rightarrow> bool" where
  "supports_effort m effort \<longleftrightarrow>
     (case effort of None \<Rightarrow> True
      | Some e \<Rightarrow> e = []
          \<or> (probe_status m (''effort:'' @ e) \<notin> {Some ''unsupported'', Some ''downgraded''}
             \<and> (json_field m ''reasoning_levels_known'' = Some (JBool False)
                \<or> (case json_field m ''supported_reasoning_levels'' of
                     Some (JArr ls) \<Rightarrow> list_ex (\<lambda>l. json_field l ''effort'' = Some (JStr e)) ls
                   | _ \<Rightarrow> False))))"

definition supports_tier :: "json \<Rightarrow> string option \<Rightarrow> bool" where
  "supports_tier m tier \<longleftrightarrow>
     (case tier of None \<Rightarrow> True
      | Some t \<Rightarrow> t = [] \<or> t = ''default'' \<or> t = ''auto''
          \<or> list_ex (\<lambda>x. canonicalServiceTier (tier_id x) = canonicalServiceTier t) (modelServiceTiers m))"

definition supportsModelSettings :: "json \<Rightarrow> string option \<Rightarrow> string option \<Rightarrow> bool" where
  "supportsModelSettings m reasoningEffort serviceTier \<longleftrightarrow>
     supports_effort m reasoningEffort \<and> supports_tier m serviceTier"

definition route_visible :: "route_catalog \<Rightarrow> json \<Rightarrow> bool" where
  "route_visible catalog m \<longleftrightarrow>
     (if probe_status m ''responses'' = Some ''unsupported''
         \<or> probe_status m ''credential'' = Some ''unavailable''
         \<or> \<not> rc_enabled catalog \<or> model_slug m = [] \<or> route_prefixed (model_slug m)
      then False
      else rc_kind catalog = OAuthRoute
           \<or> (case rc_visibleModels catalog of None \<Rightarrow> False | Some ms \<Rightarrow> model_slug m \<in> set ms))"

record route_settings =
  rs_reasoningEffort :: "string option"
  rs_serviceTier :: "string option"

definition catalog_serves :: "model_route \<Rightarrow> string option \<Rightarrow> string option \<Rightarrow> route_catalog \<Rightarrow> bool" where
  "catalog_serves r effort tier c \<longleftrightarrow>
     rc_kind c = mr_kind r
     \<and> list_ex (\<lambda>m. model_slug m = mr_upstreamModel r \<and> route_visible c m
          \<and> supportsModelSettings m effort tier) (rc_models c)"

definition compare_catalogs :: "(string \<Rightarrow> string \<Rightarrow> int) \<Rightarrow> route_catalog \<Rightarrow> route_catalog \<Rightarrow> int" where
  "compare_catalogs collate a b =
     (if rc_priority a - rc_priority b \<noteq> 0 then js_sign (rc_priority a - rc_priority b)
      else collate (rc_id a) (rc_id b))"

definition nonempty_string :: "string option \<Rightarrow> bool" where
  "nonempty_string s \<longleftrightarrow> s \<noteq> None \<and> s \<noteq> Some []"

definition resolveModelRoute ::
    "(string \<Rightarrow> string \<Rightarrow> int) \<Rightarrow> string \<Rightarrow> route_catalog list \<Rightarrow> route_settings
     \<Rightarrow> route_error + model_route \<times> route_catalog list" where
  "resolveModelRoute collate model catalogs settings =
     (case parseModelRoute model of
        Inl e \<Rightarrow> Inl e
      | Inr parsed \<Rightarrow>
          if nonempty_string (mr_serviceTier parsed) \<and> nonempty_string (rs_serviceTier settings)
             \<and> canonicalServiceTier (the (mr_serviceTier parsed))
                 \<noteq> canonicalServiceTier (the (rs_serviceTier settings))
          then Inl ConflictingSpeed
          else
            let serviceTier = (case mr_serviceTier parsed of Some t \<Rightarrow> Some t | None \<Rightarrow> rs_serviceTier settings);
                candidates = sort_cmp (compare_catalogs collate)
                  (filter (catalog_serves parsed (rs_reasoningEffort settings) serviceTier) catalogs)
            in Inr (parsed\<lparr>mr_serviceTier := (if nonempty_string serviceTier then serviceTier
                      else mr_serviceTier parsed)\<rparr>, candidates))"

section \<open>What a route promises\<close>

lemma parse_upstream: "parseModelRoute model = Inr r \<Longrightarrow> mr_upstreamModel r \<noteq> [] \<and> \<not> route_prefixed (mr_upstreamModel r)"
  by (auto simp: parseModelRoute_def Let_def split: prod.splits if_splits option.splits sum.splits)

lemma parse_kind: "parseModelRoute model = Inr r \<Longrightarrow> mr_kind r = fst (split_kind model)"
  by (auto simp: parseModelRoute_def Let_def split: prod.splits if_splits option.splits sum.splits)


definition sample_catalogs :: "route_catalog list" where
  "sample_catalogs =
     [\<lparr>rc_id = ''o'', rc_kind = OAuthRoute, rc_priority = 0, rc_enabled = True,
       rc_models = [JObj [(''slug'', JStr ''gpt-6'')]], rc_visibleModels = None\<rparr>,
      \<lparr>rc_id = ''z'', rc_kind = ZdrRoute, rc_priority = 3, rc_enabled = True,
       rc_models = [JObj [(''slug'', JStr ''gpt-6'')]], rc_visibleModels = Some [''gpt-6'']\<rparr>,
      \<lparr>rc_id = ''y'', rc_kind = ZdrRoute, rc_priority = 1, rc_enabled = True,
       rc_models = [JObj [(''slug'', JStr ''gpt-6'')]], rc_visibleModels = Some []\<rparr>]"


end
