(* ===== verification/RefreshQueue.thy ===== *)
theory RefreshQueue
  imports JsMap
begin

text \<open>
  The queue that merges concurrent refreshes of one token (\<open>lib/refresh-queue.ts\<close>).  JavaScript runs
  one continuation at a time, so a refresh is modelled by its continuations: the call up to the first
  \<open>await\<close>, the reply of the lease coordinator, the reply of the token endpoint, and the \<open>finally\<close> of
  the call that started it.  A promise is named by the generation that made it.  The lease coordinator
  and the endpoint are what the steps are told; the log lines are not modelled.
\<close>

section \<open>The queue\<close>

datatype refresh_stage = AcquireStage | RefreshStage

record refresh_entry =
  re_generation :: nat
  re_startedAt :: jsnum
  re_stage :: refresh_stage
  re_staleWarningLogged :: bool

record refresh_queue =
  rq_pending :: "(string, refresh_entry) jsmap"
  rq_tokenRotationMap :: "(string, string) jsmap"
  rq_nextGeneration :: nat
  rq_maxEntryAgeMs :: jsnum
  rq_configuredWaitTimeoutMs :: "jsval option"

definition ACQUIRE_EVICTION_SLACK_MS :: jsnum where
  "ACQUIRE_EVICTION_SLACK_MS = 5000"

definition DEFAULT_WAIT_TIMEOUT_MS :: jsnum where
  "DEFAULT_WAIT_TIMEOUT_MS = 35000"

definition new_refresh_queue :: "jsnum \<Rightarrow> jsval option \<Rightarrow> refresh_queue" where
  "new_refresh_queue maxEntryAgeMs waitTimeout = \<lparr>rq_pending = [], rq_tokenRotationMap = [],
     rq_nextGeneration = 0, rq_maxEntryAgeMs = maxEntryAgeMs, rq_configuredWaitTimeoutMs = waitTimeout\<rparr>"

definition findOriginalToken :: "refresh_queue \<Rightarrow> string \<Rightarrow> string option" where
  "findOriginalToken q newToken =
     map_option fst (find (\<lambda>(oldToken, mapped). mapped = newToken) (rq_tokenRotationMap q))"

definition cleanupRotationMapping :: "string \<Rightarrow> refresh_queue \<Rightarrow> refresh_queue" where
  "cleanupRotationMapping token q =
     q\<lparr>rq_tokenRotationMap :=
        jm_remove_if (\<lambda>oldToken newToken. newToken = token) (jm_delete token (rq_tokenRotationMap q))\<rparr>"

definition acquireEvictionAgeMs :: "refresh_queue \<Rightarrow> jsnum" where
  "acquireEvictionAgeMs q =
     (let leaseWaitTimeoutMs = (case rq_configuredWaitTimeoutMs q of
            Some (Finite x) \<Rightarrow> x | _ \<Rightarrow> DEFAULT_WAIT_TIMEOUT_MS)
      in max (rq_maxEntryAgeMs q) (leaseWaitTimeoutMs + ACQUIRE_EVICTION_SLACK_MS))"

definition cleanup_entry :: "jsnum \<Rightarrow> string \<times> refresh_entry \<Rightarrow> refresh_queue \<Rightarrow> refresh_queue" where
  "cleanup_entry now e q =
     (let (token, entry) = e; ageMs = now - re_startedAt entry
      in if re_stage entry = AcquireStage
         then if ageMs \<le> acquireEvictionAgeMs q then q
              else cleanupRotationMapping token (q\<lparr>rq_pending := jm_delete token (rq_pending q)\<rparr>)
         else if ageMs \<le> rq_maxEntryAgeMs q then q
         else if \<not> re_staleWarningLogged entry
         then q\<lparr>rq_pending := jm_set token (entry\<lparr>re_staleWarningLogged := True\<rparr>) (rq_pending q)\<rparr>
         else q)"

definition refresh_cleanup :: "jsnum \<Rightarrow> refresh_queue \<Rightarrow> refresh_queue" where
  "refresh_cleanup now q = fold (cleanup_entry now) (rq_pending q) q"

definition isRefreshing :: "refresh_queue \<Rightarrow> string \<Rightarrow> bool" where
  "isRefreshing q token \<longleftrightarrow> jm_has (rq_pending q) token"

definition pendingCount :: "refresh_queue \<Rightarrow> nat" where
  "pendingCount q = length (rq_pending q)"

definition clear_refreshes :: "refresh_queue \<Rightarrow> refresh_queue" where
  "clear_refreshes q = q\<lparr>rq_pending := [], rq_tokenRotationMap := []\<rparr>"

section \<open>A refresh, continuation by continuation\<close>

text \<open>\<open>Joins g\<close>: the caller gets the promise of generation \<open>g\<close>; \<open>Starts g\<close>: it made one.\<close>

datatype refresh_call = Joins nat | Starts nat

definition refresh :: "string \<Rightarrow> jsnum \<Rightarrow> refresh_queue \<Rightarrow> refresh_call \<times> refresh_queue" where
  "refresh token now q0 =
     (let q = refresh_cleanup now q0
      in case jm_get (rq_pending q) token of
           Some existing \<Rightarrow> (Joins (re_generation existing), q)
         | None \<Rightarrow>
             (case Option.bind (findOriginalToken q token)
                 (\<lambda>rotatedFrom. if rotatedFrom = [] then None else jm_get (rq_pending q) rotatedFrom) of
                Some originalEntry \<Rightarrow> (Joins (re_generation originalEntry), q)
              | None \<Rightarrow>
                  let generation = rq_nextGeneration q + 1
                  in (Starts generation,
                      q\<lparr>rq_nextGeneration := generation,
                        rq_pending := jm_set token \<lparr>re_generation = generation, re_startedAt = now,
                          re_stage = AcquireStage, re_staleWarningLogged = False\<rparr> (rq_pending q)\<rparr>)))"

definition markStage :: "string \<Rightarrow> nat \<Rightarrow> refresh_stage \<Rightarrow> jsnum \<Rightarrow> refresh_queue \<Rightarrow> refresh_queue" where
  "markStage token generation stage now q =
     (case jm_get (rq_pending q) token of
        None \<Rightarrow> q
      | Some entry \<Rightarrow>
          if re_generation entry \<noteq> generation then q
          else q\<lparr>rq_pending := jm_set token (entry\<lparr>re_stage := stage, re_startedAt := now,
                   re_staleWarningLogged := False\<rparr>) (rq_pending q)\<rparr>)"

definition getSupersedingPromise :: "string \<Rightarrow> nat \<Rightarrow> refresh_queue \<Rightarrow> nat option" where
  "getSupersedingPromise token generation q =
     (case jm_get (rq_pending q) token of
        None \<Rightarrow> None
      | Some current \<Rightarrow> if re_generation current = generation then None else Some (re_generation current))"

text \<open>Results of a refresh: new tokens, or a failure with its reason.\<close>

datatype failure_reason = CoordinationError | NetworkError | UnknownFailure | EndpointFailure string

datatype token_result = TokenSuccess string | TokenFailed failure_reason

datatype 'r lease_reply =
    AcquireFailed | LeaseBlocked | LeaseFollower "'r option" | LeaseOwner

text \<open>After the lease: the promise is settled, follows another one, or asks the endpoint.\<close>

datatype 'r after_lease = Settles 'r | Follows nat | AsksEndpoint

definition lease_replied ::
    "string \<Rightarrow> nat \<Rightarrow> token_result lease_reply \<Rightarrow> jsnum \<Rightarrow> refresh_queue
     \<Rightarrow> token_result after_lease \<times> refresh_queue" where
  "lease_replied token generation lease now q =
     (case lease of
        AcquireFailed \<Rightarrow>
          (case getSupersedingPromise token generation q of
             Some g \<Rightarrow> (Follows g, q)
           | None \<Rightarrow> (Settles (TokenFailed CoordinationError), q))
      | LeaseBlocked \<Rightarrow> (Settles (TokenFailed CoordinationError), q)
      | LeaseFollower None \<Rightarrow> (Settles (TokenFailed CoordinationError), q)
      | LeaseFollower (Some r) \<Rightarrow> (Settles r, q)
      | LeaseOwner \<Rightarrow>
          (case getSupersedingPromise token generation q of
             Some g \<Rightarrow> (Follows g, q)
           | None \<Rightarrow> (AsksEndpoint, markStage token generation RefreshStage now q)))"

text \<open>\<open>executeRefresh\<close>: the endpoint's answer, the timeout or an exception.\<close>

datatype endpoint_reply = EndpointAnswered token_result | RefreshAborted | RefreshThrew

definition executeRefresh :: "endpoint_reply \<Rightarrow> token_result" where
  "executeRefresh reply =
     (case reply of EndpointAnswered r \<Rightarrow> r | RefreshAborted \<Rightarrow> TokenFailed UnknownFailure
      | RefreshThrew \<Rightarrow> TokenFailed NetworkError)"

definition refresh_timeout :: "refresh_queue \<Rightarrow> jsnum" where
  "refresh_timeout q = max 1000 (rq_maxEntryAgeMs q)"

definition executeRefreshWithRotationTracking ::
    "string \<Rightarrow> endpoint_reply \<Rightarrow> refresh_queue \<Rightarrow> token_result \<times> refresh_queue" where
  "executeRefreshWithRotationTracking token reply q =
     (let result = executeRefresh reply
      in case result of
           TokenSuccess newToken \<Rightarrow>
             if newToken \<noteq> token
             then (result, q\<lparr>rq_tokenRotationMap := jm_set token newToken (rq_tokenRotationMap q)\<rparr>)
             else (result, q)
         | TokenFailed reason \<Rightarrow> (result, q))"

text \<open>The \<open>finally\<close> of the call that started a generation.\<close>

definition finish_refresh :: "string \<Rightarrow> nat \<Rightarrow> refresh_queue \<Rightarrow> refresh_queue" where
  "finish_refresh token generation q =
     (case jm_get (rq_pending q) token of
        None \<Rightarrow> cleanupRotationMapping token (q\<lparr>rq_pending := jm_delete token (rq_pending q)\<rparr>)
      | Some entry \<Rightarrow>
          if re_generation entry = generation
          then cleanupRotationMapping token (q\<lparr>rq_pending := jm_delete token (rq_pending q)\<rparr>)
          else q)"

section \<open>Interleavings\<close>

text \<open>
  The system: the queue, the generations that wait for a lease, that wait for the endpoint, and whose
  promise is settled or follows another one but whose \<open>finally\<close> has not run.  \<open>rs_evicted\<close> is a ghost:
  the generations \<open>cleanup\<close> or \<open>clear\<close> took out of the queue before they were done.
\<close>

record refresh_system =
  rs_queue :: refresh_queue
  rs_leasing :: "(string \<times> nat) set"
  rs_asking :: "(string \<times> nat) set"
  rs_done :: "(string \<times> nat) set"
  rs_evicted :: "nat set"

definition pending_generations :: "refresh_queue \<Rightarrow> nat set" where
  "pending_generations q = (\<lambda>e. re_generation (snd e)) ` set (rq_pending q)"

definition evict :: "refresh_queue \<Rightarrow> refresh_queue \<Rightarrow> nat set \<Rightarrow> nat set" where
  "evict before after gone = gone \<union> (pending_generations before - pending_generations after)"

definition start_system :: "refresh_queue \<Rightarrow> refresh_system" where
  "start_system q = \<lparr>rs_queue = q, rs_leasing = {}, rs_asking = {}, rs_done = {}, rs_evicted = {}\<rparr>"

inductive refresh_step :: "refresh_system \<Rightarrow> refresh_system \<Rightarrow> bool" where
  call_joins:
    "refresh token now (rs_queue s) = (Joins g, q) \<Longrightarrow>
     refresh_step s (s\<lparr>rs_queue := q, rs_evicted := evict (rs_queue s) q (rs_evicted s)\<rparr>)"
| call_starts:
    "refresh token now (rs_queue s) = (Starts g, q) \<Longrightarrow>
     refresh_step s (s\<lparr>rs_queue := q, rs_leasing := insert (token, g) (rs_leasing s),
       rs_evicted := evict (rs_queue s) q (rs_evicted s)\<rparr>)"
| lease_ends:
    "(token, g) \<in> rs_leasing s \<Longrightarrow> lease_replied token g lease now (rs_queue s) = (r, q) \<Longrightarrow>
     r \<noteq> AsksEndpoint \<Longrightarrow>
     refresh_step s (s\<lparr>rs_queue := q, rs_leasing := rs_leasing s - {(token, g)},
       rs_done := insert (token, g) (rs_done s)\<rparr>)"
| lease_owned:
    "(token, g) \<in> rs_leasing s \<Longrightarrow> lease_replied token g lease now (rs_queue s) = (AsksEndpoint, q) \<Longrightarrow>
     refresh_step s (s\<lparr>rs_queue := q, rs_leasing := rs_leasing s - {(token, g)},
       rs_asking := insert (token, g) (rs_asking s)\<rparr>)"
| endpoint_replies:
    "(token, g) \<in> rs_asking s \<Longrightarrow>
     executeRefreshWithRotationTracking token reply (rs_queue s) = (r, q) \<Longrightarrow>
     refresh_step s (s\<lparr>rs_queue := q, rs_asking := rs_asking s - {(token, g)},
       rs_done := insert (token, g) (rs_done s)\<rparr>)"
| call_finishes:
    "(token, g) \<in> rs_done s \<Longrightarrow>
     refresh_step s (s\<lparr>rs_queue := finish_refresh token g (rs_queue s), rs_done := rs_done s - {(token, g)}\<rparr>)"
| cleared:
    "refresh_step s (s\<lparr>rs_queue := clear_refreshes (rs_queue s),
       rs_evicted := evict (rs_queue s) (clear_refreshes (rs_queue s)) (rs_evicted s)\<rparr>)"

inductive refresh_reachable :: "refresh_queue \<Rightarrow> refresh_system \<Rightarrow> bool" for q0 where
  start: "refresh_reachable q0 (start_system q0)"
| step: "refresh_reachable q0 s \<Longrightarrow> refresh_step s s' \<Longrightarrow> refresh_reachable q0 s'"


section \<open>What a cleanup evicts\<close>

definition cleaned_entry :: "refresh_queue \<Rightarrow> jsnum \<Rightarrow> refresh_entry \<Rightarrow> refresh_entry option" where
  "cleaned_entry q now e =
     (if re_stage e = AcquireStage \<and> acquireEvictionAgeMs q < now - re_startedAt e then None
      else Some (if re_stage e = RefreshStage \<and> rq_maxEntryAgeMs q < now - re_startedAt e
                 then e\<lparr>re_staleWarningLogged := True\<rparr> else e))"

lemma rotation_frame [simp]:
  "rq_pending (cleanupRotationMapping token q) = rq_pending q"
  "rq_nextGeneration (cleanupRotationMapping token q) = rq_nextGeneration q"
  "rq_maxEntryAgeMs (cleanupRotationMapping token q) = rq_maxEntryAgeMs q"
  "rq_configuredWaitTimeoutMs (cleanupRotationMapping token q) = rq_configuredWaitTimeoutMs q"
  by (simp_all add: cleanupRotationMapping_def)

lemma cleanup_entry_frame [simp]:
  "rq_nextGeneration (cleanup_entry now e q) = rq_nextGeneration q"
  "rq_maxEntryAgeMs (cleanup_entry now e q) = rq_maxEntryAgeMs q"
  "rq_configuredWaitTimeoutMs (cleanup_entry now e q) = rq_configuredWaitTimeoutMs q"
  "jm_ok (rq_pending q) \<Longrightarrow> jm_ok (rq_pending (cleanup_entry now e q))"
  by (auto simp: cleanup_entry_def Let_def split: prod.split)

lemma cleaned_entry_frame [simp]:
  "cleaned_entry (cleanup_entry now e q) = cleaned_entry q"
  by (intro ext) (simp add: cleaned_entry_def acquireEvictionAgeMs_def)

lemma cleanup_entry_get:
  assumes "jm_get (rq_pending q) token = Some entry"
  shows "jm_get (rq_pending (cleanup_entry now (token, entry) q)) t
    = (if t = token then cleaned_entry q now entry else jm_get (rq_pending q) t)"
  using assms by (cases "re_stage entry")
    (auto simp: cleanup_entry_def cleaned_entry_def Let_def jm_get_set jm_get_delete)

lemma fold_cleanup_get:
  assumes "jm_ok xs" and "\<And>t e. jm_get xs t = Some e \<Longrightarrow> jm_get (rq_pending q) t = Some e"
  shows "jm_get (rq_pending (fold (cleanup_entry now) xs q)) t
    = (case jm_get xs t of Some e \<Rightarrow> cleaned_entry q now e | None \<Rightarrow> jm_get (rq_pending q) t)"
  using assms
proof (induction xs arbitrary: q)
  case (Cons x xs)
  obtain token entry where x: "x = (token, entry)" by (cases x)
  have here: "jm_get (rq_pending q) token = Some entry" using Cons.prems(2) x by simp
  have new: "jm_get xs token = None" "jm_ok xs" using Cons.prems(1) x by simp_all
  note step = cleanup_entry_get [OF here, of now]
  have "jm_get (rq_pending (cleanup_entry now x q)) t = Some e" if "jm_get xs t = Some e" for t e
    using that Cons.prems(2) [of t e] new step [of t] x by auto
  from Cons.IH [OF new(2) this] new step x show ?case by (auto split: option.splits)
qed simp

lemma refresh_cleanup_get:
  "jm_ok (rq_pending q) \<Longrightarrow> jm_get (rq_pending (refresh_cleanup now q)) t
    = Option.bind (jm_get (rq_pending q) t) (cleaned_entry q now)"
  by (simp add: refresh_cleanup_def fold_cleanup_get split: option.split)

lemma refresh_cleanup_frame [simp]:
  "rq_nextGeneration (refresh_cleanup now q) = rq_nextGeneration q"
  "jm_ok (rq_pending q) \<Longrightarrow> jm_ok (rq_pending (refresh_cleanup now q))"
proof -
  have "rq_nextGeneration (fold (cleanup_entry now) xs q) = rq_nextGeneration q" for xs q
    by (induction xs arbitrary: q) simp_all
  then show "rq_nextGeneration (refresh_cleanup now q) = rq_nextGeneration q"
    by (simp add: refresh_cleanup_def)
  have "jm_ok (rq_pending q) \<Longrightarrow> jm_ok (rq_pending (fold (cleanup_entry now) xs q))" for xs q
    by (induction xs arbitrary: q) simp_all
  then show "jm_ok (rq_pending q) \<Longrightarrow> jm_ok (rq_pending (refresh_cleanup now q))"
    by (simp add: refresh_cleanup_def)
qed

section \<open>One refresh per token\<close>

definition refreshes_open :: "refresh_system \<Rightarrow> (string \<times> nat) set" where
  "refreshes_open s = rs_leasing s \<union> rs_asking s \<union> rs_done s"

definition generation_of :: "refresh_queue \<Rightarrow> string \<Rightarrow> nat option" where
  "generation_of q token = map_option re_generation (jm_get (rq_pending q) token)"

definition refresh_inv :: "refresh_system \<Rightarrow> bool" where
  "refresh_inv s \<longleftrightarrow> jm_ok (rq_pending (rs_queue s))
     \<and> (\<forall>t g. generation_of (rs_queue s) t = Some g \<longrightarrow> (t, g) \<in> refreshes_open s)
     \<and> (\<forall>t g. (t, g) \<in> refreshes_open s \<longrightarrow> g \<le> rq_nextGeneration (rs_queue s))
     \<and> (\<forall>t g. (t, g) \<in> refreshes_open s \<longrightarrow> g \<in> rs_evicted s \<or> generation_of (rs_queue s) t = Some g)
     \<and> (\<forall>t t' g. (t, g) \<in> refreshes_open s \<and> (t', g) \<in> refreshes_open s \<longrightarrow> t = t')
     \<and> rs_leasing s \<inter> rs_asking s = {} \<and> rs_leasing s \<inter> rs_done s = {} \<and> rs_asking s \<inter> rs_done s = {}
     \<and> (\<forall>t e. jm_get (rq_pending (rs_queue s)) t = Some e \<and> (t, re_generation e) \<in> rs_asking s
          \<longrightarrow> re_stage e = RefreshStage)"

lemma generation_pending:
  "jm_ok (rq_pending q) \<Longrightarrow> g \<in> pending_generations q \<longleftrightarrow> (\<exists>t. generation_of q t = Some g)"
  by (force simp: pending_generations_def generation_of_def dest: jm_get_mem jm_mem_get)

text \<open>A cleanup keeps the generation of every entry it does not evict.\<close>

lemma cleanup_generation:
  assumes "jm_ok (rq_pending q)"
  shows "generation_of (refresh_cleanup now q) t = Some g \<Longrightarrow> generation_of q t = Some g"
    and "generation_of q t = Some g \<Longrightarrow> generation_of (refresh_cleanup now q) t = Some g
      \<or> generation_of (refresh_cleanup now q) t = None"
  using refresh_cleanup_get [OF assms, of now t]
  by (auto simp: generation_of_def cleaned_entry_def split: if_splits bind_splits)

lemma cleanup_stage:
  assumes "jm_ok (rq_pending q)" and "jm_get (rq_pending (refresh_cleanup now q)) t = Some e"
  shows "\<exists>e'. jm_get (rq_pending q) t = Some e' \<and> re_stage e = re_stage e' \<and> re_generation e = re_generation e'"
  using assms(2) refresh_cleanup_get [OF assms(1), of now t]
  by (auto simp: cleaned_entry_def split: if_splits bind_splits)

text \<open>The queue after a cleanup, with what it evicted added to the ghost.\<close>

lemma cleanup_inv:
  assumes inv: "refresh_inv s" and q_def: "q = refresh_cleanup now (rs_queue s)"
  shows "refresh_inv (s\<lparr>rs_queue := q, rs_evicted := evict (rs_queue s) q (rs_evicted s)\<rparr>)"
proof -
  note I = inv [unfolded refresh_inv_def]
  have ok: "jm_ok (rq_pending (rs_queue s))" using I by blast
  have okq: "jm_ok (rq_pending q)" using ok by (simp add: q_def)
  have nextg: "rq_nextGeneration q = rq_nextGeneration (rs_queue s)" by (simp add: q_def)
  note gen = cleanup_generation [OF ok, where now = now, folded q_def]
  have gone: "g \<in> evict (rs_queue s) q (rs_evicted s)"
    if "generation_of (rs_queue s) t = Some g" "generation_of q t \<noteq> Some g" "(t, g) \<in> refreshes_open s" for t g
  proof -
    have "generation_of q t' \<noteq> Some g" for t'
    proof
      assume "generation_of q t' = Some g"
      then have "(t', g) \<in> refreshes_open s" using gen(1) I by blast
      then have "t' = t" using that(3) I by blast
      with \<open>generation_of q t' = Some g\<close> that(2) show False by simp
    qed
    then show ?thesis using that(1) generation_pending [OF ok] generation_pending [OF okq]
      by (auto simp: evict_def)
  qed
  have fl: "refreshes_open (s\<lparr>rs_queue := q, rs_evicted := ev\<rparr>) = refreshes_open s" for ev
    by (simp add: refreshes_open_def)
  show ?thesis
    unfolding refresh_inv_def fl
  proof (intro conjI allI impI, goal_cases)
    case 1 then show ?case using okq by simp
  next
    case (2 t g) then show ?case using gen(1) I by auto
  next
    case (3 t g) then show ?case using I nextg by auto
  next
    case (4 t g)
    then have "g \<in> rs_evicted s \<or> generation_of (rs_queue s) t = Some g" using I by blast
    then show ?case using gone [of t g] 4 by (auto simp: evict_def)
  next
    case (5 t t' g) then show ?case using I by blast
  next
    case 6 then show ?case using I by simp
  next
    case 7 then show ?case using I by simp
  next
    case 8 then show ?case using I by simp
  next
    case (9 t e)
    then obtain e' where "jm_get (rq_pending (rs_queue s)) t = Some e'" "re_stage e = re_stage e'"
      "re_generation e = re_generation e'"
      using cleanup_stage [OF ok, of now t e] by (auto simp: q_def)
    with 9 I show ?case by auto
  qed
qed

lemma generation_frame [simp]:
  "generation_of (markStage token g st now q) t = generation_of q t"
  "generation_of (cleanupRotationMapping token q) = generation_of q"
  by (auto simp: markStage_def generation_of_def jm_get_set fun_eq_iff split: option.split)

lemma finish_generation:
  "generation_of (finish_refresh token g q) t
    = (if t = token \<and> generation_of q token = Some g then None else generation_of q t)"
  by (auto simp: finish_refresh_def generation_of_def jm_get_delete split: option.split)

lemma lease_queue:
  assumes "lease_replied token g lease now q = (r, q')"
  shows "q' = q \<or> q' = markStage token g RefreshStage now q"
    and "r = AsksEndpoint \<Longrightarrow> q' = markStage token g RefreshStage now q"
  using assms by (auto simp: lease_replied_def split: lease_reply.splits option.splits)

text \<open>
  Steps that change neither a generation of the queue nor who is in flight, apart from moving a refresh
  from one stage to the next or out of the system.
\<close>

lemma stage_move:
  assumes inv: "refresh_inv s"
    and q: "rq_pending q = rq_pending (rs_queue s) \<or> q = markStage token g RefreshStage now (rs_queue s)"
    and nextg: "rq_nextGeneration q = rq_nextGeneration (rs_queue s)"
    and ask: "(token, g) \<in> A - rs_asking s \<Longrightarrow> q = markStage token g RefreshStage now (rs_queue s)"
    and flow: "L \<union> A \<union> D = refreshes_open s" "A \<subseteq> insert (token, g) (rs_asking s)"
    and apart: "L \<inter> A = {}" "L \<inter> D = {}" "A \<inter> D = {}"
  shows "refresh_inv (s\<lparr>rs_queue := q, rs_leasing := L, rs_asking := A, rs_done := D\<rparr>)"
    (is "refresh_inv ?s")
proof -
  note I = inv [unfolded refresh_inv_def]
  have fl: "refreshes_open ?s = refreshes_open s" using flow(1) by (simp add: refreshes_open_def)
  have gen: "generation_of q = generation_of (rs_queue s)"
    using q by (auto simp: generation_of_def fun_eq_iff) (auto simp: generation_of_def [symmetric])
  have ok: "jm_ok (rq_pending q)" using q I by (auto simp: markStage_def split: option.split)
  have stage: "re_stage e = RefreshStage"
    if "jm_get (rq_pending q) t = Some e" "(t, re_generation e) \<in> A" for t e
  proof (cases "q = markStage token g RefreshStage now (rs_queue s)")
    case True
    with that flow(2) I show ?thesis
      by (auto simp: markStage_def jm_get_set split: option.splits if_splits)
  next
    case False
    then have "rq_pending q = rq_pending (rs_queue s)" "(t, re_generation e) \<in> rs_asking s"
      using q ask that(2) flow(2) by auto
    with that(1) I show ?thesis by simp
  qed
  show ?thesis
    unfolding refresh_inv_def fl
    by (intro conjI allI impI) (use I ok gen nextg stage apart in \<open>(blast; fail) | (simp; fail) | (auto; fail)\<close>)+
qed

text \<open>A call cleans up, and then joins an entry or adds one under a fresh generation.\<close>

lemma refresh_joins: "refresh token now q0 = (Joins g, q) \<Longrightarrow> q = refresh_cleanup now q0"
  by (auto simp: refresh_def Let_def split: option.splits)

lemma refresh_starts:
  assumes "refresh token now q0 = (Starts g, q)"
  shows "g = rq_nextGeneration q0 + 1 \<and> jm_get (rq_pending (refresh_cleanup now q0)) token = None
    \<and> q = (refresh_cleanup now q0)\<lparr>rq_nextGeneration := g,
        rq_pending := jm_set token \<lparr>re_generation = g, re_startedAt = now,
          re_stage = AcquireStage, re_staleWarningLogged = False\<rparr> (rq_pending (refresh_cleanup now q0))\<rparr>"
  using assms by (auto simp: refresh_def Let_def split: option.splits)

lemma start_inv:
  assumes inv: "refresh_inv s" and start: "refresh token now (rs_queue s) = (Starts g, q)"
  shows "refresh_inv (s\<lparr>rs_queue := q, rs_leasing := insert (token, g) (rs_leasing s),
    rs_evicted := evict (rs_queue s) q (rs_evicted s)\<rparr>)" (is "refresh_inv ?s")
proof -
  define q1 where "q1 = refresh_cleanup now (rs_queue s)"
  note st = refresh_starts [OF start, folded q1_def]
  have g: "g = rq_nextGeneration (rs_queue s) + 1" and none: "jm_get (rq_pending q1) token = None"
    and q: "q = q1\<lparr>rq_nextGeneration := g,
        rq_pending := jm_set token \<lparr>re_generation = g, re_startedAt = now,
          re_stage = AcquireStage, re_staleWarningLogged = False\<rparr> (rq_pending q1)\<rparr>"
    using st by simp_all
  define s1 where "s1 = s\<lparr>rs_queue := q1, rs_evicted := evict (rs_queue s) q1 (rs_evicted s)\<rparr>"
  have inv1: "refresh_inv s1" unfolding s1_def by (rule cleanup_inv [OF inv q1_def])
  note I1 = inv1 [unfolded refresh_inv_def]
  have parts [simp]: "rs_queue s1 = q1" "rs_leasing s1 = rs_leasing s" "rs_asking s1 = rs_asking s"
    "rs_done s1 = rs_done s" "refreshes_open s1 = refreshes_open s"
    by (simp_all add: s1_def refreshes_open_def)
  have nextg: "rq_nextGeneration q1 = rq_nextGeneration (rs_queue s)" by (simp add: q1_def)
  have le: "g' \<le> rq_nextGeneration (rs_queue s)" if "(t, g') \<in> refreshes_open s" for t g'
    using inv that unfolding refresh_inv_def by blast
  have fresh: "(t, g) \<notin> refreshes_open s" for t using le [of t g] g by auto
  have fl: "refreshes_open ?s = insert (token, g) (refreshes_open s)" by (auto simp: refreshes_open_def)
  have gen: "generation_of q t = (if t = token then Some g else generation_of q1 t)" for t
    by (simp add: q generation_of_def jm_get_set)
  have ok1: "jm_ok (rq_pending q1)" and ok0: "jm_ok (rq_pending (rs_queue s))"
    using I1 inv by (simp_all add: refresh_inv_def)
  have okq: "jm_ok (rq_pending q)" using ok1 by (auto simp: q)
  have "(t, g) \<in> refreshes_open s" if "generation_of (rs_queue s) t = Some g" for t
    using inv that unfolding refresh_inv_def by blast
  then have "g \<notin> pending_generations (rs_queue s)"
    using fresh generation_pending [OF ok0, of g] by auto
  moreover have "pending_generations q = insert g (pending_generations q1)"
  proof (rule set_eqI)
    fix h
    have "generation_of q1 token = None" using none by (simp add: generation_of_def)
    then show "h \<in> pending_generations q \<longleftrightarrow> h \<in> insert g (pending_generations q1)"
      unfolding generation_pending [OF okq] insert_iff generation_pending [OF ok1] gen
      by (metis (full_types) option.distinct(1) option.inject)
  qed
  ultimately have ev: "rs_evicted ?s = rs_evicted s1" by (auto simp: evict_def s1_def)
  have old: "t \<noteq> token" if "generation_of q1 t = Some g'" for t g'
    using that none by (auto simp: generation_of_def)
  show ?thesis
    unfolding refresh_inv_def fl ev
  proof (intro conjI allI impI, goal_cases)
    case 1 then show ?case using okq by simp
  next
    case (2 t g') then show ?case using gen [of t] I1 by (auto split: if_splits)
  next
    case (3 t g') then show ?case using le [of t g'] g by (auto simp: q)
  next
    case (4 t g')
    then have "t = token \<and> g' = g \<or> g' \<in> rs_evicted s1 \<or> generation_of q1 t = Some g'"
      using I1 by auto
    then show ?case using gen [of t] old [of t] by auto
  next
    case (5 t t' g')
    have "(t, g') \<in> refreshes_open s1 \<and> (t', g') \<in> refreshes_open s1 \<longrightarrow> t = t'" using I1 by blast
    with 5 fresh [of t] fresh [of t'] show ?case by auto
  next
    case 6 then show ?case using I1 fresh by (auto simp: refreshes_open_def)
  next
    case 7 then show ?case using I1 fresh by (auto simp: refreshes_open_def)
  next
    case 8 then show ?case using I1 by simp
  next
    case (9 t e)
    then have "t \<noteq> token" using fresh [of t] by (auto simp: q jm_get_set refreshes_open_def)
    with 9 I1 show ?case by (auto simp: q jm_get_set)
  qed
qed

lemma finish_inv:
  assumes inv: "refresh_inv s" and mem: "(token, g) \<in> rs_done s"
  shows "refresh_inv (s\<lparr>rs_queue := finish_refresh token g (rs_queue s), rs_done := rs_done s - {(token, g)}\<rparr>)"
    (is "refresh_inv ?s")
proof -
  note I = inv [unfolded refresh_inv_def]
  have fl: "refreshes_open ?s = refreshes_open s - {(token, g)}" using I mem by (auto simp: refreshes_open_def)
  have pend: "jm_get (rq_pending (finish_refresh token g (rs_queue s))) t = Some e
      \<Longrightarrow> jm_get (rq_pending (rs_queue s)) t = Some e" for t e
    by (auto simp: finish_refresh_def jm_get_delete split: option.splits if_splits)
  have ok: "jm_ok (rq_pending (finish_refresh token g (rs_queue s)))"
    using I by (auto simp: finish_refresh_def split: option.split)
  have nextg: "rq_nextGeneration (finish_refresh token g (rs_queue s)) = rq_nextGeneration (rs_queue s)"
    by (simp add: finish_refresh_def split: option.split)
  show ?thesis
    unfolding refresh_inv_def fl
  proof (intro conjI allI impI, goal_cases)
    case 1 then show ?case using ok by simp
  next
    case (2 t g') then show ?case using I by (auto simp: finish_generation split: if_splits)
  next
    case (3 t g') then show ?case using I nextg by auto
  next
    case (4 t g')
    then have "g' \<in> rs_evicted s \<or> generation_of (rs_queue s) t = Some g'" using I by blast
    with 4 show ?case by (auto simp: finish_generation)
  next
    case (5 t t' g') then show ?case using I by blast
  next
    case 6 then show ?case using I by simp
  next
    case 7 then show ?case using I by auto
  next
    case 8 then show ?case using I by auto
  next
    case (9 t e) then show ?case using pend [of t e] I by auto
  qed
qed

lemma clear_inv:
  assumes inv: "refresh_inv s"
  shows "refresh_inv (s\<lparr>rs_queue := clear_refreshes (rs_queue s),
    rs_evicted := evict (rs_queue s) (clear_refreshes (rs_queue s)) (rs_evicted s)\<rparr>)"
    (is "refresh_inv ?s")
proof -
  note I = inv [unfolded refresh_inv_def]
  have fl: "refreshes_open ?s = refreshes_open s" by (simp add: refreshes_open_def)
  have "g \<in> pending_generations (rs_queue s)" if "generation_of (rs_queue s) t = Some g" for t g
    using that I generation_pending by blast
  then have gone: "g \<in> rs_evicted ?s" if "g \<in> rs_evicted s \<or> generation_of (rs_queue s) t = Some g" for t g
    using that by (auto simp: evict_def pending_generations_def clear_refreshes_def)
  show ?thesis
    unfolding refresh_inv_def fl
    by (intro conjI allI impI)
      (use I gone in \<open>(blast; fail) | (simp add: clear_refreshes_def generation_of_def; fail)\<close>)+
qed

lemma refresh_step_inv:
  assumes "refresh_step s s'" and inv: "refresh_inv s"
  shows "refresh_inv s'"
  using assms(1)
proof cases
  case (call_joins token now g q)
  show ?thesis unfolding call_joins(1)
    by (rule cleanup_inv [OF inv refresh_joins [OF call_joins(2)]])
next
  case (call_starts token now g q)
  show ?thesis unfolding call_starts(1) by (rule start_inv [OF inv call_starts(2)])
next
  case (lease_ends token g lease now r q)
  note I = inv [unfolded refresh_inv_def]
  have "refresh_inv (s\<lparr>rs_queue := q, rs_leasing := rs_leasing s - {(token, g)},
      rs_asking := rs_asking s, rs_done := insert (token, g) (rs_done s)\<rparr>)"
    by (rule stage_move [OF inv, of q token g now])
      (use lease_ends(2) lease_queue(1) [OF lease_ends(3)] I in
        \<open>auto simp: refreshes_open_def markStage_def split: option.split\<close>)
  then show ?thesis unfolding lease_ends(1) by simp
next
  case (lease_owned token g lease now q)
  note I = inv [unfolded refresh_inv_def]
  have "refresh_inv (s\<lparr>rs_queue := q, rs_leasing := rs_leasing s - {(token, g)},
      rs_asking := insert (token, g) (rs_asking s), rs_done := rs_done s\<rparr>)"
    by (rule stage_move [OF inv, of q token g now])
      (use lease_owned(2) lease_queue(2) [OF lease_owned(3)] I in
        \<open>auto simp: refreshes_open_def markStage_def split: option.split\<close>)
  then show ?thesis unfolding lease_owned(1) by simp
next
  case (endpoint_replies token g reply r q)
  note I = inv [unfolded refresh_inv_def]
  have "rq_pending q = rq_pending (rs_queue s) \<and> rq_nextGeneration q = rq_nextGeneration (rs_queue s)"
    using endpoint_replies(3)
    by (auto simp: executeRefreshWithRotationTracking_def Let_def split: token_result.splits if_splits)
  then have "refresh_inv (s\<lparr>rs_queue := q, rs_leasing := rs_leasing s,
      rs_asking := rs_asking s - {(token, g)}, rs_done := insert (token, g) (rs_done s)\<rparr>)"
    by (intro stage_move [OF inv, of q token g 0])
      (use endpoint_replies(2) I in \<open>auto simp: refreshes_open_def\<close>)
  then show ?thesis unfolding endpoint_replies(1) by simp
next
  case (call_finishes token g)
  show ?thesis unfolding call_finishes(1) by (rule finish_inv [OF inv call_finishes(2)])
next
  case cleared
  show ?thesis unfolding cleared by (rule clear_inv [OF inv])
qed

lemma refresh_reachable_inv:
  assumes "refresh_reachable (new_refresh_queue m w) s"
  shows "refresh_inv s"
  using assms
proof induction
  case start
  show ?case
    by (simp add: refresh_inv_def start_system_def new_refresh_queue_def generation_of_def refreshes_open_def)
next
  case (step s s')
  then show ?case by (blast intro: refresh_step_inv)
qed



end
