(* ===== verification/ContextBudget.thy ===== *)
theory ContextBudget
  imports QuotaScheduler ModelMap
begin

text \<open>
  The guard on the size of a session's context (\<open>lib/context-budget-guard.ts\<close>,
  \<open>lib/context-budget/model-context-windows.ts\<close>): the last measured context of every session, and the
  advisory for the next request.  A map of overrides gives a \<open>jsval\<close> per model; a measurement is a
  \<open>jsval\<close> when it arrives and a number when it is stored.
\<close>

section \<open>Context windows\<close>

datatype window_source = FromOverride | FromEstimate

record context_window =
  cw_tokens :: jsnum
  cw_source :: window_source

definition ESTIMATED_MODEL_CONTEXT_WINDOWS :: "(string, jsnum) jsmap" where
  "ESTIMATED_MODEL_CONTEXT_WINDOWS = []"

definition normalizeWindowModelName :: "string option \<Rightarrow> string option" where
  "normalizeWindowModelName model =
     (case model of None \<Rightarrow> None
      | Some m \<Rightarrow> let trimmed = js_lower (js_trim m) in if trimmed = [] then None else Some trimmed)"

definition windowLookupCandidates :: "string option \<Rightarrow> string list" where
  "windowLookupCandidates model =
     (case normalizeWindowModelName model of
        None \<Rightarrow> []
      | Some raw \<Rightarrow>
          (case normalizeWindowModelName (getNormalizedModel raw) of
             Some canon \<Rightarrow> if canon \<noteq> raw then [raw, canon] else [raw]
           | None \<Rightarrow> [raw]))"

fun override_window :: "(string, jsval) jsmap \<Rightarrow> string list \<Rightarrow> jsnum option" where
  "override_window overrides [] = None"
| "override_window overrides (candidate # cs) =
     (case jm_get overrides candidate of
        Some (Finite override) \<Rightarrow>
          let tokens = js_floor override in if 0 < tokens then Some tokens else override_window overrides cs
      | _ \<Rightarrow> override_window overrides cs)"

fun estimate_window :: "string list \<Rightarrow> jsnum option" where
  "estimate_window [] = None"
| "estimate_window (candidate # cs) =
     (case jm_get ESTIMATED_MODEL_CONTEXT_WINDOWS candidate of
        Some estimate \<Rightarrow> Some estimate | None \<Rightarrow> estimate_window cs)"

definition getEffectiveContextWindow :: "string option \<Rightarrow> (string, jsval) jsmap option \<Rightarrow> context_window option" where
  "getEffectiveContextWindow model overrides =
     (let candidates = windowLookupCandidates model
      in case override_window (nullish overrides []) candidates of
           Some tokens \<Rightarrow> Some \<lparr>cw_tokens = tokens, cw_source = FromOverride\<rparr>
         | None \<Rightarrow>
             map_option (\<lambda>tokens. \<lparr>cw_tokens = tokens, cw_source = FromEstimate\<rparr>) (estimate_window candidates))"

section \<open>The guard\<close>

record context_snapshot =
  cs_model :: string
  cs_contextTokens :: jsnum
  cs_updatedAt :: jsnum

record context_options =
  co_enabled :: "bool option"
  co_softPercent :: "jsval option"
  co_hardPercent :: "jsval option"
  co_modelWindowOverrides :: "(string, jsval) jsmap option"

record context_guard =
  cg_snapshots :: "(string, context_snapshot) jsmap"
  cg_enabled :: bool
  cg_softPercent :: jsnum
  cg_hardPercent :: jsnum
  cg_modelWindowOverrides :: "(string, jsval) jsmap option"
  cg_lastPruneAt :: jsnum

record context_pressure =
  cp_percent :: jsnum
  cp_contextTokens :: jsnum
  cp_windowTokens :: jsnum
  cp_windowSource :: window_source
  cp_model :: string

datatype context_advisory = AdvisoryOk | AdvisorySoft context_pressure | AdvisoryHard context_pressure

definition MIN_HARD_PERCENT :: jsnum where
  "MIN_HARD_PERCENT = 10"

definition CONTEXT_SESSION_TTL_MS :: jsnum where
  "CONTEXT_SESSION_TTL_MS = 6 * 60 * 60000"

definition CONTEXT_PRUNE_INTERVAL_MS :: jsnum where
  "CONTEXT_PRUNE_INTERVAL_MS = 60000"

definition finite_percent :: "jsval option \<Rightarrow> jsnum \<Rightarrow> jsnum \<Rightarrow> jsnum" where
  "finite_percent v least old = (case v of Some (Finite x) \<Rightarrow> clampInt x least 100 | _ \<Rightarrow> old)"

definition cg_configure :: "context_options \<Rightarrow> context_guard \<Rightarrow> context_guard" where
  "cg_configure opts g0 =
     (let g1 = (case co_enabled opts of
                  None \<Rightarrow> g0
                | Some e \<Rightarrow> (if \<not> e \<and> cg_enabled g0 then g0\<lparr>cg_snapshots := []\<rparr> else g0)\<lparr>cg_enabled := e\<rparr>);
          g2 = g1\<lparr>cg_softPercent := finite_percent (co_softPercent opts) 0 (cg_softPercent g1)\<rparr>;
          g3 = g2\<lparr>cg_hardPercent := finite_percent (co_hardPercent opts) MIN_HARD_PERCENT (cg_hardPercent g2)\<rparr>;
          g4 = (if cg_hardPercent g3 \<le> cg_softPercent g3
                then g3\<lparr>cg_softPercent := max 0 (cg_hardPercent g3 - 1)\<rparr> else g3)
      in case co_modelWindowOverrides opts of
           None \<Rightarrow> g4 | Some overrides \<Rightarrow> g4\<lparr>cg_modelWindowOverrides := Some overrides\<rparr>)"

definition cg_new :: "context_options \<Rightarrow> context_guard" where
  "cg_new opts = cg_configure opts \<lparr>cg_snapshots = [], cg_enabled = False, cg_softPercent = 65,
     cg_hardPercent = 69, cg_modelWindowOverrides = None, cg_lastPruneAt = 0\<rparr>"

definition cg_prune :: "jsnum \<Rightarrow> context_guard \<Rightarrow> nat \<times> context_guard" where
  "cg_prune now g =
     (let old = (\<lambda>k s. now - cs_updatedAt s > CONTEXT_SESSION_TTL_MS)
      in (jm_count old (cg_snapshots g), g\<lparr>cg_snapshots := jm_remove_if old (cg_snapshots g)\<rparr>))"

definition cg_maybePrune :: "jsnum \<Rightarrow> context_guard \<Rightarrow> context_guard" where
  "cg_maybePrune now g =
     (if now - cg_lastPruneAt g < CONTEXT_PRUNE_INTERVAL_MS then g
      else (snd (cg_prune now g))\<lparr>cg_lastPruneAt := now\<rparr>)"

definition cg_update :: "jsnum \<Rightarrow> string \<Rightarrow> string \<Rightarrow> jsval \<Rightarrow> jsnum \<Rightarrow> context_guard \<Rightarrow> context_guard" where
  "cg_update now key model contextTokens updatedAt g =
     (if \<not> cg_enabled g \<or> key = [] then g
      else case contextTokens of
        NonFinite \<Rightarrow> g
      | Finite tokens \<Rightarrow>
          if tokens < 0 then g
          else
            let g1 = cg_maybePrune (if updatedAt = 0 then now else updatedAt) g
            in g1\<lparr>cg_snapshots := jm_set key \<lparr>cs_model = model, cs_contextTokens = tokens,
                 cs_updatedAt = updatedAt\<rparr> (cg_snapshots g1)\<rparr>)"

definition getAdvisory :: "string \<Rightarrow> jsnum \<Rightarrow> string option \<Rightarrow> context_guard \<Rightarrow> context_advisory \<times> context_guard" where
  "getAdvisory key now requestModel g0 =
     (let g = cg_maybePrune now g0
      in if \<not> cg_enabled g \<or> key = [] then (AdvisoryOk, g)
         else case jm_get (cg_snapshots g) key of
           None \<Rightarrow> (AdvisoryOk, g)
         | Some snapshot \<Rightarrow>
             let trimmedRequestModel = map_option js_trim requestModel;
                 evaluatedModel = (case trimmedRequestModel of
                     Some m \<Rightarrow> if m = [] then cs_model snapshot else m | None \<Rightarrow> cs_model snapshot)
             in case getEffectiveContextWindow (Some evaluatedModel) (cg_modelWindowOverrides g) of
                  None \<Rightarrow> (AdvisoryOk, g)
                | Some window \<Rightarrow>
                    if cw_tokens window \<le> 0 then (AdvisoryOk, g)
                    else
                      let percent = cs_contextTokens snapshot / cw_tokens window * 100;
                          pressure = \<lparr>cp_percent = percent, cp_contextTokens = cs_contextTokens snapshot,
                            cp_windowTokens = cw_tokens window, cp_windowSource = cw_source window,
                            cp_model = evaluatedModel\<rparr>
                      in if cg_hardPercent g \<le> percent then (AdvisoryHard pressure, g)
                         else if cg_softPercent g \<le> percent then (AdvisorySoft pressure, g)
                         else (AdvisoryOk, g))"

definition cg_forget :: "string \<Rightarrow> context_guard \<Rightarrow> context_guard" where
  "cg_forget key g = g\<lparr>cg_snapshots := jm_delete key (cg_snapshots g)\<rparr>"

definition noteHardPauseEmitted :: "string \<Rightarrow> context_guard \<Rightarrow> context_guard" where
  "noteHardPauseEmitted key g = g\<lparr>cg_snapshots := jm_delete key (cg_snapshots g)\<rparr>"

section \<open>Runs\<close>

datatype context_op =
    ConfigureGuard context_options
  | RecordContext string string jsval jsnum
  | AskAdvisory string "string option"
  | PruneContexts
  | ForgetContext string
  | PauseEmitted string

fun context_step :: "context_op \<Rightarrow> jsnum \<Rightarrow> context_guard \<Rightarrow> context_guard" where
  "context_step (ConfigureGuard opts) now g = cg_configure opts g"
| "context_step (RecordContext key model tokens updatedAt) now g = cg_update now key model tokens updatedAt g"
| "context_step (AskAdvisory key model) now g = snd (getAdvisory key now model g)"
| "context_step PruneContexts now g = snd (cg_prune now g)"
| "context_step (ForgetContext key) now g = cg_forget key g"
| "context_step (PauseEmitted key) now g = noteHardPauseEmitted key g"

text \<open>\<open>guard_ok\<close>: the thresholds are in order and every stored measurement is a real one.\<close>

definition guard_ok :: "context_guard \<Rightarrow> bool" where
  "guard_ok g \<longleftrightarrow> 0 \<le> cg_softPercent g \<and> cg_softPercent g < cg_hardPercent g
     \<and> MIN_HARD_PERCENT \<le> cg_hardPercent g \<and> cg_hardPercent g \<le> 100
     \<and> jm_ok (cg_snapshots g)"

lemma finite_percent_range:
  "least \<le> 100 \<Longrightarrow> least \<le> old \<Longrightarrow> old \<le> 100 \<Longrightarrow> least \<le> finite_percent v least old \<and> finite_percent v least old \<le> 100"
  by (auto simp: finite_percent_def clampInt_def split: option.split jsval.split)

lemma configure_ok:
  assumes "0 \<le> cg_softPercent g \<and> cg_softPercent g \<le> 100 \<and> MIN_HARD_PERCENT \<le> cg_hardPercent g
    \<and> cg_hardPercent g \<le> 100 \<and> jm_ok (cg_snapshots g)"
  shows "guard_ok (cg_configure opts g)"
proof -
  have "0 \<le> finite_percent v 0 (cg_softPercent g) \<and> finite_percent v 0 (cg_softPercent g) \<le> 100"
    "MIN_HARD_PERCENT \<le> finite_percent v MIN_HARD_PERCENT (cg_hardPercent g)
     \<and> finite_percent v MIN_HARD_PERCENT (cg_hardPercent g) \<le> 100" for v
    using assms by (intro finite_percent_range; simp add: MIN_HARD_PERCENT_def)+
  moreover from this(2) have "0 < finite_percent v MIN_HARD_PERCENT (cg_hardPercent g)" for v
    by (rule less_le_trans [rotated, OF conjunct1]) (simp add: MIN_HARD_PERCENT_def)
  ultimately show ?thesis using assms
    by (auto simp: guard_ok_def cg_configure_def Let_def MIN_HARD_PERCENT_def not_le split: option.split)
qed

lemma maybePrune_frame [simp]:
  "cg_softPercent (cg_maybePrune now g) = cg_softPercent g"
  "cg_hardPercent (cg_maybePrune now g) = cg_hardPercent g"
  "cg_enabled (cg_maybePrune now g) = cg_enabled g"
  "cg_modelWindowOverrides (cg_maybePrune now g) = cg_modelWindowOverrides g"
  "jm_ok (cg_snapshots g) \<Longrightarrow> jm_ok (cg_snapshots (cg_maybePrune now g))"
  by (auto simp: cg_maybePrune_def cg_prune_def Let_def)

lemma getAdvisory_state [simp]: "snd (getAdvisory key now model g) = cg_maybePrune now g"
  by (simp add: getAdvisory_def Let_def split: option.split)

lemma step_guard_ok: "guard_ok g \<Longrightarrow> guard_ok (context_step x now g)"
proof (cases x)
  case (ConfigureGuard opts)
  assume "guard_ok g"
  then show ?thesis unfolding ConfigureGuard context_step.simps
    by (intro configure_ok) (auto simp: guard_ok_def)
qed (auto simp: guard_ok_def cg_update_def cg_prune_def cg_forget_def noteHardPauseEmitted_def Let_def
    split: jsval.split)

interpretation cgm: stable_machine context_step guard_ok
  by unfold_locales (rule step_guard_ok)

lemma new_guard_ok: "guard_ok (cg_new opts)"
  unfolding cg_new_def by (rule configure_ok) (simp add: MIN_HARD_PERCENT_def)

text \<open>
  No configuration can make the guard fire on every session or invert its levels: whatever options
  it is built with and whatever calls follow, the soft threshold stays below the hard one and the hard
  one between ten and a hundred percent.
\<close>

theorem thresholds_ordered:
  "0 \<le> cg_softPercent (timed_run context_step (cg_new opts) ops)
    \<and> cg_softPercent (timed_run context_step (cg_new opts) ops)
        < cg_hardPercent (timed_run context_step (cg_new opts) ops)
    \<and> 10 \<le> cg_hardPercent (timed_run context_step (cg_new opts) ops)
    \<and> cg_hardPercent (timed_run context_step (cg_new opts) ops) \<le> 100"
  using cgm.keeps_run [OF new_guard_ok, of opts ops] by (simp add: guard_ok_def MIN_HARD_PERCENT_def)

text \<open>A stored measurement was there before or is one the run recorded.\<close>

definition recorded_in :: "(context_op \<times> jsnum) list \<Rightarrow> string \<Rightarrow> context_snapshot \<Rightarrow> bool" where
  "recorded_in ops key sn \<longleftrightarrow> 0 \<le> cs_contextTokens sn
     \<and> (\<exists>t. (RecordContext key (cs_model sn) (Finite (cs_contextTokens sn)) (cs_updatedAt sn), t) \<in> set ops)"

lemma prune_origin:
  "jm_ok (cg_snapshots g) \<Longrightarrow> jm_get (cg_snapshots (cg_maybePrune now g)) key = Some sn
    \<Longrightarrow> jm_get (cg_snapshots g) key = Some sn"
  by (auto simp: cg_maybePrune_def cg_prune_def Let_def jm_get_remove_if split: if_splits option.splits)

lemma step_origin:
  assumes "jm_ok (cg_snapshots g)" and "jm_get (cg_snapshots (context_step x now g)) key = Some sn"
  shows "jm_get (cg_snapshots g) key = Some sn \<or> recorded_in [(x, now)] key sn"
proof (cases x)
  case (ConfigureGuard opts)
  then show ?thesis using assms(2)
    by (auto simp: cg_configure_def Let_def split: option.splits if_splits)
next
  case (RecordContext k m tokens u)
  then show ?thesis using assms
    by (auto simp: cg_update_def Let_def jm_get_set recorded_in_def intro: prune_origin
        split: jsval.splits if_splits)
next
  case PruneContexts
  then show ?thesis using assms
    by (auto simp: cg_prune_def Let_def jm_get_remove_if split: option.splits if_splits)
qed (use assms in \<open>auto simp: cg_forget_def noteHardPauseEmitted_def jm_get_delete intro: prune_origin
    split: if_splits\<close>)

lemma run_origin:
  assumes "guard_ok g" and "jm_get (cg_snapshots (timed_run context_step g ops)) key = Some sn"
  shows "jm_get (cg_snapshots g) key = Some sn \<or> recorded_in ops key sn"
  using assms
proof (induction ops arbitrary: g)
  case (Cons e ops)
  obtain x now where e: "e = (x, now)" by (cases e)
  have "jm_get (cg_snapshots (context_step x now g)) key = Some sn \<or> recorded_in ops key sn"
    using Cons.IH [OF step_guard_ok [OF Cons.prems(1)], of x now] Cons.prems(2) e by simp
  then show ?case
    using step_origin [of g x now key sn] Cons.prems(1) e by (auto simp: guard_ok_def recorded_in_def)
qed simp

lemma hard_advisory:
  assumes "fst (getAdvisory key now model g) = AdvisoryHard p" and "jm_ok (cg_snapshots g)"
  shows "\<exists>sn. jm_get (cg_snapshots g) key = Some sn \<and> cp_contextTokens p = cs_contextTokens sn
    \<and> 0 < cp_windowTokens p \<and> cg_hardPercent g \<le> cs_contextTokens sn / cp_windowTokens p * 100"
proof -
  obtain sn where "jm_get (cg_snapshots (cg_maybePrune now g)) key = Some sn"
    using assms(1) by (auto simp: getAdvisory_def Let_def split: if_splits option.splits)
  with assms show ?thesis
    using prune_origin [OF assms(2), of now key sn]
    by (auto simp: getAdvisory_def Let_def split: if_splits option.splits)
qed

text \<open>
  C27. A pause is one-shot and never a dead end: whatever happens after a hard pause was emitted for a
  session, the guard pauses it again only on a measurement that was recorded after that pause, and only
  when that measurement fills at least ten percent, and the configured share, of a known window.
\<close>

theorem pause_needs_measurement:
  assumes "fst (getAdvisory key now model (timed_run context_step (cg_new opts) (before @ (PauseEmitted key, t) # after)))
    = AdvisoryHard p"
  shows "\<exists>m u t'. (RecordContext key m (Finite (cp_contextTokens p)) u, t') \<in> set after
    \<and> 0 < cp_windowTokens p
    \<and> cg_hardPercent (timed_run context_step (cg_new opts) (before @ (PauseEmitted key, t) # after)) / 100
        * cp_windowTokens p \<le> cp_contextTokens p
    \<and> cp_windowTokens p \<le> 10 * cp_contextTokens p"
proof -
  define g0 where "g0 = context_step (PauseEmitted key) t (timed_run context_step (cg_new opts) before)"
  define g where "g = timed_run context_step g0 after"
  have run: "timed_run context_step (cg_new opts) (before @ (PauseEmitted key, t) # after) = g"
    by (simp add: timed_run_append g_def g0_def)
  have ok0: "guard_ok g0" unfolding g0_def by (rule step_guard_ok [OF cgm.keeps_run [OF new_guard_ok]])
  have ok: "guard_ok g" unfolding g_def by (rule cgm.keeps_run [OF ok0])
  have none: "jm_get (cg_snapshots g0) key = None" by (simp add: g0_def noteHardPauseEmitted_def jm_get_delete)
  obtain sn where sn: "jm_get (cg_snapshots g) key = Some sn" "cp_contextTokens p = cs_contextTokens sn"
    and w: "0 < cp_windowTokens p" and pc: "cg_hardPercent g \<le> cs_contextTokens sn / cp_windowTokens p * 100"
    using hard_advisory [of key now model g p] assms ok unfolding run guard_ok_def by auto
  have "recorded_in after key sn" using run_origin [OF ok0 sn(1) [unfolded g_def]] none by simp
  moreover have share: "cg_hardPercent g / 100 * cp_windowTokens p \<le> cp_contextTokens p"
    using pc w sn(2) by (simp add: field_simps)
  moreover have "cp_windowTokens p \<le> 10 * cp_contextTokens p"
  proof -
    have "10 * cp_windowTokens p \<le> cg_hardPercent g * cp_windowTokens p"
      using ok w by (intro mult_right_mono) (simp_all add: guard_ok_def MIN_HARD_PERCENT_def)
    then show ?thesis using share by simp
  qed
  ultimately show ?thesis using w sn(2) unfolding run recorded_in_def by auto
qed

text \<open>An override under the name the client typed wins over every other source.\<close>

lemma typed_override_wins:
  assumes "normalizeWindowModelName model = Some raw" and "jm_get overrides raw = Some (Finite x)" and "1 \<le> x"
  shows "getEffectiveContextWindow model (Some overrides)
    = Some \<lparr>cw_tokens = js_floor x, cw_source = FromOverride\<rparr>"
proof -
  have "\<exists>cs. windowLookupCandidates model = raw # cs"
    using assms(1) by (auto simp: windowLookupCandidates_def split: option.split)
  moreover have "0 < js_floor x" using js_floor_mono [OF assms(3)] by simp
  ultimately show ?thesis using assms(2) by (auto simp: getEffectiveContextWindow_def Let_def)
qed

theorem pause_needs_measurement_witness:
  "\<exists>m u t'. (RecordContext ''s'' m (Finite 900) u, t') \<in> set [(RecordContext ''s'' ''big'' (Finite 900) 5, 5 :: jsnum)]
    \<and> (1000 :: jsnum) \<le> 10 * 900"
proof -
  define g where "g = timed_run context_step
      (cg_new \<lparr>co_enabled = Some True, co_softPercent = None, co_hardPercent = None,
         co_modelWindowOverrides = Some [(''big'', Finite 1000)]\<rparr>)
      ([] @ (PauseEmitted ''s'', 4) # [(RecordContext ''s'' ''big'' (Finite 900) 5, 5)])"
  have g: "g = \<lparr>cg_snapshots = [(''s'', \<lparr>cs_model = ''big'', cs_contextTokens = 900, cs_updatedAt = 5\<rparr>)],
      cg_enabled = True, cg_softPercent = 65, cg_hardPercent = 69,
      cg_modelWindowOverrides = Some [(''big'', Finite 1000)], cg_lastPruneAt = 0\<rparr>"
    unfolding g_def by code_simp
  have "normalizeWindowModelName (Some ''big'') = Some ''big''" by code_simp
  then have "getEffectiveContextWindow (Some ''big'') (Some [(''big'', Finite 1000)])
      = Some \<lparr>cw_tokens = 1000, cw_source = FromOverride\<rparr>"
    by (subst typed_override_wins [where x = 1000]) simp_all
  then have "fst (getAdvisory ''s'' 6 None g)
    = AdvisoryHard \<lparr>cp_percent = 90, cp_contextTokens = 900, cp_windowTokens = 1000,
        cp_windowSource = FromOverride, cp_model = ''big''\<rparr>"
    by (simp add: getAdvisory_def g cg_maybePrune_def CONTEXT_PRUNE_INTERVAL_MS_def Let_def)
  from pause_needs_measurement [OF this [unfolded g_def]] show ?thesis by simp
qed

end
