(* ===== verification/DedupHeap.thy ===== *)
theory DedupHeap
  imports JsMap "HOL-Library.Product_Lexorder" "HOL-Library.Multiset"
begin

text \<open>
  \<open>DedupNewestIndex\<close> of \<open>lib/storage.ts\<close>: the survivors that own one identity value, with the newest of
  them on top of a binary max-heap from which dead entries are dropped when they surface.  Entries are
  objects that the code compares by reference: \<open>de_object\<close> numbers them in the order they are made.
\<close>

section \<open>Entries and the heap\<close>

record dedup_entry =
  de_index :: nat
  de_lastUsed :: jsnum
  de_addedAt :: jsnum
  de_object :: nat

record newest_index =
  ni_liveEntries :: "(nat, dedup_entry) jsmap"
  ni_heap :: "dedup_entry list"
  ni_objects :: nat

definition new_newest_index :: newest_index where
  "new_newest_index = \<lparr>ni_liveEntries = [], ni_heap = [], ni_objects = 0\<rparr>"

definition compareDedupIndexEntries :: "dedup_entry \<Rightarrow> dedup_entry \<Rightarrow> jsnum" where
  "compareDedupIndexEntries a b =
     (if de_lastUsed a \<noteq> de_lastUsed b then de_lastUsed a - de_lastUsed b
      else if de_addedAt a \<noteq> de_addedAt b then de_addedAt a - de_addedAt b
      else of_nat (de_index a) - of_nat (de_index b))"

text \<open>\<open>(slot - 1) >> 1\<close>\<close>

definition heap_parent :: "nat \<Rightarrow> nat" where
  "heap_parent slot = (slot - 1) div 2"

lemma heap_parent_less: "0 < slot \<Longrightarrow> heap_parent slot < slot"
  by (simp add: heap_parent_def)

lemma heap_parent_eq: "0 < i \<Longrightarrow> heap_parent i = slot \<longleftrightarrow> i = slot * 2 + 1 \<or> i = slot * 2 + 2"
  unfolding heap_parent_def by arith

text \<open>The loop of \<open>set\<close> that moves a new entry up.\<close>

function heap_up :: "dedup_entry list \<Rightarrow> nat \<Rightarrow> dedup_entry \<Rightarrow> dedup_entry list" where
  "heap_up heap slot entry =
     (if slot = 0 then heap[slot := entry]
      else let parent = heap_parent slot; parentEntry = heap ! parent
           in if compareDedupIndexEntries parentEntry entry \<ge> 0 then heap[slot := entry]
              else heap_up (heap[slot := parentEntry]) parent entry)"
  by pat_completeness auto
termination by (relation "measure (\<lambda>(heap, slot, entry). slot)") (auto simp: heap_parent_less)

text \<open>The loop of \<open>dropHeapTop\<close> that moves the last entry down from the top.\<close>

definition best_slot :: "dedup_entry list \<Rightarrow> nat \<Rightarrow> nat" where
  "best_slot heap slot =
     (let left = slot * 2 + 1; right = left + 1;
          best = (if left < length heap \<and> compareDedupIndexEntries (heap ! left) (heap ! slot) > 0
                  then left else slot)
      in if right < length heap \<and> compareDedupIndexEntries (heap ! right) (heap ! best) > 0
         then right else best)"

lemma best_slot_range: "best_slot heap slot \<noteq> slot \<Longrightarrow> slot < best_slot heap slot \<and> best_slot heap slot < length heap"
  by (auto simp: best_slot_def Let_def split: if_splits)

function heap_down :: "dedup_entry list \<Rightarrow> nat \<Rightarrow> dedup_entry list" where
  "heap_down heap slot =
     (let best = best_slot heap slot
      in if best = slot then heap
         else heap_down (heap[slot := heap ! best, best := heap ! slot]) best)"
  by pat_completeness auto
termination
  by (relation "measure (\<lambda>(heap, slot). length heap - slot)")
    (auto dest: best_slot_range intro: diff_less_mono2 less_trans)

declare heap_up.simps [simp del] heap_down.simps [simp del]

definition dropHeapTop :: "dedup_entry list \<Rightarrow> dedup_entry list" where
  "dropHeapTop heap =
     (if heap = [] \<or> butlast heap = [] then [] else heap_down ((butlast heap)[0 := last heap]) 0)"

text \<open>\<open>set\<close> is given the freshness of the account: its \<open>lastUsed\<close> and \<open>addedAt\<close>, each \<open>|| 0\<close>.\<close>

definition ni_set :: "nat \<Rightarrow> jsnum \<Rightarrow> jsnum \<Rightarrow> newest_index \<Rightarrow> newest_index" where
  "ni_set index lastUsed addedAt ni =
     (let entry = \<lparr>de_index = index, de_lastUsed = lastUsed, de_addedAt = addedAt,
                    de_object = ni_objects ni\<rparr>;
          slot = length (ni_heap ni)
      in \<lparr>ni_liveEntries = jm_set index entry (ni_liveEntries ni),
          ni_heap = heap_up (ni_heap ni @ [entry]) slot entry,
          ni_objects = ni_objects ni + 1\<rparr>)"

definition ni_delete :: "nat \<Rightarrow> newest_index \<Rightarrow> newest_index" where
  "ni_delete index ni = ni\<lparr>ni_liveEntries := jm_delete index (ni_liveEntries ni)\<rparr>"

definition ni_size :: "newest_index \<Rightarrow> nat" where
  "ni_size ni = length (ni_liveEntries ni)"

section \<open>The heap property\<close>

text \<open>The order of the comparator: newer entries are greater.\<close>

definition freshness :: "dedup_entry \<Rightarrow> jsnum \<times> jsnum \<times> nat" where
  "freshness e = (de_lastUsed e, de_addedAt e, de_index e)"

lemma compare_freshness:
  "compareDedupIndexEntries a b \<ge> 0 \<longleftrightarrow> freshness b \<le> freshness a"
  "compareDedupIndexEntries a b > 0 \<longleftrightarrow> freshness b < freshness a"
  by (auto simp: compareDedupIndexEntries_def freshness_def less_eq_prod_def less_prod_def)

definition heap_ok :: "dedup_entry list \<Rightarrow> bool" where
  "heap_ok h \<longleftrightarrow> (\<forall>i. 0 < i \<and> i < length h \<longrightarrow> freshness (h ! i) \<le> freshness (h ! heap_parent i))"

lemma heap_top:
  assumes "heap_ok h" and "i < length h"
  shows "freshness (h ! i) \<le> freshness (h ! 0)"
  using assms(2)
proof (induction i rule: less_induct)
  case (less i)
  show ?case
  proof (cases "i = 0")
    case False
    then have "heap_parent i < i" by (simp add: heap_parent_less)
    with less have "freshness (h ! heap_parent i) \<le> freshness (h ! 0)" by simp
    then show ?thesis using assms(1) less.prems False by (auto simp: heap_ok_def intro: order_trans)
  qed simp
qed

lemma mset_move:
  assumes "i < length xs" and "j < length xs" and "i \<noteq> j"
  shows "mset (xs[i := xs ! j, j := e]) = mset (xs[i := e])"
proof -
  have "xs[i := e, j := e, i := xs ! j] = xs[i := xs ! j, j := e]"
    using assms by (simp add: list_update_swap [of i j xs])
  then show ?thesis
    using mset_swap [of i "xs[i := e]" j] assms by simp
qed

lemma heap_up_ok:
  assumes "slot < length h"
    and "\<forall>i. 0 < i \<and> i < length h \<and> i \<noteq> slot \<longrightarrow>
      freshness (h[slot := e] ! i) \<le> freshness (h[slot := e] ! heap_parent i)"
    and "\<forall>i. 0 < i \<and> i < length h \<and> heap_parent i = slot \<and> 0 < slot \<longrightarrow>
      freshness (h ! i) \<le> freshness (h ! heap_parent slot)"
  shows "heap_ok (heap_up h slot e) \<and> mset (heap_up h slot e) = mset (h[slot := e])"
  using assms
proof (induction h slot e rule: heap_up.induct)
  case (1 h slot e)
  define parent where "parent = heap_parent slot"
  show ?case
  proof (cases "slot = 0 \<or> compareDedupIndexEntries (h ! parent) e \<ge> 0")
    case True
    then have eq: "heap_up h slot e = h[slot := e]"
      by (subst heap_up.simps) (auto simp: Let_def parent_def)
    have "freshness (h[slot := e] ! slot) \<le> freshness (h[slot := e] ! heap_parent slot)" if "0 < slot"
      using that True heap_parent_less [OF that] 1(2) by (simp add: compare_freshness parent_def)
    moreover have "freshness (h[slot := e] ! i) \<le> freshness (h[slot := e] ! heap_parent i)"
      if "0 < i" "i < length h" "i \<noteq> slot" for i using 1(3) that by blast
    ultimately have "heap_ok (h[slot := e])" unfolding heap_ok_def
      by (metis length_list_update)
    then show ?thesis unfolding eq by simp
  next
    case False
    then have pos: "0 < slot" and newer: "freshness (h ! parent) < freshness e"
      by (auto simp: compare_freshness not_le)
    have less: "parent < slot" using heap_parent_less [OF pos] by (simp add: parent_def)
    have eq: "heap_up h slot e = heap_up (h[slot := h ! parent]) parent e"
      using False by (subst heap_up.simps) (simp add: Let_def parent_def)
    have old: "freshness (h ! i) \<le> freshness (h ! heap_parent i)"
      if "0 < i" "i < length h" "i \<noteq> slot" "heap_parent i \<noteq> slot" for i
      using 1(3) that by (metis nth_list_update_neq)
    have under: "freshness (h ! i) \<le> freshness (h ! parent)"
      if "0 < i" "i < length h" "heap_parent i = slot" for i
      using 1(4) that pos by (simp add: parent_def)
    have "heap_ok (heap_up (h[slot := h ! parent]) parent e)
        \<and> mset (heap_up (h[slot := h ! parent]) parent e) = mset (h[slot := h ! parent, parent := e])"
    proof (rule 1(1) [OF _ parent_def refl])
      show "slot \<noteq> 0" "\<not> 0 \<le> compareDedupIndexEntries (h ! parent) e" using False by simp_all
      show "parent < length (h[slot := h ! parent])" using less 1(2) by simp
      show "\<forall>i. 0 < i \<and> i < length (h[slot := h ! parent]) \<and> i \<noteq> parent \<longrightarrow>
          freshness (h[slot := h ! parent, parent := e] ! i)
            \<le> freshness (h[slot := h ! parent, parent := e] ! heap_parent i)"
      proof (intro allI impI)
        fix i assume i: "0 < i \<and> i < length (h[slot := h ! parent]) \<and> i \<noteq> parent"
        have pi: "heap_parent i < length h" using i heap_parent_less [of i] by simp
        consider "i = slot" | "i \<noteq> slot" "heap_parent i = slot" | "i \<noteq> slot" "heap_parent i = parent"
          | "i \<noteq> slot" "heap_parent i \<noteq> slot" "heap_parent i \<noteq> parent" by blast
        then show "freshness (h[slot := h ! parent, parent := e] ! i)
            \<le> freshness (h[slot := h ! parent, parent := e] ! heap_parent i)"
        proof cases
          case 1
          then show ?thesis using less newer i pi by (simp add: parent_def [symmetric])
        next
          case 2
          then show ?thesis using under [of i] i less pi by simp
        next
          case 3
          then show ?thesis using old [of i] i less newer pi by simp
        next
          case 4
          then show ?thesis using old [of i] i by simp
        qed
      qed
      show "\<forall>i. 0 < i \<and> i < length (h[slot := h ! parent]) \<and> heap_parent i = parent \<and> 0 < parent \<longrightarrow>
          freshness (h[slot := h ! parent] ! i) \<le> freshness (h[slot := h ! parent] ! heap_parent parent)"
      proof (intro allI impI)
        fix i assume i: "0 < i \<and> i < length (h[slot := h ! parent]) \<and> heap_parent i = parent \<and> 0 < parent"
        have "heap_parent parent < parent" using i heap_parent_less by blast
        moreover have "freshness (h ! parent) \<le> freshness (h ! heap_parent parent)"
          using old [of parent] i less 1(2) calculation by simp
        moreover have "i \<noteq> slot \<Longrightarrow> freshness (h ! i) \<le> freshness (h ! parent)"
          using old [of i] i less by simp
        ultimately show "freshness (h[slot := h ! parent] ! i)
            \<le> freshness (h[slot := h ! parent] ! heap_parent parent)"
          using i less by (cases "i = slot") (auto intro: order_trans)
      qed
    qed
    then show ?thesis unfolding eq using mset_move [of slot h parent e] less 1(2) by simp
  qed
qed

lemma heap_down_ok:
  assumes "slot < length h"
    and "\<forall>i. 0 < i \<and> i < length h \<and> heap_parent i \<noteq> slot \<longrightarrow> freshness (h ! i) \<le> freshness (h ! heap_parent i)"
    and "\<forall>i. 0 < i \<and> i < length h \<and> heap_parent i = slot \<and> 0 < slot \<longrightarrow>
      freshness (h ! i) \<le> freshness (h ! heap_parent slot)"
  shows "heap_ok (heap_down h slot) \<and> mset (heap_down h slot) = mset h"
  using assms
proof (induction h slot rule: heap_down.induct)
  case (1 h slot)
  define best where "best = best_slot h slot"
  have top: "freshness (h ! i) \<le> freshness (h ! best)"
    if "0 < i" "i < length h" "heap_parent i = slot" for i
    using that unfolding heap_parent_eq [OF that(1)] best_def best_slot_def Let_def
    by (auto simp: compare_freshness not_less intro: order_trans less_imp_le)
  have more: "freshness (h ! slot) \<le> freshness (h ! best)"
    by (auto simp: best_def best_slot_def Let_def compare_freshness intro: order_trans less_imp_le)
  show ?case
  proof (cases "best = slot")
    case True
    then have "heap_down h slot = h" by (subst heap_down.simps) (simp add: best_def)
    moreover have "heap_ok h" using top 1(3) True by (metis heap_ok_def)
    ultimately show ?thesis by simp
  next
    case False
    define h' where "h' = h[slot := h ! best, best := h ! slot]"
    have range: "slot < best" "best < length h" using best_slot_range False by (simp_all add: best_def)
    have parent: "heap_parent best = slot"
      using False by (auto simp: best_def best_slot_def Let_def heap_parent_def split: if_splits)
    have eq: "heap_down h slot = heap_down h' best"
      using False by (subst heap_down.simps) (simp add: best_def h'_def Let_def)
    have at: "h' ! i = (if i = best then h ! slot else if i = slot then h ! best else h ! i)" for i
      using range by (simp add: h'_def nth_list_update)
    have len: "length h' = length h" by (simp add: h'_def)
    have "heap_ok (heap_down h' best) \<and> mset (heap_down h' best) = mset h'"
    proof (rule 1(1) [OF best_def False, folded h'_def])
      show "best < length h'" using range len by simp
      show "\<forall>i. 0 < i \<and> i < length h' \<and> heap_parent i \<noteq> best \<longrightarrow> freshness (h' ! i) \<le> freshness (h' ! heap_parent i)"
      proof (intro allI impI)
        fix i assume i: "0 < i \<and> i < length h' \<and> heap_parent i \<noteq> best"
        consider "i = best" | "i = slot" | "i \<noteq> best" "i \<noteq> slot" "heap_parent i = slot"
          | "i \<noteq> best" "i \<noteq> slot" "heap_parent i \<noteq> slot" by blast
        then show "freshness (h' ! i) \<le> freshness (h' ! heap_parent i)"
        proof cases
          case 1
          then show ?thesis using more parent False by (simp add: at)
        next
          case 2
          have "heap_parent slot \<noteq> slot" using i 2 heap_parent_less [of slot] by simp
          moreover have "freshness (h ! best) \<le> freshness (h ! heap_parent slot)"
            using 1(4) parent range i 2 by simp
          ultimately show ?thesis using i 2 False by (simp add: at)
        next
          case 3
          then show ?thesis using top [of i] i len False by (simp add: at)
        next
          case 4
          then show ?thesis using 1(3) i len by (simp add: at)
        qed
      qed
      show "\<forall>i. 0 < i \<and> i < length h' \<and> heap_parent i = best \<and> 0 < best \<longrightarrow>
          freshness (h' ! i) \<le> freshness (h' ! heap_parent best)"
      proof (intro allI impI)
        fix i assume i: "0 < i \<and> i < length h' \<and> heap_parent i = best \<and> 0 < best"
        then have "best < i" using heap_parent_less [of i] by simp
        moreover have "freshness (h ! i) \<le> freshness (h ! heap_parent i)"
          using 1(3) [rule_format, of i] i len range by simp
        ultimately show "freshness (h' ! i) \<le> freshness (h' ! heap_parent best)"
          using i range parent by (simp add: at)
      qed
    qed
    then show ?thesis unfolding eq using mset_swap [of best h slot] range by (simp add: h'_def)
  qed
qed

lemma heap_push:
  assumes "heap_ok h"
  shows "heap_ok (heap_up (h @ [e]) (length h) e) \<and> set (heap_up (h @ [e]) (length h) e) = insert e (set h)"
proof -
  have "heap_ok (heap_up (h @ [e]) (length h) e) \<and> mset (heap_up (h @ [e]) (length h) e) = mset ((h @ [e])[length h := e])"
  proof (rule heap_up_ok; (intro allI impI)?)
    fix i assume i: "0 < i \<and> i < length (h @ [e]) \<and> i \<noteq> length h"
    then have "heap_parent i < length h" using heap_parent_less [of i] by simp
    with i assms show "freshness ((h @ [e])[length h := e] ! i)
        \<le> freshness ((h @ [e])[length h := e] ! heap_parent i)"
      by (simp add: heap_ok_def nth_append)
  next
    fix i assume "0 < i \<and> i < length (h @ [e]) \<and> heap_parent i = length h \<and> 0 < length h"
    then show "freshness ((h @ [e]) ! i) \<le> freshness ((h @ [e]) ! heap_parent (length h))"
      using heap_parent_less [of i] by simp
  qed simp
  then show ?thesis by (metis Un_insert_right append_Nil2 list.set(2) list_update_length set_append set_mset_mset list.set(1))
qed

lemma heap_drop:
  assumes "heap_ok h" and "h \<noteq> []"
  shows "heap_ok (dropHeapTop h) \<and> mset (dropHeapTop h) = mset (tl h)"
proof (cases "butlast h = []")
  case True
  then have "tl h = []" using assms(2) by (cases h rule: rev_cases) auto
  then show ?thesis using True by (simp add: dropHeapTop_def heap_ok_def)
next
  case False
  obtain a m z where h: "h = a # m @ [z]"
  proof -
    obtain b z where "h = b @ [z]" using assms(2) by (cases h rule: rev_cases) auto
    moreover with False obtain a m where "b = a # m" by (cases b) auto
    ultimately show ?thesis using that by simp
  qed
  define h' where "h' = z # m"
  have eq: "dropHeapTop h = heap_down h' 0" using False h by (simp add: dropHeapTop_def h'_def butlast_append)
  have "heap_ok (heap_down h' 0) \<and> mset (heap_down h' 0) = mset h'"
  proof (rule heap_down_ok; (intro allI impI)?)
    fix i assume i: "0 < i \<and> i < length h' \<and> heap_parent i \<noteq> 0"
    then have "h' ! i = h ! i" "h' ! heap_parent i = h ! heap_parent i" "i < length h"
      using heap_parent_less [of i] by (auto simp: h h'_def nth_Cons' nth_append)
    with assms(1) i show "freshness (h' ! i) \<le> freshness (h' ! heap_parent i)" by (simp add: heap_ok_def)
  qed (simp_all add: h'_def)
  then show ?thesis unfolding eq by (simp add: h h'_def)
qed

lemma length_heap_down: "length (heap_down h slot) = length h"
proof (induction h slot rule: heap_down.induct)
  case (1 h slot)
  then show ?case by (subst heap_down.simps) (simp add: Let_def)
qed

lemma length_dropHeapTop: "h \<noteq> [] \<Longrightarrow> length (dropHeapTop h) < length h"
  by (auto simp: dropHeapTop_def length_heap_down)

section \<open>The newest live entry\<close>

text \<open>The loop of \<open>newestIndex\<close>: the top is returned if it is the live entry of its index, and dropped
  otherwise.\<close>

function newest_loop :: "(nat, dedup_entry) jsmap \<Rightarrow> dedup_entry list \<Rightarrow> nat option \<times> dedup_entry list" where
  "newest_loop liveEntries heap =
     (if heap = [] then (None, [])
      else let top = hd heap
           in if jm_get liveEntries (de_index top) = Some top then (Some (de_index top), heap)
              else newest_loop liveEntries (dropHeapTop heap))"
  by pat_completeness auto
termination by (relation "measure (\<lambda>(l, heap). length heap)") (auto simp: length_dropHeapTop)

declare newest_loop.simps [simp del]

definition newestIndex :: "newest_index \<Rightarrow> nat option \<times> newest_index" where
  "newestIndex ni =
     (let (r, heap) = newest_loop (ni_liveEntries ni) (ni_heap ni) in (r, ni\<lparr>ni_heap := heap\<rparr>))"

text \<open>\<open>is_newest m i\<close>: of the owners in \<open>m\<close>, with the times they were last used and added, \<open>i\<close> is the
  newest; the later position wins a tie.\<close>

definition is_newest :: "(nat \<Rightarrow> (jsnum \<times> jsnum) option) \<Rightarrow> nat \<Rightarrow> bool" where
  "is_newest m i \<longleftrightarrow> (\<exists>lu ad. m i = Some (lu, ad)
     \<and> (\<forall>j lu' ad'. m j = Some (lu', ad') \<longrightarrow> (lu', ad', j) \<le> (lu, ad, i)))"

lemma is_newest_unique: "is_newest m i \<Longrightarrow> is_newest m j \<Longrightarrow> i = j"
  unfolding is_newest_def by (metis order_antisym prod.inject)

text \<open>The interface of an index of owners.\<close>

locale owner_index =
  fixes valid :: "'s \<Rightarrow> bool"
    and owners :: "'s \<Rightarrow> nat \<Rightarrow> (jsnum \<times> jsnum) option"
    and put :: "nat \<Rightarrow> jsnum \<Rightarrow> jsnum \<Rightarrow> 's \<Rightarrow> 's"
    and remove :: "nat \<Rightarrow> 's \<Rightarrow> 's"
    and newest :: "'s \<Rightarrow> nat option \<times> 's"
    and count :: "'s \<Rightarrow> nat"
  assumes put_law: "valid s \<Longrightarrow> valid (put i lu ad s) \<and> owners (put i lu ad s) = (owners s)(i \<mapsto> (lu, ad))"
    and remove_law: "valid s \<Longrightarrow> valid (remove i s) \<and> owners (remove i s) = (owners s)(i := None)"
    and newest_law: "valid s \<Longrightarrow> valid (snd (newest s)) \<and> owners (snd (newest s)) = owners s
      \<and> (case fst (newest s) of None \<Rightarrow> owners s = Map.empty | Some i \<Rightarrow> is_newest (owners s) i)"
    and count_law: "valid s \<Longrightarrow> finite (dom (owners s)) \<and> count s = card (dom (owners s))"
begin

lemma newest_is: "valid s \<Longrightarrow> is_newest (owners s) i \<Longrightarrow> fst (newest s) = Some i"
  using newest_law [of s] is_newest_unique [of "owners s"]
  by (auto simp: is_newest_def split: option.splits)

lemma newest_none: "valid s \<Longrightarrow> owners s = Map.empty \<Longrightarrow> fst (newest s) = None"
  using newest_law [of s] by (auto simp: is_newest_def split: option.splits)

lemma count_zero: "valid s \<Longrightarrow> count s = 0 \<longleftrightarrow> owners s = Map.empty"
  using count_law [of s] by (auto simp: card_0_eq)

lemma count_many: "valid s \<Longrightarrow> 1 < count s \<longleftrightarrow> (\<exists>i j. i \<noteq> j \<and> i \<in> dom (owners s) \<and> j \<in> dom (owners s))"
  using count_law [of s] card_le_Suc0_iff_eq [of "dom (owners s)"]
  by (metis One_nat_def linorder_not_less)

end

definition ni_ok :: "newest_index \<Rightarrow> bool" where
  "ni_ok ni \<longleftrightarrow> jm_ok (ni_liveEntries ni) \<and> heap_ok (ni_heap ni)
     \<and> (\<forall>i e. jm_get (ni_liveEntries ni) i = Some e \<longrightarrow> de_index e = i \<and> e \<in> set (ni_heap ni))"

definition ni_owners :: "newest_index \<Rightarrow> nat \<Rightarrow> (jsnum \<times> jsnum) option" where
  "ni_owners ni i = map_option (\<lambda>e. (de_lastUsed e, de_addedAt e)) (jm_get (ni_liveEntries ni) i)"

lemma newest_loop_ok:
  assumes "heap_ok heap" and "\<forall>i e. jm_get live i = Some e \<longrightarrow> de_index e = i \<and> e \<in> set heap"
  shows "case newest_loop live heap of (r, heap') \<Rightarrow>
    heap_ok heap' \<and> (\<forall>i e. jm_get live i = Some e \<longrightarrow> e \<in> set heap')
    \<and> (case r of None \<Rightarrow> \<forall>i. jm_get live i = None
       | Some i \<Rightarrow> \<exists>e. jm_get live i = Some e
           \<and> (\<forall>j e'. jm_get live j = Some e' \<longrightarrow> freshness e' \<le> freshness e))"
  using assms
proof (induction live heap rule: newest_loop.induct)
  case (1 live heap)
  show ?case
  proof (cases "heap = []")
    case True
    have "newest_loop live heap = (None, [])" by (subst newest_loop.simps) (simp add: True)
    moreover have "jm_get live i = None" for i using 1(3) True by (cases "jm_get live i") auto
    ultimately show ?thesis using 1(2) True by simp
  next
    case False
    define top where "top = hd heap"
    have top: "freshness e \<le> freshness top" if "e \<in> set heap" for e
      using that heap_top [OF 1(2)] False by (metis in_set_conv_nth hd_conv_nth top_def)
    show ?thesis
    proof (cases "jm_get live (de_index top) = Some top")
      case True
      have "newest_loop live heap = (Some (de_index top), heap)"
        using True False by (subst newest_loop.simps) (simp add: top_def)
      moreover have "\<forall>j e'. jm_get live j = Some e' \<longrightarrow> freshness e' \<le> freshness top"
        "\<forall>i e. jm_get live i = Some e \<longrightarrow> e \<in> set heap" using 1(3) top by blast+
      ultimately show ?thesis using True 1(2) by simp
    next
      case dead: False
      have eq: "newest_loop live heap = newest_loop live (dropHeapTop heap)"
        using dead False by (subst newest_loop.simps) (simp add: top_def)
      have drop: "heap_ok (dropHeapTop heap)" "set (dropHeapTop heap) = set (tl heap)"
        using heap_drop [OF 1(2) False] by (auto dest: mset_eq_setD)
      have "de_index e = i \<and> e \<in> set (dropHeapTop heap)" if "jm_get live i = Some e" for i e
      proof -
        have e: "de_index e = i" "e \<in> set heap" using 1(3) that by auto
        moreover have "e \<noteq> top" using dead that e by auto
        ultimately show ?thesis using drop False by (cases heap) (auto simp: top_def)
      qed
      then have "\<forall>i e. jm_get live i = Some e \<longrightarrow> de_index e = i \<and> e \<in> set (dropHeapTop heap)"
        by blast
      from 1(1) [OF False top_def dead drop(1) this] show ?thesis unfolding eq .
    qed
  qed
qed

interpretation dni: owner_index ni_ok ni_owners ni_set ni_delete newestIndex ni_size
proof
  fix s i lu ad
  assume ok: "ni_ok s"
  show "ni_ok (ni_set i lu ad s) \<and> ni_owners (ni_set i lu ad s) = (ni_owners s)(i \<mapsto> (lu, ad))"
    using ok heap_push [of "ni_heap s"]
    by (auto simp: ni_ok_def ni_set_def ni_owners_def Let_def jm_get_set fun_eq_iff split: if_splits)
  show "ni_ok (ni_delete i s) \<and> ni_owners (ni_delete i s) = (ni_owners s)(i := None)"
    using ok by (auto simp: ni_ok_def ni_delete_def ni_owners_def jm_get_delete split: if_splits)
next
  fix s assume ok: "ni_ok s"
  obtain r heap where loop: "newest_loop (ni_liveEntries s) (ni_heap s) = (r, heap)" by fastforce
  have new: "newestIndex s = (r, s\<lparr>ni_heap := heap\<rparr>)" by (simp add: newestIndex_def loop)
  have res: "heap_ok heap" "\<forall>i e. jm_get (ni_liveEntries s) i = Some e \<longrightarrow> e \<in> set heap"
    "case r of None \<Rightarrow> \<forall>i. jm_get (ni_liveEntries s) i = None
       | Some i \<Rightarrow> \<exists>e. jm_get (ni_liveEntries s) i = Some e
           \<and> (\<forall>j e'. jm_get (ni_liveEntries s) j = Some e' \<longrightarrow> freshness e' \<le> freshness e)"
    using newest_loop_ok [of "ni_heap s" "ni_liveEntries s"] ok loop by (simp_all add: ni_ok_def)
  have index: "de_index e = i" if "jm_get (ni_liveEntries s) i = Some e" for i e
    using ok that by (simp add: ni_ok_def)
  have "case r of None \<Rightarrow> ni_owners s = Map.empty | Some i \<Rightarrow> is_newest (ni_owners s) i"
  proof (cases r)
    case (Some i)
    then obtain e where e: "jm_get (ni_liveEntries s) i = Some e"
      and big: "jm_get (ni_liveEntries s) j = Some e' \<Longrightarrow> freshness e' \<le> freshness e" for j e'
      using res(3) by auto
    have "(lu', ad', j) \<le> freshness e" if owner: "ni_owners s j = Some (lu', ad')" for j lu' ad'
    proof -
      obtain z where z: "jm_get (ni_liveEntries s) j = Some z" "lu' = de_lastUsed z" "ad' = de_addedAt z"
        using owner by (auto simp: ni_owners_def)
      with index [OF z(1)] big [OF z(1)] show ?thesis by (simp only: freshness_def)
    qed
    then have "is_newest (ni_owners s) i"
      unfolding is_newest_def using e index [OF e] by (auto simp only: freshness_def ni_owners_def option.map)
    then show ?thesis using Some by simp
  qed (use res(3) in \<open>simp add: ni_owners_def fun_eq_iff\<close>)
  then show "ni_ok (snd (newestIndex s)) \<and> ni_owners (snd (newestIndex s)) = ni_owners s
      \<and> (case fst (newestIndex s) of None \<Rightarrow> ni_owners s = Map.empty | Some i \<Rightarrow> is_newest (ni_owners s) i)"
    using ok res(1,2) by (simp add: new ni_ok_def ni_owners_def fun_eq_iff)
next
  fix s assume ok: "ni_ok s"
  have "dom (ni_owners s) = set (map fst (ni_liveEntries s))"
    by (auto simp: ni_owners_def dom_def jm_get_def map_of_eq_None_iff)
  then show "finite (dom (ni_owners s)) \<and> ni_size s = card (dom (ni_owners s))"
    using ok distinct_card [of "map fst (ni_liveEntries s)"] by (simp add: ni_size_def ni_ok_def jm_ok_def)
qed

end
