(* ===== verification/AccountMatch.thy ===== *)
theory AccountMatch
  imports DedupHeap SnapshotMerge
begin

text \<open>
  Finding the stored account a credential belongs to (\<open>findMatchingAccountIndex\<close> of \<open>lib/storage.ts\<close>,
  with \<open>lib/storage/account-match-utils.ts\<close>): four tiers of matches, each with its vetoes, by linear
  scans.  Accounts are the JSON rows of the account file; a property that is not a string (a number)
  counts as missing.
\<close>

section \<open>The newest of two accounts\<close>

definition row_ref :: "json \<Rightarrow> identity_ref" where
  "row_ref row = toAccountIdentityRef (row_string row ''accountId'') (row_string row ''email'')
     (row_string row ''refreshToken'')"

definition row_lastUsed :: "json \<Rightarrow> jsnum" where
  "row_lastUsed row = nullish (row_number row ''lastUsed'') 0"

definition row_addedAt :: "json \<Rightarrow> jsnum" where
  "row_addedAt row = nullish (row_number row ''addedAt'') 0"

text \<open>\<open>selectNewestAccount(current, candidate) === candidate\<close> for a current account.\<close>

definition candidate_newest :: "json \<Rightarrow> json \<Rightarrow> bool" where
  "candidate_newest current candidate =
     (if row_lastUsed candidate > row_lastUsed current then True
      else if row_lastUsed candidate < row_lastUsed current then False
      else row_addedAt candidate \<ge> row_addedAt current)"

definition selectNewestAccount :: "json option \<Rightarrow> json \<Rightarrow> json" where
  "selectNewestAccount current candidate =
     (case current of None \<Rightarrow> candidate
      | Some c \<Rightarrow> if candidate_newest c candidate then candidate else c)"

definition collectDistinctIdentityValues :: "string option list \<Rightarrow> string list" where
  "collectDistinctIdentityValues values =
     remdups (List.map_filter (\<lambda>v. if v = Some [] then None else v) values)"

fun newest_matching :: "(identity_ref \<Rightarrow> bool) \<Rightarrow> nat \<Rightarrow> json list \<Rightarrow> (nat \<times> json) option \<Rightarrow> nat option" where
  "newest_matching p i [] best = map_option fst best"
| "newest_matching p i (account # accounts) best =
     (if \<not> p (row_ref account) then newest_matching p (i + 1) accounts best
      else case best of
        None \<Rightarrow> newest_matching p (i + 1) accounts (Some (i, account))
      | Some (j, current) \<Rightarrow>
          newest_matching p (i + 1) accounts
            (if candidate_newest current account then Some (i, account) else best))"

definition findNewestMatchingIndex :: "json list \<Rightarrow> (identity_ref \<Rightarrow> bool) \<Rightarrow> nat option" where
  "findNewestMatchingIndex accounts p = newest_matching p 0 accounts None"

section \<open>The four tiers\<close>

definition findCompositeAccountMatchIndex :: "json list \<Rightarrow> identity_ref \<Rightarrow> nat option" where
  "findCompositeAccountMatchIndex accounts c =
     (if ir_accountId c = None \<or> ir_emailKey c = None then None
      else findNewestMatchingIndex accounts
        (\<lambda>ref. ir_accountId ref = ir_accountId c \<and> ir_emailKey ref = ir_emailKey c))"

definition findSafeEmailMatchIndex :: "json list \<Rightarrow> identity_ref \<Rightarrow> nat option" where
  "findSafeEmailMatchIndex accounts c =
     (if ir_emailKey c = None then None
      else
        let found = filter (\<lambda>ref. ir_emailKey ref = ir_emailKey c) (map row_ref accounts);
            emailAccountIds = ir_accountId c # map ir_accountId found
        in if found = [] then None
           else if 1 < length (collectDistinctIdentityValues emailAccountIds) then None
           else findNewestMatchingIndex accounts (\<lambda>ref. ir_emailKey ref = ir_emailKey c))"

definition conflicting_ref :: "identity_ref \<Rightarrow> identity_ref \<Rightarrow> bool" where
  "conflicting_ref c ref \<longleftrightarrow>
     ir_accountId c \<noteq> None \<and> ir_accountId ref \<noteq> None \<and> ir_accountId ref \<noteq> ir_accountId c
     \<or> ir_emailKey c \<noteq> None \<and> ir_emailKey ref \<noteq> None \<and> ir_emailKey ref \<noteq> ir_emailKey c"

fun compatible_refresh :: "identity_ref \<Rightarrow> nat \<Rightarrow> json list \<Rightarrow> (nat \<times> json) option \<Rightarrow> nat option" where
  "compatible_refresh c i [] best = map_option fst best"
| "compatible_refresh c i (account # accounts) best =
     (if ir_refreshToken (row_ref account) \<noteq> ir_refreshToken c then compatible_refresh c (i + 1) accounts best
      else if conflicting_ref c (row_ref account) then None
      else if best \<noteq> None \<and> ir_accountId c = None \<and> ir_emailKey c = None then None
      else case best of
        None \<Rightarrow> compatible_refresh c (i + 1) accounts (Some (i, account))
      | Some (j, current) \<Rightarrow>
          compatible_refresh c (i + 1) accounts
            (if candidate_newest current account then Some (i, account) else best))"

definition findCompatibleRefreshTokenMatchIndex :: "json list \<Rightarrow> identity_ref \<Rightarrow> nat option" where
  "findCompatibleRefreshTokenMatchIndex accounts c =
     (if ir_refreshToken c = None then None else compatible_refresh c 0 accounts None)"

fun unique_accountId :: "identity_ref \<Rightarrow> nat \<Rightarrow> json list \<Rightarrow> (nat \<times> string option) option
    \<Rightarrow> (nat \<times> string option) option" where
  "unique_accountId c i [] found = found"
| "unique_accountId c i (account # accounts) found =
     (if ir_accountId (row_ref account) \<noteq> ir_accountId c then unique_accountId c (i + 1) accounts found
      else if found \<noteq> None then None
      else unique_accountId c (i + 1) accounts (Some (i, ir_emailKey (row_ref account))))"

definition findUniqueAccountIdMatchIndex :: "json list \<Rightarrow> identity_ref \<Rightarrow> bool \<Rightarrow> nat option" where
  "findUniqueAccountIdMatchIndex accounts c allowWithoutEmail =
     (if ir_accountId c = None then None
      else if ir_emailKey c = None \<and> \<not> allowWithoutEmail then None
      else case unique_accountId c 0 accounts None of
        None \<Rightarrow> None
      | Some (i, emailKey) \<Rightarrow>
          if emailKey \<noteq> None \<and> ir_emailKey c \<noteq> None \<and> emailKey \<noteq> ir_emailKey c then None else Some i)"

text \<open>The tiers in order; \<open>match_ref\<close> takes the candidate's normalised identity.\<close>

definition match_ref :: "json list \<Rightarrow> identity_ref \<Rightarrow> bool \<Rightarrow> nat option" where
  "match_ref accounts c allowWithoutEmail =
     (case findCompositeAccountMatchIndex accounts c of
        Some i \<Rightarrow> Some i
      | None \<Rightarrow>
          case findSafeEmailMatchIndex accounts c of
            Some i \<Rightarrow> Some i
          | None \<Rightarrow>
              case (if ir_refreshToken c = None then None
                    else findCompatibleRefreshTokenMatchIndex accounts c) of
                Some i \<Rightarrow> Some i
              | None \<Rightarrow> findUniqueAccountIdMatchIndex accounts c allowWithoutEmail)"

definition findMatchingAccountIndex ::
    "json list \<Rightarrow> string option \<Rightarrow> string option \<Rightarrow> string option \<Rightarrow> bool \<Rightarrow> nat option" where
  "findMatchingAccountIndex accounts accountId email refreshToken allowWithoutEmail =
     match_ref accounts (toAccountIdentityRef accountId email refreshToken) allowWithoutEmail"

definition reconcilePinnedAccountIndex :: "json option \<Rightarrow> json list \<Rightarrow> nat option" where
  "reconcilePinnedAccountIndex pinnedAccount nextAccounts =
     (case pinnedAccount of None \<Rightarrow> None
      | Some row \<Rightarrow> findMatchingAccountIndex nextAccounts (row_string row ''accountId'')
          (row_string row ''email'') (row_string row ''refreshToken'') False)"

definition clampIndex :: "jsnum \<Rightarrow> nat \<Rightarrow> nat" where
  "clampIndex index len =
     (if len = 0 then 0 else nat \<lfloor>max 0 (min (js_trunc index) (of_nat len - 1))\<rfloor>)"

definition resolveAccountSelectionIndex ::
    "json list \<Rightarrow> string option \<Rightarrow> string option \<Rightarrow> string option \<Rightarrow> jsnum \<Rightarrow> nat" where
  "resolveAccountSelectionIndex accounts accountId email refreshToken fallbackIndex =
     (if accounts = [] then 0
      else case findMatchingAccountIndex accounts accountId email refreshToken True of
        Some i \<Rightarrow> i | None \<Rightarrow> clampIndex fallbackIndex (length accounts))"

section \<open>What the scans find\<close>

text \<open>Survivors as a partial map from positions to rows, and the owners of an identity value among
  them, with their freshness.\<close>

definition rows_of :: "json list \<Rightarrow> nat \<Rightarrow> json option" where
  "rows_of xs i = (if i < length xs then Some (xs ! i) else None)"

definition owners_of :: "(nat \<Rightarrow> json option) \<Rightarrow> (identity_ref \<Rightarrow> bool) \<Rightarrow> nat \<Rightarrow> (jsnum \<times> jsnum) option" where
  "owners_of rows p i =
     (case rows i of None \<Rightarrow> None
      | Some row \<Rightarrow> if p (row_ref row) then Some (row_lastUsed row, row_addedAt row) else None)"

lemma owners_of_Some: "owners_of (rows_of xs) p i = Some f
    \<longleftrightarrow> i < length xs \<and> p (row_ref (xs ! i)) \<and> f = (row_lastUsed (xs ! i), row_addedAt (xs ! i))"
  by (auto simp: owners_of_def rows_of_def)

lemma owners_of_upd: "owners_of (rows(i \<mapsto> row)) p
    = (owners_of rows p)(i := if p (row_ref row) then Some (row_lastUsed row, row_addedAt row) else None)"
  by (auto simp: owners_of_def)

lemma rows_of_snoc: "rows_of (xs @ [x]) = (rows_of xs)(length xs \<mapsto> x)"
  by (auto simp: rows_of_def nth_append)

lemma is_newest_first: "is_newest (Map.empty(i \<mapsto> f)) i"
  by (cases f) (auto simp: is_newest_def)

lemma is_newest_later:
  assumes "is_newest (owners_of (rows_of xs) p) j" and "p (row_ref x)"
  shows "is_newest ((owners_of (rows_of xs) p)(length xs \<mapsto> (row_lastUsed x, row_addedAt x)))
    (if candidate_newest (xs ! j) x then length xs else j)"
proof -
  obtain lu ad where j: "owners_of (rows_of xs) p j = Some (lu, ad)"
    and big: "owners_of (rows_of xs) p k = Some (lu', ad') \<Longrightarrow> (lu', ad', k) \<le> (lu, ad, j)" for k lu' ad'
    using assms(1) unfolding is_newest_def by blast
  have jx: "j < length xs" "lu = row_lastUsed (xs ! j)" "ad = row_addedAt (xs ! j)"
    using j by (simp_all add: owners_of_Some)
  have old: "k < length xs" if "owners_of (rows_of xs) p k = Some f" for k f
    using that by (simp add: owners_of_Some)
  show ?thesis
  proof (cases "candidate_newest (xs ! j) x")
    case True
    then have le: "(lu, ad, k) \<le> (row_lastUsed x, row_addedAt x, length xs)" if "k < length xs" for k
      using that jx by (auto simp: candidate_newest_def less_eq_prod_def less_prod_def split: if_splits)
    have "(lu', ad', k) \<le> (row_lastUsed x, row_addedAt x, length xs)"
      if "owners_of (rows_of xs) p k = Some (lu', ad')" for k lu' ad'
      by (rule order_trans [OF big [OF that] le [OF jx(1)]])
    then show ?thesis using True unfolding is_newest_def by auto
  next
    case False
    then have "(row_lastUsed x, row_addedAt x, length xs) \<le> (lu, ad, j)"
      using jx by (auto simp: candidate_newest_def less_eq_prod_def less_prod_def split: if_splits)
    then show ?thesis using False j big jx(1) unfolding is_newest_def
      by (intro exI [of _ lu] exI [of _ ad]) auto
  qed
qed

text \<open>\<open>best_so_far p xs best\<close>: after the scan of \<open>xs\<close> the loop holds the newest owner.\<close>

definition best_so_far :: "(identity_ref \<Rightarrow> bool) \<Rightarrow> json list \<Rightarrow> (nat \<times> json) option \<Rightarrow> bool" where
  "best_so_far p xs best \<longleftrightarrow>
     (case best of None \<Rightarrow> owners_of (rows_of xs) p = Map.empty
      | Some (j, row) \<Rightarrow> is_newest (owners_of (rows_of xs) p) j \<and> j < length xs \<and> row = xs ! j)"

definition scan_best :: "nat \<Rightarrow> json \<Rightarrow> (nat \<times> json) option \<Rightarrow> (nat \<times> json) option" where
  "scan_best i account best =
     (case best of None \<Rightarrow> Some (i, account)
      | Some (j, current) \<Rightarrow> if candidate_newest current account then Some (i, account) else best)"

lemma best_skip: "\<not> p (row_ref x) \<Longrightarrow> best_so_far p xs best \<Longrightarrow> best_so_far p (xs @ [x]) best"
proof -
  assume no: "\<not> p (row_ref x)" and best: "best_so_far p xs best"
  have "owners_of (rows_of (xs @ [x])) p = owners_of (rows_of xs) p"
    using no by (auto simp: rows_of_snoc owners_of_upd fun_eq_iff) (simp add: owners_of_def rows_of_def)
  with best show ?thesis by (auto simp: best_so_far_def nth_append split: option.splits prod.splits)
qed

lemma best_take:
  assumes "p (row_ref x)" and best: "best_so_far p xs best"
  shows "best_so_far p (xs @ [x]) (scan_best (length xs) x best)"
proof (cases best)
  case None
  then show ?thesis using assms is_newest_first [of "length xs"]
    by (simp add: best_so_far_def scan_best_def rows_of_snoc owners_of_upd)
next
  case (Some b)
  obtain j row where b: "b = (j, row)" by (cases b)
  have j: "is_newest (owners_of (rows_of xs) p) j" "j < length xs" "row = xs ! j"
    using best by (simp_all add: best_so_far_def Some b)
  show ?thesis using is_newest_later [OF j(1) assms(1)] j(2,3) assms(1)
    by (simp add: best_so_far_def scan_best_def rows_of_snoc owners_of_upd Some b nth_append split: if_splits)
qed

lemma newest_matching_best:
  "best_so_far p xs best \<Longrightarrow> \<exists>b. newest_matching p (length xs) ys best = map_option fst b \<and> best_so_far p (xs @ ys) b"
proof (induction ys arbitrary: xs best)
  case (Cons y ys)
  have step: "newest_matching p (length xs) (y # ys) best
      = newest_matching p (length (xs @ [y])) ys (if p (row_ref y) then scan_best (length xs) y best else best)"
    by (auto simp: scan_best_def split: option.split)
  have "best_so_far p (xs @ [y]) (if p (row_ref y) then scan_best (length xs) y best else best)"
    using Cons.prems best_take best_skip by simp
  from Cons.IH [OF this] show ?case unfolding step by simp
qed auto

text \<open>\<open>newest_among rows p r\<close>: \<open>r\<close> is the newest owner, or there is none.\<close>

definition newest_among :: "(nat \<Rightarrow> json option) \<Rightarrow> (identity_ref \<Rightarrow> bool) \<Rightarrow> nat option \<Rightarrow> bool" where
  "newest_among rows p r \<longleftrightarrow>
     (case r of None \<Rightarrow> owners_of rows p = Map.empty | Some i \<Rightarrow> is_newest (owners_of rows p) i)"

lemma newest_among_unique: "newest_among rows p r \<Longrightarrow> newest_among rows p r' \<Longrightarrow> r = r'"
  using is_newest_unique [of "owners_of rows p"]
  by (auto simp: newest_among_def is_newest_def split: option.splits)

lemma best_among: "best_so_far p xs best \<Longrightarrow> newest_among (rows_of xs) p (map_option fst best)"
  by (auto simp: best_so_far_def newest_among_def split: option.splits)

lemma findNewest_among: "newest_among (rows_of xs) p (findNewestMatchingIndex xs p)"
proof -
  have "best_so_far p [] None" by (auto simp: best_so_far_def owners_of_def rows_of_def)
  from newest_matching_best [OF this, of xs] show ?thesis
    using best_among by (auto simp: findNewestMatchingIndex_def)
qed

text \<open>The identity values the owners carry.\<close>

definition values_of :: "(nat \<Rightarrow> json option) \<Rightarrow> (identity_ref \<Rightarrow> bool) \<Rightarrow> (identity_ref \<Rightarrow> string option) \<Rightarrow> string set" where
  "values_of rows p f = {v. \<exists>i row. rows i = Some row \<and> p (row_ref row) \<and> f (row_ref row) = Some v}"

lemma values_of_list: "values_of (rows_of xs) p f = {v. \<exists>row\<in>set xs. p (row_ref row) \<and> f (row_ref row) = Some v}"
proof (intro set_eqI iffI)
  fix v assume "v \<in> {v. \<exists>row\<in>set xs. p (row_ref row) \<and> f (row_ref row) = Some v}"
  then obtain i where "i < length xs" "p (row_ref (xs ! i))" "f (row_ref (xs ! i)) = Some v"
    by (auto simp: in_set_conv_nth)
  then show "v \<in> values_of (rows_of xs) p f" unfolding values_of_def rows_of_def by auto
qed (auto simp: values_of_def rows_of_def split: if_splits)

lemma normalizeEmailKey_nonempty: "normalizeEmailKey e \<noteq> Some []"
  by (cases e) (simp_all add: normalizeEmailKey_def js_lower_def Let_def)

lemma row_ref_nonempty [simp]:
  "ir_accountId (row_ref row) \<noteq> Some []" "ir_emailKey (row_ref row) \<noteq> Some []"
  "ir_refreshToken (row_ref row) \<noteq> Some []"
  by (simp_all only: row_ref_def toAccountIdentityRef_def normalizeAccountIdKey_def identity_ref.select_convs
      normalizeRefreshTokenKey_def trimmed_key_nonempty normalizeEmailKey_nonempty not_False_eq_True)

lemma many_distinct:
  "1 < length (collectDistinctIdentityValues vs)
    \<longleftrightarrow> (\<exists>v w. v \<noteq> w \<and> v \<noteq> [] \<and> w \<noteq> [] \<and> Some v \<in> set vs \<and> Some w \<in> set vs)"
proof -
  let ?S = "set (List.map_filter (\<lambda>v. if v = Some [] then None else v) vs)"
  have S: "v \<in> ?S \<longleftrightarrow> v \<noteq> [] \<and> Some v \<in> set vs" for v
    by (force simp: List.map_filter_def split: if_splits)
  have "1 < card ?S \<longleftrightarrow> (\<exists>v\<in>?S. \<exists>w\<in>?S. v \<noteq> w)"
    using card_le_Suc0_iff_eq [of ?S] by (auto simp: not_le [symmetric])
  then show ?thesis unfolding collectDistinctIdentityValues_def length_remdups_card_conv using S by blast
qed

text \<open>Tier 2: no match when the owners of the e-mail and the candidate carry two account ids.\<close>

definition ambiguous_ids :: "(nat \<Rightarrow> json option) \<Rightarrow> identity_ref \<Rightarrow> bool" where
  "ambiguous_ids rows c \<longleftrightarrow>
     (let S = values_of rows (\<lambda>ref. ir_emailKey ref = ir_emailKey c) ir_accountId \<union> set_option (ir_accountId c)
      in \<exists>v\<in>S. \<exists>w\<in>S. v \<noteq> w)"

lemma findNewest_none: "(\<forall>x\<in>set xs. \<not> p (row_ref x)) \<Longrightarrow> findNewestMatchingIndex xs p = None"
proof -
  have "(\<forall>x\<in>set xs. \<not> p (row_ref x)) \<Longrightarrow> newest_matching p i xs best = map_option fst best" for i best
    by (induction p i xs best rule: newest_matching.induct) auto
  then show "(\<forall>x\<in>set xs. \<not> p (row_ref x)) \<Longrightarrow> ?thesis" by (simp add: findNewestMatchingIndex_def)
qed

lemma safe_email_eq:
  assumes "ir_emailKey c \<noteq> None" and "ir_accountId c \<noteq> Some []"
  shows "findSafeEmailMatchIndex xs c = (if ambiguous_ids (rows_of xs) c then None
    else findNewestMatchingIndex xs (\<lambda>ref. ir_emailKey ref = ir_emailKey c))"
proof -
  let ?found = "filter (\<lambda>ref. ir_emailKey ref = ir_emailKey c) (map row_ref xs)"
  have nonempty: "v \<noteq> []" if "Some v \<in> set (ir_accountId c # map ir_accountId ?found)" for v
  proof
    assume "v = []"
    with that have "ir_accountId c = Some [] \<or> (\<exists>row\<in>set xs. ir_accountId (row_ref row) = Some [])"
      by (auto simp: eq_commute)
    then show False using assms(2) by simp
  qed
  have "Some v \<in> set (ir_accountId c # map ir_accountId ?found)
      \<longleftrightarrow> v \<in> values_of (rows_of xs) (\<lambda>ref. ir_emailKey ref = ir_emailKey c) ir_accountId \<union> set_option (ir_accountId c)" for v
    by (auto simp: values_of_list image_iff)
  then have "1 < length (collectDistinctIdentityValues (ir_accountId c # map ir_accountId ?found))
      \<longleftrightarrow> ambiguous_ids (rows_of xs) c"
    unfolding many_distinct ambiguous_ids_def Let_def using nonempty by blast
  moreover have "?found = [] \<Longrightarrow> findNewestMatchingIndex xs (\<lambda>ref. ir_emailKey ref = ir_emailKey c) = None"
    by (rule findNewest_none) (auto simp: filter_empty_conv)
  ultimately show ?thesis using assms(1) by (auto simp: findSafeEmailMatchIndex_def Let_def)
qed

text \<open>Tier 3: no match when an owner of the token conflicts, or when a candidate without id and e-mail
  has two owners to choose from.\<close>

definition refresh_blocked :: "(nat \<Rightarrow> json option) \<Rightarrow> identity_ref \<Rightarrow> bool" where
  "refresh_blocked rows c \<longleftrightarrow>
     (\<exists>i row. rows i = Some row \<and> ir_refreshToken (row_ref row) = ir_refreshToken c \<and> conflicting_ref c (row_ref row))
     \<or> ir_accountId c = None \<and> ir_emailKey c = None
        \<and> (\<exists>i j. i \<noteq> j \<and> i \<in> dom (owners_of rows (\<lambda>ref. ir_refreshToken ref = ir_refreshToken c))
             \<and> j \<in> dom (owners_of rows (\<lambda>ref. ir_refreshToken ref = ir_refreshToken c)))"

lemma compatible_refresh_scan:
  fixes c :: identity_ref
  defines "p \<equiv> \<lambda>ref. ir_refreshToken ref = ir_refreshToken c"
  shows "compatible_refresh c i ys best =
    (if (\<exists>y\<in>set ys. p (row_ref y) \<and> conflicting_ref c (row_ref y))
        \<or> ir_accountId c = None \<and> ir_emailKey c = None
           \<and> 1 < length (filter (\<lambda>y. p (row_ref y)) ys) + (if best = None then 0 else 1)
     then None else newest_matching p i ys best)"
proof (induction ys arbitrary: i best)
  case Nil
  then show ?case by auto
next
  case (Cons y ys)
  then show ?case
    by (cases best) (auto simp: p_def split: prod.split)
qed

lemma card_owners: "card (dom (owners_of (rows_of xs) p)) = length (filter (\<lambda>y. p (row_ref y)) xs)"
proof -
  have "dom (owners_of (rows_of xs) p) = {i. i < length xs \<and> p (row_ref (xs ! i))}"
    by (auto simp: dom_def owners_of_Some)
  then show ?thesis by (simp add: length_filter_conv_card)
qed

lemma two_owners:
  "1 < length (filter (\<lambda>y. p (row_ref y)) xs) \<longleftrightarrow>
    (\<exists>i j. i \<noteq> j \<and> i \<in> dom (owners_of (rows_of xs) p) \<and> j \<in> dom (owners_of (rows_of xs) p))"
proof -
  have "dom (owners_of (rows_of xs) p) \<subseteq> {..<length xs}" by (auto simp: dom_def owners_of_Some)
  then have "finite (dom (owners_of (rows_of xs) p))" by (rule finite_subset) simp
  from card_le_Suc0_iff_eq [OF this] show ?thesis
    unfolding card_owners [symmetric] One_nat_def not_le [symmetric] by auto
qed

lemma compatible_refresh_eq:
  assumes "ir_refreshToken c \<noteq> None"
  shows "findCompatibleRefreshTokenMatchIndex xs c = (if refresh_blocked (rows_of xs) c then None
    else findNewestMatchingIndex xs (\<lambda>ref. ir_refreshToken ref = ir_refreshToken c))"
proof -
  let ?p = "\<lambda>ref. ir_refreshToken ref = ir_refreshToken c"
  have conflict: "(\<exists>y\<in>set xs. ?p (row_ref y) \<and> conflicting_ref c (row_ref y))
      \<longleftrightarrow> (\<exists>i row. rows_of xs i = Some row \<and> ?p (row_ref row) \<and> conflicting_ref c (row_ref row))"
    unfolding rows_of_def by (simp add: Bex_def in_set_conv_nth) blast
  have "findCompatibleRefreshTokenMatchIndex xs c = compatible_refresh c 0 xs None"
    using assms by (simp only: findCompatibleRefreshTokenMatchIndex_def if_False)
  also have "\<dots> = (if refresh_blocked (rows_of xs) c then None else newest_matching ?p 0 xs None)"
    unfolding compatible_refresh_scan refresh_blocked_def two_owners [symmetric] conflict by simp
  finally show ?thesis by (simp only: findNewestMatchingIndex_def)
qed

text \<open>Tier 4: the only owner of the account id.\<close>

lemma unique_accountId_scan:
  "unique_accountId c i xs None = Some (k, e) \<longleftrightarrow>
    (\<exists>k'<length xs. k = i + k' \<and> ir_accountId (row_ref (xs ! k')) = ir_accountId c
       \<and> e = ir_emailKey (row_ref (xs ! k'))
       \<and> (\<forall>j<length xs. ir_accountId (row_ref (xs ! j)) = ir_accountId c \<longrightarrow> j = k'))"
  and "unique_accountId c i xs (Some f) = Some r \<longleftrightarrow>
    f = r \<and> (\<forall>j<length xs. ir_accountId (row_ref (xs ! j)) \<noteq> ir_accountId c)"
proof (induction xs arbitrary: i f k e r)
  case (Cons x xs)
  { case 1
    show ?case
    proof (cases "ir_accountId (row_ref x) = ir_accountId c")
      case True
      then show ?thesis by (auto simp: Cons.IH(2) All_less_Suc2 Ex_less_Suc2)
    next
      case False
      then show ?thesis by (auto simp: Cons.IH(1) All_less_Suc2 Ex_less_Suc2)
    qed }
  { case 2
    show ?case by (auto simp: Cons.IH(2) All_less_Suc2) }
qed auto

lemma unique_accountId_eq:
  "findUniqueAccountIdMatchIndex xs c allow = Some k \<longleftrightarrow>
    ir_accountId c \<noteq> None \<and> (ir_emailKey c \<noteq> None \<or> allow)
    \<and> dom (owners_of (rows_of xs) (\<lambda>ref. ir_accountId ref = ir_accountId c)) = {k}
    \<and> (ir_emailKey (row_ref (xs ! k)) = None \<or> ir_emailKey c = None
       \<or> ir_emailKey (row_ref (xs ! k)) = ir_emailKey c)"
proof -
  have dom: "dom (owners_of (rows_of xs) (\<lambda>ref. ir_accountId ref = ir_accountId c)) = {k}
      \<longleftrightarrow> k < length xs \<and> ir_accountId (row_ref (xs ! k)) = ir_accountId c
        \<and> (\<forall>j<length xs. ir_accountId (row_ref (xs ! j)) = ir_accountId c \<longrightarrow> j = k)"
    by (auto simp: dom_def owners_of_Some set_eq_iff)
  have "unique_accountId c 0 xs None = Some (k', e) \<longleftrightarrow> k' < length xs
      \<and> ir_accountId (row_ref (xs ! k')) = ir_accountId c \<and> e = ir_emailKey (row_ref (xs ! k'))
      \<and> (\<forall>j<length xs. ir_accountId (row_ref (xs ! j)) = ir_accountId c \<longrightarrow> j = k')" for k' e
    using unique_accountId_scan(1) [of c 0 xs k' e] by auto
  then show ?thesis unfolding dom
    by (auto simp: findUniqueAccountIdMatchIndex_def split: option.splits prod.splits if_splits)
qed

end
