(* ===== verification/AccountDedup.thy ===== *)
theory AccountDedup
  imports AccountMatch
begin

text \<open>
  Removing duplicate accounts (\<open>deduplicateAccounts\<close> of \<open>lib/storage.ts\<close>): every account is matched
  against the survivors through four indexes that are maintained incrementally, and passes are repeated
  until one removes nothing.  The key \<open>JSON.stringify([accountId, emailKey])\<close> determines its pair and is
  modelled by it.
\<close>

section \<open>The indexes\<close>

record email_bucket =
  eb_newest :: newest_index
  eb_accountIds :: "(string, int) jsmap"

record refresh_bucket =
  rb_newest :: newest_index
  rb_accountIds :: "(string, int) jsmap"
  rb_emailKeys :: "(string, int) jsmap"

record dedup_state =
  ds_deduplicated :: "json list"
  ds_refs :: "identity_ref list"
  ds_compositeIndexes :: "(string \<times> string, newest_index) jsmap"
  ds_emailIndexes :: "(string, email_bucket) jsmap"
  ds_refreshIndexes :: "(string, refresh_bucket) jsmap"
  ds_accountIdOwners :: "(string, nat list) jsmap"

definition new_email_bucket :: email_bucket where
  "new_email_bucket = \<lparr>eb_newest = new_newest_index, eb_accountIds = []\<rparr>"

definition new_refresh_bucket :: refresh_bucket where
  "new_refresh_bucket = \<lparr>rb_newest = new_newest_index, rb_accountIds = [], rb_emailKeys = []\<rparr>"

definition bumpIdentityCount :: "(string, int) jsmap \<Rightarrow> string option \<Rightarrow> int \<Rightarrow> (string, int) jsmap" where
  "bumpIdentityCount counts key delta =
     (case key of
        None \<Rightarrow> counts
      | Some k \<Rightarrow>
          if k = [] then counts
          else let new = nullish (jm_get counts k) 0 + delta
               in if new \<le> 0 then jm_delete k counts else jm_set k new counts)"

definition dedupCompositeKey :: "identity_ref \<Rightarrow> (string \<times> string) option" where
  "dedupCompositeKey ref =
     (case (ir_accountId ref, ir_emailKey ref) of (Some a, Some e) \<Rightarrow> Some (a, e) | _ \<Rightarrow> None)"

definition ni_add :: "nat \<Rightarrow> json \<Rightarrow> newest_index \<Rightarrow> newest_index" where
  "ni_add index account = ni_set index (row_lastUsed account) (row_addedAt account)"

text \<open>\<open>addToIndexes\<close>, index by index.\<close>

definition add_composite where
  "add_composite index account ref m =
     (case dedupCompositeKey ref of
        None \<Rightarrow> m
      | Some key \<Rightarrow> jm_set key (ni_add index account (nullish (jm_get m key) new_newest_index)) m)"

definition add_email where
  "add_email index account ref m =
     (case ir_emailKey ref of
        None \<Rightarrow> m
      | Some key \<Rightarrow>
          let bucket = nullish (jm_get m key) new_email_bucket
          in jm_set key \<lparr>eb_newest = ni_add index account (eb_newest bucket),
               eb_accountIds = bumpIdentityCount (eb_accountIds bucket) (ir_accountId ref) 1\<rparr> m)"

definition add_refresh where
  "add_refresh index account ref m =
     (case ir_refreshToken ref of
        None \<Rightarrow> m
      | Some key \<Rightarrow>
          let bucket = nullish (jm_get m key) new_refresh_bucket
          in jm_set key \<lparr>rb_newest = ni_add index account (rb_newest bucket),
               rb_accountIds = bumpIdentityCount (rb_accountIds bucket) (ir_accountId ref) 1,
               rb_emailKeys = bumpIdentityCount (rb_emailKeys bucket) (ir_emailKey ref) 1\<rparr> m)"

definition add_owner where
  "add_owner (index :: nat) ref m =
     (case ir_accountId ref of
        None \<Rightarrow> m
      | Some key \<Rightarrow>
          let owners = nullish (jm_get m key) []
          in jm_set key (if index \<in> set owners then owners else owners @ [index]) m)"

definition addToIndexes :: "nat \<Rightarrow> json \<Rightarrow> identity_ref \<Rightarrow> dedup_state \<Rightarrow> dedup_state" where
  "addToIndexes index account ref st =
     st\<lparr>ds_compositeIndexes := add_composite index account ref (ds_compositeIndexes st),
        ds_emailIndexes := add_email index account ref (ds_emailIndexes st),
        ds_refreshIndexes := add_refresh index account ref (ds_refreshIndexes st),
        ds_accountIdOwners := add_owner index ref (ds_accountIdOwners st)\<rparr>"

text \<open>\<open>removeFromIndexes\<close>: a bucket that is missing stays missing.\<close>

definition jm_adjust :: "'k \<Rightarrow> ('v \<Rightarrow> 'v) \<Rightarrow> ('k, 'v) jsmap \<Rightarrow> ('k, 'v) jsmap" where
  "jm_adjust k f m = (case jm_get m k of None \<Rightarrow> m | Some v \<Rightarrow> jm_set k (f v) m)"

definition remove_composite where
  "remove_composite index ref m =
     (case dedupCompositeKey ref of None \<Rightarrow> m | Some key \<Rightarrow> jm_adjust key (ni_delete index) m)"

definition remove_email where
  "remove_email index ref m =
     (case ir_emailKey ref of
        None \<Rightarrow> m
      | Some key \<Rightarrow> jm_adjust key (\<lambda>bucket. \<lparr>eb_newest = ni_delete index (eb_newest bucket),
          eb_accountIds = bumpIdentityCount (eb_accountIds bucket) (ir_accountId ref) (- 1)\<rparr>) m)"

definition remove_refresh where
  "remove_refresh index ref m =
     (case ir_refreshToken ref of
        None \<Rightarrow> m
      | Some key \<Rightarrow> jm_adjust key (\<lambda>bucket. \<lparr>rb_newest = ni_delete index (rb_newest bucket),
          rb_accountIds = bumpIdentityCount (rb_accountIds bucket) (ir_accountId ref) (- 1),
          rb_emailKeys = bumpIdentityCount (rb_emailKeys bucket) (ir_emailKey ref) (- 1)\<rparr>) m)"

definition remove_owner where
  "remove_owner (index :: nat) ref m =
     (case ir_accountId ref of
        None \<Rightarrow> m | Some key \<Rightarrow> jm_adjust key (filter (\<lambda>i. i \<noteq> index)) m)"

definition removeFromIndexes :: "nat \<Rightarrow> identity_ref \<Rightarrow> dedup_state \<Rightarrow> dedup_state" where
  "removeFromIndexes index ref st =
     st\<lparr>ds_compositeIndexes := remove_composite index ref (ds_compositeIndexes st),
        ds_emailIndexes := remove_email index ref (ds_emailIndexes st),
        ds_refreshIndexes := remove_refresh index ref (ds_refreshIndexes st),
        ds_accountIdOwners := remove_owner index ref (ds_accountIdOwners st)\<rparr>"

section \<open>One pass\<close>

text \<open>The four tiers; a query may drop dead entries from the heap it looks at.\<close>

definition tier_composite :: "identity_ref \<Rightarrow> dedup_state \<Rightarrow> nat option \<times> dedup_state" where
  "tier_composite c st =
     (case dedupCompositeKey c of
        None \<Rightarrow> (None, st)
      | Some key \<Rightarrow>
          (case jm_get (ds_compositeIndexes st) key of
             None \<Rightarrow> (None, st)
           | Some ni \<Rightarrow> let (r, ni') = newestIndex ni
               in (r, st\<lparr>ds_compositeIndexes := jm_set key ni' (ds_compositeIndexes st)\<rparr>)))"

definition tier_email :: "identity_ref \<Rightarrow> dedup_state \<Rightarrow> nat option \<times> dedup_state" where
  "tier_email c st =
     (case ir_emailKey c of
        None \<Rightarrow> (None, st)
      | Some key \<Rightarrow>
          (case jm_get (ds_emailIndexes st) key of
             None \<Rightarrow> (None, st)
           | Some bucket \<Rightarrow>
               let distinctAccountIds = length (eb_accountIds bucket)
                     + (case ir_accountId c of None \<Rightarrow> 0
                        | Some a \<Rightarrow> if jm_has (eb_accountIds bucket) a then 0 else 1)
               in if ni_size (eb_newest bucket) = 0 \<or> 1 < distinctAccountIds then (None, st)
                  else let (r, ni') = newestIndex (eb_newest bucket)
                       in (r, st\<lparr>ds_emailIndexes :=
                             jm_set key (bucket\<lparr>eb_newest := ni'\<rparr>) (ds_emailIndexes st)\<rparr>)))"

definition count_conflict :: "string option \<Rightarrow> (string, int) jsmap \<Rightarrow> bool" where
  "count_conflict value counts \<longleftrightarrow>
     (case value of None \<Rightarrow> False
      | Some v \<Rightarrow> 1 < length counts \<or> length counts = 1 \<and> \<not> jm_has counts v)"

definition tier_refresh :: "identity_ref \<Rightarrow> dedup_state \<Rightarrow> nat option \<times> dedup_state" where
  "tier_refresh c st =
     (case ir_refreshToken c of
        None \<Rightarrow> (None, st)
      | Some key \<Rightarrow>
          (case jm_get (ds_refreshIndexes st) key of
             None \<Rightarrow> (None, st)
           | Some bucket \<Rightarrow>
               let ambiguous = (ir_accountId c = None \<and> ir_emailKey c = None \<and> 1 < ni_size (rb_newest bucket))
               in if ni_size (rb_newest bucket) = 0 \<or> count_conflict (ir_accountId c) (rb_accountIds bucket)
                     \<or> count_conflict (ir_emailKey c) (rb_emailKeys bucket) \<or> ambiguous then (None, st)
                  else let (r, ni') = newestIndex (rb_newest bucket)
                       in (r, st\<lparr>ds_refreshIndexes :=
                             jm_set key (bucket\<lparr>rb_newest := ni'\<rparr>) (ds_refreshIndexes st)\<rparr>)))"

definition tier_owner :: "identity_ref \<Rightarrow> dedup_state \<Rightarrow> nat option" where
  "tier_owner c st =
     (case (ir_accountId c, ir_emailKey c) of
        (Some a, Some e) \<Rightarrow>
          (case jm_get (ds_accountIdOwners st) a of
             Some [only] \<Rightarrow>
               let ownerEmailKey = ir_emailKey (ds_refs st ! only)
               in if ownerEmailKey = None \<or> ownerEmailKey = Some e then Some only else None
           | _ \<Rightarrow> None)
      | _ \<Rightarrow> None)"

definition existing_index :: "identity_ref \<Rightarrow> dedup_state \<Rightarrow> nat option \<times> dedup_state" where
  "existing_index c st =
     (case tier_composite c st of
        (Some i, st1) \<Rightarrow> (Some i, st1)
      | (None, st1) \<Rightarrow>
          case tier_email c st1 of
            (Some i, st2) \<Rightarrow> (Some i, st2)
          | (None, st2) \<Rightarrow>
              case tier_refresh c st2 of
                (Some i, st3) \<Rightarrow> (Some i, st3)
              | (None, st3) \<Rightarrow> (tier_owner c st3, st3))"

definition dedup_step :: "json \<Rightarrow> dedup_state \<Rightarrow> dedup_state" where
  "dedup_step account st =
     (let candidateRef = row_ref account; (existingIndex, st1) = existing_index candidateRef st
      in case existingIndex of
           None \<Rightarrow>
             addToIndexes (length (ds_deduplicated st1)) account candidateRef
               (st1\<lparr>ds_deduplicated := ds_deduplicated st1 @ [account], ds_refs := ds_refs st1 @ [candidateRef]\<rparr>)
         | Some i \<Rightarrow>
             if \<not> candidate_newest (ds_deduplicated st1 ! i) account then st1
             else
               let previousRef = ds_refs st1 ! i;
                   st2 = st1\<lparr>ds_deduplicated := (ds_deduplicated st1)[i := account],
                             ds_refs := (ds_refs st1)[i := candidateRef]\<rparr>
               in addToIndexes i account candidateRef (removeFromIndexes i previousRef st2))"

definition new_dedup_state :: dedup_state where
  "new_dedup_state = \<lparr>ds_deduplicated = [], ds_refs = [], ds_compositeIndexes = [],
     ds_emailIndexes = [], ds_refreshIndexes = [], ds_accountIdOwners = []\<rparr>"

definition deduplicateAccountsByIdentityPass :: "json list \<Rightarrow> json list" where
  "deduplicateAccountsByIdentityPass accounts = ds_deduplicated (fold dedup_step accounts new_dedup_state)"

text \<open>The linear pass it replaces.\<close>

definition linear_step :: "json \<Rightarrow> json list \<Rightarrow> json list" where
  "linear_step account survivors =
     (case match_ref survivors (row_ref account) False of
        None \<Rightarrow> survivors @ [account]
      | Some i \<Rightarrow> if candidate_newest (survivors ! i) account then survivors[i := account] else survivors)"

definition linear_pass :: "json list \<Rightarrow> json list" where
  "linear_pass accounts = fold linear_step accounts []"

end
