(* ===== verification/DedupResults.thy ===== *)
theory DedupResults
  imports AccountDedup
begin

text \<open>
  The indexed deduplication against the linear one: the invariant that ties the four indexes to the
  survivors, the equality of every tier with the scan it replaces, and what the repeated passes keep.
\<close>

section \<open>Indexes of a map of rows\<close>

definition ref_count :: "(nat \<Rightarrow> json option) \<Rightarrow> (identity_ref \<Rightarrow> bool) \<Rightarrow> nat" where
  "ref_count rows q = card {i. \<exists>row. rows i = Some row \<and> q (row_ref row)}"

definition counts_ok ::
    "(string, int) jsmap \<Rightarrow> (nat \<Rightarrow> json option) \<Rightarrow> (identity_ref \<Rightarrow> bool) \<Rightarrow> (identity_ref \<Rightarrow> string option) \<Rightarrow> bool" where
  "counts_ok m rows p f \<longleftrightarrow> jm_ok m
     \<and> (\<forall>v. jm_get m v = (let n = ref_count rows (\<lambda>ref. p ref \<and> f ref = Some v)
                          in if n = 0 then None else Some (int n)))"

definition tracks :: "newest_index \<Rightarrow> (nat \<Rightarrow> json option) \<Rightarrow> (identity_ref \<Rightarrow> bool) \<Rightarrow> bool" where
  "tracks ni rows p \<longleftrightarrow> ni_ok ni \<and> ni_owners ni = owners_of rows p"

definition composite_ok :: "(nat \<Rightarrow> json option) \<Rightarrow> (string \<times> string, newest_index) jsmap \<Rightarrow> bool" where
  "composite_ok rows m \<longleftrightarrow> (\<forall>a e. tracks (nullish (jm_get m (a, e)) new_newest_index) rows
     (\<lambda>ref. ir_accountId ref = Some a \<and> ir_emailKey ref = Some e))"

definition email_bucket_ok :: "(nat \<Rightarrow> json option) \<Rightarrow> string \<Rightarrow> email_bucket \<Rightarrow> bool" where
  "email_bucket_ok rows e b \<longleftrightarrow> tracks (eb_newest b) rows (\<lambda>ref. ir_emailKey ref = Some e)
     \<and> counts_ok (eb_accountIds b) rows (\<lambda>ref. ir_emailKey ref = Some e) ir_accountId"

definition email_ok :: "(nat \<Rightarrow> json option) \<Rightarrow> (string, email_bucket) jsmap \<Rightarrow> bool" where
  "email_ok rows m \<longleftrightarrow> (\<forall>e. email_bucket_ok rows e (nullish (jm_get m e) new_email_bucket))"

definition refresh_bucket_ok :: "(nat \<Rightarrow> json option) \<Rightarrow> string \<Rightarrow> refresh_bucket \<Rightarrow> bool" where
  "refresh_bucket_ok rows t b \<longleftrightarrow> tracks (rb_newest b) rows (\<lambda>ref. ir_refreshToken ref = Some t)
     \<and> counts_ok (rb_accountIds b) rows (\<lambda>ref. ir_refreshToken ref = Some t) ir_accountId
     \<and> counts_ok (rb_emailKeys b) rows (\<lambda>ref. ir_refreshToken ref = Some t) ir_emailKey"

definition refresh_ok :: "(nat \<Rightarrow> json option) \<Rightarrow> (string, refresh_bucket) jsmap \<Rightarrow> bool" where
  "refresh_ok rows m \<longleftrightarrow> (\<forall>t. refresh_bucket_ok rows t (nullish (jm_get m t) new_refresh_bucket))"

definition owner_ok :: "(nat \<Rightarrow> json option) \<Rightarrow> (string, nat list) jsmap \<Rightarrow> bool" where
  "owner_ok rows m \<longleftrightarrow> (\<forall>a. distinct (nullish (jm_get m a) [])
     \<and> set (nullish (jm_get m a) []) = {i. \<exists>row. rows i = Some row \<and> ir_accountId (row_ref row) = Some a})"

definition indexes_ok :: "(nat \<Rightarrow> json option) \<Rightarrow> dedup_state \<Rightarrow> bool" where
  "indexes_ok rows st \<longleftrightarrow> finite (dom rows) \<and> composite_ok rows (ds_compositeIndexes st)
     \<and> email_ok rows (ds_emailIndexes st) \<and> refresh_ok rows (ds_refreshIndexes st)
     \<and> owner_ok rows (ds_accountIdOwners st)"

named_theorems track_intros \<open>what adding, removing and asking keep\<close>

lemma tracks_add [track_intros]:
  "rows i = None \<Longrightarrow> tracks ni rows p \<Longrightarrow> p (row_ref row) \<Longrightarrow> tracks (ni_add i row ni) (rows(i \<mapsto> row)) p"
  using dni.put_law [of ni i "row_lastUsed row" "row_addedAt row"]
  by (simp add: tracks_def ni_add_def owners_of_upd)

lemma tracks_add_other [track_intros]:
  "rows i = None \<Longrightarrow> tracks ni rows p \<Longrightarrow> \<not> p (row_ref row) \<Longrightarrow> tracks ni (rows(i \<mapsto> row)) p"
  by (simp add: tracks_def owners_of_upd) (simp add: owners_of_def fun_eq_iff)

lemma owners_of_remove: "owners_of (rows(i := None)) p = (owners_of rows p)(i := None)"
  by (auto simp: owners_of_def)

lemma tracks_remove [track_intros]:
  "tracks ni rows p \<Longrightarrow> tracks (ni_delete i ni) (rows(i := None)) p"
  using dni.remove_law [of ni i] by (simp add: tracks_def owners_of_remove)

lemma tracks_remove_other [track_intros]:
  "rows i = Some row \<Longrightarrow> tracks ni rows p \<Longrightarrow> \<not> p (row_ref row) \<Longrightarrow> tracks ni (rows(i := None)) p"
  by (simp add: tracks_def owners_of_remove) (simp add: owners_of_def fun_eq_iff)

lemma tracks_newest:
  "tracks ni rows p \<Longrightarrow> tracks (snd (newestIndex ni)) rows p \<and> newest_among rows p (fst (newestIndex ni))"
  using dni.newest_law [of ni] unfolding tracks_def newest_among_def
  by (cases "fst (newestIndex ni)") simp_all

lemma tracks_empty: "tracks ni rows p \<Longrightarrow> ni_size ni = 0 \<longleftrightarrow> owners_of rows p = Map.empty"
  using dni.count_zero [of ni] by (simp add: tracks_def)

lemma count_add:
  assumes "finite (dom rows)" and "rows i = None"
  shows "ref_count (rows(i \<mapsto> row)) q = ref_count rows q + (if q (row_ref row) then 1 else 0)"
proof -
  have fin: "finite {j. \<exists>row. rows j = Some row \<and> q (row_ref row)}"
    by (rule finite_subset [OF _ assms(1)]) auto
  have "{j. \<exists>r. (rows(i \<mapsto> row)) j = Some r \<and> q (row_ref r)}
      = (if q (row_ref row) then insert i {j. \<exists>row. rows j = Some row \<and> q (row_ref row)}
         else {j. \<exists>row. rows j = Some row \<and> q (row_ref row)})"
    using assms(2) by auto
  then show ?thesis using fin assms(2) by (simp add: ref_count_def)
qed

lemma count_remove:
  assumes "finite (dom rows)" and "rows i = Some row"
  shows "ref_count rows q = ref_count (rows(i := None)) q + (if q (row_ref row) then 1 else 0)"
proof -
  have "rows = (rows(i := None))(i \<mapsto> row)" using assms(2) by auto
  then show ?thesis using count_add [of "rows(i := None)" i row q] assms(1) by (simp add: fun_upd_idem)
qed

lemma counts_add [track_intros]:
  assumes "rows i = None" and "counts_ok m rows p f" and "finite (dom rows)"
    and "p (row_ref row)" and "f (row_ref row) \<noteq> Some []"
  shows "counts_ok (bumpIdentityCount m (f (row_ref row)) 1) (rows(i \<mapsto> row)) p f"
proof (cases "f (row_ref row)")
  case None
  then show ?thesis using assms by (simp add: bumpIdentityCount_def counts_ok_def count_add)
next
  case (Some v)
  have get: "jm_get m v = (if ref_count rows (\<lambda>ref. p ref \<and> f ref = Some v) = 0 then None
      else Some (int (ref_count rows (\<lambda>ref. p ref \<and> f ref = Some v))))"
    using assms(2) by (simp add: counts_ok_def Let_def)
  then have new: "nullish (jm_get m v) 0 + 1 = int (ref_count rows (\<lambda>ref. p ref \<and> f ref = Some v) + 1)"
    by simp
  have bump: "bumpIdentityCount m (f (row_ref row)) 1
      = jm_set v (int (ref_count rows (\<lambda>ref. p ref \<and> f ref = Some v) + 1)) m"
    using assms(5) Some unfolding bumpIdentityCount_def by (simp add: new Let_def del: of_nat_add)
  show ?thesis
    unfolding bump using assms Some
    by (auto simp: counts_ok_def jm_get_set count_add Let_def)
qed

lemma counts_add_other [track_intros]:
  assumes "rows i = None" and "counts_ok m rows p f" and "finite (dom rows)" and "\<not> p (row_ref row)"
  shows "counts_ok m (rows(i \<mapsto> row)) p f"
  using assms by (simp add: counts_ok_def count_add)

lemma counts_remove [track_intros]:
  assumes "rows i = Some row" and "counts_ok m rows p f" and "finite (dom rows)"
    and "p (row_ref row)" and "f (row_ref row) \<noteq> Some []"
  shows "counts_ok (bumpIdentityCount m (f (row_ref row)) (- 1)) (rows(i := None)) p f"
proof (cases "f (row_ref row)")
  case None
  then show ?thesis using assms count_remove [OF assms(3,1)]
    by (simp add: bumpIdentityCount_def counts_ok_def)
next
  case (Some v)
  let ?n = "ref_count (rows(i := None)) (\<lambda>ref. p ref \<and> f ref = Some v)"
  have n: "ref_count rows (\<lambda>ref. p ref \<and> f ref = Some v) = Suc ?n"
    using count_remove [OF assms(3,1), of "\<lambda>ref. p ref \<and> f ref = Some v"] assms(4) Some by simp
  have "jm_get m v = Some (int (Suc ?n))"
    using assms(2) unfolding counts_ok_def n [symmetric] Let_def by (simp add: n)
  then have new: "nullish (jm_get m v) 0 + - 1 = int ?n" by simp
  have "bumpIdentityCount m (f (row_ref row)) (- 1) = (if ?n = 0 then jm_delete v m else jm_set v (int ?n) m)"
    using assms(5) Some new by (simp add: bumpIdentityCount_def Let_def)
  moreover have "ref_count rows (\<lambda>ref. p ref \<and> f ref = Some w)
      = ref_count (rows(i := None)) (\<lambda>ref. p ref \<and> f ref = Some w)" if "w \<noteq> v" for w
    using count_remove [OF assms(3,1), of "\<lambda>ref. p ref \<and> f ref = Some w"] that Some by simp
  ultimately show ?thesis using assms(2)
    by (auto simp: counts_ok_def jm_get_set jm_get_delete Let_def)
qed

lemma counts_remove_other [track_intros]:
  assumes "rows i = Some row" and "counts_ok m rows p f" and "finite (dom rows)" and "\<not> p (row_ref row)"
  shows "counts_ok m (rows(i := None)) p f"
  using assms(2,4) count_remove [OF assms(3,1)] by (simp add: counts_ok_def)

lemma nullish_set: "nullish (jm_get (jm_set k v m) k') d = (if k' = k then v else nullish (jm_get m k') d)"
  by (simp add: jm_get_set)

lemma add_indexes:
  assumes rows: "rows i = None" and ok: "indexes_ok rows st"
  shows "indexes_ok (rows(i \<mapsto> row)) (addToIndexes i row (row_ref row) st)"
proof -
  note I = ok [unfolded indexes_ok_def]
  have fin: "finite (dom rows)" using I by blast
  have "composite_ok (rows(i \<mapsto> row)) (add_composite i row (row_ref row) (ds_compositeIndexes st))"
    unfolding composite_ok_def
  proof (intro allI)
    fix a e
    have old: "tracks (nullish (jm_get (ds_compositeIndexes st) (a, e)) new_newest_index) rows
        (\<lambda>ref. ir_accountId ref = Some a \<and> ir_emailKey ref = Some e)"
      using I by (simp add: composite_ok_def)
    show "tracks (nullish (jm_get (add_composite i row (row_ref row) (ds_compositeIndexes st)) (a, e))
        new_newest_index) (rows(i \<mapsto> row)) (\<lambda>ref. ir_accountId ref = Some a \<and> ir_emailKey ref = Some e)"
    proof (cases "ir_accountId (row_ref row) = Some a \<and> ir_emailKey (row_ref row) = Some e")
      case True
      then show ?thesis using tracks_add [OF rows old, of row]
        by (simp add: add_composite_def dedupCompositeKey_def jm_get_set)
    next
      case False
      then have "jm_get (add_composite i row (row_ref row) (ds_compositeIndexes st)) (a, e)
          = jm_get (ds_compositeIndexes st) (a, e)"
        by (auto simp: add_composite_def dedupCompositeKey_def jm_get_set split: option.splits)
      then show ?thesis using tracks_add_other [OF rows old, of row] False by simp
    qed
  qed
  moreover have "email_ok (rows(i \<mapsto> row)) (add_email i row (row_ref row) (ds_emailIndexes st))"
    unfolding email_ok_def
  proof (intro allI)
    fix e
    have old: "email_bucket_ok rows e (nullish (jm_get (ds_emailIndexes st) e) new_email_bucket)"
      using I by (simp add: email_ok_def)
    show "email_bucket_ok (rows(i \<mapsto> row)) e
        (nullish (jm_get (add_email i row (row_ref row) (ds_emailIndexes st)) e) new_email_bucket)"
    proof (cases "ir_emailKey (row_ref row) = Some e")
      case True
      then show ?thesis
        using tracks_add [of rows i, OF rows, of _ "\<lambda>ref. ir_emailKey ref = Some e" row] counts_add [of rows i, OF rows _ fin,
            of _ "\<lambda>ref. ir_emailKey ref = Some e" ir_accountId row] old
        by (simp add: email_bucket_ok_def add_email_def jm_get_set Let_def)
    next
      case False
      then have "jm_get (add_email i row (row_ref row) (ds_emailIndexes st)) e = jm_get (ds_emailIndexes st) e"
        by (auto simp: add_email_def jm_get_set Let_def split: option.split)
      then show ?thesis using False old rows fin
        by (simp add: email_bucket_ok_def tracks_add_other counts_add_other)
    qed
  qed
  moreover have "refresh_ok (rows(i \<mapsto> row)) (add_refresh i row (row_ref row) (ds_refreshIndexes st))"
    unfolding refresh_ok_def
  proof (intro allI)
    fix t
    have old: "refresh_bucket_ok rows t (nullish (jm_get (ds_refreshIndexes st) t) new_refresh_bucket)"
      using I by (simp add: refresh_ok_def)
    show "refresh_bucket_ok (rows(i \<mapsto> row)) t
        (nullish (jm_get (add_refresh i row (row_ref row) (ds_refreshIndexes st)) t) new_refresh_bucket)"
    proof (cases "ir_refreshToken (row_ref row) = Some t")
      case True
      then show ?thesis
        using tracks_add [of rows i, OF rows, of _ "\<lambda>ref. ir_refreshToken ref = Some t" row] counts_add [of rows i, OF rows _ fin,
            of _ "\<lambda>ref. ir_refreshToken ref = Some t" _ row] old
        by (simp add: refresh_bucket_ok_def add_refresh_def jm_get_set Let_def)
    next
      case False
      then have "jm_get (add_refresh i row (row_ref row) (ds_refreshIndexes st)) t = jm_get (ds_refreshIndexes st) t"
        by (auto simp: add_refresh_def jm_get_set Let_def split: option.split)
      then show ?thesis using False old rows fin
        by (simp add: refresh_bucket_ok_def tracks_add_other counts_add_other)
    qed
  qed
  moreover have "owner_ok (rows(i \<mapsto> row)) (add_owner i (row_ref row) (ds_accountIdOwners st))"
    using I rows unfolding owner_ok_def
    by (auto simp: add_owner_def nullish_set Let_def split: option.splits)
  ultimately show ?thesis using fin by (simp add: indexes_ok_def addToIndexes_def)
qed

lemma adjust_get: "jm_get (jm_adjust k f m) k' = (if k' = k then map_option f (jm_get m k) else jm_get m k')"
  by (simp add: jm_adjust_def jm_get_set split: option.split)

text \<open>A survivor is found in the buckets of its values, so these are not missing.\<close>

lemma tracked_present:
  assumes "rows i = Some row" and "p (row_ref row)" and "tracks (nullish x new_newest_index) rows p"
  shows "x \<noteq> None"
proof
  assume "x = None"
  then have "owners_of rows p i = None"
    using assms(3) by (simp add: tracks_def new_newest_index_def ni_owners_def fun_eq_iff)
  then show False using assms(1,2) by (simp add: owners_of_def)
qed

lemma remove_indexes:
  assumes rows: "rows i = Some row" and ok: "indexes_ok rows st"
  shows "indexes_ok (rows(i := None)) (removeFromIndexes i (row_ref row) st)"
proof -
  note I = ok [unfolded indexes_ok_def]
  have fin: "finite (dom rows)" using I by blast
  have "composite_ok (rows(i := None)) (remove_composite i (row_ref row) (ds_compositeIndexes st))"
    unfolding composite_ok_def
  proof (intro allI)
    fix a e
    let ?p = "\<lambda>ref. ir_accountId ref = Some a \<and> ir_emailKey ref = Some e"
    have old: "tracks (nullish (jm_get (ds_compositeIndexes st) (a, e)) new_newest_index) rows ?p"
      using I by (simp add: composite_ok_def)
    show "tracks (nullish (jm_get (remove_composite i (row_ref row) (ds_compositeIndexes st)) (a, e))
        new_newest_index) (rows(i := None)) ?p"
    proof (cases "?p (row_ref row)")
      case True
      then obtain ni where ni: "jm_get (ds_compositeIndexes st) (a, e) = Some ni"
        using tracked_present [of rows i row ?p, OF rows _ old] by auto
      then show ?thesis using True tracks_remove [OF old, of i]
        by (simp add: remove_composite_def dedupCompositeKey_def adjust_get)
    next
      case False
      then have "jm_get (remove_composite i (row_ref row) (ds_compositeIndexes st)) (a, e)
          = jm_get (ds_compositeIndexes st) (a, e)"
        by (auto simp: remove_composite_def dedupCompositeKey_def adjust_get split: option.splits)
      then show ?thesis using tracks_remove_other [of rows i row, OF rows old] False by simp
    qed
  qed
  moreover have "email_ok (rows(i := None)) (remove_email i (row_ref row) (ds_emailIndexes st))"
    unfolding email_ok_def
  proof (intro allI)
    fix e
    have old: "email_bucket_ok rows e (nullish (jm_get (ds_emailIndexes st) e) new_email_bucket)"
      using I by (simp add: email_ok_def)
    then have "tracks (nullish (map_option eb_newest (jm_get (ds_emailIndexes st) e)) new_newest_index) rows
        (\<lambda>ref. ir_emailKey ref = Some e)"
      by (cases "jm_get (ds_emailIndexes st) e") (simp_all add: email_bucket_ok_def new_email_bucket_def)
    then have here: "ir_emailKey (row_ref row) = Some e \<Longrightarrow> jm_get (ds_emailIndexes st) e \<noteq> None"
      using tracked_present [of rows i row "\<lambda>ref. ir_emailKey ref = Some e", OF rows] by auto
    show "email_bucket_ok (rows(i := None)) e
        (nullish (jm_get (remove_email i (row_ref row) (ds_emailIndexes st)) e) new_email_bucket)"
    proof (cases "ir_emailKey (row_ref row) = Some e")
      case True
      then show ?thesis
        using tracks_remove [of _ rows "\<lambda>ref. ir_emailKey ref = Some e" i] counts_remove [of rows i row, OF rows _ fin,
            of _ "\<lambda>ref. ir_emailKey ref = Some e" ir_accountId] old here
        by (auto simp: email_bucket_ok_def remove_email_def adjust_get)
    next
      case False
      then have "jm_get (remove_email i (row_ref row) (ds_emailIndexes st)) e = jm_get (ds_emailIndexes st) e"
        by (auto simp: remove_email_def adjust_get split: option.split)
      then show ?thesis using False old rows fin
        by (simp add: email_bucket_ok_def tracks_remove_other [of rows i row] counts_remove_other [of rows i row])
    qed
  qed
  moreover have "refresh_ok (rows(i := None)) (remove_refresh i (row_ref row) (ds_refreshIndexes st))"
    unfolding refresh_ok_def
  proof (intro allI)
    fix t
    have old: "refresh_bucket_ok rows t (nullish (jm_get (ds_refreshIndexes st) t) new_refresh_bucket)"
      using I by (simp add: refresh_ok_def)
    then have "tracks (nullish (map_option rb_newest (jm_get (ds_refreshIndexes st) t)) new_newest_index) rows
        (\<lambda>ref. ir_refreshToken ref = Some t)"
      by (cases "jm_get (ds_refreshIndexes st) t") (simp_all add: refresh_bucket_ok_def new_refresh_bucket_def)
    then have here: "ir_refreshToken (row_ref row) = Some t \<Longrightarrow> jm_get (ds_refreshIndexes st) t \<noteq> None"
      using tracked_present [of rows i row "\<lambda>ref. ir_refreshToken ref = Some t", OF rows] by auto
    show "refresh_bucket_ok (rows(i := None)) t
        (nullish (jm_get (remove_refresh i (row_ref row) (ds_refreshIndexes st)) t) new_refresh_bucket)"
    proof (cases "ir_refreshToken (row_ref row) = Some t")
      case True
      then show ?thesis
        using tracks_remove [of _ rows "\<lambda>ref. ir_refreshToken ref = Some t" i] counts_remove [of rows i row, OF rows _ fin,
            of _ "\<lambda>ref. ir_refreshToken ref = Some t"] old here
        by (auto simp: refresh_bucket_ok_def remove_refresh_def adjust_get)
    next
      case False
      then have "jm_get (remove_refresh i (row_ref row) (ds_refreshIndexes st)) t = jm_get (ds_refreshIndexes st) t"
        by (auto simp: remove_refresh_def adjust_get split: option.split)
      then show ?thesis using False old rows fin
        by (simp add: refresh_bucket_ok_def tracks_remove_other [of rows i row] counts_remove_other [of rows i row])
    qed
  qed
  moreover have "owner_ok (rows(i := None)) (remove_owner i (row_ref row) (ds_accountIdOwners st))"
    unfolding owner_ok_def
  proof (intro allI)
    fix a
    have old: "distinct (nullish (jm_get (ds_accountIdOwners st) a) [])"
      "set (nullish (jm_get (ds_accountIdOwners st) a) []) = {i. \<exists>row. rows i = Some row \<and> ir_accountId (row_ref row) = Some a}"
      using I by (simp_all add: owner_ok_def)
    then show "distinct (nullish (jm_get (remove_owner i (row_ref row) (ds_accountIdOwners st)) a) [])
      \<and> set (nullish (jm_get (remove_owner i (row_ref row) (ds_accountIdOwners st)) a) [])
        = {j. \<exists>r. (rows(i := None)) j = Some r \<and> ir_accountId (row_ref r) = Some a}"
      using rows
      by (cases "jm_get (ds_accountIdOwners st) a")
        (auto simp: remove_owner_def adjust_get split: option.splits)
  qed
  ultimately show ?thesis using fin by (simp add: indexes_ok_def removeFromIndexes_def)
qed

section \<open>Every tier is the scan it replaces\<close>

lemma among_eq: "newest_among (rows_of xs) p r \<Longrightarrow> findNewestMatchingIndex xs p = r"
  using newest_among_unique findNewest_among by blast

lemma tracks_find: "tracks ni (rows_of xs) p \<Longrightarrow> fst (newestIndex ni) = findNewestMatchingIndex xs p"
  using tracks_newest [of ni "rows_of xs" p] among_eq by metis

lemma tracks_find_empty: "tracks new_newest_index (rows_of xs) p \<Longrightarrow> findNewestMatchingIndex xs p = None"
proof -
  assume t: "tracks new_newest_index (rows_of xs) p"
  have "ni_size new_newest_index = 0" by (simp add: ni_size_def new_newest_index_def)
  with tracks_empty [OF t] show ?thesis by (intro among_eq) (simp add: newest_among_def)
qed

lemma counts_values:
  assumes "counts_ok m rows p f" and "finite (dom rows)"
  shows "jm_has m v \<longleftrightarrow> v \<in> values_of rows p f" and "length m = card (values_of rows p f)"
    and "finite (values_of rows p f)"
proof -
  have has: "jm_has m v \<longleftrightarrow> v \<in> values_of rows p f" for v
  proof -
    let ?S = "{i. \<exists>row. rows i = Some row \<and> p (row_ref row) \<and> f (row_ref row) = Some v}"
    have "finite ?S" by (rule finite_subset [OF _ assms(2)]) auto
    then have "card ?S = 0 \<longleftrightarrow> ?S = {}" by simp
    moreover have "v \<in> values_of rows p f \<longleftrightarrow> ?S \<noteq> {}" by (simp add: values_of_def) blast
    ultimately show ?thesis using assms(1) by (simp add: counts_ok_def jm_has_def ref_count_def Let_def)
  qed
  then show "jm_has m v \<longleftrightarrow> v \<in> values_of rows p f" .
  have "values_of rows p f = fst ` set m"
    using has by (auto simp: jm_has_def jm_get_def map_of_eq_None_iff set_eq_iff)
  then show "length m = card (values_of rows p f)" "finite (values_of rows p f)"
    using assms(1) distinct_card [of "map fst m"] by (simp_all add: counts_ok_def jm_ok_def)
qed

lemma two_elements: "finite S \<Longrightarrow> 1 < card S \<longleftrightarrow> (\<exists>v\<in>S. \<exists>w\<in>S. v \<noteq> w)"
  using card_le_Suc0_iff_eq [of S] by (auto simp: not_le [symmetric])

lemma conflict_set:
  assumes "finite V"
  shows "1 < card V \<or> card V = 1 \<and> a \<notin> V \<longleftrightarrow> (\<exists>x\<in>V. x \<noteq> a)"
proof (cases "V \<subseteq> {a}")
  case True
  then have "V = {} \<or> V = {a}" by blast
  then show ?thesis by auto
next
  case False
  then obtain x where x: "x \<in> V" "x \<noteq> a" by blast
  have "1 < card V" if "a \<in> V" using that x two_elements [OF assms] by blast
  moreover have "1 \<le> card V" using x(1) assms by (metis One_nat_def Suc_leI card_gt_0_iff empty_iff)
  ultimately show ?thesis using x by (cases "a \<in> V") auto
qed

lemma count_conflict_values:
  assumes "counts_ok m rows p f" and "finite (dom rows)"
  shows "count_conflict value m \<longleftrightarrow> (\<exists>a. value = Some a \<and> (\<exists>x\<in>values_of rows p f. x \<noteq> a))"
proof (cases "value")
  case (Some a)
  note V = counts_values [OF assms]
  have "1 < card (values_of rows p f) \<or> card (values_of rows p f) = 1 \<and> a \<notin> values_of rows p f
      \<longleftrightarrow> (\<exists>x\<in>values_of rows p f. x \<noteq> a)"
    by (rule conflict_set [OF V(3)])
  then show ?thesis using Some by (simp add: count_conflict_def V)
qed (simp add: count_conflict_def)

lemma ambiguous_count:
  assumes "counts_ok m rows (\<lambda>ref. ir_emailKey ref = ir_emailKey c) ir_accountId" and "finite (dom rows)"
  shows "1 < length m + (case ir_accountId c of None \<Rightarrow> 0 | Some a \<Rightarrow> if jm_has m a then 0 else 1)
    \<longleftrightarrow> ambiguous_ids rows c"
proof -
  note V = counts_values [OF assms]
  let ?S = "values_of rows (\<lambda>ref. ir_emailKey ref = ir_emailKey c) ir_accountId \<union> set_option (ir_accountId c)"
  have "length m + (case ir_accountId c of None \<Rightarrow> 0 | Some a \<Rightarrow> if jm_has m a then 0 else 1) = card ?S"
    using V(3) by (cases "ir_accountId c") (simp_all add: V insert_absorb)
  then show ?thesis using two_elements [of ?S] V(3) by (simp add: ambiguous_ids_def Let_def)
qed

definition same_survivors :: "dedup_state \<Rightarrow> dedup_state \<Rightarrow> bool" where
  "same_survivors st st' \<longleftrightarrow> ds_deduplicated st' = ds_deduplicated st \<and> ds_refs st' = ds_refs st"

lemma tier_composite_eq:
  assumes ok: "indexes_ok (rows_of xs) st" and run: "tier_composite c st = (r, st')"
  shows "r = findCompositeAccountMatchIndex xs c \<and> indexes_ok (rows_of xs) st' \<and> same_survivors st st'"
proof (cases "dedupCompositeKey c")
  case None
  then have "ir_accountId c = None \<or> ir_emailKey c = None"
    by (cases "ir_accountId c"; cases "ir_emailKey c") (simp_all add: dedupCompositeKey_def)
  moreover have "r = None" "st' = st" using run None by (simp_all add: tier_composite_def)
  ultimately show ?thesis using ok by (simp add: findCompositeAccountMatchIndex_def same_survivors_def)
next
  case (Some key)
  then obtain a e where key: "key = (a, e)" "ir_accountId c = Some a" "ir_emailKey c = Some e"
    by (auto simp: dedupCompositeKey_def split: option.splits)
  have find: "findCompositeAccountMatchIndex xs c
      = findNewestMatchingIndex xs (\<lambda>ref. ir_accountId ref = Some a \<and> ir_emailKey ref = Some e)"
    by (simp add: findCompositeAccountMatchIndex_def key)
  have all: "tracks (nullish (jm_get (ds_compositeIndexes st) (a', e')) new_newest_index) (rows_of xs)
      (\<lambda>ref. ir_accountId ref = Some a' \<and> ir_emailKey ref = Some e')" for a' e'
    using ok by (simp add: indexes_ok_def composite_ok_def)
  show ?thesis
  proof (cases "jm_get (ds_compositeIndexes st) key")
    case None
    then show ?thesis using ok run find tracks_find_empty all [of a e] Some
      by (simp add: tier_composite_def key same_survivors_def)
  next
    case ni: (Some ni)
    have t: "tracks ni (rows_of xs) (\<lambda>ref. ir_accountId ref = Some a \<and> ir_emailKey ref = Some e)"
      using all [of a e] ni key by simp
    have r: "r = fst (newestIndex ni)"
      and st': "st' = st\<lparr>ds_compositeIndexes := jm_set key (snd (newestIndex ni)) (ds_compositeIndexes st)\<rparr>"
      using run Some ni by (auto simp: tier_composite_def split: prod.splits)
    have "composite_ok (rows_of xs) (ds_compositeIndexes st')"
      using all tracks_newest [OF t] by (auto simp: composite_ok_def st' nullish_set key)
    then show ?thesis using ok find tracks_find [OF t] r
      by (simp add: indexes_ok_def st' same_survivors_def)
  qed
qed

lemma tier_email_eq:
  assumes ok: "indexes_ok (rows_of xs) st" and c: "ir_accountId c \<noteq> Some []"
    and run: "tier_email c st = (r, st')"
  shows "r = findSafeEmailMatchIndex xs c \<and> indexes_ok (rows_of xs) st' \<and> same_survivors st st'"
proof (cases "ir_emailKey c")
  case None
  then show ?thesis using ok run
    by (simp add: tier_email_def findSafeEmailMatchIndex_def same_survivors_def)
next
  case (Some e)
  have find: "findSafeEmailMatchIndex xs c = (if ambiguous_ids (rows_of xs) c then None
      else findNewestMatchingIndex xs (\<lambda>ref. ir_emailKey ref = Some e))"
    using safe_email_eq [of c xs] c Some by simp
  have all: "email_bucket_ok (rows_of xs) e' (nullish (jm_get (ds_emailIndexes st) e') new_email_bucket)" for e'
    using ok by (simp add: indexes_ok_def email_ok_def)
  have fin: "finite (dom (rows_of xs))" using ok by (simp add: indexes_ok_def)
  show ?thesis
  proof (cases "jm_get (ds_emailIndexes st) e")
    case None
    then have "tracks new_newest_index (rows_of xs) (\<lambda>ref. ir_emailKey ref = Some e)"
      using all [of e] by (simp add: email_bucket_ok_def new_email_bucket_def)
    from tracks_find_empty [OF this] show ?thesis
      using None Some ok run find by (simp add: tier_email_def same_survivors_def)
  next
    case b: (Some bucket)
    have t: "tracks (eb_newest bucket) (rows_of xs) (\<lambda>ref. ir_emailKey ref = Some e)"
      and k: "counts_ok (eb_accountIds bucket) (rows_of xs) (\<lambda>ref. ir_emailKey ref = ir_emailKey c) ir_accountId"
      using all [of e] b Some by (simp_all add: email_bucket_ok_def)
    note amb = ambiguous_count [OF k fin]
    have none: "ni_size (eb_newest bucket) = 0 \<Longrightarrow> findNewestMatchingIndex xs (\<lambda>ref. ir_emailKey ref = Some e) = None"
      using tracks_empty [OF t] by (intro among_eq) (simp add: newest_among_def)
    show ?thesis
    proof (cases "ni_size (eb_newest bucket) = 0 \<or> ambiguous_ids (rows_of xs) c")
      case True
      then have "tier_email c st = (None, st)" using Some b amb by (auto simp: tier_email_def Let_def)
      then show ?thesis using ok run find none True by (auto simp: same_survivors_def)
    next
      case False
      then have r: "r = fst (newestIndex (eb_newest bucket))"
        and st': "st' = st\<lparr>ds_emailIndexes := jm_set e (bucket\<lparr>eb_newest := snd (newestIndex (eb_newest bucket))\<rparr>)
          (ds_emailIndexes st)\<rparr>"
        using run Some b amb by (auto simp: tier_email_def Let_def split: prod.splits)
      have "email_ok (rows_of xs) (ds_emailIndexes st')"
        using all tracks_newest [OF t] k Some by (auto simp: email_ok_def st' nullish_set email_bucket_ok_def)
      then show ?thesis using ok find tracks_find [OF t] r False
        by (simp add: indexes_ok_def st' same_survivors_def)
    qed
  qed
qed

lemma conflicting_alt:
  "conflicting_ref c ref \<longleftrightarrow>
    (\<exists>a. ir_accountId c = Some a \<and> (\<exists>x. ir_accountId ref = Some x \<and> x \<noteq> a))
    \<or> (\<exists>e. ir_emailKey c = Some e \<and> (\<exists>x. ir_emailKey ref = Some x \<and> x \<noteq> e))"
  by (cases "ir_accountId c"; cases "ir_accountId ref"; cases "ir_emailKey c"; cases "ir_emailKey ref")
    (simp_all add: conflicting_ref_def)

lemma blocked_counts:
  assumes t: "tracks ni rows (\<lambda>ref. ir_refreshToken ref = ir_refreshToken c)"
    and a: "counts_ok ma rows (\<lambda>ref. ir_refreshToken ref = ir_refreshToken c) ir_accountId"
    and e: "counts_ok me rows (\<lambda>ref. ir_refreshToken ref = ir_refreshToken c) ir_emailKey"
    and fin: "finite (dom rows)"
  shows "refresh_blocked rows c \<longleftrightarrow> count_conflict (ir_accountId c) ma \<or> count_conflict (ir_emailKey c) me
    \<or> ir_accountId c = None \<and> ir_emailKey c = None \<and> 1 < ni_size ni"
proof -
  have two: "1 < ni_size ni \<longleftrightarrow> (\<exists>i j. i \<noteq> j \<and> i \<in> dom (owners_of rows (\<lambda>ref. ir_refreshToken ref = ir_refreshToken c))
      \<and> j \<in> dom (owners_of rows (\<lambda>ref. ir_refreshToken ref = ir_refreshToken c)))"
    using dni.count_many [of ni] t unfolding tracks_def by simp
  have "(\<exists>i row. rows i = Some row \<and> ir_refreshToken (row_ref row) = ir_refreshToken c \<and> conflicting_ref c (row_ref row))
      \<longleftrightarrow> count_conflict (ir_accountId c) ma \<or> count_conflict (ir_emailKey c) me"
    unfolding count_conflict_values [OF a fin] count_conflict_values [OF e fin]
    unfolding conflicting_alt values_of_def by blast
  then show ?thesis unfolding refresh_blocked_def two by blast
qed

lemma tier_refresh_eq:
  assumes ok: "indexes_ok (rows_of xs) st" and run: "tier_refresh c st = (r, st')"
  shows "r = (if ir_refreshToken c = None then None else findCompatibleRefreshTokenMatchIndex xs c)
    \<and> indexes_ok (rows_of xs) st' \<and> same_survivors st st'"
proof (cases "ir_refreshToken c")
  case None
  then show ?thesis using ok run by (simp add: tier_refresh_def same_survivors_def)
next
  case (Some k)
  have find: "findCompatibleRefreshTokenMatchIndex xs c = (if refresh_blocked (rows_of xs) c then None
      else findNewestMatchingIndex xs (\<lambda>ref. ir_refreshToken ref = Some k))"
    using compatible_refresh_eq [of c xs] Some by simp
  have all: "refresh_bucket_ok (rows_of xs) k' (nullish (jm_get (ds_refreshIndexes st) k') new_refresh_bucket)" for k'
    using ok by (simp add: indexes_ok_def refresh_ok_def)
  have fin: "finite (dom (rows_of xs))" using ok by (simp add: indexes_ok_def)
  show ?thesis
  proof (cases "jm_get (ds_refreshIndexes st) k")
    case None
    then have "tracks new_newest_index (rows_of xs) (\<lambda>ref. ir_refreshToken ref = Some k)"
      using all [of k] by (simp add: refresh_bucket_ok_def new_refresh_bucket_def)
    from tracks_find_empty [OF this] show ?thesis
      using None Some ok run find by (simp add: tier_refresh_def same_survivors_def)
  next
    case b: (Some bucket)
    have t: "tracks (rb_newest bucket) (rows_of xs) (\<lambda>ref. ir_refreshToken ref = Some k)"
      and ka: "counts_ok (rb_accountIds bucket) (rows_of xs) (\<lambda>ref. ir_refreshToken ref = Some k) ir_accountId"
      and ke: "counts_ok (rb_emailKeys bucket) (rows_of xs) (\<lambda>ref. ir_refreshToken ref = Some k) ir_emailKey"
      using all [of k] b by (simp_all add: refresh_bucket_ok_def)
    have blocked: "refresh_blocked (rows_of xs) c \<longleftrightarrow> count_conflict (ir_accountId c) (rb_accountIds bucket)
        \<or> count_conflict (ir_emailKey c) (rb_emailKeys bucket)
        \<or> ir_accountId c = None \<and> ir_emailKey c = None \<and> 1 < ni_size (rb_newest bucket)"
      by (rule blocked_counts [OF _ _ _ fin]) (simp_all add: Some t ka ke)
    have none: "ni_size (rb_newest bucket) = 0 \<Longrightarrow> findNewestMatchingIndex xs (\<lambda>ref. ir_refreshToken ref = Some k) = None"
      using tracks_empty [OF t] by (intro among_eq) (simp add: newest_among_def)
    show ?thesis
    proof (cases "ni_size (rb_newest bucket) = 0 \<or> refresh_blocked (rows_of xs) c")
      case True
      then have "tier_refresh c st = (None, st)" using Some b blocked by (auto simp: tier_refresh_def Let_def)
      then show ?thesis using ok run find none True Some by (auto simp: same_survivors_def)
    next
      case False
      then have run': "tier_refresh c st = (fst (newestIndex (rb_newest bucket)),
          st\<lparr>ds_refreshIndexes := jm_set k (bucket\<lparr>rb_newest := snd (newestIndex (rb_newest bucket))\<rparr>)
            (ds_refreshIndexes st)\<rparr>)"
      proof -
        have "(ni_size (rb_newest bucket) = 0 \<or> count_conflict (ir_accountId c) (rb_accountIds bucket)
            \<or> count_conflict (ir_emailKey c) (rb_emailKeys bucket)
            \<or> ir_accountId c = None \<and> ir_emailKey c = None \<and> 1 < ni_size (rb_newest bucket)) = False"
          using False unfolding blocked by blast
        then show ?thesis unfolding tier_refresh_def Some b option.case Let_def
          by (simp only: if_False split_beta)
      qed
      have "refresh_ok (rows_of xs) (ds_refreshIndexes st')"
        using all tracks_newest [OF t] ka ke run run'
        by (auto simp: refresh_ok_def nullish_set refresh_bucket_ok_def)
      then show ?thesis using ok find tracks_find [OF t] run run' False Some
        by (auto simp: indexes_ok_def same_survivors_def)
    qed
  qed
qed

lemma tier_owner_eq:
  assumes ok: "indexes_ok (rows_of xs) st" and refs: "ds_refs st = map row_ref xs"
  shows "tier_owner c st = findUniqueAccountIdMatchIndex xs c False"
proof (cases "ir_accountId c = None \<or> ir_emailKey c = None")
  case True
  then show ?thesis
    by (cases "ir_accountId c"; cases "ir_emailKey c")
      (simp_all add: tier_owner_def findUniqueAccountIdMatchIndex_def)
next
  case False
  then obtain a e where c: "ir_accountId c = Some a" "ir_emailKey c = Some e" by auto
  define os where "os = nullish (jm_get (ds_accountIdOwners st) a) []"
  define D where "D = dom (owners_of (rows_of xs) (\<lambda>ref. ir_accountId ref = Some a))"
  have os: "distinct os" "set os = D"
    using ok by (auto simp: os_def D_def indexes_ok_def owner_ok_def owners_of_def split: option.splits if_splits)
  have D: "k \<in> D \<Longrightarrow> k < length xs" for k by (auto simp: D_def owners_of_Some)
  have single: "os = [k] \<longleftrightarrow> D = {k}" for k
    using os by (metis distinct_singleton empty_set list.simps(15) set_empty remdups_id_iff_distinct
        distinct.simps(2) insert_not_empty list.exhaust list.set_intros(1) singletonD list.set_intros(2))
  have "tier_owner c st = Some k \<longleftrightarrow> findUniqueAccountIdMatchIndex xs c False = Some k" for k
  proof -
    have "tier_owner c st = Some k \<longleftrightarrow> os = [k] \<and> (ir_emailKey (ds_refs st ! k) = None \<or> ir_emailKey (ds_refs st ! k) = Some e)"
      by (auto simp: tier_owner_def c os_def Let_def split: option.splits list.splits if_splits)
    then show ?thesis unfolding unique_accountId_eq single
      using D [of k] refs by (auto simp: c D_def [symmetric])
  qed
  then show ?thesis by (metis not_None_eq)
qed

lemma existing_index_eq:
  assumes ok: "indexes_ok (rows_of xs) st" and refs: "ds_refs st = map row_ref xs"
    and run: "existing_index (row_ref account) st = (r, st')"
  shows "r = match_ref xs (row_ref account) False \<and> indexes_ok (rows_of xs) st' \<and> same_survivors st st'"
proof -
  let ?c = "row_ref account"
  obtain r1 s1 where 1: "tier_composite ?c st = (r1, s1)" by fastforce
  note T1 = tier_composite_eq [OF ok 1]
  show ?thesis
  proof (cases r1)
    case (Some i)
    have "existing_index ?c st = (Some i, s1)" by (simp add: existing_index_def 1 Some)
    moreover have "match_ref xs ?c False = Some i" using sym [OF conjunct1 [OF T1]] Some by (simp add: match_ref_def)
    ultimately show ?thesis using T1 run by simp
  next
    case N1: None
    obtain r2 s2 where 2: "tier_email ?c s1 = (r2, s2)" by fastforce
    have ok1: "indexes_ok (rows_of xs) s1" using T1 by blast
    note T2 = tier_email_eq [OF ok1 row_ref_nonempty(1) 2]
    show ?thesis
    proof (cases r2)
      case (Some i)
      have "existing_index ?c st = (Some i, s2)" by (simp add: existing_index_def 1 2 N1 Some)
      moreover have "match_ref xs ?c False = Some i"
        using sym [OF conjunct1 [OF T1]] sym [OF conjunct1 [OF T2]] N1 Some by (simp add: match_ref_def)
      ultimately show ?thesis using T1 T2 run by (simp add: same_survivors_def)
    next
      case N2: None
      obtain r3 s3 where 3: "tier_refresh ?c s2 = (r3, s3)" by fastforce
      have ok2: "indexes_ok (rows_of xs) s2" using T2 by blast
      note T3 = tier_refresh_eq [OF ok2 3]
      have same: "same_survivors st s3" using T1 T2 T3 by (simp add: same_survivors_def)
      have "existing_index ?c st = (case r3 of Some i \<Rightarrow> (Some i, s3) | None \<Rightarrow> (tier_owner ?c s3, s3))"
        by (simp add: existing_index_def 1 2 3 N1 N2)
      moreover have "match_ref xs ?c False = (case r3 of Some i \<Rightarrow> Some i
          | None \<Rightarrow> findUniqueAccountIdMatchIndex xs ?c False)"
        using sym [OF conjunct1 [OF T1]] sym [OF conjunct1 [OF T2]] conjunct1 [OF T3] N1 N2
        by (simp add: match_ref_def)
      moreover have "tier_owner ?c s3 = findUniqueAccountIdMatchIndex xs ?c False"
        using tier_owner_eq [of xs s3] T3 same refs by (simp add: same_survivors_def)
      ultimately show ?thesis using run T3 same by (auto split: option.splits)
    qed
  qed
qed

section \<open>The passes\<close>

lemma match_ref_range: "match_ref xs c allow = Some i \<Longrightarrow> i < length xs"
proof -
  have newest: "findNewestMatchingIndex xs p = Some j \<Longrightarrow> j < length xs" for p j
    using findNewest_among [of xs p]
    by (auto simp: newest_among_def is_newest_def owners_of_Some)
  have "findSafeEmailMatchIndex xs c = Some j \<Longrightarrow> j < length xs" for j
    using newest by (auto simp: findSafeEmailMatchIndex_def Let_def split: if_splits)
  moreover have "findCompositeAccountMatchIndex xs c = Some j \<Longrightarrow> j < length xs" for j
    using newest by (auto simp: findCompositeAccountMatchIndex_def split: if_splits)
  moreover have "findCompatibleRefreshTokenMatchIndex xs c = Some j \<Longrightarrow> j < length xs" for j
    using newest compatible_refresh_eq [of c xs]
    by (cases "ir_refreshToken c = None")
      (auto simp: findCompatibleRefreshTokenMatchIndex_def split: if_splits)
  moreover have "findUniqueAccountIdMatchIndex xs c allow = Some j \<Longrightarrow> j < length xs" for j
    unfolding unique_accountId_eq by (auto simp: set_eq_iff dom_def owners_of_Some)
  ultimately show "match_ref xs c allow = Some i \<Longrightarrow> i < length xs"
    by (auto simp: match_ref_def split: option.splits if_splits)
qed

definition pass_inv :: "json list \<Rightarrow> dedup_state \<Rightarrow> bool" where
  "pass_inv xs st \<longleftrightarrow> ds_deduplicated st = xs \<and> ds_refs st = map row_ref xs \<and> indexes_ok (rows_of xs) st"

lemma indexes_ok_survivors [simp]:
  "indexes_ok rows (st\<lparr>ds_deduplicated := ds, ds_refs := refs\<rparr>) \<longleftrightarrow> indexes_ok rows st"
  by (simp add: indexes_ok_def)

lemma index_fields [simp]:
  "ds_deduplicated (addToIndexes i account ref st) = ds_deduplicated st"
  "ds_refs (addToIndexes i account ref st) = ds_refs st"
  "ds_deduplicated (removeFromIndexes i ref st) = ds_deduplicated st"
  "ds_refs (removeFromIndexes i ref st) = ds_refs st"
  by (simp_all add: addToIndexes_def removeFromIndexes_def)

lemma dedup_step_linear:
  assumes inv: "pass_inv xs st"
  shows "pass_inv (linear_step account xs) (dedup_step account st)"
proof -
  obtain r st1 where ex: "existing_index (row_ref account) st = (r, st1)" by fastforce
  have E: "r = match_ref xs (row_ref account) False" "indexes_ok (rows_of xs) st1"
    "ds_deduplicated st1 = xs" "ds_refs st1 = map row_ref xs"
    using existing_index_eq [of xs st account r st1] ex inv
    by (simp_all add: pass_inv_def same_survivors_def)
  show ?thesis
  proof (cases r)
    case None
    define st2 where "st2 = st1\<lparr>ds_deduplicated := xs @ [account], ds_refs := map row_ref xs @ [row_ref account]\<rparr>"
    have free: "rows_of xs (length xs) = None" by (simp add: rows_of_def)
    have "indexes_ok (rows_of xs) st2" using E(2) by (simp add: st2_def)
    note added = add_indexes [OF free this, of account]
    have "pass_inv (xs @ [account]) (addToIndexes (length xs) account (row_ref account) st2)"
      using added by (simp add: pass_inv_def rows_of_snoc st2_def)
    moreover have "dedup_step account st = addToIndexes (length xs) account (row_ref account) st2"
      using None E by (simp add: dedup_step_def ex st2_def Let_def)
    moreover have "linear_step account xs = xs @ [account]"
      using None by (simp add: linear_step_def flip: E(1))
    ultimately show ?thesis by simp
  next
    case (Some i)
    have i: "i < length xs" using E(1) Some match_ref_range by metis
    show ?thesis
    proof (cases "candidate_newest (xs ! i) account")
      case False
      then show ?thesis using E Some by (simp add: linear_step_def dedup_step_def ex pass_inv_def Let_def flip: E(1))
    next
      case True
      define st2 where "st2 = st1\<lparr>ds_deduplicated := xs[i := account], ds_refs := (map row_ref xs)[i := row_ref account]\<rparr>"
      have at: "rows_of xs i = Some (xs ! i)" using i by (simp add: rows_of_def)
      have "indexes_ok (rows_of xs) st2" using E(2) by (simp add: st2_def)
      note gone = remove_indexes [OF at this]
      have "((rows_of xs)(i := None)) i = None" by simp
      note refilled = add_indexes [OF this gone, of account]
      have "(rows_of xs)(i := None, i \<mapsto> account) = rows_of (xs[i := account])"
        using i by (auto simp: rows_of_def fun_eq_iff)
      then have "pass_inv (xs[i := account]) (addToIndexes i account (row_ref account)
          (removeFromIndexes i (row_ref (xs ! i)) st2))"
        using refilled by (simp add: pass_inv_def st2_def map_update)
      moreover have "dedup_step account st = addToIndexes i account (row_ref account)
          (removeFromIndexes i (row_ref (xs ! i)) st2)"
        using True Some E i by (simp add: dedup_step_def ex st2_def Let_def)
      moreover have "linear_step account xs = xs[i := account]"
        using True Some by (simp add: linear_step_def flip: E(1))
      ultimately show ?thesis by simp
    qed
  qed
qed

lemma new_pass_inv: "pass_inv [] new_dedup_state"
proof -
  have rows: "rows_of [] = Map.empty" by (simp add: rows_of_def fun_eq_iff)
  have none: "owners_of Map.empty p = Map.empty" "ref_count Map.empty q = 0" for p q
    by (simp_all add: owners_of_def ref_count_def fun_eq_iff)
  have "tracks new_newest_index Map.empty p" for p
    by (simp add: tracks_def none new_newest_index_def ni_ok_def heap_ok_def ni_owners_def fun_eq_iff)
  then show ?thesis
    by (simp add: pass_inv_def new_dedup_state_def indexes_ok_def rows composite_ok_def email_ok_def refresh_ok_def
        owner_ok_def email_bucket_ok_def refresh_bucket_ok_def new_email_bucket_def new_refresh_bucket_def
        counts_ok_def none Let_def)
qed

text \<open>
  C4. The pass over the four incremental indexes, with their heaps and counts, is the pass of linear
  scans it replaces: for every list of accounts it keeps the same survivors in the same order.
\<close>

theorem dedup_pass_is_linear: "deduplicateAccountsByIdentityPass accounts = linear_pass accounts"
proof -
  have "pass_inv xs st \<Longrightarrow> pass_inv (fold linear_step accounts xs) (fold dedup_step accounts st)" for xs st
    by (induction accounts arbitrary: xs st) (simp_all add: dedup_step_linear)
  from this [OF new_pass_inv] show ?thesis
    by (simp add: deduplicateAccountsByIdentityPass_def linear_pass_def pass_inv_def)
qed

end
