(* ===== verification/AccountNormalize.thy ===== *)
theory AccountNormalize
  imports DedupResults AccountState
begin

text \<open>
  What is read from an account file (\<open>normalizeAccountStorage\<close> of \<open>lib/storage.ts\<close>): rows of version 1
  are migrated (\<open>lib/storage/migrations.ts\<close>), rows without a refresh token dropped, duplicates merged
  until nothing changes, and the pointers resolved against the rows that are left.  The file is a JSON
  value; log lines are not modelled.
\<close>

section \<open>Repeated passes\<close>

lemma linear_step_length: "length (linear_step a s) \<le> length s + 1"
  by (simp add: linear_step_def split: option.split)

lemma fold_linear:
  "length (fold linear_step xs s) \<le> length s + length xs"
  "length (fold linear_step xs s) = length s + length xs \<Longrightarrow> fold linear_step xs s = s @ xs
    \<and> list_all (\<lambda>i. match_ref (s @ take i xs) (row_ref (xs ! i)) False = None) [0..<length xs]"
proof (induction xs arbitrary: s)
  case (Cons x xs)
  { case 1
    show ?case using Cons.IH(1) [of "linear_step x s"] linear_step_length [of x s] by simp }
  { case 2
    then have len: "length (linear_step x s) = length s + 1"
      and rest: "length (fold linear_step xs (linear_step x s)) = length (linear_step x s) + length xs"
      using Cons.IH(1) [of "linear_step x s"] linear_step_length [of x s] by simp_all
    have none: "match_ref s (row_ref x) False = None"
      using len by (simp add: linear_step_def split: option.splits if_splits)
    then have step: "linear_step x s = s @ [x]" by (simp add: linear_step_def)
    note IH = Cons.IH(2) [OF rest, unfolded step]
    have "match_ref (s @ take i (x # xs)) (row_ref ((x # xs) ! i)) False = None" if "i < length (x # xs)" for i
      using that IH none by (cases i) (auto simp: list_all_iff)
    then show ?case using IH step by (simp add: list_all_iff) }
qed simp_all

lemma pass_length: "length (deduplicateAccountsByIdentityPass xs) \<le> length xs"
  using fold_linear(1) [of xs "[]"] by (simp add: dedup_pass_is_linear linear_pass_def)

lemma pass_settled:
  assumes "length (deduplicateAccountsByIdentityPass xs) = length xs"
  shows "deduplicateAccountsByIdentityPass xs = xs
    \<and> list_all (\<lambda>i. match_ref (take i xs) (row_ref (xs ! i)) False = None) [0..<length xs]"
  using fold_linear(2) [of xs "[]"] assms by (simp add: dedup_pass_is_linear linear_pass_def)

function dedup_loop :: "json list \<Rightarrow> json list" where
  "dedup_loop current =
     (let following = deduplicateAccountsByIdentityPass current
      in if length following = length current then following else dedup_loop following)"
  by pat_completeness auto
termination
  by (relation "measure length") (auto simp: le_neq_trans pass_length)

declare dedup_loop.simps [simp del]

definition deduplicateAccountsByIdentity :: "json list \<Rightarrow> json list" where
  "deduplicateAccountsByIdentity rows = dedup_loop (deduplicateAccountsByIdentityPass rows)"

definition deduplicateAccounts :: "json list \<Rightarrow> json list" where
  "deduplicateAccounts rows = deduplicateAccountsByIdentity rows"

section \<open>Migration of version 1\<close>

text \<open>\<open>{ ...account }\<close>: an array spreads into its indices.\<close>

definition spread_fields :: "json \<Rightarrow> (string \<times> json) list" where
  "spread_fields j = (case j of JObj fs \<Rightarrow> fs | JArr xs \<Rightarrow> zip (map show_nat [0..<length xs]) xs | _ \<Rightarrow> [])"

definition is_object :: "json \<Rightarrow> bool" where
  "is_object j \<longleftrightarrow> (case j of JObj fs \<Rightarrow> True | JArr xs \<Rightarrow> True | _ \<Rightarrow> False)"

definition json_is_number :: "json \<Rightarrow> bool" where
  "json_is_number j \<longleftrightarrow> (case j of JNum x \<Rightarrow> True | _ \<Rightarrow> False)"

text \<open>\<open>??=\<close> for every family.\<close>

definition fill_families :: "json \<Rightarrow> (string, json) jsmap \<Rightarrow> (string, json) jsmap" where
  "fill_families limit m =
     fold (\<lambda>family m. if jm_has m family then m else jm_set family limit m) MODEL_FAMILIES m"

definition migrate_limits :: "jsnum \<Rightarrow> json \<Rightarrow> (string, json) jsmap" where
  "migrate_limits now row =
     (let kept = (case json_field row ''rateLimitResetTimes'' of
                    Some (JObj fs) \<Rightarrow> fold (\<lambda>(family, v) m. if json_is_number v then jm_set family v m else m) fs []
                  | _ \<Rightarrow> [])
      in case json_field row ''rateLimitResetTime'' of
           Some (JNum (Finite t)) \<Rightarrow> if now < t then fill_families (JNum (Finite t)) kept else kept
         | _ \<Rightarrow> kept)"

definition migrate_row :: "jsnum \<Rightarrow> json \<Rightarrow> json" where
  "migrate_row now row =
     (let passthrough = jm_delete ''rateLimitResetTime'' (jm_delete ''rateLimitResetTimes'' (spread_fields row));
          limits = migrate_limits now row
      in JObj (if limits = [] then passthrough else passthrough @ [(''rateLimitResetTimes'', JObj limits)]))"

definition family_value :: "json option \<Rightarrow> string \<Rightarrow> json option" where
  "family_value byFamily family =
     (case byFamily of Some (JObj fs) \<Rightarrow>
        (case map_of fs family of Some v \<Rightarrow> if json_is_number v then Some v else None | None \<Rightarrow> None)
      | _ \<Rightarrow> None)"

text \<open>The two parts of \<open>migrateV1ToV3\<close> that are read later: the rows and the index of a family.\<close>

definition migrated_rows :: "jsnum \<Rightarrow> json list \<Rightarrow> json list" where
  "migrated_rows now rows = map (migrate_row now) (filter is_object rows)"

definition migrated_family :: "json \<Rightarrow> string \<Rightarrow> json option" where
  "migrated_family data family =
     (case family_value (json_field data ''activeIndexByFamily'') family of
        Some v \<Rightarrow> Some v | None \<Rightarrow> json_field data ''activeIndex'')"

section \<open>Normalisation\<close>

record normalized_storage =
  ns_accounts :: "json list"
  ns_activeIndex :: nat
  ns_activeIndexByFamily :: "(string \<times> nat) list"
  ns_pinnedAccountIndex :: "jsnum option"
  ns_affinityGeneration :: "jsnum option"

definition no_identity :: identity_ref where
  "no_identity = \<lparr>ir_accountId = None, ir_emailKey = None, ir_refreshToken = None\<rparr>"

definition extractActiveAccountRef :: "json list \<Rightarrow> nat \<Rightarrow> identity_ref" where
  "extractActiveAccountRef rows i =
     (if i < length rows \<and> isRecord (Some (rows ! i)) then row_ref (rows ! i) else no_identity)"

definition has_refresh_token :: "json \<Rightarrow> bool" where
  "has_refresh_token row \<longleftrightarrow> isRecord (Some row)
     \<and> (case row_string row ''refreshToken'' of None \<Rightarrow> False | Some t \<Rightarrow> js_trim t \<noteq> [])"

definition drop_invalidation :: "json \<Rightarrow> json" where
  "drop_invalidation row =
     (case row_number row ''authInvalidatedAt'' of
        Some t \<Rightarrow> if 0 < t then row
                   else json_put ''authInvalidationErrorCode'' None (json_put ''authInvalidatedAt'' None row)
      | None \<Rightarrow> json_put ''authInvalidationErrorCode'' None (json_put ''authInvalidatedAt'' None row))"

text \<open>The candidate is a normalised identity, which is normalised once more.\<close>

definition select_by_ref :: "json list \<Rightarrow> identity_ref \<Rightarrow> jsnum \<Rightarrow> nat" where
  "select_by_ref rows ref fallback =
     resolveAccountSelectionIndex rows (ir_accountId ref) (ir_emailKey ref) (ir_refreshToken ref) fallback"

definition kept_pin :: "json \<Rightarrow> nat \<Rightarrow> jsnum option" where
  "kept_pin data n =
     (case json_finite (json_field data ''pinnedAccountIndex'') of
        None \<Rightarrow> None
      | Some raw \<Rightarrow> let truncated = js_trunc raw
                    in if truncated < 0 \<or> of_nat n \<le> truncated then None else Some truncated)"

definition MAX_SAFE_INTEGER :: jsnum where
  "MAX_SAFE_INTEGER = 9007199254740991"

definition kept_generation :: "json \<Rightarrow> jsnum option" where
  "kept_generation data =
     (case json_finite (json_field data ''affinityGeneration'') of
        None \<Rightarrow> None
      | Some raw \<Rightarrow> if js_trunc raw = raw \<and> 0 \<le> raw \<and> raw \<le> MAX_SAFE_INTEGER then Some raw else None)"

text \<open>The result for an array of rows, once the version is known to be 1 or 3.\<close>

definition normalized_family_index :: "json \<Rightarrow> jsnum \<Rightarrow> json list \<Rightarrow> nat \<Rightarrow> json list \<Rightarrow> string \<Rightarrow> nat" where
  "normalized_family_index data version rawAccounts rawActiveIndex deduplicated family =
     (let raw = (if version = 1 then migrated_family data family
                 else family_value (json_field data ''activeIndexByFamily'') family);
          rawIndex = nullish (json_finite raw) (of_nat rawActiveIndex);
          familyRef = extractActiveAccountRef rawAccounts (clampIndex rawIndex (length rawAccounts))
      in select_by_ref deduplicated familyRef rawIndex)"

definition normalized_from :: "jsnum \<Rightarrow> json \<Rightarrow> jsnum \<Rightarrow> json list \<Rightarrow> normalized_storage" where
  "normalized_from now data version rawAccounts =
     (let activeIndexValue = nullish (json_finite (json_field data ''activeIndex'')) 0;
          rawActiveIndex = clampIndex activeIndexValue (length rawAccounts);
          activeRef = extractActiveAccountRef rawAccounts rawActiveIndex;
          base = (if version = 1 then migrated_rows now rawAccounts else rawAccounts);
          validAccounts = map drop_invalidation (filter has_refresh_token base);
          deduplicated = deduplicateAccounts validAccounts
      in \<lparr>ns_accounts = deduplicated,
          ns_activeIndex = (if deduplicated = [] then 0
            else select_by_ref deduplicated activeRef (of_nat rawActiveIndex)),
          ns_activeIndexByFamily =
            map (\<lambda>f. (f, normalized_family_index data version rawAccounts rawActiveIndex deduplicated f)) MODEL_FAMILIES,
          ns_pinnedAccountIndex = kept_pin data (length deduplicated),
          ns_affinityGeneration = kept_generation data\<rparr>)"

definition normalizeAccountStorage :: "jsnum \<Rightarrow> json \<Rightarrow> normalized_storage option" where
  "normalizeAccountStorage now data =
     (if \<not> isRecord (Some data) then None
      else case json_finite (json_field data ''version'') of
        None \<Rightarrow> None
      | Some version \<Rightarrow>
          if version \<noteq> 1 \<and> version \<noteq> 3 then None
          else case json_field data ''accounts'' of
            Some (JArr rawAccounts) \<Rightarrow> Some (normalized_from now data version rawAccounts)
          | _ \<Rightarrow> None)"

section \<open>What the passes keep\<close>

lemma dedup_loop_settled:
  "deduplicateAccountsByIdentityPass (dedup_loop xs) = dedup_loop xs
    \<and> list_all (\<lambda>i. match_ref (take i (dedup_loop xs)) (row_ref (dedup_loop xs ! i)) False = None)
        [0..<length (dedup_loop xs)]"
proof (induction xs rule: dedup_loop.induct)
  case (1 xs)
  show ?case
  proof (cases "length (deduplicateAccountsByIdentityPass xs) = length xs")
    case True
    then have "dedup_loop xs = xs" using pass_settled [OF True] by (subst dedup_loop.simps) (simp add: Let_def)
    then show ?thesis using pass_settled [OF True] by simp
  next
    case False
    then show ?thesis using 1 [OF refl False] by (subst (1 2 3 4 5) dedup_loop.simps) (simp add: Let_def)
  qed
qed

lemma linear_step_rows: "set (linear_step a s) \<subseteq> insert a (set s)" "linear_step a s \<noteq> []"
  using match_ref_range [of s "row_ref a" False]
  by (auto simp: linear_step_def dest: set_update_subset_insert [THEN subsetD] split: option.splits if_splits)

lemma pass_rows: "set (deduplicateAccountsByIdentityPass xs) \<subseteq> set xs"
  "deduplicateAccountsByIdentityPass xs = [] \<longleftrightarrow> xs = []"
proof -
  have "set (fold linear_step xs s) \<subseteq> set s \<union> set xs" for s
    by (induction xs arbitrary: s) (use linear_step_rows(1) in fastforce)+
  from this [of "[]"] show "set (deduplicateAccountsByIdentityPass xs) \<subseteq> set xs"
    by (simp add: dedup_pass_is_linear linear_pass_def)
  have "s \<noteq> [] \<Longrightarrow> fold linear_step ys s \<noteq> []" for s ys
    by (induction ys arbitrary: s) (simp_all add: linear_step_rows(2))
  then show "deduplicateAccountsByIdentityPass xs = [] \<longleftrightarrow> xs = []"
    using linear_step_rows(2) by (cases xs) (simp_all add: dedup_pass_is_linear linear_pass_def)
qed

lemma loop_keeps:
  assumes "\<And>ys. P ys \<Longrightarrow> P (deduplicateAccountsByIdentityPass ys)" and "P xs"
  shows "P (dedup_loop xs)"
  using assms(2)
proof (induction xs rule: dedup_loop.induct)
  case (1 xs)
  then show ?case using assms(1) by (subst dedup_loop.simps) (simp add: Let_def)
qed

lemma dedup_keeps:
  "(\<And>ys. P ys \<Longrightarrow> P (deduplicateAccountsByIdentityPass ys)) \<Longrightarrow> P xs \<Longrightarrow> P (deduplicateAccounts xs)"
  unfolding deduplicateAccounts_def deduplicateAccountsByIdentity_def by (intro loop_keeps [of P]) blast+

lemma dedup_rows: "set (deduplicateAccounts xs) \<subseteq> set xs" "deduplicateAccounts xs = [] \<longleftrightarrow> xs = []"
  using dedup_keeps [of "\<lambda>ys. set ys \<subseteq> set xs" xs] dedup_keeps [of "\<lambda>ys. ys = [] \<longleftrightarrow> xs = []" xs] pass_rows
  by blast+

lemma dedup_of_settled:
  "deduplicateAccountsByIdentityPass xs = xs \<Longrightarrow> deduplicateAccounts xs = xs"
  by (simp add: deduplicateAccounts_def deduplicateAccountsByIdentity_def dedup_loop.simps)

lemma dedup_settled: "deduplicateAccountsByIdentityPass (deduplicateAccounts xs) = deduplicateAccounts xs"
  by (simp only: deduplicateAccounts_def deduplicateAccountsByIdentity_def dedup_loop_settled)

text \<open>
  C12. The repeated passes end in a list that needs no further merge: no survivor matches an earlier one
  by any tier, deduplicating it again changes nothing, every survivor is one of the given accounts, and
  a list with accounts does not become empty.
\<close>

theorem dedup_settles:
  "list_all (\<lambda>i. match_ref (take i (deduplicateAccounts xs)) (row_ref (deduplicateAccounts xs ! i)) False = None)
      [0..<length (deduplicateAccounts xs)]
    \<and> deduplicateAccounts (deduplicateAccounts xs) = deduplicateAccounts xs
    \<and> set (deduplicateAccounts xs) \<subseteq> set xs
    \<and> (deduplicateAccounts xs = [] \<longleftrightarrow> xs = [])"
proof (intro conjI dedup_rows dedup_of_settled dedup_settled)
  show "list_all (\<lambda>i. match_ref (take i (deduplicateAccounts xs)) (row_ref (deduplicateAccounts xs ! i)) False = None)
      [0..<length (deduplicateAccounts xs)]"
    using dedup_loop_settled [of "deduplicateAccountsByIdentityPass xs"]
    by (simp only: deduplicateAccounts_def deduplicateAccountsByIdentity_def)
qed

text \<open>
  C11. The freshest login is never lost to a merge: an account that was used, or with equal use added,
  later than every other account is among the survivors.
\<close>

theorem dedup_keeps_newest:
  assumes "row \<in> set xs"
    and "\<forall>other\<in>set xs. other \<noteq> row \<longrightarrow>
      (row_lastUsed other, row_addedAt other) < (row_lastUsed row, row_addedAt row)"
  shows "row \<in> set (deduplicateAccounts xs)"
proof -
  have wins: "candidate_newest other row" "other \<noteq> row \<Longrightarrow> \<not> candidate_newest row other"
    if "other \<in> set xs" for other
    using assms(2) that by (cases "other = row"; auto simp: candidate_newest_def less_prod_def)+
  have keep: "row \<in> set (linear_step a s)" if mem: "row \<in> set s \<or> a = row" and sub: "set s \<subseteq> set xs" and inp: "a \<in> set xs" for a s
  proof (cases "match_ref s (row_ref a) False")
    case None
    then show ?thesis using mem by (auto simp: linear_step_def)
  next
    case (Some i)
    then have i: "i < length s" by (rule match_ref_range)
    then have here: "s ! i \<in> set xs" using sub i by auto
    show ?thesis
    proof (cases "a = row")
      case True
      then show ?thesis using Some i wins(1) [OF here] by (simp add: linear_step_def set_update_memI)
    next
      case False
      then obtain j where j: "j < length s" "s ! j = row" using mem by (auto simp: in_set_conv_nth)
      have "j \<noteq> i" if "candidate_newest (s ! i) a" using wins(2) [OF inp False] j that by auto
      then show ?thesis using Some j i
        by (auto simp: linear_step_def in_set_conv_nth nth_list_update)
    qed
  qed
  have run: "row \<in> set s \<or> row \<in> set ys \<Longrightarrow> set s \<subseteq> set xs \<Longrightarrow> set ys \<subseteq> set xs
      \<Longrightarrow> row \<in> set (fold linear_step ys s)" for ys s
  proof (induction ys arbitrary: s)
    case (Cons y ys)
    have "set (linear_step y s) \<subseteq> set xs" using linear_step_rows(1) [of y s] Cons.prems by auto
    with Cons keep [of s y] show ?case by auto
  qed simp
  have "row \<in> set (deduplicateAccountsByIdentityPass ys) \<and> set (deduplicateAccountsByIdentityPass ys) \<subseteq> set xs"
    if "row \<in> set ys \<and> set ys \<subseteq> set xs" for ys
    using run [of "[]" ys] that pass_rows(1) [of ys] by (auto simp: dedup_pass_is_linear linear_pass_def)
  from dedup_keeps [of "\<lambda>ys. row \<in> set ys \<and> set ys \<subseteq> set xs" xs, OF this] show ?thesis using assms(1) by blast
qed

definition sample_account_row :: "string \<Rightarrow> string \<Rightarrow> jsnum \<Rightarrow> json" where
  "sample_account_row email token used = JObj [(''email'', JStr email), (''refreshToken'', JStr token),
     (''lastUsed'', JNum (Finite used)), (''addedAt'', JNum (Finite 1))]"

definition sample_rows :: "json list" where
  "sample_rows = [sample_account_row ''a@x'' ''t1'' 3, sample_account_row ''A@x '' ''t2'' 5, sample_account_row ''b@x'' ''t3'' 4]"

theorem dedup_keeps_newest_witness:
  "sample_account_row ''A@x '' ''t2'' 5 \<in> set (deduplicateAccounts sample_rows)"
  by (rule dedup_keeps_newest)
    (simp_all add: sample_rows_def sample_account_row_def row_lastUsed_def row_addedAt_def row_number_def
      json_field_def json_finite_def)

section \<open>What normalisation promises\<close>

lemma clampIndex_range: "n \<noteq> 0 \<Longrightarrow> clampIndex x n < n"
proof -
  assume n: "n \<noteq> 0"
  have "\<lfloor>max 0 (min (js_trunc x) (of_nat n - 1))\<rfloor> \<le> \<lfloor>(of_nat n - 1 :: jsnum)\<rfloor>"
    using n by (intro floor_mono) simp
  also have "\<dots> = int n - 1" by (metis floor_of_int of_int_1 of_int_diff of_int_of_nat_eq)
  finally show "clampIndex x n < n" using n by (simp add: clampIndex_def)
qed

lemma select_range: "select_by_ref rows ref fallback < max 1 (length rows)"
  using clampIndex_range [of "length rows" fallback] match_ref_range
  by (auto simp: select_by_ref_def resolveAccountSelectionIndex_def findMatchingAccountIndex_def
      split: option.split)

lemma removed_field:
  "isRecord (Some (json_put k None j)) \<longleftrightarrow> isRecord (Some j)"
  "k' \<noteq> k \<Longrightarrow> json_field (json_put k None j) k' = json_field j k'"
  using jm_get_delete [of k _ k']
  by (auto simp: json_put_def isRecord_def json_field_def jm_get_def split: json.split)

lemma drop_invalidation_token: "has_refresh_token (drop_invalidation row) \<longleftrightarrow> has_refresh_token row"
  by (auto simp: has_refresh_token_def drop_invalidation_def row_string_def removed_field split: option.splits)

lemma dedup_ok_rows: "list_all has_refresh_token xs \<Longrightarrow> list_all has_refresh_token (deduplicateAccounts xs)"
  using dedup_rows(1) [of xs] by (auto simp: list_all_iff)

lemma valid_rows: "list_all has_refresh_token (map drop_invalidation (filter has_refresh_token xs))"
  by (simp add: list_all_iff drop_invalidation_token)

lemma normalized_family_index_range: "normalized_family_index data v raw i rows f < max 1 (length rows)"
  by (simp only: normalized_family_index_def Let_def select_range)

lemma normalize_from:
  "normalizeAccountStorage now data = Some s \<Longrightarrow> \<exists>version raw. s = normalized_from now data version raw"
  by (auto simp: normalizeAccountStorage_def split: if_splits option.splits json.splits)

text \<open>
  C10. What is read is well formed, whatever is in the file: every account has a refresh token, no two
  are duplicates, the active index of the pool and of every family points at an account (or is 0 in an
  empty pool), a pin that is kept is in range and the generation is a number that can be incremented.
\<close>

theorem normalized_well_formed:
  assumes "normalizeAccountStorage now data = Some s"
  shows "list_all has_refresh_token (ns_accounts s)
    \<and> deduplicateAccounts (ns_accounts s) = ns_accounts s
    \<and> ns_activeIndex s < max 1 (length (ns_accounts s))
    \<and> map fst (ns_activeIndexByFamily s) = MODEL_FAMILIES
    \<and> list_all (\<lambda>e. snd e < max 1 (length (ns_accounts s))) (ns_activeIndexByFamily s)
    \<and> (case ns_pinnedAccountIndex s of None \<Rightarrow> True | Some p \<Rightarrow> 0 \<le> p \<and> p < of_nat (length (ns_accounts s)))
    \<and> (case ns_affinityGeneration s of None \<Rightarrow> True | Some g \<Rightarrow> 0 \<le> g \<and> g + 1 \<le> 2 ^ 53)"
proof -
  obtain version raw where s: "s = normalized_from now data version raw"
    using normalize_from [OF assms] by blast
  define base where "base = (if version = 1 then migrated_rows now raw else raw)"
  have rows: "ns_accounts s = deduplicateAccounts (map drop_invalidation (filter has_refresh_token base))"
    by (simp add: s normalized_from_def Let_def base_def)
  have "\<exists>ref x. ns_activeIndex s = (if ns_accounts s = [] then 0 else select_by_ref (ns_accounts s) ref x)"
    unfolding s normalized_from_def Let_def normalized_storage.select_convs by blast
  then have active: "ns_activeIndex s < max 1 (length (ns_accounts s))" using select_range by auto
  have fam: "\<exists>v i. ns_activeIndexByFamily s = map (\<lambda>f. (f, normalized_family_index data v raw i (ns_accounts s) f)) MODEL_FAMILIES"
    unfolding s normalized_from_def Let_def normalized_storage.select_convs by blast
  have pin: "ns_pinnedAccountIndex s = kept_pin data (length (ns_accounts s))"
    and gen: "ns_affinityGeneration s = kept_generation data"
    by (simp_all add: s normalized_from_def Let_def)
  have "list_all has_refresh_token (ns_accounts s)" unfolding rows by (rule dedup_ok_rows [OF valid_rows])
  moreover have "deduplicateAccounts (ns_accounts s) = ns_accounts s"
    unfolding rows by (rule dedup_of_settled [OF dedup_settled])
  moreover note active
  moreover have "list_all (\<lambda>e. snd e < max 1 (length (ns_accounts s))) (ns_activeIndexByFamily s)"
    "map fst (ns_activeIndexByFamily s) = MODEL_FAMILIES"
    using fam normalized_family_index_range by (auto simp: list_all_iff comp_def)
  moreover have "case ns_pinnedAccountIndex s of None \<Rightarrow> True
      | Some p \<Rightarrow> 0 \<le> p \<and> p < of_nat (length (ns_accounts s))"
    unfolding pin kept_pin_def by (auto simp: Let_def split: option.split)
  moreover have "case ns_affinityGeneration s of None \<Rightarrow> True | Some g \<Rightarrow> 0 \<le> g \<and> g + 1 \<le> 2 ^ 53"
    unfolding gen kept_generation_def by (auto simp: MAX_SAFE_INTEGER_def split: option.split)
  ultimately show ?thesis by blast
qed

definition sample_file :: json where
  "sample_file = JObj [(''version'', JNum (Finite 3)), (''accounts'', JArr sample_rows),
     (''activeIndex'', JNum (Finite 2)), (''pinnedAccountIndex'', JNum (Finite 1))]"

text \<open>The pin is a position, which a merge shifts: it named \<open>a@x\<close> and names \<open>b@x\<close> afterwards.\<close>

lemma pin_moves:
  "map_option (\<lambda>s. (map (\<lambda>r. row_string r ''refreshToken'') (ns_accounts s), ns_activeIndex s,
      ns_pinnedAccountIndex s)) (normalizeAccountStorage 0 sample_file)
    = Some ([Some ''t2'', Some ''t3''], 1, Some 1)"
  by code_simp

theorem normalized_well_formed_witness:
  "ns_activeIndex (the (normalizeAccountStorage 0 sample_file))
    < max 1 (length (ns_accounts (the (normalizeAccountStorage 0 sample_file))))"
proof -
  obtain s where "normalizeAccountStorage 0 sample_file = Some s"
    using pin_moves by (cases "normalizeAccountStorage 0 sample_file") auto
  with normalized_well_formed [OF this] show ?thesis by simp
qed

section \<open>Limits across a migration\<close>

lemma family_fill:
  "jm_get (fill_families v m) f = (if f \<in> set MODEL_FAMILIES \<and> jm_get m f = None then Some v else jm_get m f)"
  by (simp add: fill_families_def MODEL_FAMILIES_def jm_has_def jm_get_set)

lemma number_entries:
  "jm_ok fs \<Longrightarrow> jm_get (fold (\<lambda>(k, v) m. if json_is_number v then jm_set k v m else m) fs m) f
    = (case jm_get fs f of Some v \<Rightarrow> if json_is_number v then Some v else jm_get m f | None \<Rightarrow> jm_get m f)"
proof (induction fs arbitrary: m)
  case (Cons e fs)
  obtain k v where e: "e = (k, v)" by (cases e)
  then have fresh: "jm_get fs k = None" "jm_ok fs" using Cons.prems by simp_all
  show ?case using Cons.IH [OF fresh(2)] fresh(1)
    by (auto simp: e jm_get_set split: option.split)
qed simp

lemma field_get: "json_field (JObj fs) k = jm_get fs k"
  by (simp add: json_field_def jm_get_def)

lemma field_append: "jm_get (fs @ gs) k = (case jm_get fs k of Some v \<Rightarrow> Some v | None \<Rightarrow> jm_get gs k)"
  by (simp add: jm_get_def map_add_def split: option.split)



end
