(* ===== verification/Spec2Isabelle.thy ===== *)
theory Spec2Isabelle
  imports QuotaScheduler AccountResults Backoff SessionAffinity LimitResults SelectionResults
    RuntimePolicy RoutingMutex HashlineEdit SnapshotResults Forecast AuthRateLimit ModelRoute
    RefreshQueue ContextBudget AccountNormalize
begin

text \<open>
  A verification of the account routing core of codex-multi-auth.

  \<^bold>\<open>The program.\<close>  The proxy and the plugin send each upstream request through one account of a
  pool.  \<open>lib/accounts.ts\<close> holds the pool: accounts with their limits, cooldowns and workspaces, and
  per model family an active index and a cursor.  Before an account is used its gates are asked
  (limits of \<open>lib/accounts/rate-limits.ts\<close>, cooldown, authentication, the breaker of
  \<open>lib/circuit-breaker.ts\<close>); candidates are ranked by the health scores and token buckets of
  \<open>lib/rotation.ts\<close>; \<open>lib/runtime/rotation-account-selection.ts\<close> combines pins, priorities,
  subscription quota (\<open>lib/runtime/subscription-quota-order.ts\<close>, \<open>lib/quota-readiness.ts\<close>), session
  affinity (\<open>lib/session-affinity.ts\<close>) and the selectors into one choice.  Afterwards the outcome is
  recorded in the trackers and breakers, a failure is classified by \<open>lib/request/failure-policy.ts\<close>,
  waits come from \<open>lib/request/rate-limit-backoff.ts\<close>, and \<open>lib/preemptive-quota-scheduler.ts\<close>
  defers accounts that are about to run out.  The account file is shared by processes: rows of one
  account are found and merged by \<open>lib/storage.ts\<close>, and a save is merged with the file by
  \<open>lib/storage/snapshot-merge.ts\<close>.  Tokens are refreshed through \<open>lib/refresh-queue.ts\<close>.

  \<^bold>\<open>Conventions.\<close>  JavaScript numbers are rationals (\<open>jsnum\<close>), with \<open>jsval\<close> where the code meets a
  number that may not be finite; rounding of doubles is not modelled.  Maps with insertion order
  are association lists (\<open>JsMap\<close>).  The clock is an argument \<open>now\<close>; each operation reads it once.
  State is passed explicitly; objects that the code mutates in place are updated records, and an
  account is named by its position in the pool.  Thrown errors are values of sum types.  The
  process id, random numbers, SHA-256, token claims and file contents are parameters.

  \<^bold>\<open>Theories.\<close>
    \<^item> \<open>Prelude\<close>, \<open>JsMap\<close>: numbers, strings, maps, timed runs of a machine and the locale
      \<open>stable_machine\<close> of invariants over them.
    \<^item> \<open>HealthTracker\<close>, \<open>TokenBucket\<close>, \<open>HybridSelection\<close>: \<open>lib/rotation.ts\<close>; scores and tokens stay in
      range, the admission rate of a bucket, optimality and the traced variant of the selection.
    \<^item> \<open>CircuitBreaker\<close>: the breaker, its probes and the registry of breakers.
    \<^item> \<open>RateLimits\<close>: quota keys with workspaces, the family test, pruning, bounds on deadlines.
    \<^item> \<open>Backoff\<close>: retry delays; \<open>SessionAffinity\<close>: versioned bindings of sessions; \<open>QuotaScheduler\<close>:
      deferrals; \<open>FailurePolicy\<close>: what a failure leads to; \<open>AccountIdentity\<close>: identity keys.
    \<^item> \<open>AccountState\<close>, \<open>AccountGates\<close>, \<open>AccountRotation\<close>, \<open>AccountLimits\<close>: the pool of \<open>lib/accounts.ts\<close>.
      \<open>AccountGates\<close> gives the gates a pure meaning (\<open>routable\<close>) and shows that evaluating them,
      which prunes, clears and registers on the way, answers it and changes it for no account; the
      locale \<open>checked_scan\<close> is the contract of a scan over such a check.
    \<^item> \<open>AccountRouting\<close>, \<open>AccountPointers\<close>, \<open>AccountResults\<close>, \<open>LimitResults\<close>: what the selectors return
      and leave behind, the pointer invariant over every operation, removal, admission, cooldowns,
      429s, manual selections and the reported wait.
    \<^item> \<open>SubscriptionQuota\<close>, \<open>AccountSelection\<close>, \<open>SelectionResults\<close>: the drain order and the whole
      choice of the proxy, with the transcription variant.
    \<^item> \<open>ModelMap\<close>: the model catalogue, the alias table and the resolvers of
      \<open>lib/request/helpers/model-map.ts\<close>, and the effort a request is sent with.
    \<^item> \<open>UsageLedger\<close>: rows of the usage ledger (\<open>lib/usage/redaction.ts\<close>, \<open>lib/usage/ledger.ts\<close>), their
      normalisation, and reading back what was written.
    \<^item> \<open>UsageCost\<close>: the price table of \<open>lib/usage/pricing.ts\<close> and what a request is charged;
      \<open>Calendar\<close>: UTC dates; \<open>UsageSummary\<close>: windows of rows and their totals; \<open>JsonStore\<close>: stamps and
      the merge of a save with the entries on disk, with the locale \<open>stamped_entries\<close>;
      \<open>BudgetGuard\<close>: limits, calendar windows and the verdict of \<open>lib/budget-guard.ts\<close>.
    \<^item> \<open>EntitlementCache\<close>: models an account may not use (\<open>lib/entitlement-cache.ts\<close>);
      \<open>CapabilityPolicy\<close>: what an account is credited with for a model (\<open>lib/capability-policy.ts\<close>).
    \<^item> \<open>AccountPolicy\<close>, \<open>RoutingProfile\<close>: the policy and profile files (\<open>lib/account-policy.ts\<close>,
      \<open>lib/routing-profiles.ts\<close>) and what concurrent saves leave in them; \<open>RuntimePolicy\<close>: the verdict on a
      request and the accounts it takes out (\<open>lib/policy/runtime-policy.ts\<close>), composed with the choice.
    \<^item> \<open>RoutingMutex\<close>: the mutex around the rotation pointers (\<open>lib/routing-mutex.ts\<close>) as a step
      relation: exclusion, order, progress, termination and the serial meaning of its sections.
    \<^item> \<open>DedupHeap\<close>: the heap of \<open>DedupNewestIndex\<close>, an interpretation of the locale \<open>owner_index\<close>;
      \<open>AccountMatch\<close>: the tiers of \<open>findMatchingAccountIndex\<close>; \<open>AccountDedup\<close>, \<open>DedupResults\<close>: the
      deduplication pass over incremental indexes (\<open>lib/storage.ts\<close>) and its equality with linear scans.
    \<^item> \<open>AccountNormalize\<close>: the passes repeated until the list settles, the migration of version 1
      (\<open>lib/storage/migrations.ts\<close>) and \<open>normalizeAccountStorage\<close> (\<open>lib/storage.ts\<close>): what is read
      from a file of either version is well formed.
    \<^item> \<open>SnapshotMerge\<close>, \<open>SnapshotResults\<close>: the three-way merge of a save; who is in the file afterwards,
      which edits and limits survive, and where the pointers point.
    \<^item> \<open>AccountStatus\<close>: recovery times, labels and masking (\<open>lib/runtime/account-status.ts\<close>,
      \<open>lib/redaction.ts\<close>); \<open>JsSort\<close>: sorting by a comparator; \<open>Forecast\<close>: the forecast and its
      recommendation (\<open>lib/forecast.ts\<close>).
    \<^item> \<open>AuthRateLimit\<close>: the sliding window of login attempts (\<open>lib/auth-rate-limit.ts\<close>);
      \<open>RefreshQueue\<close>: one refresh per token as a step relation over its continuations
      (\<open>lib/refresh-queue.ts\<close>); \<open>ContextBudget\<close>: the guard on the size of a session's context
      (\<open>lib/context-budget-guard.ts\<close>); \<open>ModelRoute\<close>: routes of model names to catalogues
      (\<open>lib/model-route-policy.ts\<close>).
    \<^item> \<open>JsText\<close>, \<open>HashlineEdit\<close>: searching, splitting and joining of text, and the edits by line and
      hash (\<open>lib/tools/hashline-tools.ts\<close>).

  \<^bold>\<open>Loops and fuel.\<close>  Every loop is structural recursion over a list, a fold or a scan of the finite
  pool, or, for the
  heap, a recursion on its positions or its length, so no fuel is needed and every definition is total; runs
  of the mutex are bounded by a measure.  The two recursive calls of
  \<open>chooseAccount\<close> are unrolled into layers, as \<open>AccountSelection\<close> explains.

  \<^bold>\<open>Hypotheses.\<close>  \<open>pool_ok\<close>: account tables are proper maps, refresh tokens are not blank and the
  registry invariant holds.  \<open>room\<close>: the breakers the pool still has to register fit into the
  registry (at most 100) without an eviction.  \<open>pointer_inv\<close> is itself proved for every run.

  \<^bold>\<open>Not modelled.\<close>  File I/O, locks, backups and journals of the storage files, the OAuth protocol and
  the lease files of a refresh (their replies are inputs), HTTP, WebSocket and stream handling, request
  rewriting, the union of model catalogues, the command line, menus and dashboards, integration with
  the Codex CLI and app: their decisions that concern routing enter as parameters.
\<close>

end
